(* ===== verification/Prelude.thy ===== *)
theory Prelude
  imports Main "HOL-Library.State_Monad" "HOL-Library.Sublist"
begin

text \<open>
  What every theory of the library shares: the machine arithmetic the Rust source uses (written
  out on \<open>nat\<close>, with the saturation or wrap-around of the operation), strings as lists of Unicode
  scalar values (Rust's \<open>chars()\<close>), the state monad of the asynchronous code, and a small
  weakest-precondition calculus for it. The collections \<open>wp_intros\<close> (the lemma of each operation
  in that calculus) and \<open>frame_simps\<close> grow with the components.
\<close>

section \<open>Collections\<close>

named_theorems wp_intros
named_theorems frame_simps

section \<open>Machine integers\<close>

text \<open>
  Counters and sizes are \<open>nat\<close> values below the bound of their Rust type; the operations that can
  leave the range say what they do there. \<open>usize\<close> is 64 bits wide in the host binary.
\<close>

definition u32_max :: nat where "u32_max = 2 ^ 32 - 1"

definition u64_max :: nat where "u64_max = 2 ^ 64 - 1"

definition sat_add64 :: "nat \<Rightarrow> nat \<Rightarrow> nat" where
  "sat_add64 a b = min (a + b) u64_max"

definition sat_mul64 :: "nat \<Rightarrow> nat \<Rightarrow> nat" where
  "sat_mul64 a b = min (a * b) u64_max"

definition sat_mul32 :: "nat \<Rightarrow> nat \<Rightarrow> nat" where
  "sat_mul32 a b = min (a * b) u32_max"

text \<open>Subtraction on \<open>nat\<close> stops at zero, which is Rust's \<open>saturating_sub\<close>.\<close>

definition sat_sub :: "nat \<Rightarrow> nat \<Rightarrow> nat" where
  "sat_sub a b = a - b"

definition wrapping_add32 :: "nat \<Rightarrow> nat \<Rightarrow> nat" where
  "wrapping_add32 a b = (a + b) mod 2 ^ 32"

text \<open>Plain \<open>+\<close> on \<open>u64\<close> in the release profile (\<open>overflow-checks\<close> off): it wraps.\<close>

definition add64 :: "nat \<Rightarrow> nat \<Rightarrow> nat" where
  "add64 a b = (a + b) mod 2 ^ 64"

definition checked_add32 :: "nat \<Rightarrow> nat \<Rightarrow> nat option" where
  "checked_add32 a b = (if a + b \<le> u32_max then Some (a + b) else None)"

text \<open>\<open>u32::try_from(x).unwrap_or(u32::MAX)\<close>.\<close>

definition clamp32 :: "nat \<Rightarrow> nat" where
  "clamp32 x = (if x \<le> u32_max then x else u32_max)"

lemma sat_add64_exact: "a + b \<le> u64_max \<Longrightarrow> sat_add64 a b = a + b"
  by (simp add: sat_add64_def)

lemma sat_add64_le: "sat_add64 a b \<le> u64_max"
  by (simp add: sat_add64_def)

lemma sat_add64_mono: "a \<le> a' \<Longrightarrow> sat_add64 a b \<le> sat_add64 a' b"
  by (simp add: sat_add64_def)

lemma sat_mul64_mono: "a \<le> a' \<Longrightarrow> sat_mul64 a b \<le> sat_mul64 a' b"
  unfolding sat_mul64_def by (intro min.mono mult_le_mono1) auto

lemma add64_exact: "a + b < 2 ^ 64 \<Longrightarrow> add64 a b = a + b"
  by (simp add: add64_def)

lemma clamp32_le: "clamp32 x \<le> u32_max"
  by (simp add: clamp32_def)

section \<open>Strings\<close>

text \<open>
  A Rust \<open>String\<close> as the list of its Unicode scalar values, so that \<open>length\<close> is
  \<open>chars().count()\<close>. \<open>lit\<close> embeds an ASCII literal.
\<close>

type_synonym ustring = "nat list"

definition lit :: "string \<Rightarrow> ustring" where
  "lit s = map of_char s"

definition newline :: ustring where
  "newline = [10]"

lemma length_lit: "length (lit s) = length s"
  by (simp add: lit_def)

text \<open>Decimal rendering of an unsigned integer, as \<open>format!("{n}")\<close> prints it.\<close>

fun dec :: "nat \<Rightarrow> ustring" where
  "dec n = (if n < 10 then [48 + n] else dec (n div 10) @ [48 + n mod 10])"

declare dec.simps [simp del]

lemma dec_nonempty: "dec n \<noteq> []"
  by (subst dec.simps) simp

lemma dec_digits: "d \<in> set (dec n) \<Longrightarrow> 48 \<le> d \<and> d \<le> 57"
proof (induction n rule: dec.induct)
  case (1 n)
  show ?case
  proof (cases "n < 10")
    case True
    with "1.prems" show ?thesis by (simp add: dec.simps [of n])
  next
    case False
    with "1.prems" have "d \<in> set (dec (n div 10)) \<or> d = 48 + n mod 10"
      by (auto simp: dec.simps [of n])
    with "1.IH" False show ?thesis by auto
  qed
qed

text \<open>\<open>parts.join(sep)\<close> of the standard library.\<close>

fun join_with :: "'a list \<Rightarrow> 'a list list \<Rightarrow> 'a list" where
  "join_with sep [] = []"
| "join_with sep [x] = x"
| "join_with sep (x # y # zs) = x @ sep @ join_with sep (y # zs)"

lemma length_join_with:
  "length (join_with sep xs) = sum_list (map length xs) + (length xs - 1) * length sep"
  by (induction sep xs rule: join_with.induct) auto

definition starts_with :: "'a list \<Rightarrow> 'a list \<Rightarrow> bool" where
  "starts_with p s \<longleftrightarrow> take (length p) s = p"

definition ends_with :: "'a list \<Rightarrow> 'a list \<Rightarrow> bool" where
  "ends_with p s \<longleftrightarrow> length p \<le> length s \<and> drop (length s - length p) s = p"

text \<open>\<open>str::strip_prefix\<close>.\<close>

definition strip_prefix :: "'a list \<Rightarrow> 'a list \<Rightarrow> 'a list option" where
  "strip_prefix p s = (if starts_with p s then Some (drop (length p) s) else None)"

lemma starts_with_append [simp]: "starts_with p (p @ s)"
  by (simp add: starts_with_def)

lemma ends_with_append [simp]: "ends_with p (s @ p)"
  by (simp add: ends_with_def)

lemma strip_prefix_append [simp]: "strip_prefix p (p @ s) = Some s"
  by (simp add: strip_prefix_def)

section \<open>JSON values\<close>

text \<open>
  The constructors of \<open>serde_json::Value\<close> as the code matches on and builds them; a number is kept
  as the text it was written with. The printer of the library is a parameter where it is used.
\<close>

datatype json =
    JNull
  | JBool bool
  | JNumber ustring
  | JString ustring
  | JArray "json list"
  | JObject "(ustring \<times> json) list"

section \<open>Lists and searches\<close>

text \<open>\<open>iter().find_map(f)\<close>, and the same from the back with positions.\<close>

fun find_map :: "('a \<Rightarrow> 'b option) \<Rightarrow> 'a list \<Rightarrow> 'b option" where
  "find_map f [] = None"
| "find_map f (x # xs) = (case f x of Some y \<Rightarrow> Some y | None \<Rightarrow> find_map f xs)"

lemma find_map_None: "find_map f xs = None \<longleftrightarrow> (\<forall>x \<in> set xs. f x = None)"
  by (induction xs) (auto split: option.splits)

lemma find_map_SomeD: "find_map f xs = Some y \<Longrightarrow> \<exists>x \<in> set xs. f x = Some y"
  by (induction xs) (auto split: option.splits)

lemma find_SomeD: "List.find P xs = Some x \<Longrightarrow> x \<in> set xs \<and> P x"
  by (induction xs) (auto split: if_splits)

lemma find_None: "List.find P xs = None \<longleftrightarrow> (\<forall>x \<in> set xs. \<not> P x)"
  by (induction xs) auto

text \<open>Removing position \<open>i\<close> of a list (\<open>VecDeque::remove\<close>).\<close>

definition remove_at :: "nat \<Rightarrow> 'a list \<Rightarrow> 'a list" where
  "remove_at i xs = take i xs @ drop (Suc i) xs"

lemma length_remove_at: "i < length xs \<Longrightarrow> length (remove_at i xs) = length xs - 1"
  by (auto simp: remove_at_def)

lemma mset_split_at: "i < length xs \<Longrightarrow> set xs = insert (xs ! i) (set (remove_at i xs))"
  by (auto simp: remove_at_def) (metis Cons_nth_drop_Suc Un_iff append_take_drop_id
      list.set_intros(1) list.set_intros(2) nth_mem set_ConsD set_append)+

text \<open>\<open>iter().position(p)\<close>.\<close>

fun position :: "('a \<Rightarrow> bool) \<Rightarrow> 'a list \<Rightarrow> nat option" where
  "position P [] = None"
| "position P (x # xs) = (if P x then Some 0 else map_option Suc (position P xs))"

lemma position_SomeD: "position P xs = Some i \<Longrightarrow> i < length xs \<and> P (xs ! i) \<and> (\<forall>j < i. \<not> P (xs ! j))"
proof (induction xs arbitrary: i)
  case Nil
  then show ?case by simp
next
  case (Cons x xs)
  show ?case
  proof (cases "P x")
    case True
    with Cons.prems show ?thesis by simp
  next
    case False
    with Cons.prems obtain k where "i = Suc k" "position P xs = Some k" by auto
    with Cons.IH False show ?thesis by (auto simp: less_Suc_eq_0_disj)
  qed
qed

lemma position_None: "position P xs = None \<longleftrightarrow> (\<forall>x \<in> set xs. \<not> P x)"
  by (induction xs) auto

text \<open>
  \<open>while end < n && p(end) { end += 1 }\<close>, the loop that finds the end of a run: of Shared calls in
  the core, of tool results in the context policy.
\<close>

function run_end :: "(nat \<Rightarrow> bool) \<Rightarrow> nat \<Rightarrow> nat \<Rightarrow> nat" where
  "run_end p n e = (if e < n \<and> p e then run_end p n (Suc e) else e)"
  by pat_completeness auto
termination
  by (relation "measure (\<lambda>(p, n, e). n - e)") auto

declare run_end.simps [simp del]

lemma run_end_ge: "e \<le> run_end p n e"
proof (induction p n e rule: run_end.induct)
  case (1 p n e)
  then show ?case
    by (cases "e < n \<and> p e") (auto simp: run_end.simps [of p n e])
qed

lemma run_end_le: "e \<le> n \<Longrightarrow> run_end p n e \<le> n"
proof (induction p n e rule: run_end.induct)
  case (1 p n e)
  then show ?case
    by (cases "e < n \<and> p e") (auto simp: run_end.simps [of p n e])
qed

lemma run_end_all: "e \<le> i \<Longrightarrow> i < run_end p n e \<Longrightarrow> p i"
proof (induction p n e rule: run_end.induct)
  case (1 p n e)
  then show ?case
    by (cases "e < n \<and> p e"; cases "e = i")
      (auto simp: run_end.simps [of p n e] run_end.simps [of p n i])
qed

lemma run_end_maximal: "run_end p n e < n \<Longrightarrow> \<not> p (run_end p n e)"
proof (induction p n e rule: run_end.induct)
  case (1 p n e)
  then show ?case
    by (cases "e < n \<and> p e") (auto simp: run_end.simps [of p n e])
qed

section \<open>The state monad of the asynchronous code\<close>

text \<open>
  An \<open>async fn\<close> of the source is a computation over the state of the agent it borrows mutably,
  written in \<^theory_text>\<open>do\<close> blocks of the library's state monad. \<open>wp m Q s\<close>: run from \<open>s\<close>, the
  computation \<open>m\<close> gives a result and a state that satisfy \<open>Q\<close>.
\<close>

abbreviation ret :: "'a \<Rightarrow> ('s, 'a) state" where
  "ret \<equiv> State_Monad.return"

definition gets :: "('s \<Rightarrow> 'a) \<Rightarrow> ('s, 'a) state" where
  "gets f = State (\<lambda>s. (f s, s))"

definition modify :: "('s \<Rightarrow> 's) \<Rightarrow> ('s, unit) state" where
  "modify f = State (\<lambda>s. ((), f s))"

definition wp :: "('s, 'a) state \<Rightarrow> ('a \<Rightarrow> 's \<Rightarrow> bool) \<Rightarrow> 's \<Rightarrow> bool" where
  "wp m Q s \<longleftrightarrow> Q (fst (run_state m s)) (snd (run_state m s))"

lemma run_state_gets [simp]: "run_state (gets f) s = (f s, s)"
  by (simp add: gets_def)

lemma run_state_modify [simp]: "run_state (modify f) s = ((), f s)"
  by (simp add: modify_def)

lemma wp_return [simp]: "wp (State_Monad.return x) Q = Q x"
  by (simp add: fun_eq_iff wp_def)

lemma wp_bind [simp]: "wp (State_Monad.bind m f) Q = wp m (\<lambda>r. wp (f r) Q)"
  by (simp add: fun_eq_iff wp_def case_prod_beta)

lemma wp_get [simp]: "wp State_Monad.get Q s \<longleftrightarrow> Q s s"
  by (simp add: wp_def)

lemma wp_gets [simp]: "wp (gets f) Q s \<longleftrightarrow> Q (f s) s"
  by (simp add: wp_def)

lemma wp_modify [simp]: "wp (modify f) Q s \<longleftrightarrow> Q () (f s)"
  by (simp add: wp_def)

lemma wp_let [simp]: "wp (let y = x in f y) Q s \<longleftrightarrow> wp (f x) Q s"
  by simp

lemma wp_mono: "wp m P s \<Longrightarrow> (\<And>r t. P r t \<Longrightarrow> Q r t) \<Longrightarrow> wp m Q s"
  by (simp add: wp_def)

lemma wp_conj: "wp m P s \<Longrightarrow> wp m Q s \<Longrightarrow> wp m (\<lambda>r t. P r t \<and> Q r t) s"
  by (simp add: wp_def)

lemma wp_run: "wp m Q s \<Longrightarrow> run_state m s = (r, t) \<Longrightarrow> Q r t"
  by (simp add: wp_def)

lemma wp_runI: "(\<And>r t. run_state m s = (r, t) \<Longrightarrow> Q r t) \<Longrightarrow> wp m Q s"
  by (simp add: wp_def)

text \<open>The branches of a computation, for proofs that take them one at a time.\<close>

lemma wp_ifI: "(b \<Longrightarrow> wp m Q s) \<Longrightarrow> (\<not> b \<Longrightarrow> wp n Q s) \<Longrightarrow> wp (if b then m else n) Q s"
  by simp

lemma wp_optionI:
  "(x = None \<Longrightarrow> wp m Q s) \<Longrightarrow> (\<And>y. x = Some y \<Longrightarrow> wp (f y) Q s) \<Longrightarrow>
    wp (case x of None \<Rightarrow> m | Some y \<Rightarrow> f y) Q s"
  by (cases x) simp_all

lemma wp_sumI:
  "(\<And>y. x = Inl y \<Longrightarrow> wp (f y) Q s) \<Longrightarrow> (\<And>y. x = Inr y \<Longrightarrow> wp (g y) Q s) \<Longrightarrow>
    wp (case x of Inl y \<Rightarrow> f y | Inr y \<Rightarrow> g y) Q s"
  by (cases x) simp_all

text \<open>
  An invariant of a computation: \<open>keeps I m\<close> says \<open>m\<close> takes states with \<open>I\<close> to states with \<open>I\<close>,
  whatever it returns. The rules take a \<^theory_text>\<open>do\<close> block apart.
\<close>

definition keeps :: "('s \<Rightarrow> bool) \<Rightarrow> ('s, 'a) state \<Rightarrow> bool" where
  "keeps I m \<longleftrightarrow> (\<forall>s. I s \<longrightarrow> I (snd (run_state m s)))"

named_theorems keeps_intros

lemma keeps_return [keeps_intros]: "keeps I (State_Monad.return x)"
  by (simp add: keeps_def)

lemma keeps_bind [keeps_intros]: "keeps I m \<Longrightarrow> (\<And>x. keeps I (f x)) \<Longrightarrow> keeps I (State_Monad.bind m f)"
  by (simp add: keeps_def case_prod_beta)

lemma keeps_get [keeps_intros]: "keeps I State_Monad.get"
  by (simp add: keeps_def)

lemma keeps_gets [keeps_intros]: "keeps I (gets f)"
  by (simp add: keeps_def)

lemma keeps_modify: "(\<And>s. I s \<Longrightarrow> I (f s)) \<Longrightarrow> keeps I (modify f)"
  by (simp add: keeps_def)

lemma keeps_if [keeps_intros]: "(b \<Longrightarrow> keeps I m) \<Longrightarrow> (\<not> b \<Longrightarrow> keeps I n) \<Longrightarrow> keeps I (if b then m else n)"
  by simp

lemma keeps_option [keeps_intros]:
  "(x = None \<Longrightarrow> keeps I m) \<Longrightarrow> (\<And>y. x = Some y \<Longrightarrow> keeps I (f y)) \<Longrightarrow>
    keeps I (case x of None \<Rightarrow> m | Some y \<Rightarrow> f y)"
  by (cases x) simp_all

lemma keeps_sum [keeps_intros]:
  "(\<And>y. x = Inl y \<Longrightarrow> keeps I (f y)) \<Longrightarrow> (\<And>y. x = Inr y \<Longrightarrow> keeps I (g y)) \<Longrightarrow>
    keeps I (case x of Inl y \<Rightarrow> f y | Inr y \<Rightarrow> g y)"
  by (cases x) simp_all

lemma keeps_prod [keeps_intros]: "(\<And>a b. x = (a, b) \<Longrightarrow> keeps I (f a b)) \<Longrightarrow> keeps I (case x of (a, b) \<Rightarrow> f a b)"
  by (cases x) simp

lemma keeps_let [keeps_intros]: "keeps I (f x) \<Longrightarrow> keeps I (let y = x in f y)"
  by simp

lemma keepsD: "keeps I m \<Longrightarrow> I s \<Longrightarrow> run_state m s = (r, t) \<Longrightarrow> I t"
  by (metis keeps_def snd_conv)

lemma keeps_wp: "keeps I m \<Longrightarrow> I s \<Longrightarrow> wp m (\<lambda>r t. I t) s"
  by (simp add: keeps_def wp_def)

end
