(* ===== verification/Contracts.thy ===== *)
theory Contracts
  imports Prelude
begin

text \<open>
  The data of \<open>crates/p1-contracts/src\<close>: history items (\<open>history.rs\<close>), the provider seam
  (\<open>provider.rs\<close>), the tool seam (\<open>tool.rs\<close>), journal records (\<open>journal.rs\<close>), the policy seam
  and the events (\<open>policy.rs\<close>), and the references of \<open>attachment.rs\<close> that history items carry.
  A struct is a record whose fields carry a short prefix, an enum a datatype with the source's
  variants; the trait objects themselves (providers, tools, policies, sinks) are in \<open>CoreState\<close>.
\<close>

section \<open>Attachments as history refers to them\<close>

datatype image_type = Png | Jpeg | Gif | Webp

text \<open>The checked newtype \<open>AttachmentId\<close>; its constructor function is in \<open>Attachment\<close>.\<close>

datatype attachment_id = AttachmentId ustring

fun id_text :: "attachment_id \<Rightarrow> ustring" where
  "id_text (AttachmentId hex) = hex"

record image_ref =
  im_id :: attachment_id
  im_media_type :: image_type
  im_bytes :: nat
  im_width :: nat
  im_height :: nat

record file_ref =
  fl_id :: attachment_id
  fl_name :: ustring
  fl_bytes :: nat

text \<open>Resolved base64 data and resolved paths are only present inside one provider request.\<close>

datatype user_block =
    UbText ustring
  | UbImage image_ref "ustring option"
  | UbFile file_ref "ustring option"

section \<open>History (\<open>history.rs\<close>)\<close>

record origin =
  org_route :: ustring
  org_model :: ustring

record replay_data =
  rd_origin :: origin
  rd_version :: nat
  rd_payload :: json

datatype tool_input = TiJson ustring | TiText ustring

fun ti_raw :: "tool_input \<Rightarrow> ustring" where
  "ti_raw (TiJson raw) = raw"
| "ti_raw (TiText raw) = raw"

record tool_call =
  tc_call_id :: ustring
  tc_name :: ustring
  tc_input :: tool_input

datatype assistant_block =
    AbText ustring
  | AbReasoning ustring "replay_data option"
  | AbToolCall tool_call

record assistant_item =
  ai_origin :: origin
  ai_blocks :: "assistant_block list"

fun block_tool_call :: "assistant_block \<Rightarrow> tool_call option" where
  "block_tool_call (AbToolCall c) = Some c"
| "block_tool_call _ = None"

definition tool_calls :: "assistant_item \<Rightarrow> tool_call list" where
  "tool_calls a = List.map_filter block_tool_call (ai_blocks a)"

fun block_text :: "assistant_block \<Rightarrow> ustring option" where
  "block_text (AbText t) = Some t"
| "block_text _ = None"

definition assistant_text :: "assistant_item \<Rightarrow> ustring" where
  "assistant_text a = join_with newline (List.map_filter block_text (ai_blocks a))"

datatype tool_status = StOk | StError | StUnavailable | StDenied | StCancelled | StUnknown

record tool_result_item =
  tr_call_id :: ustring
  tr_name :: ustring
  tr_status :: tool_status
  tr_content :: ustring

datatype inbox_kind = Steering | Notification

datatype item =
    ItUser ustring
  | ItUserContent "user_block list"
  | ItInbox inbox_kind ustring
  | ItAssistant assistant_item
  | ItToolResult tool_result_item

datatype user_input = UiText ustring | UiContent "user_block list"

fun item_user_input :: "item \<Rightarrow> user_input option" where
  "item_user_input (ItUser t) = Some (UiText t)"
| "item_user_input (ItUserContent bs) = Some (UiContent bs)"
| "item_user_input (ItInbox _ _) = None"
| "item_user_input (ItAssistant _) = None"
| "item_user_input (ItToolResult _) = None"

fun ub_text :: "user_block \<Rightarrow> ustring option" where
  "ub_text (UbText t) = Some t"
| "ub_text _ = None"

fun user_input_text :: "user_input \<Rightarrow> ustring" where
  "user_input_text (UiText t) = t"
| "user_input_text (UiContent bs) = join_with newline (List.map_filter ub_text bs)"

fun user_input_blocks :: "user_input \<Rightarrow> user_block list" where
  "user_input_blocks (UiText t) = [UbText t]"
| "user_input_blocks (UiContent bs) = bs"

section \<open>Tools (\<open>tool.rs\<close>)\<close>

record grammar =
  gr_syntax :: ustring
  gr_definition :: ustring

datatype declaration_kind = DkFunction json | DkFreeform "grammar option"

record tool_declaration =
  td_name :: ustring
  td_description :: ustring
  td_kind :: declaration_kind

record tool_identity =
  tid_implementation :: ustring
  tid_variant :: ustring

datatype effect = ReadOnly | WritesFiles | Executes | Delegates

datatype concurrency = Shared | Exclusive

record tool_outcome =
  to_status :: tool_status
  to_content :: ustring

section \<open>Providers (\<open>provider.rs\<close>)\<close>

datatype effort = EffOff | EffLow | EffMedium | EffHigh | EffExtraHigh | EffMax

text \<open>The derived order of \<open>Effort\<close>: from least to most reasoning.\<close>

primrec effort_rank :: "effort \<Rightarrow> nat" where
  "effort_rank EffOff = 0"
| "effort_rank EffLow = 1"
| "effort_rank EffMedium = 2"
| "effort_rank EffHigh = 3"
| "effort_rank EffExtraHigh = 4"
| "effort_rank EffMax = 5"

lemma effort_rank_inj: "effort_rank x = effort_rank y \<Longrightarrow> x = y"
  by (cases x; cases y) simp_all

instantiation effort :: linorder
begin

definition less_eq_effort :: "effort \<Rightarrow> effort \<Rightarrow> bool" where
  "less_eq_effort x y \<longleftrightarrow> effort_rank x \<le> effort_rank y"

definition less_effort :: "effort \<Rightarrow> effort \<Rightarrow> bool" where
  "less_effort x y \<longleftrightarrow> effort_rank x < effort_rank y"

instance
  by standard (auto simp: less_eq_effort_def less_effort_def dest: effort_rank_inj)

end

record model_options =
  mo_reasoning_effort :: "effort option"
  mo_max_output_tokens :: "nat option"
  mo_cache_key :: "ustring option"
  mo_native :: "(ustring \<times> json) list"

record provider_request =
  pr_system_prompt :: ustring
  pr_history :: "item list"
  pr_tools :: "tool_declaration list"
  pr_options :: model_options

datatype cache_key_support = CkUnsupported | CkOptional

datatype input_modality = ImText | ImImage

record route_description =
  rt_origin :: origin
  rt_supports_freeform_tools :: bool
  rt_mandatory_prompt_prefix :: "ustring option"
  rt_reports_cost :: bool
  rt_cache_key :: cache_key_support
  rt_input_modalities :: "input_modality list"

definition accepts_images :: "route_description \<Rightarrow> bool" where
  "accepts_images r \<longleftrightarrow> ImImage \<in> set (rt_input_modalities r)"

record usage =
  us_input_uncached :: "nat option"
  us_cache_read :: "nat option"
  us_cache_write :: "nat option"
  us_output :: "nat option"
  us_reasoning_output :: "nat option"
  us_cost_micro_usd :: "nat option"

datatype stop_reason =
    SrEndTurn
  | SrToolUse
  | SrMaxOutputTokens
  | SrContextWindowExceeded
  | SrRefusal
  | SrPaused
  | SrOther

record completed_response =
  cr_item :: assistant_item
  cr_stop :: stop_reason
  cr_usage :: "usage option"

datatype provider_error_kind =
    PkInvalidRequest
  | PkAuthentication
  | PkInsufficientBalance
  | PkNotEntitled
  | PkUsageLimitExhausted
  | PkRateLimited
  | PkContextWindowExceeded
  | PkTransport
  | PkProtocol

record provider_error =
  pe_kind :: provider_error_kind
  pe_message :: ustring

datatype outcome = OcCompleted completed_response | OcFailed provider_error | OcCancelled

datatype wait_reason = WrRateLimited | WrServerError | WrTransport | WrSlowFirstByte | WrBusy

record wait =
  wt_reason :: wait_reason
  wt_attempt :: nat
  wt_delay_ms :: nat

datatype stream_event =
    SeTextDelta nat ustring
  | SeReasoningDelta nat ustring
  | SeToolInputDelta ustring ustring ustring
  | SeNotice ustring
  | SeActivity
  | SeWait wait_reason nat nat
  | SeFinished outcome

section \<open>Journal records (\<open>journal.rs\<close>)\<close>

datatype interruption_reason = IrCancelled | IrProviderFailed

datatype record_body =
    RbEnvironment route_description ustring "(tool_declaration \<times> tool_identity) list" model_options
  | RbUserInput ustring
  | RbUserContent "user_block list"
  | RbInbox inbox_kind ustring
  | RbAssistantCompleted assistant_item stop_reason "usage option"
  | RbAssistantInterrupted interruption_reason ustring "provider_error option"
  | RbToolStarted ustring tool_identity
  | RbToolFinished tool_result_item "int option option"
  | RbContextReplaced "item list" "usage option"
  | RbRequestTiming nat nat "nat option" "nat option" nat "wait list"

fun record_user_input :: "record_body \<Rightarrow> user_input option" where
  "record_user_input (RbUserInput t) = Some (UiText t)"
| "record_user_input (RbUserContent bs) = Some (UiContent bs)"
| "record_user_input (RbEnvironment _ _ _ _) = None"
| "record_user_input (RbInbox _ _) = None"
| "record_user_input (RbAssistantCompleted _ _ _) = None"
| "record_user_input (RbAssistantInterrupted _ _ _) = None"
| "record_user_input (RbToolStarted _ _) = None"
| "record_user_input (RbToolFinished _ _) = None"
| "record_user_input (RbContextReplaced _ _) = None"
| "record_user_input (RbRequestTiming _ _ _ _ _ _) = None"

record journal_record =
  jr_seq :: nat
  jr_body :: record_body

section \<open>Policies and events (\<open>policy.rs\<close>)\<close>

datatype context_error = CeCancelled | CeFailed ustring

record context_input =
  ci_history :: "item list"
  ci_last_usage :: "usage option"

record prepared =
  pp_items :: "item list"
  pp_usage :: "usage option"

datatype compaction = CpReplaced prepared nat nat | CpUnchanged nat

record authorization_request =
  ar_call :: tool_call
  ar_identity :: tool_identity
  ar_effect :: effect

datatype decision = Permit | Deny ustring

datatype turn_end =
    TeCompleted stop_reason
  | TeCancelled
  | TeProviderFailed provider_error
  | TeCommitFailed ustring
  | TeContextFailed ustring

datatype agent_event =
    EvTurnStarted
  | EvRequestStarted nat
  | EvTextDelta ustring
  | EvReasoningDelta ustring
  | EvToolInputDelta ustring ustring ustring
  | EvProviderNotice ustring
  | EvResponseCompleted ustring stop_reason "usage option"
  | EvInboxDelivered nat
  | EvContextReplaced nat nat "usage option"
  | EvToolStarted tool_call
  | EvToolFinished tool_result_item
  | EvTurnFinished turn_end

section \<open>Facts about the data\<close>

lemma tool_calls_mem: "c \<in> set (tool_calls a) \<longleftrightarrow> AbToolCall c \<in> set (ai_blocks a)"
proof -
  have "block_tool_call b = Some c \<longleftrightarrow> b = AbToolCall c" for b
    by (cases b) auto
  then show ?thesis
    by (force simp: tool_calls_def map_filter_def)
qed

text \<open>An item with its calls, \<open>None\<close> for every item that is not an assistant's.\<close>

fun item_assistant :: "item \<Rightarrow> assistant_item option" where
  "item_assistant (ItAssistant a) = Some a"
| "item_assistant _ = None"

fun item_result_id :: "item \<Rightarrow> ustring option" where
  "item_result_id (ItToolResult r) = Some (tr_call_id r)"
| "item_result_id _ = None"

definition is_assistant :: "item \<Rightarrow> bool" where
  "is_assistant it \<longleftrightarrow> item_assistant it \<noteq> None"

definition is_tool_result :: "item \<Rightarrow> bool" where
  "is_tool_result it \<longleftrightarrow> item_result_id it \<noteq> None"

lemma item_assistant_Some [simp]: "item_assistant it = Some a \<longleftrightarrow> it = ItAssistant a"
  by (cases it) auto

lemma item_result_id_Some: "item_result_id it = Some i \<longleftrightarrow> (\<exists>r. it = ItToolResult r \<and> tr_call_id r = i)"
  by (cases it) auto

lemma is_assistant_simps [simp]:
  "is_assistant (ItAssistant a)" "\<not> is_assistant (ItUser t)" "\<not> is_assistant (ItUserContent bs)"
  "\<not> is_assistant (ItInbox k t)" "\<not> is_assistant (ItToolResult r)"
  by (simp_all add: is_assistant_def)

lemma is_tool_result_simps [simp]:
  "is_tool_result (ItToolResult r)" "\<not> is_tool_result (ItUser t)"
  "\<not> is_tool_result (ItUserContent bs)" "\<not> is_tool_result (ItInbox k t)"
  "\<not> is_tool_result (ItAssistant a)"
  by (simp_all add: is_tool_result_def)

end
