(* ===== verification/CorePairing.thy ===== *)
theory CorePairing
  imports Contracts
begin

text \<open>
  When a list of history items is a well-formed transcript: \<open>validate_replacement\<close>, the check the
  core runs on what a context policy returns before it becomes history, and
  \<open>unresolved_calls_of_last_assistant\<close>, the calls a failed commit left open (ruling R5 of
  \<open>docs/design/core.md\<close>). The abstract notions are \<open>owned\<close> (every result belongs to a call of an
  earlier assistant item), \<open>answered\<close> (every call has a later result) and \<open>settled_before_last\<close>
  (every call but those of the last assistant item has one).
\<close>

section \<open>The check of a replacement\<close>

definition unpaired_message :: "ustring \<Rightarrow> ustring" where
  "unpaired_message call_id =
     lit ''context policy returned an unpaired tool call or result: '' @ call_id"

definition result_ids :: "item list \<Rightarrow> ustring list" where
  "result_ids items = List.map_filter item_result_id items"

definition call_ids :: "assistant_item \<Rightarrow> ustring list" where
  "call_ids a = map tc_call_id (tool_calls a)"

fun validate_from :: "ustring set \<Rightarrow> item list \<Rightarrow> ustring + unit" where
  "validate_from seen [] = Inr ()"
| "validate_from seen (ItAssistant a # rest) =
     (if rest \<noteq> [] then
        (case List.find (\<lambda>c. tc_call_id c \<notin> set (result_ids rest)) (tool_calls a) of
           Some c \<Rightarrow> Inl (unpaired_message (tc_call_id c))
         | None \<Rightarrow> validate_from (seen \<union> set (call_ids a)) rest)
      else validate_from (seen \<union> set (call_ids a)) rest)"
| "validate_from seen (ItToolResult r # rest) =
     (if tr_call_id r \<notin> seen then Inl (unpaired_message (tr_call_id r))
      else validate_from seen rest)"
| "validate_from seen (_ # rest) = validate_from seen rest"

definition validate_replacement :: "item list \<Rightarrow> ustring + unit" where
  "validate_replacement items = validate_from {} items"

section \<open>The calls a turn must resolve first\<close>

text \<open>The last assistant item with what follows it.\<close>

fun last_assistant :: "item list \<Rightarrow> (assistant_item \<times> item list) option" where
  "last_assistant [] = None"
| "last_assistant (it # rest) =
     (case last_assistant rest of
        Some x \<Rightarrow> Some x
      | None \<Rightarrow> (case it of ItAssistant a \<Rightarrow> Some (a, rest) | _ \<Rightarrow> None))"

definition unresolved_calls_of_last_assistant :: "item list \<Rightarrow> tool_call list" where
  "unresolved_calls_of_last_assistant history =
     (case last_assistant history of
        None \<Rightarrow> []
      | Some (a, later) \<Rightarrow>
          filter (\<lambda>c. tc_call_id c \<notin> set (result_ids later)) (tool_calls a))"

section \<open>Well-formed transcripts\<close>

fun owned_from :: "ustring set \<Rightarrow> item list \<Rightarrow> bool" where
  "owned_from seen [] \<longleftrightarrow> True"
| "owned_from seen (ItAssistant a # rest) \<longleftrightarrow> owned_from (seen \<union> set (call_ids a)) rest"
| "owned_from seen (ItToolResult r # rest) \<longleftrightarrow> tr_call_id r \<in> seen \<and> owned_from seen rest"
| "owned_from seen (_ # rest) \<longleftrightarrow> owned_from seen rest"

abbreviation owned :: "item list \<Rightarrow> bool" where
  "owned \<equiv> owned_from {}"

fun answered :: "item list \<Rightarrow> bool" where
  "answered [] \<longleftrightarrow> True"
| "answered (ItAssistant a # rest) \<longleftrightarrow> set (call_ids a) \<subseteq> set (result_ids rest) \<and> answered rest"
| "answered (_ # rest) \<longleftrightarrow> answered rest"

text \<open>The items \<open>validate_replacement\<close> demands: all but a final assistant item are answered.\<close>

fun answered_but_final :: "item list \<Rightarrow> bool" where
  "answered_but_final [] \<longleftrightarrow> True"
| "answered_but_final (ItAssistant a # rest) \<longleftrightarrow>
     (rest \<noteq> [] \<longrightarrow> set (call_ids a) \<subseteq> set (result_ids rest)) \<and> answered_but_final rest"
| "answered_but_final (_ # rest) \<longleftrightarrow> answered_but_final rest"

fun settled_before_last :: "item list \<Rightarrow> bool" where
  "settled_before_last [] \<longleftrightarrow> True"
| "settled_before_last (ItAssistant a # rest) \<longleftrightarrow>
     (last_assistant rest \<noteq> None \<longrightarrow> set (call_ids a) \<subseteq> set (result_ids rest)) \<and>
     settled_before_last rest"
| "settled_before_last (_ # rest) \<longleftrightarrow> settled_before_last rest"

fun calls_before :: "item list \<Rightarrow> ustring set" where
  "calls_before [] = {}"
| "calls_before (ItAssistant a # rest) = set (call_ids a) \<union> calls_before rest"
| "calls_before (_ # rest) = calls_before rest"

section \<open>Lemmas\<close>

lemma result_ids_simps [simp]:
  "result_ids [] = []"
  "result_ids (ItToolResult r # rest) = tr_call_id r # result_ids rest"
  "result_ids (ItAssistant a # rest) = result_ids rest"
  "result_ids (ItUser t # rest) = result_ids rest"
  "result_ids (ItUserContent bs # rest) = result_ids rest"
  "result_ids (ItInbox k t # rest) = result_ids rest"
  by (simp_all add: result_ids_def map_filter_def)

lemma result_ids_append [simp]: "result_ids (a @ b) = result_ids a @ result_ids b"
  by (simp add: result_ids_def map_filter_def)

lemma set_result_ids: "set (result_ids h) = {tr_call_id r |r. ItToolResult r \<in> set h}"
  by (force simp: result_ids_def map_filter_def item_result_id_Some)

lemma set_call_ids: "i \<in> set (call_ids a) \<longleftrightarrow> (\<exists>c \<in> set (tool_calls a). tc_call_id c = i)"
  by (auto simp: call_ids_def)

lemma last_assistant_append:
  "last_assistant (a @ b) = (case last_assistant b of
     Some x \<Rightarrow> Some x
   | None \<Rightarrow> (case last_assistant a of None \<Rightarrow> None | Some (x, later) \<Rightarrow> Some (x, later @ b)))"
  by (induction a) (auto split: option.splits item.splits)

lemma last_assistant_None: "last_assistant h = None \<longleftrightarrow> (\<forall>it \<in> set h. \<not> is_assistant it)"
  by (induction h) (auto split: option.splits item.splits)

lemma last_assistant_SomeD:
  "last_assistant h = Some (a, later) \<Longrightarrow> \<exists>pre. h = pre @ ItAssistant a # later \<and> last_assistant later = None"
proof (induction h)
  case Nil
  then show ?case by simp
next
  case (Cons it rest)
  show ?case
  proof (cases "last_assistant rest")
    case None
    with Cons.prems have "it = ItAssistant a" "later = rest" by (auto split: item.splits)
    with None show ?thesis by (intro exI [of _ "[]"]) simp
  next
    case (Some x)
    with Cons.prems have "last_assistant rest = Some (a, later)" by simp
    with Cons.IH obtain pre where "rest = pre @ ItAssistant a # later" "last_assistant later = None" by blast
    then show ?thesis by (intro exI [of _ "it # pre"]) simp
  qed
qed

lemma calls_before_append [simp]: "calls_before (a @ b) = calls_before a \<union> calls_before b"
  by (induction a rule: calls_before.induct) auto

lemma owned_from_append:
  "owned_from seen (a @ b) \<longleftrightarrow> owned_from seen a \<and> owned_from (seen \<union> calls_before a) b"
  by (induction seen a rule: owned_from.induct) (auto simp: Un_assoc Un_commute Un_left_commute)

lemma owned_from_mono: "owned_from S h \<Longrightarrow> S \<subseteq> T \<Longrightarrow> owned_from T h"
proof (induction S h arbitrary: T rule: owned_from.induct)
  case (2 seen a rest)
  then show ?case by (metis Un_mono order_refl owned_from.simps(2))
qed auto

lemma owned_from_no_results: "result_ids h = [] \<Longrightarrow> owned_from seen h"
  by (induction seen h rule: owned_from.induct) auto

lemma answered_snoc_other: "answered h \<Longrightarrow> \<not> is_assistant it \<Longrightarrow> answered (h @ [it])"
  by (induction h rule: answered.induct) (cases it; auto)+

lemma answered_append: "answered a \<Longrightarrow> answered b \<Longrightarrow> answered (a @ b)"
  by (induction a rule: answered.induct) auto

lemma settled_answered: "answered h \<Longrightarrow> settled_before_last h"
  by (induction h rule: answered.induct) auto

lemma settled_snoc_other: "settled_before_last h \<Longrightarrow> \<not> is_assistant it \<Longrightarrow> settled_before_last (h @ [it])"
  by (induction h rule: settled_before_last.induct)
    (cases it; auto simp: last_assistant_append split: option.splits)+

lemma settled_snoc_assistant: "answered h \<Longrightarrow> settled_before_last (h @ [ItAssistant a])"
  by (induction h rule: answered.induct) auto

lemma answered_no_assistant: "last_assistant h = None \<Longrightarrow> answered h"
  by (induction h rule: answered.induct) (auto split: option.splits)

lemma unresolved_Nil: "unresolved_calls_of_last_assistant [] = []"
  by (simp add: unresolved_calls_of_last_assistant_def)

lemma unresolved_Cons_other:
  assumes "\<not> is_assistant it"
  shows "unresolved_calls_of_last_assistant (it # rest) = unresolved_calls_of_last_assistant rest"
  using assms by (cases it) (auto simp: unresolved_calls_of_last_assistant_def split: option.splits)

lemma unresolved_Cons_assistant:
  "unresolved_calls_of_last_assistant (ItAssistant a # rest) =
    (if last_assistant rest = None
     then filter (\<lambda>c. tc_call_id c \<notin> set (result_ids rest)) (tool_calls a)
     else unresolved_calls_of_last_assistant rest)"
  by (auto simp: unresolved_calls_of_last_assistant_def split: option.splits)

lemma answered_but_final_settled: "answered_but_final h \<Longrightarrow> settled_before_last h"
  by (induction h rule: answered_but_final.induct) auto

lemma answered_but_final_answered:
  "answered_but_final h \<Longrightarrow> h \<noteq> [] \<Longrightarrow> \<not> is_assistant (last h) \<Longrightarrow> answered h"
proof (induction h rule: answered_but_final.induct)
  case (2 a rest)
  then show ?case by (cases rest) auto
qed (auto split: if_splits)

text \<open>
  A transcript is answered exactly when everything before the last assistant item is and that item
  has no unresolved call left.
\<close>

lemma answered_iff_settled:
  "answered h \<longleftrightarrow> settled_before_last h \<and> unresolved_calls_of_last_assistant h = []"
proof (induction h rule: answered.induct)
  case (2 a rest)
  show ?case
  proof (cases "last_assistant rest")
    case None
    then have "answered rest" by (rule answered_no_assistant)
    with None show ?thesis
      by (auto simp: unresolved_Cons_assistant filter_empty_conv call_ids_def settled_answered)
  next
    case (Some x)
    with "2.IH" show ?thesis by (auto simp: unresolved_Cons_assistant)
  qed
qed (simp_all add: unresolved_Cons_other unresolved_Nil)

section \<open>What the check of a replacement decides\<close>

lemma unpaired_call_None:
  "List.find (\<lambda>c. tc_call_id c \<notin> set (result_ids rest)) (tool_calls a) = None \<longleftrightarrow>
    set (call_ids a) \<subseteq> set (result_ids rest)"
  by (auto simp: find_None call_ids_def)

lemma validate_from_iff:
  "validate_from seen h = Inr () \<longleftrightarrow> owned_from seen h \<and> answered_but_final h"
  by (induction seen h rule: validate_from.induct)
    (auto split: option.split simp: unpaired_call_None [symmetric])

end
