(* ===== verification/CoreState.thy ===== *)
theory CoreState
  imports Contracts
begin

text \<open>
  The state of one agent of \<open>crates/p1-core/src/lib.rs\<close> and the primitive actions its code is made
  of. What the core calls through a trait object (provider, tool, context policy, authorization,
  commit sink, clock) is a record of functions that read and change a world of any type \<open>'w\<close>; so is
  the cancellation token and the scheduler that interleaves concurrent tool calls. Nothing is
  assumed of the world: a theorem about every \<open>'w\<close> covers every provider, every store and every
  interleaving. A call raced against cancellation (\<open>tokio::select!\<close>, biased) answers \<open>None\<close> when the
  token fired while it was pending.

  \<open>trace\<close> is a ghost: the observable actions in order (events emitted, records the store accepted
  or refused, authorizations asked, requests sent, tool calls started and returned).
\<close>

section \<open>The seams\<close>

type_synonym 'w token = "'w \<Rightarrow> bool \<times> 'w"

type_synonym 'w stream = "'w \<Rightarrow> stream_event option option \<times> 'w"

record 'w provider =
  prov_describe :: route_description
  prov_validate :: "provider_request \<Rightarrow> provider_error option"
  prov_stream :: "provider_request \<Rightarrow> 'w \<Rightarrow> (provider_error + 'w stream) option \<times> 'w"

record 'w tool =
  tool_declaration :: tool_declaration
  tool_identity :: tool_identity
  tool_effect :: "tool_call \<Rightarrow> effect"
  tool_concurrency :: "tool_call \<Rightarrow> concurrency"
  tool_execute :: "tool_call \<Rightarrow> 'w \<Rightarrow> tool_outcome \<times> 'w"
  tool_ends_turn :: "tool_outcome \<Rightarrow> 'w \<Rightarrow> bool"
  tool_command_exit_code :: "ustring \<Rightarrow> 'w \<Rightarrow> int option"

record 'w context_policy =
  ctx_prepare :: "context_input \<Rightarrow> 'w \<Rightarrow> (context_error + prepared option) option \<times> 'w"
  ctx_compact_now :: "context_input \<Rightarrow> 'w \<Rightarrow> (context_error + compaction) option \<times> 'w"

record 'w authorization_policy =
  auth_authorize :: "authorization_request \<Rightarrow> 'w \<Rightarrow> decision option \<times> 'w"

record 'w commit_sink =
  sink_commit :: "journal_record \<Rightarrow> 'w \<Rightarrow> ustring option \<times> 'w"
  sink_accepts_timing :: bool

section \<open>The agent\<close>

record 'w agent_parts =
  pt_provider :: "'w provider"
  pt_tools :: "'w tool list"
  pt_system_prompt :: ustring
  pt_options :: model_options
  pt_context :: "'w context_policy"
  pt_authorization :: "'w authorization_policy"
  pt_journal :: "'w commit_sink"

record 'w reconfiguration =
  rc_provider :: "'w provider"
  rc_tools :: "'w tool list"
  rc_system_prompt :: ustring
  rc_options :: model_options
  rc_context :: "'w context_policy"
  rc_authorization :: "'w authorization_policy option"

datatype build_error = BeDuplicateToolName ustring | BeProviderRejected provider_error

datatype reconfigure_error = ReRejected build_error | ReCommitFailed ustring

text \<open>The queue shared with the inbox handles: receipts, kinds and texts in arrival order.\<close>

record inbox_shared =
  ib_queue :: "(nat \<times> inbox_kind \<times> ustring) list"
  ib_next_id :: nat

text \<open>What other holders of a handle did between two moments at which the agent locks the queue.\<close>

datatype inbox_op = OpSend inbox_kind ustring | OpWithdraw nat

datatype obs =
    OEmit agent_event
  | OCommit journal_record
  | ORefused journal_record ustring
  | OAuthorize tool_call effect
  | ODecided tool_call "decision option"
  | ORequest provider_request
  | OExecStart tool_identity tool_call
  | OExecEnd tool_call tool_outcome

record 'w agent =
  ag_parts :: "'w agent_parts"
  ag_history :: "item list"
  ag_next_seq :: nat
  ag_environment_committed :: bool
  ag_started_calls :: "ustring set"
  ag_last_usage :: "usage option"
  ag_max_parallel_tools :: nat
  ag_max_overflow_retries :: nat
  ag_inbox :: inbox_shared
  ag_clock :: "'w \<Rightarrow> nat \<times> 'w"
  ag_peers :: "'w \<Rightarrow> inbox_op list \<times> 'w"
  ag_schedule :: "nat \<Rightarrow> 'w \<Rightarrow> nat option \<times> 'w"
  world :: 'w
  trace :: "obs list"

type_synonym ('w, 'a) act = "('w agent, 'a) state"

section \<open>Constants of the core\<close>

definition unknown_outcome :: ustring where
  "unknown_outcome = lit ''Interrupted: this call was started before the session stopped and its outcome is unknown. Check the current state before retrying.''"

definition cancelled_before_execution :: ustring where
  "cancelled_before_execution = lit ''Cancelled before execution.''"

definition default_max_parallel_tools :: nat where
  "default_max_parallel_tools = 10"

definition default_max_overflow_retries :: nat where
  "default_max_overflow_retries = 1"

section \<open>Primitive actions\<close>

definition ext :: "('w \<Rightarrow> 'r \<times> 'w) \<Rightarrow> ('w, 'r) act" where
  "ext f = State (\<lambda>s. let (r, w) = f (world s) in (r, s\<lparr>world := w\<rparr>))"

text \<open>\<open>tokio::select! { biased; _ = cancel.cancelled() => None, r = fut => Some(r) }\<close>.\<close>

definition race :: "'w token \<Rightarrow> ('w \<Rightarrow> 'r option \<times> 'w) \<Rightarrow> ('w, 'r option) act" where
  "race cancel fut = do {
     fired \<leftarrow> ext cancel;
     if fired then ret None else ext fut
   }"

definition observe :: "obs \<Rightarrow> ('w, unit) act" where
  "observe x = modify (\<lambda>s. s\<lparr>trace := trace s @ [x]\<rparr>)"

definition emit :: "agent_event \<Rightarrow> ('w, unit) act" where
  "emit e = observe (OEmit e)"

definition push_item :: "item \<Rightarrow> ('w, unit) act" where
  "push_item it = modify (\<lambda>s. s\<lparr>ag_history := ag_history s @ [it]\<rparr>)"

text \<open>\<open>Agent::commit\<close>: the sequence number advances only when the store accepted the record.\<close>

definition commit :: "record_body \<Rightarrow> ('w, ustring + unit) act" where
  "commit body = do {
     s \<leftarrow> State_Monad.get;
     let record = \<lparr>jr_seq = ag_next_seq s, jr_body = body\<rparr>;
     res \<leftarrow> ext (sink_commit (pt_journal (ag_parts s)) record);
     case res of
       Some err \<Rightarrow> do { observe (ORefused record err); ret (Inl err) }
     | None \<Rightarrow> do {
         observe (OCommit record);
         modify (\<lambda>s. s\<lparr>ag_next_seq := sat_add64 (ag_next_seq s) 1\<rparr>);
         ret (Inr ())
       }
   }"

section \<open>What the trace says\<close>

definition committed :: "obs list \<Rightarrow> journal_record list" where
  "committed tr = List.map_filter (\<lambda>x. case x of OCommit r \<Rightarrow> Some r | _ \<Rightarrow> None) tr"

definition refusals :: "obs list \<Rightarrow> journal_record list" where
  "refusals tr = List.map_filter (\<lambda>x. case x of ORefused r e \<Rightarrow> Some r | _ \<Rightarrow> None) tr"

definition emitted :: "obs list \<Rightarrow> agent_event list" where
  "emitted tr = List.map_filter (\<lambda>x. case x of OEmit e \<Rightarrow> Some e | _ \<Rightarrow> None) tr"

lemma committed_append [simp]: "committed (a @ b) = committed a @ committed b"
  by (simp add: committed_def map_filter_def)

lemma committed_simps [simp]:
  "committed [] = []"
  "committed (OCommit r # tr) = r # committed tr"
  "committed (ORefused r e # tr) = committed tr"
  "committed (OEmit ev # tr) = committed tr"
  "committed (OAuthorize c ef # tr) = committed tr"
  "committed (ODecided c d # tr) = committed tr"
  "committed (ORequest q # tr) = committed tr"
  "committed (OExecStart i c # tr) = committed tr"
  "committed (OExecEnd c oc # tr) = committed tr"
  by (simp_all add: committed_def map_filter_def)

lemma refusals_append [simp]: "refusals (a @ b) = refusals a @ refusals b"
  by (simp add: refusals_def map_filter_def)

lemma refusals_simps [simp]:
  "refusals [] = []"
  "refusals (OCommit r # tr) = refusals tr"
  "refusals (ORefused r e # tr) = r # refusals tr"
  "refusals (OEmit ev # tr) = refusals tr"
  "refusals (OAuthorize c ef # tr) = refusals tr"
  "refusals (ODecided c d # tr) = refusals tr"
  "refusals (ORequest q # tr) = refusals tr"
  "refusals (OExecStart i c # tr) = refusals tr"
  "refusals (OExecEnd c oc # tr) = refusals tr"
  by (simp_all add: refusals_def map_filter_def)

section \<open>The calculus on the primitives\<close>

lemma run_state_ext: "run_state (ext f) s = (fst (f (world s)), s\<lparr>world := snd (f (world s))\<rparr>)"
  by (simp add: ext_def case_prod_beta)

lemma wp_ext: "wp (ext f) Q s \<longleftrightarrow> Q (fst (f (world s))) (s\<lparr>world := snd (f (world s))\<rparr>)"
  by (simp add: wp_def run_state_ext)

text \<open>
  Facts about an agent never depend on the world's value, so an external call is reasoned about as
  one that answers anything and leaves any world.
\<close>

lemma wp_extI [wp_intros]: "(\<And>r w. Q r (s\<lparr>world := w\<rparr>)) \<Longrightarrow> wp (ext f) Q s"
  by (simp add: wp_ext)

lemma wp_raceI [wp_intros]:
  "(\<And>w. Q None (s\<lparr>world := w\<rparr>)) \<Longrightarrow> (\<And>r w. Q r (s\<lparr>world := w\<rparr>)) \<Longrightarrow> wp (race cancel fut) Q s"
  by (simp add: race_def wp_ext)

lemma wp_observe [simp]: "wp (observe x) Q s \<longleftrightarrow> Q () (s\<lparr>trace := trace s @ [x]\<rparr>)"
  by (simp add: observe_def)

lemma wp_emit [simp]: "wp (emit e) Q s \<longleftrightarrow> Q () (s\<lparr>trace := trace s @ [OEmit e]\<rparr>)"
  by (simp add: emit_def)

lemma wp_push_item [simp]: "wp (push_item it) Q s \<longleftrightarrow> Q () (s\<lparr>ag_history := ag_history s @ [it]\<rparr>)"
  by (simp add: push_item_def)

lemma wp_commitI [wp_intros]:
  assumes "\<And>err w. Q (Inl err) (s\<lparr>world := w,
      trace := trace s @ [ORefused \<lparr>jr_seq = ag_next_seq s, jr_body = body\<rparr> err]\<rparr>)"
    and "\<And>w. Q (Inr ()) (s\<lparr>world := w,
      trace := trace s @ [OCommit \<lparr>jr_seq = ag_next_seq s, jr_body = body\<rparr>],
      ag_next_seq := sat_add64 (ag_next_seq s) 1\<rparr>)"
  shows "wp (commit body) Q s"
  using assms by (simp add: commit_def wp_ext split: option.splits)

end
