(* ===== verification/CoreInbox.thy ===== *)
theory CoreInbox
  imports CoreState
begin

text \<open>
  The inbox of an agent (\<open>Inbox\<close> and \<open>InboxShared\<close> in \<open>crates/p1-core/src/lib.rs\<close>, design note
  \<open>core.md\<close> section 5): the operations of a handle on the shared queue, and the delivery of every
  pending message at the boundary of a request. A handle holds a weak reference: \<open>None\<close> stands for
  a queue whose agent was dropped. The second half is the protocol as a step relation over the whole
  life of a queue, whose invariant says where each message is.
\<close>

section \<open>The operations of a handle\<close>

definition inbox_push :: "inbox_kind \<Rightarrow> ustring \<Rightarrow> inbox_shared \<Rightarrow> inbox_shared" where
  "inbox_push kind text ib =
     ib\<lparr>ib_queue := ib_queue ib @ [(ib_next_id ib, kind, text)],
        ib_next_id := (ib_next_id ib + 1) mod 2 ^ 64\<rparr>"

definition inbox_send_tracked ::
    "inbox_kind \<Rightarrow> ustring \<Rightarrow> inbox_shared option \<Rightarrow> nat option \<times> inbox_shared option" where
  "inbox_send_tracked kind text shared =
     (case shared of
        None \<Rightarrow> (None, None)
      | Some ib \<Rightarrow> (Some (ib_next_id ib), Some (inbox_push kind text ib)))"

definition inbox_send :: "inbox_kind \<Rightarrow> ustring \<Rightarrow> inbox_shared option \<Rightarrow> bool \<times> inbox_shared option" where
  "inbox_send kind text shared =
     (let (receipt, shared') = inbox_send_tracked kind text shared in (receipt \<noteq> None, shared'))"

definition inbox_withdraw :: "nat \<Rightarrow> inbox_shared option \<Rightarrow> bool \<times> inbox_shared option" where
  "inbox_withdraw receipt shared =
     (case shared of
        None \<Rightarrow> (False, None)
      | Some ib \<Rightarrow>
          (case position (\<lambda>(queued, _, _). queued = receipt) (ib_queue ib) of
             None \<Rightarrow> (False, Some ib)
           | Some i \<Rightarrow> (True, Some (ib\<lparr>ib_queue := remove_at i (ib_queue ib)\<rparr>))))"

fun apply_inbox_op :: "inbox_op \<Rightarrow> inbox_shared \<Rightarrow> inbox_shared" where
  "apply_inbox_op (OpSend kind text) ib = the (snd (inbox_send_tracked kind text (Some ib)))"
| "apply_inbox_op (OpWithdraw receipt) ib = the (snd (inbox_withdraw receipt (Some ib)))"

text \<open>What the other holders did before the agent takes the lock.\<close>

definition lock_queue :: "('w, unit) act" where
  "lock_queue = do {
     s \<leftarrow> State_Monad.get;
     ops \<leftarrow> ext (ag_peers s);
     modify (\<lambda>s. s\<lparr>ag_inbox := fold apply_inbox_op ops (ag_inbox s)\<rparr>)
   }"

definition has_pending_inbox :: "('w, bool) act" where
  "has_pending_inbox = do {
     lock_queue;
     gets (\<lambda>s. ib_queue (ag_inbox s) \<noteq> [])
   }"

section \<open>Delivery (\<open>deliver_inbox\<close>)\<close>

definition drain_inbox :: "('w, (nat \<times> inbox_kind \<times> ustring) list) act" where
  "drain_inbox = do {
     lock_queue;
     messages \<leftarrow> gets (\<lambda>s. ib_queue (ag_inbox s));
     modify (\<lambda>s. s\<lparr>ag_inbox := (ag_inbox s)\<lparr>ib_queue := []\<rparr>\<rparr>);
     ret messages
   }"

definition requeue_inbox :: "(nat \<times> inbox_kind \<times> ustring) list \<Rightarrow> ('w, unit) act" where
  "requeue_inbox messages = do {
     lock_queue;
     modify (\<lambda>s. s\<lparr>ag_inbox := (ag_inbox s)\<lparr>ib_queue := messages @ ib_queue (ag_inbox s)\<rparr>\<rparr>)
   }"

fun deliver_messages :: "(nat \<times> inbox_kind \<times> ustring) list \<Rightarrow> ('w, ustring + unit) act" where
  "deliver_messages [] = ret (Inr ())"
| "deliver_messages ((receipt, kind, text) # remaining) = do {
     res \<leftarrow> commit (RbInbox kind text);
     case res of
       Inl err \<Rightarrow> do { requeue_inbox ((receipt, kind, text) # remaining); ret (Inl err) }
     | Inr _ \<Rightarrow> do { push_item (ItInbox kind text); deliver_messages remaining }
   }"

definition deliver_inbox :: "('w, ustring + unit) act" where
  "deliver_inbox = do {
     messages \<leftarrow> drain_inbox;
     if messages = [] then ret (Inr ())
     else do {
       res \<leftarrow> deliver_messages messages;
       case res of
         Inl err \<Rightarrow> ret (Inl err)
       | Inr _ \<Rightarrow> do { emit (EvInboxDelivered (length messages)); ret (Inr ()) }
     }
   }"

section \<open>The calculus on the queue\<close>

lemma wp_lock_queueI [wp_intros]:
  "(\<And>w ops. Q () (s\<lparr>world := w, ag_inbox := fold apply_inbox_op ops (ag_inbox s)\<rparr>)) \<Longrightarrow>
    wp lock_queue Q s"
  by (simp add: lock_queue_def wp_ext)

lemma wp_has_pending_inboxI [wp_intros]:
  "(\<And>r w ib. Q r (s\<lparr>world := w, ag_inbox := ib\<rparr>)) \<Longrightarrow> wp has_pending_inbox Q s"
  by (simp add: has_pending_inbox_def) (rule wp_lock_queueI, simp)

lemma wp_drain_inboxI [wp_intros]:
  "(\<And>w ops ib. ib = fold apply_inbox_op ops (ag_inbox s) \<Longrightarrow>
      Q (ib_queue ib) (s\<lparr>world := w, ag_inbox := ib\<lparr>ib_queue := []\<rparr>\<rparr>)) \<Longrightarrow>
    wp drain_inbox Q s"
  by (simp add: drain_inbox_def) (rule wp_lock_queueI, simp)

lemma wp_requeue_inboxI [wp_intros]:
  "(\<And>w ops ib. ib = fold apply_inbox_op ops (ag_inbox s) \<Longrightarrow>
      Q () (s\<lparr>world := w, ag_inbox := ib\<lparr>ib_queue := ms @ ib_queue ib\<rparr>\<rparr>)) \<Longrightarrow>
    wp (requeue_inbox ms) Q s"
  by (simp add: requeue_inbox_def) (rule wp_lock_queueI, simp)

text \<open>
  A batch is delivered up to some message \<open>k\<close>: all of it, or up to the one whose record the store
  refused; that one and the later ones are back at the front of the queue.
\<close>

definition inbox_item :: "nat \<times> inbox_kind \<times> ustring \<Rightarrow> item" where
  "inbox_item m = ItInbox (fst (snd m)) (snd (snd m))"

definition inbox_body :: "nat \<times> inbox_kind \<times> ustring \<Rightarrow> record_body" where
  "inbox_body m = RbInbox (fst (snd m)) (snd (snd m))"

definition delivered_upto ::
    "(nat \<times> inbox_kind \<times> ustring) list \<Rightarrow> nat \<Rightarrow> 'w agent \<Rightarrow> 'w agent \<Rightarrow> bool" where
  "delivered_upto ms k s t \<longleftrightarrow>
     ag_history t = ag_history s @ map inbox_item (take k ms) \<and>
     map jr_body (committed (trace t)) =
       map jr_body (committed (trace s)) @ map inbox_body (take k ms)"

lemma wp_deliver_messages:
  "wp (deliver_messages ms) (\<lambda>r t. \<exists>k. delivered_upto ms k s t \<and>
     (case r of
        Inr _ \<Rightarrow> k = length ms \<and> ag_inbox t = ag_inbox s
      | Inl _ \<Rightarrow> k < length ms \<and> (\<exists>ops ib. ib = fold apply_inbox_op ops (ag_inbox s) \<and>
          ag_inbox t = ib\<lparr>ib_queue := drop k ms @ ib_queue ib\<rparr>))) s"
proof (induction ms arbitrary: s)
  case Nil
  show ?case by (simp add: delivered_upto_def)
next
  case (Cons m ms)
  obtain receipt kind msg where m: "m = (receipt, kind, msg)" by (cases m)
  show ?case
    unfolding m deliver_messages.simps wp_bind
  proof (rule wp_commitI, goal_cases)
    case (1 err w)
    show ?case
      by (simp, rule wp_requeue_inboxI) (auto simp: delivered_upto_def intro!: exI [of _ 0])
  next
    case (2 w)
    show ?case
      apply simp
      apply (rule wp_mono [OF Cons.IH])
      apply (elim exE conjE)
      subgoal for r t k
        by (intro exI [of _ "Suc k"])
          (auto simp: delivered_upto_def inbox_item_def inbox_body_def split: sum.splits)
      done
  qed
qed

section \<open>The life of a queue as a step relation\<close>

text \<open>
  The state of the protocol: the shared queue, the batch the agent took at a boundary, and two
  ghosts, the messages delivered (their record is committed) and the receipts withdrawn.
\<close>

record inbox_world =
  iw_shared :: inbox_shared
  iw_taken :: "(nat \<times> inbox_kind \<times> ustring) list"
  iw_delivered :: "(nat \<times> inbox_kind \<times> ustring) list"
  iw_withdrawn :: "nat list"

definition inbox_init :: inbox_world where
  "inbox_init = \<lparr>iw_shared = \<lparr>ib_queue = [], ib_next_id = 0\<rparr>,
     iw_taken = [], iw_delivered = [], iw_withdrawn = []\<rparr>"

text \<open>The receipts are \<open>u64\<close> values handed out once: the relation stops short of their wrap.\<close>

inductive inbox_step :: "inbox_world \<Rightarrow> inbox_world \<Rightarrow> bool" where
  send: "ib_next_id (iw_shared s) < u64_max \<Longrightarrow>
    inbox_step s (s\<lparr>iw_shared := the (snd (inbox_send_tracked kind text (Some (iw_shared s))))\<rparr>)"
| withdraw: "inbox_withdraw receipt (Some (iw_shared s)) = (True, Some ib) \<Longrightarrow>
    inbox_step s (s\<lparr>iw_shared := ib, iw_withdrawn := receipt # iw_withdrawn s\<rparr>)"
| drain: "iw_taken s = [] \<Longrightarrow>
    inbox_step s (s\<lparr>iw_shared := (iw_shared s)\<lparr>ib_queue := []\<rparr>, iw_taken := ib_queue (iw_shared s)\<rparr>)"
| deliver: "iw_taken s = m # rest \<Longrightarrow>
    inbox_step s (s\<lparr>iw_taken := rest, iw_delivered := iw_delivered s @ [m]\<rparr>)"
| requeue: "iw_taken s = m # rest \<Longrightarrow>
    inbox_step s (s\<lparr>iw_shared := (iw_shared s)\<lparr>ib_queue := iw_taken s @ ib_queue (iw_shared s)\<rparr>,
      iw_taken := []\<rparr>)"

inductive_cases inbox_stepE: "inbox_step s t"

inductive inbox_reachable :: "inbox_world \<Rightarrow> bool" where
  start: "inbox_reachable inbox_init"
| step: "inbox_reachable s \<Longrightarrow> inbox_step s t \<Longrightarrow> inbox_reachable t"

text \<open>Every message in the life of the queue, in arrival order.\<close>

definition inbox_line :: "inbox_world \<Rightarrow> (nat \<times> inbox_kind \<times> ustring) list" where
  "inbox_line s = iw_delivered s @ iw_taken s @ ib_queue (iw_shared s)"

definition inbox_inv :: "inbox_world \<Rightarrow> bool" where
  "inbox_inv s \<longleftrightarrow>
     sorted_wrt (<) (map fst (inbox_line s)) \<and>
     (\<forall>i \<in> set (map fst (inbox_line s)) \<union> set (iw_withdrawn s). i < ib_next_id (iw_shared s)) \<and>
     set (iw_withdrawn s) \<inter> set (map fst (inbox_line s)) = {} \<and>
     ib_next_id (iw_shared s) \<le> u64_max"

lemma sorted_wrt_remove_at: "sorted_wrt P xs \<Longrightarrow> sorted_wrt P (remove_at i xs)"
proof (induction xs arbitrary: i)
  case (Cons x xs)
  then show ?case
    by (cases i) (auto simp: remove_at_def dest: in_set_takeD in_set_dropD)
qed (simp add: remove_at_def)

lemma set_remove_at_subset: "set (remove_at i xs) \<subseteq> set xs"
  by (auto simp: remove_at_def dest: in_set_takeD in_set_dropD)

lemma map_remove_at: "map f (remove_at i xs) = remove_at i (map f xs)"
  by (simp add: remove_at_def take_map drop_map)

lemma remove_at_append_right:
  "length xs \<le> i \<Longrightarrow> remove_at i (xs @ ys) = xs @ remove_at (i - length xs) ys"
  by (simp add: remove_at_def Suc_diff_le)

lemma inbox_inv_init: "inbox_inv inbox_init"
  by (simp add: inbox_inv_def inbox_init_def inbox_line_def u64_max_def)

lemma sorted_wrt_less_remove_at:
  fixes xs :: "nat list"
  shows "sorted_wrt (<) xs \<Longrightarrow> i < length xs \<Longrightarrow> xs ! i \<notin> set (remove_at i xs)"
proof (induction xs arbitrary: i)
  case (Cons x xs)
  then show ?case
    by (cases i) (auto simp: remove_at_def dest: in_set_takeD in_set_dropD)
qed simp

lemma apply_send: "the (snd (inbox_send_tracked kind text (Some ib))) = inbox_push kind text ib"
  by (simp add: inbox_send_tracked_def)

lemma inbox_withdraw_TrueD:
  assumes "inbox_withdraw receipt (Some ib) = (True, Some ib')"
  shows "\<exists>i < length (ib_queue ib). fst (ib_queue ib ! i) = receipt \<and>
    ib' = ib\<lparr>ib_queue := remove_at i (ib_queue ib)\<rparr>"
  using assms
  by (force simp: inbox_withdraw_def case_prod_beta split: option.splits dest: position_SomeD)

lemma inbox_inv_step: "inbox_step s t \<Longrightarrow> inbox_inv s \<Longrightarrow> inbox_inv t"
proof (induction rule: inbox_step.induct)
  case (send s kind msg)
  let ?n = "ib_next_id (iw_shared s)"
  let ?t = "s\<lparr>iw_shared := inbox_push kind msg (iw_shared s)\<rparr>"
  from send have next_id: "ib_next_id (iw_shared ?t) = Suc ?n"
    by (simp add: inbox_push_def u64_max_def)
  have line: "inbox_line ?t = inbox_line s @ [(?n, kind, msg)]"
    by (simp add: inbox_line_def inbox_push_def)
  have "inbox_inv ?t"
    using send.prems send.hyps unfolding inbox_inv_def line next_id
    by (auto simp: sorted_wrt_append ball_Un intro: less_SucI)
  then show ?case by (simp add: apply_send)
next
  case (withdraw receipt s ib)
  then obtain i where i: "i < length (ib_queue (iw_shared s))"
    "fst (ib_queue (iw_shared s) ! i) = receipt"
    "ib = (iw_shared s)\<lparr>ib_queue := remove_at i (ib_queue (iw_shared s))\<rparr>"
    by (auto dest: inbox_withdraw_TrueD)
  define j where "j = length (iw_delivered s @ iw_taken s) + i"
  let ?ids = "map fst (inbox_line s)"
  have line: "map fst (inbox_line (s\<lparr>iw_shared := ib, iw_withdrawn := receipt # iw_withdrawn s\<rparr>))
      = remove_at j ?ids"
    using i(3) by (simp add: inbox_line_def j_def remove_at_append_right
        flip: map_remove_at append_assoc)
  have j: "j < length ?ids" "?ids ! j = receipt"
    using i by (auto simp: inbox_line_def j_def nth_append)
  with withdraw.prems have "receipt \<notin> set (remove_at j ?ids)" "receipt \<in> set ?ids"
    by (auto simp: inbox_inv_def dest: sorted_wrt_less_remove_at)
  with withdraw.prems i(3) show ?case
    unfolding inbox_inv_def line
    using set_remove_at_subset [of j ?ids] by (auto intro: sorted_wrt_remove_at)
qed (auto simp: inbox_inv_def inbox_line_def)

lemma inbox_reachable_inv: "inbox_reachable s \<Longrightarrow> inbox_inv s"
  by (induction rule: inbox_reachable.induct) (auto intro: inbox_inv_init inbox_inv_step)

end
