(* ===== verification/CoreTools.thy ===== *)
theory CoreTools
  imports CorePairing CoreInbox
begin

text \<open>
  Tool calls of one response (\<open>crates/p1-core/src/lib.rs\<close>, design note \<open>core.md\<close> section 4 and
  ADR-0118): how the calls are cut into groups, how one call is admitted, the buffered join that
  executes the admitted calls of a group concurrently, and the recording of every result in block
  order. The join asks the scheduler oracle of the state at every turn whether the next waiting
  call starts or which running call returns, so the theorems hold for every interleaving.
\<close>

section \<open>Groups\<close>

definition assembled_tool :: "'w tool list \<Rightarrow> tool_call \<Rightarrow> 'w tool option" where
  "assembled_tool tools call =
     List.find (\<lambda>t. td_name (tool_declaration t) = tc_name call) tools"

definition shared_call :: "nat \<Rightarrow> tool_call \<Rightarrow> 'w tool option \<Rightarrow> bool" where
  "shared_call max_parallel call tool \<longleftrightarrow>
     max_parallel > 1 \<and>
     (case tool of
        None \<Rightarrow> False
      | Some t \<Rightarrow> tool_concurrency t call = Shared \<and>
          tool_effect t call \<notin> {WritesFiles, Delegates})"

definition group_end :: "(nat \<Rightarrow> bool) \<Rightarrow> nat \<Rightarrow> nat \<Rightarrow> nat" where
  "group_end shared n start = (if shared start then run_end shared n (Suc start) else Suc start)"

lemma group_end_gt: "start < group_end shared n start"
  using run_end_ge [of "Suc start" shared n] by (simp add: group_end_def)

function groups_from :: "(nat \<Rightarrow> bool) \<Rightarrow> nat \<Rightarrow> nat \<Rightarrow> (nat \<times> nat) list" where
  "groups_from shared n start =
     (if start < n
      then (start, group_end shared n start) # groups_from shared n (group_end shared n start)
      else [])"
  by pat_completeness auto
termination
proof (relation "measure (\<lambda>(shared, n, start). n - start)", goal_cases)
  case (2 shared n start)
  with group_end_gt [of start shared n] show ?case by simp
qed simp

declare groups_from.simps [simp del]

definition groups :: "tool_call list \<Rightarrow> 'w tool option list \<Rightarrow> nat \<Rightarrow> (nat \<times> nat) list" where
  "groups calls tools max_parallel =
     groups_from (\<lambda>i. shared_call max_parallel (calls ! i) (tools ! i)) (length calls) 0"

definition slice :: "nat \<times> nat \<Rightarrow> 'a list \<Rightarrow> 'a list" where
  "slice g xs = take (snd g - fst g) (drop (fst g) xs)"

section \<open>Admission\<close>

datatype 'w admitted = Settled tool_status ustring | Started "'w tool"

definition unavailable_message :: "ustring \<Rightarrow> ustring" where
  "unavailable_message name = lit ''Tool `'' @ name @ lit ''` is not available.''"

definition admit :: "'w token \<Rightarrow> tool_call \<Rightarrow> 'w tool option \<Rightarrow> ('w, turn_end + 'w admitted) act" where
  "admit cancel call tool = do {
     fired \<leftarrow> ext cancel;
     if fired then ret (Inr (Settled StCancelled cancelled_before_execution))
     else case tool of
       None \<Rightarrow> ret (Inr (Settled StUnavailable (unavailable_message (tc_name call))))
     | Some t \<Rightarrow> do {
         s \<leftarrow> State_Monad.get;
         let request = \<lparr>ar_call = call, ar_identity = tool_identity t, ar_effect = tool_effect t call\<rparr>;
         observe (OAuthorize call (tool_effect t call));
         decision \<leftarrow> race cancel (auth_authorize (pt_authorization (ag_parts s)) request);
         observe (ODecided call decision);
         case decision of
           None \<Rightarrow> ret (Inr (Settled StCancelled cancelled_before_execution))
         | Some (Deny reason) \<Rightarrow> ret (Inr (Settled StDenied reason))
         | Some Permit \<Rightarrow> do {
             res \<leftarrow> commit (RbToolStarted (tc_call_id call) (tool_identity t));
             case res of
               Inl err \<Rightarrow> ret (Inl (TeCommitFailed err))
             | Inr _ \<Rightarrow> do {
                 modify (\<lambda>s. s\<lparr>ag_started_calls := insert (tc_call_id call) (ag_started_calls s)\<rparr>);
                 emit (EvToolStarted call);
                 ret (Inr (Started t))
               }
           }
       }
   }"

fun admit_all ::
    "'w token \<Rightarrow> (tool_call \<times> 'w tool option) list \<Rightarrow> ('w, turn_end + 'w admitted list) act" where
  "admit_all cancel [] = ret (Inr [])"
| "admit_all cancel ((call, tool) # rest) = do {
     a \<leftarrow> admit cancel call tool;
     case a of
       Inl e \<Rightarrow> ret (Inl e)
     | Inr x \<Rightarrow> do {
         xs \<leftarrow> admit_all cancel rest;
         case xs of Inl e \<Rightarrow> ret (Inl e) | Inr ys \<Rightarrow> ret (Inr (x # ys))
       }
   }"

section \<open>The join\<close>

record executed =
  ex_outcome :: tool_outcome
  ex_ends_turn :: bool
  ex_exit_code :: "int option"

text \<open>One \<open>execute\<close> future: index in the group, call, tool, and whether it waits for a slot.\<close>

record 'w future =
  fu_index :: nat
  fu_call :: tool_call
  fu_tool :: "'w tool"
  fu_queued :: bool

text \<open>The first poll: a queued call of a cancelled turn is settled without executing.\<close>

definition start_future :: "'w token \<Rightarrow> 'w future \<Rightarrow> ('w, executed option) act" where
  "start_future cancel f = do {
     fired \<leftarrow> (if fu_queued f then ext cancel else ret False);
     if fired then
       ret (Some \<lparr>ex_outcome = \<lparr>to_status = StCancelled, to_content = cancelled_before_execution\<rparr>,
                 ex_ends_turn = False, ex_exit_code = None\<rparr>)
     else do {
       observe (OExecStart (tool_identity (fu_tool f)) (fu_call f));
       ret None
     }
   }"

text \<open>The poll that sees \<open>tool.execute\<close> return, and reads the tool's answers in the same poll.\<close>

definition finish_future :: "'w future \<Rightarrow> ('w, executed) act" where
  "finish_future f = do {
     outcome \<leftarrow> ext (tool_execute (fu_tool f) (fu_call f));
     observe (OExecEnd (fu_call f) outcome);
     ends_turn \<leftarrow> gets (\<lambda>s. tool_ends_turn (fu_tool f) outcome (world s));
     exit_code \<leftarrow> gets (\<lambda>s. tool_command_exit_code (fu_tool f) (tc_call_id (fu_call f)) (world s));
     ret \<lparr>ex_outcome = outcome, ex_ends_turn = ends_turn, ex_exit_code = exit_code\<rparr>
   }"

text \<open>
  \<open>buffer_unordered(limit)\<close>: waiting calls start in block order while a slot is free, running calls
  return in any order.
\<close>

function join ::
    "'w token \<Rightarrow> nat \<Rightarrow> 'w future list \<Rightarrow> 'w future list \<Rightarrow> ('w, (nat \<times> executed) list) act" where
  "join cancel limit waiting running =
     (if waiting = [] \<and> running = [] then ret []
      else do {
        s \<leftarrow> State_Monad.get;
        choice \<leftarrow> ext (ag_schedule s (length running));
        if waiting \<noteq> [] \<and> (running = [] \<or> length running < limit \<and> choice = None) then do {
          done \<leftarrow> start_future cancel (hd waiting);
          case done of
            Some ex \<Rightarrow> do {
              rest \<leftarrow> join cancel limit (tl waiting) running;
              ret ((fu_index (hd waiting), ex) # rest)
            }
          | None \<Rightarrow> join cancel limit (tl waiting) (running @ [hd waiting])
        }
        else do {
          let i = (case choice of None \<Rightarrow> 0 | Some k \<Rightarrow> k mod length running);
          ex \<leftarrow> finish_future (running ! i);
          rest \<leftarrow> join cancel limit waiting (remove_at i running);
          ret ((fu_index (running ! i), ex) # rest)
        }
      })"
  by pat_completeness auto
termination
proof (relation "measure (\<lambda>(cancel, limit, waiting, running). 2 * length waiting + length running)",
    goal_cases)
qed (auto simp: length_remove_at neq_Nil_conv split: option.splits)

declare join.simps [simp del]

section \<open>Recording results\<close>

text \<open>\<open>finish_started\<close> and \<open>finish_tool\<close>: the record, then the history, then the event (R6).\<close>

definition finish_started :: "tool_call \<Rightarrow> executed \<Rightarrow> ('w, turn_end + unit) act" where
  "finish_started call ex = do {
     let result = \<lparr>tr_call_id = tc_call_id call, tr_name = tc_name call,
       tr_status = to_status (ex_outcome ex), tr_content = to_content (ex_outcome ex)\<rparr>;
     res \<leftarrow> commit (RbToolFinished result (Some (ex_exit_code ex)));
     case res of
       Inl err \<Rightarrow> ret (Inl (TeCommitFailed err))
     | Inr _ \<Rightarrow> do {
         modify (\<lambda>s. s\<lparr>ag_started_calls := ag_started_calls s - {tc_call_id call}\<rparr>);
         push_item (ItToolResult result);
         emit (EvToolFinished result);
         ret (Inr ())
       }
   }"

definition finish_tool :: "tool_call \<Rightarrow> tool_status \<Rightarrow> ustring \<Rightarrow> ('w, turn_end + unit) act" where
  "finish_tool call status content = do {
     let result = \<lparr>tr_call_id = tc_call_id call, tr_name = tc_name call,
       tr_status = status, tr_content = content\<rparr>;
     res \<leftarrow> commit (RbToolFinished result (Some None));
     case res of
       Inl err \<Rightarrow> ret (Inl (TeCommitFailed err))
     | Inr _ \<Rightarrow> do {
         push_item (ItToolResult result);
         emit (EvToolFinished result);
         ret (Inr ())
       }
   }"

text \<open>Step (c) of a group: every result in block order; the answer says whether one ends the turn.\<close>

fun record_results ::
    "(tool_call \<times> 'w admitted \<times> executed option) list \<Rightarrow> bool \<Rightarrow> ('w, turn_end + bool) act" where
  "record_results [] ends_turn = ret (Inr ends_turn)"
| "record_results ((call, admitted, executed) # rest) ends_turn =
     (case (admitted, executed) of
        (Started _, Some ex) \<Rightarrow> do {
          res \<leftarrow> finish_started call ex;
          case res of Inl e \<Rightarrow> ret (Inl e)
          | Inr _ \<Rightarrow> record_results rest (ends_turn \<or> ex_ends_turn ex)
        }
      | (Settled status content, _) \<Rightarrow> do {
          res \<leftarrow> finish_tool call status content;
          case res of Inl e \<Rightarrow> ret (Inl e) | Inr _ \<Rightarrow> record_results rest ends_turn
        }
      | (Started _, None) \<Rightarrow> do {
          res \<leftarrow> finish_tool call StUnknown unknown_outcome;
          case res of Inl e \<Rightarrow> ret (Inl e) | Inr _ \<Rightarrow> record_results rest ends_turn
        })"

text \<open>The futures of the permitted calls, in block order; one behind the first \<open>limit\<close> is queued.\<close>

fun group_futures ::
    "nat \<Rightarrow> nat \<Rightarrow> nat \<Rightarrow> ('w admitted \<times> tool_call) list \<Rightarrow> 'w future list" where
  "group_futures limit index started [] = []"
| "group_futures limit index started ((Settled _ _, call) # rest) =
     group_futures limit (Suc index) started rest"
| "group_futures limit index started ((Started t, call) # rest) =
     \<lparr>fu_index = index, fu_call = call, fu_tool = t, fu_queued = (limit \<le> started)\<rparr> #
     group_futures limit (Suc index) (Suc started) rest"

definition place_results :: "nat \<Rightarrow> (nat \<times> executed) list \<Rightarrow> executed option list" where
  "place_results n finished = fold (\<lambda>(i, ex) slots. slots[i := Some ex]) finished (replicate n None)"

definition run_group ::
    "'w token \<Rightarrow> (tool_call \<times> 'w tool option) list \<Rightarrow> ('w, turn_end + bool) act" where
  "run_group cancel calls = do {
     admitted \<leftarrow> admit_all cancel calls;
     case admitted of
       Inl e \<Rightarrow> ret (Inl e)
     | Inr xs \<Rightarrow> do {
         limit \<leftarrow> gets ag_max_parallel_tools;
         finished \<leftarrow> join cancel limit (group_futures limit 0 0 (zip xs (map fst calls))) [];
         record_results (zip (map fst calls) (zip xs (place_results (length calls) finished))) False
       }
   }"

text \<open>Step 3g: the groups run one after another, and the answer accumulates.\<close>

fun run_groups ::
    "'w token \<Rightarrow> (tool_call \<times> 'w tool option) list list \<Rightarrow> bool \<Rightarrow> ('w, turn_end + bool) act" where
  "run_groups cancel [] ends_turn = ret (Inr ends_turn)"
| "run_groups cancel (g # gs) ends_turn = do {
     res \<leftarrow> run_group cancel g;
     case res of Inl e \<Rightarrow> ret (Inl e) | Inr b \<Rightarrow> run_groups cancel gs (ends_turn \<or> b)
   }"

section \<open>Calls left open by a failed commit (R5)\<close>

fun reconcile_calls :: "tool_call list \<Rightarrow> ('w, turn_end + unit) act" where
  "reconcile_calls [] = ret (Inr ())"
| "reconcile_calls (call # rest) = do {
     started \<leftarrow> gets (\<lambda>s. tc_call_id call \<in> ag_started_calls s);
     let result = \<lparr>tr_call_id = tc_call_id call, tr_name = tc_name call,
       tr_status = (if started then StUnknown else StCancelled),
       tr_content = (if started then unknown_outcome else cancelled_before_execution)\<rparr>;
     res \<leftarrow> commit (RbToolFinished result (Some None));
     case res of
       Inl err \<Rightarrow> ret (Inl (TeCommitFailed err))
     | Inr _ \<Rightarrow> do {
         push_item (ItToolResult result);
         emit (EvToolFinished result);
         reconcile_calls rest
       }
   }"

definition reconcile_unresolved_calls :: "('w, turn_end + unit) act" where
  "reconcile_unresolved_calls = do {
     calls \<leftarrow> gets (\<lambda>s. unresolved_calls_of_last_assistant (ag_history s));
     res \<leftarrow> reconcile_calls calls;
     case res of
       Inl e \<Rightarrow> ret (Inl e)
     | Inr _ \<Rightarrow> do {
         modify (\<lambda>s. s\<lparr>ag_started_calls := {}\<rparr>);
         ret (Inr ())
       }
   }"

end
