(* ===== verification/CoreGroups.thy ===== *)
theory CoreGroups
  imports CoreTools "HOL-Library.Multiset"
begin

text \<open>
  What the grouping, the join and the recording of results do on their own: the groups cut the calls
  of a response into consecutive runs, the join gives exactly one outcome per admitted call whatever
  the scheduler does and never has more calls running than the bound, and the results of a group go
  into the history in block order.
\<close>

section \<open>The groups tile the calls\<close>

lemma slice_append:
  "fst g \<le> snd g \<Longrightarrow> snd g \<le> length xs \<Longrightarrow> take (fst g) xs @ slice g xs = take (snd g) xs"
  by (simp add: slice_def take_add [symmetric])

lemma groups_from_concat:
  "start \<le> n \<Longrightarrow> n = length xs \<Longrightarrow>
    concat (map (\<lambda>g. slice g xs) (groups_from shared n start)) = drop start xs"
proof (induction shared n start rule: groups_from.induct)
  case (1 shared n start)
  show ?case
  proof (cases "start < n")
    case True
    let ?e = "group_end shared n start"
    have e: "start < ?e" "?e \<le> n"
      using group_end_gt True run_end_le [of "Suc start" n shared] by (auto simp: group_end_def)
    have "drop ?e xs = drop (?e - start) (drop start xs)" using e(1) by simp
    then have "slice (start, ?e) xs @ drop ?e xs = drop start xs"
      unfolding slice_def fst_conv snd_conv by (simp only: append_take_drop_id)
    with 1 True e show ?thesis by (subst groups_from.simps) simp
  next
    case False
    with 1 show ?thesis by (subst groups_from.simps) simp
  qed
qed

lemma groups_concat:
  assumes "length xs = length calls"
  shows "concat (map (\<lambda>g. slice g xs) (groups calls tools limit)) = xs"
  unfolding groups_def by (subst groups_from_concat) (simp_all only: assms le0 drop_0)

text \<open>Inside a group of more than one call every call is shared; the group could not be longer.\<close>

lemma groups_from_shared:
  "(a, b) \<in> set (groups_from shared n start) \<Longrightarrow>
    start \<le> a \<and> a < b \<and> b \<le> n \<and> (b = Suc a \<or> (\<forall>i. a \<le> i \<and> i < b \<longrightarrow> shared i)) \<and>
    (shared a \<and> b < n \<longrightarrow> \<not> shared b)"
proof (induction shared n start rule: groups_from.induct)
  case (1 shared n start)
  from "1.prems" have less: "start < n" by (subst (asm) groups_from.simps) (auto split: if_splits)
  let ?e = "group_end shared n start"
  have e: "start < ?e" "?e \<le> n"
    using group_end_gt less run_end_le [of "Suc start" n shared] by (auto simp: group_end_def)
  from "1.prems" less consider "a = start" "b = ?e" | "(a, b) \<in> set (groups_from shared n ?e)"
    by (subst (asm) groups_from.simps) auto
  then show ?case
  proof cases
    case 1
    have "\<forall>i. start \<le> i \<and> i < ?e \<longrightarrow> shared i" if "shared start"
      using that run_end_all [of "Suc start" _ shared n]
      by (auto simp: group_end_def Suc_le_eq) (metis le_neq_implies_less)
    moreover have "\<not> shared ?e" if "shared start" "?e < n"
      using that run_end_maximal [of shared n "Suc start"] by (simp add: group_end_def)
    ultimately show ?thesis using 1 e by (auto simp: group_end_def)
  next
    case 2
    with "1.IH" [OF less] e show ?thesis by auto
  qed
qed

section \<open>Steps that write nothing\<close>

fun writes :: "obs \<Rightarrow> bool" where
  "writes (OCommit _) = True"
| "writes (ORequest _) = True"
| "writes _ = False"

text \<open>Only the world, the inbox and the trace changed, and nothing was committed or sent.\<close>

definition quiet :: "'w agent \<Rightarrow> 'w agent \<Rightarrow> bool" where
  "quiet s t \<longleftrightarrow> (\<exists>w ib ys. t = s\<lparr>world := w, ag_inbox := ib, trace := trace s @ ys\<rparr> \<and>
     (\<forall>y \<in> set ys. \<not> writes y))"

lemma quiet_refl [simp]: "quiet s s"
  unfolding quiet_def by (intro exI [of _ "world s"] exI [of _ "ag_inbox s"] exI [of _ "[]"]) simp

lemma quiet_trans: "quiet s t \<Longrightarrow> quiet t u \<Longrightarrow> quiet s u"
  unfolding quiet_def by (elim exE conjE) (rule exI, rule exI, rule_tac x = "ys @ ysa" in exI, auto)

lemma quiet_world [simp]: "quiet s (s\<lparr>world := w\<rparr>)"
  unfolding quiet_def by (intro exI [of _ w] exI [of _ "ag_inbox s"] exI [of _ "[]"]) simp

lemma quiet_worldD: "quiet (s\<lparr>world := w\<rparr>) t \<Longrightarrow> quiet s t"
  by (rule quiet_trans [OF quiet_world])

lemma quiet_world_trace:
  "\<not> writes x \<Longrightarrow> quiet s (s\<lparr>world := w, trace := trace s @ [x]\<rparr>)"
  unfolding quiet_def by (intro exI [of _ w] exI [of _ "ag_inbox s"] exI [of _ "[x]"]) simp

lemma quiet_trace: "\<not> writes x \<Longrightarrow> quiet s (s\<lparr>trace := trace s @ [x]\<rparr>)"
  unfolding quiet_def by (intro exI [of _ "world s"] exI [of _ "ag_inbox s"] exI [of _ "[x]"]) simp

lemma quiet_inbox: "quiet s (s\<lparr>world := w, ag_inbox := ib\<rparr>)"
  unfolding quiet_def by (intro exI [of _ w] exI [of _ ib] exI [of _ "[]"]) simp

lemma committed_quiet: "\<forall>y \<in> set ys. \<not> writes y \<Longrightarrow> committed ys = []"
  by (induction ys) (auto simp: committed_def map_filter_def split: obs.splits)

lemma quiet_fields:
  assumes "quiet s t"
  shows "ag_parts t = ag_parts s" "ag_history t = ag_history s" "ag_next_seq t = ag_next_seq s"
    "ag_environment_committed t = ag_environment_committed s"
    "ag_started_calls t = ag_started_calls s" "ag_last_usage t = ag_last_usage s"
    "ag_max_parallel_tools t = ag_max_parallel_tools s"
    "ag_max_overflow_retries t = ag_max_overflow_retries s"
    "committed (trace t) = committed (trace s)"
  using assms by (auto simp: quiet_def committed_quiet)

section \<open>The join\<close>

lemma wp_start_future_quiet:
  assumes "\<And>r t. quiet s t \<Longrightarrow> Q r t"
  shows "wp (start_future cancel f) Q s"
  unfolding start_future_def
  by (auto intro!: wp_extI assms quiet_world quiet_trace quiet_world_trace)

lemma wp_finish_future_quiet:
  assumes "\<And>r t. quiet s t \<Longrightarrow> Q r t"
  shows "wp (finish_future f) Q s"
  unfolding finish_future_def
  by (auto intro!: wp_extI assms quiet_world_trace)

lemma mset_remove_at: "i < length xs \<Longrightarrow> add_mset (xs ! i) (mset (remove_at i xs)) = mset xs"
  by (simp add: remove_at_def) (metis add_mset_add_single id_take_nth_drop mset.simps(2) mset_append
      union_mset_add_mset_right)

text \<open>Every call handed to the join comes back exactly once, and the join writes nothing.\<close>

lemma wp_join_quiet:
  assumes "\<And>r t. quiet s t \<Longrightarrow> mset (map fst r) = mset (map fu_index (waiting @ running)) \<Longrightarrow> Q r t"
  shows "wp (join cancel limit waiting running) Q s"
  using assms
proof (induction "2 * length waiting + length running" arbitrary: waiting running s Q rule: less_induct)
  case less
  have rest: "wp (join cancel limit waiting' running') (\<lambda>r u. Q (pre @ r) u) t"
    if "2 * length waiting' + length running' < 2 * length waiting + length running" "quiet s t"
      "mset (map fst pre) + mset (map fu_index (waiting' @ running')) = mset (map fu_index (waiting @ running))"
    for waiting' running' pre t
    using that by (intro less.hyps less.prems) (auto intro: quiet_trans)
  show ?case
  proof (cases "waiting = [] \<and> running = []")
    case True
    then show ?thesis by (simp add: join.simps less.prems)
  next
    case False
    have start: "wp (start_future cancel (hd waiting)) (\<lambda>d. wp (case d of
          Some ex \<Rightarrow> do { rest \<leftarrow> join cancel limit (tl waiting) running;
            ret ((fu_index (hd waiting), ex) # rest) }
        | None \<Rightarrow> join cancel limit (tl waiting) (running @ [hd waiting])) Q) t"
      if "waiting \<noteq> []" "quiet s t" for t
    proof (rule wp_start_future_quiet, rule wp_optionI, goal_cases)
      case (1 d u)
      then show ?case
        using rest [of "tl waiting" "running @ [hd waiting]" u "[]"] that
        by (cases waiting) (auto intro: quiet_trans)
    next
      case (2 d u ex)
      then show ?case
        using rest [of "tl waiting" running u "[(fu_index (hd waiting), ex)]"] that
        by (cases waiting) (auto intro: quiet_trans)
    qed
    have finish: "wp (finish_future (running ! i)) (\<lambda>ex. wp (do {
          rest \<leftarrow> join cancel limit waiting (remove_at i running);
          ret ((fu_index (running ! i), ex) # rest) }) Q) t"
      if "i < length running" "quiet s t" for i t
    proof (rule wp_finish_future_quiet, goal_cases)
      case (1 ex u)
      have "add_mset (fu_index (running ! i)) (mset (map fu_index (remove_at i running))) = mset (map fu_index running)"
        using mset_remove_at [of i "map fu_index running"] that(1) by (simp add: map_remove_at)
      then show ?case
        using rest [of waiting "remove_at i running" u "[(fu_index (running ! i), ex)]"] that 1
        by (cases running) (auto simp: length_remove_at intro: quiet_trans)
    qed
    have index: "(case choice of None \<Rightarrow> 0 | Some k \<Rightarrow> k mod length running) < length running"
      if "\<not> (waiting \<noteq> [] \<and> (running = [] \<or> length running < limit \<and> choice = None))" for choice
      using that False
      by (cases choice) (auto simp: length_greater_0_conv [symmetric] simp del: length_greater_0_conv)
    show ?thesis
      apply (subst join.simps)
      apply (simp only: False if_False wp_bind wp_get)
      apply (rule wp_extI)
      apply (rule wp_ifI)
       apply (simp only: wp_bind)
       apply (rule start [unfolded wp_bind], simp, simp)
      apply (simp only: wp_let wp_bind)
      apply (rule finish [unfolded wp_bind], erule index, simp)
      done
  qed
qed

section \<open>Every admitted call has its outcome\<close>

lemma length_place_fold:
  "length (fold (\<lambda>(i, ex) slots. slots[i := Some ex]) finished slots) = length slots"
  by (induction finished arbitrary: slots) (auto simp: case_prod_beta)

lemma place_fold_None:
  "i < length slots \<Longrightarrow>
    fold (\<lambda>(i, ex) slots. slots[i := Some ex]) finished slots ! i = None \<longleftrightarrow>
      slots ! i = None \<and> i \<notin> fst ` set finished"
proof (induction finished arbitrary: slots)
  case (Cons f finished)
  obtain k ex where f: "f = (k, ex)" by (cases f)
  show ?case
  proof (cases "k = i")
    case True
    with Cons.prems have "slots[k := Some ex] ! i \<noteq> None" by simp
    with Cons.IH [of "slots[k := Some ex]"] Cons.prems show ?thesis by (simp add: f True)
  next
    case False
    with Cons.IH [of "slots[k := Some ex]"] Cons.prems show ?thesis by (auto simp: f)
  qed
qed simp

lemma place_results_None: "i < n \<Longrightarrow> place_results n finished ! i = None \<longleftrightarrow> i \<notin> fst ` set finished"
  by (simp add: place_results_def place_fold_None)

lemma length_place_results [simp]: "length (place_results n finished) = n"
  by (simp add: place_results_def length_place_fold)

fun is_started :: "'w admitted \<Rightarrow> bool" where
  "is_started (Started _) = True"
| "is_started (Settled _ _) = False"

lemma group_futures_indices:
  "fu_index ` set (group_futures limit i k zs) = {i + j |j. j < length zs \<and> is_started (fst (zs ! j))}"
proof (induction limit i k zs rule: group_futures.induct)
  case (2 limit i k status content call rest)
  show ?case (is "_ = ?S")
  proof -
    have "?S = {Suc i + j |j. j < length rest \<and> is_started (fst (rest ! j))}"
      by (auto simp: nth_Cons' gr0_conv_Suc)
    with 2 show ?thesis by simp
  qed
next
  case (3 limit i k t call rest)
  show ?case (is "_ = ?S")
  proof -
    have "?S = insert i {Suc i + j |j. j < length rest \<and> is_started (fst (rest ! j))}"
      by (auto simp: nth_Cons' gr0_conv_Suc)
    with 3 show ?thesis by simp
  qed
qed simp

text \<open>The outcomes of a group: no permitted call is recorded as unknown.\<close>

lemma joined_outcomes:
  assumes "mset (map fst finished) = mset (map fu_index (group_futures limit 0 0 (zip xs calls)))"
    and "length xs = length calls" and "i < length calls" and "is_started (xs ! i)"
  shows "place_results (length calls) finished ! i \<noteq> None"
proof -
  have "fst ` set finished = fu_index ` set (group_futures limit 0 0 (zip xs calls))"
    using arg_cong [OF assms(1), of set_mset] by simp
  with assms(2-4) show ?thesis by (auto simp only: place_results_None group_futures_indices) simp
qed

section \<open>Results in block order\<close>

fun commit_failed :: "turn_end \<Rightarrow> bool" where
  "commit_failed (TeCommitFailed _) = True"
| "commit_failed _ = False"

text \<open>The results recorded for calls \<open>cs\<close>, in their order.\<close>

definition result_key :: "tool_result_item \<Rightarrow> ustring \<times> ustring" where
  "result_key r = (tr_call_id r, tr_name r)"

definition call_key :: "tool_call \<Rightarrow> ustring \<times> ustring" where
  "call_key c = (tc_call_id c, tc_name c)"

definition adds_results :: "tool_call list \<Rightarrow> 'w agent \<Rightarrow> 'w agent \<Rightarrow> bool" where
  "adds_results cs s t \<longleftrightarrow> (\<exists>rs. ag_history t = ag_history s @ map ItToolResult rs \<and>
     map result_key rs = map call_key cs)"

lemma adds_results_Nil: "ag_history t = ag_history s \<Longrightarrow> adds_results [] s t"
  by (simp add: adds_results_def)

lemma adds_results_append: "adds_results cs s t \<Longrightarrow> adds_results ds t u \<Longrightarrow> adds_results (cs @ ds) s u"
  unfolding adds_results_def
  by (elim exE conjE) (rule_tac x = "rs @ rsa" in exI, simp)

lemma adds_results_Cons:
  "ag_history t = ag_history s @ [ItToolResult r] \<Longrightarrow> result_key r = call_key c \<Longrightarrow>
    adds_results cs t u \<Longrightarrow> adds_results (c # cs) s u"
  unfolding adds_results_def by (elim exE conjE) (rule_tac x = "r # rs" in exI, simp)

lemma adds_results_frame:
  "ag_history t = ag_history s \<Longrightarrow> adds_results cs t u = adds_results cs s u"
  by (simp add: adds_results_def)

text \<open>A refused record leaves the results of a prefix of the calls.\<close>

definition results_upto :: "tool_call list \<Rightarrow> 'w agent \<Rightarrow> turn_end + 'b \<Rightarrow> 'w agent \<Rightarrow> bool" where
  "results_upto cs s r t \<longleftrightarrow>
     (case r of
        Inl e \<Rightarrow> commit_failed e \<and> (\<exists>n. adds_results (take n cs) s t)
      | Inr _ \<Rightarrow> adds_results cs s t)"

lemma results_upto_append:
  assumes "results_upto ds t r u" and "adds_results cs s t"
  shows "results_upto (cs @ ds) s r u"
proof (cases r)
  case (Inl e)
  with assms(1) obtain n where "adds_results (take n ds) t u" by (auto simp: results_upto_def)
  from adds_results_append [OF assms(2) this] have "\<exists>n. adds_results (take n (cs @ ds)) s u"
    by (intro exI [of _ "length cs + n"]) simp
  with assms(1) Inl show ?thesis by (simp add: results_upto_def)
next
  case (Inr x)
  with assms adds_results_append [OF assms(2), of ds u] show ?thesis by (simp add: results_upto_def)
qed

lemma results_upto_left: "results_upto cs s (Inl e) t \<Longrightarrow> results_upto (cs @ ds) s (Inl e) t"
proof -
  assume left: "results_upto cs s (Inl e) t"
  then obtain n where "adds_results (take n cs) s t" by (auto simp: results_upto_def)
  then have "\<exists>n. adds_results (take n (cs @ ds)) s t"
    by (intro exI [of _ "min n (length cs)"]) (auto simp: min_def)
  with left show ?thesis by (simp add: results_upto_def)
qed

lemma results_upto_stop:
  "commit_failed e \<Longrightarrow> ag_history t = ag_history s \<Longrightarrow> results_upto cs s (Inl e) t"
  by (auto simp: results_upto_def intro!: exI [of _ 0] adds_results_Nil)

lemma results_upto_frame: "ag_history t = ag_history s \<Longrightarrow> results_upto cs t = results_upto cs s"
  by (simp add: fun_eq_iff results_upto_def adds_results_def split: sum.split)

lemma wp_admit_history:
  "wp (admit cancel call tool)
    (\<lambda>r t. ag_history t = ag_history s \<and> (\<forall>e. r = Inl e \<longrightarrow> commit_failed e)) s"
  unfolding admit_def
  by (auto split: option.splits decision.splits intro!: wp_extI wp_raceI wp_commitI)

lemma wp_admit_all_history:
  "wp (admit_all cancel cts)
    (\<lambda>r t. ag_history t = ag_history s \<and> (case r of Inl e \<Rightarrow> commit_failed e | Inr xs \<Rightarrow> length xs = length cts)) s"
proof (induction cts arbitrary: s)
  case (Cons ct cts)
  obtain call tool where ct: "ct = (call, tool)" by (cases ct)
  show ?case
    unfolding ct admit_all.simps wp_bind
    by (rule wp_mono [OF wp_admit_history], rule wp_sumI, simp, unfold wp_bind,
        rule wp_mono [OF Cons.IH]) (auto split: sum.splits)
qed simp

lemma wp_finish_results:
  "wp (finish_started call ex) (results_upto [call] s) s"
  "wp (finish_tool call status content) (results_upto [call] s) s"
  unfolding finish_started_def finish_tool_def
  by (auto simp: results_upto_def adds_results_def result_key_def call_key_def
      intro!: wp_commitI exI [of _ "[_]"] exI [of _ 0])

lemma wp_record_results_order:
  "wp (record_results rs b) (results_upto (map fst rs) s) s"
proof (induction rs arbitrary: s b)
  case Nil
  show ?case by (simp add: results_upto_def adds_results_Nil)
next
  case (Cons x rs)
  obtain call admitted executed where x: "x = (call, admitted, executed)" by (cases x)
  have step: "wp (do { res \<leftarrow> m; case res of Inl e \<Rightarrow> ret (Inl e) | Inr _ \<Rightarrow> record_results rs b' })
      (results_upto (call # map fst rs) s) s"
    if m: "wp m (results_upto [call] s) s" for m :: "('a, turn_end + unit) act" and b'
    unfolding wp_bind
  proof (rule wp_mono [OF m], rule wp_sumI, goal_cases)
    case (1 r t e)
    then show ?case using results_upto_left [of "[call]" s e t "map fst rs"]
      by (simp add: results_upto_def)
  next
    case (2 r t u)
    then show ?case
      using results_upto_append [OF _ , of "map fst rs" t _ _ "[call]" s]
      by (intro wp_mono [OF Cons.IH]) (auto simp: results_upto_def [of "[call]"])
  qed
  show ?case
    unfolding x
    by (auto split: admitted.split option.split intro!: step [unfolded wp_bind] wp_finish_results)
qed

lemma wp_run_group_order: "wp (run_group cancel cts) (results_upto (map fst cts) s) s"
  unfolding run_group_def wp_bind
proof (rule wp_mono [OF wp_admit_all_history], rule wp_sumI, goal_cases)
  case (1 r t e)
  then show ?case by (simp add: results_upto_stop)
next
  case (2 r t xs)
  then have xs: "length xs = length cts" and t: "ag_history t = ag_history s" by auto
  show ?case
    unfolding wp_bind wp_gets
  proof (rule wp_join_quiet, goal_cases)
    case (1 finished u)
    have "map fst (zip (map fst cts) (zip xs (place_results (length cts) finished))) = map fst cts"
      using xs by (simp add: map_fst_zip_take)
    moreover have "results_upto (map fst cts) u = (results_upto (map fst cts) s :: turn_end + bool \<Rightarrow> _)"
      using t by (intro results_upto_frame) (simp add: quiet_fields [OF 1(1)])
    ultimately show ?case
      using wp_record_results_order
        [of "zip (map fst cts) (zip xs (place_results (length cts) finished))" False u] by simp
  qed
qed

lemma wp_run_groups_order:
  "wp (run_groups cancel gs b) (results_upto (concat (map (map fst) gs)) s) s"
proof (induction gs arbitrary: s b)
  case Nil
  show ?case by (simp add: results_upto_def adds_results_Nil)
next
  case (Cons g gs)
  show ?case
    unfolding run_groups.simps wp_bind
  proof (rule wp_mono [OF wp_run_group_order], rule wp_sumI, goal_cases)
    case (1 r t e)
    then show ?case
      using results_upto_left [of "map fst g" s e t] by (simp add: results_upto_def)
  next
    case (2 r t x)
    then have t: "adds_results (map fst g) s t" by (simp add: results_upto_def)
    show ?case
      by (rule wp_mono [OF Cons.IH]) (use results_upto_append [OF _ t] in simp)
  qed
qed

end
