(* ===== verification/CoreTurn.thy ===== *)
theory CoreTurn
  imports CoreTools
begin

text \<open>
  The request loop of \<open>crates/p1-core/src/lib.rs\<close>: construction and the environment record, request
  timing (ADR-0121), the consumption of one provider stream, the interruption records, context
  replacement and manual compaction, one request, the loop with its overflow recovery, and the
  entry points of a turn. A loop that the provider can keep running takes fuel: \<open>None\<close> is a turn
  still in progress when the fuel is spent, and the state then reached is kept, so that a safety
  property of all fuels is one of every prefix of a run.
\<close>

section \<open>The environment\<close>

definition environment_record :: "'w provider \<Rightarrow> 'w tool list \<Rightarrow> ustring \<Rightarrow> model_options \<Rightarrow> record_body" where
  "environment_record provider tools system_prompt options =
     RbEnvironment (prov_describe provider) system_prompt
       (map (\<lambda>t. (tool_declaration t, tool_identity t)) tools) options"

text \<open>The first name of the list that an earlier entry already has.\<close>

fun duplicate_name :: "ustring set \<Rightarrow> 'w tool list \<Rightarrow> ustring option" where
  "duplicate_name names [] = None"
| "duplicate_name names (t # ts) =
     (let name = td_name (tool_declaration t)
      in if name \<in> names then Some name else duplicate_name (insert name names) ts)"

definition check_environment ::
    "'w provider \<Rightarrow> 'w tool list \<Rightarrow> ustring \<Rightarrow> model_options \<Rightarrow> item list \<Rightarrow> build_error + unit" where
  "check_environment provider tools system_prompt options history =
     (case duplicate_name {} tools of
        Some name \<Rightarrow> Inl (BeDuplicateToolName name)
      | None \<Rightarrow>
          (case prov_validate provider
              \<lparr>pr_system_prompt = system_prompt, pr_history = history,
               pr_tools = map tool_declaration tools, pr_options = options\<rparr> of
             Some err \<Rightarrow> Inl (BeProviderRejected err)
           | None \<Rightarrow> Inr ()))"

text \<open>
  \<open>Agent::assemble\<close>. The clock, the other holders of the inbox, the scheduler and the world are the
  model's; a fresh agent has an empty queue and an empty trace.
\<close>

definition assemble ::
    "'w agent_parts \<Rightarrow> item list \<Rightarrow> nat \<Rightarrow> bool \<Rightarrow> ustring set \<Rightarrow> usage option \<Rightarrow>
     ('w \<Rightarrow> nat \<times> 'w) \<Rightarrow> ('w \<Rightarrow> inbox_op list \<times> 'w) \<Rightarrow> (nat \<Rightarrow> 'w \<Rightarrow> nat option \<times> 'w) \<Rightarrow> 'w \<Rightarrow>
     build_error + 'w agent" where
  "assemble parts history next_seq environment_committed started_calls last_usage clock peers schedule w =
     (case check_environment (pt_provider parts) (pt_tools parts) (pt_system_prompt parts)
         (pt_options parts) history of
        Inl e \<Rightarrow> Inl e
      | Inr _ \<Rightarrow> Inr \<lparr>ag_parts = parts, ag_history = history, ag_next_seq = next_seq,
          ag_environment_committed = environment_committed, ag_started_calls = started_calls,
          ag_last_usage = last_usage, ag_max_parallel_tools = default_max_parallel_tools,
          ag_max_overflow_retries = default_max_overflow_retries,
          ag_inbox = \<lparr>ib_queue = [], ib_next_id = 0\<rparr>,
          ag_clock = clock, ag_peers = peers, ag_schedule = schedule, world = w, trace = []\<rparr>)"

definition agent_new ::
    "'w agent_parts \<Rightarrow> ('w \<Rightarrow> nat \<times> 'w) \<Rightarrow> ('w \<Rightarrow> inbox_op list \<times> 'w) \<Rightarrow>
     (nat \<Rightarrow> 'w \<Rightarrow> nat option \<times> 'w) \<Rightarrow> 'w \<Rightarrow> build_error + 'w agent" where
  "agent_new parts = assemble parts [] 0 False {} None"

definition commit_environment_if_needed :: "('w, ustring + unit) act" where
  "commit_environment_if_needed = do {
     s \<leftarrow> State_Monad.get;
     if ag_environment_committed s then ret (Inr ())
     else do {
       let p = ag_parts s;
       res \<leftarrow> commit (environment_record (pt_provider p) (pt_tools p) (pt_system_prompt p) (pt_options p));
       case res of
         Inl err \<Rightarrow> ret (Inl err)
       | Inr _ \<Rightarrow> do {
           modify (\<lambda>s. s\<lparr>ag_environment_committed := True\<rparr>);
           ret (Inr ())
         }
     }
   }"

definition install_parts :: "'w reconfiguration \<Rightarrow> 'w agent_parts \<Rightarrow> 'w agent_parts" where
  "install_parts next p =
     p\<lparr>pt_provider := rc_provider next, pt_tools := rc_tools next,
       pt_system_prompt := rc_system_prompt next, pt_options := rc_options next,
       pt_context := rc_context next,
       pt_authorization := (case rc_authorization next of None \<Rightarrow> pt_authorization p | Some a \<Rightarrow> a)\<rparr>"

definition reconfigure :: "'w reconfiguration \<Rightarrow> ('w, reconfigure_error + unit) act" where
  "reconfigure next = do {
     history \<leftarrow> gets ag_history;
     case check_environment (rc_provider next) (rc_tools next) (rc_system_prompt next)
         (rc_options next) history of
       Inl e \<Rightarrow> ret (Inl (ReRejected e))
     | Inr _ \<Rightarrow> do {
         res \<leftarrow> commit (environment_record (rc_provider next) (rc_tools next)
           (rc_system_prompt next) (rc_options next));
         case res of
           Inl err \<Rightarrow> ret (Inl (ReCommitFailed err))
         | Inr _ \<Rightarrow> do {
             modify (\<lambda>s. s\<lparr>ag_parts := install_parts next (ag_parts s), ag_environment_committed := True\<rparr>);
             ret (Inr ())
           }
       }
   }"

definition set_clock :: "('w \<Rightarrow> nat \<times> 'w) \<Rightarrow> ('w, unit) act" where
  "set_clock clock = modify (\<lambda>s. s\<lparr>ag_clock := clock\<rparr>)"

definition set_max_parallel_tools :: "nat \<Rightarrow> ('w, unit) act" where
  "set_max_parallel_tools limit = modify (\<lambda>s. s\<lparr>ag_max_parallel_tools := limit\<rparr>)"

definition set_max_overflow_retries :: "nat \<Rightarrow> ('w, unit) act" where
  "set_max_overflow_retries limit = modify (\<lambda>s. s\<lparr>ag_max_overflow_retries := limit\<rparr>)"

section \<open>Request timing\<close>

record timing =
  tm_request_index :: nat
  tm_sent_ms :: nat
  tm_first_event_ms :: "nat option"
  tm_first_output_ms :: "nat option"
  tm_ended_ms :: "nat option"
  tm_waits :: "wait list"

definition timing_new :: "nat \<Rightarrow> nat \<Rightarrow> timing" where
  "timing_new request_index sent_ms = \<lparr>tm_request_index = request_index, tm_sent_ms = sent_ms,
     tm_first_event_ms = None, tm_first_output_ms = None, tm_ended_ms = None, tm_waits = []\<rparr>"

definition now_ms :: "('w, nat) act" where
  "now_ms = do { s \<leftarrow> State_Monad.get; ext (ag_clock s) }"

fun is_output_event :: "stream_event \<Rightarrow> bool" where
  "is_output_event (SeTextDelta _ _) = True"
| "is_output_event (SeReasoningDelta _ _) = True"
| "is_output_event (SeToolInputDelta _ _ _) = True"
| "is_output_event _ = False"

fun is_finished_event :: "stream_event \<Rightarrow> bool" where
  "is_finished_event (SeFinished _) = True"
| "is_finished_event _ = False"

text \<open>The fields one event fills, all with the same reading of the clock.\<close>

definition stamp_event :: "nat \<Rightarrow> stream_event \<Rightarrow> timing \<Rightarrow> timing" where
  "stamp_event now event tm =
     tm\<lparr>tm_first_event_ms := (case tm_first_event_ms tm of None \<Rightarrow> Some now | Some x \<Rightarrow> Some x),
        tm_first_output_ms := (if tm_first_output_ms tm = None \<and> is_output_event event
          then Some now else tm_first_output_ms tm),
        tm_ended_ms := (if is_finished_event event \<and> tm_ended_ms tm = None
          then Some now else tm_ended_ms tm)\<rparr>"

definition record_event :: "stream_event \<Rightarrow> timing \<Rightarrow> ('w, timing) act" where
  "record_event event tm =
     (case event of
        SeWait reason attempt delay_ms \<Rightarrow>
          ret (tm\<lparr>tm_waits := tm_waits tm @ [\<lparr>wt_reason = reason, wt_attempt = attempt, wt_delay_ms = delay_ms\<rparr>],
                 tm_first_event_ms := None\<rparr>)
      | SeNotice _ \<Rightarrow> ret tm
      | _ \<Rightarrow>
          (let first_event = (tm_first_event_ms tm = None);
               first_output = (tm_first_output_ms tm = None \<and> is_output_event event);
               terminal = (is_finished_event event \<and> tm_ended_ms tm = None)
           in if \<not> (first_event \<or> first_output \<or> terminal) then ret tm
              else do { now \<leftarrow> now_ms; ret (stamp_event now event tm) }))"

definition timing_finish :: "timing \<Rightarrow> ('w, timing) act" where
  "timing_finish tm =
     (case tm_ended_ms tm of
        Some _ \<Rightarrow> ret tm
      | None \<Rightarrow> do { now \<leftarrow> now_ms; ret (tm\<lparr>tm_ended_ms := Some now\<rparr>) })"

definition timing_body :: "timing \<Rightarrow> record_body" where
  "timing_body tm =
     RbRequestTiming (tm_request_index tm) (tm_sent_ms tm) (tm_first_event_ms tm)
       (tm_first_output_ms tm)
       (case tm_ended_ms tm of None \<Rightarrow> tm_sent_ms tm | Some e \<Rightarrow> e) (tm_waits tm)"

definition commit_request_timing :: "record_body \<Rightarrow> ('w, ustring + unit) act" where
  "commit_request_timing body = do {
     s \<leftarrow> State_Monad.get;
     if \<not> sink_accepts_timing (pt_journal (ag_parts s)) then ret (Inr ()) else commit body
   }"

section \<open>Interruptions\<close>

definition no_terminal_event :: provider_error where
  "no_terminal_event = \<lparr>pe_kind = PkTransport, pe_message = lit ''stream ended without a terminal event''\<rparr>"

definition interrupted_end :: "interruption_reason \<Rightarrow> provider_error option \<Rightarrow> turn_end" where
  "interrupted_end reason err =
     (case (reason, err) of
        (IrCancelled, _) \<Rightarrow> TeCancelled
      | (IrProviderFailed, Some e) \<Rightarrow> TeProviderFailed e
      | (IrProviderFailed, None) \<Rightarrow> TeProviderFailed no_terminal_event)"

definition end_interrupted ::
    "interruption_reason \<Rightarrow> ustring \<Rightarrow> provider_error option \<Rightarrow> timing option \<Rightarrow> ('w, turn_end) act" where
  "end_interrupted reason partial_text err timing = do {
     res \<leftarrow> commit (RbAssistantInterrupted reason partial_text err);
     case res of
       Inl e \<Rightarrow> ret (TeCommitFailed e)
     | Inr _ \<Rightarrow>
         (case timing of
            None \<Rightarrow> ret (interrupted_end reason err)
          | Some tm \<Rightarrow> do {
              tm' \<leftarrow> timing_finish tm;
              res2 \<leftarrow> commit_request_timing (timing_body tm');
              case res2 of
                Inl e \<Rightarrow> ret (TeCommitFailed e)
              | Inr _ \<Rightarrow> ret (interrupted_end reason err)
            })
   }"

section \<open>The stream of one response\<close>

datatype stream_outcome =
    SoCompleted completed_response
  | SoCancelled ustring
  | SoFailed ustring provider_error

text \<open>What one event is for the front end and for the partial text (step 3d).\<close>

fun forward_event :: "stream_event \<Rightarrow> agent_event option" where
  "forward_event (SeTextDelta _ t) = Some (EvTextDelta t)"
| "forward_event (SeReasoningDelta _ t) = Some (EvReasoningDelta t)"
| "forward_event (SeToolInputDelta i n t) = Some (EvToolInputDelta i n t)"
| "forward_event (SeNotice t) = Some (EvProviderNotice t)"
| "forward_event _ = None"

fun partial_after :: "stream_event \<Rightarrow> ustring \<Rightarrow> ustring" where
  "partial_after (SeTextDelta _ t) partial = partial @ t"
| "partial_after _ partial = partial"

definition finished_outcome :: "outcome \<Rightarrow> ustring \<Rightarrow> stream_outcome" where
  "finished_outcome oc partial =
     (case oc of
        OcCompleted response \<Rightarrow> SoCompleted response
      | OcFailed err \<Rightarrow> SoFailed partial err
      | OcCancelled \<Rightarrow> SoCancelled partial)"

definition emit_opt :: "agent_event option \<Rightarrow> ('w, unit) act" where
  "emit_opt e = (case e of None \<Rightarrow> ret () | Some ev \<Rightarrow> emit ev)"

fun consume_stream ::
    "nat \<Rightarrow> 'w token \<Rightarrow> 'w stream \<Rightarrow> timing \<Rightarrow> ustring \<Rightarrow>
     ('w, (stream_outcome \<times> timing) option) act" where
  "consume_stream 0 cancel stream tm partial = ret None"
| "consume_stream (Suc fuel) cancel stream tm partial = do {
     step \<leftarrow> race cancel stream;
     case step of
       None \<Rightarrow> ret (Some (SoCancelled partial, tm))
     | Some None \<Rightarrow> ret (Some (SoFailed partial no_terminal_event, tm))
     | Some (Some event) \<Rightarrow> do {
         tm' \<leftarrow> record_event event tm;
         case event of
           SeFinished oc \<Rightarrow> ret (Some (finished_outcome oc partial, tm'))
         | _ \<Rightarrow> do {
             emit_opt (forward_event event);
             consume_stream fuel cancel stream tm' (partial_after event partial)
           }
       }
   }"

end
