(* ===== verification/CoreLoop.thy ===== *)
theory CoreLoop
  imports CoreTurn
begin

text \<open>
  The second half of the request loop of \<open>crates/p1-core/src/lib.rs\<close>: installing a context policy's
  replacement, manual compaction, one request (steps 3a to 3g of \<open>docs/design/core.md\<close>), the loop
  with its overflow recovery, and the entry points \<open>run_turn\<close>, \<open>run_content_turn\<close>,
  \<open>run_inbox_turn\<close> and \<open>resume_turn\<close>.
\<close>

section \<open>Replacing the history\<close>

definition install_replacement :: "prepared \<Rightarrow> nat \<Rightarrow> ('w, turn_end + unit) act" where
  "install_replacement prepared items_before =
     (case validate_replacement (pp_items prepared) of
        Inl message \<Rightarrow> ret (Inl (TeContextFailed message))
      | Inr _ \<Rightarrow> do {
          res \<leftarrow> commit (RbContextReplaced (pp_items prepared) (pp_usage prepared));
          case res of
            Inl err \<Rightarrow> ret (Inl (TeCommitFailed err))
          | Inr _ \<Rightarrow> do {
              modify (\<lambda>s. s\<lparr>ag_history := pp_items prepared\<rparr>);
              emit (EvContextReplaced items_before (length (pp_items prepared)) (pp_usage prepared));
              ret (Inr ())
            }
        })"

text \<open>
  The text of a failed installation. \<open>install_replacement\<close> ends in no other way (lemma
  \<open>install_replacement_ends\<close>), so the last case, a debug rendering in the source, is never taken.
\<close>

fun install_failure_message :: "turn_end \<Rightarrow> ustring" where
  "install_failure_message (TeContextFailed message) = message"
| "install_failure_message (TeCommitFailed message) = message"
| "install_failure_message _ = []"

definition compact_now :: "'w token \<Rightarrow> ('w, context_error + compaction) act" where
  "compact_now cancel = do {
     s \<leftarrow> State_Monad.get;
     let input = \<lparr>ci_history = ag_history s, ci_last_usage = ag_last_usage s\<rparr>;
     result \<leftarrow> race cancel (ctx_compact_now (pt_context (ag_parts s)) input);
     case result of
       None \<Rightarrow> ret (Inl CeCancelled)
     | Some (Inl e) \<Rightarrow> ret (Inl e)
     | Some (Inr (CpUnchanged tokens)) \<Rightarrow> ret (Inr (CpUnchanged tokens))
     | Some (Inr (CpReplaced prepared tokens_before tokens_after)) \<Rightarrow> do {
         env \<leftarrow> commit_environment_if_needed;
         case env of
           Inl err \<Rightarrow> ret (Inl (CeFailed err))
         | Inr _ \<Rightarrow> do {
             items_before \<leftarrow> gets (\<lambda>s. length (ag_history s));
             res \<leftarrow> install_replacement prepared items_before;
             case res of
               Inl e \<Rightarrow> ret (Inl (CeFailed (install_failure_message e)))
             | Inr _ \<Rightarrow> do {
                 modify (\<lambda>s. s\<lparr>ag_last_usage := None\<rparr>);
                 ret (Inr (CpReplaced prepared tokens_before tokens_after))
               }
           }
       }
   }"

section \<open>One request\<close>

datatype flow = FlContinue | FlEnd turn_end | FlOverflow turn_end

definition from_failure :: "turn_end \<Rightarrow> flow" where
  "from_failure e =
     (case e of
        TeProviderFailed err \<Rightarrow>
          if pe_kind err = PkContextWindowExceeded then FlOverflow e else FlEnd e
      | _ \<Rightarrow> FlEnd e)"

definition build_request :: "'w agent \<Rightarrow> provider_request" where
  "build_request s =
     \<lparr>pr_system_prompt = pt_system_prompt (ag_parts s), pr_history = ag_history s,
      pr_tools = map tool_declaration (pt_tools (ag_parts s)), pr_options = pt_options (ag_parts s)\<rparr>"

text \<open>Step 3b: \<open>Inl\<close> ends the request, \<open>Inr\<close> goes on to 3c.\<close>

definition prepare_context :: "'w token \<Rightarrow> ('w, flow + unit) act" where
  "prepare_context cancel = do {
     s \<leftarrow> State_Monad.get;
     let input = \<lparr>ci_history = ag_history s, ci_last_usage = ag_last_usage s\<rparr>;
     prepared \<leftarrow> race cancel (ctx_prepare (pt_context (ag_parts s)) input);
     let items_before = length (ag_history s);
     case prepared of
       None \<Rightarrow> do {
         e \<leftarrow> end_interrupted IrCancelled [] None None;
         ret (Inl (FlEnd e))
       }
     | Some (Inr None) \<Rightarrow> ret (Inr ())
     | Some (Inr (Some p)) \<Rightarrow> do {
         res \<leftarrow> install_replacement p items_before;
         case res of Inl e \<Rightarrow> ret (Inl (FlEnd e)) | Inr _ \<Rightarrow> ret (Inr ())
       }
     | Some (Inl CeCancelled) \<Rightarrow> do {
         e \<leftarrow> end_interrupted IrCancelled [] None None;
         ret (Inl (FlEnd e))
       }
     | Some (Inl (CeFailed message)) \<Rightarrow> ret (Inl (FlEnd (TeContextFailed message)))
   }"

text \<open>Steps 3c and 3d: \<open>Inr\<close> is the completed response with the timing of its request.\<close>

definition send_request ::
    "nat \<Rightarrow> nat \<Rightarrow> 'w token \<Rightarrow> ('w, (flow + completed_response \<times> timing) option) act" where
  "send_request fuel request_index cancel = do {
     emit (EvRequestStarted request_index);
     fired \<leftarrow> ext cancel;
     if fired then do {
       e \<leftarrow> end_interrupted IrCancelled [] None None;
       ret (Some (Inl (FlEnd e)))
     }
     else do {
       s \<leftarrow> State_Monad.get;
       let request = build_request s;
       sent_ms \<leftarrow> now_ms;
       let tm = timing_new request_index sent_ms;
       observe (ORequest request);
       result \<leftarrow> race cancel (prov_stream (pt_provider (ag_parts s)) request);
       case result of
         None \<Rightarrow> do {
           tm' \<leftarrow> timing_finish tm;
           e \<leftarrow> end_interrupted IrCancelled [] None (Some tm');
           ret (Some (Inl (FlEnd e)))
         }
       | Some (Inl err) \<Rightarrow> do {
           tm' \<leftarrow> timing_finish tm;
           e \<leftarrow> end_interrupted IrProviderFailed [] (Some err) (Some tm');
           ret (Some (Inl (from_failure e)))
         }
       | Some (Inr stream) \<Rightarrow> do {
           outcome \<leftarrow> consume_stream fuel cancel stream tm [];
           case outcome of
             None \<Rightarrow> ret None
           | Some (SoCompleted response, tm') \<Rightarrow> ret (Some (Inr (response, tm')))
           | Some (SoCancelled partial, tm') \<Rightarrow> do {
               e \<leftarrow> end_interrupted IrCancelled partial None (Some tm');
               ret (Some (Inl (FlEnd e)))
             }
           | Some (SoFailed partial err, tm') \<Rightarrow> do {
               e \<leftarrow> end_interrupted IrProviderFailed partial (Some err) (Some tm');
               ret (Some (Inl (from_failure e)))
             }
         }
     }
   }"

text \<open>Step 3e: the completed response is durable before anything observes it.\<close>

definition commit_response :: "completed_response \<Rightarrow> timing \<Rightarrow> ('w, turn_end + unit) act" where
  "commit_response response tm = do {
     res \<leftarrow> commit (RbAssistantCompleted (cr_item response) (cr_stop response) (cr_usage response));
     case res of
       Inl err \<Rightarrow> ret (Inl (TeCommitFailed err))
     | Inr _ \<Rightarrow> do {
         push_item (ItAssistant (cr_item response));
         res2 \<leftarrow> commit_request_timing (timing_body tm);
         case res2 of
           Inl err \<Rightarrow> ret (Inl (TeCommitFailed err))
         | Inr _ \<Rightarrow> do {
             modify (\<lambda>s. s\<lparr>ag_last_usage := cr_usage response\<rparr>);
             emit (EvResponseCompleted (org_model (ai_origin (cr_item response)))
               (cr_stop response) (cr_usage response));
             ret (Inr ())
           }
       }
   }"

text \<open>Steps 3f and 3g.\<close>

definition after_response :: "'w token \<Rightarrow> completed_response \<Rightarrow> ('w, flow) act" where
  "after_response cancel response =
     (let calls = tool_calls (cr_item response); stop = cr_stop response in
      if calls = [] then
        (if stop = SrPaused then ret FlContinue
         else do {
           pending \<leftarrow> has_pending_inbox;
           if pending then ret FlContinue else ret (FlEnd (TeCompleted stop))
         })
      else do {
        s \<leftarrow> State_Monad.get;
        let tools = map (assembled_tool (pt_tools (ag_parts s))) calls;
        let gs = groups calls tools (ag_max_parallel_tools s);
        res \<leftarrow> run_groups cancel (map (\<lambda>g. slice g (zip calls tools)) gs) False;
        case res of
          Inl e \<Rightarrow> ret (FlEnd e)
        | Inr ends_turn \<Rightarrow> do {
            fired \<leftarrow> ext cancel;
            if fired then ret (FlEnd TeCancelled)
            else if ends_turn then ret (FlEnd (TeCompleted stop))
            else ret FlContinue
          }
      })"

definition one_request :: "nat \<Rightarrow> nat \<Rightarrow> 'w token \<Rightarrow> ('w, flow option) act" where
  "one_request fuel request_index cancel = do {
     inbox \<leftarrow> deliver_inbox;
     case inbox of
       Inl err \<Rightarrow> ret (Some (FlEnd (TeCommitFailed err)))
     | Inr _ \<Rightarrow> do {
         prep \<leftarrow> prepare_context cancel;
         case prep of
           Inl fl \<Rightarrow> ret (Some fl)
         | Inr _ \<Rightarrow> do {
             sent \<leftarrow> send_request fuel request_index cancel;
             case sent of
               None \<Rightarrow> ret None
             | Some (Inl fl) \<Rightarrow> ret (Some fl)
             | Some (Inr (response, tm)) \<Rightarrow> do {
                 res \<leftarrow> commit_response response tm;
                 case res of
                   Inl e \<Rightarrow> ret (Some (FlEnd e))
                 | Inr _ \<Rightarrow> do {
                     fl \<leftarrow> after_response cancel response;
                     ret (Some fl)
                   }
               }
           }
       }
   }"

section \<open>The loop\<close>

definition compact_after_overflow :: "'w token \<Rightarrow> ('w, bool) act" where
  "compact_after_overflow cancel = do {
     res \<leftarrow> compact_now cancel;
     ret (case res of Inr (CpReplaced _ _ _) \<Rightarrow> True | _ \<Rightarrow> False)
   }"

fun request_loop :: "nat \<Rightarrow> nat \<Rightarrow> nat \<Rightarrow> nat \<Rightarrow> 'w token \<Rightarrow> ('w, turn_end option) act" where
  "request_loop 0 fuel request_index overflow_retries cancel = ret None"
| "request_loop (Suc n) fuel request_index overflow_retries cancel = do {
     fl \<leftarrow> one_request fuel request_index cancel;
     case fl of
       None \<Rightarrow> ret None
     | Some FlContinue \<Rightarrow> request_loop n fuel (wrapping_add32 request_index 1) 0 cancel
     | Some (FlOverflow e) \<Rightarrow> do {
         limit \<leftarrow> gets ag_max_overflow_retries;
         if limit \<le> overflow_retries then ret (Some e)
         else do {
           shrunk \<leftarrow> compact_after_overflow cancel;
           if \<not> shrunk then ret (Some e)
           else request_loop n fuel (wrapping_add32 request_index 1) (Suc overflow_retries) cancel
         }
       }
     | Some (FlEnd e) \<Rightarrow> ret (Some e)
   }"

section \<open>The entry points of a turn\<close>

fun input_body :: "user_input \<Rightarrow> record_body" where
  "input_body (UiText t) = RbUserInput t"
| "input_body (UiContent blocks) = RbUserContent blocks"

fun input_item :: "user_input \<Rightarrow> item" where
  "input_item (UiText t) = ItUser t"
| "input_item (UiContent blocks) = ItUserContent blocks"

definition commit_input :: "user_input option \<Rightarrow> ('w, turn_end + unit) act" where
  "commit_input input =
     (case input of
        None \<Rightarrow> ret (Inr ())
      | Some i \<Rightarrow> do {
          res \<leftarrow> commit (input_body i);
          case res of
            Inl err \<Rightarrow> ret (Inl (TeCommitFailed err))
          | Inr _ \<Rightarrow> do { push_item (input_item i); ret (Inr ()) }
        })"

definition run_inner :: "nat \<Rightarrow> user_input option \<Rightarrow> 'w token \<Rightarrow> ('w, turn_end option) act" where
  "run_inner fuel input cancel = do {
     emit EvTurnStarted;
     env \<leftarrow> commit_environment_if_needed;
     case env of
       Inl err \<Rightarrow> ret (Some (TeCommitFailed err))
     | Inr _ \<Rightarrow> do {
         rec \<leftarrow> reconcile_unresolved_calls;
         case rec of
           Inl e \<Rightarrow> ret (Some e)
         | Inr _ \<Rightarrow> do {
             inp \<leftarrow> commit_input input;
             case inp of
               Inl e \<Rightarrow> ret (Some e)
             | Inr _ \<Rightarrow> request_loop fuel fuel 0 0 cancel
           }
       }
   }"

definition finish_turn :: "turn_end option \<Rightarrow> ('w, turn_end option) act" where
  "finish_turn e =
     (case e of
        None \<Rightarrow> ret None
      | Some te \<Rightarrow> do { emit (EvTurnFinished te); ret (Some te) })"

definition turn_of :: "nat \<Rightarrow> user_input option \<Rightarrow> 'w token \<Rightarrow> ('w, turn_end option) act" where
  "turn_of fuel input cancel = do {
     e \<leftarrow> run_inner fuel input cancel;
     finish_turn e
   }"

definition run_turn :: "nat \<Rightarrow> ustring \<Rightarrow> 'w token \<Rightarrow> ('w, turn_end option) act" where
  "run_turn fuel input cancel = turn_of fuel (Some (UiText input)) cancel"

definition run_content_turn :: "nat \<Rightarrow> user_block list \<Rightarrow> 'w token \<Rightarrow> ('w, turn_end option) act" where
  "run_content_turn fuel blocks cancel = turn_of fuel (Some (UiContent blocks)) cancel"

definition resume_turn :: "nat \<Rightarrow> 'w token \<Rightarrow> ('w, turn_end option) act" where
  "resume_turn fuel cancel = turn_of fuel None cancel"

text \<open>The outer \<open>None\<close> is a turn in progress, \<open>Some None\<close> the no-op on an empty inbox.\<close>

definition run_inbox_turn :: "nat \<Rightarrow> 'w token \<Rightarrow> ('w, turn_end option option) act" where
  "run_inbox_turn fuel cancel = do {
     pending \<leftarrow> has_pending_inbox;
     if \<not> pending then ret (Some None)
     else do {
       e \<leftarrow> turn_of fuel None cancel;
       ret (map_option Some e)
     }
   }"

end
