(* ===== verification/CoreTrace.thy ===== *)
theory CoreTrace
  imports CoreGroups CoreLoop
begin

text \<open>
  What may happen when in a turn. \<open>needs\<close> gives, for each observable action, what must already have
  happened: an event that announces a record needs the committed record (ruling R6), an execution
  needs the permission and the committed \<open>ToolStarted\<close> of an assembled tool, an authorization needs
  the committed response that holds the call, and after a refused commit nothing is left but the
  turn's last event (design note section 7). \<open>trace_ok\<close> says every action of a trace had what it
  needs; each operation keeps it, whatever the world answers.
\<close>

section \<open>What each action needs\<close>

abbreviation bodies :: "obs list \<Rightarrow> record_body set" where
  "bodies tr \<equiv> set (map jr_body (committed tr))"

definition response_call :: "obs list \<Rightarrow> tool_call \<Rightarrow> bool" where
  "response_call tr call \<longleftrightarrow>
     (\<exists>a stop u. RbAssistantCompleted a stop u \<in> bodies tr \<and> call \<in> set (tool_calls a))"

fun is_turn_finished :: "obs \<Rightarrow> bool" where
  "is_turn_finished (OEmit (EvTurnFinished _)) = True"
| "is_turn_finished _ = False"

type_synonym face = "ustring \<times> tool_identity"

text \<open>The batch of the inbox: the last \<open>n\<close> actions are the commits of its records.\<close>

fun inbox_commit :: "obs \<Rightarrow> bool" where
  "inbox_commit (OCommit r) = (case jr_body r of RbInbox _ _ \<Rightarrow> True | _ \<Rightarrow> False)"
| "inbox_commit _ = False"

definition batch_committed :: "nat \<Rightarrow> obs list \<Rightarrow> bool" where
  "batch_committed n tr \<longleftrightarrow> 0 < n \<and> n \<le> length tr \<and> list_all inbox_commit (drop (length tr - n) tr)"

fun needs :: "face set \<Rightarrow> obs \<Rightarrow> obs list \<Rightarrow> bool" where
  "needs T (OEmit (EvToolStarted call)) tr \<longleftrightarrow>
     (\<exists>identity. RbToolStarted (tc_call_id call) identity \<in> bodies tr)"
| "needs T (OEmit (EvToolFinished result)) tr \<longleftrightarrow> (\<exists>code. RbToolFinished result code \<in> bodies tr)"
| "needs T (OEmit (EvResponseCompleted model stop u)) tr \<longleftrightarrow>
     (\<exists>a. RbAssistantCompleted a stop u \<in> bodies tr \<and> org_model (ai_origin a) = model)"
| "needs T (OEmit (EvContextReplaced before after u)) tr \<longleftrightarrow>
     (\<exists>items. RbContextReplaced items u \<in> bodies tr \<and> after = length items)"
| "needs T (OEmit (EvInboxDelivered n)) tr \<longleftrightarrow> batch_committed n tr"
| "needs T (OAuthorize call ef) tr \<longleftrightarrow> response_call tr call"
| "needs T (OExecStart identity call) tr \<longleftrightarrow>
     (tc_name call, identity) \<in> T \<and> ODecided call (Some Permit) \<in> set tr \<and>
     RbToolStarted (tc_call_id call) identity \<in> bodies tr"
| "needs T (OExecEnd call oc) tr \<longleftrightarrow> (\<exists>identity. OExecStart identity call \<in> set tr)"
| "needs T _ tr \<longleftrightarrow> True"

text \<open>The turn is announced first and its end last; a refused commit leaves only the end.\<close>

definition turn_open :: "obs list \<Rightarrow> bool" where
  "turn_open tr \<longleftrightarrow> tr \<noteq> [] \<and> (\<forall>x \<in> set tr. \<not> is_turn_finished x)"

definition may_follow :: "face set \<Rightarrow> obs \<Rightarrow> obs list \<Rightarrow> bool" where
  "may_follow T x tr \<longleftrightarrow> needs T x tr \<and>
     (if tr = [] then x = OEmit EvTurnStarted
      else turn_open tr \<and> x \<noteq> OEmit EvTurnStarted \<and> (is_turn_finished x \<or> refusals tr = []))"

definition trace_ok :: "face set \<Rightarrow> obs list \<Rightarrow> bool" where
  "trace_ok T tr \<longleftrightarrow> (\<forall>i < length tr. may_follow T (tr ! i) (take i tr))"

fun ext_ok :: "face set \<Rightarrow> obs list \<Rightarrow> obs list \<Rightarrow> bool" where
  "ext_ok T tr [] \<longleftrightarrow> True"
| "ext_ok T tr (x # xs) \<longleftrightarrow> may_follow T x tr \<and> ext_ok T (tr @ [x]) xs"

lemma trace_ok_Nil [simp]: "trace_ok T []"
  by (simp add: trace_ok_def)

lemma trace_ok_start: "trace_ok T [x] \<longleftrightarrow> may_follow T x []"
  by (simp add: trace_ok_def)

lemma trace_ok_snoc: "trace_ok T (tr @ [x]) \<longleftrightarrow> trace_ok T tr \<and> may_follow T x tr"
proof -
  have "(\<forall>i < Suc (length tr). may_follow T ((tr @ [x]) ! i) (take i (tr @ [x]))) \<longleftrightarrow>
      (\<forall>i < length tr. may_follow T (tr ! i) (take i tr)) \<and> may_follow T x tr"
    by (auto simp: less_Suc_eq nth_append)
  then show ?thesis by (simp add: trace_ok_def)
qed

lemma trace_ok_append [simp]: "trace_ok T (tr @ xs) \<longleftrightarrow> trace_ok T tr \<and> ext_ok T tr xs"
proof (induction xs arbitrary: tr)
  case (Cons x xs)
  from Cons.IH [of "tr @ [x]"] show ?case by (simp add: trace_ok_snoc)
qed simp

section \<open>The states of a turn\<close>

definition faces :: "'w agent_parts \<Rightarrow> face set" where
  "faces p = {(td_name (tool_declaration t), tool_identity t) |t. t \<in> set (pt_tools p)}"

text \<open>A state in which the turn may go on, and one in which it may have been stopped.\<close>

definition sound :: "'w agent \<Rightarrow> bool" where
  "sound s \<longleftrightarrow> trace_ok (faces (ag_parts s)) (trace s) \<and> turn_open (trace s)"

definition going :: "'w agent \<Rightarrow> bool" where
  "going s \<longleftrightarrow> sound s \<and> refusals (trace s) = []"

definition later :: "'w agent \<Rightarrow> 'w agent \<Rightarrow> bool" where
  "later s t \<longleftrightarrow> (\<exists>ys. trace t = trace s @ ys) \<and> ag_parts t = ag_parts s"

text \<open>The usual shape of a result: a success leaves the turn going.\<close>

definition goes_on :: "'w agent \<Rightarrow> ('e + 'a) \<Rightarrow> 'w agent \<Rightarrow> bool" where
  "goes_on s r t \<longleftrightarrow> later s t \<and> sound t \<and> (\<forall>x. r = Inr x \<longrightarrow> going t)"

lemma later_refl [simp]: "later s s"
  by (simp add: later_def)

lemma later_trans: "later s t \<Longrightarrow> later t u \<Longrightarrow> later s u"
  by (auto simp: later_def)

lemma later_bodies: "later s t \<Longrightarrow> b \<in> bodies (trace s) \<Longrightarrow> b \<in> bodies (trace t)"
  by (auto simp: later_def)

lemma later_mem: "later s t \<Longrightarrow> x \<in> set (trace s) \<Longrightarrow> x \<in> set (trace t)"
  by (auto simp: later_def)

lemma later_response_call: "later s t \<Longrightarrow> response_call (trace s) call \<Longrightarrow> response_call (trace t) call"
  unfolding response_call_def by (blast dest: later_bodies)

lemma later_parts: "later s t \<Longrightarrow> ag_parts t = ag_parts s"
  by (simp add: later_def)

lemma going_sound: "going s \<Longrightarrow> sound s"
  by (simp add: going_def)

lemmas turn_simps = sound_def going_def later_def goes_on_def may_follow_def turn_open_def

lemma going_world [simp]: "going (s\<lparr>world := w\<rparr>) = going s"
  by (simp add: turn_simps)

lemma later_world [simp]: "later (s\<lparr>world := w\<rparr>) t = later s t" "later s (t\<lparr>world := w\<rparr>) = later s t"
  by (simp_all add: turn_simps)

section \<open>Tools\<close>

text \<open>A permitted call: what must be on the trace before its execution starts.\<close>

definition permitted :: "'w agent \<Rightarrow> tool_call \<Rightarrow> 'w tool \<Rightarrow> bool" where
  "permitted s call t \<longleftrightarrow>
     (tc_name call, tool_identity t) \<in> faces (ag_parts s) \<and>
     ODecided call (Some Permit) \<in> set (trace s) \<and>
     RbToolStarted (tc_call_id call) (tool_identity t) \<in> bodies (trace s)"

lemma permitted_later: "permitted s call t \<Longrightarrow> later s u \<Longrightarrow> permitted u call t"
  by (auto simp: permitted_def later_def)

lemma wp_admit:
  assumes "going s" and "response_call (trace s) call"
    and "\<And>t. tool = Some t \<Longrightarrow> (tc_name call, tool_identity t) \<in> faces (ag_parts s)"
    and "\<And>r t. goes_on s r t \<Longrightarrow> (\<And>x. r = Inr (Started x) \<Longrightarrow> permitted t call x) \<Longrightarrow> Q r t"
  shows "wp (admit cancel call tool) Q s"
proof (rule wp_mono)
  show "wp (admit cancel call tool)
    (\<lambda>r t. goes_on s r t \<and> (\<forall>x. r = Inr (Started x) \<longrightarrow> permitted t call x)) s"
    using assms(1-3)
    by (auto simp: admit_def turn_simps permitted_def ex_disj_distrib
        split: option.splits decision.splits intro!: wp_extI wp_raceI wp_commitI)
qed (use assms(4) in auto)

text \<open>The calls of a group: each in the committed response, each with an assembled tool or none.\<close>

definition callable :: "'w agent \<Rightarrow> tool_call \<times> 'w tool option \<Rightarrow> bool" where
  "callable s ct \<longleftrightarrow> response_call (trace s) (fst ct) \<and>
     (\<forall>t. snd ct = Some t \<longrightarrow> (tc_name (fst ct), tool_identity t) \<in> faces (ag_parts s))"

lemma callable_later: "callable s ct \<Longrightarrow> later s t \<Longrightarrow> callable t ct"
  by (auto simp: callable_def later_parts intro: later_response_call)

definition started_ok :: "'w agent \<Rightarrow> tool_call \<times> 'w tool option \<Rightarrow> 'w admitted \<Rightarrow> bool" where
  "started_ok s ct a \<longleftrightarrow> (\<forall>x. a = Started x \<longrightarrow> permitted s (fst ct) x)"

lemma started_ok_later: "started_ok s ct a \<Longrightarrow> later s t \<Longrightarrow> started_ok t ct a"
  by (auto simp: started_ok_def intro: permitted_later)

lemma wp_admit_all:
  assumes "going s" and "\<forall>ct \<in> set cts. callable s ct"
    and "\<And>r t. goes_on s r t \<Longrightarrow> (\<And>xs. r = Inr xs \<Longrightarrow> list_all2 (started_ok t) cts xs) \<Longrightarrow> Q r t"
  shows "wp (admit_all cancel cts) Q s"
  using assms
proof (induction cts arbitrary: s Q)
  case Nil
  show ?case
    by simp (rule Nil.prems(3), auto simp: goes_on_def Nil.prems(1) going_sound)
next
  case (Cons ct cts)
  obtain call tool where ct: "ct = (call, tool)" by (cases ct)
  show ?case
    unfolding ct admit_all.simps wp_bind
  proof (rule wp_admit, goal_cases)
    case (4 r t)
    note rt = 4(1) and x = 4(2)
    show ?case
    proof (cases r)
      case (Inl e)
      with rt show ?thesis by (auto simp: goes_on_def intro!: Cons.prems(3))
    next
      case (Inr y)
      with rt have t: "later s t" "going t" by (auto simp: goes_on_def)
      show ?thesis
        unfolding Inr sum.case wp_bind
      proof (rule Cons.IH, goal_cases)
        case 2
        show ?case using Cons.prems(2) t(1) by (auto intro: callable_later)
      next
        case (3 r' u)
        have su: "later s u" using t(1) 3(1) by (auto simp: goes_on_def intro: later_trans)
        have "started_ok u (call, tool) y"
          using x 3(1) Inr by (auto simp: started_ok_def goes_on_def intro: permitted_later)
        with 3 su show ?case
          by (auto simp: goes_on_def ct split: sum.splits intro!: Cons.prems(3))
      qed (use t in auto)
    qed
  qed (use Cons.prems(1,2) in \<open>auto simp: ct callable_def\<close>)
qed

text \<open>The futures of a group are its permitted calls.\<close>

definition future_ok :: "'w agent \<Rightarrow> 'w future \<Rightarrow> bool" where
  "future_ok s f \<longleftrightarrow> permitted s (fu_call f) (fu_tool f)"

lemma group_futures_ok:
  assumes "list_all2 (started_ok s) cts xs"
  shows "\<forall>f \<in> set (group_futures limit i k (zip xs (map fst cts))). future_ok s f"
  using assms
proof (induction arbitrary: i k rule: list_all2_induct)
  case (Cons ct cts x xs)
  then show ?case by (cases x) (auto simp: future_ok_def started_ok_def)
qed simp

definition running_ok :: "'w agent \<Rightarrow> 'w future \<Rightarrow> bool" where
  "running_ok s f \<longleftrightarrow> OExecStart (tool_identity (fu_tool f)) (fu_call f) \<in> set (trace s)"

lemma wp_start_future:
  assumes "going s" and "future_ok s f"
    and "\<And>r t. later s t \<Longrightarrow> going t \<Longrightarrow> (r = None \<Longrightarrow> running_ok t f) \<Longrightarrow> Q r t"
  shows "wp (start_future cancel f) Q s"
proof (rule wp_mono)
  show "wp (start_future cancel f)
    (\<lambda>r t. later s t \<and> going t \<and> (r = None \<longrightarrow> running_ok t f)) s"
    using assms(1,2)
    by (auto simp: start_future_def turn_simps future_ok_def permitted_def running_ok_def
        intro!: wp_extI)
qed (use assms(3) in auto)

lemma wp_finish_future:
  assumes "going s" and "running_ok s f" and "\<And>r t. later s t \<Longrightarrow> going t \<Longrightarrow> Q r t"
  shows "wp (finish_future f) Q s"
proof (rule wp_mono)
  show "wp (finish_future f) (\<lambda>r t. later s t \<and> going t) s"
    using assms(1,2)
    by (auto simp: finish_future_def turn_simps running_ok_def intro!: wp_extI)
qed (use assms(3) in auto)

lemma future_ok_later: "future_ok s f \<Longrightarrow> later s t \<Longrightarrow> future_ok t f"
  by (auto simp: future_ok_def intro: permitted_later)

lemma running_ok_later: "running_ok s f \<Longrightarrow> later s t \<Longrightarrow> running_ok t f"
  by (auto simp: running_ok_def intro: later_mem)

lemma wp_join:
  assumes "going s" and "\<forall>f \<in> set waiting. future_ok s f" and "\<forall>f \<in> set running. running_ok s f"
    and "\<And>r t. later s t \<Longrightarrow> going t \<Longrightarrow> Q r t"
  shows "wp (join cancel limit waiting running) Q s"
  using assms
proof (induction "2 * length waiting + length running" arbitrary: waiting running s Q rule: less_induct)
  case less
  let ?go = "\<lambda>choice. waiting \<noteq> [] \<and> (running = [] \<or> length running < limit \<and> choice = None)"
  have start: "wp (start_future cancel (hd waiting)) (\<lambda>r. wp (case r of
        Some ex \<Rightarrow> do { rest \<leftarrow> join cancel limit (tl waiting) running;
          ret ((fu_index (hd waiting), ex) # rest) }
      | None \<Rightarrow> join cancel limit (tl waiting) (running @ [hd waiting])) Q) s'"
    if "waiting \<noteq> []" and s': "later s s'" "going s'" for s'
  proof (rule wp_start_future, goal_cases)
    case (3 r t)
    have st: "later s t" using s'(1) 3(1) by (rule later_trans)
    have smaller: "2 * length (tl waiting) + length running < 2 * length waiting + length running"
      "2 * length (tl waiting) + length (running @ [hd waiting]) < 2 * length waiting + length running"
      using that by (cases waiting; simp)+
    have rest: "\<forall>f \<in> set (tl waiting). future_ok t f" "\<forall>f \<in> set running. running_ok t f"
      using less.prems(2,3) st that(1)
      by (auto dest: list.set_sel(2) intro: future_ok_later running_ok_later)
    show ?case
    proof (cases r)
      case None
      show ?thesis
        unfolding None option.case
        by (rule less.hyps [OF smaller(2)])
          (use 3 None rest st in \<open>auto intro!: less.prems(4) intro: later_trans\<close>)
    next
      case (Some ex)
      show ?thesis
        unfolding Some option.case wp_bind
        by (rule less.hyps [OF smaller(1)])
          (use 3 Some rest st in \<open>auto intro!: less.prems(4) intro: later_trans\<close>)
    qed
  qed (use that less.prems(2) in \<open>auto intro: future_ok_later\<close>)
  have finish: "wp (finish_future (running ! i)) (\<lambda>ex. wp (do {
        rest \<leftarrow> join cancel limit waiting (remove_at i running);
        ret ((fu_index (running ! i), ex) # rest) }) Q) s'"
    if i: "i < length running" and s': "later s s'" "going s'" for i s'
  proof (rule wp_finish_future, goal_cases)
    case (3 r t)
    have st: "later s t" using s'(1) 3(1) by (rule later_trans)
    have smaller: "2 * length waiting + length (remove_at i running) < 2 * length waiting + length running"
      using i by (simp add: length_remove_at)
    have rest: "\<forall>f \<in> set waiting. future_ok t f" "\<forall>f \<in> set (remove_at i running). running_ok t f"
      using less.prems(2,3) st set_remove_at_subset [of i running]
      by (auto intro: future_ok_later running_ok_later)
    show ?case
      unfolding wp_bind
      by (rule less.hyps [OF smaller])
        (use 3 rest st in \<open>auto intro!: less.prems(4) intro: later_trans\<close>)
  qed (use i s' less.prems(3) in \<open>auto intro: running_ok_later\<close>)
  show ?case
  proof (cases "waiting = [] \<and> running = []")
    case True
    then show ?thesis by (simp add: join.simps less.prems(1,4))
  next
    case False
    have index: "(case choice of None \<Rightarrow> 0 | Some k \<Rightarrow> k mod length running) < length running"
      if "\<not> ?go choice" for choice
      using that False by (cases choice) (auto simp: length_greater_0_conv [symmetric] simp del: length_greater_0_conv)
    show ?thesis
      apply (subst join.simps)
      apply (simp only: False if_False wp_bind wp_get)
      apply (rule wp_extI)
      subgoal for choice w
        apply (rule wp_ifI)
         apply (simp only: wp_bind)
         apply (rule start [unfolded wp_bind])
           apply simp
          apply (simp_all add: less.prems(1))[2]
        apply (simp only: wp_let wp_bind)
        apply (rule finish [unfolded wp_bind])
          apply (erule index)
         apply (simp_all add: less.prems(1))[2]
        done
      done
  qed
qed

section \<open>Results, groups and reconciliation\<close>

lemma goes_on_from: "goes_on t r u \<Longrightarrow> later s t \<Longrightarrow> goes_on s r u"
  by (auto simp: goes_on_def intro: later_trans)

lemma goes_onI: "going t \<Longrightarrow> later s t \<Longrightarrow> goes_on s r t"
  by (simp add: goes_on_def going_sound)

lemma goes_on_refl: "going s \<Longrightarrow> goes_on s r s"
  by (simp add: goes_onI)

text \<open>Two fallible operations in a row, the second run only when the first succeeded.\<close>

lemma wp_goes_on_bind:
  assumes "wp m (goes_on s) s"
    and "\<And>x t. later s t \<Longrightarrow> going t \<Longrightarrow> wp (f x) (goes_on t) t"
  shows "wp (do { r \<leftarrow> m; case r of Inl e \<Rightarrow> ret (Inl (h e)) | Inr x \<Rightarrow> f x }) (goes_on s) s"
  unfolding wp_bind
proof (rule wp_mono [OF assms(1)], rule wp_sumI, goal_cases)
  case (2 r t x)
  then have "later s t" "going t" by (auto simp: goes_on_def)
  with assms(2) show ?case by (blast intro: wp_mono goes_on_from)
qed (auto simp: goes_on_def)

lemma wp_goes_on_bind_from:
  assumes "wp m (goes_on s) s" and "later s0 s"
    and "\<And>x t. later s0 t \<Longrightarrow> going t \<Longrightarrow> wp (f x) (goes_on s0) t"
  shows "wp m (\<lambda>r. wp (case r of Inl e \<Rightarrow> ret (Inl (h e)) | Inr x \<Rightarrow> f x) (goes_on s0)) s"
proof (rule wp_mono [OF assms(1)], rule wp_sumI, goal_cases)
  case (1 r t e)
  then show ?case using assms(2) by (auto simp: goes_on_def intro: later_trans)
next
  case (2 r t x)
  then have "later s0 t" "going t" using assms(2) by (auto simp: goes_on_def intro: later_trans)
  then show ?case by (rule assms(3))
qed

lemma wp_finish_started: "going s \<Longrightarrow> wp (finish_started call ex) (goes_on s) s"
  by (auto simp: finish_started_def turn_simps intro!: wp_commitI)

lemma wp_finish_tool: "going s \<Longrightarrow> wp (finish_tool call status content) (goes_on s) s"
  by (auto simp: finish_tool_def turn_simps intro!: wp_commitI)

lemma wp_record_results: "going s \<Longrightarrow> wp (record_results rs b) (goes_on s) s"
proof (induction rs b arbitrary: s rule: record_results.induct)
  case (2 call admitted executed rest b)
  then show ?case
    by (auto split: admitted.splits option.splits
        intro!: wp_goes_on_bind [unfolded wp_bind] wp_finish_started wp_finish_tool)
qed (simp add: goes_on_refl)

lemma wp_run_group:
  assumes "going s" and "\<forall>ct \<in> set cts. callable s ct"
  shows "wp (run_group cancel cts) (goes_on s) s"
  unfolding run_group_def wp_bind
proof (rule wp_admit_all [OF assms], rule wp_sumI, goal_cases)
  case (2 r t xs)
  then have t: "going t" "later s t" by (auto simp: goes_on_def)
  from group_futures_ok [OF 2(2) [OF 2(3)]] t
  show ?case
    by (auto intro!: wp_join wp_record_results [THEN wp_mono] elim!: goes_on_from intro: later_trans)
qed (auto simp: goes_on_def)

lemma wp_run_groups:
  "going s \<Longrightarrow> \<forall>g \<in> set gs. \<forall>ct \<in> set g. callable s ct \<Longrightarrow> wp (run_groups cancel gs b) (goes_on s) s"
proof (induction gs arbitrary: s b)
  case (Cons g gs)
  then have "\<forall>g \<in> set gs. \<forall>ct \<in> set g. callable t ct" if "later s t" for t
    using that by (metis callable_later list.set_intros(2))
  with Cons show ?case
    unfolding run_groups.simps
    by (intro wp_goes_on_bind wp_run_group Cons.IH) auto
qed (simp add: goes_on_refl)

lemma wp_reconcile_calls: "going s \<Longrightarrow> wp (reconcile_calls calls) (goes_on s) s"
proof (induction calls arbitrary: s)
  case (Cons call calls)
  have next_call: "wp (reconcile_calls calls) (goes_on s) t" if "going t" "later s t" for t
    using Cons.IH [OF that(1)] that(2) by (blast intro: wp_mono goes_on_from)
  show ?case
    using Cons.prems
    by (auto intro!: wp_commitI next_call) (auto simp: turn_simps)
qed (simp add: goes_on_refl)

lemma wp_reconcile: "going s \<Longrightarrow> wp reconcile_unresolved_calls (goes_on s) s"
  unfolding reconcile_unresolved_calls_def wp_bind wp_gets
  by (rule wp_goes_on_bind [unfolded wp_bind], rule wp_reconcile_calls) (auto simp: turn_simps)

section \<open>The request loop\<close>

text \<open>A turn end that is no failed commit leaves the turn going; so does a request to go on.\<close>

definition end_ok :: "'w agent \<Rightarrow> turn_end \<Rightarrow> 'w agent \<Rightarrow> bool" where
  "end_ok s e t \<longleftrightarrow> later s t \<and> sound t \<and> (\<not> commit_failed e \<longrightarrow> going t)"

fun flow_stops :: "flow \<Rightarrow> bool" where
  "flow_stops (FlEnd _) = True"
| "flow_stops _ = False"

definition flow_ok :: "'w agent \<Rightarrow> flow \<Rightarrow> 'w agent \<Rightarrow> bool" where
  "flow_ok s fl t \<longleftrightarrow> later s t \<and> sound t \<and> (\<not> flow_stops fl \<longrightarrow> going t)"

lemma end_ok_from: "end_ok t e u \<Longrightarrow> later s t \<Longrightarrow> end_ok s e u"
  by (auto simp: end_ok_def intro: later_trans)

lemma flow_ok_from: "flow_ok t fl u \<Longrightarrow> later s t \<Longrightarrow> flow_ok s fl u"
  by (auto simp: flow_ok_def intro: later_trans)

lemma flow_ok_end: "end_ok s e t \<Longrightarrow> flow_ok s (FlEnd e) t"
  by (simp add: end_ok_def flow_ok_def)

lemma flow_ok_from_failure: "end_ok s e t \<Longrightarrow> flow_ok s (from_failure e) t"
  by (cases e) (auto simp: end_ok_def flow_ok_def from_failure_def)

lemma flow_ok_going: "going t \<Longrightarrow> later s t \<Longrightarrow> flow_ok s fl t"
  by (simp add: flow_ok_def going_sound)

lemma flow_ok_goes_on: "goes_on s (Inl e) t \<Longrightarrow> flow_ok s (FlEnd e') t"
  by (simp add: flow_ok_def goes_on_def)

lemma not_commit_failed_interrupted [simp]: "\<not> commit_failed (interrupted_end reason err)"
  by (simp add: interrupted_end_def split: interruption_reason.split option.split)

lemma wp_now_msI [wp_intros]: "(\<And>r w. Q r (s\<lparr>world := w\<rparr>)) \<Longrightarrow> wp now_ms Q s"
  by (simp add: now_ms_def wp_ext)

lemma wp_timing_finishI [wp_intros]:
  assumes "\<And>r w. Q r (s\<lparr>world := w\<rparr>)"
  shows "wp (timing_finish tm) Q s"
  unfolding timing_finish_def
  by (rule wp_optionI) (use assms [of _ "world s"] in \<open>auto intro!: wp_now_msI assms\<close>)

lemma wp_commit_request_timing: "going s \<Longrightarrow> wp (commit_request_timing (timing_body tm)) (goes_on s) s"
  by (auto simp: commit_request_timing_def timing_body_def turn_simps intro!: wp_commitI)

lemma wp_end_interrupted: "going s \<Longrightarrow> wp (end_interrupted reason partial err tm) (end_ok s) s"
  unfolding end_interrupted_def commit_request_timing_def timing_body_def
  by (auto simp: turn_simps end_ok_def split: option.splits intro!: wp_commitI wp_timing_finishI)

lemma wp_record_eventI [wp_intros]:
  assumes "\<And>r w. Q r (s\<lparr>world := w\<rparr>)"
  shows "wp (record_event event tm) Q s"
  using assms [of _ "world s"]
  by (cases event) (auto simp: record_event_def Let_def intro!: wp_now_msI assms)

lemma going_observe: "going s \<Longrightarrow> needs (faces (ag_parts s)) x (trace s) \<Longrightarrow> refusals [x] = [] \<Longrightarrow>
    x \<noteq> OEmit EvTurnStarted \<Longrightarrow> \<not> is_turn_finished x \<Longrightarrow> going (s\<lparr>trace := trace s @ [x]\<rparr>)"
  by (simp add: turn_simps)

lemma later_observe: "later s (s\<lparr>trace := trace s @ [x]\<rparr>)"
  by (simp add: later_def)

text \<open>What the stream is forwarded as announces no record.\<close>

lemma forward_event_free: "forward_event event = Some ev \<Longrightarrow>
    needs T (OEmit ev) tr \<and> ev \<noteq> EvTurnStarted \<and> \<not> is_turn_finished (OEmit ev)"
  by (cases event) auto

lemma forward_event_not_start [simp]: "forward_event event \<noteq> Some EvTurnStarted"
  by (cases event) auto

lemma wp_emit_forwarded:
  assumes "going s" and "\<And>t. later s t \<Longrightarrow> going t \<Longrightarrow> Q () t"
  shows "wp (emit_opt (forward_event event)) Q s"
  unfolding emit_opt_def
  by (rule wp_optionI)
    (use assms in \<open>auto intro!: assms(2) going_observe later_observe simp: forward_event_free\<close>)

lemma wp_consume_stream:
  assumes "going s" and "\<And>r t. later s t \<Longrightarrow> going t \<Longrightarrow> Q r t"
  shows "wp (consume_stream fuel cancel stream tm partial) Q s"
  using assms
proof (induction fuel arbitrary: s Q tm partial)
  case (Suc fuel)
  have forward: "wp (emit_opt (forward_event event))
      (\<lambda>_. wp (consume_stream fuel cancel stream tm' partial') Q) (s\<lparr>world := w\<rparr>)"
    for event tm' partial' w
    by (rule wp_emit_forwarded)
      (use Suc.prems in \<open>auto intro!: Suc.IH Suc.prems(2) intro: later_trans\<close>)
  show ?case
    unfolding consume_stream.simps wp_bind
    apply (rule wp_raceI)
     apply (simp add: Suc.prems)
    apply (rule wp_optionI, simp add: Suc.prems)
    apply (rule wp_optionI, simp add: Suc.prems)
    subgoal for r w step event
      using forward [of event]
      by (cases event; simp; intro wp_record_eventI) (simp_all add: Suc.prems)
    done
qed simp

lemma wp_install_replacement: "going s \<Longrightarrow> wp (install_replacement p n) (goes_on s) s"
  unfolding install_replacement_def
  by (auto simp: turn_simps split: sum.splits intro!: wp_commitI)

lemma install_replacement_ends:
  "wp (install_replacement p n)
    (\<lambda>r t. \<forall>e. r = Inl e \<longrightarrow> (\<exists>m. e = TeContextFailed m \<or> e = TeCommitFailed m)) s"
  unfolding install_replacement_def
  by (auto split: sum.splits intro!: wp_commitI)

lemma wp_commit_environment: "going s \<Longrightarrow> wp commit_environment_if_needed (goes_on s) s"
  unfolding commit_environment_if_needed_def environment_record_def
  by (auto simp: turn_simps intro!: wp_commitI)

lemma wp_compact_now:
  assumes "going s"
  shows "wp (compact_now cancel) (goes_on s) s"
  unfolding compact_now_def Let_def wp_bind wp_get
proof (rule wp_raceI, goal_cases)
  case 1
  show ?case by (simp add: goes_onI assms)
next
  case (2 r w)
  show ?case
    apply (rule wp_optionI, simp add: goes_onI assms)
    apply (rule wp_sumI, simp add: goes_onI assms)
    subgoal for res c
      apply (cases c; simp only: compaction.case)
       prefer 2 apply (simp add: goes_onI assms)
      apply (simp only: wp_bind)
      apply (rule wp_goes_on_bind_from, rule wp_commit_environment)
        apply (simp_all add: assms)
      apply (rule wp_goes_on_bind_from, rule wp_install_replacement)
        apply (simp_all add: turn_simps)
      done
    done
qed

section \<open>One request and the loop\<close>

definition step_ok :: "'w agent \<Rightarrow> (flow + 'a) \<Rightarrow> 'w agent \<Rightarrow> bool" where
  "step_ok s r t \<longleftrightarrow> later s t \<and> sound t \<and> (\<forall>fl. r = Inl fl \<longrightarrow> flow_ok s fl t) \<and> (\<forall>x. r = Inr x \<longrightarrow> going t)"

lemma step_ok_Inl [simp]: "step_ok s (Inl fl) = flow_ok s fl"
  by (auto simp: fun_eq_iff step_ok_def flow_ok_def)

lemma step_ok_Inr [simp]: "step_ok s (Inr x) t \<longleftrightarrow> later s t \<and> going t"
  by (auto simp: step_ok_def going_sound)

lemma wp_end_interrupted_from:
  assumes "going t" and "later s t" and "\<And>e u. end_ok s e u \<Longrightarrow> Q e u"
  shows "wp (end_interrupted reason partial err tm) Q t"
  by (rule wp_mono [OF wp_end_interrupted [OF assms(1)]]) (use assms in \<open>blast intro: end_ok_from\<close>)

lemma wp_prepare_context:
  assumes "going s"
  shows "wp (prepare_context cancel) (step_ok s) s"
  unfolding prepare_context_def Let_def wp_bind wp_get
proof (rule wp_raceI, goal_cases)
  case (1 w)
  show ?case
    by (simp, rule wp_end_interrupted_from [of _ s]) (simp_all add: assms flow_ok_end)
next
  case (2 r w)
  have install: "wp (install_replacement p n)
      (\<lambda>r. wp (case r of Inl e \<Rightarrow> ret (Inl (FlEnd e)) | Inr _ \<Rightarrow> ret (Inr ())) (step_ok s)) (s\<lparr>world := w\<rparr>)"
    for p n
    by (rule wp_install_replacement [THEN wp_mono])
      (auto simp: assms goes_on_def flow_ok_def split: sum.splits)
  have cancelled: "wp (end_interrupted IrCancelled [] None None)
      (\<lambda>e. step_ok s (Inl (FlEnd e))) (s\<lparr>world := w\<rparr>)"
    by (rule wp_end_interrupted_from [of _ s]) (simp_all add: assms flow_ok_end)
  show ?case
    using install cancelled
    by (auto simp: assms intro!: flow_ok_going split: option.splits sum.splits context_error.splits)
qed

lemma wp_send_request:
  assumes "going s"
  shows "wp (send_request fuel i cancel) (\<lambda>r t. later s t \<and> sound t \<and> (\<forall>x. r = Some x \<longrightarrow> step_ok s x t)) s"
proof -
  let ?Q = "\<lambda>r t. later s t \<and> sound t \<and> (\<forall>x. r = Some x \<longrightarrow> step_ok s x t)"
  have ended: "wp (end_interrupted reason partial err tm) (\<lambda>e. ?Q (Some (Inl (FlEnd e)))) t"
    "wp (end_interrupted reason partial err tm) (\<lambda>e. ?Q (Some (Inl (from_failure e)))) t"
    if "going t" "later s t" for t reason partial err tm
    by (rule wp_end_interrupted_from [OF that];
        auto simp: flow_ok_end flow_ok_from_failure; auto simp: end_ok_def)+
  have outcome: "wp (case oc of
        None \<Rightarrow> ret None
      | Some (SoCompleted response, tm') \<Rightarrow> ret (Some (Inr (response, tm')))
      | Some (SoCancelled partial, tm') \<Rightarrow> do {
          e \<leftarrow> end_interrupted IrCancelled partial None (Some tm');
          ret (Some (Inl (FlEnd e))) }
      | Some (SoFailed partial err, tm') \<Rightarrow> do {
          e \<leftarrow> end_interrupted IrProviderFailed partial (Some err) (Some tm');
          ret (Some (Inl (from_failure e))) }) ?Q t"
    if t: "going t" "later s t" for oc t
    using t ended [OF t] by (auto simp: going_sound split: option.splits stream_outcome.splits)
  have request: "going t" "later s t" if "going t0" "later s t0" "t = t0\<lparr>trace := trace t0 @ [x]\<rparr>"
      "x = OEmit (EvRequestStarted i) \<or> x = ORequest q" for t t0 x q
    using that by (auto simp: turn_simps)
  have stopped: "wp (timing_finish tm) (\<lambda>tm'. wp (end_interrupted reason partial err (Some tm'))
        (\<lambda>e. ?Q (Some (Inl (FlEnd e))))) t"
    "wp (timing_finish tm) (\<lambda>tm'. wp (end_interrupted reason partial err (Some tm'))
        (\<lambda>e. ?Q (Some (Inl (from_failure e))))) t"
    if "going t" "later s t" for t reason partial err tm
    subgoal by (rule wp_timing_finishI, rule ended(1), simp_all add: that)
    subgoal by (rule wp_timing_finishI, rule ended(2), simp_all add: that)
    done
  show ?thesis
    unfolding send_request_def Let_def wp_bind wp_emit wp_get
    apply (rule wp_extI, rule wp_ifI)
     apply (simp only: wp_bind wp_return, rule ended)
      apply (simp_all add: turn_simps assms [unfolded turn_simps])[2]
    apply (simp only: wp_bind wp_get)
    apply (rule wp_now_msI)
    apply (simp only: wp_observe)
    apply (rule wp_raceI)
     apply (simp only: option.case wp_bind wp_return)
     apply (rule stopped)
      apply (simp_all add: turn_simps assms [unfolded turn_simps])[2]
    apply (rule wp_optionI)
     apply (simp only: wp_bind wp_return)
     apply (rule stopped)
      apply (simp_all add: turn_simps assms [unfolded turn_simps])[2]
    apply (rule wp_sumI)
     apply (simp only: wp_bind wp_return)
     apply (rule stopped)
      apply (simp_all add: turn_simps assms [unfolded turn_simps])[2]
    apply (simp only: wp_bind)
    apply (rule wp_consume_stream)
     apply (simp add: turn_simps assms [unfolded turn_simps])
    apply (rule outcome [unfolded wp_bind])
     apply simp
    apply (erule later_trans [rotated])
    apply (simp add: turn_simps)
    done
qed

lemma wp_commit_response:
  assumes "going s"
  shows "wp (commit_response response tm) (\<lambda>r t. goes_on s r t \<and>
    (\<forall>x. r = Inr x \<longrightarrow> (\<forall>call \<in> set (tool_calls (cr_item response)). response_call (trace t) call))) s"
  using assms unfolding commit_response_def commit_request_timing_def timing_body_def
  by (auto simp: turn_simps response_call_def intro!: wp_commitI) blast+

lemma set_slice: "set (slice g xs) \<subseteq> set xs"
  by (auto simp: slice_def dest: in_set_takeD in_set_dropD)

lemma assembled_tool_face:
  "assembled_tool (pt_tools p) call = Some t \<Longrightarrow> (tc_name call, tool_identity t) \<in> faces p"
  unfolding assembled_tool_def faces_def by (drule find_SomeD) force

lemma wp_after_response:
  assumes "going s" and "\<forall>call \<in> set (tool_calls (cr_item response)). response_call (trace s) call"
  shows "wp (after_response cancel response) (flow_ok s) s"
proof -
  let ?calls = "tool_calls (cr_item response)"
  have callable: "\<forall>g \<in> set (map (\<lambda>g. slice g (zip ?calls (map (assembled_tool (pt_tools (ag_parts s))) ?calls))) gs).
      \<forall>ct \<in> set g. callable s ct" for gs
    using assms(2) set_slice by (fastforce simp: callable_def in_set_zip assembled_tool_face)
  show ?thesis
    unfolding after_response_def Let_def
    apply (rule wp_ifI)
     apply (rule wp_ifI)
      apply (simp add: flow_ok_going assms(1))
     apply (simp only: wp_bind)
     apply (rule wp_has_pending_inboxI)
     apply (simp add: flow_ok_going assms(1) [unfolded turn_simps] turn_simps)
    apply (simp only: wp_bind wp_get)
    apply (rule wp_mono [OF wp_run_groups [OF assms(1) callable]])
    apply (rule wp_sumI)
     apply (simp add: flow_ok_goes_on)
    apply (simp only: wp_bind)
    apply (rule wp_extI)
    apply (auto simp: goes_on_def intro!: flow_ok_going)
    done
qed

lemma going_inbox [simp]: "going (s\<lparr>ag_inbox := ib\<rparr>) = going s"
  by (simp add: turn_simps)

lemma later_inbox [simp]: "later (s\<lparr>ag_inbox := ib\<rparr>) t = later s t" "later s (t\<lparr>ag_inbox := ib\<rparr>) = later s t"
  by (simp_all add: turn_simps)

lemma wp_deliver_messages_going: "going s \<Longrightarrow> wp (deliver_messages ms) (goes_on s) s"
proof (induction ms arbitrary: s)
  case (Cons m ms)
  obtain receipt kind msg where m: "m = (receipt, kind, msg)" by (cases m)
  have rest: "wp (deliver_messages ms) (goes_on s) t" if "going t" "later s t" for t
    using Cons.IH [OF that(1)] that(2) by (blast intro: wp_mono goes_on_from)
  show ?case
    using Cons.prems unfolding m
    by (auto intro!: wp_commitI rest wp_requeue_inboxI) (auto simp: turn_simps)
qed (simp add: goes_on_refl)

lemma wp_deliver_messages_batch:
  fixes s :: "'w agent"
  shows "wp (deliver_messages ms) (\<lambda>r t. \<forall>u. r = Inr u \<longrightarrow>
    (\<exists>cs. trace t = trace s @ cs \<and> length cs = length ms \<and> list_all inbox_commit cs)) s"
proof (induction ms arbitrary: s)
  case (Cons m ms)
  obtain receipt kind msg where m: "m = (receipt, kind, msg)" by (cases m)
  have rest: "wp (deliver_messages ms) (\<lambda>r t. \<forall>u. r = Inr u \<longrightarrow>
      (\<exists>cs. trace t = trace s @ cs \<and> length cs = length (m # ms) \<and> list_all inbox_commit cs)) t"
    if "trace t = trace s @ [c]" "inbox_commit c" for t :: "'w agent" and c
    by (rule wp_mono [OF Cons.IH [of t]]) (use that in \<open>fastforce intro: exI [of _ "c # _"]\<close>)
  show ?case
    using rest unfolding m
    by (auto intro!: wp_commitI wp_requeue_inboxI)
qed simp

lemma wp_deliver_inbox:
  assumes "going s"
  shows "wp deliver_inbox (goes_on s) s"
  unfolding deliver_inbox_def wp_bind
  apply (rule wp_drain_inboxI)
  apply (rule wp_ifI)
   apply (simp add: assms goes_onI)
  apply (simp only: wp_bind)
  apply (rule wp_mono [OF wp_conj [OF wp_deliver_messages_going wp_deliver_messages_batch]])
   apply (simp add: assms)
  apply (auto simp: turn_simps goes_on_def batch_committed_def split: sum.splits)
  done

lemma wp_one_request:
  assumes "going s"
  shows "wp (one_request fuel i cancel)
    (\<lambda>r t. later s t \<and> sound t \<and> (\<forall>fl. r = Some fl \<longrightarrow> flow_ok s fl t)) s"
  unfolding one_request_def wp_bind
proof (rule wp_mono [OF wp_deliver_inbox [OF assms]], rule wp_sumI, goal_cases)
  case (1 r t e)
  then show ?case by (auto simp: goes_on_def flow_ok_def)
next
  case (2 r t x)
  then have t: "going t" "later s t" by (auto simp: goes_on_def)
  show ?case
    unfolding wp_bind
  proof (rule wp_mono [OF wp_prepare_context [OF t(1)]], rule wp_sumI, goal_cases)
    case (1 r u fl)
    with t show ?case by (auto simp: flow_ok_def intro: later_trans)
  next
    case (2 r u x)
    with t have u: "going u" "later s u" by (auto intro: later_trans)
    show ?case
      unfolding wp_bind
      apply (rule wp_mono [OF wp_send_request [OF u(1)]])
      apply (rule wp_optionI)
      subgoal using u by (auto intro: later_trans)
      apply (rule wp_sumI)
      subgoal using u by (auto simp: flow_ok_def intro: later_trans)
      apply (simp only: split_paired_all prod.case wp_bind)
      apply (rule wp_mono [OF wp_commit_response])
      subgoal by (auto simp: step_ok_def)
      apply (rule wp_sumI)
      subgoal using u by (auto simp: goes_on_def flow_ok_def intro: later_trans)
      apply (simp only: wp_bind)
      apply (rule wp_mono [OF wp_after_response])
      subgoal by (auto simp: goes_on_def)
      subgoal by auto
      subgoal using u by (auto simp: goes_on_def flow_ok_def intro: later_trans)
      done
  qed
qed

text \<open>A whole turn ends, or stands at the end of its fuel, with a sound trace.\<close>

definition sound_later :: "'w agent \<Rightarrow> 'a \<Rightarrow> 'w agent \<Rightarrow> bool" where
  "sound_later s r t \<longleftrightarrow> later s t \<and> sound t"

lemma sound_later_from: "sound_later t r u \<Longrightarrow> later s t \<Longrightarrow> sound_later s r u"
  by (auto simp: sound_later_def intro: later_trans)

lemma wp_compact_after_overflow:
  "going s \<Longrightarrow> wp (compact_after_overflow cancel) (\<lambda>b t. later s t \<and> sound t \<and> (b \<longrightarrow> going t)) s"
  unfolding compact_after_overflow_def wp_bind
  by (rule wp_mono [OF wp_compact_now]) (auto simp: goes_on_def split: sum.splits)

lemma wp_request_loop:
  "going s \<Longrightarrow> wp (request_loop n fuel i retries cancel) (sound_later s) s"
proof (induction n arbitrary: s i retries)
  case (Suc n)
  have again: "wp (request_loop n fuel j k cancel) (sound_later s) t" if "going t" "later s t" for t j k
    using Suc.IH [OF that(1)] that(2) by (blast intro: wp_mono sound_later_from)
  show ?case
    unfolding request_loop.simps wp_bind
  proof (rule wp_mono [OF wp_one_request [OF Suc.prems]], rule wp_optionI, goal_cases)
    case (2 r t fl)
    note t = 2
    show ?case
    proof (cases fl)
      case FlContinue
      with t show ?thesis by (auto simp: flow_ok_def intro: again)
    next
      case (FlEnd e)
      with t show ?thesis by (auto simp: sound_later_def)
    next
      case (FlOverflow e)
      with t have going: "going t" "later s t" by (auto simp: flow_ok_def)
      show ?thesis
        unfolding FlOverflow flow.case wp_bind wp_gets
        apply (rule wp_ifI)
        subgoal using t by (auto simp: sound_later_def)
        apply (simp only: wp_bind)
        apply (rule wp_mono [OF wp_compact_after_overflow [OF going(1)]])
        apply (rule wp_ifI)
        subgoal using going by (auto simp: sound_later_def intro: later_trans)
        subgoal using going by (auto intro: again later_trans)
        done
    qed
  qed (auto simp: sound_later_def)
qed (simp add: sound_later_def going_sound)

lemma wp_commit_input: "going s \<Longrightarrow> wp (commit_input input) (goes_on s) s"
  unfolding commit_input_def
  by (auto simp: turn_simps split: option.splits intro!: wp_commitI)

lemma wp_run_inner:
  assumes "trace s = []"
  shows "wp (run_inner fuel input cancel) (sound_later s) s"
  unfolding run_inner_def wp_bind wp_emit
proof -
  let ?s = "s\<lparr>trace := trace s @ [OEmit EvTurnStarted]\<rparr>"
  have start: "going ?s" "later s ?s" using assms by (auto simp: turn_simps trace_ok_start)
  show "wp commit_environment_if_needed (\<lambda>env. wp (case env of
         Inl err \<Rightarrow> ret (Some (TeCommitFailed err))
       | Inr _ \<Rightarrow> do {
           rec \<leftarrow> reconcile_unresolved_calls;
           case rec of
             Inl e \<Rightarrow> ret (Some e)
           | Inr _ \<Rightarrow> do {
               inp \<leftarrow> commit_input input;
               case inp of
                 Inl e \<Rightarrow> ret (Some e)
               | Inr _ \<Rightarrow> request_loop fuel fuel 0 0 cancel
             }
         }) (sound_later s)) ?s"
  proof (rule wp_mono [OF wp_commit_environment [OF start(1)]], rule wp_sumI, goal_cases)
    case (1 r t e)
    then show ?case using start(2) by (auto simp: goes_on_def sound_later_def intro: later_trans)
  next
    case (2 r t x)
    then have t: "going t" "later s t" using start(2) by (auto simp: goes_on_def intro: later_trans)
    show ?case
      unfolding wp_bind
    proof (rule wp_mono [OF wp_reconcile [OF t(1)]], rule wp_sumI, goal_cases)
      case (1 r u e)
      then show ?case using t(2) by (auto simp: goes_on_def sound_later_def intro: later_trans)
    next
      case (2 r u x)
      then have u: "going u" "later s u" using t(2) by (auto simp: goes_on_def intro: later_trans)
      show ?case
        unfolding wp_bind
        apply (rule wp_mono [OF wp_commit_input [OF u(1)]], rule wp_sumI)
        subgoal using u by (auto simp: goes_on_def sound_later_def intro: later_trans)
        subgoal for r v
          by (rule wp_mono [OF wp_request_loop])
            (use u in \<open>auto simp: goes_on_def intro: later_trans elim!: sound_later_from\<close>)
        done
    qed
  qed
qed

lemma wp_turn_of:
  assumes "trace s = []"
  shows "wp (turn_of fuel input cancel)
    (\<lambda>r t. trace_ok (faces (ag_parts s)) (trace t) \<and> ag_parts t = ag_parts s \<and>
      (\<forall>e. r = Some e \<longrightarrow>
        (\<exists>pre. trace t = pre @ [OEmit (EvTurnFinished e)] \<and> turn_open pre))) s"
  unfolding turn_of_def finish_turn_def wp_bind
  by (rule wp_mono [OF wp_run_inner [OF assms]], rule wp_optionI)
    (auto simp: sound_later_def sound_def later_def may_follow_def turn_open_def)

end
