(* ===== verification/Resume.thy ===== *)
theory Resume
  imports CoreLoop
begin

text \<open>
  Journal projection and resume (\<open>crates/p1-core/src/resume.rs\<close>): the model-visible state a list of
  journal records projects back to, the report of what changed, and the agent built from it.
\<close>

section \<open>Data\<close>

record unresolved_call =
  uc_call :: tool_call
  uc_started :: "tool_identity option"

record projection =
  pj_history :: "item list"
  pj_next_seq :: nat
  pj_environment_committed :: bool
  pj_unresolved_calls :: "unresolved_call list"
  pj_last_usage :: "usage option"

datatype resume_error =
    RsMissingEnvironment
  | RsSequence nat nat
  | RsUnknownCall ustring
  | RsBuild build_error

record resume_report =
  rr_unresolved_calls :: "unresolved_call list"
  rr_changed_tools :: "ustring list"
  rr_missing_tools :: "ustring list"
  rr_environment_changed :: bool

section \<open>Projection\<close>

text \<open>The loop variables of \<open>project\<close>.\<close>

record fold_state =
  fs_history :: "item list"
  fs_last_assistant_record :: "nat option"
  fs_last_assistant_calls :: "tool_call list"
  fs_last_usage :: "usage option"

definition fold_start :: fold_state where
  "fold_start = \<lparr>fs_history = [], fs_last_assistant_record = None,
     fs_last_assistant_calls = [], fs_last_usage = None\<rparr>"

fun project_body :: "nat \<Rightarrow> record_body \<Rightarrow> fold_state \<Rightarrow> resume_error + fold_state" where
  "project_body index (RbUserInput t) fs = Inr (fs\<lparr>fs_history := fs_history fs @ [ItUser t]\<rparr>)"
| "project_body index (RbUserContent bs) fs = Inr (fs\<lparr>fs_history := fs_history fs @ [ItUserContent bs]\<rparr>)"
| "project_body index (RbInbox k t) fs = Inr (fs\<lparr>fs_history := fs_history fs @ [ItInbox k t]\<rparr>)"
| "project_body index (RbAssistantCompleted a stop u) fs =
     Inr (fs\<lparr>fs_last_assistant_calls := tool_calls a, fs_last_assistant_record := Some index,
             fs_last_usage := u, fs_history := fs_history fs @ [ItAssistant a]\<rparr>)"
| "project_body index (RbToolFinished r code) fs =
     (if tr_call_id r \<notin> set (map tc_call_id (fs_last_assistant_calls fs))
      then Inl (RsUnknownCall (tr_call_id r))
      else Inr (fs\<lparr>fs_history := fs_history fs @ [ItToolResult r]\<rparr>))"
| "project_body index (RbContextReplaced items u) fs =
     Inr (fs\<lparr>fs_history := items, fs_last_usage := None\<rparr>)"
| "project_body index (RbAssistantInterrupted _ _ _) fs = Inr fs"
| "project_body index (RbToolStarted _ _) fs = Inr fs"
| "project_body index (RbRequestTiming _ _ _ _ _ _) fs = Inr fs"
| "project_body index (RbEnvironment _ _ _ _) fs = Inr fs"

fun project_from :: "nat \<Rightarrow> journal_record list \<Rightarrow> fold_state \<Rightarrow> resume_error + fold_state" where
  "project_from index [] fs = Inr fs"
| "project_from index (record # rest) fs =
     (if jr_seq record \<noteq> index then Inl (RsSequence index (jr_seq record))
      else case project_body index (jr_body record) fs of
        Inl e \<Rightarrow> Inl e
      | Inr fs' \<Rightarrow> project_from (Suc index) rest fs')"

fun is_environment :: "record_body \<Rightarrow> bool" where
  "is_environment (RbEnvironment _ _ _ _) = True"
| "is_environment _ = False"

fun started_identity :: "ustring \<Rightarrow> journal_record \<Rightarrow> tool_identity option" where
  "started_identity call_id r =
     (case jr_body r of
        RbToolStarted i identity \<Rightarrow> if i = call_id then Some identity else None
      | _ \<Rightarrow> None)"

definition unresolved_calls ::
    "item list \<Rightarrow> journal_record list \<Rightarrow> nat option \<Rightarrow> unresolved_call list" where
  "unresolved_calls history records last_assistant_record =
     (case last_assistant history of
        None \<Rightarrow> []
      | Some (a, later) \<Rightarrow>
          (let start = (case last_assistant_record of None \<Rightarrow> length records | Some i \<Rightarrow> i + 1)
           in map (\<lambda>c. \<lparr>uc_call = c,
                uc_started = find_map (started_identity (tc_call_id c)) (drop start records)\<rparr>)
              (filter (\<lambda>c. tc_call_id c \<notin> set (result_ids later)) (tool_calls a))))"

definition project :: "journal_record list \<Rightarrow> resume_error + projection" where
  "project records =
     (if records \<noteq> [] \<and> \<not> is_environment (jr_body (hd records)) then Inl RsMissingEnvironment
      else case project_from 0 records fold_start of
        Inl e \<Rightarrow> Inl e
      | Inr fs \<Rightarrow> Inr \<lparr>
          pj_history = fs_history fs,
          pj_next_seq = (if records = [] then 0 else jr_seq (last records) + 1),
          pj_environment_committed = (records \<noteq> []),
          pj_unresolved_calls = unresolved_calls (fs_history fs) records (fs_last_assistant_record fs),
          pj_last_usage = fs_last_usage fs\<rparr>)"

section \<open>Resuming\<close>

text \<open>The last journalled environment, if any.\<close>

definition last_environment ::
    "journal_record list \<Rightarrow>
     (route_description \<times> ustring \<times> (tool_declaration \<times> tool_identity) list \<times> model_options) option" where
  "last_environment records =
     find_map (\<lambda>r. case jr_body r of
        RbEnvironment route prompt tools options \<Rightarrow> Some (route, prompt, tools, options)
      | _ \<Rightarrow> None) (rev records)"

definition find_new_tool ::
    "(tool_declaration \<times> tool_identity) list \<Rightarrow> ustring \<Rightarrow> tool_identity option" where
  "find_new_tool new_tools name =
     map_option snd (List.find (\<lambda>(d, _). td_name d = name) new_tools)"

definition changed_tools ::
    "(tool_declaration \<times> tool_identity) list \<Rightarrow> (tool_declaration \<times> tool_identity) list \<Rightarrow> ustring list" where
  "changed_tools new_tools tools =
     List.map_filter (\<lambda>(d, i). case find_new_tool new_tools (td_name d) of
        Some i' \<Rightarrow> if i' \<noteq> i then Some (td_name d) else None
      | None \<Rightarrow> None) tools"

definition missing_tools ::
    "(tool_declaration \<times> tool_identity) list \<Rightarrow> (tool_declaration \<times> tool_identity) list \<Rightarrow> ustring list" where
  "missing_tools new_tools tools =
     List.map_filter (\<lambda>(d, i). if find_new_tool new_tools (td_name d) = None
        then Some (td_name d) else None) tools"

definition compare_environment ::
    "'w agent_parts \<Rightarrow> journal_record list \<Rightarrow> unresolved_call list \<Rightarrow> resume_report" where
  "compare_environment parts records unresolved =
     (let new_route = prov_describe (pt_provider parts);
          new_tools = map (\<lambda>t. (tool_declaration t, tool_identity t)) (pt_tools parts)
      in case last_environment records of
        Some (route, prompt, tools, options) \<Rightarrow>
          \<lparr>rr_unresolved_calls = unresolved,
           rr_changed_tools = changed_tools new_tools tools,
           rr_missing_tools = missing_tools new_tools tools,
           rr_environment_changed = (route \<noteq> new_route \<or> prompt \<noteq> pt_system_prompt parts \<or>
             tools \<noteq> new_tools \<or> options \<noteq> pt_options parts)\<rparr>
      | None \<Rightarrow>
          \<lparr>rr_unresolved_calls = unresolved, rr_changed_tools = [], rr_missing_tools = [],
           rr_environment_changed = False\<rparr>)"

definition agent_resume ::
    "'w agent_parts \<Rightarrow> journal_record list \<Rightarrow> ('w \<Rightarrow> nat \<times> 'w) \<Rightarrow> ('w \<Rightarrow> inbox_op list \<times> 'w) \<Rightarrow>
     (nat \<Rightarrow> 'w \<Rightarrow> nat option \<times> 'w) \<Rightarrow> 'w \<Rightarrow> resume_error + 'w agent \<times> resume_report" where
  "agent_resume parts records clock peers schedule w =
     (case project records of
        Inl e \<Rightarrow> Inl e
      | Inr p \<Rightarrow>
          (let started = set (map (tc_call_id \<circ> uc_call)
                 (filter (\<lambda>u. uc_started u \<noteq> None) (pj_unresolved_calls p)));
               report = compare_environment parts records (pj_unresolved_calls p);
               committed = pj_environment_committed p \<and> \<not> rr_environment_changed report
           in case assemble parts (pj_history p) (pj_next_seq p) committed started
                (pj_last_usage p) clock peers schedule w of
                Inl e \<Rightarrow> Inl (RsBuild e)
              | Inr agent \<Rightarrow> Inr (agent, report)))"

section \<open>Lemmas\<close>

lemma project_from_append:
  "project_from i (xs @ ys) fs =
    (case project_from i xs fs of Inl e \<Rightarrow> Inl e | Inr fs' \<Rightarrow> project_from (i + length xs) ys fs')"
  by (induction i xs fs rule: project_from.induct) (auto split: sum.splits)

lemma project_from_snoc:
  assumes "project_from 0 records fs = Inr fs'" and "jr_seq r = length records"
  shows "project_from 0 (records @ [r]) fs = project_body (length records) (jr_body r) fs'"
  using assms by (simp add: project_from_append split: sum.splits)

text \<open>The unresolved calls of a projection are the live agent's own.\<close>

lemma map_uc_call_unresolved:
  "map uc_call (unresolved_calls history records i) = unresolved_calls_of_last_assistant history"
  by (auto simp: unresolved_calls_def unresolved_calls_of_last_assistant_def Let_def comp_def
      split: option.splits)

end
