(* ===== verification/CoreExample.thy ===== *)
theory CoreExample
  imports Resume
begin

text \<open>
  One small agent for the witnesses: a provider whose first response calls two tools and whose
  second is final, a tool that answers at once, an authorization policy that permits, a context
  policy that changes nothing, and a store that accepts every record (or refuses one chosen
  sequence number). The world counts the requests and holds the events the open stream has left.
\<close>

type_synonym ex_world = "nat \<times> stream_event list"

definition ex_origin :: origin where
  "ex_origin = \<lparr>org_route = lit ''r'', org_model = lit ''m''\<rparr>"

definition ex_call :: "nat \<Rightarrow> tool_call" where
  "ex_call i = \<lparr>tc_call_id = dec i, tc_name = lit ''read'', tc_input = TiJson (lit ''{}'')\<rparr>"

definition ex_response :: "nat \<Rightarrow> completed_response" where
  "ex_response n = \<lparr>cr_item = \<lparr>ai_origin = ex_origin,
       ai_blocks = (if n = 0 then [AbToolCall (ex_call 1), AbToolCall (ex_call 2)] else [AbText (lit ''ok'')])\<rparr>,
     cr_stop = (if n = 0 then SrToolUse else SrEndTurn), cr_usage = None\<rparr>"

definition ex_stream :: "ex_world stream" where
  "ex_stream w = (case snd w of
     [] \<Rightarrow> (Some None, w)
   | e # es \<Rightarrow> (Some (Some e), (fst w, es)))"

definition ex_provider :: "ex_world provider" where
  "ex_provider = \<lparr>
     prov_describe = \<lparr>rt_origin = ex_origin, rt_supports_freeform_tools = False,
       rt_mandatory_prompt_prefix = None, rt_reports_cost = False, rt_cache_key = CkUnsupported,
       rt_input_modalities = [ImText]\<rparr>,
     prov_validate = (\<lambda>_. None),
     prov_stream = (\<lambda>_ w. (Some (Inr ex_stream),
       (fst w + 1, [SeTextDelta 0 (lit ''o''), SeFinished (OcCompleted (ex_response (fst w)))])))\<rparr>"

definition ex_identity :: tool_identity where
  "ex_identity = \<lparr>tid_implementation = lit ''p1'', tid_variant = lit ''v1''\<rparr>"

definition ex_tool :: "ex_world tool" where
  "ex_tool = \<lparr>
     tool_declaration = \<lparr>td_name = lit ''read'', td_description = [], td_kind = DkFunction (JObject [])\<rparr>,
     tool_identity = ex_identity,
     tool_effect = (\<lambda>_. ReadOnly), tool_concurrency = (\<lambda>_. Shared),
     tool_execute = (\<lambda>call w. (\<lparr>to_status = StOk, to_content = tc_call_id call\<rparr>, w)),
     tool_ends_turn = (\<lambda>_ _. False), tool_command_exit_code = (\<lambda>_ _. None)\<rparr>"

text \<open>The store refuses the record with sequence number \<open>n\<close> when the world's option is \<open>Some n\<close>.\<close>

definition ex_sink :: "nat option \<Rightarrow> ex_world commit_sink" where
  "ex_sink refused = \<lparr>
     sink_commit = (\<lambda>r w. (if refused = Some (jr_seq r) then Some (lit ''full'') else None, w)),
     sink_accepts_timing = True\<rparr>"

definition ex_options :: model_options where
  "ex_options = \<lparr>mo_reasoning_effort = None, mo_max_output_tokens = None, mo_cache_key = None, mo_native = []\<rparr>"

definition ex_parts :: "nat option \<Rightarrow> ex_world agent_parts" where
  "ex_parts refused = \<lparr>pt_provider = ex_provider, pt_tools = [ex_tool], pt_system_prompt = [],
     pt_options = ex_options,
     pt_context = \<lparr>ctx_prepare = (\<lambda>_ w. (Some (Inr None), w)), ctx_compact_now = (\<lambda>_ w. (Some (Inr (CpUnchanged 0)), w))\<rparr>,
     pt_authorization = \<lparr>auth_authorize = (\<lambda>_ w. (Some Permit, w))\<rparr>,
     pt_journal = ex_sink refused\<rparr>"

definition ex_agent :: "nat option \<Rightarrow> ex_world agent" where
  "ex_agent refused = \<lparr>ag_parts = ex_parts refused, ag_history = [], ag_next_seq = 0,
     ag_environment_committed = False, ag_started_calls = {}, ag_last_usage = None,
     ag_max_parallel_tools = 2, ag_max_overflow_retries = 1,
     ag_inbox = \<lparr>ib_queue = [], ib_next_id = 0\<rparr>,
     ag_clock = (\<lambda>w. (fst w, w)), ag_peers = (\<lambda>w. ([], w)), ag_schedule = (\<lambda>_ w. (None, w)),
     world = (0, []), trace = []\<rparr>"

definition never :: "ex_world token" where
  "never w = (False, w)"

lemma ex_agent_trace [simp]: "trace (ex_agent refused) = []"
  by (simp add: ex_agent_def)

text \<open>
  Evaluating a run: an operation is unfolded only where it is applied to a state, so the branches
  that are not taken are never looked at.
\<close>

lemmas run_defs =
  commit_def [THEN arg_cong [where f = run_state]]
  push_item_def [THEN arg_cong [where f = run_state]]
  emit_def [THEN arg_cong [where f = run_state]]
  observe_def [THEN arg_cong [where f = run_state]]
  race_def [THEN arg_cong [where f = run_state]]
  lock_queue_def [THEN arg_cong [where f = run_state]]
  has_pending_inbox_def [THEN arg_cong [where f = run_state]]
  drain_inbox_def [THEN arg_cong [where f = run_state]]
  requeue_inbox_def [THEN arg_cong [where f = run_state]]
  deliver_messages.simps [THEN arg_cong [where f = run_state]]
  deliver_inbox_def [THEN arg_cong [where f = run_state]]
  admit_def [THEN arg_cong [where f = run_state]]
  admit_all.simps [THEN arg_cong [where f = run_state]]
  start_future_def [THEN arg_cong [where f = run_state]]
  finish_future_def [THEN arg_cong [where f = run_state]]
  join.simps [THEN arg_cong [where f = run_state]]
  finish_started_def [THEN arg_cong [where f = run_state]]
  finish_tool_def [THEN arg_cong [where f = run_state]]
  record_results.simps [THEN arg_cong [where f = run_state]]
  run_group_def [THEN arg_cong [where f = run_state]]
  run_groups.simps [THEN arg_cong [where f = run_state]]
  reconcile_calls.simps [THEN arg_cong [where f = run_state]]
  reconcile_unresolved_calls_def [THEN arg_cong [where f = run_state]]
  commit_environment_if_needed_def [THEN arg_cong [where f = run_state]]
  now_ms_def [THEN arg_cong [where f = run_state]]
  record_event_def [THEN arg_cong [where f = run_state]]
  timing_finish_def [THEN arg_cong [where f = run_state]]
  commit_request_timing_def [THEN arg_cong [where f = run_state]]
  end_interrupted_def [THEN arg_cong [where f = run_state]]
  emit_opt_def [THEN arg_cong [where f = run_state]]
  consume_stream.simps [THEN arg_cong [where f = run_state]]
  install_replacement_def [THEN arg_cong [where f = run_state]]
  compact_now_def [THEN arg_cong [where f = run_state]]
  prepare_context_def [THEN arg_cong [where f = run_state]]
  send_request_def [THEN arg_cong [where f = run_state]]
  commit_response_def [THEN arg_cong [where f = run_state]]
  after_response_def [THEN arg_cong [where f = run_state]]
  one_request_def [THEN arg_cong [where f = run_state]]
  compact_after_overflow_def [THEN arg_cong [where f = run_state]]
  request_loop.simps [THEN arg_cong [where f = run_state]]
  commit_input_def [THEN arg_cong [where f = run_state]]
  run_inner_def [THEN arg_cong [where f = run_state]]
  finish_turn_def [THEN arg_cong [where f = run_state]]
  turn_of_def [THEN arg_cong [where f = run_state]]
  run_turn_def [THEN arg_cong [where f = run_state]]

lemma replicate_two: "replicate 2 x = [x, x]"
  by (simp add: numeral_2_eq_2)

lemmas run_fuel =
  request_loop.simps(2) [of "pred_numeral k" for k, folded numeral_eq_Suc, THEN arg_cong [where f = run_state]]
  consume_stream.simps(2) [of "pred_numeral k" for k, folded numeral_eq_Suc, THEN arg_cong [where f = run_state]]

lemmas ex_defs = ex_agent_def ex_parts_def ex_sink_def never_def ex_provider_def ex_stream_def
  ex_response_def ex_tool_def ex_call_def

lemmas run_simps = run_defs run_fuel numeral_2_eq_2 [symmetric] run_state_ext Let_def ex_defs unresolved_Nil
  environment_record_def sat_add64_def u64_max_def unresolved_Cons_other build_request_def
  timing_new_def timing_body_def stamp_event_def tool_calls_def map_filter_def assembled_tool_def groups_def
  groups_from.simps group_end_def run_end.simps shared_call_def slice_def place_results_def
  finished_outcome_def wrapping_add32_def dec.simps remove_at_def from_failure_def replicate_two insert_Diff_if





abbreviation ex_fuel :: nat where
  "ex_fuel \<equiv> 3"

section \<open>The run of the example\<close>

definition ex_record :: "nat \<Rightarrow> record_body \<Rightarrow> obs" where
  "ex_record n body = OCommit \<lparr>jr_seq = n, jr_body = body\<rparr>"

definition ex_result :: "nat \<Rightarrow> tool_result_item" where
  "ex_result i = \<lparr>tr_call_id = dec i, tr_name = lit ''read'', tr_status = StOk, tr_content = dec i\<rparr>"

definition ex_history :: "item list" where
  "ex_history = [ItUser (lit ''hi''), ItAssistant (cr_item (ex_response 0)),
     ItToolResult (ex_result 1), ItToolResult (ex_result 2)]"

definition ex_opening :: "obs list" where
  "ex_opening = [
     OEmit EvTurnStarted,
     ex_record 0 (environment_record ex_provider [ex_tool] [] ex_options),
     ex_record 1 (RbUserInput (lit ''hi'')),
     OEmit (EvRequestStarted 0),
     ORequest \<lparr>pr_system_prompt = [], pr_history = [ItUser (lit ''hi'')],
       pr_tools = [tool_declaration ex_tool], pr_options = ex_options\<rparr>,
     OEmit (EvTextDelta (lit ''o''))]"

definition ex_trace :: "obs list" where
  "ex_trace = ex_opening @ [
     ex_record 2 (RbAssistantCompleted (cr_item (ex_response 0)) SrToolUse None),
     ex_record 3 (RbRequestTiming 0 0 (Some 1) (Some 1) 1 []),
     OEmit (EvResponseCompleted (org_model ex_origin) SrToolUse None),
     OAuthorize (ex_call 1) ReadOnly,
     ODecided (ex_call 1) (Some Permit),
     ex_record 4 (RbToolStarted (dec 1) ex_identity),
     OEmit (EvToolStarted (ex_call 1)),
     OAuthorize (ex_call 2) ReadOnly,
     ODecided (ex_call 2) (Some Permit),
     ex_record 5 (RbToolStarted (dec 2) ex_identity),
     OEmit (EvToolStarted (ex_call 2)),
     OExecStart ex_identity (ex_call 1),
     OExecStart ex_identity (ex_call 2),
     OExecEnd (ex_call 1) \<lparr>to_status = StOk, to_content = dec 1\<rparr>,
     OExecEnd (ex_call 2) \<lparr>to_status = StOk, to_content = dec 2\<rparr>,
     ex_record 6 (RbToolFinished (ex_result 1) (Some None)),
     OEmit (EvToolFinished (ex_result 1)),
     ex_record 7 (RbToolFinished (ex_result 2) (Some None)),
     OEmit (EvToolFinished (ex_result 2)),
     OEmit (EvRequestStarted 1),
     ORequest \<lparr>pr_system_prompt = [], pr_history = ex_history,
       pr_tools = [tool_declaration ex_tool], pr_options = ex_options\<rparr>,
     OEmit (EvTextDelta (lit ''o'')),
     ex_record 8 (RbAssistantCompleted (cr_item (ex_response 1)) SrEndTurn None),
     ex_record 9 (RbRequestTiming 1 1 (Some 2) (Some 2) 2 []),
     OEmit (EvResponseCompleted (org_model ex_origin) SrEndTurn None),
     OEmit (EvTurnFinished (TeCompleted SrEndTurn))]"

definition ex_final :: "ex_world agent" where
  "ex_final = (ex_agent None)\<lparr>
     ag_history := ex_history @ [ItAssistant (cr_item (ex_response 1))],
     ag_next_seq := 10, ag_environment_committed := True, world := (2, []), trace := ex_trace\<rparr>"

lemma ex_run: "run_state (run_turn ex_fuel (lit ''hi'') never) (ex_agent None)
    = (Some (TeCompleted SrEndTurn), ex_final)"
  by (simp add: run_simps ex_final_def ex_trace_def ex_opening_def ex_record_def ex_history_def ex_result_def)

text \<open>The same turn when the store refuses the response's record.\<close>

definition ex_refused :: "ex_world agent" where
  "ex_refused = (ex_agent (Some 2))\<lparr>
     ag_history := [ItUser (lit ''hi'')],
     ag_next_seq := 2, ag_environment_committed := True, world := (1, []),
     trace := ex_opening @ [
       ORefused \<lparr>jr_seq = 2, jr_body = RbAssistantCompleted (cr_item (ex_response 0)) SrToolUse None\<rparr> (lit ''full''),
       OEmit (EvTurnFinished (TeCommitFailed (lit ''full'')))]\<rparr>"

lemma ex_run_refused: "run_state (run_turn ex_fuel (lit ''hi'') never) (ex_agent (Some 2))
    = (Some (TeCommitFailed (lit ''full'')), ex_refused)"
  by (simp add: run_simps ex_refused_def ex_opening_def ex_record_def)

end
