(* ===== verification/CoreSafety.thy ===== *)
theory CoreSafety
  imports CoreTrace CoreExample
begin

text \<open>
  What the trace discipline of \<open>CoreTrace\<close> means for one turn, whatever the provider, the tools, the
  policies, the store and the scheduler do: the statements are about the trace of any turn from an
  agent whose trace was cleared, at any fuel, so they hold at every point of a turn in progress too.
\<close>

section \<open>Reading the discipline\<close>

lemma trace_ok_at:
  assumes "trace_ok T tr" and "i < length tr"
  shows "may_follow T (tr ! i) (take i tr)"
  using assms by (simp add: trace_ok_def)

lemma trace_ok_needs:
  assumes "trace_ok T tr" and "i < length tr"
  shows "needs T (tr ! i) (take i tr)"
  using trace_ok_at [OF assms] by (simp add: may_follow_def)

lemma turn_trace:
  assumes "run_state (turn_of fuel input cancel) s = (r, t)" and "trace s = []"
  shows "trace_ok (faces (ag_parts s)) (trace t)"
  using wp_run [OF wp_turn_of [OF assms(2)] assms(1)] by simp

lemma bodies_mem: "b \<in> bodies tr \<longleftrightarrow> (\<exists>n. OCommit \<lparr>jr_seq = n, jr_body = b\<rparr> \<in> set tr)"
proof
  assume "b \<in> bodies tr"
  then obtain r where "r \<in> set (committed tr)" "jr_body r = b" by auto
  then have "OCommit r \<in> set tr" by (auto simp: committed_def map_filter_def split: obs.splits)
  with \<open>jr_body r = b\<close> show "\<exists>n. OCommit \<lparr>jr_seq = n, jr_body = b\<rparr> \<in> set tr"
    by (cases r) auto
next
  assume "\<exists>n. OCommit \<lparr>jr_seq = n, jr_body = b\<rparr> \<in> set tr"
  then show "b \<in> bodies tr" by (force simp: committed_def map_filter_def)
qed

lemma in_set_take_conv: "i < length xs \<Longrightarrow> x \<in> set (take i xs) \<longleftrightarrow> (\<exists>j < i. xs ! j = x)"
  by (auto simp: in_set_conv_nth)

section \<open>Properties\<close>

text \<open>C1: a tool is executed only if it is an assembled tool of the call's name, the authorization
  policy permitted exactly this call, and the \<open>ToolStarted\<close> record with its identity was committed
  before.\<close>

theorem execution_is_permitted:
  assumes "run_state (turn_of fuel input cancel) s = (r, t)" and "trace s = []"
    and "i < length (trace t)" and "trace t ! i = OExecStart identity call"
  shows "(\<exists>tool \<in> set (pt_tools (ag_parts s)).
            td_name (tool_declaration tool) = tc_name call \<and> tool_identity tool = identity) \<and>
    (\<exists>j < i. trace t ! j = ODecided call (Some Permit)) \<and>
    (\<exists>j < i. \<exists>n. trace t ! j = OCommit \<lparr>jr_seq = n, jr_body = RbToolStarted (tc_call_id call) identity\<rparr>)"
proof -
  have "needs (faces (ag_parts s)) (OExecStart identity call) (take i (trace t))"
    using trace_ok_needs [OF turn_trace [OF assms(1,2)] assms(3)] assms(4) by simp
  then have face: "(tc_name call, identity) \<in> faces (ag_parts s)"
    and decided: "ODecided call (Some Permit) \<in> set (take i (trace t))"
    and durable: "\<exists>n. OCommit \<lparr>jr_seq = n, jr_body = RbToolStarted (tc_call_id call) identity\<rparr>
      \<in> set (take i (trace t))"
    by (simp_all add: bodies_mem [symmetric])
  from face have "\<exists>tool \<in> set (pt_tools (ag_parts s)).
      td_name (tool_declaration tool) = tc_name call \<and> tool_identity tool = identity"
    by (auto simp: faces_def)
  with decided durable assms(3) show ?thesis by (auto simp: in_set_take_conv)
qed

lemma execution_is_permitted_witness:
  "\<exists>j < 17. trace ex_final ! j = ODecided (ex_call 1) (Some Permit)"
  using execution_is_permitted [OF ex_run [unfolded run_turn_def], of 17 ex_identity "ex_call 1"]
  by (simp add: ex_final_def ex_trace_def ex_opening_def)

text \<open>C2: the front end never sees a record's event before the record is durable: a tool's start and
  result, a completed response and a context replacement are announced only after the store
  accepted the record they announce, and a delivery of inbox messages only right after the records of
  the whole batch (ruling R6).\<close>

theorem events_follow_their_records:
  assumes "run_state (turn_of fuel input cancel) s = (r, t)" and "trace s = []"
    and "i < length (trace t)" and "trace t ! i = OEmit ev"
  shows "case ev of
      EvToolStarted call \<Rightarrow>
        (\<exists>identity. RbToolStarted (tc_call_id call) identity \<in> bodies (take i (trace t)))
    | EvToolFinished result \<Rightarrow> (\<exists>code. RbToolFinished result code \<in> bodies (take i (trace t)))
    | EvResponseCompleted model stop u \<Rightarrow>
        (\<exists>a. RbAssistantCompleted a stop u \<in> bodies (take i (trace t)) \<and> org_model (ai_origin a) = model)
    | EvContextReplaced before after u \<Rightarrow>
        (\<exists>items. RbContextReplaced items u \<in> bodies (take i (trace t)) \<and> after = length items)
    | EvInboxDelivered n \<Rightarrow> batch_committed n (take i (trace t))
    | _ \<Rightarrow> True"
  using trace_ok_needs [OF turn_trace [OF assms(1,2)] assms(3)]
  by (cases ev) (simp_all add: assms(4))

lemma events_follow_their_records_witness:
  "\<exists>code. RbToolFinished (ex_result 1) code \<in> bodies (take 22 (trace ex_final))"
  using events_follow_their_records [OF ex_run [unfolded run_turn_def], of 22 "EvToolFinished (ex_result 1)"]
  by (simp add: ex_final_def ex_trace_def ex_opening_def)

text \<open>C3: after the store refused a record, nothing happens in the turn any more but the announcement
  of its end: no tool runs, no request is sent, no further record is written.\<close>

theorem nothing_after_a_refused_commit:
  assumes "run_state (turn_of fuel input cancel) s = (r, t)" and "trace s = []"
    and "j < i" and "i < length (trace t)" and "trace t ! j = ORefused refused err"
  shows "\<exists>e. trace t ! i = OEmit (EvTurnFinished e)"
proof -
  have "ORefused refused err \<in> set (take i (trace t))"
    using assms(3-5) by (auto simp: in_set_take_conv)
  then have "refused \<in> set (refusals (take i (trace t)))"
    by (force simp: refusals_def map_filter_def)
  then have "refusals (take i (trace t)) \<noteq> []" by auto
  moreover from assms(3,4) have "take i (trace t) \<noteq> []" by auto
  ultimately have "is_turn_finished (trace t ! i)"
    using trace_ok_at [OF turn_trace [OF assms(1,2)] assms(4)]
    by (simp add: may_follow_def)
  then show ?thesis by (auto elim: is_turn_finished.elims)
qed

lemma nothing_after_a_refused_commit_witness:
  "\<exists>e. trace ex_refused ! 7 = OEmit (EvTurnFinished e)"
  using nothing_after_a_refused_commit [OF ex_run_refused [unfolded run_turn_def], of 6 7]
  by (simp add: ex_refused_def ex_opening_def)

text \<open>C4: a finished turn announces its start first and its end last, each exactly once, and the end
  it announces is the one it returns.\<close>

theorem turn_is_bracketed:
  assumes "run_state (turn_of fuel input cancel) s = (Some e, t)" and "trace s = []"
  shows "\<exists>mid. trace t = OEmit EvTurnStarted # mid @ [OEmit (EvTurnFinished e)] \<and>
    OEmit EvTurnStarted \<notin> set mid \<and> (\<forall>x \<in> set mid. \<not> is_turn_finished x)"
proof -
  obtain pre where pre: "trace t = pre @ [OEmit (EvTurnFinished e)]" "turn_open pre"
    using wp_run [OF wp_turn_of [OF assms(2)] assms(1)] by auto
  have ok: "may_follow (faces (ag_parts s)) (pre ! i) (take i pre)" if "i < length pre" for i
    using trace_ok_at [OF turn_trace [OF assms], of i] that by (simp add: pre(1) nth_append)
  obtain x mid where mid: "pre = x # mid"
    using pre(2) by (cases pre) (auto simp: turn_open_def)
  have "x = OEmit EvTurnStarted"
    using ok [of 0] by (simp add: mid may_follow_def)
  moreover have "mid ! i \<noteq> OEmit EvTurnStarted" if "i < length mid" for i
    using ok [of "Suc i"] that by (simp add: mid may_follow_def)
  then have "OEmit EvTurnStarted \<notin> set mid" by (auto simp: in_set_conv_nth)
  moreover have "\<forall>x \<in> set mid. \<not> is_turn_finished x"
    using pre(2) by (simp add: mid turn_open_def)
  ultimately show ?thesis using pre(1) mid by auto
qed

lemma turn_is_bracketed_witness:
  "\<exists>mid. trace ex_final = OEmit EvTurnStarted # mid @ [OEmit (EvTurnFinished (TeCompleted SrEndTurn))] \<and>
    OEmit EvTurnStarted \<notin> set mid \<and> (\<forall>x \<in> set mid. \<not> is_turn_finished x)"
  by (rule turn_is_bracketed [OF ex_run [unfolded run_turn_def]]) simp

text \<open>Authorization is asked only for a call of a response whose record is already durable.\<close>

theorem authorization_follows_the_response:
  assumes "run_state (turn_of fuel input cancel) s = (r, t)" and "trace s = []"
    and "i < length (trace t)" and "trace t ! i = OAuthorize call ef"
  shows "\<exists>a stop u. RbAssistantCompleted a stop u \<in> bodies (take i (trace t)) \<and> call \<in> set (tool_calls a)"
  using trace_ok_needs [OF turn_trace [OF assms(1,2)] assms(3)]
  by (simp add: assms(4) response_call_def)

lemma authorization_follows_the_response_witness:
  "\<exists>a stop u. RbAssistantCompleted a stop u \<in> bodies (take 9 (trace ex_final)) \<and>
    ex_call 1 \<in> set (tool_calls a)"
  by (rule authorization_follows_the_response [OF ex_run [unfolded run_turn_def], of 9 "ex_call 1" ReadOnly])
    (simp_all add: ex_final_def ex_trace_def ex_opening_def)

end
