(* ===== verification/CoreHistory.thy ===== *)
theory CoreHistory
  imports CoreGroups CoreTrace Resume
begin

text \<open>
  The journal is the source of truth: at every point of a turn the live history, sequence number and
  open calls of the agent are what \<open>project\<close> reads back from the records committed so far, every
  request the provider gets is a complete transcript (each call answered, each result owned), and
  after a failed commit at most the calls of the last response are open. The theory carries two
  predicates through every operation: \<open>ready\<close>, what holds when the next request may be sent, and
  \<open>kept\<close>, what holds wherever a turn ends.
\<close>

section \<open>The link between journal and agent\<close>

definition open_ids :: "item list \<Rightarrow> ustring set" where
  "open_ids h = set (map tc_call_id (unresolved_calls_of_last_assistant h))"

text \<open>The call ids with a \<open>ToolStarted\<close> since the last completed response.\<close>

fun started_step :: "record_body \<Rightarrow> ustring set \<Rightarrow> ustring set" where
  "started_step (RbAssistantCompleted _ _ _) S = {}"
| "started_step (RbToolStarted i _) S = insert i S"
| "started_step _ S = S"

definition started_since :: "journal_record list \<Rightarrow> ustring set" where
  "started_since rs = fold (\<lambda>r. started_step (jr_body r)) rs {}"

abbreviation journal :: "journal_record list \<Rightarrow> 'w agent \<Rightarrow> journal_record list" where
  "journal rs0 s \<equiv> rs0 @ committed (trace s)"

text \<open>\<open>L\<close>: the call ids a result may still be recorded for.\<close>

definition projects :: "journal_record list \<Rightarrow> ustring set \<Rightarrow> item list \<Rightarrow> bool" where
  "projects rs L h \<longleftrightarrow> (\<exists>fs. project_from 0 rs fold_start = Inr fs \<and> fs_history fs = h \<and>
     L \<subseteq> set (map tc_call_id (fs_last_assistant_calls fs)))"

definition tied :: "journal_record list \<Rightarrow> ustring set \<Rightarrow> 'w agent \<Rightarrow> bool" where
  "tied rs0 L s \<longleftrightarrow>
     (journal rs0 s \<noteq> [] \<longrightarrow> is_environment (jr_body (hd (journal rs0 s)))) \<and>
     (ag_environment_committed s \<longrightarrow> journal rs0 s \<noteq> []) \<and>
     (length (journal rs0 s) \<le> u64_max \<longrightarrow>
        ag_next_seq s = length (journal rs0 s) \<and> projects (journal rs0 s) L (ag_history s)) \<and>
     (\<forall>x \<in> open_ids (ag_history s). x \<in> ag_started_calls s \<longleftrightarrow> x \<in> started_since (journal rs0 s))"

lemma started_since_snoc: "started_since (rs @ [r]) = started_step (jr_body r) (started_since rs)"
  by (simp add: started_since_def)

lemma projects_mono: "projects rs L h \<Longrightarrow> L' \<subseteq> L \<Longrightarrow> projects rs L' h"
  unfolding projects_def by blast

lemma tied_mono: "tied rs0 L s \<Longrightarrow> L' \<subseteq> L \<Longrightarrow> tied rs0 L' s"
  unfolding tied_def by (blast intro: projects_mono)

lemma tied_quiet: "quiet s t \<Longrightarrow> tied rs0 L t = tied rs0 L s"
  by (simp add: tied_def quiet_fields)

lemma projects_snoc:
  assumes "projects rs L h" and "jr_seq r = length rs"
    and "\<And>i fs. fs_history fs = h \<Longrightarrow> L \<subseteq> set (map tc_call_id (fs_last_assistant_calls fs)) \<Longrightarrow>
      \<exists>fs'. project_body i (jr_body r) fs = Inr fs' \<and> fs_history fs' = h' \<and>
        L' \<subseteq> set (map tc_call_id (fs_last_assistant_calls fs'))"
  shows "projects (rs @ [r]) L' h'"
  using assms unfolding projects_def by (metis project_from_snoc)

text \<open>One committed record, with the history and the started set the operation leaves.\<close>

definition appends :: "record_body \<Rightarrow> item list \<Rightarrow> ustring set \<Rightarrow> item list \<Rightarrow> ustring set \<Rightarrow> bool" where
  "appends b h L h' L' \<longleftrightarrow>
     (\<forall>i fs. fs_history fs = h \<longrightarrow> L \<subseteq> set (map tc_call_id (fs_last_assistant_calls fs)) \<longrightarrow>
        (\<exists>fs'. project_body i b fs = Inr fs' \<and> fs_history fs' = h' \<and>
           L' \<subseteq> set (map tc_call_id (fs_last_assistant_calls fs'))))"

lemma appends_simps [simp]:
  "appends (RbUserInput t) h L (h @ [ItUser t]) L"
  "appends (RbUserContent bs) h L (h @ [ItUserContent bs]) L"
  "appends (RbInbox k t) h L (h @ [ItInbox k t]) L"
  "appends (RbAssistantCompleted a stop u) h L (h @ [ItAssistant a]) (set (call_ids a))"
  "appends (RbContextReplaced items u) h L items L"
  "appends (RbAssistantInterrupted reason p e) h L h L"
  "appends (RbToolStarted i identity) h L h L"
  "appends (RbRequestTiming n sent f out ended ws) h L h L"
  "appends (RbEnvironment route p tools options) h L h L"
  by (auto simp: appends_def call_ids_def)

lemma appends_result [simp]:
  "tr_call_id r \<in> L \<Longrightarrow> appends (RbToolFinished r code) h L (h @ [ItToolResult r]) L"
  by (auto simp: appends_def)

lemma tied_commit:
  assumes "tied rs0 L s"
    and "committed (trace t) = committed (trace s) @ [\<lparr>jr_seq = ag_next_seq s, jr_body = b\<rparr>]"
    and "ag_next_seq t = sat_add64 (ag_next_seq s) 1"
    and "ag_environment_committed s \<or> is_environment b"
    and "appends b (ag_history s) L (ag_history t) L'"
    and "\<And>x. x \<in> open_ids (ag_history t) \<Longrightarrow>
      (x \<in> open_ids (ag_history s) \<Longrightarrow> x \<in> ag_started_calls s \<longleftrightarrow> x \<in> started_since (journal rs0 s)) \<Longrightarrow>
      x \<in> ag_started_calls t \<longleftrightarrow> x \<in> started_step b (started_since (journal rs0 s))"
  shows "tied rs0 L' t"
proof -
  let ?r = "\<lparr>jr_seq = ag_next_seq s, jr_body = b\<rparr>"
  have journal: "journal rs0 t = journal rs0 s @ [?r]" using assms(2) by simp
  have "ag_next_seq t = length (journal rs0 t) \<and> projects (journal rs0 t) L' (ag_history t)"
    if fits: "length (journal rs0 t) \<le> u64_max"
  proof -
    from fits assms(1) have seq: "ag_next_seq s = length (journal rs0 s)"
      and pr: "projects (journal rs0 s) L (ag_history s)"
      unfolding journal tied_def by auto
    have "projects (journal rs0 s @ [?r]) L' (ag_history t)"
      by (rule projects_snoc [OF pr]) (use seq assms(5) in \<open>auto simp: appends_def\<close>)
    with fits seq show ?thesis
      unfolding journal assms(3) by (simp add: sat_add64_exact)
  qed
  then show ?thesis
    using assms(1,4,6) unfolding tied_def journal started_since_snoc
    by (cases "journal rs0 s") auto
qed

section \<open>Open calls\<close>

lemma answered_open_ids: "answered h \<Longrightarrow> open_ids h = {}"
  by (simp add: open_ids_def answered_iff_settled)

lemma settled_open_answered: "settled_before_last h \<Longrightarrow> open_ids h = {} \<Longrightarrow> answered h"
  by (simp add: open_ids_def answered_iff_settled)

lemma unresolved_snoc:
  "unresolved_calls_of_last_assistant (h @ [it]) =
    (case it of
       ItAssistant a \<Rightarrow> tool_calls a
     | ItToolResult r \<Rightarrow> filter (\<lambda>c. tc_call_id c \<noteq> tr_call_id r) (unresolved_calls_of_last_assistant h)
     | _ \<Rightarrow> unresolved_calls_of_last_assistant h)"
  by (cases it) (auto simp: unresolved_calls_of_last_assistant_def last_assistant_append
      split: option.splits intro: filter_cong)

lemma open_ids_snoc [simp]:
  "open_ids (h @ [ItAssistant a]) = set (call_ids a)"
  "open_ids (h @ [ItToolResult r]) = open_ids h - {tr_call_id r}"
  "open_ids (h @ [ItUser t]) = open_ids h"
  "open_ids (h @ [ItUserContent bs]) = open_ids h"
  "open_ids (h @ [ItInbox k t]) = open_ids h"
  by (auto simp: open_ids_def unresolved_snoc call_ids_def)

lemma open_ids_called: "open_ids h \<subseteq> calls_before h"
proof (cases "last_assistant h")
  case (Some x)
  obtain a later where x: "x = (a, later)" by (cases x)
  with Some obtain pre where "h = pre @ ItAssistant a # later" by (auto dest: last_assistant_SomeD)
  then show ?thesis
    using Some x by (auto simp: open_ids_def unresolved_calls_of_last_assistant_def call_ids_def)
qed (simp add: open_ids_def unresolved_calls_of_last_assistant_def)

lemma owned_snoc_other: "owned h \<Longrightarrow> \<not> is_tool_result it \<Longrightarrow> owned (h @ [it])"
  by (cases it) (simp_all add: owned_from_append)

lemma owned_snoc_result: "owned h \<Longrightarrow> tr_call_id r \<in> calls_before h \<Longrightarrow> owned (h @ [ItToolResult r])"
  by (simp add: owned_from_append)

section \<open>The two predicates\<close>

definition requests_ok :: "obs list \<Rightarrow> bool" where
  "requests_ok tr \<longleftrightarrow> (\<forall>q. ORequest q \<in> set tr \<longrightarrow> owned (pr_history q) \<and> answered (pr_history q))"

definition kept :: "'w agent_parts \<Rightarrow> journal_record list \<Rightarrow> 'w agent \<Rightarrow> bool" where
  "kept P rs0 s \<longleftrightarrow> ag_parts s = P \<and> tied rs0 (open_ids (ag_history s)) s \<and>
     owned (ag_history s) \<and> settled_before_last (ag_history s) \<and> requests_ok (trace s)"

definition ready :: "'w agent_parts \<Rightarrow> journal_record list \<Rightarrow> 'w agent \<Rightarrow> bool" where
  "ready P rs0 s \<longleftrightarrow> ag_parts s = P \<and> tied rs0 {} s \<and> owned (ag_history s) \<and> answered (ag_history s) \<and>
     ag_started_calls s = {} \<and> ag_environment_committed s \<and> requests_ok (trace s)"

lemma ready_kept: "ready P rs0 s \<Longrightarrow> kept P rs0 s"
  by (simp add: ready_def kept_def answered_open_ids settled_answered)

lemma requests_ok_quiet: "quiet s t \<Longrightarrow> requests_ok (trace t) = requests_ok (trace s)"
  unfolding quiet_def requests_ok_def by fastforce

lemma ready_quiet: "quiet s t \<Longrightarrow> ready P rs0 s \<Longrightarrow> ready P rs0 t"
  by (simp add: ready_def tied_quiet quiet_fields requests_ok_quiet)

lemma kept_quiet: "quiet s t \<Longrightarrow> kept P rs0 s \<Longrightarrow> kept P rs0 t"
  by (simp add: kept_def tied_quiet quiet_fields requests_ok_quiet)

lemma requests_ok_snoc [simp]:
  "requests_ok [] "
  "requests_ok (tr @ [x]) \<longleftrightarrow> requests_ok tr \<and>
     (\<forall>q. x = ORequest q \<longrightarrow> owned (pr_history q) \<and> answered (pr_history q))"
  by (auto simp: requests_ok_def)

section \<open>Committing one record\<close>

text \<open>What a successful commit of \<open>b\<close> and the assignments after it change.\<close>

definition posted :: "record_body \<Rightarrow> 'w agent \<Rightarrow> 'w agent \<Rightarrow> bool" where
  "posted b s t \<longleftrightarrow> (\<exists>w. t = s\<lparr>world := w,
     trace := trace s @ [OCommit \<lparr>jr_seq = ag_next_seq s, jr_body = b\<rparr>],
     ag_next_seq := sat_add64 (ag_next_seq s) 1\<rparr>)"

lemma wp_commit_posted:
  assumes "\<And>err t. quiet s t \<Longrightarrow> Q (Inl err) t" and "\<And>t. posted b s t \<Longrightarrow> Q (Inr ()) t"
  shows "wp (commit b) Q s"
  by (rule wp_commitI) (auto intro!: assms quiet_world_trace simp: posted_def)

lemma posted_fields:
  assumes "posted b s t"
  shows "ag_parts t = ag_parts s" "ag_history t = ag_history s"
    "ag_next_seq t = sat_add64 (ag_next_seq s) 1"
    "ag_environment_committed t = ag_environment_committed s"
    "ag_started_calls t = ag_started_calls s" "ag_last_usage t = ag_last_usage s"
    "ag_max_parallel_tools t = ag_max_parallel_tools s"
    "ag_max_overflow_retries t = ag_max_overflow_retries s"
    "committed (trace t) = committed (trace s) @ [\<lparr>jr_seq = ag_next_seq s, jr_body = b\<rparr>]"
    "requests_ok (trace t) = requests_ok (trace s)"
  using assms by (auto simp: posted_def)

text \<open>A record that neither opens nor starts a call.\<close>

lemma tied_neutral:
  assumes "tied rs0 L s"
    and "committed (trace t) = committed (trace s) @ [\<lparr>jr_seq = ag_next_seq s, jr_body = b\<rparr>]"
    and "ag_next_seq t = sat_add64 (ag_next_seq s) 1"
    and "ag_environment_committed s \<or> is_environment b"
    and "appends b (ag_history s) L (ag_history t) L"
    and "ag_started_calls t = ag_started_calls s" and "\<And>S. started_step b S = S"
    and "open_ids (ag_history t) \<subseteq> open_ids (ag_history s)"
  shows "tied rs0 L t"
  by (rule tied_commit [OF assms(1-5)]) (use assms(6-8) in auto)

lemma ready_neutral:
  assumes "ready P rs0 s" and "posted b s u" and "appends b (ag_history s) {} h {}"
    and "\<And>S. started_step b S = S" and "owned h" and "answered h"
  shows "ready P rs0 (u\<lparr>ag_history := h\<rparr>)"
proof -
  have "tied rs0 {} (u\<lparr>ag_history := h\<rparr>)"
    by (rule tied_neutral [where s = s and b = b])
      (use assms in \<open>auto simp: ready_def posted_fields answered_open_ids\<close>)
  with assms show ?thesis by (simp add: ready_def posted_fields)
qed

lemma ready_same:
  assumes "ready P rs0 s" and "posted b s t" and "appends b (ag_history s) {} (ag_history s) {}"
    and "\<And>S. started_step b S = S"
  shows "ready P rs0 t"
proof -
  have "ready P rs0 (t\<lparr>ag_history := ag_history t\<rparr>)"
    by (rule ready_neutral [OF assms(1,2)])
      (use assms in \<open>auto simp: ready_def posted_fields [OF assms(2)]\<close>)
  then show ?thesis by simp
qed

lemma ready_trace:
  "\<not> writes x \<Longrightarrow> ready P rs0 s \<Longrightarrow> ready P rs0 (s\<lparr>trace := trace s @ [x]\<rparr>)"
  by (rule ready_quiet [OF quiet_trace])

lemma ready_usage [simp]: "ready P rs0 (s\<lparr>ag_last_usage := u\<rparr>) = ready P rs0 s"
  by (simp add: ready_def tied_def)

section \<open>Input, inbox, interruptions and replacements\<close>

lemma wp_commit_input_ready:
  assumes "ready P rs0 s" and "\<And>r t. ready P rs0 t \<Longrightarrow> Q r t"
  shows "wp (commit_input input) Q s"
proof -
  have owned: "owned (ag_history s)" "answered (ag_history s)" using assms(1) by (auto simp: ready_def)
  have item: "ready P rs0 (t\<lparr>ag_history := ag_history t @ [input_item i]\<rparr>)"
    if "posted (input_body i) s t" for i t
    using that owned by (cases i)
      (auto intro!: ready_neutral [OF assms(1)] owned_snoc_other answered_snoc_other simp: posted_fields)
  show ?thesis
    unfolding commit_input_def
    by (auto split: option.split intro!: wp_commit_posted assms item elim: ready_quiet [OF _ assms(1)])
qed

lemma wp_deliver_messages_ready:
  assumes "ready P rs0 s" and "\<And>r t. ready P rs0 t \<Longrightarrow> Q r t"
  shows "wp (deliver_messages ms) Q s"
  using assms
proof (induction ms arbitrary: s)
  case (Cons m ms)
  obtain receipt kind msg where m: "m = (receipt, kind, msg)" by (cases m)
  have wf: "owned (ag_history s)" "answered (ag_history s)" using Cons.prems(1) by (auto simp: ready_def)
  have item: "ready P rs0 (t\<lparr>ag_history := ag_history t @ [ItInbox kind msg]\<rparr>)"
    if "posted (RbInbox kind msg) s t" for t
    using that wf
    by (auto intro!: ready_neutral [OF Cons.prems(1) that] owned_snoc_other answered_snoc_other
        simp: posted_fields)
  show ?case
    unfolding m deliver_messages.simps wp_bind
  proof (rule wp_commit_posted, goal_cases)
    case (1 err t)
    then show ?case
      by (auto intro!: wp_requeue_inboxI Cons.prems(2) intro: ready_quiet [OF quiet_inbox]
          ready_quiet [OF _ Cons.prems(1)])
  next
    case (2 t)
    then show ?case by (simp, intro Cons.IH item Cons.prems(2))
  qed
qed simp

lemma wp_deliver_inbox_ready:
  assumes "ready P rs0 s" and "\<And>r t. ready P rs0 t \<Longrightarrow> Q r t"
  shows "wp deliver_inbox Q s"
  unfolding deliver_inbox_def wp_bind
  apply (rule wp_drain_inboxI)
  apply (rule wp_ifI)
   apply (simp, rule assms(2), rule ready_quiet [OF quiet_inbox assms(1)])
  apply (simp only: wp_bind)
  apply (rule wp_deliver_messages_ready [OF ready_quiet [OF quiet_inbox assms(1)]])
  apply (auto split: sum.split intro!: assms(2) ready_trace)
  done

lemma wp_now_ms_quiet:
  assumes "\<And>r t. quiet s t \<Longrightarrow> Q r t" shows "wp now_ms Q s"
  unfolding now_ms_def by (auto intro!: wp_extI assms)

lemma wp_timing_finish_quiet:
  assumes "\<And>r t. quiet s t \<Longrightarrow> Q r t" shows "wp (timing_finish tm) Q s"
  unfolding timing_finish_def
  by (rule wp_optionI) (auto intro!: assms wp_now_ms_quiet)

lemma wp_commit_timing_ready:
  assumes "ready P rs0 s" and "\<And>r t. ready P rs0 t \<Longrightarrow> Q r t"
  shows "wp (commit_request_timing (timing_body tm)) Q s"
proof -
  have "ready P rs0 t" if "posted (timing_body tm) s t" for t
    by (rule ready_same [OF assms(1) that]) (simp_all add: timing_body_def)
  with assms show ?thesis
    unfolding commit_request_timing_def
    by (auto intro!: wp_commit_posted assms(2) elim: ready_quiet)
qed

lemma wp_end_interrupted_ready:
  assumes "ready P rs0 s" and "\<And>r t. ready P rs0 t \<Longrightarrow> Q r t"
  shows "wp (end_interrupted reason partial err tm) Q s"
  unfolding end_interrupted_def wp_bind
proof (rule wp_commit_posted, goal_cases)
  case (1 e t)
  then show ?case by (auto intro: assms(2) ready_quiet [OF _ assms(1)])
next
  case (2 t)
  have t: "ready P rs0 t" by (rule ready_same [OF assms(1) 2]) simp_all
  show ?case
    by (auto split: option.splits sum.splits
        intro!: assms(2) t wp_timing_finish_quiet wp_commit_timing_ready ready_quiet [OF _ t])
qed

text \<open>The contract on the context policy: a complete transcript is replaced by a complete one.\<close>

definition pairs_policy :: "'w context_policy \<Rightarrow> bool" where
  "pairs_policy c \<longleftrightarrow> (\<forall>input w. owned (ci_history input) \<longrightarrow> answered (ci_history input) \<longrightarrow>
     (\<forall>p. fst (ctx_prepare c input w) = Some (Inr (Some p)) \<longrightarrow> answered (pp_items p)) \<and>
     (\<forall>p n m. fst (ctx_compact_now c input w) = Some (Inr (CpReplaced p n m)) \<longrightarrow> answered (pp_items p)))"

text \<open>
  The contract that is needed in addition where a history is compacted while calls are open: the
  replacement leaves no call open that was not open before. A call of another response could never
  be answered, since the projection accepts results for the calls of the last response only.
\<close>

definition keeps_open_calls :: "'w context_policy \<Rightarrow> bool" where
  "keeps_open_calls c \<longleftrightarrow> (\<forall>input w p n m.
     owned (ci_history input) \<longrightarrow> settled_before_last (ci_history input) \<longrightarrow>
     fst (ctx_compact_now c input w) = Some (Inr (CpReplaced p n m)) \<longrightarrow>
     open_ids (pp_items p) \<subseteq> open_ids (ci_history input))"

lemma wp_race_resultI:
  assumes "\<And>w. Q None (s\<lparr>world := w\<rparr>)"
    and "\<And>w. Q (fst (fut w)) (s\<lparr>world := snd (fut w)\<rparr>)"
  shows "wp (race cancel fut) Q s"
  using assms by (simp add: race_def wp_ext)

lemma wp_install_replacement_ready:
  assumes "ready P rs0 s" and "answered (pp_items p)" and "\<And>r t. ready P rs0 t \<Longrightarrow> Q r t"
  shows "wp (install_replacement p n) Q s"
proof (cases "validate_replacement (pp_items p)")
  case (Inl m)
  with assms(1,3) show ?thesis by (simp add: install_replacement_def)
next
  case (Inr u)
  then have "owned (pp_items p)" by (simp add: validate_replacement_def validate_from_iff)
  then have installed: "ready P rs0 (t\<lparr>ag_history := pp_items p\<rparr>)"
    if "posted (RbContextReplaced (pp_items p) (pp_usage p)) s t" for t
    by (intro ready_neutral [OF assms(1) that]) (simp_all add: assms(2))
  show ?thesis
    unfolding install_replacement_def Inr sum.case wp_bind
  proof (rule wp_commit_posted, goal_cases)
    case (1 err t)
    then show ?case by (auto intro: assms(3) ready_quiet [OF _ assms(1)])
  next
    case (2 t)
    with ready_trace [OF _ installed [OF 2]] show ?case by (auto intro: assms(3))
  qed
qed

lemma ready_context:
  assumes "ready P rs0 s" and "pairs_policy (pt_context P)"
  shows "fst (ctx_prepare (pt_context (ag_parts s)) \<lparr>ci_history = ag_history s, ci_last_usage = u\<rparr> w)
      = Some (Inr (Some p)) \<Longrightarrow> answered (pp_items p)"
    and "fst (ctx_compact_now (pt_context (ag_parts s)) \<lparr>ci_history = ag_history s, ci_last_usage = u\<rparr> w)
      = Some (Inr (CpReplaced p n m)) \<Longrightarrow> answered (pp_items p)"
  using assms unfolding ready_def pairs_policy_def by (metis context_input.select_convs(1))+

lemma wp_commit_environment_ready:
  assumes "ready P rs0 s" and "\<And>r t. ready P rs0 t \<Longrightarrow> Q r t"
  shows "wp commit_environment_if_needed Q s"
  using assms by (auto simp: commit_environment_if_needed_def ready_def)

lemma wp_compact_now_ready:
  assumes "ready P rs0 s" and "pairs_policy (pt_context P)" and "\<And>r t. ready P rs0 t \<Longrightarrow> Q r t"
  shows "wp (compact_now cancel) Q s"
  unfolding compact_now_def Let_def wp_bind wp_get
proof (rule wp_race_resultI, goal_cases)
  case (1 w)
  show ?case by (simp, rule assms(3), rule ready_quiet [OF quiet_world assms(1)])
next
  case (2 w)
  have ready: "ready P rs0 (s\<lparr>world := w'\<rparr>)" for w'
    by (rule ready_quiet [OF quiet_world assms(1)])
  have replaced: "wp (do { env \<leftarrow> commit_environment_if_needed;
       case env of
         Inl err \<Rightarrow> ret (Inl (CeFailed err))
       | Inr _ \<Rightarrow> do { n \<leftarrow> gets (\<lambda>s. length (ag_history s));
           res \<leftarrow> install_replacement p n;
           case res of
             Inl e \<Rightarrow> ret (Inl (CeFailed (install_failure_message e)))
           | Inr _ \<Rightarrow> do { modify (\<lambda>s. s\<lparr>ag_last_usage := None\<rparr>); ret (Inr c) } } }) Q t"
    if "ready P rs0 t" "answered (pp_items p)" for p c t
    using that
    by (auto intro!: wp_commit_environment_ready wp_install_replacement_ready assms(3) split: sum.split)
  show ?case
    using ready_context(2) [OF assms(1,2)]
    by (auto split: option.split sum.split compaction.split
        intro!: assms(3) ready replaced [unfolded wp_bind wp_gets])
qed

lemma wp_prepare_context_ready:
  assumes "ready P rs0 s" and "pairs_policy (pt_context P)" and "\<And>r t. ready P rs0 t \<Longrightarrow> Q r t"
  shows "wp (prepare_context cancel) Q s"
  unfolding prepare_context_def Let_def wp_bind wp_get
proof (rule wp_race_resultI, goal_cases)
  case (1 w)
  show ?case
    by (auto intro!: wp_end_interrupted_ready [OF ready_quiet [OF quiet_world assms(1)]] assms(3))
next
  case (2 w)
  have ready: "ready P rs0 (s\<lparr>world := w'\<rparr>)" for w'
    by (rule ready_quiet [OF quiet_world assms(1)])
  show ?case
    using ready_context(1) [OF assms(1,2)]
    by (auto split: option.split sum.split context_error.split
        intro!: assms(3) ready wp_end_interrupted_ready [OF ready] wp_install_replacement_ready [OF ready])
qed

lemma wp_emit_opt_quiet:
  assumes "\<And>t. quiet s t \<Longrightarrow> Q () t" shows "wp (emit_opt e) Q s"
  unfolding emit_opt_def by (auto split: option.split intro!: assms quiet_trace)

lemma wp_record_event_quiet:
  assumes "\<And>r t. quiet s t \<Longrightarrow> Q r t" shows "wp (record_event event tm) Q s"
  by (rule wp_record_eventI) (auto intro: assms)

lemma wp_consume_stream_quiet:
  assumes "\<And>r t. quiet s t \<Longrightarrow> Q r t"
  shows "wp (consume_stream fuel cancel stream tm partial) Q s"
  using assms
proof (induction fuel arbitrary: s tm partial)
  case (Suc fuel)
  have more: "wp (emit_opt e) (\<lambda>_. wp (consume_stream fuel cancel stream tm' partial') Q) t"
    if "quiet s t" for e tm' partial' t
    using that by (intro wp_emit_opt_quiet Suc.IH Suc.prems) (blast intro: quiet_trans)
  show ?case
    unfolding consume_stream.simps wp_bind
    by (auto split: option.split stream_event.split
        intro!: wp_raceI Suc.prems wp_record_event_quiet more) (erule quiet_worldD)+
qed simp

section \<open>Requests and responses\<close>

lemma ready_request:
  "ready P rs0 s \<Longrightarrow> pr_history q = ag_history s \<Longrightarrow> ready P rs0 (s\<lparr>trace := trace s @ [ORequest q]\<rparr>)"
  by (auto simp: ready_def tied_def)

lemma wp_send_request_ready:
  assumes "ready P rs0 s" and "\<And>r t. ready P rs0 t \<Longrightarrow> Q r t"
  shows "wp (send_request fuel i cancel) Q s"
proof -
  have ended: "wp (timing_finish tm) (\<lambda>tm'. wp (end_interrupted reason partial err (Some tm')) (\<lambda>e. Q (f e))) t"
    "wp (end_interrupted reason partial err tm') (\<lambda>e. Q (f e)) t"
    if "ready P rs0 t" for t reason partial err tm tm' f
    using that
    by (auto intro!: wp_timing_finish_quiet wp_end_interrupted_ready assms(2) elim: ready_quiet)
  have outcome: "wp (consume_stream fuel cancel stream tm []) (\<lambda>oc. wp (case oc of
        None \<Rightarrow> ret None
      | Some (SoCompleted response, tm') \<Rightarrow> ret (Some (Inr (response, tm')))
      | Some (SoCancelled partial, tm') \<Rightarrow> do {
          e \<leftarrow> end_interrupted IrCancelled partial None (Some tm');
          ret (Some (Inl (FlEnd e))) }
      | Some (SoFailed partial err, tm') \<Rightarrow> do {
          e \<leftarrow> end_interrupted IrProviderFailed partial (Some err) (Some tm');
          ret (Some (Inl (from_failure e))) }) Q) t"
    if t: "ready P rs0 t" for stream tm t
    by (rule wp_consume_stream_quiet)
      (auto split: option.split stream_outcome.split intro!: ended(2) assms(2) intro: ready_quiet [OF _ t])
  have start: "ready P rs0 (s\<lparr>trace := trace s @ [OEmit (EvRequestStarted i)], world := w\<rparr>)" for w
    using ready_quiet [OF quiet_world ready_trace [OF _ assms(1)], of "OEmit (EvRequestStarted i)" w] by simp
  have sent: "ready P rs0 (s\<lparr>trace := trace s @ [OEmit (EvRequestStarted i), ORequest q], world := w\<rparr>)"
    if "pr_history q = ag_history s" for q w
    using ready_quiet [OF quiet_world ready_request [OF start], of q w] that by simp
  show ?thesis
    unfolding send_request_def Let_def wp_bind wp_emit wp_get
    apply (rule wp_extI, rule wp_ifI)
     apply (simp only: wp_bind wp_return, rule ended(2), rule start)
    apply (simp only: wp_bind wp_get)
    apply (rule wp_now_msI)
    apply (simp only: wp_observe)
    apply (rule wp_raceI)
     apply (simp only: option.case wp_bind wp_return, rule ended(1))
     apply (simp add: sent build_request_def)
    apply (rule wp_optionI)
     apply (simp only: wp_bind wp_return, rule ended(1))
     apply (simp add: sent build_request_def)
    apply (rule wp_sumI)
     apply (simp only: wp_bind wp_return, rule ended(1))
     apply (simp add: sent build_request_def)
    apply (simp only: wp_bind)
    apply (rule outcome [unfolded wp_bind])
    apply (simp add: sent build_request_def)
    done
qed

section \<open>The calls of a response\<close>

definition working :: "'w agent_parts \<Rightarrow> journal_record list \<Rightarrow> ustring set \<Rightarrow> 'w agent \<Rightarrow> bool" where
  "working P rs0 L s \<longleftrightarrow> ag_parts s = P \<and> tied rs0 L s \<and> owned (ag_history s) \<and>
     settled_before_last (ag_history s) \<and> requests_ok (trace s) \<and> ag_environment_committed s \<and>
     L \<subseteq> calls_before (ag_history s) \<and> open_ids (ag_history s) \<subseteq> L"

lemma working_kept: "working P rs0 L s \<Longrightarrow> kept P rs0 s"
  by (auto simp: working_def kept_def intro: tied_mono)

lemma working_quiet: "quiet s t \<Longrightarrow> working P rs0 L s \<Longrightarrow> working P rs0 L t"
  by (simp add: working_def tied_quiet quiet_fields requests_ok_quiet)

lemma working_ready:
  assumes "working P rs0 L s" and "open_ids (ag_history s) = {}" and "ag_started_calls s = {}"
  shows "ready P rs0 s"
  using assms by (auto simp: working_def ready_def intro: tied_mono settled_open_answered)

lemma working_started:
  assumes "working P rs0 L s" and "posted (RbToolStarted i identity) s t"
  shows "working P rs0 L (t\<lparr>ag_started_calls := insert i (ag_started_calls t)\<rparr>)"
proof -
  have "tied rs0 L (t\<lparr>ag_started_calls := insert i (ag_started_calls t)\<rparr>)"
    by (rule tied_commit [where s = s and b = "RbToolStarted i identity" and L = L])
      (use assms in \<open>auto simp: working_def posted_fields\<close>)
  with assms show ?thesis by (simp add: working_def posted_fields)
qed

lemma working_finished:
  assumes "working P rs0 L s" and "posted (RbToolFinished r code) s t" and "tr_call_id r \<in> L"
    and "S = ag_started_calls s \<or> S = ag_started_calls s - {tr_call_id r}"
  shows "working P rs0 L (t\<lparr>ag_started_calls := S, ag_history := ag_history s @ [ItToolResult r]\<rparr>)"
proof -
  have "tied rs0 L (t\<lparr>ag_started_calls := S, ag_history := ag_history s @ [ItToolResult r]\<rparr>)"
    by (rule tied_commit [where s = s and b = "RbToolFinished r code" and L = L])
      (use assms in \<open>auto simp: working_def posted_fields\<close>)
  with assms show ?thesis
    by (auto simp: working_def posted_fields intro: owned_snoc_result settled_snoc_other)
qed

lemma wp_commit_response_working:
  assumes "ready P rs0 s"
    and "\<And>e t. kept P rs0 t \<Longrightarrow> commit_failed e \<Longrightarrow> Q (Inl e) t"
    and "\<And>t. working P rs0 (set (call_ids (cr_item response))) t \<Longrightarrow> ag_started_calls t = {} \<Longrightarrow>
      ag_history t = ag_history s @ [ItAssistant (cr_item response)] \<Longrightarrow> Q (Inr ()) t"
  shows "wp (commit_response response tm) Q s"
proof -
  let ?a = "cr_item response" and ?h = "ag_history s @ [ItAssistant (cr_item response)]"
  let ?L = "set (call_ids ?a)"
  have start: "working P rs0 ?L (t\<lparr>ag_history := ?h\<rparr>)"
    if "posted (RbAssistantCompleted ?a (cr_stop response) (cr_usage response)) s t" for t
  proof -
    have "tied rs0 ?L (t\<lparr>ag_history := ?h\<rparr>)"
      by (rule tied_commit [where s = s and L = "{}"]) (use assms(1) that in \<open>auto simp: ready_def posted_fields\<close>)
    with assms(1) that show ?thesis
      by (auto simp: working_def ready_def posted_fields settled_snoc_assistant owned_snoc_other)
  qed
  have timing: "working P rs0 ?L u" if "posted (timing_body tm) t u" "working P rs0 ?L t" for t u
  proof -
    have "tied rs0 ?L u"
      by (rule tied_neutral [where s = t])
        (use that in \<open>auto simp: working_def posted_fields [OF that(1)] timing_body_def\<close>)
    with that show ?thesis by (simp add: working_def posted_fields [OF that(1)])
  qed
  have final: "working P rs0 ?L (t\<lparr>ag_last_usage := v, trace := trace t @ [OEmit e]\<rparr>)"
    if "working P rs0 ?L t" for t v e
    using that by (simp add: working_def tied_def)
  show ?thesis
    unfolding commit_response_def wp_bind
  proof (rule wp_commit_posted, goal_cases)
    case (1 err t)
    then show ?case by (simp, intro assms(2) ready_kept ready_quiet [OF _ assms(1)]) simp_all
  next
    case (2 t)
    note t = start [OF 2]
    have fields: "ag_history t = ag_history s" "ag_started_calls t = {}"
      using assms(1) posted_fields [OF 2] by (simp_all add: ready_def)
    show ?case
      apply (simp add: fields commit_request_timing_def)
      apply (intro conjI impI)
      subgoal by (rule assms(3)) (use final [OF t] fields in simp_all)
      subgoal
        apply (rule wp_commit_posted)
        subgoal by (simp, rule assms(2), rule working_kept [OF working_quiet [OF _ t]]) simp_all
        subgoal for u
          using timing [OF _ t, of u] posted_fields [of "timing_body tm" "t\<lparr>ag_history := ?h\<rparr>" u] fields
          by (simp, intro assms(3)) (auto intro: final)
        done
      done
  qed
qed

lemma open_ids_results:
  "open_ids (h @ map ItToolResult rs) = open_ids h - set (map tr_call_id rs)"
proof (induction rs arbitrary: h)
  case (Cons r rs)
  from Cons [of "h @ [ItToolResult r]"] show ?case by auto
qed simp

lemma adds_results_open:
  "adds_results cs s t \<Longrightarrow> open_ids (ag_history t) = open_ids (ag_history s) - set (map tc_call_id cs)"
proof (unfold adds_results_def, elim exE conjE)
  fix rs
  assume h: "ag_history t = ag_history s @ map ItToolResult rs" and "map result_key rs = map call_key cs"
  then have "map fst (map result_key rs) = map fst (map call_key cs)" by simp
  then have "map tr_call_id rs = map tc_call_id cs"
    by (simp add: result_key_def call_key_def comp_def)
  then show ?thesis by (simp only: h open_ids_results)
qed

fun started_ids :: "(tool_call \<times> 'w admitted) list \<Rightarrow> ustring set" where
  "started_ids [] = {}"
| "started_ids ((c, Started _) # rest) = insert (tc_call_id c) (started_ids rest)"
| "started_ids ((_, Settled _ _) # rest) = started_ids rest"

lemma wp_admit_working:
  assumes "working P rs0 L s"
    and "\<And>r t. working P rs0 L t \<Longrightarrow> ag_history t = ag_history s \<Longrightarrow>
      (\<And>x. r = Inr x \<Longrightarrow> ag_started_calls t \<subseteq> ag_started_calls s \<union> started_ids [(call, x)]) \<Longrightarrow> Q r t"
  shows "wp (admit cancel call tool) Q s"
proof -
  have settled: "Q (Inr (Settled status content)) t" if "quiet s t" for status content t
    by (rule assms(2)) (use working_quiet [OF that assms(1)] quiet_fields [OF that] in auto)
  have authorized: "wp (commit (RbToolStarted (tc_call_id call) identity))
      (\<lambda>res. wp (case res of Inl err \<Rightarrow> ret (Inl (TeCommitFailed err))
        | Inr _ \<Rightarrow> do { modify (\<lambda>s. s\<lparr>ag_started_calls := insert (tc_call_id call) (ag_started_calls s)\<rparr>);
            emit (EvToolStarted call); ret (Inr (Started x)) }) Q) t"
    if t: "quiet s t" for identity x t
  proof (rule wp_commit_posted, goal_cases)
    case (1 err u)
    have "quiet s u" using t 1 by (rule quiet_trans)
    then show ?case
      by (simp, intro assms(2)) (auto simp: quiet_fields intro: working_quiet [OF _ assms(1)])
  next
    case (2 u)
    have u: "working P rs0 L (u\<lparr>ag_started_calls := insert (tc_call_id call) (ag_started_calls u)\<rparr>)"
      by (rule working_started [OF working_quiet [OF t assms(1)] 2])
    have "working P rs0 L (u\<lparr>ag_started_calls := insert (tc_call_id call) (ag_started_calls u),
        trace := trace u @ [OEmit (EvToolStarted call)]\<rparr>)"
      using working_quiet [OF quiet_trace u] by simp
    then show ?case
      by (simp, intro assms(2)) (auto simp: posted_fields [OF 2] quiet_fields [OF t])
  qed
  have asked: "quiet s (s\<lparr>world := w', trace := trace s @ [OAuthorize call ef, ODecided call d]\<rparr>)"
    for w' ef d
    unfolding quiet_def
    by (intro exI [of _ w'] exI [of _ "ag_inbox s"] exI [of _ "[OAuthorize call ef, ODecided call d]"]) simp
  show ?thesis
    unfolding admit_def Let_def wp_bind
    apply (rule wp_extI, rule wp_ifI)
     apply (simp add: settled)
    apply (rule wp_optionI)
     apply (simp add: settled)
    apply (simp only: wp_bind wp_get wp_observe)
    apply (rule wp_raceI)
     apply (simp add: settled asked)
    subgoal
      by (auto split: option.split decision.split intro!: settled asked authorized [unfolded wp_bind])
    done
qed

lemma wp_admit_all_working:
  assumes "working P rs0 L s"
    and "\<And>r t. working P rs0 L t \<Longrightarrow> ag_history t = ag_history s \<Longrightarrow>
      (\<And>xs. r = Inr xs \<Longrightarrow> length xs = length cts \<and>
        ag_started_calls t \<subseteq> ag_started_calls s \<union> started_ids (zip (map fst cts) xs)) \<Longrightarrow> Q r t"
  shows "wp (admit_all cancel cts) Q s"
  using assms
proof (induction cts arbitrary: s Q)
  case Nil
  show ?case by simp (rule Nil.prems(2), auto simp: Nil.prems(1))
next
  case (Cons ct cts)
  obtain call tool where ct: "ct = (call, tool)" by (cases ct)
  show ?case
    unfolding ct admit_all.simps wp_bind
  proof (rule wp_admit_working [OF Cons.prems(1)], rule wp_sumI, goal_cases)
    case (1 r t e)
    then show ?case by (simp, intro Cons.prems(2)) auto
  next
    case (2 r t x)
    note t = 2
    show ?case
      unfolding wp_bind
    proof (rule Cons.IH [OF t(1)], rule wp_sumI, goal_cases)
      case (1 u r' e)
      with t show ?case by (simp, intro Cons.prems(2)) auto
    next
      case (2 u r' ys)
      have "started_ids [(call, x)] \<union> started_ids (zip (map fst cts) ys)
          = started_ids (zip (map fst (ct # cts)) (x # ys))"
        by (cases x) (auto simp: ct)
      then have "ag_started_calls u \<subseteq>
          ag_started_calls s \<union> started_ids (zip (map fst (ct # cts)) (x # ys))"
        using t(3) [OF t(4)] 2(3) [OF 2(4)] by blast
      then show ?case
        using t(2) 2(2) 2(3) [OF 2(4)] by (simp, intro Cons.prems(2) 2(1)) (auto simp: ct)
    qed
  qed
qed

text \<open>One recorded result.\<close>

lemma wp_finish_working:
  assumes "working P rs0 L s" and "tc_call_id call \<in> L"
    and "\<And>e t. working P rs0 L t \<Longrightarrow> ag_history t = ag_history s \<Longrightarrow> Q (Inl e) t"
    and "\<And>t. working P rs0 L t \<Longrightarrow> adds_results [call] s t \<Longrightarrow>
      ag_started_calls t \<subseteq> ag_started_calls s - S \<Longrightarrow> Q (Inr ()) t"
  shows "S = {tc_call_id call} \<Longrightarrow> wp (finish_started call ex) Q s"
    and "S = {} \<Longrightarrow> wp (finish_tool call status content) Q s"
proof -
  have refused: "Q (Inl e) t" if "quiet s t" for e t
    by (rule assms(3)) (use working_quiet [OF that assms(1)] quiet_fields [OF that] in auto)
  have recorded: "Q (Inr ()) u"
    if "posted (RbToolFinished r code) s t" "result_key r = call_key call"
      "B = ag_started_calls s \<and> S = {} \<or> B = ag_started_calls s - {tc_call_id call} \<and> S = {tc_call_id call}"
      "u = t\<lparr>ag_started_calls := B, ag_history := ag_history s @ [ItToolResult r],
        trace := trace t @ [OEmit e]\<rparr>"
    for r code t B e u
    unfolding that(4)
  proof (rule assms(4))
    have id: "tr_call_id r = tc_call_id call" using that(2) by (simp add: result_key_def call_key_def)
    have "working P rs0 L (t\<lparr>ag_started_calls := B, ag_history := ag_history s @ [ItToolResult r]\<rparr>)"
      by (rule working_finished [OF assms(1) that(1)]) (use assms(2) that(3) id in auto)
    from working_quiet [OF quiet_trace this, of "OEmit e"]
    show "working P rs0 L (t\<lparr>ag_started_calls := B, ag_history := ag_history s @ [ItToolResult r],
        trace := trace t @ [OEmit e]\<rparr>)"
      by simp
  next
    show "adds_results [call] s (t\<lparr>ag_started_calls := B, ag_history := ag_history s @ [ItToolResult r],
        trace := trace t @ [OEmit e]\<rparr>)"
      unfolding adds_results_def using that(2) by (intro exI [of _ "[r]"]) simp
  qed (use that(3) in auto)
  show "wp (finish_started call ex) Q s" if "S = {tc_call_id call}"
    unfolding finish_started_def Let_def wp_bind
  proof (rule wp_commit_posted, goal_cases)
    case (2 t)
    show ?case
      by (simp, rule recorded [OF 2, where B = "ag_started_calls t - {tc_call_id call}"])
        (simp_all add: that posted_fields [OF 2] result_key_def call_key_def)
  qed (simp add: refused)
  show "wp (finish_tool call status content) Q s" if "S = {}"
    unfolding finish_tool_def Let_def wp_bind
  proof (rule wp_commit_posted, goal_cases)
    case (2 t)
    show ?case
      by (simp, rule recorded [OF 2, where B = "ag_started_calls s" and
            e = "EvToolFinished \<lparr>tr_call_id = tc_call_id call, tr_name = tc_name call,
              tr_status = status, tr_content = content\<rparr>"])
        (simp_all add: that result_key_def call_key_def flip: posted_fields(2,5) [OF 2])
  qed (simp add: refused)
qed

text \<open>All results of a group in block order; a refused record leaves a prefix of them.\<close>

definition all_placed :: "(tool_call \<times> 'w admitted \<times> executed option) list \<Rightarrow> bool" where
  "all_placed rs \<longleftrightarrow> (\<forall>(c, a, e) \<in> set rs. is_started a \<longrightarrow> e \<noteq> None)"

definition group_done ::
    "'w agent_parts \<Rightarrow> journal_record list \<Rightarrow> ustring set \<Rightarrow> tool_call list \<Rightarrow> ustring set \<Rightarrow>
     'w agent \<Rightarrow> turn_end + 'b \<Rightarrow> 'w agent \<Rightarrow> bool" where
  "group_done P rs0 L cs S s r t \<longleftrightarrow>
     working P rs0 L t \<and>
     (case r of
        Inl _ \<Rightarrow> \<exists>n. adds_results (take n cs) s t
      | Inr _ \<Rightarrow> adds_results cs s t \<and> ag_started_calls t \<subseteq> S)"

lemma group_done_stop:
  "working P rs0 L t \<Longrightarrow> ag_history t = ag_history s \<Longrightarrow> group_done P rs0 L cs S s (Inl e) t"
  by (auto simp: group_done_def intro!: exI [of _ 0] adds_results_Nil)

lemma group_done_append:
  assumes "group_done P rs0 L ds S' t r u" and "adds_results cs s t" and "S' \<subseteq> S"
  shows "group_done P rs0 L (cs @ ds) S s r u"
proof (cases r)
  case (Inl e)
  with assms(1) obtain n where "adds_results (take n ds) t u" by (auto simp: group_done_def)
  from adds_results_append [OF assms(2) this] have "\<exists>n. adds_results (take n (cs @ ds)) s u"
    by (intro exI [of _ "length cs + n"]) simp
  with assms(1) Inl show ?thesis unfolding group_done_def by simp
next
  case (Inr x)
  with assms adds_results_append [OF assms(2), of ds u] show ?thesis by (auto simp: group_done_def)
qed

lemma group_done_left:
  "group_done P rs0 L cs S s (Inl e) t \<Longrightarrow> group_done P rs0 L (cs @ ds) S' s (Inl e) t"
proof -
  assume left: "group_done P rs0 L cs S s (Inl e) t"
  then obtain n where "adds_results (take n cs) s t" by (auto simp: group_done_def)
  then have "\<exists>n. adds_results (take n (cs @ ds)) s t"
    by (intro exI [of _ "min n (length cs)"]) (auto simp: min_def)
  with left show ?thesis unfolding group_done_def by simp
qed

lemma wp_record_results_working:
  assumes "working P rs0 L s" and "set (map (tc_call_id \<circ> fst) rs) \<subseteq> L" and "all_placed rs"
  shows "wp (record_results rs b)
    (group_done P rs0 L (map fst rs) (ag_started_calls s - started_ids (map (\<lambda>(c, a, e). (c, a)) rs)) s) s"
  using assms
proof (induction rs arbitrary: s b)
  case Nil
  then show ?case by (simp add: group_done_def adds_results_Nil)
next
  case (Cons x rest)
  obtain call admitted executed where x: "x = (call, admitted, executed)" by (cases x)
  have call: "tc_call_id call \<in> L" and rest: "set (map (tc_call_id \<circ> fst) rest) \<subseteq> L" "all_placed rest"
    using Cons.prems by (auto simp: all_placed_def x)
  have more: "wp (record_results rest b') (group_done P rs0 L (call # map fst rest) S s) t"
    if "working P rs0 L t" "adds_results [call] s t"
      "ag_started_calls t - started_ids (map (\<lambda>(c, a, e). (c, a)) rest) \<subseteq> S" for t S b'
    by (rule wp_mono [OF Cons.IH [OF that(1) rest]], drule group_done_append [OF _ that(2,3)]) simp
  show ?case
  proof (cases admitted)
    case (Started t)
    with Cons.prems(3) obtain ex where ex: "executed = Some ex" by (auto simp: all_placed_def x)
    show ?thesis
      unfolding x Started ex record_results.simps prod.case admitted.case option.case wp_bind
      by (rule wp_finish_working(1) [OF Cons.prems(1) call _ _ refl])
        (auto intro!: more group_done_stop)
  next
    case (Settled status content)
    show ?thesis
      unfolding x Settled record_results.simps prod.case admitted.case option.case wp_bind
      by (rule wp_finish_working(2) [OF Cons.prems(1) call _ _ refl])
        (auto intro!: more group_done_stop)
  qed
qed

lemma started_ids_zip:
  "length xs = length cs \<Longrightarrow> length os = length cs \<Longrightarrow>
    started_ids (map (\<lambda>(c, a, e). (c, a)) (zip cs (zip xs os))) = started_ids (zip cs xs)"
proof (induction cs arbitrary: xs os)
  case (Cons c cs)
  then obtain x xs' o' os' where "xs = x # xs'" "os = o' # os'" by (metis Suc_length_conv)
  with Cons show ?case by (cases x) auto
qed simp

lemma wp_run_group_working:
  assumes "working P rs0 L s" and "set (map (tc_call_id \<circ> fst) cts) \<subseteq> L"
  shows "wp (run_group cancel cts) (group_done P rs0 L (map fst cts) (ag_started_calls s) s) s"
  unfolding run_group_def wp_bind
proof (rule wp_admit_all_working [OF assms(1)], rule wp_sumI, goal_cases)
  case (1 r t e)
  then show ?case by (simp add: group_done_stop)
next
  case (2 r t xs)
  note t = 2(1,2) and xs = 2(3) [OF 2(4)]
  let ?calls = "map fst cts"
  show ?case
    unfolding wp_bind wp_gets
  proof (rule wp_join_quiet, goal_cases)
    case (1 finished u)
    note u = 1
    let ?os = "place_results (length cts) finished"
    let ?rs = "zip ?calls (zip xs ?os)"
    have placed: "all_placed ?rs"
      using joined_outcomes [of finished _ xs ?calls] u(2) xs
      by (auto simp: all_placed_def set_zip)
    have calls: "map fst ?rs = ?calls" using xs by (simp add: map_fst_zip_take)
    have "wp (record_results ?rs False)
        (group_done P rs0 L (map fst ?rs) (ag_started_calls u - started_ids (map (\<lambda>(c, a, e). (c, a)) ?rs)) u) u"
      by (rule wp_record_results_working [OF working_quiet [OF u(1) t(1)] _ placed])
        (use assms(2) in \<open>fastforce dest!: set_zip_leftD\<close>)
    then show ?case
    proof (rule wp_mono)
      fix r v
      assume v: "group_done P rs0 L (map fst ?rs)
        (ag_started_calls u - started_ids (map (\<lambda>(c, a, e). (c, a)) ?rs)) u r v"
      have "ag_started_calls u - started_ids (map (\<lambda>(c, a, e). (c, a)) ?rs) \<subseteq> ag_started_calls s"
        using xs started_ids_zip [of xs ?calls ?os] by (auto simp: quiet_fields [OF u(1)])
      from group_done_append [OF v adds_results_Nil this, of s] t(2)
      show "group_done P rs0 L ?calls (ag_started_calls s) s r v"
        by (simp add: quiet_fields [OF u(1)] calls)
    qed
  qed
qed

lemma wp_run_groups_working:
  assumes "working P rs0 L s" and "\<forall>g \<in> set gs. set (map (tc_call_id \<circ> fst) g) \<subseteq> L"
  shows "wp (run_groups cancel gs b)
    (group_done P rs0 L (concat (map (map fst) gs)) (ag_started_calls s) s) s"
  using assms
proof (induction gs arbitrary: s b)
  case Nil
  then show ?case by (simp add: group_done_def adds_results_Nil)
next
  case (Cons g gs)
  have g: "wp (run_group cancel g) (group_done P rs0 L (map fst g) (ag_started_calls s) s) s"
    using Cons.prems by (intro wp_run_group_working) auto
  show ?case
    unfolding run_groups.simps wp_bind
  proof (rule wp_mono [OF g], rule wp_sumI, goal_cases)
    case (1 r t e)
    then show ?case by (auto intro: group_done_left)
  next
    case (2 r t x)
    then have t: "working P rs0 L t" "adds_results (map fst g) s t"
        "ag_started_calls t \<subseteq> ag_started_calls s"
      by (auto simp: group_done_def)
    have "wp (run_groups cancel gs (b \<or> x))
        (group_done P rs0 L (concat (map (map fst) gs)) (ag_started_calls t) t) t"
      using Cons.prems(2) by (intro Cons.IH t) auto
    then show ?case
      by (rule wp_mono) (use group_done_append [OF _ t(2,3)] in simp)
  qed
qed

section \<open>One request, the loop and the turn\<close>

definition flow_kept :: "'w agent_parts \<Rightarrow> journal_record list \<Rightarrow> flow \<Rightarrow> 'w agent \<Rightarrow> bool" where
  "flow_kept P rs0 fl t \<longleftrightarrow> kept P rs0 t \<and> ((\<forall>e. fl = FlEnd e \<longrightarrow> \<not> commit_failed e) \<longrightarrow> ready P rs0 t)"

text \<open>A turn that ends for any reason but a failed commit leaves the agent ready.\<close>

definition turn_kept ::
    "'w agent_parts \<Rightarrow> journal_record list \<Rightarrow> turn_end option \<Rightarrow> 'w agent \<Rightarrow> bool" where
  "turn_kept P rs0 r t \<longleftrightarrow> kept P rs0 t \<and> ((\<forall>e. r = Some e \<longrightarrow> \<not> commit_failed e) \<longrightarrow> ready P rs0 t)"

lemma flow_kept_ready: "ready P rs0 t \<Longrightarrow> flow_kept P rs0 fl t"
  by (simp add: flow_kept_def ready_kept)

lemma turn_kept_ready: "ready P rs0 t \<Longrightarrow> turn_kept P rs0 r t"
  by (simp add: turn_kept_def ready_kept)

lemma turn_kept_failed: "kept P rs0 t \<Longrightarrow> commit_failed e \<Longrightarrow> turn_kept P rs0 (Some e) t"
  by (simp add: turn_kept_def)

lemma flow_kept_failed: "kept P rs0 t \<Longrightarrow> commit_failed e \<Longrightarrow> flow_kept P rs0 (FlEnd e) t"
  by (simp add: flow_kept_def)

lemma slices_calls:
  "length tools = length calls \<Longrightarrow>
    concat (map (map fst) (map (\<lambda>g. slice g (zip calls tools)) (groups calls tools' limit))) = calls"
proof -
  assume len: "length tools = length calls"
  have "concat (map (map fst) (map (\<lambda>g. slice g (zip calls tools)) (groups calls tools' limit)))
      = map fst (concat (map (\<lambda>g. slice g (zip calls tools)) (groups calls tools' limit)))"
    by (simp add: map_concat comp_def)
  also have "\<dots> = calls" using len by (subst groups_concat) simp_all
  finally show ?thesis .
qed

lemma wp_after_response_working:
  assumes "working P rs0 (set (call_ids (cr_item response))) s" and "ag_started_calls s = {}"
    and "open_ids (ag_history s) = set (call_ids (cr_item response))"
  shows "wp (after_response cancel response) (flow_kept P rs0) s"
proof -
  let ?calls = "tool_calls (cr_item response)"
  let ?tools = "map (assembled_tool (pt_tools (ag_parts s))) ?calls"
  let ?gs = "map (\<lambda>g. slice g (zip ?calls ?tools)) (groups ?calls ?tools (ag_max_parallel_tools s))"
  have calls: "concat (map (map fst) ?gs) = ?calls" by (rule slices_calls) simp
  have ids: "\<forall>g \<in> set ?gs. set (map (tc_call_id \<circ> fst) g) \<subseteq> set (call_ids (cr_item response))"
    using set_slice by (fastforce simp: call_ids_def dest!: set_zip_leftD)
  have no_calls: "ready P rs0 t" if "?calls = []" "quiet s t" for t
    using working_ready [OF assms(1) _ assms(2)] assms(3) that
    by (auto simp: call_ids_def intro: ready_quiet)
  have finished: "ready P rs0 t"
    if "group_done P rs0 (set (call_ids (cr_item response))) ?calls (ag_started_calls s) s (Inr b) t" for b t
  proof (rule working_ready)
    from that show "working P rs0 (set (call_ids (cr_item response))) t" by (simp add: group_done_def)
    from that show "open_ids (ag_history t) = {}"
      by (auto simp: group_done_def adds_results_open [of ?calls s t] assms(3) call_ids_def)
    from that assms(2) show "ag_started_calls t = {}" by (simp add: group_done_def)
  qed
  show ?thesis
    unfolding after_response_def Let_def
    apply (rule wp_ifI)
     apply (rule wp_ifI)
      apply (simp add: flow_kept_ready no_calls)
     apply (simp only: wp_bind)
     apply (rule wp_has_pending_inboxI)
     apply (simp add: flow_kept_ready no_calls quiet_inbox)
    apply (simp only: wp_bind wp_get)
    apply (rule wp_mono [OF wp_conj [OF wp_run_groups_working [OF assms(1) ids] wp_run_groups_order]])
    apply (rule wp_sumI)
    subgoal
      by (auto simp: group_done_def results_upto_def intro: flow_kept_failed working_kept)
    subgoal for r t x
      unfolding calls wp_bind
      by (rule wp_extI) (auto intro!: flow_kept_ready ready_quiet [OF quiet_world finished])
    done
qed

lemma from_failure_kept: "ready P rs0 t \<Longrightarrow> flow_kept P rs0 (from_failure e) t"
  by (rule flow_kept_ready)

lemma wp_one_request_kept:
  assumes "ready P rs0 s" and "pairs_policy (pt_context P)"
  shows "wp (one_request fuel i cancel)
    (\<lambda>r t. case r of None \<Rightarrow> ready P rs0 t | Some fl \<Rightarrow> flow_kept P rs0 fl t) s"
  unfolding one_request_def wp_bind
  apply (rule wp_deliver_inbox_ready [OF assms(1)])
  apply (rule wp_sumI)
   apply (simp add: flow_kept_ready)
  apply (simp only: wp_bind)
  apply (rule wp_prepare_context_ready [OF _ assms(2)], assumption)
  apply (rule wp_sumI)
   apply (simp add: flow_kept_ready)
  apply (simp only: wp_bind)
  apply (rule wp_send_request_ready, assumption)
  apply (rule wp_optionI)
   apply simp
  apply (rule wp_sumI)
   apply (simp add: flow_kept_ready)
  apply (simp only: split_paired_all prod.case wp_bind)
  apply (rule wp_commit_response_working, assumption)
   apply (simp add: flow_kept_failed)
  subgoal
    apply (simp only: sum.case wp_bind)
    apply (rule wp_mono [OF wp_after_response_working])
       apply assumption
      apply assumption
     apply simp
    apply simp
    done
  done

text \<open>Overflow recovery and the loop.\<close>

lemma wp_request_loop_kept:
  assumes "ready P rs0 s" and "pairs_policy (pt_context P)"
  shows "wp (request_loop n fuel i retries cancel) (turn_kept P rs0) s"
  using assms(1)
proof (induction n arbitrary: s i retries)
  case (Suc n)
  show ?case
    unfolding request_loop.simps wp_bind
  proof (rule wp_mono [OF wp_one_request_kept [OF Suc.prems assms(2)]], rule wp_optionI, goal_cases)
    case (2 r t fl)
    then have t: "flow_kept P rs0 fl t" by simp
    show ?case
    proof (cases fl)
      case (FlOverflow e)
      with t have ready: "ready P rs0 t" by (simp add: flow_kept_def)
      show ?thesis
        unfolding FlOverflow flow.case wp_bind wp_gets
        apply (rule wp_ifI)
         apply (simp add: turn_kept_ready [OF ready])
        unfolding compact_after_overflow_def wp_bind
        apply (rule wp_compact_now_ready [OF ready assms(2)])
        apply (auto intro: Suc.IH turn_kept_ready split: sum.split compaction.split)
        done
    qed (use t in \<open>auto simp: flow_kept_def turn_kept_def intro: Suc.IH\<close>)
  qed (simp add: turn_kept_ready)
qed (simp add: turn_kept_ready)

text \<open>The start of a turn: the environment, and the calls an earlier turn left open.\<close>

lemma wp_commit_environment_kept:
  assumes "kept P rs0 s"
    and "\<And>e t. kept P rs0 t \<Longrightarrow> Q (Inl e) t"
    and "\<And>t. kept P rs0 t \<Longrightarrow> ag_environment_committed t \<Longrightarrow> ag_history t = ag_history s \<Longrightarrow>
      Q (Inr ()) t"
  shows "wp commit_environment_if_needed Q s"
  unfolding commit_environment_if_needed_def Let_def wp_bind wp_get
proof (rule wp_ifI, goal_cases)
  case 1
  then show ?case by (simp add: assms(1,3))
next
  case 2
  let ?b = "environment_record (pt_provider (ag_parts s)) (pt_tools (ag_parts s))
    (pt_system_prompt (ag_parts s)) (pt_options (ag_parts s))"
  have committed: "kept P rs0 (t\<lparr>ag_environment_committed := True\<rparr>)" if "posted ?b s t" for t
  proof -
    have "tied rs0 (open_ids (ag_history s)) (t\<lparr>ag_environment_committed := True\<rparr>)"
      by (rule tied_neutral [where s = s and b = ?b])
        (use assms(1) in \<open>auto simp: kept_def posted_fields [OF that] environment_record_def\<close>)
    with assms(1) show ?thesis by (simp add: kept_def posted_fields [OF that])
  qed
  show ?case
    unfolding wp_bind
  proof (rule wp_commit_posted, goal_cases)
    case (1 err t)
    then show ?case by (simp, intro assms(2) kept_quiet [OF _ assms(1)])
  next
    case (2 t)
    then show ?case by (simp, intro assms(3) committed) (simp_all add: posted_fields)
  qed
qed

lemma kept_working:
  "kept P rs0 s \<Longrightarrow> ag_environment_committed s \<Longrightarrow> working P rs0 (open_ids (ag_history s)) s"
  by (simp add: kept_def working_def open_ids_called)

lemma wp_reconcile_calls_working:
  assumes "working P rs0 L s" and "set (map tc_call_id cs) \<subseteq> L"
  shows "wp (reconcile_calls cs) (group_done P rs0 L cs (ag_started_calls s) s) s"
  using assms
proof (induction cs arbitrary: s)
  case Nil
  then show ?case by (simp add: group_done_def adds_results_Nil)
next
  case (Cons call cs)
  let ?post = "group_done P rs0 L (call # cs) (ag_started_calls s) s"
  have recorded: "wp (reconcile_calls cs) ?post
      (t\<lparr>ag_history := ag_history t @ [ItToolResult r], trace := trace t @ [OEmit e]\<rparr>)"
    if t: "posted (RbToolFinished r code) s t" and r: "result_key r = call_key call" for r code t e
  proof -
    let ?u = "t\<lparr>ag_history := ag_history t @ [ItToolResult r], trace := trace t @ [OEmit e]\<rparr>"
    have id: "tr_call_id r = tc_call_id call" using r by (simp add: result_key_def call_key_def)
    have "working P rs0 L (t\<lparr>ag_started_calls := ag_started_calls t, ag_history := ag_history s @ [ItToolResult r]\<rparr>)"
      by (rule working_finished [OF Cons.prems(1) t]) (use Cons.prems(2) id in \<open>auto simp: posted_fields [OF t]\<close>)
    from working_quiet [OF quiet_trace this, of "OEmit e"] have u: "working P rs0 L ?u"
      by (simp add: posted_fields(2) [OF t])
    have "adds_results [call] s ?u"
      unfolding adds_results_def using r by (intro exI [of _ "[r]"]) (simp add: posted_fields [OF t])
    from group_done_append [OF _ this, of P rs0 L cs "ag_started_calls ?u" _ _ "ag_started_calls s"]
    show ?thesis
      by (intro wp_mono [OF Cons.IH [OF u]]) (use Cons.prems(2) in \<open>auto simp: posted_fields [OF t]\<close>)
  qed
  have refused: "?post (Inl e) t" if "quiet s t" for e t
    using that by (intro group_done_stop working_quiet [OF that Cons.prems(1)]) (simp add: quiet_fields)
  show ?case
    unfolding reconcile_calls.simps Let_def wp_bind wp_gets
    by (rule wp_commit_posted) (auto simp: refused result_key_def call_key_def intro!: recorded)
qed

lemma reconcile_calls_fails:
  "wp (reconcile_calls cs) (\<lambda>r t. \<forall>e. r = Inl e \<longrightarrow> commit_failed e) s"
proof (induction cs arbitrary: s)
  case (Cons c cs)
  show ?case by (auto intro!: wp_commitI Cons.IH)
qed simp

lemma wp_reconcile_kept:
  assumes "kept P rs0 s" and "ag_environment_committed s"
    and "\<And>e t. kept P rs0 t \<Longrightarrow> commit_failed e \<Longrightarrow> Q (Inl e) t" and "\<And>t. ready P rs0 t \<Longrightarrow> Q (Inr ()) t"
  shows "wp reconcile_unresolved_calls Q s"
proof -
  let ?L = "open_ids (ag_history s)" and ?cs = "unresolved_calls_of_last_assistant (ag_history s)"
  have settled: "ready P rs0 (t\<lparr>ag_started_calls := {}\<rparr>)"
    if "group_done P rs0 ?L ?cs S s (Inr b) t" for S b t
  proof -
    have "working P rs0 ?L t" using that by (simp add: group_done_def)
    moreover have "open_ids (ag_history t) = {}"
      using that adds_results_open [of ?cs s t] by (simp add: group_done_def open_ids_def)
    ultimately have "working P rs0 ?L (t\<lparr>ag_started_calls := {}\<rparr>)"
      by (simp add: working_def tied_def)
    with \<open>open_ids (ag_history t) = {}\<close> show ?thesis by (intro working_ready) auto
  qed
  show ?thesis
    unfolding reconcile_unresolved_calls_def wp_bind wp_gets
  proof (rule wp_mono [OF wp_conj [OF wp_reconcile_calls_working [OF kept_working [OF assms(1,2)]]
          reconcile_calls_fails]], goal_cases)
    case 1
    show ?case by (simp add: open_ids_def)
  next
    case (2 r t)
    then show ?case
      by (cases r) (auto simp: group_done_def intro: assms(3) working_kept intro!: assms(4) settled)
  qed
qed

lemma wp_run_inner_kept:
  assumes "kept P rs0 s" and "pairs_policy (pt_context P)"
  shows "wp (run_inner fuel input cancel) (turn_kept P rs0) s"
  unfolding run_inner_def wp_bind wp_emit
  apply (rule wp_commit_environment_kept [OF kept_quiet [OF quiet_trace assms(1)]])
    apply simp
   apply (simp add: turn_kept_failed)
  apply (simp only: sum.case wp_bind)
  apply (rule wp_reconcile_kept, assumption, assumption)
   apply (simp add: turn_kept_failed)
  apply (simp only: sum.case wp_bind)
  apply (rule wp_commit_input_ready, assumption)
  apply (rule wp_sumI)
   apply (simp add: turn_kept_ready)
  apply (rule wp_request_loop_kept [OF _ assms(2)], assumption)
  done

lemma wp_turn_kept:
  assumes "kept P rs0 s" and "pairs_policy (pt_context P)"
  shows "wp (turn_of fuel input cancel) (turn_kept P rs0) s"
  unfolding turn_of_def finish_turn_def wp_bind
  by (rule wp_mono [OF wp_run_inner_kept [OF assms]], rule wp_optionI)
    (auto simp: turn_kept_def intro: kept_quiet [OF quiet_trace] ready_quiet [OF quiet_trace])

end
