(* ===== verification/CoreSession.thy ===== *)
theory CoreSession
  imports CoreHistory CoreExample
begin

text \<open>
  The life of an agent over many turns: built new or resumed from the journal of an earlier one,
  turns of every kind, switches of the assembly (\<open>reconfigure\<close>), compactions between turns and
  messages sent to its inbox, in any order. The contract on the world is \<open>pairs_policy\<close>: a
  context policy that gets a complete transcript returns a complete one. A compaction while calls are
  open, which the host asks for with \<open>--resume --compact\<close> after a crash (\<open>compact_now\<close> itself does not
  reconcile), needs a second one, \<open>keeps_open_calls\<close>: the replacement leaves no other call open. Without
  it a policy could reopen a call of an older response, whose later result no projection accepts. Both are
  contracts of the context policy only, and the summarizing policy has both (\<open>ContextPolicy\<close>). The first part relates the
  fold of \<open>project\<close> to the records; the second is the step relation with its invariant; the last part
  states what every reachable agent satisfies.
\<close>

section \<open>Reading the projection\<close>

lemma project_from_prefix:
  "project_from 0 (rs @ [r]) fold_start = Inr fs \<Longrightarrow>
    \<exists>fs'. project_from 0 rs fold_start = Inr fs' \<and> jr_seq r = length rs \<and>
      project_body (length rs) (jr_body r) fs' = Inr fs"
  by (auto simp: project_from_append split: sum.splits if_splits)

lemma project_from_last_seq:
  "project_from 0 rs fold_start = Inr fs \<Longrightarrow> rs \<noteq> [] \<Longrightarrow> jr_seq (last rs) = length rs - 1"
proof (induction rs rule: rev_induct)
  case (snoc r rs)
  then show ?case by (auto dest: project_from_prefix)
qed simp

definition start_of :: "nat option \<Rightarrow> journal_record list \<Rightarrow> nat" where
  "start_of i records = (case i of None \<Rightarrow> length records | Some i \<Rightarrow> i + 1)"

lemma find_map_ex: "find_map f xs \<noteq> None \<longleftrightarrow> (\<exists>x \<in> set xs. f x \<noteq> None)"
  by (simp add: find_map_None del: not_None_eq)

text \<open>\<open>started_since\<close> is what \<open>unresolved_calls\<close> searches for.\<close>

lemma project_from_started:
  assumes "project_from 0 rs fold_start = Inr fs"
  shows "case fs_last_assistant_record fs of
      None \<Rightarrow> fs_last_assistant_calls fs = []
    | Some i \<Rightarrow> i < length rs \<and>
        (\<forall>x. x \<in> started_since rs \<longleftrightarrow> (\<exists>r \<in> set (drop (i + 1) rs). started_identity x r \<noteq> None))"
  using assms
proof (induction rs arbitrary: fs rule: rev_induct)
  case Nil
  then show ?case by (auto simp: fold_start_def)
next
  case (snoc r rs)
  then obtain fs' where fs': "project_from 0 rs fold_start = Inr fs'"
    "project_body (length rs) (jr_body r) fs' = Inr fs"
    by (auto dest: project_from_prefix)
  note IH = snoc.IH [OF fs'(1)]
  show ?case
    using IH fs'(2) unfolding started_since_snoc
    by (cases "jr_body r") (auto simp: split: option.splits if_splits)
qed

section \<open>Compaction and reconfiguration between turns\<close>

lemma kept_neutral:
  assumes "kept P rs0 s" and "ag_environment_committed s" and "posted b s u"
    and "appends b (ag_history s) (open_ids (ag_history s)) h (open_ids (ag_history s))"
    and "\<And>S. started_step b S = S"
    and "owned h" and "settled_before_last h" and "open_ids h \<subseteq> open_ids (ag_history s)"
  shows "kept P rs0 (u\<lparr>ag_history := h\<rparr>)"
proof -
  have "tied rs0 (open_ids (ag_history s)) (u\<lparr>ag_history := h\<rparr>)"
    by (rule tied_neutral [where s = s and b = b])
      (use assms in \<open>auto simp: kept_def posted_fields [OF assms(3)]\<close>)
  with tied_mono [OF this assms(8)] assms show ?thesis
    by (simp add: kept_def posted_fields [OF assms(3)])
qed

lemma wp_install_replacement_kept:
  assumes "kept P rs0 s" and "ag_environment_committed s"
    and "open_ids (pp_items p) \<subseteq> open_ids (ag_history s)" and "\<And>r t. kept P rs0 t \<Longrightarrow> Q r t"
  shows "wp (install_replacement p n) Q s"
proof (cases "validate_replacement (pp_items p)")
  case (Inl m)
  with assms(1,4) show ?thesis by (simp add: install_replacement_def)
next
  case (Inr u)
  then have "owned (pp_items p)" "settled_before_last (pp_items p)"
    by (simp_all add: validate_replacement_def validate_from_iff answered_but_final_settled)
  then have installed: "kept P rs0 (t\<lparr>ag_history := pp_items p\<rparr>)"
    if "posted (RbContextReplaced (pp_items p) (pp_usage p)) s t" for t
    by (intro kept_neutral [OF assms(1,2) that]) (simp_all add: assms(3))
  show ?thesis
    unfolding install_replacement_def Inr sum.case wp_bind
  proof (rule wp_commit_posted, goal_cases)
    case (1 err t)
    then show ?case by (auto intro: assms(4) kept_quiet [OF _ assms(1)])
  next
    case (2 t)
    with kept_quiet [OF quiet_trace installed [OF 2]] show ?case by (auto intro: assms(4))
  qed
qed

lemma kept_usage: "kept P rs0 (s\<lparr>ag_last_usage := u\<rparr>) = kept P rs0 s"
  by (simp add: kept_def tied_def)

text \<open>Of a complete transcript the first contract is enough; of one with open calls the second one is.\<close>

lemma compacted_open_ids:
  assumes "kept P rs0 s" and "pairs_policy (pt_context P)"
    and "answered (ag_history s) \<or> keeps_open_calls (pt_context P)"
    and "fst (ctx_compact_now (pt_context P) \<lparr>ci_history = ag_history s, ci_last_usage = u\<rparr> w)
      = Some (Inr (CpReplaced p n m))"
  shows "open_ids (pp_items p) \<subseteq> open_ids (ag_history s)"
proof (cases "answered (ag_history s)")
  case True
  with assms have "answered (pp_items p)"
    unfolding kept_def pairs_policy_def by (metis context_input.select_convs(1))
  then show ?thesis by (simp add: answered_open_ids)
next
  case False
  with assms show ?thesis
    unfolding kept_def keeps_open_calls_def by (metis context_input.select_convs(1))
qed

lemma wp_compact_now_kept:
  assumes "kept P rs0 s" and "pairs_policy (pt_context P)"
    and "answered (ag_history s) \<or> keeps_open_calls (pt_context P)"
  shows "wp (compact_now cancel) (\<lambda>r t. kept P rs0 t) s"
  unfolding compact_now_def Let_def wp_bind wp_get
proof (rule wp_race_resultI, goal_cases)
  case (1 w)
  show ?case by (simp, rule kept_quiet [OF quiet_world assms(1)])
next
  case (2 w)
  let ?input = "\<lparr>ci_history = ag_history s, ci_last_usage = ag_last_usage s\<rparr>"
  have kept: "kept P rs0 (s\<lparr>world := w'\<rparr>)" for w'
    by (rule kept_quiet [OF quiet_world assms(1)])
  have policy: "open_ids (pp_items p) \<subseteq> open_ids (ag_history s)"
    if "fst (ctx_compact_now (pt_context (ag_parts s)) ?input w) = Some (Inr (CpReplaced p n m))" for p n m
    using compacted_open_ids [OF assms] assms(1) that by (auto simp: kept_def)
  have replaced: "wp (do { env \<leftarrow> commit_environment_if_needed;
       case env of
         Inl err \<Rightarrow> ret (Inl (CeFailed err))
       | Inr _ \<Rightarrow> do { n \<leftarrow> gets (\<lambda>s. length (ag_history s));
           res \<leftarrow> install_replacement p n;
           case res of
             Inl e \<Rightarrow> ret (Inl (CeFailed (install_failure_message e)))
           | Inr _ \<Rightarrow> do { modify (\<lambda>s. s\<lparr>ag_last_usage := None\<rparr>); ret (Inr c) } } })
      (\<lambda>r t. kept P rs0 t) (s\<lparr>world := w'\<rparr>)"
    if "open_ids (pp_items p) \<subseteq> open_ids (ag_history s)" for p c w'
    unfolding wp_bind
    by (rule wp_commit_environment_kept [OF kept])
      (use that in \<open>auto simp: kept_usage intro!: wp_install_replacement_kept split: sum.split\<close>)
  show ?case
    using policy
    by (auto split: option.split sum.split compaction.split intro!: kept replaced [unfolded wp_bind wp_gets])
qed

lemma wp_reconfigure_kept:
  assumes "kept P rs0 s"
  shows "wp (reconfigure next) (\<lambda>r t. case r of
      Inl _ \<Rightarrow> kept P rs0 t
    | Inr _ \<Rightarrow> kept (install_parts next P) rs0 t) s"
proof -
  let ?b = "environment_record (rc_provider next) (rc_tools next) (rc_system_prompt next) (rc_options next)"
  have installed: "kept (install_parts next P) rs0
      (t\<lparr>ag_parts := install_parts next (ag_parts t), ag_environment_committed := True\<rparr>)"
    if "posted ?b s t" for t
  proof -
    have "tied rs0 (open_ids (ag_history s))
        (t\<lparr>ag_parts := install_parts next (ag_parts t), ag_environment_committed := True\<rparr>)"
      by (rule tied_neutral [where s = s and b = ?b])
        (use assms in \<open>auto simp: kept_def posted_fields [OF that] environment_record_def\<close>)
    with assms show ?thesis by (simp add: kept_def posted_fields [OF that])
  qed
  show ?thesis
    unfolding reconfigure_def wp_bind wp_gets
    by (rule wp_sumI)
      (auto simp: assms intro!: wp_commit_posted installed kept_quiet [OF _ assms])
qed

section \<open>Sessions\<close>

text \<open>
  \<open>session rs0 s\<close>: an agent built on the records \<open>rs0\<close> can be in the state \<open>s\<close>. Turns, resumes and
  reconfigurations are unrestricted but for \<open>pairs_policy\<close> of the policy they install; a compaction is
  possible at any time with a policy that keeps open calls, and between answered calls with any other.
\<close>

inductive session :: "journal_record list \<Rightarrow> 'w agent \<Rightarrow> bool" where
  created: "agent_new parts clock peers schedule w = Inr s \<Longrightarrow> pairs_policy (pt_context parts) \<Longrightarrow>
    session [] s"
| resumed: "session rs0 s \<Longrightarrow> records = rs0 @ committed (trace s) \<Longrightarrow> length records \<le> u64_max \<Longrightarrow>
    agent_resume parts records clock peers schedule w = Inr (t, report) \<Longrightarrow>
    pairs_policy (pt_context parts) \<Longrightarrow> session records t"
| turn: "session rs0 s \<Longrightarrow> run_state (turn_of fuel input cancel) s = (r, t) \<Longrightarrow> session rs0 t"
| inbox_turn: "session rs0 s \<Longrightarrow> run_state (run_inbox_turn fuel cancel) s = (r', t) \<Longrightarrow> session rs0 t"
| reconfigured: "session rs0 s \<Longrightarrow> run_state (reconfigure next) s = (rc, t) \<Longrightarrow>
    pairs_policy (rc_context next) \<Longrightarrow> session rs0 t"
| compacted: "session rs0 s \<Longrightarrow>
    answered (ag_history s) \<or> keeps_open_calls (pt_context (ag_parts s)) \<Longrightarrow>
    run_state (compact_now cancel) s = (co, t) \<Longrightarrow> session rs0 t"
| inbox_used: "session rs0 s \<Longrightarrow> session rs0 (s\<lparr>ag_inbox := apply_inbox_op op (ag_inbox s)\<rparr>)"
| limited: "session rs0 s \<Longrightarrow> run_state (set_max_parallel_tools n) s = (u, t) \<Longrightarrow> session rs0 t"
| retries: "session rs0 s \<Longrightarrow> run_state (set_max_overflow_retries n) s = (u, t) \<Longrightarrow> session rs0 t"
| clocked: "session rs0 s \<Longrightarrow> run_state (set_clock clock) s = (u, t) \<Longrightarrow> session rs0 t"

definition session_inv :: "journal_record list \<Rightarrow> 'w agent \<Rightarrow> bool" where
  "session_inv rs0 s \<longleftrightarrow> kept (ag_parts s) rs0 s \<and> pairs_policy (pt_context (ag_parts s))"

lemma kept_created:
  assumes "agent_new parts clock peers schedule w = Inr s"
  shows "kept parts [] s" and "ag_parts s = parts"
proof -
  from assms have s: "ag_parts s = parts" "ag_history s = []" "ag_next_seq s = 0" "trace s = []"
    "\<not> ag_environment_committed s" "ag_started_calls s = {}"
    by (auto simp: agent_new_def assemble_def split: sum.splits)
  then show "kept parts [] s"
    by (auto simp: kept_def tied_def projects_def fold_start_def open_ids_def unresolved_Nil)
  show "ag_parts s = parts" by (rule s(1))
qed

lemma kept_turn:
  assumes "session_inv rs0 s" and "run_state (turn_of fuel input cancel) s = (r, t)"
  shows "turn_kept (ag_parts s) rs0 r t"
  using wp_run [OF wp_turn_kept assms(2)] assms(1) by (simp add: session_inv_def)

lemma session_inv_keptI:
  "kept P rs0 t \<Longrightarrow> pairs_policy (pt_context P) \<Longrightarrow> session_inv rs0 t"
  by (auto simp: session_inv_def kept_def)

lemma session_inv_inbox_turn:
  assumes "session_inv rs0 s" and "run_state (run_inbox_turn fuel cancel) s = (r, t)"
  shows "session_inv rs0 t"
proof -
  have kept: "kept (ag_parts s) rs0 s" "pairs_policy (pt_context (ag_parts s))"
    using assms(1) by (auto simp: session_inv_def)
  have "wp (run_inbox_turn fuel cancel) (\<lambda>r t. kept (ag_parts s) rs0 t) s"
    unfolding run_inbox_turn_def wp_bind
    by (rule wp_has_pending_inboxI, rule wp_ifI, simp, rule kept_quiet [OF quiet_inbox kept(1)],
        simp, rule wp_mono [OF wp_turn_kept [OF kept_quiet [OF quiet_inbox kept(1)] kept(2)]])
      (simp add: turn_kept_def)
  from wp_run [OF this assms(2)] kept(2) show ?thesis by (blast intro: session_inv_keptI)
qed

text \<open>The agent built from the journal is linked to it.\<close>

lemma unresolved_started:
  assumes pr: "project_from 0 records fold_start = Inr fs"
    and L: "open_ids (fs_history fs) \<subseteq> set (map tc_call_id (fs_last_assistant_calls fs))"
    and u: "u \<in> set (unresolved_calls (fs_history fs) records (fs_last_assistant_record fs))"
  shows "uc_started u \<noteq> None \<longleftrightarrow> tc_call_id (uc_call u) \<in> started_since records"
proof -
  let ?uc = "unresolved_calls (fs_history fs) records (fs_last_assistant_record fs)"
  have "uc_call u \<in> set (map uc_call ?uc)" using u by auto
  then have "tc_call_id (uc_call u) \<in> open_ids (fs_history fs)"
    by (auto simp: map_uc_call_unresolved open_ids_def)
  with L have "fs_last_assistant_calls fs \<noteq> []" by auto
  with project_from_started [OF pr] obtain i where i: "fs_last_assistant_record fs = Some i"
    "\<And>x. x \<in> started_since records \<longleftrightarrow> (\<exists>r \<in> set (drop (i + 1) records). started_identity x r \<noteq> None)"
    by (auto split: option.splits)
  from u have "uc_started u = find_map (started_identity (tc_call_id (uc_call u))) (drop (i + 1) records)"
    by (auto simp: unresolved_calls_def i(1) simp del: started_identity.simps split: option.splits)
  then show ?thesis by (simp only: i(2) find_map_ex)
qed

lemma started_of_unresolved:
  assumes "project_from 0 records fold_start = Inr fs"
    and "open_ids (fs_history fs) \<subseteq> set (map tc_call_id (fs_last_assistant_calls fs))"
    and "x \<in> open_ids (fs_history fs)"
  shows "x \<in> set (map (tc_call_id \<circ> uc_call) (filter (\<lambda>u. uc_started u \<noteq> None)
      (unresolved_calls (fs_history fs) records (fs_last_assistant_record fs)))) \<longleftrightarrow>
    x \<in> started_since records"
proof -
  let ?uc = "unresolved_calls (fs_history fs) records (fs_last_assistant_record fs)"
  have "x \<in> set (map tc_call_id (map uc_call ?uc))"
    using assms(3) by (simp add: map_uc_call_unresolved open_ids_def del: map_map)
  then obtain u where u: "u \<in> set ?uc" "tc_call_id (uc_call u) = x" by auto
  have started: "uc_started v \<noteq> None \<longleftrightarrow> tc_call_id (uc_call v) \<in> started_since records"
    if "v \<in> set ?uc" for v
    by (rule unresolved_started [OF assms(1,2) that])
  have "x \<in> set (map (tc_call_id \<circ> uc_call) (filter (\<lambda>u. uc_started u \<noteq> None) ?uc)) \<longleftrightarrow>
      (\<exists>v \<in> set ?uc. tc_call_id (uc_call v) = x \<and> uc_started v \<noteq> None)"
    by auto
  also have "\<dots> \<longleftrightarrow> x \<in> started_since records" using started u by metis
  finally show ?thesis .
qed

lemma kept_resumed:
  assumes s: "kept P rs0 s" and records: "records = rs0 @ committed (trace s)"
    and fits: "length records \<le> u64_max"
    and res: "agent_resume parts records clock peers schedule w = Inr (t, report)"
  shows "kept parts records t" and "ag_parts t = parts"
proof -
  from s fits obtain fs where fs: "project_from 0 records fold_start = Inr fs"
    "fs_history fs = ag_history s"
    "open_ids (ag_history s) \<subseteq> set (map tc_call_id (fs_last_assistant_calls fs))"
    and env: "records \<noteq> [] \<longrightarrow> is_environment (jr_body (hd records))"
    by (auto simp: kept_def tied_def projects_def records)
  let ?uc = "unresolved_calls (fs_history fs) records (fs_last_assistant_record fs)"
  let ?started = "set (map (tc_call_id \<circ> uc_call) (filter (\<lambda>u. uc_started u \<noteq> None) ?uc))"
  have t: "ag_parts t = parts" "ag_history t = ag_history s" "trace t = []"
    "ag_next_seq t = (if records = [] then 0 else jr_seq (last records) + 1)"
    "ag_environment_committed t \<longrightarrow> records \<noteq> []" "ag_started_calls t = ?started"
    using res fs(1,2) env
    by (auto simp: agent_resume_def project_def assemble_def Let_def split: sum.splits)
  have "ag_next_seq t = length records"
    using t(4) project_from_last_seq [OF fs(1)] by (cases records) auto
  moreover have "x \<in> ag_started_calls t \<longleftrightarrow> x \<in> started_since records"
    if "x \<in> open_ids (ag_history t)" for x
    using started_of_unresolved [OF fs(1), of x] fs(2,3) that t(2,6) by simp
  ultimately have "tied records (open_ids (ag_history t)) t"
    using t env fs by (auto simp: tied_def projects_def)
  with s t show "kept parts records t" by (simp add: kept_def)
  show "ag_parts t = parts" by (rule t(1))
qed

lemma session_invariant: "session rs0 s \<Longrightarrow> session_inv rs0 s"
proof (induction rule: session.induct)
  case (created parts clock peers schedule w s)
  then show ?case by (blast intro: session_inv_keptI kept_created)
next
  case (resumed rs0 s records parts clock peers schedule w t report)
  then show ?case
    using kept_resumed [of "ag_parts s" rs0 s records parts clock peers schedule w t report]
    by (auto simp: session_inv_def)
next
  case (turn rs0 s fuel input cancel r t)
  have "kept (ag_parts s) rs0 t"
    using kept_turn [OF turn.IH turn.hyps(2)] by (simp add: turn_kept_def)
  from session_inv_keptI [OF this] turn.IH show ?case by (simp add: session_inv_def)
next
  case (inbox_turn rs0 s fuel cancel r' t)
  then show ?case by (blast intro: session_inv_inbox_turn)
next
  case (reconfigured rs0 s "next" rc t)
  then have "case rc of Inl _ \<Rightarrow> kept (ag_parts s) rs0 t | Inr _ \<Rightarrow> kept (install_parts next (ag_parts s)) rs0 t"
    using wp_run [OF wp_reconfigure_kept reconfigured.hyps(2)] by (simp add: session_inv_def)
  then obtain P where "kept P rs0 t" "pairs_policy (pt_context P)"
    using reconfigured.IH reconfigured.hyps(3)
    by (cases rc) (auto simp: session_inv_def install_parts_def)
  then show ?case by (rule session_inv_keptI)
next
  case (compacted rs0 s cancel co t)
  have "kept (ag_parts s) rs0 t"
    by (rule wp_run [OF wp_compact_now_kept compacted.hyps(3)])
      (use compacted.IH compacted.hyps(2) in \<open>auto simp: session_inv_def\<close>)
  from session_inv_keptI [OF this] compacted.IH show ?case by (simp add: session_inv_def)
qed (auto simp: session_inv_def set_max_parallel_tools_def set_max_overflow_retries_def set_clock_def
    kept_def tied_def)

section \<open>Properties\<close>

text \<open>C5: the journal is the source of truth. In every state of a session (turns, resumes,
  reconfigurations, compactions and inbox messages in any order, with a context policy that keeps
  complete transcripts complete, and, for a compaction while calls are open, opens no other call),
  projecting the records written so far gives back exactly the live agent: its history, its next
  sequence number, the calls it still owes a result, and which of those were started. So an agent
  resumed after a crash continues where the crashed one stood, compacted first or not.\<close>

theorem journal_projects_to_the_live_agent:
  assumes "session rs0 s" and "length (rs0 @ committed (trace s)) \<le> u64_max"
  shows "\<exists>p. project (rs0 @ committed (trace s)) = Inr p \<and> pj_history p = ag_history s \<and>
    pj_next_seq p = ag_next_seq s \<and>
    map uc_call (pj_unresolved_calls p) = unresolved_calls_of_last_assistant (ag_history s) \<and>
    (\<forall>u \<in> set (pj_unresolved_calls p).
      uc_started u \<noteq> None \<longleftrightarrow> tc_call_id (uc_call u) \<in> ag_started_calls s)"
proof -
  let ?rs = "rs0 @ committed (trace s)"
  have inv: "tied rs0 (open_ids (ag_history s)) s"
    using session_invariant [OF assms(1)] by (simp add: session_inv_def kept_def)
  with assms(2) obtain fs where fs: "project_from 0 ?rs fold_start = Inr fs"
    "fs_history fs = ag_history s"
    "open_ids (ag_history s) \<subseteq> set (map tc_call_id (fs_last_assistant_calls fs))"
    and env: "?rs \<noteq> [] \<longrightarrow> is_environment (jr_body (hd ?rs))"
    and seq: "ag_next_seq s = length ?rs"
    and started: "\<forall>x \<in> open_ids (ag_history s). x \<in> ag_started_calls s \<longleftrightarrow> x \<in> started_since ?rs"
    by (auto simp: tied_def projects_def)
  let ?uc = "unresolved_calls (fs_history fs) ?rs (fs_last_assistant_record fs)"
  have "(if ?rs = [] then 0 else jr_seq (last ?rs) + 1) = ag_next_seq s"
    unfolding seq using project_from_last_seq [OF fs(1)] by (cases "?rs = []") auto
  moreover have "uc_started u \<noteq> None \<longleftrightarrow> tc_call_id (uc_call u) \<in> ag_started_calls s" if "u \<in> set ?uc" for u
  proof -
    have "tc_call_id (uc_call u) \<in> set (map tc_call_id (map uc_call ?uc))" using that by auto
    then have "tc_call_id (uc_call u) \<in> open_ids (ag_history s)"
      by (simp add: map_uc_call_unresolved open_ids_def fs(2) del: map_map)
    with started have "tc_call_id (uc_call u) \<in> ag_started_calls s \<longleftrightarrow>
        tc_call_id (uc_call u) \<in> started_since ?rs" by blast
    then show ?thesis using unresolved_started [OF fs(1) _ that] fs(2,3) by simp
  qed
  ultimately show ?thesis
    unfolding project_def using env fs(1,2)
    by (auto simp: map_uc_call_unresolved)
qed

lemma ex_pairs_policy: "pairs_policy (pt_context (ex_parts refused))"
  by (simp add: pairs_policy_def ex_parts_def)

lemma ex_agent_new: "agent_new (ex_parts refused) (\<lambda>w. (fst w, w)) (\<lambda>w. ([], w)) (\<lambda>_ w. (None, w)) (0, [])
    = Inr ((ex_agent refused)\<lparr>ag_max_parallel_tools := default_max_parallel_tools\<rparr>)"
  by (simp add: agent_new_def assemble_def check_environment_def ex_parts_def ex_provider_def ex_agent_def
      default_max_overflow_retries_def)

lemma ex_session: "session [] (ex_agent refused)"
proof -
  have new: "session [] ((ex_agent refused)\<lparr>ag_max_parallel_tools := default_max_parallel_tools\<rparr>)"
    by (rule session.created [OF ex_agent_new ex_pairs_policy])
  have "ex_agent refused = (ex_agent refused)\<lparr>ag_max_parallel_tools := 2\<rparr>"
    by (simp add: ex_agent_def)
  with session.limited [OF new, of 2] show ?thesis
    by (simp add: set_max_parallel_tools_def)
qed

lemma ex_session_final: "session [] ex_final"
  by (rule session.turn [OF ex_session ex_run [unfolded run_turn_def]])

lemma ex_final_records: "length (committed (trace ex_final)) = 10"
  by (simp add: ex_final_def ex_trace_def ex_opening_def ex_record_def)

lemma journal_projects_to_the_live_agent_witness:
  "\<exists>p. project (committed (trace ex_final)) = Inr p \<and>
    pj_history p = ex_history @ [ItAssistant (cr_item (ex_response 1))] \<and> pj_next_seq p = 10"
  using journal_projects_to_the_live_agent [OF ex_session_final]
  by (auto simp: ex_final_records u64_max_def) (auto simp: ex_final_def)

text \<open>C6: every request sent in a session carries a complete transcript: every tool call in it has a
  result, and every result belongs to a call of an earlier assistant item.\<close>

theorem requests_are_complete_transcripts:
  assumes "session rs0 s" and "ORequest request \<in> set (trace s)"
  shows "answered (pr_history request) \<and> owned (pr_history request)"
  using session_invariant [OF assms(1)] assms(2)
  by (simp add: session_inv_def kept_def requests_ok_def)

lemma requests_are_complete_transcripts_witness:
  "answered ex_history \<and> owned ex_history"
  using requests_are_complete_transcripts [OF ex_session_final,
      of "\<lparr>pr_system_prompt = [], pr_history = ex_history, pr_tools = [tool_declaration ex_tool], pr_options = ex_options\<rparr>"]
  by (simp add: ex_final_def ex_trace_def)

text \<open>C7: a turn that ends for any reason but a failed commit leaves no call open: every call of its
  responses has its result in the history, and no started call is forgotten.\<close>

theorem finished_turn_leaves_no_call_open:
  assumes "session rs0 s" and "run_state (turn_of fuel input cancel) s = (Some e, t)"
    and "\<forall>m. e \<noteq> TeCommitFailed m"
  shows "unresolved_calls_of_last_assistant (ag_history t) = [] \<and> ag_started_calls t = {}"
proof -
  have "\<not> commit_failed e" using assms(3) by (cases e) auto
  then have "ready (ag_parts s) rs0 t"
    using kept_turn [OF session_invariant [OF assms(1)] assms(2)] by (auto simp: turn_kept_def)
  then show ?thesis by (simp add: ready_def answered_iff_settled)
qed

lemma finished_turn_leaves_no_call_open_witness:
  "unresolved_calls_of_last_assistant (ag_history ex_final) = [] \<and> ag_started_calls ex_final = {}"
  by (rule finished_turn_leaves_no_call_open [OF ex_session ex_run [unfolded run_turn_def]]) simp

text \<open>C8: even after failed commits, at most the calls of the last response are open: every earlier
  call is answered, and no result in the history is an orphan.\<close>

theorem only_the_last_response_can_be_open:
  assumes "session rs0 s"
  shows "owned (ag_history s) \<and> settled_before_last (ag_history s)"
  using session_invariant [OF assms] by (simp add: session_inv_def kept_def)

lemma only_the_last_response_can_be_open_witness:
  "owned (ag_history ex_final) \<and> settled_before_last (ag_history ex_final)"
  by (rule only_the_last_response_can_be_open [OF ex_session_final])

end
