(* ===== verification/Attachment.thy ===== *)
theory Attachment
  imports Contracts "HOL-Library.Word"
begin

text \<open>
  The operations of \<open>crates/p1-contracts/src/attachment.rs\<close>: the checked content address, the texts
  that stand for an attachment a route does not carry, and the base64 coding of an image's bytes.
  Bytes are \<open>8 word\<close> values and the 24-bit groups of the coding \<open>32 word\<close> values, shifted and masked
  as in the source. The debug rendering of a string (\<open>{:?}\<close>), which depends on the Unicode tables of
  the standard library, and the JSON printer are parameters, in the record \<open>printers\<close>.
\<close>

unbundle bit_operations_syntax

type_synonym byte = "8 word"
type_synonym u32 = "32 word"

record printers =
  debug_text :: "ustring \<Rightarrow> ustring"
  json_text :: "json \<Rightarrow> ustring option"

section \<open>UTF-8\<close>

text \<open>The bytes of a Unicode scalar value (\<open>str::as_bytes\<close>).\<close>

definition utf8_char :: "nat \<Rightarrow> byte list" where
  "utf8_char c =
     (if c < 128 then [word_of_nat c]
      else if c < 2048 then [word_of_nat (192 + c div 64), word_of_nat (128 + c mod 64)]
      else if c < 65536 then
        [word_of_nat (224 + c div 4096), word_of_nat (128 + c div 64 mod 64), word_of_nat (128 + c mod 64)]
      else
        [word_of_nat (240 + c div 262144), word_of_nat (128 + c div 4096 mod 64),
         word_of_nat (128 + c div 64 mod 64), word_of_nat (128 + c mod 64)])"

definition utf8 :: "ustring \<Rightarrow> byte list" where
  "utf8 s = concat (map utf8_char s)"

lemma utf8_append: "utf8 (a @ b) = utf8 a @ utf8 b"
  by (simp add: utf8_def)

lemma utf8_ascii: "\<forall>c \<in> set s. c < 128 \<Longrightarrow> utf8 s = map word_of_nat s"
  by (induction s) (simp_all add: utf8_def utf8_char_def)

section \<open>Content addresses\<close>

datatype attachment_error = AeInvalidId

definition is_digit_byte :: "byte \<Rightarrow> bool" where
  "is_digit_byte b \<longleftrightarrow> 48 \<le> b \<and> b \<le> 57"

definition hex_byte :: "byte \<Rightarrow> bool" where
  "hex_byte b \<longleftrightarrow> is_digit_byte b \<or> (97 \<le> b \<and> b \<le> 102)"

definition attachment_id_new :: "ustring \<Rightarrow> attachment_error + attachment_id" where
  "attachment_id_new hex =
     (if length (utf8 hex) = 64 \<and> list_all hex_byte (utf8 hex)
      then Inr (AttachmentId hex) else Inl AeInvalidId)"

section \<open>Texts in the place of an attachment\<close>

fun media_type_name :: "image_type \<Rightarrow> ustring" where
  "media_type_name Png = lit ''image/png''"
| "media_type_name Jpeg = lit ''image/jpeg''"
| "media_type_name Gif = lit ''image/gif''"
| "media_type_name Webp = lit ''image/webp''"

text \<open>The first twelve bytes; the id of a checked address is ASCII, so they are twelve characters.\<close>

definition short_id :: "attachment_id \<Rightarrow> ustring" where
  "short_id i = take 12 (id_text i)"

definition image_head :: "image_ref \<Rightarrow> ustring" where
  "image_head im = lit ''[image '' @ short_id (im_id im) @ lit '': '' @ media_type_name (im_media_type im) @
     lit '' '' @ dec (im_width im) @ lit ''x'' @ dec (im_height im) @ lit '', '' @ dec (im_bytes im) @ lit '' bytes; ''"

definition image_placeholder :: "image_ref \<Rightarrow> ustring" where
  "image_placeholder im = image_head im @ lit ''this model does not take image input]''"

definition image_unavailable :: "image_ref \<Rightarrow> ustring \<Rightarrow> ustring" where
  "image_unavailable im reason = image_head im @ lit ''not sent: '' @ reason @ lit '']''"

definition file_line :: "printers \<Rightarrow> file_ref \<Rightarrow> ustring option \<Rightarrow> ustring" where
  "file_line pr fl path =
     lit ''[attached file '' @ debug_text pr (fl_name fl) @ lit '', '' @ dec (fl_bytes fl) @
     (case path of
        Some p \<Rightarrow> lit '' bytes, read-only at '' @ p @ lit '']''
      | None \<Rightarrow> lit '' bytes; its path is unavailable]'')"

fun block_as_text :: "printers \<Rightarrow> user_block \<Rightarrow> ustring" where
  "block_as_text pr (UbText t) = t"
| "block_as_text pr (UbImage im data) = image_placeholder im"
| "block_as_text pr (UbFile fl path) = file_line pr fl path"

definition text_projection :: "printers \<Rightarrow> user_block list \<Rightarrow> ustring" where
  "text_projection pr blocks = join_with newline (map (block_as_text pr) blocks)"

section \<open>Base64\<close>

definition alphabet :: "byte list" where
  "alphabet = map of_char (''ABCDEFGHIJKLMNOPQRSTUVWXYZabcdefghijklmnopqrstuvwxyz0123456789+/'' :: string)"

fun chunks :: "nat \<Rightarrow> 'a list \<Rightarrow> 'a list list" where
  "chunks n xs = (if n = 0 \<or> xs = [] then [] else take n xs # chunks n (drop n xs))"

declare chunks.simps [simp del]

definition pad_byte :: byte where "pad_byte = 61"

definition group_bits :: "byte list \<Rightarrow> u32" where
  "group_bits c =
     (let b0 = c ! 0; b1 = (if 1 < length c then c ! 1 else 0); b2 = (if 2 < length c then c ! 2 else 0)
      in push_bit 16 (ucast b0) OR push_bit 8 (ucast b1) OR ucast b2)"

definition encode_chunk :: "byte list \<Rightarrow> byte list" where
  "encode_chunk c =
     map (\<lambda>(index, shift).
        if index \<le> length c then alphabet ! unat (drop_bit shift (group_bits c) AND 63) else pad_byte)
       [(0, 18), (1, 12), (2, 6), (3, 0)]"

definition base64 :: "byte list \<Rightarrow> byte list" where
  "base64 bytes = concat (map encode_chunk (chunks 3 bytes))"

definition sextet :: "byte \<Rightarrow> u32 option" where
  "sextet b =
     (if 65 \<le> b \<and> b \<le> 90 then Some (ucast (b - 65))
      else if 97 \<le> b \<and> b \<le> 122 then Some (ucast (b - 97 + 26))
      else if 48 \<le> b \<and> b \<le> 57 then Some (ucast (b - 48 + 52))
      else if b = 43 then Some 62
      else if b = 47 then Some 63
      else None)"

text \<open>\<open>n |= value(byte)? << (18 - 6 * index)\<close> over one chunk.\<close>

fun gather :: "nat \<Rightarrow> byte list \<Rightarrow> u32 \<Rightarrow> u32 option" where
  "gather index [] n = Some n"
| "gather index (b # bs) n =
     (case sextet b of
        None \<Rightarrow> None
      | Some v \<Rightarrow> gather (Suc index) bs (n OR push_bit (18 - 6 * index) v))"

definition be_bytes :: "u32 \<Rightarrow> byte list" where
  "be_bytes n = [ucast (drop_bit 24 n), ucast (drop_bit 16 n), ucast (drop_bit 8 n), ucast n]"

definition decode_chunk :: "byte list \<Rightarrow> byte list option" where
  "decode_chunk c =
     (case gather 0 c 0 of
        None \<Rightarrow> None
      | Some n \<Rightarrow>
          (let kept = length c - 1
           in if n AND drop_bit (8 * kept) 0xffffff \<noteq> 0 then None
              else Some (take kept (drop 1 (be_bytes n)))))"

fun decode_chunks :: "byte list list \<Rightarrow> byte list option" where
  "decode_chunks [] = Some []"
| "decode_chunks (c # cs) =
     (case decode_chunk c of
        None \<Rightarrow> None
      | Some out \<Rightarrow> map_option (\<lambda>rest. out @ rest) (decode_chunks cs))"

definition strip_padding :: "byte list \<Rightarrow> byte list" where
  "strip_padding t =
     (if ends_with [pad_byte, pad_byte] t then take (length t - 2) t
      else if ends_with [pad_byte] t then take (length t - 1) t
      else t)"

definition decode_base64 :: "byte list \<Rightarrow> byte list option" where
  "decode_base64 t =
     (let text = strip_padding t
      in if length text mod 4 = 1 \<or> (length t \<noteq> length text \<and> length t mod 4 \<noteq> 0) then None
         else decode_chunks (chunks 4 text))"

section \<open>The alphabet and its inverse\<close>

lemma alphabet_eq: "alphabet = [65,66,67,68,69,70,71,72,73,74,75,76,77,78,79,80,81,82,83,84,85,86,87,88,89,90,
  97,98,99,100,101,102,103,104,105,106,107,108,109,110,111,112,113,114,115,116,117,118,119,120,121,122,
  48,49,50,51,52,53,54,55,56,57,43,47]"
  by (simp add: alphabet_def)

lemma sextet_alphabet: "map sextet alphabet = map (\<lambda>k. Some (word_of_nat k)) [0..<64]"
  by (simp add: alphabet_eq sextet_def upt_rec)

lemma code_range: "map word_of_nat ([65..<91] @ [97..<123] @ [48..<58] @ [43, 47]) = alphabet"
  by (simp add: alphabet_eq upt_rec)

lemma sextet_in_alphabet:
  assumes "sextet b = Some v"
  shows "b \<in> set alphabet"
proof -
  from assms have "65 \<le> unat b \<and> unat b < 91 \<or> 97 \<le> unat b \<and> unat b < 123 \<or> 48 \<le> unat b \<and> unat b < 58 \<or> unat b = 43 \<or> unat b = 47"
    by (auto simp: sextet_def word_le_nat_alt split: if_splits)
  then have "unat b \<in> set ([65..<91] @ [97..<123] @ [48..<58] @ [43, 47])"
    by (simp only: set_append set_upt Un_iff atLeastLessThan_iff list.set insert_iff empty_iff) blast
  then have "(word_of_nat (unat b) :: byte) \<in> set (map word_of_nat ([65..<91] @ [97..<123] @ [48..<58] @ [43, 47]))"
    unfolding set_map by (rule imageI)
  then show ?thesis unfolding code_range by (simp only: of_nat_unat ucast_id)
qed

lemma sextetD:
  assumes "sextet b = Some v"
  shows "unat v < 64 \<and> alphabet ! unat v = b"
proof -
  have len: "length alphabet = 64" by (simp add: alphabet_eq)
  obtain k where k: "k < 64" "alphabet ! k = b"
    using sextet_in_alphabet [OF assms] by (auto simp: in_set_conv_nth len)
  have "map sextet alphabet ! k = Some (word_of_nat k)" unfolding sextet_alphabet using k(1) by simp
  with k assms have "v = word_of_nat k" by (simp add: len)
  with k show ?thesis by (simp add: unat_of_nat)
qed

lemma alphabet_sextet: "unat v < 64 \<Longrightarrow> sextet (alphabet ! unat v) = Some v"
proof -
  assume v: "unat v < 64"
  have len: "length alphabet = 64" by (simp add: alphabet_eq)
  have "map sextet alphabet ! unat v = Some (word_of_nat (unat v))" unfolding sextet_alphabet using v by simp
  with v show ?thesis by (simp add: len)
qed

lemma and63_less: "unat ((x::u32) AND 63) < 64"
proof -
  have "x AND 63 \<le> 63" by (rule word_and_le1)
  then show ?thesis by (simp add: word_le_nat_alt)
qed

lemma bit63: "bit (63::u32) n \<longleftrightarrow> n < 6"
proof -
  have "63 = (mask 6 :: u32)" by (simp add: mask_numeral)
  then show ?thesis by (simp only: bit_mask_iff) auto
qed

lemma bits_below:
  assumes "drop_bit k (g::u32) = 0" "bit g n"
  shows "n < k"
proof (rule ccontr)
  assume "\<not> n < k"
  then have "bit (drop_bit k g) (n - k)" using assms(2) by (simp add: bit_drop_bit_eq)
  with assms(1) show False by simp
qed

lemma regroup_bit:
  assumes "n < 24"
  shows "bit (push_bit 18 (drop_bit 18 g AND 63) OR push_bit 12 (drop_bit 12 g AND 63) OR push_bit 6 (drop_bit 6 g AND 63) OR (g AND 63)) n = bit (g::u32) n"
proof -
  consider "n < 6" | "6 \<le> n" "n < 12" | "12 \<le> n" "n < 18" | "18 \<le> n" using assms by linarith
  then show ?thesis using assms
    by cases (simp_all only: bit_or_iff bit_push_bit_iff bit_and_iff bit_drop_bit_eq comp_def bit63, auto)
qed

lemma regroup:
  assumes "drop_bit 24 (g::u32) = 0"
  shows "push_bit 18 (drop_bit 18 g AND 63) OR push_bit 12 (drop_bit 12 g AND 63) OR push_bit 6 (drop_bit 6 g AND 63) OR (g AND 63) = g"
    (is "?l = g")
proof (rule bit_word_eqI)
  fix n
  show "bit ?l n = bit g n"
  proof (cases "n < 24")
    case True
    then show ?thesis by (rule regroup_bit)
  next
    case False
    then have "\<not> bit g n" using bits_below [OF assms] by blast
    with False show ?thesis by (auto simp: bit_or_iff bit_push_bit_iff bit_and_iff bit_drop_bit_eq bit63)
  qed
qed

lemma group_small: "drop_bit 24 (group_bits c) = 0"
  by (rule bit_word_eqI) (auto simp: group_bits_def Let_def bit_simps dest: bit_imp_le_length)

section \<open>One group of the coding\<close>

definition group3 :: "byte \<Rightarrow> byte \<Rightarrow> byte \<Rightarrow> u32" where
  "group3 b0 b1 b2 = push_bit 16 (ucast b0) OR push_bit 8 (ucast b1) OR ucast b2"

lemma group_bits_simps:
  "group_bits [b0] = group3 b0 0 0" "group_bits [b0, b1] = group3 b0 b1 0"
  "group_bits [b0, b1, b2] = group3 b0 b1 b2"
  by (simp_all add: group_bits_def group3_def)

lemma group3_bytes:
  "ucast (drop_bit 16 (group3 b0 b1 b2)) = b0"
  "ucast (drop_bit 8 (group3 b0 b1 b2)) = b1"
  "ucast (group3 b0 b1 b2) = b2"
  by (rule bit_word_eqI, auto simp: group3_def bit_simps dest: bit_imp_le_length)+

lemma group3_last: "group3 b0 b1 0 AND 63 = 0" "drop_bit 6 (group3 b0 0 0) AND 63 = 0"
proof -
  have m: "63 = (mask 6 :: u32)" by (simp add: mask_numeral)
  show "group3 b0 b1 0 AND 63 = 0" "drop_bit 6 (group3 b0 0 0) AND 63 = 0"
    unfolding m by (rule bit_word_eqI, auto simp: group3_def bit_simps)+
qed

lemma group3_low: "group3 b0 b1 0 AND 0xff = 0" "group3 b0 0 0 AND 0xffff = 0"
proof -
  have m: "0xff = (mask 8 :: u32)" "0xffff = (mask 16 :: u32)" by (simp_all add: mask_numeral)
  show "group3 b0 b1 0 AND 0xff = 0" "group3 b0 0 0 AND 0xffff = 0"
    unfolding m by (rule bit_word_eqI, auto simp: group3_def bit_simps)+
qed

text \<open>What a chunk of the text stands for, given its six-bit values.\<close>

definition letters :: "u32 list \<Rightarrow> byte list" where
  "letters ss = map (\<lambda>s. alphabet ! unat s) ss"

lemma length_letters [simp]: "length (letters ss) = length ss"
  by (simp add: letters_def)

fun combine :: "nat \<Rightarrow> u32 list \<Rightarrow> u32 \<Rightarrow> u32" where
  "combine i [] n = n"
| "combine i (s # ss) n = combine (Suc i) ss (n OR push_bit (18 - 6 * i) s)"

lemma gather_letters:
  "\<forall>s \<in> set ss. unat s < 64 \<Longrightarrow> gather i (letters ss) n = Some (combine i ss n)"
  by (induction i ss n rule: combine.induct) (simp_all add: letters_def alphabet_sextet)

lemma encode_letters:
  assumes "length c \<le> 3"
  shows "take (length c + 1) (encode_chunk c) = letters (take (length c + 1)
    (map (\<lambda>shift. drop_bit shift (group_bits c) AND 63) [18, 12, 6, 0]))"
proof -
  from assms have "length c = 0 \<or> length c = 1 \<or> length c = 2 \<or> length c = 3" by linarith
  then show ?thesis by (elim disjE) (simp_all add: encode_chunk_def letters_def)
qed

lemma decode_encode_chunk:
  assumes "c \<noteq> []" "length c \<le> 3"
  shows "decode_chunk (take (length c + 1) (encode_chunk c)) = Some c"
proof -
  define g where "g = group_bits c"
  define s0 where "s0 = drop_bit 18 g AND 63"
  define s1 where "s1 = drop_bit 12 g AND 63"
  define s2 where "s2 = drop_bit 6 g AND 63"
  define s3 where "s3 = g AND 63"
  have small: "unat s0 < 64" "unat s1 < 64" "unat s2 < 64" "unat s3 < 64"
    by (simp_all add: s0_def s1_def s2_def s3_def and63_less)
  have g: "g = push_bit 18 s0 OR push_bit 12 s1 OR push_bit 6 s2 OR s3"
    unfolding s0_def s1_def s2_def s3_def g_def by (rule regroup [OF group_small, symmetric])
  have enc: "take (length c + 1) (encode_chunk c) = letters (take (length c + 1) [s0, s1, s2, s3])"
    using encode_letters [OF assms(2)] by (simp add: s0_def s1_def s2_def s3_def g_def)
  consider b0 where "c = [b0]" | b0 b1 where "c = [b0, b1]" | b0 b1 b2 where "c = [b0, b1, b2]"
    using assms by (cases c; cases "tl c"; cases "tl (tl c)") auto
  then show ?thesis
  proof cases
    case (1 b0)
    then have group: "g = group3 b0 0 0" by (simp add: g_def group_bits_simps)
    then have "s2 = 0" "s3 = 0" using group3_last(2) [of b0] group3_last(1) [of b0 0] by (simp_all add: s2_def s3_def)
    with g have "push_bit 18 s0 OR push_bit 12 s1 = g" by simp
    with 1 enc small show ?thesis
      using group3_bytes [of b0 0 0] group3_low(2) [of b0]
      by (simp add: decode_chunk_def gather_letters be_bytes_def group Let_def)
  next
    case (2 b0 b1)
    then have group: "g = group3 b0 b1 0" by (simp add: g_def group_bits_simps)
    then have "s3 = 0" using group3_last(1) [of b0 b1] by (simp add: s3_def)
    with g have "(push_bit 18 s0 OR push_bit 12 s1) OR push_bit 6 s2 = g" by (simp add: or.assoc)
    with 2 enc small show ?thesis
      using group3_bytes [of b0 b1 0] group3_low(1) [of b0 b1]
      by (simp add: decode_chunk_def gather_letters be_bytes_def group Let_def)
  next
    case (3 b0 b1 b2)
    then have group: "g = group3 b0 b1 b2" by (simp add: g_def group_bits_simps)
    from g have "((push_bit 18 s0 OR push_bit 12 s1) OR push_bit 6 s2) OR s3 = g" by (simp add: or.assoc)
    with 3 enc small show ?thesis
      using group3_bytes [of b0 b1 b2]
      by (simp add: decode_chunk_def gather_letters be_bytes_def group Let_def)
  qed
qed

lemma gather_SomeD:
  "gather i c m = Some n \<Longrightarrow>
    \<exists>ss. c = letters ss \<and> (\<forall>s \<in> set ss. unat s < 64) \<and> n = combine i ss m"
proof (induction i c m arbitrary: n rule: gather.induct)
  case (1 i m)
  then show ?case by (intro exI [of _ "[]"]) (simp add: letters_def)
next
  case (2 i b bs m)
  then obtain v where v: "sextet b = Some v" "gather (Suc i) bs (m OR push_bit (18 - 6 * i) v) = Some n"
    by (auto split: option.splits)
  from "2.IH" [OF v] obtain ss where "bs = letters ss" "\<forall>s \<in> set ss. unat s < 64"
    "n = combine (Suc i) ss (m OR push_bit (18 - 6 * i) v)" by blast
  with sextetD [OF v(1)] show ?case by (intro exI [of _ "v # ss"]) (simp add: letters_def)
qed

lemma small_bit: "unat (s::u32) < 64 \<Longrightarrow> bit s n \<Longrightarrow> n < 6"
proof -
  assume "unat s < 64" and "bit s n"
  have "unat (drop_bit 6 s) = unat s div 2 ^ 6"
    by (simp only: unat_drop_bit_eq drop_bit_eq_div [where 'a = nat])
  with \<open>unat s < 64\<close> have "drop_bit 6 s = 0" by (simp only: word_unat_eq_iff) simp
  from bits_below [OF this \<open>bit s n\<close>] show "n < 6" .
qed

lemma bit63_int: "bit (63::int) n \<longleftrightarrow> n < 6"
proof -
  have "63 = (mask 6 :: int)" by (simp add: mask_numeral)
  then show ?thesis by (simp only: bit_mask_iff) simp
qed

lemma sextets_back:
  assumes "unat s0 < 64" "unat s1 < 64" "unat s2 < 64" "unat s3 < 64"
    and "n = push_bit 18 s0 OR push_bit 12 s1 OR push_bit 6 s2 OR (s3::u32)"
  shows "drop_bit 18 n AND 63 = s0" "drop_bit 12 n AND 63 = s1" "drop_bit 6 n AND 63 = s2" "n AND 63 = s3"
    "drop_bit 24 n = 0"
proof -
  have high: "\<not> bit s k" if "unat s < 64" "6 \<le> k" for s :: u32 and k
    using small_bit [OF that(1), of k] that(2) by auto
  note bits = assms(5) bit_or_iff bit_push_bit_iff bit_and_iff bit_drop_bit_eq bit63 bit63_int
    high [OF assms(1)] high [OF assms(2)] high [OF assms(3)] high [OF assms(4)]
  show "drop_bit 18 n AND 63 = s0"
  proof (rule bit_word_eqI)
    fix k assume "k < LENGTH(32)"
    then show "bit (drop_bit 18 n AND 63) k = bit s0 k" by (cases "k < 6") (simp_all add: bits)
  qed
  show "drop_bit 12 n AND 63 = s1"
  proof (rule bit_word_eqI)
    fix k assume "k < LENGTH(32)"
    then show "bit (drop_bit 12 n AND 63) k = bit s1 k" by (cases "k < 6") (simp_all add: bits)
  qed
  show "drop_bit 6 n AND 63 = s2"
  proof (rule bit_word_eqI)
    fix k assume "k < LENGTH(32)"
    then show "bit (drop_bit 6 n AND 63) k = bit s2 k" by (cases "k < 6") (simp_all add: bits)
  qed
  show "n AND 63 = s3"
  proof (rule bit_word_eqI)
    fix k assume "k < LENGTH(32)"
    then show "bit (n AND 63) k = bit s3 k" by (cases "k < 6") (simp_all add: bits)
  qed
  show "drop_bit 24 n = 0"
    by (rule bit_word_eqI) (simp add: bits)
qed

lemma masked_bit:
  assumes "(n::u32) AND mask m = 0" and "k < m"
  shows "\<not> bit n k"
proof
  assume "bit n k"
  with assms(2) bit_imp_le_length [OF \<open>bit n k\<close>] have "bit (n AND mask m) k"
    by (simp add: bit_and_iff bit_mask_iff)
  with assms(1) show False by simp
qed

lemma low_bits_zero:
  "(n::u32) AND 0xff = 0 \<Longrightarrow> ucast n = (0 :: byte)"
  "(n::u32) AND 0xffff = 0 \<Longrightarrow> ucast n = (0 :: byte) \<and> ucast (drop_bit 8 n) = (0 :: byte)"
proof -
  have m: "0xff = (mask 8 :: u32)" "0xffff = (mask 16 :: u32)" by (simp_all add: mask_numeral)
  show "ucast n = (0 :: byte)" if "n AND 0xff = 0"
    using masked_bit [OF that [unfolded m]] by (intro bit_word_eqI) (simp add: bit_simps)
  show "ucast n = (0 :: byte) \<and> ucast (drop_bit 8 n) = (0 :: byte)" if "n AND 0xffff = 0"
    using masked_bit [OF that [unfolded m]] by (intro conjI bit_word_eqI) (simp_all add: bit_simps)
qed

lemma group3_back:
  assumes "drop_bit 24 n = 0"
  shows "group3 (ucast (drop_bit 16 n)) (ucast (drop_bit 8 n)) (ucast n) = n"
proof (rule bit_word_eqI)
  fix k assume k: "k < LENGTH(32)"
  consider "k < 8" | "8 \<le> k" "k < 16" | "16 \<le> k" "k < 24" | "24 \<le> k" by linarith
  then show "bit (group3 (ucast (drop_bit 16 n)) (ucast (drop_bit 8 n)) (ucast n)) k = bit n k"
    using bits_below [OF assms, of k] k
    by cases (auto simp: group3_def bit_simps)
qed

lemma encode_decode_chunk:
  assumes dec: "decode_chunk c = Some out" and len: "2 \<le> length c" "length c \<le> 4"
  shows "length out = length c - 1 \<and> take (length c) (encode_chunk out) = c"
proof -
  obtain n where n: "gather 0 c 0 = Some n" "n AND drop_bit (8 * (length c - 1)) 0xffffff = 0"
    "out = take (length c - 1) (drop 1 (be_bytes n))"
    using dec by (auto simp: decode_chunk_def Let_def split: option.splits if_splits)
  obtain ss where ss: "c = letters ss" "\<forall>s \<in> set ss. unat s < 64" "n = combine 0 ss 0"
    using gather_SomeD [OF n(1)] by blast
  from len ss(1) have "length ss = 2 \<or> length ss = 3 \<or> length ss = 4" by auto
  then consider s0 s1 where "ss = [s0, s1]" | s0 s1 s2 where "ss = [s0, s1, s2]"
    | s0 s1 s2 s3 where "ss = [s0, s1, s2, s3]"
    by (auto simp: numeral_eq_Suc length_Suc_conv)
  then show ?thesis
  proof cases
    case (1 s0 s1)
    have n': "n = push_bit 18 s0 OR push_bit 12 s1 OR push_bit 6 0 OR 0" using ss(3) 1 by simp
    note halves = sextets_back [OF _ _ _ _ n']
    have out: "out = [ucast (drop_bit 16 n)]" using n(3) ss(1) 1 by (simp add: be_bytes_def)
    have "group_bits out = n"
      using group3_back [of n] low_bits_zero(2) [of n] n(2) ss 1 halves(5)
      by (simp add: out group_bits_simps)
    with ss 1 halves out show ?thesis by (simp add: encode_chunk_def letters_def)
  next
    case (2 s0 s1 s2)
    have n': "n = push_bit 18 s0 OR push_bit 12 s1 OR push_bit 6 s2 OR 0" using ss(3) 2 by (simp add: or.assoc)
    note halves = sextets_back [OF _ _ _ _ n']
    have out: "out = [ucast (drop_bit 16 n), ucast (drop_bit 8 n)]" using n(3) ss(1) 2 by (simp add: be_bytes_def)
    have "group_bits out = n"
      using group3_back [of n] low_bits_zero(1) [of n] n(2) ss 2 halves(5)
      by (simp add: out group_bits_simps)
    with ss 2 halves out show ?thesis by (simp add: encode_chunk_def letters_def)
  next
    case (3 s0 s1 s2 s3)
    have n': "n = push_bit 18 s0 OR push_bit 12 s1 OR push_bit 6 s2 OR s3" using ss(3) 3 by (simp add: or.assoc)
    note halves = sextets_back [OF _ _ _ _ n']
    have out: "out = [ucast (drop_bit 16 n), ucast (drop_bit 8 n), ucast n]" using n(3) ss(1) 3 by (simp add: be_bytes_def)
    have "group_bits out = n"
      using group3_back [of n] ss 3 halves(5) by (simp add: out group_bits_simps)
    with ss 3 halves out show ?thesis by (simp add: encode_chunk_def letters_def)
  qed
qed

section \<open>Whole texts\<close>

lemma chunks_Nil [simp]: "chunks n [] = []"
  by (simp add: chunks.simps)

lemma chunks_append: "0 < n \<Longrightarrow> length c = n \<Longrightarrow> chunks n (c @ xs) = c # chunks n xs"
  by (subst chunks.simps) auto

lemma chunks_short: "xs \<noteq> [] \<Longrightarrow> length xs \<le> n \<Longrightarrow> chunks n xs = [xs]"
  by (subst chunks.simps) (cases "n = 0"; simp)

text \<open>Taking a list apart into full chunks and a short rest.\<close>

lemma chunk_induct [consumes 1, case_names Nil Short Full]:
  assumes "0 < n" and "P []"
    and "\<And>xs. xs \<noteq> [] \<Longrightarrow> length xs < n \<Longrightarrow> P xs"
    and "\<And>c xs. length c = n \<Longrightarrow> P xs \<Longrightarrow> P (c @ xs)"
  shows "P xs"
proof (induction "length xs" arbitrary: xs rule: less_induct)
  case less
  show ?case
  proof (cases "xs = [] \<or> length xs < n")
    case True
    with assms(2) assms(3) [of xs] show ?thesis by (cases "xs = []") simp_all
  next
    case False
    then have len: "length (drop n xs) < length xs" "length (take n xs) = n"
      using assms(1) by simp_all
    have "P (take n xs @ drop n xs)"
      by (rule assms(4) [OF len(2) less [OF len(1)]])
    then show ?thesis by simp
  qed
qed

lemma zero_less_three: "(0::nat) < 3" "(0::nat) < 4"
  by simp_all

definition unpadded :: "byte list \<Rightarrow> byte list" where
  "unpadded bytes = concat (map (\<lambda>c. take (length c + 1) (encode_chunk c)) (chunks 3 bytes))"

lemma length_encode_chunk [simp]: "length (encode_chunk c) = 4"
  by (simp add: encode_chunk_def)

lemma unpadded_simps:
  "unpadded [] = []"
  "xs \<noteq> [] \<Longrightarrow> length xs < 3 \<Longrightarrow> unpadded xs = take (length xs + 1) (encode_chunk xs)"
  "length c = 3 \<Longrightarrow> unpadded (c @ xs) = encode_chunk c @ unpadded xs"
  by (simp_all add: unpadded_def chunks_short chunks_append)

lemma encode_chunk_padding:
  "c \<noteq> [] \<Longrightarrow> length c \<le> 3 \<Longrightarrow>
    encode_chunk c = take (length c + 1) (encode_chunk c) @ replicate (3 - length c) pad_byte"
proof -
  assume "c \<noteq> []" "length c \<le> 3"
  then have "length c \<noteq> 0" "length c \<le> 3" by simp_all
  then have "length c = 1 \<or> length c = 2 \<or> length c = 3" by linarith
  then show ?thesis by (elim disjE) (simp_all add: encode_chunk_def numeral_2_eq_2)
qed

lemma base64_padding: "\<exists>p < 3. base64 bs = unpadded bs @ replicate p pad_byte \<and> length (base64 bs) mod 4 = 0"
proof (induction bs rule: chunk_induct [OF zero_less_three(1), case_names Nil Short Full])
  case Nil
  then show ?case by (simp add: base64_def unpadded_simps)
next
  case (Short xs)
  then show ?case
    using encode_chunk_padding [of xs]
    by (intro exI [of _ "3 - length xs"]) (simp add: base64_def unpadded_simps chunks_short)
next
  case (Full c xs)
  then show ?case by (auto simp: base64_def unpadded_simps chunks_append)
qed

lemma letter_not_pad: "unat (s::u32) < 64 \<Longrightarrow> alphabet ! unat s \<noteq> pad_byte"
proof
  assume "unat s < 64" "alphabet ! unat s = pad_byte"
  then have "sextet pad_byte = Some s" by (metis alphabet_sextet)
  then show False by (simp add: sextet_def pad_byte_def)
qed

lemma unpadded_letters: "b \<in> set (unpadded bs) \<Longrightarrow> \<exists>x::u32. b = alphabet ! unat (x AND 63)"
proof (induction bs rule: chunk_induct [OF zero_less_three(1), case_names Nil Short Full])
  case (Short xs)
  then have "b \<in> set (letters (take (length xs + 1) (map (\<lambda>shift. drop_bit shift (group_bits xs) AND 63) [18, 12, 6, 0])))"
    using encode_letters [of xs] unpadded_simps(2) [of xs] by (metis less_imp_le)
  then show ?case by (auto simp: letters_def dest!: in_set_takeD)
next
  case (Full c xs)
  then show ?case by (auto simp: unpadded_simps encode_chunk_def)
qed (simp add: unpadded_simps)

lemma unpadded_alphabet: "b \<in> set (unpadded bs) \<Longrightarrow> b \<noteq> pad_byte"
proof -
  assume "b \<in> set (unpadded bs)"
  then obtain x :: u32 where x: "b = alphabet ! unat (x AND 63)" using unpadded_letters by blast
  show "b \<noteq> pad_byte" unfolding x by (rule letter_not_pad [OF and63_less])
qed

lemma strip_padding_base64: "strip_padding (base64 bs) = unpadded bs"
proof -
  obtain p where p: "p < 3" "base64 bs = unpadded bs @ replicate p pad_byte"
    using base64_padding by blast
  have no: "\<not> ends_with (w @ [pad_byte]) (unpadded bs)" for w
  proof
    assume "ends_with (w @ [pad_byte]) (unpadded bs)"
    then have "pad_byte \<in> set (unpadded bs)"
      by (metis ends_with_def in_set_dropD in_set_conv_decomp)
    then show False using unpadded_alphabet by blast
  qed
  have "\<not> ends_with [pad_byte] (unpadded bs)" "\<not> ends_with [pad_byte, pad_byte] (unpadded bs)"
    using no [of "[]"] no [of "[pad_byte]"] by simp_all
  moreover have "\<not> ends_with [pad_byte, pad_byte] (unpadded bs @ [pad_byte])"
    using no [of "[]"] by (auto simp: ends_with_def)
  moreover have "p = 0 \<or> p = 1 \<or> p = 2" using p(1) by linarith
  ultimately show ?thesis
    using p(2) by (elim disjE) (simp_all add: strip_padding_def numeral_2_eq_2)
qed

lemma length_unpadded: "length (unpadded bs) mod 4 \<noteq> 1"
proof (induction bs rule: chunk_induct [OF zero_less_three(1), case_names Nil Short Full])
  case (Short xs)
  then have "length xs \<noteq> 0" "length xs < 3" by simp_all
  then have "length xs = 1 \<or> length xs = 2" by linarith
  with Short show ?case by (auto simp: unpadded_simps)
qed (simp_all add: unpadded_simps)

lemma decode_unpadded: "decode_chunks (chunks 4 (unpadded bs)) = Some bs"
proof (induction bs rule: chunk_induct [OF zero_less_three(1), case_names Nil Short Full])
  case (Short xs)
  let ?t = "take (length xs + 1) (encode_chunk xs)"
  have "chunks 4 ?t = [?t]"
    using Short by (intro chunks_short) (auto simp: encode_chunk_def)
  with Short show ?case using decode_encode_chunk [of xs] by (simp add: unpadded_simps)
next
  case (Full c xs)
  then show ?case
    using decode_encode_chunk [of c] by (cases "c = []") (simp_all add: unpadded_simps(3) chunks_append)
qed (simp add: unpadded_simps)

lemma unpadded_decode:
  assumes "decode_chunks (chunks 4 t) = Some bs" and "length t mod 4 \<noteq> 1"
  shows "unpadded bs = t"
  using assms
proof (induction t arbitrary: bs rule: chunk_induct [OF zero_less_three(2), case_names Nil Short Full])
  case Nil
  then show ?case by (simp add: unpadded_simps)
next
  case (Short xs)
  then have "decode_chunk xs = Some bs" by (auto simp: chunks_short split: option.splits)
  moreover have "2 \<le> length xs" "length xs \<le> 4" using Short by (cases xs; auto simp: Suc_le_eq)+
  ultimately have e: "length bs = length xs - 1" "take (length xs) (encode_chunk bs) = xs"
    using encode_decode_chunk by blast+
  with Short \<open>2 \<le> length xs\<close> have "unpadded bs = take (length bs + 1) (encode_chunk bs)"
    by (intro unpadded_simps(2)) auto
  moreover have "length bs + 1 = length xs" using e(1) \<open>2 \<le> length xs\<close> by simp
  ultimately show ?case using e(2) by simp
next
  case (Full c xs)
  then obtain out rest where out: "decode_chunk c = Some out" "decode_chunks (chunks 4 xs) = Some rest"
    "bs = out @ rest"
    by (auto simp: chunks_append split: option.splits)
  with encode_decode_chunk [of c out] Full have "length out = 3" "encode_chunk out = c" by auto
  with out Full show ?case by (simp add: unpadded_simps)
qed

section \<open>Properties\<close>

text \<open>the base64 coding of an image loses nothing: decoding an encoding gives back the bytes.\<close>

theorem base64_roundtrip: "decode_base64 (base64 bs) = Some bs"
proof -
  have "length (base64 bs) mod 4 = 0" using base64_padding [of bs] by blast
  then show ?thesis
    using length_unpadded [of bs] by (simp add: decode_base64_def strip_padding_base64 decode_unpadded)
qed

text \<open>The decoder accepts nothing but encodings: a text it decodes is, apart from its padding, the
  encoding of the bytes it stands for, so no two texts with the same padding decode to the same
  bytes (bits below the last whole byte are rejected).\<close>

theorem decoded_is_canonical:
  assumes "decode_base64 t = Some bs"
  shows "strip_padding t = strip_padding (base64 bs)"
  using assms unpadded_decode [of "strip_padding t" bs]
  by (auto simp: decode_base64_def strip_padding_base64 Let_def split: if_splits)

lemma decoded_is_canonical_witness: "strip_padding [84, 81] = strip_padding (base64 [77])"
proof (rule decoded_is_canonical)
  have letters: "sextet 84 = Some 19" "sextet 81 = Some 16" by (simp_all add: sextet_def)
  have "gather 0 [84, 81] 0 = Some 0x4d0000" by (simp add: letters)
  then have "decode_chunk [84, 81] = Some [77]"
    by (simp only: decode_chunk_def) (simp add: be_bytes_def)
  then show "decode_base64 [84, 81] = Some [77]"
    by (simp add: decode_base64_def strip_padding_def ends_with_def pad_byte_def chunks_short)
qed

lemma hex_byte_range: "hex_byte b \<Longrightarrow> unat b < 128"
  by (auto simp: hex_byte_def is_digit_byte_def word_le_nat_alt)

lemma continuation_byte: "\<not> unat (word_of_nat (128 + c mod 64) :: byte) < 128"
proof -
  have "unat (word_of_nat (128 + c mod 64) :: byte) = 128 + c mod 64"
    by (simp add: unat_of_nat del: of_nat_add)
  then show ?thesis by linarith
qed

lemma utf8_high: "128 \<le> c \<Longrightarrow> \<exists>b \<in> set (utf8_char c). \<not> unat b < 128"
  using continuation_byte [of c] by (auto simp: utf8_char_def simp del: of_nat_add)

lemma hex_ascii: "list_all hex_byte (utf8 s) \<Longrightarrow> \<forall>c \<in> set s. c < 128"
proof (intro ballI, rule ccontr)
  fix c assume hex: "list_all hex_byte (utf8 s)" and c: "c \<in> set s" "\<not> c < 128"
  then obtain b where "b \<in> set (utf8_char c)" "\<not> unat b < 128" using utf8_high [of c] by auto
  with c hex show False using hex_byte_range [of b] by (auto simp: utf8_def list_all_iff)
qed

lemma hex_char: "c < 128 \<Longrightarrow> hex_byte (word_of_nat c) \<longleftrightarrow> 48 \<le> c \<and> c \<le> 57 \<or> 97 \<le> c \<and> c \<le> 102"
  by (auto simp: hex_byte_def is_digit_byte_def word_le_nat_alt unat_of_nat)

text \<open>A content address is accepted exactly when it is 64 lowercase hexadecimal characters, although
  the code counts and tests bytes: so it names no path of its own when a store joins it into one.\<close>

theorem attachment_id_accepts:
  "attachment_id_new s = Inr i \<longleftrightarrow> i = AttachmentId s \<and> length s = 64 \<and> set s \<subseteq> {48..57} \<union> {97..102}"
proof (cases "\<forall>c \<in> set s. c < 128")
  case True
  then have "list_all hex_byte (utf8 s) \<longleftrightarrow> set s \<subseteq> {48..57} \<union> {97..102}"
    by (auto simp: utf8_ascii list_all_iff hex_char)
  with True show ?thesis by (auto simp: attachment_id_new_def utf8_ascii)
next
  case False
  then have "\<not> list_all hex_byte (utf8 s)" using hex_ascii by blast
  with False show ?thesis by (force simp: attachment_id_new_def)
qed

end
