(* ===== verification/ContextPlan.thy ===== *)
theory ContextPlan
  imports CorePairing Attachment "HOL-Library.Multiset" "HOL-Library.Sublist"
begin

text \<open>
  The configuration, the token estimate and the plan of the summarizing context policy
  (\<open>crates/p1-context/src/lib.rs\<close>, \<open>estimate.rs\<close>, \<open>plan.rs\<close>): a history is cut into a prelude and
  units, the newest units that fit a budget are the verbatim tail, and a replacement is the summary,
  the user messages that are kept, and the tail. The lemmas say that a unit is never split, so that a
  replacement of a well-paired history is well paired. Character counts are exact \<open>nat\<close> values: they
  count characters in memory, far below \<open>2^64\<close>.
\<close>

section \<open>Configuration\<close>

definition summary_marker :: ustring where
  "summary_marker = lit ''[p1 context summary v1 '' @ [8212] @
     lit '' written by the harness from the earlier part of this session. The user'' @ [39] @
     lit ''s own messages follow verbatim.]''"

definition trim_marker :: ustring where
  "trim_marker = lit ''[older result shortened by p1; read the file or rerun the command for the full text]''"

definition default_summary_output_tokens :: nat where
  "default_summary_output_tokens = 4000"

record context_config =
  cc_window_tokens :: nat
  cc_output_headroom_tokens :: nat
  cc_summarize_at_tokens :: nat
  cc_keep_recent_tokens :: nat
  cc_user_verbatim_tokens :: nat
  cc_tool_result_excerpt_chars :: nat
  cc_reasoning_excerpt_chars :: nat
  cc_trim_at_tokens :: "nat option"

definition wall :: "context_config \<Rightarrow> nat" where
  "wall cfg = sat_sub (cc_window_tokens cfg) (cc_output_headroom_tokens cfg)"

definition config_validate :: "context_config \<Rightarrow> ustring + unit" where
  "config_validate cfg =
     (if cc_window_tokens cfg = 0 then Inl (lit ''window_tokens must be greater than zero'')
      else if wall cfg \<le> cc_summarize_at_tokens cfg then
        Inl (lit ''summarize_at_tokens ('' @ dec (cc_summarize_at_tokens cfg) @
          lit '') must be below window_tokens - output_headroom_tokens ('' @ dec (wall cfg) @ lit '')'')
      else case cc_trim_at_tokens cfg of
        Some trim \<Rightarrow>
          if trim = 0 \<or> cc_summarize_at_tokens cfg < trim then
            Inl (lit ''trim_at_tokens ('' @ dec trim @
              lit '') must be greater than zero and at or below summarize_at_tokens ('' @
              dec (cc_summarize_at_tokens cfg) @ lit '')'')
          else Inr ()
      | None \<Rightarrow> Inr ())"

definition validate_summary_output_tokens :: "context_config \<Rightarrow> nat \<Rightarrow> ustring + unit" where
  "validate_summary_output_tokens cfg tokens =
     (if tokens = 0 then Inl (lit ''summary_output_tokens must be greater than zero'')
      else if wall cfg \<le> tokens then
        Inl (lit ''summary_output_tokens ('' @ dec tokens @
          lit '') must be below window_tokens - output_headroom_tokens ('' @ dec (wall cfg) @ lit '')'')
      else Inr ())"

section \<open>Estimate\<close>

definition ceil_tokens :: "nat \<Rightarrow> nat" where
  "ceil_tokens chars = sat_add64 (sat_mul64 chars 2) 6 div 7"

fun user_block_chars :: "printers \<Rightarrow> user_block \<Rightarrow> nat" where
  "user_block_chars pr (UbImage im data) = min (im_width im * im_height im div 750) 1600 * 7 div 2"
| "user_block_chars pr other = length (block_as_text pr other)"

fun block_chars :: "printers \<Rightarrow> assistant_block \<Rightarrow> nat" where
  "block_chars pr (AbText t) = length t"
| "block_chars pr (AbReasoning t replay) =
     length t +
     (case replay of
        None \<Rightarrow> 0
      | Some data \<Rightarrow> (case json_text pr (rd_payload data) of None \<Rightarrow> 0 | Some json \<Rightarrow> length json))"
| "block_chars pr (AbToolCall c) = length (tc_name c) + length (ti_raw (tc_input c))"

fun item_chars :: "printers \<Rightarrow> item \<Rightarrow> nat" where
  "item_chars pr (ItUser t) = length t"
| "item_chars pr (ItUserContent bs) = sum_list (map (user_block_chars pr) bs)"
| "item_chars pr (ItInbox k t) = length t"
| "item_chars pr (ItAssistant a) = sum_list (map (block_chars pr) (ai_blocks a))"
| "item_chars pr (ItToolResult r) = length (tr_content r)"

definition estimate_tokens :: "printers \<Rightarrow> item list \<Rightarrow> nat" where
  "estimate_tokens pr items = ceil_tokens (sum_list (map (item_chars pr) items))"

section \<open>Segments\<close>

record segments =
  sg_prelude_end :: nat
  sg_units :: "(nat \<times> nat) list"

text \<open>The loop of \<open>segments\<close>: \<open>start\<close> is the end of the last unit, or the first assistant item.\<close>

function units_from :: "item list \<Rightarrow> nat \<Rightarrow> nat \<Rightarrow> (nat \<times> nat) list" where
  "units_from items start index =
     (if index < length items then
        (if is_assistant (items ! index) then
           (let e = run_end (\<lambda>i. is_tool_result (items ! i)) (length items) (index + 1)
            in (start, e) # units_from items e e)
         else units_from items start (index + 1))
      else [])"
  by pat_completeness auto
termination
proof (relation "measure (\<lambda>(items, start, index). length items - index)", goal_cases)
  case (2 items start index e)
  with run_end_ge [of "index + 1" "\<lambda>i. is_tool_result (items ! i)" "length items"] show ?case by simp
qed auto

declare units_from.simps [simp del]

definition segments_of :: "item list \<Rightarrow> segments" where
  "segments_of items =
     (case position is_assistant items of
        None \<Rightarrow> \<lparr>sg_prelude_end = length items, sg_units = []\<rparr>
      | Some first \<Rightarrow> \<lparr>sg_prelude_end = first, sg_units = units_from items first first\<rparr>)"

text \<open>The loop of \<open>tail_start\<close>: the index of the first unit of the tail.\<close>

fun grow_tail :: "printers \<Rightarrow> item list \<Rightarrow> (nat \<times> nat) list \<Rightarrow> nat \<Rightarrow> nat \<Rightarrow> nat \<Rightarrow> nat" where
  "grow_tail pr items units last_end keep 0 = 0"
| "grow_tail pr items units last_end keep (Suc s) =
     (let candidate = fst (units ! s)
      in if estimate_tokens pr (take (last_end - candidate) (drop candidate items)) \<le> keep
         then grow_tail pr items units last_end keep s
         else Suc s)"

definition tail_start :: "printers \<Rightarrow> item list \<Rightarrow> segments \<Rightarrow> nat \<Rightarrow> nat" where
  "tail_start pr items sg keep_recent =
     (if sg_units sg = [] then sg_prelude_end sg
      else fst (sg_units sg !
        grow_tail pr items (sg_units sg) (snd (last (sg_units sg))) keep_recent (length (sg_units sg) - 1)))"

definition tail_units :: "segments \<Rightarrow> nat \<Rightarrow> nat" where
  "tail_units sg t = length (filter (\<lambda>(start, _). t \<le> start) (sg_units sg))"

definition in_tail_unit :: "nat \<Rightarrow> nat \<Rightarrow> segments \<Rightarrow> bool" where
  "in_tail_unit index t sg \<longleftrightarrow>
     (let e = (if sg_units sg = [] then t else snd (last (sg_units sg))) in t \<le> index \<and> index < e)"

section \<open>The replacement\<close>

fun is_summary_item :: "item \<Rightarrow> bool" where
  "is_summary_item (ItUser t) = starts_with summary_marker t"
| "is_summary_item _ = False"

definition is_plain_user :: "item \<Rightarrow> bool" where
  "is_plain_user it \<longleftrightarrow> item_user_input it \<noteq> None \<and> \<not> is_summary_item it"

text \<open>The loop over the user messages from the newest: \<open>break\<close> at the first that does not fit.\<close>

fun keep_users :: "printers \<Rightarrow> item list \<Rightarrow> nat \<Rightarrow> nat option \<Rightarrow> nat \<Rightarrow> nat list \<Rightarrow> nat list" where
  "keep_users pr items budget first used [] = []"
| "keep_users pr items budget first used (index # rest) =
     (if Some index = first then keep_users pr items budget first used rest
      else let cost = item_chars pr (items ! index)
        in if ceil_tokens (used + cost) \<le> budget
           then index # keep_users pr items budget first (used + cost) rest
           else [])"

definition plain_users :: "item list \<Rightarrow> nat \<Rightarrow> nat list" where
  "plain_users items t = filter (\<lambda>i. is_plain_user (items ! i)) [0..<t]"

definition kept_user_indices :: "printers \<Rightarrow> item list \<Rightarrow> nat \<Rightarrow> nat \<Rightarrow> nat list" where
  "kept_user_indices pr items t user_budget =
     (case plain_users items t of
        [] \<Rightarrow> []
      | first # _ \<Rightarrow>
          sort (first # keep_users pr items user_budget (Some first) (item_chars pr (items ! first))
            (rev (plain_users items t))))"

definition build_replacement :: "printers \<Rightarrow> item list \<Rightarrow> nat \<Rightarrow> nat \<Rightarrow> item \<Rightarrow> item list" where
  "build_replacement pr items t user_budget summary =
     summary # map (\<lambda>i. items ! i) (kept_user_indices pr items t user_budget) @ drop t items"

section \<open>Lemmas on the estimate\<close>

lemma ceil_tokens_mono: "a \<le> b \<Longrightarrow> ceil_tokens a \<le> ceil_tokens b"
  by (simp add: ceil_tokens_def div_le_mono sat_add64_mono sat_mul64_mono)

lemma estimate_tokens_mono:
  "sum_list (map (item_chars pr) xs) \<le> sum_list (map (item_chars pr) ys) \<Longrightarrow>
    estimate_tokens pr xs \<le> estimate_tokens pr ys"
  by (simp add: estimate_tokens_def ceil_tokens_mono)

section \<open>Units are never split\<close>

text \<open>
  A history is tight when every result answers the assistant item right before it, with nothing but
  results in between, which is how the core writes histories.
\<close>

fun tight_from :: "ustring set \<Rightarrow> item list \<Rightarrow> bool" where
  "tight_from open_calls [] \<longleftrightarrow> True"
| "tight_from open_calls (ItAssistant a # rest) \<longleftrightarrow> tight_from (set (call_ids a)) rest"
| "tight_from open_calls (ItToolResult r # rest) \<longleftrightarrow> tr_call_id r \<in> open_calls \<and> tight_from open_calls rest"
| "tight_from open_calls (_ # rest) \<longleftrightarrow> tight_from {} rest"

abbreviation tight :: "item list \<Rightarrow> bool" where
  "tight \<equiv> tight_from {}"

lemma tight_owned: "tight_from S h \<Longrightarrow> S \<subseteq> T \<Longrightarrow> owned_from T h"
proof (induction S h arbitrary: T rule: tight_from.induct)
  case (2 S a rest)
  then show ?case by (metis Un_upper2 owned_from.simps(2) tight_from.simps(2))
qed auto

lemma tight_drop:
  "tight_from S h \<Longrightarrow> t < length h \<longrightarrow> \<not> is_tool_result (h ! t) \<Longrightarrow> tight (drop t h)"
proof (induction t arbitrary: S h)
  case 0
  then show ?case by (cases h; cases "hd h") auto
next
  case (Suc t)
  show ?case
  proof (cases h)
    case (Cons it rest)
    with Suc.prems obtain S' where "tight_from S' rest" by (cases it) auto
    with Suc.IH Suc.prems(2) Cons show ?thesis by simp
  qed simp
qed

lemma answered_drop: "answered h \<Longrightarrow> answered (drop t h)"
proof (induction t arbitrary: h)
  case (Suc t)
  then show ?case
  proof (cases h)
    case (Cons it rest)
    with Suc.prems have "answered rest" by (cases it) auto
    with Suc.IH Cons show ?thesis by simp
  qed simp
qed simp

definition no_calls :: "item \<Rightarrow> bool" where
  "no_calls it \<longleftrightarrow> \<not> is_assistant it \<and> \<not> is_tool_result it"

lemma tight_prefix: "\<forall>it \<in> set xs. no_calls it \<Longrightarrow> xs \<noteq> [] \<Longrightarrow> tight_from S (xs @ ys) = tight ys"
proof (induction xs arbitrary: S)
  case (Cons x xs)
  show ?case
  proof (cases "xs = []")
    case True
    with Cons.prems show ?thesis by (cases x) (auto simp: no_calls_def)
  next
    case False
    with Cons.prems Cons.IH [of "{}"] show ?thesis by (cases x) (auto simp: no_calls_def)
  qed
qed simp

lemma answered_prefix: "\<forall>it \<in> set xs. no_calls it \<Longrightarrow> answered (xs @ ys) = answered ys"
proof (induction xs)
  case (Cons x xs)
  then show ?case by (cases x) (auto simp: no_calls_def)
qed simp

section \<open>Where units start and end\<close>

abbreviation results_end :: "item list \<Rightarrow> nat \<Rightarrow> nat" where
  "results_end items \<equiv> run_end (\<lambda>i. is_tool_result (items ! i)) (length items)"

text \<open>A boundary: nothing but the end of the history or an item that is no result follows.\<close>

definition boundary :: "item list \<Rightarrow> nat \<Rightarrow> bool" where
  "boundary items t \<longleftrightarrow> t \<le> length items \<and> (t < length items \<longrightarrow> \<not> is_tool_result (items ! t))"

lemma results_end_boundary: "i < length items \<Longrightarrow> boundary items (results_end items (i + 1))"
  using run_end_maximal [of "\<lambda>i. is_tool_result (items ! i)" "length items" "i + 1"]
    run_end_le [of "i + 1" "length items" "\<lambda>i. is_tool_result (items ! i)"]
  by (auto simp: boundary_def)

text \<open>
  A list of units that tiles a stretch of the history: each starts where the one before ended, holds
  exactly one assistant item, and what follows that item in the unit are its results, all of them.
\<close>

fun unit_ok :: "item list \<Rightarrow> nat \<times> nat \<Rightarrow> bool" where
  "unit_ok items (s, e) \<longleftrightarrow> s < e \<and> e \<le> length items \<and> boundary items s \<and> boundary items e \<and>
     (\<exists>a. s \<le> a \<and> a < e \<and> is_assistant (items ! a) \<and> e = results_end items (a + 1) \<and>
       (\<forall>i. s \<le> i \<and> i < a \<longrightarrow> \<not> is_assistant (items ! i)))"

fun tiled :: "item list \<Rightarrow> nat \<Rightarrow> (nat \<times> nat) list \<Rightarrow> bool" where
  "tiled items start [] \<longleftrightarrow> (\<forall>i. start \<le> i \<and> i < length items \<longrightarrow> \<not> is_assistant (items ! i))"
| "tiled items start ((s, e) # us) \<longleftrightarrow> s = start \<and> unit_ok items (s, e) \<and> tiled items e us"

lemma units_from_tiled:
  assumes "start \<le> index" "boundary items start"
    and "\<forall>i. start \<le> i \<and> i < index \<longrightarrow> \<not> is_assistant (items ! i)"
  shows "tiled items start (units_from items start index)"
  using assms
proof (induction items start index rule: units_from.induct)
  case (1 items start index)
  show ?case
  proof (cases "index < length items")
    case inside: True
    show ?thesis
    proof (cases "is_assistant (items ! index)")
      case True
      let ?e = "results_end items (index + 1)"
      have e: "index < ?e" "boundary items ?e"
        using run_end_ge [of "index + 1" "\<lambda>i. is_tool_result (items ! i)" "length items"]
          results_end_boundary [OF inside] by auto
      then have "unit_ok items (start, ?e)"
        using "1.prems" True by (auto simp: boundary_def intro!: exI [of _ index])
      moreover have "tiled items ?e (units_from items ?e ?e)"
        by (rule "1.IH"(1) [OF inside True refl]) (use e(2) in auto)
      ultimately show ?thesis
        using inside True by (simp add: units_from.simps [of items start index] Let_def)
    next
      case False
      have "tiled items start (units_from items start (index + 1))"
        by (rule "1.IH"(2) [OF inside False]) (use "1.prems" False in \<open>auto simp: less_Suc_eq\<close>)
      with inside False show ?thesis by (simp add: units_from.simps [of items start index])
    qed
  next
    case False
    with "1.prems" show ?thesis by (simp add: units_from.simps [of items start index])
  qed
qed

lemma tiled_units: "tiled items start us \<Longrightarrow> u \<in> set us \<Longrightarrow> unit_ok items u"
  by (induction us arbitrary: start) auto

lemma segments_tiled:
  "sg_units (segments_of items) = [] \<and> sg_prelude_end (segments_of items) = length items \<and>
      (\<forall>it \<in> set items. \<not> is_assistant it) \<or>
    sg_units (segments_of items) \<noteq> [] \<and> is_assistant (items ! sg_prelude_end (segments_of items)) \<and>
      sg_prelude_end (segments_of items) < length items \<and>
      (\<forall>i < sg_prelude_end (segments_of items). \<not> is_assistant (items ! i)) \<and>
      tiled items (sg_prelude_end (segments_of items)) (sg_units (segments_of items))"
proof (cases "position is_assistant items")
  case None
  then have "\<forall>it \<in> set items. \<not> is_assistant it" by (simp only: position_None)
  with None show ?thesis by (simp add: segments_of_def)
next
  case (Some first)
  note first = position_SomeD [OF Some]
  then have "boundary items first" by (cases "items ! first") (auto simp: boundary_def)
  then have "tiled items first (units_from items first first)"
    by (intro units_from_tiled) auto
  moreover have "units_from items first first \<noteq> []"
    using first by (subst units_from.simps) (simp add: Let_def)
  ultimately show ?thesis using first by (simp add: segments_of_def Some)
qed

lemma grow_tail_le: "grow_tail pr items units last_end keep s \<le> s"
  by (induction s) (auto simp: Let_def le_SucI)

lemma tail_start_unit:
  assumes "sg_units sg \<noteq> []"
  shows "\<exists>u \<in> set (sg_units sg). tail_start pr items sg keep = fst u"
proof -
  have "grow_tail pr items (sg_units sg) (snd (last (sg_units sg))) keep (length (sg_units sg) - 1)
      < length (sg_units sg)"
    using assms grow_tail_le [of pr items "sg_units sg" "snd (last (sg_units sg))" keep "length (sg_units sg) - 1"]
    by (cases "sg_units sg") auto
  then show ?thesis using assms nth_mem by (fastforce simp: tail_start_def)
qed

lemma tail_start_boundary: "boundary items (tail_start pr items (segments_of items) keep)"
proof (cases "sg_units (segments_of items) = []")
  case True
  then have "tail_start pr items (segments_of items) keep = length items"
    using segments_tiled [of items] by (simp add: tail_start_def)
  then show ?thesis by (simp add: boundary_def)
next
  case False
  from tail_start_unit [OF False, of pr items keep]
  obtain u where u: "u \<in> set (sg_units (segments_of items))"
    "tail_start pr items (segments_of items) keep = fst u" by blast
  have "unit_ok items u"
    using segments_tiled [of items] False u(1) by (auto dest: tiled_units)
  with u(2) show ?thesis by (cases u) simp
qed

section \<open>Replacements of well-paired histories\<close>

lemma kept_user_plain:
  "i \<in> set (kept_user_indices pr items t budget) \<Longrightarrow> i < t \<and> is_plain_user (items ! i)"
proof -
  have keep: "i \<in> set (keep_users pr items b f u is) \<Longrightarrow> i \<in> set is" for b f u "is"
    by (induction pr items b f u "is" rule: keep_users.induct) (auto simp: Let_def split: if_splits)
  assume i: "i \<in> set (kept_user_indices pr items t budget)"
  have "i \<in> set (plain_users items t)"
  proof (cases "plain_users items t")
    case (Cons first rest)
    then have "i = first \<or> i \<in> set (keep_users pr items budget (Some first)
        (item_chars pr (items ! first)) (rev (plain_users items t)))"
      using i by (simp add: kept_user_indices_def set_insort_key)
    with Cons show ?thesis by (metis keep list.set_intros(1) set_rev)
  qed (use i in \<open>simp add: kept_user_indices_def\<close>)
  then show ?thesis by (simp add: plain_users_def)
qed

lemma plain_user_no_calls: "is_plain_user it \<Longrightarrow> no_calls it"
  by (cases it) (auto simp: is_plain_user_def no_calls_def)

lemma build_replacement_paired:
  assumes "tight items" "answered items" "boundary items t" "no_calls summary"
  shows "tight (build_replacement pr items t budget summary) \<and>
    answered (build_replacement pr items t budget summary)"
proof -
  let ?head = "summary # map (\<lambda>i. items ! i) (kept_user_indices pr items t budget)"
  have "\<forall>it \<in> set ?head. no_calls it"
    using assms(4) kept_user_plain plain_user_no_calls by fastforce
  moreover have "build_replacement pr items t budget summary = ?head @ drop t items"
    by (simp add: build_replacement_def)
  moreover have "tight (drop t items)" "answered (drop t items)"
    using assms by (auto simp: boundary_def intro: tight_drop answered_drop)
  ultimately show ?thesis
    using tight_prefix [of ?head] answered_prefix [of ?head] by simp
qed


lemma answered_but_finalI: "answered h \<Longrightarrow> answered_but_final h"
  by (induction h rule: answered.induct) auto

section \<open>The tail is the longest that fits\<close>

definition span :: "printers \<Rightarrow> item list \<Rightarrow> (nat \<times> nat) list \<Rightarrow> nat \<Rightarrow> nat" where
  "span pr items units k =
     estimate_tokens pr (take (snd (last units) - fst (units ! k)) (drop (fst (units ! k)) items))"

lemma grow_tail_fits:
  "grow_tail pr items units (snd (last units)) keep s \<le> j \<Longrightarrow> j < s \<Longrightarrow> span pr items units j \<le> keep"
  by (induction s) (auto simp: Let_def span_def less_Suc_eq split: if_splits)

lemma grow_tail_stops:
  "0 < grow_tail pr items units (snd (last units)) keep s \<Longrightarrow>
    keep < span pr items units (grow_tail pr items units (snd (last units)) keep s - 1)"
  by (induction s) (auto simp: Let_def span_def not_le)

lemma tiled_starts: "tiled items start us \<Longrightarrow> j < length us \<Longrightarrow> start \<le> fst (us ! j)"
proof (induction us arbitrary: start j)
  case (Cons u us)
  obtain s e where u: "u = (s, e)" by (cases u)
  show ?case
  proof (cases j)
    case (Suc k)
    with Cons u have "e \<le> fst (us ! k)" "s < e" by auto
    with Cons.prems Suc u show ?thesis by simp
  qed (use Cons u in simp)
qed simp

lemma tiled_increasing: "tiled items start us \<Longrightarrow> j \<le> k \<Longrightarrow> k < length us \<Longrightarrow> fst (us ! j) \<le> fst (us ! k)"
proof (induction us arbitrary: start j k)
  case (Cons u us)
  obtain s e where u: "u = (s, e)" by (cases u)
  show ?case
  proof (cases j)
    case 0
    then show ?thesis using tiled_starts [OF Cons.prems(1), of k] Cons.prems u by simp
  next
    case (Suc j')
    with Cons.prems obtain k' where "k = Suc k'" by (cases k) auto
    have "fst (us ! j') \<le> fst (us ! k')"
      by (rule Cons.IH [of e]) (use Cons.prems u Suc \<open>k = Suc k'\<close> in auto)
    then show ?thesis by (simp add: Suc \<open>k = Suc k'\<close>)
  qed
qed simp

lemma sum_take_drop_le:
  fixes f :: "'a \<Rightarrow> nat"
  assumes "a \<le> b" "b \<le> e"
  shows "sum_list (map f (take (e - b) (drop b xs))) \<le> sum_list (map f (take (e - a) (drop a xs)))"
proof -
  have "take (e - a) (drop a xs) = take (b - a) (drop a xs) @ take (e - b) (drop b xs)"
    using assms take_add [of "b - a" "e - b" "drop a xs"] by simp
  then show ?thesis by simp
qed

lemma span_antimono:
  assumes "tiled items start us" "j \<le> k" "k < length us"
  shows "span pr items us k \<le> span pr items us j"
proof (cases "fst (us ! k) \<le> snd (last us)")
  case True
  with tiled_increasing [OF assms] show ?thesis
    unfolding span_def by (intro estimate_tokens_mono sum_take_drop_le)
next
  case False
  then show ?thesis
    unfolding span_def by (intro estimate_tokens_mono) simp
qed

section \<open>The kept user messages\<close>

definition chars_at :: "printers \<Rightarrow> item list \<Rightarrow> nat list \<Rightarrow> nat" where
  "chars_at pr items is = sum_list (map (\<lambda>i. item_chars pr (items ! i)) is)"

lemma keep_users_budget:
  "keep_users pr items budget first used is = [] \<or>
    ceil_tokens (used + chars_at pr items (keep_users pr items budget first used is)) \<le> budget"
proof (induction pr items budget first used "is" rule: keep_users.induct)
  case (2 pr items budget first used index rest)
  show ?case
  proof (cases "Some index = first")
    case True
    with "2.IH"(1) show ?thesis by simp
  next
    case False
    note IH = "2.IH"(2) [OF False refl]
    show ?thesis
      using IH False by (auto simp: Let_def chars_at_def add.assoc)
  qed
qed simp

lemma keep_users_subset: "set (keep_users pr items b f u is) \<subseteq> set is - set_option f"
  by (induction pr items b f u "is" rule: keep_users.induct) (auto simp: Let_def)

lemma keep_users_distinct: "distinct is \<Longrightarrow> distinct (keep_users pr items b f u is)"
  using keep_users_subset
  by (induction pr items b f u "is" rule: keep_users.induct) (fastforce simp: Let_def)+

text \<open>The kept messages in the order of the history; the first one, the task, is always among them.\<close>

lemma kept_user_indices_in_order:
  "sorted (kept_user_indices pr items t budget) \<and> distinct (kept_user_indices pr items t budget)"
proof (cases "plain_users items t")
  case (Cons first rest)
  have "first \<notin> set (keep_users pr items budget (Some first) u is)" for u "is"
    using keep_users_subset [of pr items budget "Some first"] by fastforce
  moreover have "distinct (keep_users pr items budget (Some first) u (rev (plain_users items t)))" for u
    by (rule keep_users_distinct) (simp add: plain_users_def)
  ultimately show ?thesis
    by (simp add: kept_user_indices_def Cons del: rev.simps sort_key_simps)
qed (simp add: kept_user_indices_def)

lemma plain_users_texts:
  "t \<le> length items \<Longrightarrow> map (\<lambda>i. items ! i) (plain_users items t) = filter is_plain_user (take t items)"
proof -
  assume t: "t \<le> length items"
  then have "take t items = map (\<lambda>i. items ! i) [0..<t]" by (intro nth_equalityI) auto
  then show ?thesis by (simp add: plain_users_def filter_map comp_def)
qed

lemma kept_users_subseq:
  assumes "t \<le> length items"
  shows "subseq (map (\<lambda>i. items ! i) (kept_user_indices pr items t budget)) (filter is_plain_user (take t items))"
proof -
  let ?kept = "kept_user_indices pr items t budget"
  have "i \<in> set ?kept \<Longrightarrow> i \<in> set (plain_users items t)" for i
    using kept_user_plain [of i pr items t budget] by (simp add: plain_users_def)
  then have "set ?kept = set (filter (\<lambda>i. i \<in> set ?kept) (plain_users items t))" by auto
  moreover have "sorted (filter (\<lambda>i. i \<in> set ?kept) (plain_users items t))"
    "distinct (filter (\<lambda>i. i \<in> set ?kept) (plain_users items t))"
    by (simp_all add: plain_users_def sorted_wrt_filter)
  ultimately have "?kept = filter (\<lambda>i. i \<in> set ?kept) (plain_users items t)"
    using kept_user_indices_in_order [of pr items t budget] by (metis sorted_distinct_set_unique)
  then have "subseq ?kept (plain_users items t)" by (metis subseq_filter_left)
  from subseq_map [OF this] show ?thesis by (simp only: plain_users_texts [OF assms, symmetric])
qed

lemma first_user_is_kept:
  assumes "t \<le> length items"
  shows "take 1 (map (\<lambda>i. items ! i) (kept_user_indices pr items t budget)) =
    take 1 (filter is_plain_user (take t items))"
proof (cases "plain_users items t")
  case Nil
  then show ?thesis by (simp add: kept_user_indices_def plain_users_texts [OF assms, symmetric])
next
  case (Cons first rest)
  let ?kept = "kept_user_indices pr items t budget"
  have first: "first \<in> set ?kept" by (simp add: kept_user_indices_def Cons set_insort_key)
  have least: "first \<le> i" if "i \<in> set ?kept" for i
  proof -
    have "i \<in> set (plain_users items t)"
      using kept_user_plain [OF that] by (simp add: plain_users_def)
    moreover have "sorted (plain_users items t)" by (simp add: plain_users_def sorted_wrt_filter)
    ultimately show ?thesis by (auto simp: Cons)
  qed
  obtain x xs where kept: "?kept = x # xs" using first by (cases ?kept) auto
  then have "x = first"
    using first least kept_user_indices_in_order [of pr items t budget]
    by (metis le_antisym list.set_intros(1) set_ConsD sorted_simps(2))
  then show ?thesis by (simp add: kept plain_users_texts [OF assms, symmetric] Cons)
qed

text \<open>A tail that starts at a unit holds the last assistant item.\<close>

lemma tail_has_last_assistant:
  assumes "sg_units (segments_of items) \<noteq> []"
  shows "last_assistant (drop (tail_start pr items (segments_of items) keep) items) = last_assistant items"
    and "last_assistant items \<noteq> None"
proof -
  let ?t = "tail_start pr items (segments_of items) keep"
  from tail_start_unit [OF assms, of pr items keep]
  obtain s e where u: "(s, e) \<in> set (sg_units (segments_of items))" "?t = s" by auto
  with segments_tiled [of items] assms have "unit_ok items (s, e)" by (blast dest: tiled_units)
  then obtain i where "s \<le> i" "i < length items" "is_assistant (items ! i)" by auto
  then have "items ! i = drop s items ! (i - s)" "i - s < length (drop s items)" by auto
  then have "items ! i \<in> set (drop s items)" by (simp only: nth_mem)
  with \<open>is_assistant (items ! i)\<close> have drop: "last_assistant (drop ?t items) \<noteq> None"
    by (auto simp: u(2) last_assistant_None simp del: not_None_eq)
  then show "last_assistant (drop ?t items) = last_assistant items"
    using last_assistant_append [of "take ?t items" "drop ?t items"] by (auto split: option.splits)
  with drop show "last_assistant items \<noteq> None" by simp
qed

lemma unresolved_prefix:
  "last_assistant ys \<noteq> None \<Longrightarrow>
    unresolved_calls_of_last_assistant (xs @ ys) = unresolved_calls_of_last_assistant ys"
  by (auto simp: unresolved_calls_of_last_assistant_def last_assistant_append)

section \<open>Properties\<close>

text \<open>Printers and an assistant item for the witnesses.\<close>

definition plain_printers :: printers where
  "plain_printers = \<lparr>debug_text = (\<lambda>s. s), json_text = (\<lambda>_. None)\<rparr>"

definition empty_answer :: item where
  "empty_answer = ItAssistant \<lparr>ai_origin = \<lparr>org_route = [], org_model = []\<rparr>, ai_blocks = []\<rparr>"

definition calling_answer :: item where
  "calling_answer = ItAssistant \<lparr>ai_origin = \<lparr>org_route = [], org_model = []\<rparr>,
     ai_blocks = [AbToolCall \<lparr>tc_call_id = [49], tc_name = [50], tc_input = TiText []\<rparr>]\<rparr>"

definition call_result :: item where
  "call_result = ItToolResult \<lparr>tr_call_id = [49], tr_name = [50], tr_status = StOk, tr_content = [51]\<rparr>"

text \<open>cutting a history never separates a tool call from its result: the units tile the history
  from the first assistant item to the last, each holds exactly one assistant item, and all results
  that follow that item are in the unit.\<close>

theorem segments_tile_the_history:
  "list_all (\<lambda>item. \<not> is_assistant item) (take (sg_prelude_end (segments_of items)) items) \<and>
    tiled items (sg_prelude_end (segments_of items)) (sg_units (segments_of items))"
  using segments_tiled [of items] by (auto simp: list_all_length)

text \<open>C33: whatever budgets are configured, a replacement built from a well-paired history is well paired:
  every call it holds is answered and every result follows its own call.\<close>

theorem replacement_is_paired:
  assumes "tight items" "answered items" "no_calls summary"
  shows "validate_replacement (build_replacement pr items
      (tail_start pr items (segments_of items) keep) budget summary) = Inr ()"
proof -
  let ?r = "build_replacement pr items (tail_start pr items (segments_of items) keep) budget summary"
  have "tight ?r" "answered ?r"
    using build_replacement_paired [OF assms(1,2) tail_start_boundary assms(3)] by simp_all
  then have "owned ?r" "answered_but_final ?r"
    by (auto intro: tight_owned answered_but_finalI)
  then show ?thesis by (simp add: validate_replacement_def validate_from_iff)
qed

lemma replacement_is_paired_witness:
  "validate_replacement (build_replacement plain_printers [ItUser [1], calling_answer, call_result]
    (tail_start plain_printers [ItUser [1], calling_answer, call_result]
      (segments_of [ItUser [1], calling_answer, call_result]) 0) 100 (ItUser [3])) = Inr ()"
  by (rule replacement_is_paired)
    (simp_all add: no_calls_def calling_answer_def call_result_def call_ids_def tool_calls_def map_filter_def)

text \<open>C34: the verbatim tail is the longest run of newest units that fits its budget, and never less than
  the last unit: every longer run is above the budget, every shorter one of two units or more below.\<close>

theorem tail_is_the_longest_that_fits:
  assumes "sg_units (segments_of items) \<noteq> []"
  shows "\<exists>k < length (sg_units (segments_of items)).
    tail_start pr items (segments_of items) keep = fst (sg_units (segments_of items) ! k) \<and>
    (\<forall>j. k \<le> j \<and> j < length (sg_units (segments_of items)) - 1 \<longrightarrow>
      span pr items (sg_units (segments_of items)) j \<le> keep) \<and>
    (\<forall>j < k. keep < span pr items (sg_units (segments_of items)) j)"
proof -
  let ?us = "sg_units (segments_of items)"
  define k where "k = grow_tail pr items ?us (snd (last ?us)) keep (length ?us - 1)"
  have k: "k < length ?us"
    using grow_tail_le [of pr items ?us "snd (last ?us)" keep "length ?us - 1"] assms
    by (cases ?us) (auto simp: k_def)
  have tiled: "tiled items (sg_prelude_end (segments_of items)) ?us"
    using segments_tiled [of items] by auto
  have "keep < span pr items ?us j" if "j < k" for j
  proof -
    have "keep < span pr items ?us (k - 1)"
      using grow_tail_stops [of pr items ?us keep "length ?us - 1"] that unfolding k_def by simp
    also have "\<dots> \<le> span pr items ?us j"
      by (rule span_antimono [OF tiled]) (use that k in auto)
    finally show ?thesis .
  qed
  moreover have "span pr items ?us j \<le> keep" if "k \<le> j" "j < length ?us - 1" for j
    using grow_tail_fits that unfolding k_def by blast
  ultimately show ?thesis
    using k assms by (intro exI [of _ k]) (auto simp: tail_start_def k_def)
qed

lemma tail_is_the_longest_that_fits_witness:
  "\<exists>k < length (sg_units (segments_of [empty_answer])).
    tail_start plain_printers [empty_answer] (segments_of [empty_answer]) 9 =
      fst (sg_units (segments_of [empty_answer]) ! k)"
proof -
  have "sg_units (segments_of [empty_answer]) \<noteq> []"
    by (simp add: segments_of_def units_from.simps Let_def empty_answer_def)
  from tail_is_the_longest_that_fits [OF this, of plain_printers 9] show ?thesis by blast
qed

text \<open>The first user message, the task, survives every summarization, and the user messages kept
  beside it fit the budget, in the order of the history and none twice.\<close>

theorem task_message_is_kept:
  assumes "plain_users items t = first # rest"
  shows "first \<in> set (kept_user_indices pr items t budget) \<and>
    sorted (kept_user_indices pr items t budget) \<and> distinct (kept_user_indices pr items t budget) \<and>
    (kept_user_indices pr items t budget = [first] \<or>
      ceil_tokens (chars_at pr items (kept_user_indices pr items t budget)) \<le> budget)"
proof -
  let ?kept = "keep_users pr items budget (Some first) (item_chars pr (items ! first)) (rev (plain_users items t))"
  have kept: "kept_user_indices pr items t budget = sort (first # ?kept)"
    by (simp add: kept_user_indices_def assms)
  have "first \<notin> set ?kept" using keep_users_subset [of pr items budget "Some first"] by fastforce
  moreover have "distinct ?kept"
    by (rule keep_users_distinct) (simp add: plain_users_def)
  moreover have "chars_at pr items (sort (first # ?kept)) = item_chars pr (items ! first) + chars_at pr items ?kept"
    by (simp only: chars_at_def sum_mset_sum_list [symmetric] mset_map mset_sort)
      (simp add: sum_mset_sum_list)
  moreover have "sort [first] = [first]" by simp
  ultimately show ?thesis
    unfolding kept
    using keep_users_budget [of pr items budget "Some first" "item_chars pr (items ! first)" "rev (plain_users items t)"]
    by (auto simp del: sort_key_simps)
qed


lemma task_message_is_kept_witness:
  "0 \<in> set (kept_user_indices plain_printers [ItUser [1], ItUser [2]] 2 5)"
proof -
  have "plain_users [ItUser [1], ItUser [2]] 2 = [0, 1]"
    by (simp add: plain_users_def upt_rec is_plain_user_def starts_with_def summary_marker_def lit_def)
  from task_message_is_kept [OF this, of plain_printers 5] show ?thesis by blast
qed

end
