(* ===== verification/ContextRender.thy ===== *)
theory ContextRender
  imports ContextPlan
begin

text \<open>
  The transcript handed to the summarizer (\<open>crates/p1-context/src/render.rs\<close>): the block of each
  item, and the loop that drops the oldest blocks until the transcript fits its budget. The lemmas
  relate the character count the loop computes to the text it assembles.
\<close>

section \<open>Blocks\<close>

definition input_excerpt_chars :: nat where "input_excerpt_chars = 500"

definition reasoning_prefix :: ustring where "reasoning_prefix = lit ''Reasoning (excerpt): ''"

definition max_block_chars :: nat where "max_block_chars = 64 * 1024"

definition first_chars :: "ustring \<Rightarrow> nat \<Rightarrow> ustring" where
  "first_chars t limit = take limit t"

definition excerpt :: "ustring \<Rightarrow> nat \<Rightarrow> ustring" where
  "excerpt t limit =
     (let total = length t in
      if total \<le> limit then t
      else let head = limit div 2; tail = limit - head; omitted = total - limit
        in take head t @ [10, 91, 8230, 32] @ dec omitted @ lit '' chars omitted '' @ [8230, 93, 10] @
           drop (total - tail) t)"

fun status_name :: "tool_status \<Rightarrow> ustring" where
  "status_name StOk = lit ''ok''"
| "status_name StError = lit ''error''"
| "status_name StUnavailable = lit ''unavailable''"
| "status_name StDenied = lit ''denied''"
| "status_name StCancelled = lit ''cancelled''"
| "status_name StUnknown = lit ''unknown''"

text \<open>The loop over the blocks of one assistant item; \<open>used\<close> counts the characters so far.\<close>

fun assistant_parts :: "nat \<Rightarrow> nat \<Rightarrow> nat \<Rightarrow> assistant_block list \<Rightarrow> ustring list" where
  "assistant_parts reasoning_chars text_limit used [] = []"
| "assistant_parts reasoning_chars text_limit used (inner # rest) =
     (if text_limit \<le> used then []
      else case inner of
        AbReasoning t replay \<Rightarrow>
          if 0 < reasoning_chars \<and> t \<noteq> [] then
            let part = first_chars (reasoning_prefix @ excerpt t reasoning_chars) (text_limit - used)
            in part # assistant_parts reasoning_chars text_limit (used + length part) rest
          else assistant_parts reasoning_chars text_limit used rest
      | AbText t \<Rightarrow>
          let part = first_chars t (text_limit - used)
          in part # assistant_parts reasoning_chars text_limit (used + length part) rest
      | AbToolCall c \<Rightarrow>
          let part = [8594, 32] @ tc_name c @ lit ''('' @
            first_chars (ti_raw (tc_input c)) input_excerpt_chars @ lit '')''
          in part # assistant_parts reasoning_chars text_limit (used + length part) rest)"

fun render_block :: "printers \<Rightarrow> item \<Rightarrow> nat \<Rightarrow> nat \<Rightarrow> nat \<Rightarrow> ustring" where
  "render_block pr (ItUser t) excerpt_chars reasoning_chars text_limit =
     lit ''## User'' @ newline @ first_chars t text_limit"
| "render_block pr (ItUserContent bs) excerpt_chars reasoning_chars text_limit =
     lit ''## User'' @ newline @ first_chars (text_projection pr bs) text_limit"
| "render_block pr (ItInbox Notification t) excerpt_chars reasoning_chars text_limit =
     lit ''## Notification'' @ newline @ first_chars t text_limit"
| "render_block pr (ItInbox Steering t) excerpt_chars reasoning_chars text_limit =
     lit ''## Steering'' @ newline @ first_chars t text_limit"
| "render_block pr (ItAssistant a) excerpt_chars reasoning_chars text_limit =
     (let parts = assistant_parts reasoning_chars text_limit 0 (ai_blocks a)
      in if parts = [] then lit ''## Assistant'' else lit ''## Assistant'' @ newline @ join_with newline parts)"
| "render_block pr (ItToolResult r) excerpt_chars reasoning_chars text_limit =
     lit ''## Result of '' @ tr_name r @ lit '' ['' @ status_name (tr_status r) @ lit '']'' @ newline @
     excerpt (tr_content r) excerpt_chars"

text \<open>\<open>strip_prefix(SUMMARY_MARKER)\<close>, then an optional newline.\<close>

definition summary_body :: "ustring \<Rightarrow> ustring" where
  "summary_body t =
     (case strip_prefix summary_marker t of
        None \<Rightarrow> t
      | Some rest \<Rightarrow> (case strip_prefix newline rest of None \<Rightarrow> rest | Some r \<Rightarrow> r))"

definition summary_heading :: ustring where
  "summary_heading = lit ''## Previous summary'' @ newline"

fun summary_block :: "item \<Rightarrow> ustring" where
  "summary_block (ItUser t) = summary_heading @ summary_body t"
| "summary_block _ = []"

section \<open>The transcript\<close>

definition per_item_limit :: "nat \<Rightarrow> nat" where
  "per_item_limit budget_tokens = max (sat_add64 (sat_mul64 budget_tokens 7 div 2) 1) max_block_chars"

definition omission_line :: "nat \<Rightarrow> ustring" where
  "omission_line dropped = lit ''['' @ dec dropped @
     lit '' earlier items omitted: the session was too long to summarize in one pass]''"

definition blank_line :: ustring where "blank_line = newline @ newline"

definition assemble_blocks :: "ustring list \<Rightarrow> ustring list \<Rightarrow> nat \<Rightarrow> ustring" where
  "assemble_blocks summaries others dropped =
     join_with blank_line (summaries @ (if 0 < dropped then [omission_line dropped] else []) @ drop dropped others)"

text \<open>The character count of the loop for \<open>dropped\<close> blocks left out.\<close>

definition counted_chars :: "ustring list \<Rightarrow> ustring list \<Rightarrow> nat \<Rightarrow> nat \<Rightarrow> nat \<Rightarrow> nat" where
  "counted_chars summaries others summary_chars other_chars dropped =
     (let blocks = length summaries + length others - dropped + (if 0 < dropped then 1 else 0);
          omission_chars = (if 0 < dropped then length (omission_line dropped) else 0)
      in summary_chars + other_chars + omission_chars + 2 * (blocks - 1))"

text \<open>The loop of \<open>transcript\<close> over the lengths of the blocks: the first count that fits.\<close>

fun first_fit :: "ustring list \<Rightarrow> ustring list \<Rightarrow> nat \<Rightarrow> nat \<Rightarrow> nat \<Rightarrow> nat \<Rightarrow> nat list \<Rightarrow> nat option" where
  "first_fit summaries others summary_chars other_chars budget dropped [] = None"
| "first_fit summaries others summary_chars other_chars budget dropped (len # lens) =
     (if ceil_tokens (counted_chars summaries others summary_chars other_chars dropped) \<le> budget then Some dropped
      else first_fit summaries others summary_chars (other_chars - len) budget (Suc dropped) lens)"

definition summary_blocks :: "item list \<Rightarrow> ustring list" where
  "summary_blocks items = map summary_block (filter is_summary_item items)"

definition other_blocks :: "printers \<Rightarrow> item list \<Rightarrow> nat \<Rightarrow> nat \<Rightarrow> nat \<Rightarrow> ustring list" where
  "other_blocks pr items excerpt_chars reasoning_chars text_limit =
     map (\<lambda>it. render_block pr it excerpt_chars reasoning_chars text_limit)
       (filter (\<lambda>it. \<not> is_summary_item it) items)"

definition transcript :: "printers \<Rightarrow> item list \<Rightarrow> nat \<Rightarrow> nat \<Rightarrow> nat \<Rightarrow> ustring" where
  "transcript pr items excerpt_chars reasoning_chars budget =
     (let summaries = summary_blocks items;
          others = other_blocks pr items excerpt_chars reasoning_chars (per_item_limit budget);
          lengths = map length others;
          summary_chars = sum_list (map length summaries)
      in case first_fit summaries others summary_chars (sum_list lengths) budget 0 lengths of
           Some dropped \<Rightarrow> assemble_blocks summaries others dropped
         | None \<Rightarrow>
             (let omitted = assemble_blocks summaries others (length others)
              in if ceil_tokens (length omitted) \<le> budget then omitted
                 else join_with blank_line summaries))"

definition mandatory_chars :: "item list \<Rightarrow> nat" where
  "mandatory_chars items =
     sum_list (map (\<lambda>it. case it of
        ItUser t \<Rightarrow> length (summary_body t) + length summary_heading
      | _ \<Rightarrow> 0) (filter is_summary_item items))"

definition checked_transcript :: "printers \<Rightarrow> item list \<Rightarrow> nat \<Rightarrow> nat \<Rightarrow> nat \<Rightarrow> ustring + ustring" where
  "checked_transcript pr items excerpt_chars reasoning_chars budget =
     (if budget < ceil_tokens (mandatory_chars items) then
        Inl (lit ''previous summary exceeds the summarizer transcript budget'')
      else let rendered = transcript pr items excerpt_chars reasoning_chars budget
        in if budget < ceil_tokens (length rendered) then
             Inl (lit ''the summarizer transcript cannot fit the budget'')
           else Inr rendered)"

section \<open>The count of the loop is the length of the text\<close>

lemma sum_drop: "n \<le> length xs \<Longrightarrow> sum_list (drop n xs) = sum_list xs - sum_list (take n (xs :: nat list))"
  by (metis add_diff_cancel_left' append_take_drop_id sum_list.append)

lemma counted_is_length:
  assumes "dropped \<le> length others"
  shows "counted_chars summaries others (sum_list (map length summaries))
      (sum_list (map length (drop dropped others))) dropped = length (assemble_blocks summaries others dropped)"
proof (cases "dropped = 0")
  case True
  then show ?thesis
    by (simp add: counted_chars_def assemble_blocks_def length_join_with blank_line_def newline_def)
next
  case False
  with assms have "2 * (length summaries + length others - dropped + 1 - 1) =
      2 * (length summaries + (1 + (length others - dropped)) - 1)" by simp
  with False show ?thesis
    by (simp add: counted_chars_def assemble_blocks_def length_join_with blank_line_def newline_def)
qed

lemma first_fit_rest:
  assumes "dropped + length lens = length others" "lens = drop dropped (map length others)"
  shows "case first_fit summaries others (sum_list (map length summaries)) (sum_list lens) budget dropped lens of
      Some d \<Rightarrow> dropped \<le> d \<and> d < length others \<and>
        ceil_tokens (length (assemble_blocks summaries others d)) \<le> budget \<and>
        (\<forall>k. dropped \<le> k \<and> k < d \<longrightarrow> budget < ceil_tokens (length (assemble_blocks summaries others k)))
    | None \<Rightarrow> \<forall>k. dropped \<le> k \<and> k < length others \<longrightarrow>
        budget < ceil_tokens (length (assemble_blocks summaries others k))"
  using assms
proof (induction lens arbitrary: dropped)
  case (Cons len lens)
  let ?count = "counted_chars summaries others (sum_list (map length summaries)) (sum_list (len # lens)) dropped"
  have count: "?count = length (assemble_blocks summaries others dropped)"
    using Cons.prems counted_is_length [of dropped others summaries] by (simp add: drop_map)
  have next_lens: "lens = drop (Suc dropped) (map length others)"
    using Cons.prems(2) by (metis drop_Suc list.sel(3) tl_drop)
  show ?case
  proof (cases "ceil_tokens ?count \<le> budget")
    case True
    with count Cons.prems(1) show ?thesis by (simp add: not_le)
  next
    case False
    then have step: "first_fit summaries others (sum_list (map length summaries)) (sum_list (len # lens)) budget
        dropped (len # lens) =
        first_fit summaries others (sum_list (map length summaries)) (sum_list lens) budget (Suc dropped) lens"
      by simp
    from False have "budget < ceil_tokens (length (assemble_blocks summaries others dropped))"
      using count by simp
    then have here: "budget < ceil_tokens (length (assemble_blocks summaries others dropped))" .
    note IH = Cons.IH [of "Suc dropped", OF _ next_lens]
    show ?thesis
    proof (cases "first_fit summaries others (sum_list (map length summaries)) (sum_list lens) budget (Suc dropped) lens")
      case None
      with IH Cons.prems(1) here show ?thesis
        unfolding step by (auto simp: Suc_le_eq) (metis le_neq_implies_less)
    next
      case (Some d)
      with IH Cons.prems(1) here show ?thesis
        unfolding step by (auto simp: Suc_le_eq) (metis le_neq_implies_less)
    qed
  qed
qed simp

section \<open>Properties\<close>

text \<open>C35: the transcript leaves out as little as it can: it drops a block only when the transcript with
  that block is above the budget, and the oldest blocks first; if something fits, the result fits.\<close>

theorem transcript_drops_the_fewest:
  assumes "others = other_blocks pr items ec rc (per_item_limit budget)"
    and "d < length others \<and> ceil_tokens (length (assemble_blocks (summary_blocks items) others d)) \<le> budget"
  shows "\<exists>k \<le> d. transcript pr items ec rc budget = assemble_blocks (summary_blocks items) others k \<and>
    ceil_tokens (length (transcript pr items ec rc budget)) \<le> budget \<and>
    (\<forall>j < k. budget < ceil_tokens (length (assemble_blocks (summary_blocks items) others j)))"
proof -
  note fit = first_fit_rest [of 0 "map length others" others budget "summary_blocks items"]
  show ?thesis
  proof (cases "first_fit (summary_blocks items) others (sum_list (map length (summary_blocks items)))
      (sum_list (map length others)) budget 0 (map length others)")
    case None
    with fit assms(2) show ?thesis by (auto simp: not_le [symmetric])
  next
    case (Some k)
    with fit have k: "ceil_tokens (length (assemble_blocks (summary_blocks items) others k)) \<le> budget"
      "\<forall>j < k. budget < ceil_tokens (length (assemble_blocks (summary_blocks items) others j))"
      by auto
    have "transcript pr items ec rc budget = assemble_blocks (summary_blocks items) others k"
      using Some by (simp add: transcript_def Let_def assms(1) [symmetric])
    moreover have "k \<le> d" using k(2) assms(2) by (meson not_le)
    ultimately show ?thesis using k by auto
  qed
qed

definition one_user :: "item list" where
  "one_user = [ItUser [65]]"

lemma one_user_blocks: "summary_blocks one_user = []"
    "other_blocks plain_printers one_user 9 9 (per_item_limit 100) = [lit ''## User'' @ newline @ [65]]"
  by (simp_all add: one_user_def summary_blocks_def other_blocks_def starts_with_def summary_marker_def lit_def
      first_chars_def per_item_limit_def max_block_chars_def take_Cons')

lemma transcript_drops_the_fewest_witness:
  "transcript plain_printers one_user 9 9 100 = lit ''## User'' @ newline @ [65]"
proof -
  have "ceil_tokens (length (assemble_blocks (summary_blocks one_user)
      [lit ''## User'' @ newline @ [65]] 0)) \<le> 100"
    by (simp add: one_user_blocks assemble_blocks_def lit_def newline_def ceil_tokens_def sat_add64_def
        sat_mul64_def u64_max_def)
  with transcript_drops_the_fewest [OF one_user_blocks(2) [symmetric], of 0]
  have "transcript plain_printers one_user 9 9 100 =
      assemble_blocks (summary_blocks one_user) [lit ''## User'' @ newline @ [65]] 0" by auto
  then show ?thesis by (simp add: one_user_blocks assemble_blocks_def)
qed

text \<open>Rendering fails for one reason only: with at most one previous summary in the history, a
  transcript is refused exactly when that summary alone is above the budget.\<close>

theorem transcript_refused_only_for_the_summary:
  assumes "length (filter is_summary_item items) \<le> 1"
  shows "(\<exists>m. checked_transcript pr items ec rc budget = Inl m) \<longleftrightarrow> budget < ceil_tokens (mandatory_chars items)"
proof (cases "budget < ceil_tokens (mandatory_chars items)")
  case True
  then show ?thesis by (simp add: checked_transcript_def)
next
  case False
  let ?others = "other_blocks pr items ec rc (per_item_limit budget)"
  have "length (join_with blank_line (summary_blocks items)) = mandatory_chars items"
  proof (cases "filter is_summary_item items")
    case Nil
    then show ?thesis by (simp add: summary_blocks_def mandatory_chars_def)
  next
    case (Cons it rest)
    with assms have "rest = []" by simp
    moreover have "is_summary_item it" using Cons by (metis filter_eq_ConsD)
    then obtain t where "it = ItUser t" by (cases it) auto
    ultimately show ?thesis using Cons by (simp add: summary_blocks_def mandatory_chars_def)
  qed
  with False have summaries: "ceil_tokens (length (join_with blank_line (summary_blocks items))) \<le> budget"
    by simp
  note fit = first_fit_rest [of 0 "map length ?others" ?others budget "summary_blocks items"]
  have "ceil_tokens (length (transcript pr items ec rc budget)) \<le> budget"
  proof (cases "first_fit (summary_blocks items) ?others (sum_list (map length (summary_blocks items)))
      (sum_list (map length ?others)) budget 0 (map length ?others)")
    case None
    with summaries show ?thesis by (simp add: transcript_def Let_def)
  next
    case (Some k)
    with fit show ?thesis by (simp add: transcript_def Let_def)
  qed
  with False show ?thesis by (simp add: checked_transcript_def Let_def)
qed

lemma transcript_refused_only_for_the_summary_witness:
  "\<not> (\<exists>m. checked_transcript plain_printers one_user 9 9 100 = Inl m)"
proof -
  have "length (filter is_summary_item one_user) \<le> 1" by (simp add: one_user_def)
  from transcript_refused_only_for_the_summary [OF this, of plain_printers 9 9 100] show ?thesis
    by (simp add: one_user_def mandatory_chars_def starts_with_def summary_marker_def lit_def ceil_tokens_def
        sat_add64_def sat_mul64_def)
qed

end
