(* ===== verification/ContextEngine.thy ===== *)
theory ContextEngine
  imports ContextRender
begin

text \<open>
  The decisions of the summarizing context policy (\<open>crates/p1-context/src/engine.rs\<close>), which sends
  nothing itself: a call answers, or names the summary request to send and takes what came back. The
  trait \<open>Goal\<close> is a record of its two functions, with one value for the threshold path and one for a
  manual compaction. Token counts of a provider are \<open>u64\<close> values added with the wrap-around of the
  release build.
\<close>

section \<open>Requests, goals and steps\<close>

record summary_request =
  sq_transcript :: ustring
  sq_max_output_tokens :: "nat option"

datatype summarized = SdReplacement prepared | SdNothingToSummarize | SdFailed ustring

record 'o goal =
  gl_finish :: "summarized \<Rightarrow> 'o"
  gl_cancelled :: 'o

record caps =
  cp_summary_output_tokens :: nat
  cp_agent_max_output_tokens :: "nat option"

record 'o summarization =
  sm_goal :: "'o goal"
  sm_history :: "item list"
  sm_segments :: segments
  sm_keep_recent_tokens :: nat
  sm_user_verbatim_tokens :: nat
  sm_wall :: nat
  sm_excerpt_chars :: nat
  sm_reasoning_chars :: nat
  sm_tail_start :: nat
  sm_summarize_at_tokens :: nat
  sm_request :: summary_request
  sm_limit :: nat
  sm_capped :: bool
  sm_attempts :: nat
  sm_usage :: "usage option"

datatype 'o step = Summarize "'o summarization" | Done 'o

section \<open>The two goals\<close>

definition full_context_message :: "nat \<Rightarrow> nat \<Rightarrow> ustring" where
  "full_context_message next_input wal =
     lit ''context is full ('' @ dec next_input @ lit '' of '' @ dec wal @ lit '' tokens) and ''"

definition failure_at_wall :: "nat \<Rightarrow> nat \<Rightarrow> ustring \<Rightarrow> context_error + prepared option" where
  "failure_at_wall next_input wal reason =
     (if next_input < wal then Inr None
      else Inl (CeFailed (full_context_message next_input wal @ lit ''summarizing failed: '' @ reason)))"

definition nothing_to_summarize :: "nat \<Rightarrow> nat \<Rightarrow> context_error + prepared option" where
  "nothing_to_summarize next_input wal =
     (if next_input < wal then Inr None
      else Inl (CeFailed (full_context_message next_input wal @ lit ''nothing is left to summarize'')))"

fun prepare_finish :: "nat \<Rightarrow> nat \<Rightarrow> summarized \<Rightarrow> context_error + prepared option" where
  "prepare_finish next_input wal (SdReplacement p) = Inr (Some p)"
| "prepare_finish next_input wal SdNothingToSummarize = nothing_to_summarize next_input wal"
| "prepare_finish next_input wal (SdFailed reason) = failure_at_wall next_input wal reason"

definition prepare_goal :: "nat \<Rightarrow> nat \<Rightarrow> (context_error + prepared option) goal" where
  "prepare_goal next_input wal =
     \<lparr>gl_finish = prepare_finish next_input wal, gl_cancelled = Inl CeCancelled\<rparr>"

fun compact_finish :: "printers \<Rightarrow> nat \<Rightarrow> summarized \<Rightarrow> context_error + compaction" where
  "compact_finish pr tokens (SdReplacement p) = Inr (CpReplaced p tokens (estimate_tokens pr (pp_items p)))"
| "compact_finish pr tokens SdNothingToSummarize = Inr (CpUnchanged tokens)"
| "compact_finish pr tokens (SdFailed reason) = Inl (CeFailed (lit ''summarizing failed: '' @ reason))"

definition compact_goal :: "printers \<Rightarrow> nat \<Rightarrow> (context_error + compaction) goal" where
  "compact_goal pr tokens = \<lparr>gl_finish = compact_finish pr tokens, gl_cancelled = Inl CeCancelled\<rparr>"

section \<open>Usage\<close>

definition sum_part :: "nat option \<Rightarrow> nat option \<Rightarrow> nat option" where
  "sum_part x y = (case (x, y) of (Some a, Some b) \<Rightarrow> Some (add64 a b) | _ \<Rightarrow> None)"

definition sum_usage :: "usage option \<Rightarrow> usage option \<Rightarrow> usage option" where
  "sum_usage first second =
     (case (first, second) of
        (Some a, Some b) \<Rightarrow> Some \<lparr>
          us_input_uncached = sum_part (us_input_uncached a) (us_input_uncached b),
          us_cache_read = sum_part (us_cache_read a) (us_cache_read b),
          us_cache_write = sum_part (us_cache_write a) (us_cache_write b),
          us_output = sum_part (us_output a) (us_output b),
          us_reasoning_output = sum_part (us_reasoning_output a) (us_reasoning_output b),
          us_cost_micro_usd = sum_part (us_cost_micro_usd a) (us_cost_micro_usd b)\<rparr>
      | _ \<Rightarrow> None)"

definition or_zero :: "nat option \<Rightarrow> nat" where
  "or_zero x = (case x of None \<Rightarrow> 0 | Some n \<Rightarrow> n)"

definition next_input :: "printers \<Rightarrow> item list \<Rightarrow> usage option \<Rightarrow> nat" where
  "next_input pr history last_usage =
     (case last_usage of
        None \<Rightarrow> estimate_tokens pr history
      | Some u \<Rightarrow>
          (case (us_input_uncached u, us_output u) of
             (Some uncached, Some out) \<Rightarrow>
               (let known = add64 (add64 (add64 uncached (or_zero (us_cache_read u))) (or_zero (us_cache_write u))) out;
                    added = (case last_assistant history of None \<Rightarrow> history | Some (_, later) \<Rightarrow> later)
                in add64 known (estimate_tokens pr added))
           | _ \<Rightarrow> estimate_tokens pr history))"

section \<open>Trimming old results\<close>

fun trim_result :: "nat \<Rightarrow> item \<Rightarrow> item option" where
  "trim_result limit (ItToolResult r) =
     (if ends_with trim_marker (tr_content r) \<or> length (tr_content r) \<le> limit then None
      else let shortened = excerpt (tr_content r) limit @ newline @ trim_marker
        in if length (tr_content r) \<le> length shortened then None
           else Some (ItToolResult (r\<lparr>tr_content := shortened\<rparr>)))"
| "trim_result limit _ = None"

definition trim_item :: "nat \<Rightarrow> item \<Rightarrow> item" where
  "trim_item limit it = (case trim_result limit it of None \<Rightarrow> it | Some it' \<Rightarrow> it')"

definition trim_old_results :: "printers \<Rightarrow> context_config \<Rightarrow> item list \<Rightarrow> item list option" where
  "trim_old_results pr cfg history =
     (let t = tail_start pr history (segments_of history) (cc_keep_recent_tokens cfg);
          limit = cc_tool_result_excerpt_chars cfg
      in if list_all (\<lambda>it. trim_result limit it = None) (take t history) then None
         else Some (map (trim_item limit) (take t history) @ drop t history))"

section \<open>One summarization\<close>

definition has_material :: "item list \<Rightarrow> nat \<Rightarrow> segments \<Rightarrow> bool" where
  "has_material history t sg =
     list_ex (\<lambda>i. \<not> in_tail_unit i t sg \<and> \<not> is_summary_item (history ! i)) [0..<length history]"

definition summarize :: "printers \<Rightarrow> context_config \<Rightarrow> caps \<Rightarrow> item list \<Rightarrow> 'o goal \<Rightarrow> 'o step" where
  "summarize pr cfg caps history goal =
     (let wal = wall cfg;
          sg = segments_of history;
          t = tail_start pr history sg (cc_keep_recent_tokens cfg)
      in if \<not> has_material history t sg then Done (gl_finish goal SdNothingToSummarize)
         else let cap = cp_summary_output_tokens caps; limit = clamp32 cap
           in case checked_transcript pr (take t history) (cc_tool_result_excerpt_chars cfg)
                (cc_reasoning_excerpt_chars cfg) (sat_sub wal cap) of
                Inl reason \<Rightarrow> Done (gl_finish goal (SdFailed reason))
              | Inr text \<Rightarrow> Summarize \<lparr>
                  sm_goal = goal, sm_history = history, sm_segments = sg,
                  sm_keep_recent_tokens = cc_keep_recent_tokens cfg,
                  sm_user_verbatim_tokens = cc_user_verbatim_tokens cfg, sm_wall = wal,
                  sm_excerpt_chars = cc_tool_result_excerpt_chars cfg,
                  sm_reasoning_chars = cc_reasoning_excerpt_chars cfg, sm_tail_start = t,
                  sm_summarize_at_tokens = cc_summarize_at_tokens cfg,
                  sm_request = \<lparr>sq_transcript = text,
                    sq_max_output_tokens = Some (min (case cp_agent_max_output_tokens caps of
                      None \<Rightarrow> limit | Some n \<Rightarrow> n) limit)\<rparr>,
                  sm_limit = limit, sm_capped = True, sm_attempts = 0, sm_usage = None\<rparr>)"

definition prepare_step ::
    "printers \<Rightarrow> context_config \<Rightarrow> caps \<Rightarrow> item list \<Rightarrow> usage option \<Rightarrow> (context_error + prepared option) step" where
  "prepare_step pr cfg caps history last_usage =
     (if history = [] then Done (Inr None)
      else let wal = wall cfg; input = next_input pr history last_usage;
          trimmed = (case cc_trim_at_tokens cfg of
              None \<Rightarrow> None
            | Some trim_at \<Rightarrow> if trim_at \<le> input then trim_old_results pr cfg history else None);
          enough = (case trimmed of
              None \<Rightarrow> False
            | Some items \<Rightarrow> sat_sub input (sat_sub (estimate_tokens pr history) (estimate_tokens pr items))
                < cc_summarize_at_tokens cfg)
        in if enough then Done (Inr (Some \<lparr>pp_items = the trimmed, pp_usage = None\<rparr>))
           else if input < cc_summarize_at_tokens cfg then Done (Inr None)
           else summarize pr cfg caps history (prepare_goal input wal))"

definition compact_step ::
    "printers \<Rightarrow> context_config \<Rightarrow> caps \<Rightarrow> item list \<Rightarrow> (context_error + compaction) step" where
  "compact_step pr cfg caps history =
     (let tokens = estimate_tokens pr history;
          sg = segments_of history;
          t = tail_start pr history sg (cc_keep_recent_tokens cfg)
      in if t \<le> sg_prelude_end sg then Done (Inr (CpUnchanged tokens))
         else summarize pr cfg caps history (compact_goal pr tokens))"

section \<open>What came back\<close>

definition fail_step :: "ustring \<Rightarrow> 'o summarization \<Rightarrow> 'o step" where
  "fail_step reason sm = Done (gl_finish (sm_goal sm) (SdFailed reason))"

text \<open>\<open>refused\<close>: the first request is retried once without its cap.\<close>

definition refused :: "ustring \<Rightarrow> 'o summarization \<Rightarrow> 'o step" where
  "refused reason sm =
     (if sm_attempts sm = 0 \<and> sm_capped sm \<and> sq_max_output_tokens (sm_request sm) \<noteq> None then
        Summarize (sm\<lparr>sm_request := (sm_request sm)\<lparr>sq_max_output_tokens := None\<rparr>, sm_capped := False\<rparr>)
      else fail_step reason sm)"

text \<open>The loop of \<open>accept\<close>: halve the tail's budget, at most \<open>n\<close> times.\<close>

fun shrink_tail :: "printers \<Rightarrow> 'o summarization \<Rightarrow> item \<Rightarrow> nat \<Rightarrow> nat \<Rightarrow> nat \<Rightarrow> item list \<Rightarrow> nat \<times> item list" where
  "shrink_tail pr sm summary 0 keep t items = (t, items)"
| "shrink_tail pr sm summary (Suc n) keep t items =
     (if sm_summarize_at_tokens sm \<le> estimate_tokens pr items \<and> 1 < tail_units (sm_segments sm) t then
        let keep' = keep div 2;
            t' = tail_start pr (sm_history sm) (sm_segments sm) keep';
            items' = build_replacement pr (sm_history sm) t' (sm_user_verbatim_tokens sm) summary
        in shrink_tail pr sm summary n keep' t' items'
      else (t, items))"

definition summary_item :: "ustring \<Rightarrow> item" where
  "summary_item answer = ItUser (summary_marker @ newline @ answer)"

definition accept_answer :: "printers \<Rightarrow> ustring \<Rightarrow> 'o summarization \<Rightarrow> 'o step" where
  "accept_answer pr answer sm =
     (if answer = [] then fail_step (lit ''the summarization produced an empty answer'') sm
      else let summary = summary_item answer;
          keep = sm_keep_recent_tokens sm;
          t = tail_start pr (sm_history sm) (sm_segments sm) keep;
          items = build_replacement pr (sm_history sm) t (sm_user_verbatim_tokens sm) summary;
          result = shrink_tail pr sm summary 3 keep t items
        in if sm_summarize_at_tokens sm \<le> estimate_tokens pr (snd result) \<and>
              1 < tail_units (sm_segments sm) (fst result) then
             fail_step (lit ''the replacement did not fit below summarize_at_tokens'') sm
           else Done (gl_finish (sm_goal sm) (SdReplacement \<lparr>pp_items = snd result, pp_usage = sm_usage sm\<rparr>)))"

fun stop_name :: "stop_reason \<Rightarrow> ustring" where
  "stop_name SrEndTurn = lit ''EndTurn''"
| "stop_name SrToolUse = lit ''ToolUse''"
| "stop_name SrMaxOutputTokens = lit ''MaxOutputTokens''"
| "stop_name SrContextWindowExceeded = lit ''ContextWindowExceeded''"
| "stop_name SrRefusal = lit ''Refusal''"
| "stop_name SrPaused = lit ''Paused''"
| "stop_name SrOther = lit ''Other''"

text \<open>The one retry of a truncated summary: the cap doubled, the transcript rendered to what is left.\<close>

definition retry_doubled :: "printers \<Rightarrow> 'o summarization \<Rightarrow> 'o step" where
  "retry_doubled pr sm =
     (let sent = (case sq_max_output_tokens (sm_request sm) of None \<Rightarrow> sm_limit sm | Some n \<Rightarrow> n);
          doubled = min (sat_mul32 sent 2) (clamp32 (sm_wall sm));
          again = (\<lambda>text. Summarize (sm\<lparr>sm_request := \<lparr>sq_transcript = text, sq_max_output_tokens = Some doubled\<rparr>\<rparr>))
      in if doubled < sm_wall sm then
           (case checked_transcript pr (take (sm_tail_start sm) (sm_history sm)) (sm_excerpt_chars sm)
               (sm_reasoning_chars sm) (sm_wall sm - doubled) of
              Inl reason \<Rightarrow> fail_step reason sm
            | Inr text \<Rightarrow> again text)
         else again (sq_transcript (sm_request sm)))"

definition completed :: "printers \<Rightarrow> ustring \<Rightarrow> stop_reason \<Rightarrow> usage option \<Rightarrow> 'o summarization \<Rightarrow> 'o step" where
  "completed pr text stop usage sm0 =
     (let attempts = sm_attempts sm0 + 1;
          sm = sm0\<lparr>sm_attempts := attempts,
            sm_usage := (if attempts = 1 then usage else sum_usage (sm_usage sm0) usage)\<rparr>
      in case stop of
           SrEndTurn \<Rightarrow> accept_answer pr text sm
         | SrMaxOutputTokens \<Rightarrow>
             (if attempts = 1 \<and> sm_capped sm then retry_doubled pr sm
              else if \<not> sm_capped sm then
                fail_step (lit ''the summary was truncated and the route carries no cap to double'') sm
              else fail_step (lit ''the summary was truncated twice'') sm)
         | _ \<Rightarrow> fail_step (lit ''the summary stopped before the end ('' @ stop_name stop @ lit '')'') sm)"

section \<open>What a summarization can end in\<close>

text \<open>
  A replacement is built at the start of the tail for the configured budget, halved \<open>k\<close> times, and is
  below the threshold or as short as the rules allow (a tail of one unit); no tail of an earlier
  round was.
\<close>

abbreviation tail_after :: "printers \<Rightarrow> item list \<Rightarrow> nat \<Rightarrow> nat \<Rightarrow> nat" where
  "tail_after pr h keep k \<equiv> tail_start pr h (segments_of h) (keep div 2 ^ k)"

definition short_enough :: "printers \<Rightarrow> item list \<Rightarrow> nat \<Rightarrow> nat \<Rightarrow> item list \<Rightarrow> bool" where
  "short_enough pr h at_tokens t items \<longleftrightarrow>
     estimate_tokens pr items < at_tokens \<or> tail_units (segments_of h) t \<le> 1"

definition good_result :: "printers \<Rightarrow> item list \<Rightarrow> nat \<Rightarrow> nat \<Rightarrow> nat \<Rightarrow> summarized \<Rightarrow> bool" where
  "good_result pr h budget at_tokens keep s \<longleftrightarrow> (\<forall>p. s = SdReplacement p \<longrightarrow>
     (\<exists>k answer. k \<le> 3 \<and> answer \<noteq> [] \<and>
       pp_items p = build_replacement pr h (tail_after pr h keep k) budget (summary_item answer) \<and>
       short_enough pr h at_tokens (tail_after pr h keep k) (pp_items p) \<and>
       (\<forall>j < k. \<not> short_enough pr h at_tokens (tail_after pr h keep j)
          (build_replacement pr h (tail_after pr h keep j) budget (summary_item answer)))))"

fun step_good :: "printers \<Rightarrow> item list \<Rightarrow> nat \<Rightarrow> nat \<Rightarrow> nat \<Rightarrow> 'o goal \<Rightarrow> 'o step \<Rightarrow> bool" where
  "step_good pr h budget at_tokens keep goal (Done out) \<longleftrightarrow>
     (\<exists>s. out = gl_finish goal s \<and> good_result pr h budget at_tokens keep s)"
| "step_good pr h budget at_tokens keep goal (Summarize sm) \<longleftrightarrow>
     sm_goal sm = goal \<and> sm_history sm = h \<and> sm_segments sm = segments_of h \<and>
     sm_user_verbatim_tokens sm = budget \<and> sm_summarize_at_tokens sm = at_tokens \<and>
     sm_keep_recent_tokens sm = keep"

lemma good_result_simps [simp]: "good_result pr h b a kp SdNothingToSummarize" "good_result pr h b a kp (SdFailed m)"
  by (simp_all add: good_result_def)

lemma fail_step_good: "step_good pr h b a kp goal (Summarize sm) \<Longrightarrow> step_good pr h b a kp goal (fail_step m sm)"
  by (auto simp: fail_step_def intro: exI [of _ "SdFailed m"])

lemma summarize_good:
  "step_good pr history (cc_user_verbatim_tokens cfg) (cc_summarize_at_tokens cfg)
    (cc_keep_recent_tokens cfg) goal (summarize pr cfg caps history goal)"
proof -
  have "\<exists>s. gl_finish goal (SdFailed m) = gl_finish goal s \<and> good_result pr h b a kp s" for m h b a kp
    by (rule exI [of _ "SdFailed m"]) simp
  moreover have "\<exists>s. gl_finish goal SdNothingToSummarize = gl_finish goal s \<and> good_result pr h b a kp s" for h b a kp
    by (rule exI [of _ SdNothingToSummarize]) simp
  ultimately show ?thesis by (simp add: summarize_def Let_def split: sum.split)
qed

lemma refused_good:
  "step_good pr h b a kp goal (Summarize sm) \<Longrightarrow> step_good pr h b a kp goal (refused reason sm)"
  using fail_step_good [of pr h b a kp goal sm reason] by (auto simp: refused_def)

lemma retry_good:
  "step_good pr h b a kp goal (Summarize sm) \<Longrightarrow> step_good pr h b a kp goal (retry_doubled pr sm)"
  using fail_step_good [of pr h b a kp goal sm] by (auto simp: retry_doubled_def Let_def split: sum.split)

lemma shrink_tail_result:
  assumes "sm_history sm = h" "sm_segments sm = segments_of h" "sm_user_verbatim_tokens sm = b"
    "sm_summarize_at_tokens sm = a"
    and "shrink_tail pr sm summary n keep (tail_after pr h keep 0)
      (build_replacement pr h (tail_after pr h keep 0) b summary) = (t, items)"
  shows "\<exists>k \<le> n. t = tail_after pr h keep k \<and> items = build_replacement pr h t b summary \<and>
    (\<forall>j < k. \<not> short_enough pr h a (tail_after pr h keep j)
      (build_replacement pr h (tail_after pr h keep j) b summary))"
  using assms(5)
proof (induction n arbitrary: keep)
  case (Suc n)
  let ?t = "tail_after pr h keep 0"
  show ?case
  proof (cases "short_enough pr h a ?t (build_replacement pr h ?t b summary)")
    case True
    with Suc.prems assms(1-4) have "t = ?t \<and> items = build_replacement pr h t b summary"
      by (auto simp: short_enough_def)
    then show ?thesis by (intro exI [of _ 0]) simp
  next
    case False
    have half: "keep div 2 div 2 ^ j = keep div 2 ^ Suc j" for j
      by (simp add: div_mult2_eq)
    have "shrink_tail pr sm summary n (keep div 2) (tail_after pr h (keep div 2) 0)
        (build_replacement pr h (tail_after pr h (keep div 2) 0) b summary) = (t, items)"
      using Suc.prems assms(1-4) False by (simp add: short_enough_def Let_def)
    from Suc.IH [OF this] obtain k where k: "k \<le> n" "t = tail_after pr h keep (Suc k)"
      "items = build_replacement pr h t b summary"
      "\<And>j. j < k \<Longrightarrow> \<not> short_enough pr h a (tail_after pr h keep (Suc j))
        (build_replacement pr h (tail_after pr h keep (Suc j)) b summary)"
      unfolding half by blast
    have "\<not> short_enough pr h a (tail_after pr h keep j)
        (build_replacement pr h (tail_after pr h keep j) b summary)" if "j < Suc k" for j
      using that False k(4) by (cases j) auto
    with k(1-3) show ?thesis by (intro exI [of _ "Suc k"]) simp
  qed
qed (auto intro: exI [of _ 0])

lemma accept_good:
  assumes "step_good pr h b a kp goal (Summarize sm)"
  shows "step_good pr h b a kp goal (accept_answer pr answer sm)"
proof (cases "answer = []")
  case True
  with fail_step_good [OF assms] show ?thesis by (simp add: accept_answer_def)
next
  case False
  let ?t = "tail_after pr h kp 0"
  obtain t items where shrunk: "shrink_tail pr sm (summary_item answer) 3 kp ?t
      (build_replacement pr h ?t b (summary_item answer)) = (t, items)" by fastforce
  from assms have fields: "sm_history sm = h" "sm_segments sm = segments_of h" "sm_user_verbatim_tokens sm = b"
    "sm_summarize_at_tokens sm = a" "sm_keep_recent_tokens sm = kp" "sm_goal sm = goal" by simp_all
  from shrink_tail_result [OF fields(1-4) shrunk]
  obtain k where k: "k \<le> 3" "t = tail_after pr h kp k" "items = build_replacement pr h t b (summary_item answer)"
    "\<forall>j < k. \<not> short_enough pr h a (tail_after pr h kp j)
      (build_replacement pr h (tail_after pr h kp j) b (summary_item answer))" by blast
  show ?thesis
  proof (cases "short_enough pr h a t items")
    case False
    with \<open>answer \<noteq> []\<close> fields shrunk fail_step_good [OF assms] show ?thesis
      by (simp add: accept_answer_def short_enough_def Let_def)
  next
    case fits: True
    have "good_result pr h b a kp (SdReplacement \<lparr>pp_items = items, pp_usage = sm_usage sm\<rparr>)"
      unfolding good_result_def using k fits False by (intro allI impI exI [of _ k] exI [of _ answer]) auto
    with False fits fields shrunk show ?thesis
      by (auto simp: accept_answer_def short_enough_def Let_def)
  qed
qed

lemma completed_good:
  assumes "step_good pr h b a kp goal (Summarize sm)"
  shows "step_good pr h b a kp goal (completed pr answer stop usage sm)"
proof -
  define sm' where "sm' = sm\<lparr>sm_attempts := sm_attempts sm + 1,
    sm_usage := (if sm_attempts sm + 1 = 1 then usage else sum_usage (sm_usage sm) usage)\<rparr>"
  have "step_good pr h b a kp goal (Summarize sm')" using assms by (simp add: sm'_def)
  note this [THEN fail_step_good] this [THEN accept_good] this [THEN retry_good]
  then show ?thesis
    unfolding completed_def Let_def sm'_def [symmetric] by (cases stop) simp_all
qed

end
