(* ===== verification/ContextPolicy.thy ===== *)
theory ContextPolicy
  imports ContextEngine CoreSession
begin

text \<open>
  The summarizing context policy as the core runs it (\<open>crates/p1-context/src/summary.rs\<close> and
  \<open>native.rs\<close>): one summary request through the agent's provider, and the driver that feeds what came
  back to the engine until it answers. The lemmas show that the driver ends, what a preparation can
  answer, and that the policy meets the contract \<open>transcript_policy\<close> the core relies on, which is
  interpreted here on the policy.
\<close>

section \<open>The summary operation (\<open>ProviderSummary\<close>)\<close>

record 'w provider_summary =
  ps_provider :: "'w provider"
  ps_options :: model_options
  ps_prompt :: ustring

record summary_answer =
  sa_text :: ustring
  sa_stop :: stop_reason
  sa_usage :: "usage option"

datatype summary_failure = SfRefused provider_error | SfFailed provider_error | SfCancelled

type_synonym 'w service = "summary_request \<Rightarrow> 'w \<Rightarrow> (summary_failure + summary_answer) option \<times> 'w"

definition with_summary_effort :: "effort option \<Rightarrow> 'w provider_summary \<Rightarrow> 'w provider_summary" where
  "with_summary_effort effort ps = ps\<lparr>ps_options := (ps_options ps)\<lparr>mo_reasoning_effort := effort\<rparr>\<rparr>"

definition summary_provider_request :: "'w provider_summary \<Rightarrow> summary_request \<Rightarrow> provider_request" where
  "summary_provider_request ps request =
     \<lparr>pr_system_prompt = ps_prompt ps, pr_history = [ItUser (sq_transcript request)], pr_tools = [],
      pr_options = (ps_options ps)\<lparr>mo_max_output_tokens := sq_max_output_tokens request\<rparr>\<rparr>"

definition summary_no_terminal_event :: provider_error where
  "summary_no_terminal_event = \<lparr>pe_kind = PkTransport,
     pe_message = lit ''the summarization stream ended without a terminal event''\<rparr>"

definition summary_of :: "(ustring \<Rightarrow> ustring) \<Rightarrow> completed_response \<Rightarrow> summary_answer" where
  "summary_of redactor response = \<lparr>sa_text = redactor (assistant_text (cr_item response)),
     sa_stop = cr_stop response, sa_usage = cr_usage response\<rparr>"

text \<open>The loop over the stream's events; \<open>None\<close> is a stream still open when the fuel is spent.\<close>

fun summary_events ::
    "(ustring \<Rightarrow> ustring) \<Rightarrow> nat \<Rightarrow> 'w token \<Rightarrow> 'w stream \<Rightarrow> 'w \<Rightarrow> (summary_failure + summary_answer) option \<times> 'w" where
  "summary_events redactor 0 cancel stream w = (None, w)"
| "summary_events redactor (Suc fuel) cancel stream w =
     (let (fired, w) = cancel w
      in if fired then (Some (Inl SfCancelled), w)
         else let (event, w) = stream w
           in case event of
                None \<Rightarrow> (Some (Inl SfCancelled), w)
              | Some None \<Rightarrow> (Some (Inl (SfFailed summary_no_terminal_event)), w)
              | Some (Some (SeFinished (OcCompleted response))) \<Rightarrow> (Some (Inr (summary_of redactor response)), w)
              | Some (Some (SeFinished (OcFailed err))) \<Rightarrow> (Some (Inl (SfFailed err)), w)
              | Some (Some (SeFinished OcCancelled)) \<Rightarrow> (Some (Inl SfCancelled), w)
              | Some (Some _) \<Rightarrow> summary_events redactor fuel cancel stream w)"

definition provider_summarize ::
    "(ustring \<Rightarrow> ustring) \<Rightarrow> nat \<Rightarrow> 'w token \<Rightarrow> 'w provider_summary \<Rightarrow> 'w service" where
  "provider_summarize redactor fuel cancel ps request w =
     (let req = summary_provider_request ps request
      in case prov_validate (ps_provider ps) req of
           Some err \<Rightarrow> (Some (Inl (SfRefused err)), w)
         | None \<Rightarrow>
             (let (fired, w) = cancel w
              in if fired then (Some (Inl SfCancelled), w)
                 else let (result, w) = prov_stream (ps_provider ps) req w
                   in case result of
                        None \<Rightarrow> (Some (Inl SfCancelled), w)
                      | Some (Inl err) \<Rightarrow> (Some (Inl (SfFailed err)), w)
                      | Some (Inr stream) \<Rightarrow> summary_events redactor fuel cancel stream w))"

section \<open>The driver (\<open>SummarizingContext\<close>)\<close>

fun error_kind_name :: "provider_error_kind \<Rightarrow> ustring" where
  "error_kind_name PkInvalidRequest = lit ''InvalidRequest''"
| "error_kind_name PkAuthentication = lit ''Authentication''"
| "error_kind_name PkInsufficientBalance = lit ''InsufficientBalance''"
| "error_kind_name PkNotEntitled = lit ''NotEntitled''"
| "error_kind_name PkUsageLimitExhausted = lit ''UsageLimitExhausted''"
| "error_kind_name PkRateLimited = lit ''RateLimited''"
| "error_kind_name PkContextWindowExceeded = lit ''ContextWindowExceeded''"
| "error_kind_name PkTransport = lit ''Transport''"
| "error_kind_name PkProtocol = lit ''Protocol''"

definition provider_error_text :: "provider_error \<Rightarrow> ustring" where
  "provider_error_text e = error_kind_name (pe_kind e) @ lit '': '' @ pe_message e"

text \<open>What the driver does with an answer of the service.\<close>

definition feed :: "printers \<Rightarrow> summary_failure + summary_answer \<Rightarrow> 'o summarization \<Rightarrow> 'o step" where
  "feed pr result sm =
     (case result of
        Inr answer \<Rightarrow> completed pr (sa_text answer) (sa_stop answer) (sa_usage answer) sm
      | Inl (SfRefused err) \<Rightarrow> refused (provider_error_text err) sm
      | Inl (SfFailed err) \<Rightarrow> fail_step (provider_error_text err) sm
      | Inl SfCancelled \<Rightarrow> Done (gl_cancelled (sm_goal sm)))"

text \<open>How many requests a step may still send.\<close>

fun requests_left :: "'o step \<Rightarrow> nat" where
  "requests_left (Done out) = 0"
| "requests_left (Summarize sm) = (if sm_attempts sm = 0 \<and> sm_capped sm then 2 else 1)"

lemma requests_left_fail [simp]: "requests_left (fail_step m sm) = 0"
  by (simp add: fail_step_def)

lemma requests_left_accept [simp]: "requests_left (accept_answer pr answer sm) = 0"
  by (simp add: accept_answer_def Let_def)

lemma requests_left_retry: "sm_attempts sm \<noteq> 0 \<Longrightarrow> requests_left (retry_doubled pr sm) \<le> 1"
  by (simp add: retry_doubled_def Let_def split: sum.split)

lemma requests_left_feed: "requests_left (feed pr result sm) < requests_left (Summarize sm)"
proof -
  have "requests_left (completed pr answer stop usage sm) < requests_left (Summarize sm)" for answer stop usage
    using requests_left_retry [of "sm\<lparr>sm_attempts := sm_attempts sm + 1,
        sm_usage := (if sm_attempts sm + 1 = 1 then usage else sum_usage (sm_usage sm) usage)\<rparr>" pr]
    by (cases stop) (auto simp: completed_def Let_def)
  then show ?thesis
    by (auto simp: feed_def refused_def split: sum.split summary_failure.split)
qed

function drive :: "printers \<Rightarrow> 'w service \<Rightarrow> 'o step \<Rightarrow> 'w \<Rightarrow> 'o option \<times> 'w" where
  "drive pr service (Done out) w = (Some out, w)"
| "drive pr service (Summarize sm) w =
     (case service (sm_request sm) w of
        (None, w') \<Rightarrow> (None, w')
      | (Some result, w') \<Rightarrow> drive pr service (feed pr result sm) w')"
  by pat_completeness auto
termination
  by (relation "measure (\<lambda>(pr, service, step, w). requests_left step)") (auto intro: requests_left_feed simp del: requests_left.simps)

record 'w summarizing_context =
  sc_summary :: "'w provider_summary"
  sc_config :: context_config
  sc_summary_output_tokens :: nat

definition summarizing_new ::
    "'w provider \<Rightarrow> model_options \<Rightarrow> context_config \<Rightarrow> ustring \<Rightarrow> ustring + 'w summarizing_context" where
  "summarizing_new provider options cfg prompt =
     (case config_validate cfg of
        Inl e \<Rightarrow> Inl e
      | Inr _ \<Rightarrow>
          (let default_cap = min default_summary_output_tokens (sat_sub (wall cfg) 1)
           in case validate_summary_output_tokens cfg default_cap of
                Inl e \<Rightarrow> Inl e
              | Inr _ \<Rightarrow>
                  if prompt = [] then Inl (lit ''the summarizer prompt must not be empty'')
                  else Inr \<lparr>sc_summary = \<lparr>ps_provider = provider, ps_options = options, ps_prompt = prompt\<rparr>,
                    sc_config = cfg, sc_summary_output_tokens = default_cap\<rparr>))"

definition with_summary_output_tokens ::
    "nat \<Rightarrow> 'w summarizing_context \<Rightarrow> ustring + 'w summarizing_context" where
  "with_summary_output_tokens tokens sc =
     (case validate_summary_output_tokens (sc_config sc) tokens of
        Inl e \<Rightarrow> Inl e
      | Inr _ \<Rightarrow> Inr (sc\<lparr>sc_summary_output_tokens := tokens\<rparr>))"

definition context_caps :: "'w summarizing_context \<Rightarrow> caps" where
  "context_caps sc = \<lparr>cp_summary_output_tokens = sc_summary_output_tokens sc,
     cp_agent_max_output_tokens = mo_max_output_tokens (ps_options (sc_summary sc))\<rparr>"

definition summarizing_prepare ::
    "printers \<Rightarrow> 'w service \<Rightarrow> 'w summarizing_context \<Rightarrow> context_input \<Rightarrow> 'w \<Rightarrow>
     (context_error + prepared option) option \<times> 'w" where
  "summarizing_prepare pr service sc input w =
     drive pr service (prepare_step pr (sc_config sc) (context_caps sc) (ci_history input) (ci_last_usage input)) w"

definition summarizing_compact ::
    "printers \<Rightarrow> 'w service \<Rightarrow> 'w summarizing_context \<Rightarrow> context_input \<Rightarrow> 'w \<Rightarrow>
     (context_error + compaction) option \<times> 'w" where
  "summarizing_compact pr service sc input w =
     drive pr service (compact_step pr (sc_config sc) (context_caps sc) (ci_history input)) w"

text \<open>
  The policy as the core holds it: \<open>cancel\<close> is the token of the call, \<open>redactor\<close> the redaction of
  \<open>p1-redact\<close>, and \<open>fuel\<close> bounds the events of one summary stream.
\<close>

definition summarizing_policy ::
    "printers \<Rightarrow> (ustring \<Rightarrow> ustring) \<Rightarrow> nat \<Rightarrow> 'w token \<Rightarrow> 'w summarizing_context \<Rightarrow> 'w context_policy" where
  "summarizing_policy pr redactor fuel cancel sc =
     (let service = provider_summarize redactor fuel cancel (sc_summary sc)
      in \<lparr>ctx_prepare = summarizing_prepare pr service sc, ctx_compact_now = summarizing_compact pr service sc\<rparr>)"

section \<open>What the driver can answer\<close>

lemma feed_good:
  assumes "step_good pr h b a kp goal (Summarize sm)"
  shows "step_good pr h b a kp goal (feed pr result sm) \<or> feed pr result sm = Done (gl_cancelled goal)"
  using assms completed_good [OF assms] refused_good [OF assms] fail_step_good [OF assms]
  by (auto simp: feed_def simp del: step_good.simps(1) split: sum.split summary_failure.split)

lemma drive_good:
  assumes "step_good pr h b a kp goal step" and "drive pr service step w = (Some out, w')"
  shows "out = gl_cancelled goal \<or> (\<exists>s. out = gl_finish goal s \<and> good_result pr h b a kp s)"
  using assms
proof (induction pr service step w rule: drive.induct)
  case (1 pr service done_out w)
  then show ?case by auto
next
  case (2 pr service sm w)
  then obtain result w1 where result: "service (sm_request sm) w = (Some result, w1)"
    "drive pr service (feed pr result sm) w1 = (Some out, w')"
    by (auto split: prod.splits option.splits)
  from feed_good [OF "2.prems"(1), of result] show ?case
  proof
    assume "step_good pr h b a kp goal (feed pr result sm)"
    with 2 result show ?thesis by auto
  next
    assume "feed pr result sm = Done (gl_cancelled goal)"
    with result(2) show ?thesis by simp
  qed
qed

section \<open>Trimming keeps the shape of a history\<close>

lemma trim_item_result: "trim_item limit (ItToolResult r) = ItToolResult r \<or>
    (\<exists>c. trim_item limit (ItToolResult r) = ItToolResult (r\<lparr>tr_content := c\<rparr>) \<and> length c < length (tr_content r))"
  by (auto simp: trim_item_def Let_def not_le)

lemma trim_item_other [simp]:
  "trim_item limit (ItUser t) = ItUser t" "trim_item limit (ItUserContent bs) = ItUserContent bs"
  "trim_item limit (ItInbox k t) = ItInbox k t" "trim_item limit (ItAssistant a) = ItAssistant a"
  by (simp_all add: trim_item_def)

lemma trim_result_ids: "result_ids (map (trim_item limit) xs) = result_ids xs"
proof (induction xs)
  case (Cons x xs)
  then show ?case
  proof (cases x)
    case (ItToolResult r)
    from trim_item_result [of limit r] show ?thesis
      by (elim disjE exE conjE) (simp_all add: ItToolResult Cons)
  qed simp_all
qed simp

lemma trim_answered: "answered (map (trim_item limit) xs @ ys) = answered (xs @ ys)"
proof (induction xs)
  case (Cons x xs)
  then show ?case
  proof (cases x)
    case (ItToolResult r)
    from trim_item_result [of limit r] show ?thesis
      by (elim disjE exE conjE) (simp_all add: ItToolResult Cons)
  next
    case (ItAssistant a)
    with Cons show ?thesis by (simp add: trim_result_ids)
  qed simp_all
qed simp

lemma trim_tight: "tight_from S (map (trim_item limit) xs @ ys) = tight_from S (xs @ ys)"
proof (induction xs arbitrary: S)
  case (Cons x xs)
  then show ?case
  proof (cases x)
    case (ItToolResult r)
    from trim_item_result [of limit r] show ?thesis
      by (elim disjE exE conjE) (simp_all add: ItToolResult Cons)
  qed simp_all
qed simp

lemma trim_chars: "item_chars pr (trim_item limit it) \<le> item_chars pr it"
proof (cases it)
  case (ItToolResult r)
  from trim_item_result [of limit r] show ?thesis
    by (elim disjE exE conjE) (simp_all add: ItToolResult)
qed simp_all

lemma trim_old_results_paired:
  assumes "trim_old_results pr cfg h = Some items"
  shows "answered items = answered h" "tight items = tight h" "length items = length h"
    "estimate_tokens pr items \<le> estimate_tokens pr h"
proof -
  let ?t = "tail_start pr h (segments_of h) (cc_keep_recent_tokens cfg)"
  let ?limit = "cc_tool_result_excerpt_chars cfg"
  have items: "items = map (trim_item ?limit) (take ?t h) @ drop ?t h"
    using assms by (auto simp: trim_old_results_def Let_def split: if_splits)
  show "answered items = answered h" by (simp add: items trim_answered)
  show "tight items = tight h" by (simp add: items trim_tight)
  show "length items = length h" by (simp add: items)
  have "sum_list (map (item_chars pr) (map (trim_item ?limit) (take ?t h))) \<le> sum_list (map (item_chars pr) (take ?t h))"
    unfolding map_map by (rule sum_list_mono) (simp add: trim_chars)
  then have "sum_list (map (item_chars pr) items) \<le> sum_list (map (item_chars pr) (take ?t h @ drop ?t h))"
    by (simp add: items del: append_take_drop_id)
  then show "estimate_tokens pr items \<le> estimate_tokens pr h"
    by (intro estimate_tokens_mono) simp
qed

section \<open>The answers of the two calls\<close>

lemma summary_item_no_calls: "no_calls (summary_item answer)"
  by (simp add: summary_item_def no_calls_def)

lemma good_replacement_paired:
  assumes "good_result pr h b a kp (SdReplacement p)" and "answered h"
  shows "answered (pp_items p)" and "tight h \<Longrightarrow> tight (pp_items p)"
proof -
  obtain t answer where t: "boundary h t" "pp_items p = build_replacement pr h t b (summary_item answer)"
    using assms(1) tail_start_boundary unfolding good_result_def by blast
  have "\<forall>it \<in> set (summary_item answer # map (\<lambda>i. h ! i) (kept_user_indices pr h t b)). no_calls it"
    using kept_user_plain plain_user_no_calls summary_item_no_calls by fastforce
  then show "answered (pp_items p)"
    using answered_prefix [of "summary_item answer # map (\<lambda>i. h ! i) (kept_user_indices pr h t b)" "drop t h"]
      answered_drop [OF assms(2)] by (simp add: t(2) build_replacement_def)
  show "tight (pp_items p)" if "tight h"
    using build_replacement_paired [OF that assms(2) t(1) summary_item_no_calls] by (simp add: t(2))
qed

lemma prepare_step_cases:
  "prepare_step pr cfg caps h u = Done (Inr None) \<or>
    (\<exists>items. trim_old_results pr cfg h = Some items \<and>
      prepare_step pr cfg caps h u = Done (Inr (Some \<lparr>pp_items = items, pp_usage = None\<rparr>))) \<or>
    prepare_step pr cfg caps h u = summarize pr cfg caps h (prepare_goal (next_input pr h u) (wall cfg))"
proof -
  define trimmed where "trimmed = (case cc_trim_at_tokens cfg of None \<Rightarrow> None
    | Some trim_at \<Rightarrow> if trim_at \<le> next_input pr h u then trim_old_results pr cfg h else None)"
  have step: "prepare_step pr cfg caps h u = (if h = [] then Done (Inr None)
      else if (case trimmed of None \<Rightarrow> False
          | Some items \<Rightarrow> sat_sub (next_input pr h u) (sat_sub (estimate_tokens pr h) (estimate_tokens pr items))
              < cc_summarize_at_tokens cfg)
        then Done (Inr (Some \<lparr>pp_items = the trimmed, pp_usage = None\<rparr>))
      else if next_input pr h u < cc_summarize_at_tokens cfg then Done (Inr None)
      else summarize pr cfg caps h (prepare_goal (next_input pr h u) (wall cfg)))"
    unfolding prepare_step_def Let_def trimmed_def by (rule refl)
  have trimmed: "trim_old_results pr cfg h = Some items" if "trimmed = Some items" for items
    using that by (simp add: trimmed_def split: option.splits if_splits)
  show ?thesis
    using trimmed by (cases trimmed) (simp_all add: step)
qed

lemma prepare_cases:
  assumes "drive pr service (prepare_step pr cfg caps h u) w = (Some out, w')"
  shows "out = Inr None \<or>
    (\<exists>items. trim_old_results pr cfg h = Some items \<and> out = Inr (Some \<lparr>pp_items = items, pp_usage = None\<rparr>)) \<or>
    out = Inl CeCancelled \<or>
    (\<exists>s. out = prepare_finish (next_input pr h u) (wall cfg) s \<and>
      good_result pr h (cc_user_verbatim_tokens cfg) (cc_summarize_at_tokens cfg) (cc_keep_recent_tokens cfg) s)"
proof -
  let ?summarize = "summarize pr cfg caps h (prepare_goal (next_input pr h u) (wall cfg))"
  consider "prepare_step pr cfg caps h u = Done (Inr None)"
    | items where "trim_old_results pr cfg h = Some items"
        "prepare_step pr cfg caps h u = Done (Inr (Some \<lparr>pp_items = items, pp_usage = None\<rparr>))"
    | "prepare_step pr cfg caps h u = ?summarize"
    using prepare_step_cases by blast
  then show ?thesis
  proof cases
    case 3
    with drive_good [OF summarize_good, of pr service cfg caps h "prepare_goal (next_input pr h u) (wall cfg)" w out w'] assms
    show ?thesis by (auto simp: prepare_goal_def)
  qed (use assms in auto)
qed

lemma compact_cases:
  assumes "drive pr service (compact_step pr cfg caps h) w = (Some out, w')"
  shows "out = Inr (CpUnchanged (estimate_tokens pr h)) \<or> out = Inl CeCancelled \<or>
    (\<exists>s. out = compact_finish pr (estimate_tokens pr h) s \<and>
      good_result pr h (cc_user_verbatim_tokens cfg) (cc_summarize_at_tokens cfg) (cc_keep_recent_tokens cfg) s)"
  using drive_good [OF summarize_good, of pr service cfg caps h "compact_goal pr (estimate_tokens pr h)" w out w'] assms
  by (auto simp: compact_step_def Let_def compact_goal_def split: if_splits)

text \<open>A compaction that replaces the history does so in a history with units.\<close>

lemma compact_replaced:
  assumes "drive pr service (compact_step pr cfg caps h) w = (Some (Inr (CpReplaced p n m)), w')"
  shows "good_result pr h (cc_user_verbatim_tokens cfg) (cc_summarize_at_tokens cfg)
      (cc_keep_recent_tokens cfg) (SdReplacement p)"
    and "n = estimate_tokens pr h" and "m = estimate_tokens pr (pp_items p)"
    and "sg_units (segments_of h) \<noteq> []"
proof -
  obtain s where s: "Inr (CpReplaced p n m) = compact_finish pr (estimate_tokens pr h) s"
    "good_result pr h (cc_user_verbatim_tokens cfg) (cc_summarize_at_tokens cfg) (cc_keep_recent_tokens cfg) s"
    using compact_cases [OF assms] by auto
  then have p: "s = SdReplacement p" "n = estimate_tokens pr h" "m = estimate_tokens pr (pp_items p)"
    by (cases s; auto)+
  with s show "good_result pr h (cc_user_verbatim_tokens cfg) (cc_summarize_at_tokens cfg)
      (cc_keep_recent_tokens cfg) (SdReplacement p)"
    "n = estimate_tokens pr h" "m = estimate_tokens pr (pp_items p)" by simp_all
  show "sg_units (segments_of h) \<noteq> []"
    using assms by (auto simp: compact_step_def tail_start_def Let_def)
qed

lemma prepare_replacement_paired:
  assumes "drive pr service (prepare_step pr cfg caps h u) w = (Some (Inr (Some p)), w')" and "answered h"
  shows "answered (pp_items p)" and "tight h \<Longrightarrow> tight (pp_items p)"
proof -
  consider items where "trim_old_results pr cfg h = Some items" "pp_items p = items"
    | s where "Inr (Some p) = prepare_finish (next_input pr h u) (wall cfg) s"
        "good_result pr h (cc_user_verbatim_tokens cfg) (cc_summarize_at_tokens cfg) (cc_keep_recent_tokens cfg) s"
    using prepare_cases [OF assms(1)] by auto
  then have "answered (pp_items p) \<and> (tight h \<longrightarrow> tight (pp_items p))"
  proof cases
    case 1
    with trim_old_results_paired [OF 1(1)] assms(2) show ?thesis by simp
  next
    case (2 s)
    then have "s = SdReplacement p"
      by (cases s) (auto simp: nothing_to_summarize_def failure_at_wall_def split: if_splits)
    with 2 good_replacement_paired assms(2) show ?thesis by blast
  qed
  then show "answered (pp_items p)" "tight h \<Longrightarrow> tight (pp_items p)" by blast+
qed

lemma compact_replacement_paired:
  assumes "drive pr service (compact_step pr cfg caps h) w = (Some (Inr (CpReplaced p n m)), w')" and "answered h"
  shows "answered (pp_items p)" and "tight h \<Longrightarrow> tight (pp_items p)"
  using good_replacement_paired [OF compact_replaced(1) [OF assms(1)] assms(2)] by blast+

text \<open>The tail holds the last response with its results, so exactly the calls stay open that were.\<close>

lemma compact_replacement_open:
  assumes "drive pr service (compact_step pr cfg caps h) w = (Some (Inr (CpReplaced p n m)), w')"
  shows "open_ids (pp_items p) = open_ids h"
proof -
  obtain k answer where p: "pp_items p = build_replacement pr h
      (tail_after pr h (cc_keep_recent_tokens cfg) k) (cc_user_verbatim_tokens cfg) (summary_item answer)"
    using compact_replaced(1) [OF assms] by (auto simp: good_result_def)
  let ?t = "tail_after pr h (cc_keep_recent_tokens cfg) k"
  have last: "last_assistant (drop ?t h) = last_assistant h" "last_assistant h \<noteq> None"
    by (rule tail_has_last_assistant [OF compact_replaced(4) [OF assms]])+
  have "unresolved_calls_of_last_assistant (xs @ drop ?t h) = unresolved_calls_of_last_assistant h" for xs
    using unresolved_prefix [of "drop ?t h" xs] last by (simp add: unresolved_calls_of_last_assistant_def)
  from this [of "summary_item answer # map (\<lambda>i. h ! i)
      (kept_user_indices pr h ?t (cc_user_verbatim_tokens cfg))"]
  show ?thesis by (simp add: open_ids_def p build_replacement_def)
qed

text \<open>
  What \<open>--resume --compact\<close> meets after a crash between the results of one response: the tail holds the
  response with a call still open and results after it, so the core refuses the replacement, and the
  summary request was made in vain.
\<close>

lemma partly_answered_compaction_is_refused:
  assumes "drive pr service (compact_step pr cfg caps h) w = (Some (Inr (CpReplaced p n m)), w')"
    and "open_ids h \<noteq> {}" and "\<not> is_assistant (last h)"
  shows "validate_replacement (pp_items p) \<noteq> Inr ()"
proof
  assume "validate_replacement (pp_items p) = Inr ()"
  then have settled: "answered_but_final (pp_items p)"
    by (simp add: validate_replacement_def validate_from_iff)
  obtain k answer where p: "pp_items p = build_replacement pr h
      (tail_after pr h (cc_keep_recent_tokens cfg) k) (cc_user_verbatim_tokens cfg) (summary_item answer)"
    using compact_replaced(1) [OF assms(1)] by (auto simp: good_result_def)
  let ?t = "tail_after pr h (cc_keep_recent_tokens cfg) k"
  have "last_assistant (drop ?t h) \<noteq> None"
    using tail_has_last_assistant [OF compact_replaced(4) [OF assms(1)]] by metis
  then have "drop ?t h \<noteq> []" by auto
  then have "pp_items p \<noteq> []" "last (pp_items p) = last h"
    by (simp_all add: p build_replacement_def last_append)
  with answered_but_final_answered [OF settled] assms(3) have "answered (pp_items p)" by simp
  then show False
    using compact_replacement_open [OF assms(1)] assms(2) by (simp add: answered_open_ids)
qed

section \<open>Properties\<close>

text \<open>A service that counts its requests in the world.\<close>

definition counted :: "'w service \<Rightarrow> ('w \<times> nat) service" where
  "counted service request w = (let (r, w') = service request (fst w) in (r, (w', Suc (snd w))))"

text \<open>C36: one summarization sends at most two summary requests, whatever the summarizer answers: the
  first, and one retry (without a cap the route refused, or with a truncated summary's cap doubled).
  The driver always comes to an end.\<close>

theorem at_most_two_summary_requests:
  assumes "drive pr (counted service) (summarize pr cfg caps history goal) (w, 0) = (out, (w', n))"
  shows "n \<le> 2"
proof -
  have "n' \<le> n + requests_left step"
    if "drive pr (counted service) step (w, n) = (out, (w', n'))" for step w n out w' n'
    using that
  proof (induction pr "counted service" step "(w, n)" arbitrary: w n out w' n' rule: drive.induct)
    case (2 pr sm w n)
    obtain r w1 where r: "service (sm_request sm) w = (r, w1)" by (cases "service (sm_request sm) w")
    show ?case
    proof (cases r)
      case None
      with 2 r show ?thesis by (simp add: counted_def)
    next
      case (Some result)
      with "2.prems" r have "drive pr (counted service) (feed pr result sm) (w1, Suc n) = (out, (w', n'))"
        by (simp add: counted_def)
      moreover have "(Some result, (w1, Suc n)) = counted service (sm_request sm) (w, n)"
        using Some r by (simp add: counted_def)
      ultimately have "n' \<le> Suc n + requests_left (feed pr result sm)"
        using "2.hyps" by metis
      with requests_left_feed [of pr result sm] show ?thesis by linarith
    qed
  qed simp
  from this [OF assms] have "n \<le> requests_left (summarize pr cfg caps history goal)" by simp
  also have "\<dots> \<le> 2"
    by (simp add: summarize_def Let_def split: sum.split)
  finally show ?thesis .
qed

text \<open>A history, a configuration and a service for the witnesses: the one unit is a call with its result.\<close>

definition short_history :: "item list" where
  "short_history = [ItUser [65], calling_answer, call_result]"

definition small_config :: context_config where
  "small_config = \<lparr>cc_window_tokens = 1000, cc_output_headroom_tokens = 0, cc_summarize_at_tokens = 0,
     cc_keep_recent_tokens = 0, cc_user_verbatim_tokens = 10, cc_tool_result_excerpt_chars = 10,
     cc_reasoning_excerpt_chars = 10, cc_trim_at_tokens = None\<rparr>"

definition small_caps :: caps where
  "small_caps = \<lparr>cp_summary_output_tokens = 10, cp_agent_max_output_tokens = None\<rparr>"

definition summary_service :: "unit service" where
  "summary_service request w = (Some (Inr \<lparr>sa_text = [66], sa_stop = SrEndTurn, sa_usage = None\<rparr>), w)"

lemma at_most_two_summary_requests_witness:
  "snd (snd (drive plain_printers (counted summary_service)
    (summarize plain_printers small_config small_caps short_history (prepare_goal 0 0)) ((), 0))) \<le> 2"
proof -
  obtain out n where run: "drive plain_printers (counted summary_service)
    (summarize plain_printers small_config small_caps short_history (prepare_goal 0 0)) ((), 0) = (out, ((), n))"
    by (metis old.unit.exhaust prod.exhaust)
  from at_most_two_summary_requests [OF run] run show ?thesis by simp
qed

lemma short_segments: "segments_of short_history = \<lparr>sg_prelude_end = 1, sg_units = [(1, 3)]\<rparr>"
  by (simp add: segments_of_def short_history_def calling_answer_def call_result_def units_from.simps run_end.simps Let_def)

lemma short_tail: "tail_start pr short_history \<lparr>sg_prelude_end = 1, sg_units = [(1, 3)]\<rparr> keep = 1"
  by (simp add: tail_start_def)

lemma short_summary:
  "is_summary_item (ItUser [65]) = False" "is_plain_user (ItUser [65])" "is_plain_user calling_answer = False"
  by (simp_all add: starts_with_def summary_marker_def lit_def is_plain_user_def calling_answer_def call_result_def)

lemmas small_simps = sat_add64_def sat_mul64_def u64_max_def ceil_tokens_def sat_sub_def clamp32_def u32_max_def

lemma short_transcript:
  "checked_transcript plain_printers [ItUser [65]] 10 10 990 = Inr (lit ''## User'' @ newline @ [65])"
  by (simp add: checked_transcript_def mandatory_chars_def short_summary transcript_def summary_blocks_def
      other_blocks_def assemble_blocks_def counted_chars_def first_chars_def per_item_limit_def
      max_block_chars_def small_simps Let_def length_lit newline_def take_Cons' del: is_summary_item.simps)

definition short_replacement :: "item list" where
  "short_replacement = [summary_item [66], ItUser [65], calling_answer, call_result]"

lemma short_build:
  "build_replacement plain_printers short_history 1 10 (summary_item [66]) = short_replacement"
proof -
  have "plain_users short_history 1 = [0]"
    by (simp add: plain_users_def short_history_def short_summary)
  then show ?thesis
    by (simp add: build_replacement_def kept_user_indices_def short_history_def short_replacement_def)
qed

lemma shrink_stops: "tail_units (sm_segments sm) t \<le> 1 \<Longrightarrow> shrink_tail pr sm summary n keep t items = (t, items)"
  by (cases n) simp_all

lemma short_prepare:
  "drive plain_printers summary_service (prepare_step plain_printers small_config small_caps short_history None) ()
    = (Some (Inr (Some \<lparr>pp_items = short_replacement, pp_usage = None\<rparr>)), ())"
proof -
  have material: "has_material short_history 1 \<lparr>sg_prelude_end = 1, sg_units = [(1, 3)]\<rparr>"
    by (simp add: has_material_def short_history_def in_tail_unit_def upt_rec short_summary del: is_summary_item.simps)
  have first: "take 1 short_history = [ItUser [65]]" "short_history \<noteq> []"
    by (simp_all add: short_history_def)
  show ?thesis
    using short_build
    by (simp add: prepare_step_def summarize_def short_segments short_tail material first small_config_def
        small_caps_def wall_def short_transcript small_simps summary_service_def feed_def completed_def
        accept_answer_def prepare_goal_def tail_units_def shrink_stops Let_def del: One_nat_def)
qed

text \<open>C37: below the wall a failed preparation is soft: whatever the summarizer answers, the turn goes
  on with a history (the full one, a trimmed one or a replacement) unless it was cancelled.\<close>

theorem below_the_wall_preparation_never_fails:
  assumes "drive pr service (prepare_step pr cfg caps h u) w = (Some out, w')"
    and "next_input pr h u < wall cfg"
  shows "out \<noteq> Inl (CeFailed m)"
proof -
  have "prepare_finish (next_input pr h u) (wall cfg) s \<noteq> Inl (CeFailed m)" for s
    using assms(2) by (cases s) (simp_all add: failure_at_wall_def nothing_to_summarize_def)
  with prepare_cases [OF assms(1)] show ?thesis by (metis context_error.distinct(1) sum.distinct(1) sum.inject(1))
qed

text \<open>C38: the core accepts every history the policy gives it: a replacement or trimmed history of a
  transcript whose results follow their calls passes the check of the core.\<close>

theorem prepared_history_is_accepted:
  assumes "drive pr service (prepare_step pr cfg caps h u) w = (Some (Inr (Some p)), w')"
    and "tight h" and "answered h"
  shows "validate_replacement (pp_items p) = Inr ()"
  using prepare_replacement_paired [OF assms(1,3)] assms(2)
  by (simp add: validate_replacement_def validate_from_iff answered_but_finalI tight_owned)


lemma below_the_wall_preparation_never_fails_witness:
  "Inr (Some \<lparr>pp_items = short_replacement, pp_usage = None\<rparr>) \<noteq> Inl (CeFailed [])"
proof (rule below_the_wall_preparation_never_fails [OF short_prepare])
  show "next_input plain_printers short_history None < wall small_config"
    by (simp add: next_input_def estimate_tokens_def short_history_def calling_answer_def call_result_def wall_def
        small_config_def small_simps)
qed

lemma prepared_history_is_accepted_witness: "validate_replacement short_replacement = Inr ()"
  using prepared_history_is_accepted [OF short_prepare]
  by (simp add: short_history_def calling_answer_def call_result_def call_ids_def tool_calls_def map_filter_def)

text \<open>C39: a manual compaction reports the estimates it was made with, and the history it gives is the
  summary, then some of the plain user messages of the part it replaces, in their order, the first of
  them always, then the tail, verbatim. The tail starts at a unit: it is the tail for the configured
  budget halved at most three times, and only as often as needed: the result is below the summarizing
  threshold or its tail is a single unit, and no longer tail that was tried was either.\<close>

theorem compaction_reports_and_fits:
  assumes "drive pr service (compact_step pr cfg caps h) w = (Some (Inr (CpReplaced p before after)), w')"
  shows "before = estimate_tokens pr h \<and> after = estimate_tokens pr (pp_items p) \<and>
    (\<exists>answer users k t.
      answer \<noteq> [] \<and> pp_items p = summary_item answer # users @ drop t h \<and>
      subseq users (filter is_plain_user (take t h)) \<and> take 1 users = take 1 (filter is_plain_user (take t h)) \<and>
      t \<in> fst ` set (sg_units (segments_of h)) \<and>
      k \<le> 3 \<and> t = tail_start pr h (segments_of h) (cc_keep_recent_tokens cfg div 2 ^ k) \<and>
      (after < cc_summarize_at_tokens cfg \<or> tail_units (segments_of h) t = 1) \<and>
      (\<forall>j < k. let t' = tail_start pr h (segments_of h) (cc_keep_recent_tokens cfg div 2 ^ j) in
        1 < tail_units (segments_of h) t' \<and>
        cc_summarize_at_tokens cfg \<le> estimate_tokens pr
          (build_replacement pr h t' (cc_user_verbatim_tokens cfg) (summary_item answer))))"
proof -
  note replaced = compact_replaced [OF assms]
  obtain k answer where k: "k \<le> 3" "answer \<noteq> []"
    "pp_items p = build_replacement pr h (tail_after pr h (cc_keep_recent_tokens cfg) k)
      (cc_user_verbatim_tokens cfg) (summary_item answer)"
    "short_enough pr h (cc_summarize_at_tokens cfg) (tail_after pr h (cc_keep_recent_tokens cfg) k) (pp_items p)"
    "\<forall>j < k. \<not> short_enough pr h (cc_summarize_at_tokens cfg) (tail_after pr h (cc_keep_recent_tokens cfg) j)
      (build_replacement pr h (tail_after pr h (cc_keep_recent_tokens cfg) j)
        (cc_user_verbatim_tokens cfg) (summary_item answer))"
    using replaced(1) by (auto simp: good_result_def)
  let ?t = "tail_after pr h (cc_keep_recent_tokens cfg) k"
  let ?users = "map (\<lambda>i. h ! i) (kept_user_indices pr h ?t (cc_user_verbatim_tokens cfg))"
  from tail_start_unit [OF replaced(4), of pr h "cc_keep_recent_tokens cfg div 2 ^ k"]
  have unit: "?t \<in> fst ` set (sg_units (segments_of h))" by force
  have inside: "?t \<le> length h"
    using tail_start_boundary [of h pr "cc_keep_recent_tokens cfg div 2 ^ k"] by (simp add: boundary_def)
  have "0 < tail_units (segments_of h) ?t"
    using unit by (auto simp: tail_units_def filter_empty_conv)
  then have "after < cc_summarize_at_tokens cfg \<or> tail_units (segments_of h) ?t = 1"
    using k(4) replaced(3) by (auto simp: short_enough_def)
  moreover have "\<forall>j < k. let t' = tail_after pr h (cc_keep_recent_tokens cfg) j in
      1 < tail_units (segments_of h) t' \<and> cc_summarize_at_tokens cfg \<le> estimate_tokens pr
        (build_replacement pr h t' (cc_user_verbatim_tokens cfg) (summary_item answer))"
    using k(5) by (simp add: short_enough_def not_le not_less Let_def)
  moreover have "pp_items p = summary_item answer # ?users @ drop ?t h"
    by (simp add: k(3) build_replacement_def)
  ultimately show ?thesis
    using k(1,2) unit kept_users_subseq [OF inside] first_user_is_kept [OF inside] replaced(2,3) by blast
qed


definition short_answer :: item where
  "short_answer = ItAssistant \<lparr>ai_origin = \<lparr>org_route = [], org_model = []\<rparr>, ai_blocks = [AbText [66]]\<rparr>"

definition two_units :: "item list" where
  "two_units = [ItUser [65], short_answer, short_answer]"

lemma two_segments: "segments_of two_units = \<lparr>sg_prelude_end = 1, sg_units = [(1, 2), (2, 3)]\<rparr>"
  by (simp add: segments_of_def two_units_def short_answer_def units_from.simps run_end.simps Let_def)

lemma two_tail:
  "tail_start plain_printers two_units \<lparr>sg_prelude_end = 1, sg_units = [(1, 2), (2, 3)]\<rparr> 0 = 2"
  by (simp add: tail_start_def two_units_def short_answer_def estimate_tokens_def small_simps Let_def)

lemma two_transcript:
  "checked_transcript plain_printers [ItUser [65], short_answer] 10 10 990 =
    Inr (lit ''## User'' @ newline @ [65] @ newline @ newline @ lit ''## Assistant'' @ newline @ [66])"
  by (simp add: checked_transcript_def mandatory_chars_def short_summary transcript_def summary_blocks_def
      other_blocks_def assemble_blocks_def counted_chars_def first_chars_def per_item_limit_def
      max_block_chars_def small_simps Let_def length_lit newline_def take_Cons' short_answer_def blank_line_def
      del: is_summary_item.simps(1))

definition two_replacement :: "item list" where
  "two_replacement = [summary_item [66], ItUser [65], short_answer]"

lemma two_build:
  "build_replacement plain_printers two_units 2 10 (summary_item [66]) = two_replacement"
proof -
  have "plain_users two_units 2 = [0]"
    by (simp add: plain_users_def two_units_def short_summary upt_rec short_answer_def is_plain_user_def
        numeral_2_eq_2 del: is_summary_item.simps(1))
  then show ?thesis
    by (simp add: build_replacement_def kept_user_indices_def two_units_def two_replacement_def)
qed

lemma two_compact:
  "drive plain_printers summary_service (compact_step plain_printers small_config small_caps two_units) ()
    = (Some (Inr (CpReplaced \<lparr>pp_items = two_replacement, pp_usage = None\<rparr>
        (estimate_tokens plain_printers two_units) (estimate_tokens plain_printers two_replacement))), ())"
proof -
  have material: "has_material two_units 2 \<lparr>sg_prelude_end = 1, sg_units = [(1, 2), (2, 3)]\<rparr>"
    by (simp add: has_material_def two_units_def in_tail_unit_def upt_rec short_summary
        del: is_summary_item.simps(1))
  have first: "take 2 two_units = [ItUser [65], short_answer]"
    by (simp add: two_units_def)
  show ?thesis
    using two_build
    by (simp add: compact_step_def summarize_def two_segments two_tail material first small_config_def
        small_caps_def wall_def two_transcript small_simps(4-) sat_sub_def summary_service_def feed_def completed_def
        accept_answer_def compact_goal_def tail_units_def shrink_stops Let_def del: One_nat_def)
qed

lemma compaction_reports_and_fits_witness:
  "\<exists>users t. two_replacement = summary_item [66] # users @ drop t two_units \<and>
    take 1 users = take 1 (filter is_plain_user (take t two_units)) \<and>
    t \<in> fst ` set (sg_units (segments_of two_units)) \<and> tail_units (segments_of two_units) t = 1"
proof -
  obtain answer users t where r: "two_replacement = summary_item answer # users @ drop t two_units"
    "take 1 users = take 1 (filter is_plain_user (take t two_units))"
    "t \<in> fst ` set (sg_units (segments_of two_units))" "tail_units (segments_of two_units) t = 1"
    using compaction_reports_and_fits [OF two_compact] by (auto simp: small_config_def)
  from r(1) have "summary_item answer = summary_item [66]" by (simp add: two_replacement_def)
  with r show ?thesis by metis
qed

section \<open>The contract of the core\<close>

text \<open>
  What the core relies on: a policy that is given a complete transcript gives a complete one back.
\<close>

locale transcript_policy =
  fixes policy :: "'w context_policy"
  assumes prepare_complete: "owned (ci_history input) \<Longrightarrow> answered (ci_history input) \<Longrightarrow>
      fst (ctx_prepare policy input w) = Some (Inr (Some p)) \<Longrightarrow> answered (pp_items p)"
    and compact_complete: "owned (ci_history input) \<Longrightarrow> answered (ci_history input) \<Longrightarrow>
      fst (ctx_compact_now policy input w) = Some (Inr (CpReplaced p n m)) \<Longrightarrow> answered (pp_items p)"
begin

lemma pairs: "pairs_policy policy"
  unfolding pairs_policy_def using prepare_complete compact_complete by blast

lemma created_session:
  "agent_new parts clock peers schedule w = Inr s \<Longrightarrow> pt_context parts = policy \<Longrightarrow> session [] s"
  using session.created pairs by metis

lemma resumed_session:
  "session rs0 (s :: 'w agent) \<Longrightarrow> length (rs0 @ committed (trace s)) \<le> u64_max \<Longrightarrow>
    agent_resume parts (rs0 @ committed (trace s)) clock peers schedule w = Inr (t, report) \<Longrightarrow>
    pt_context parts = policy \<Longrightarrow> session (rs0 @ committed (trace s)) t"
  using session.resumed [OF _ refl, of rs0 s] pairs by auto

lemma switched_session:
  "session rs0 s \<Longrightarrow> run_state (reconfigure next) s = (rc, t) \<Longrightarrow> rc_context next = policy \<Longrightarrow>
    session rs0 t"
  using session.reconfigured pairs by metis

end

text \<open>
  What it relies on where it compacts right after a resume, with calls still open: the replacement
  leaves no other call open.
\<close>

locale compaction_policy = transcript_policy +
  assumes compact_open: "owned (ci_history input) \<Longrightarrow> settled_before_last (ci_history input) \<Longrightarrow>
      fst (ctx_compact_now policy input w) = Some (Inr (CpReplaced p n m)) \<Longrightarrow>
      open_ids (pp_items p) \<subseteq> open_ids (ci_history input)"
begin

lemma keeps: "keeps_open_calls policy"
  unfolding keeps_open_calls_def using compact_open by blast

text \<open>With such a policy every compaction, whenever it is asked for, continues the session.\<close>

lemma compacted_session:
  "session rs0 s \<Longrightarrow> pt_context (ag_parts s) = policy \<Longrightarrow>
    run_state (compact_now cancel) s = (co, t) \<Longrightarrow> session rs0 t"
  using session.compacted keeps by metis

end

lemma summarizing_compaction:
  assumes "fst (ctx_compact_now (summarizing_policy pr redactor fuel cancel sc) input w) =
    Some (Inr (CpReplaced p n m))"
  obtains w' where "drive pr (provider_summarize redactor fuel cancel (sc_summary sc))
    (compact_step pr (sc_config sc) (context_caps sc) (ci_history input)) w = (Some (Inr (CpReplaced p n m)), w')"
  using assms by (auto simp: summarizing_policy_def summarizing_compact_def prod_eq_iff Let_def)

interpretation summarizing: compaction_policy "summarizing_policy pr redactor fuel cancel sc"
  for pr redactor fuel cancel sc
proof (unfold_locales, goal_cases)
  case (1 input w p)
  let ?service = "provider_summarize redactor fuel cancel (sc_summary sc)"
  from 1(3) have "drive pr ?service (prepare_step pr (sc_config sc) (context_caps sc) (ci_history input)
      (ci_last_usage input)) w = (Some (Inr (Some p)),
        snd (drive pr ?service (prepare_step pr (sc_config sc) (context_caps sc) (ci_history input)
          (ci_last_usage input)) w))"
    by (simp add: summarizing_policy_def summarizing_prepare_def prod_eq_iff Let_def)
  from prepare_replacement_paired(1) [OF this 1(2)] show ?case .
next
  case (2 input w p n m)
  from summarizing_compaction [OF 2(3)] compact_replacement_paired(1) 2(2) show ?case by metis
next
  case (3 input w p n m)
  from summarizing_compaction [OF 3(3)] compact_replacement_open show ?case by (metis order_refl)
qed

text \<open>C40: an agent that summarizes with this policy is in a session of the core from the start, so every
  property of a session holds of it: its requests carry complete transcripts and its journal projects
  back to it. Whatever state it reaches, a manual compaction is a step of the session, also one right
  after a resume with calls still open.\<close>

theorem summarizing_agent_starts_a_session:
  assumes "agent_new parts clock peers schedule w = Inr s"
    and "pt_context parts = summarizing_policy pr redactor fuel cancel sc"
  shows "session [] s \<and>
    (\<forall>rs0 t cancel'. session rs0 t \<longrightarrow> pt_context (ag_parts t) = pt_context parts \<longrightarrow>
      session rs0 (snd (run_state (compact_now cancel') t)))"
  using summarizing.created_session [OF assms] summarizing.compacted_session
  by (metis assms(2) prod.collapse)

lemma summarizing_agent_starts_a_session_witness:
  "session [] ((ex_agent None)\<lparr>ag_max_parallel_tools := default_max_parallel_tools,
    ag_parts := (ex_parts None)\<lparr>pt_context := summarizing_policy plain_printers (\<lambda>t. t) 9 never
      \<lparr>sc_summary = \<lparr>ps_provider = ex_provider, ps_options = ex_options, ps_prompt = [65]\<rparr>,
       sc_config = small_config, sc_summary_output_tokens = 10\<rparr>\<rparr>\<rparr>)"
  by (rule conjunct1, rule summarizing_agent_starts_a_session [of "(ex_parts None)\<lparr>pt_context := summarizing_policy plain_printers (\<lambda>t. t) 9 never
      \<lparr>sc_summary = \<lparr>ps_provider = ex_provider, ps_options = ex_options, ps_prompt = [65]\<rparr>,
       sc_config = small_config, sc_summary_output_tokens = 10\<rparr>\<rparr>"
      "\<lambda>w. (fst w, w)" "\<lambda>w. ([], w)" "\<lambda>_ w. (None, w)" "(0, [])"])
    (simp_all add: agent_new_def assemble_def check_environment_def ex_parts_def ex_provider_def ex_agent_def
      default_max_overflow_retries_def)

end
