(* ===== verification/WorkflowApi.thy ===== *)
theory WorkflowApi
  imports Attachment
begin

text \<open>
  The values of \<open>crates/p1-workflow/src/api/values.rs\<close> and \<open>api.rs\<close>, and the contract between the
  substrate and its decisions, \<open>decision/contract.rs\<close>: envelopes, journal records, counts, step
  lines, settings, and the snapshots, attempts and transitions a decision sees and answers. A
  \<open>u32\<close> is a \<open>nat\<close> below \<open>2 ^ 32\<close>; what the code adds to one wraps (\<open>wrapping_add32\<close>). Paths are
  strings. Serialization is generated code and not modelled.
\<close>

section \<open>Results\<close>

text \<open>\<open>x?\<close> and \<open>and_then\<close> on \<open>Result\<close>, and \<open>Option::ok_or\<close>.\<close>

definition try_then :: "'e + 'a \<Rightarrow> ('a \<Rightarrow> 'e + 'b) \<Rightarrow> 'e + 'b" where
  "try_then r f = (case r of Inl e \<Rightarrow> Inl e | Inr x \<Rightarrow> f x)"

definition ok_or :: "'e \<Rightarrow> 'a option \<Rightarrow> 'e + 'a" where
  "ok_or e r = (case r of None \<Rightarrow> Inl e | Some x \<Rightarrow> Inr x)"

definition map_err :: "('e \<Rightarrow> 'f) \<Rightarrow> 'e + 'a \<Rightarrow> 'f + 'a" where
  "map_err f r = (case r of Inl e \<Rightarrow> Inl (f e) | Inr x \<Rightarrow> Inr x)"

lemma try_then_simps [simp]: "try_then (Inl e) f = Inl e" "try_then (Inr x) f = f x"
  by (simp_all add: try_then_def)

lemma ok_or_simps [simp]: "ok_or e None = Inl e" "ok_or e (Some x) = Inr x"
  by (simp_all add: ok_or_def)

lemma map_err_simps [simp]: "map_err f (Inl e) = Inl (f e)" "map_err f (Inr x) = Inr x"
  by (simp_all add: map_err_def)

lemma try_then_Inr: "try_then r f = Inr y \<longleftrightarrow> (\<exists>x. r = Inr x \<and> f x = Inr y)"
  by (cases r) auto

lemma map_err_Inr: "map_err f r = Inr y \<longleftrightarrow> r = Inr y"
  by (cases r) auto

lemma ok_or_Inr: "ok_or e r = Inr x \<longleftrightarrow> r = Some x"
  by (cases r) auto

section \<open>The values of a step (\<open>api/values.rs\<close>)\<close>

record resolved_model =
  rm_reference :: ustring
  rm_environment :: ustring
  rm_profile :: ustring
  rm_effort :: "ustring option"
  rm_wire_model :: ustring

datatype run_id = RunId ustring

datatype call_id = CallId ustring

fun call_text :: "call_id \<Rightarrow> ustring" where
  "call_text (CallId hex) = hex"

record worktree_info =
  wt_path :: ustring
  wt_branch :: ustring
  wt_head :: ustring

record worker_ref =
  wk_id :: ustring
  wk_description :: ustring

datatype schema_check = ScNotRequested | ScPassed | ScFailed "ustring list"

datatype step_end =
    EndDone (ed_summary: ustring) (ed_evidence: ustring) (ed_result: "json option") (ed_schema: schema_check)
  | EndBlocked (eb_summary: ustring) (eb_needs: ustring)
  | EndWithoutFinish (ew_text: ustring)
  | EndFailed (ef_message: ustring)
  | EndRouteFailed (er_model: ustring) (er_error: ustring)
  | EndCancelled

datatype step_status = SsDone | SsBlocked | SsFailed | SsCancelled

datatype moved_on = MvRouteFailed | MvCapped

record model_try =
  mt_model :: ustring
  mt_moved_on :: "moved_on option"

record step_envelope =
  en_step :: call_id
  en_label :: "ustring option"
  en_status :: step_status
  en_value :: json
  en_schema :: schema_check
  en_evidence :: "ustring option"
  en_attempts :: nat
  en_worker :: "ustring option"
  en_needs :: "ustring option"
  en_error :: "ustring option"
  en_models :: "model_try list"
  en_worktree :: "worktree_info option"

section \<open>Requests, journal and reports (\<open>api.rs\<close>)\<close>

record step_request =
  sq_run :: run_id
  sq_call :: call_id
  sq_label :: "ustring option"
  sq_phase :: "ustring option"
  sq_role :: ustring
  sq_model :: resolved_model
  sq_tools :: "ustring list"
  sq_prompt :: ustring
  sq_schema :: "json option"
  sq_workspace :: "ustring option"
  sq_attempt :: nat
  sq_ordinal :: nat
  sq_worktree :: "ustring option"
  sq_base :: "ustring option"

record step_outcome =
  so_worker :: worker_ref
  so_end :: step_end

datatype run_outcome = RoCompleted | RoCompletedWithIssues | RoFailed | RoCancelled

record counts =
  cn_steps :: nat
  cn_replayed :: nat
  cn_done :: nat
  cn_blocked :: nat
  cn_failed :: nat
  cn_cancelled :: nat
  cn_not_verified :: nat
  cn_capped :: nat
  cn_invalid_output :: nat
  cn_fell_back :: nat

definition no_counts :: counts where
  "no_counts = \<lparr>cn_steps = 0, cn_replayed = 0, cn_done = 0, cn_blocked = 0, cn_failed = 0,
     cn_cancelled = 0, cn_not_verified = 0, cn_capped = 0, cn_invalid_output = 0, cn_fell_back = 0\<rparr>"

definition workflow_journal_version :: nat where
  "workflow_journal_version = 1"

text \<open>A run's journal lines; the fields of \<open>started\<close> that only describe the run are kept too.\<close>

datatype journal_line =
    JlStarted (js_version: nat) (js_run: run_id) (js_script_hash: ustring) (js_args: json)
      (js_resumed_from: "run_id option") (js_base: "ustring option") (js_inherited: "ustring \<rightharpoonup> nat")
  | JlPhase ustring
  | JlDispatch (jd_call: call_id) (jd_label: "ustring option") (jd_role: ustring) (jd_model: ustring)
      (jd_wire_model: ustring) (jd_attempt: nat) (jd_prompt: ustring) (jd_opts: json)
  | JlCapped (jc_call: call_id) (jc_wire_model: ustring) (jc_used: nat) (jc_limit: nat)
  | JlReplayed (jp_call: call_id) (jp_from: run_id)
  | JlFallback (jf_call: call_id) (jf_from: ustring) (jf_to: ustring) (jf_error: ustring)
  | JlResult (jr_call: call_id) (jr_envelope: step_envelope)
  | JlEnded (je_outcome: run_outcome) (je_counts: counts) (je_error: "ustring option")

record step_line =
  sl_call :: call_id
  sl_ordinal :: nat
  sl_label :: "ustring option"
  sl_role :: ustring
  sl_model :: ustring
  sl_worker :: "ustring option"
  sl_status :: step_status
  sl_schema :: ustring
  sl_evidence :: "ustring option"
  sl_attempts :: nat
  sl_replayed :: bool
  sl_error :: "ustring option"
  sl_models :: "model_try list"

record run_report =
  rr_id :: run_id
  rr_outcome :: run_outcome
  rr_value :: json
  rr_counts :: counts
  rr_steps :: "step_line list"
  rr_error :: "ustring option"
  rr_run_dir :: ustring

text \<open>The arrow between two models is U+2192.\<close>

definition model_text :: "model_try \<Rightarrow> ustring" where
  "model_text tried = (case mt_moved_on tried of
      None \<Rightarrow> mt_model tried
    | Some MvRouteFailed \<Rightarrow> mt_model tried @ lit '' route failed''
    | Some MvCapped \<Rightarrow> mt_model tried @ lit '' capped'')"

definition model_chain :: "step_line \<Rightarrow> ustring" where
  "model_chain line =
     (if sl_models line = [] then sl_model line
      else join_with (lit '' '' @ [0x2192] @ lit '' '') (map model_text (sl_models line)))"

section \<open>Settings\<close>

record role_spec =
  rs_model :: ustring
  rs_fallback :: "ustring list"
  rs_tools :: "ustring list"

record workflow_settings =
  ws_roles :: "ustring \<rightharpoonup> role_spec"
  ws_caps :: "ustring \<rightharpoonup> nat"
  ws_max_steps :: nat
  ws_max_threads :: nat

definition default_max_steps :: nat where "default_max_steps = 200"

definition default_max_threads :: nat where "default_max_threads = 64"

definition shipped_role :: "string \<Rightarrow> string list \<Rightarrow> role_spec" where
  "shipped_role model tools = \<lparr>rs_model = lit model, rs_fallback = [], rs_tools = map lit tools\<rparr>"

definition shipped :: workflow_settings where
  "shipped = \<lparr>
     ws_roles =
       [lit ''worker'' \<mapsto> shipped_role ''default/claude-sonnet-5'' [''read'', ''grep'', ''edit'', ''shell''],
        lit ''reviewer'' \<mapsto> shipped_role ''default/claude-sonnet-5:high'' [''read'', ''grep'', ''shell''],
        lit ''verifier'' \<mapsto> shipped_role ''default/claude-sonnet-5'' [''read'', ''grep'', ''shell''],
        lit ''judge'' \<mapsto> shipped_role ''default/claude-sonnet-5:high'' [''read'', ''grep'']],
     ws_caps = [lit ''claude-fable-5'' \<mapsto> 3],
     ws_max_steps = default_max_steps,
     ws_max_threads = default_max_threads\<rparr>"

definition overridden_by :: "workflow_settings \<Rightarrow> workflow_settings \<Rightarrow> workflow_settings" where
  "overridden_by base user = base\<lparr>
     ws_roles := ws_roles base ++ ws_roles user,
     ws_caps := ws_caps base ++ ws_caps user,
     ws_max_steps := ws_max_steps user,
     ws_max_threads := ws_max_threads user\<rparr>"

section \<open>The decision contract (\<open>decision/contract.rs\<close>)\<close>

definition contract_version :: nat where
  "contract_version = 1"

record role_view =
  rv_chain :: "resolved_model list"
  rv_tools :: "ustring list"

record replay_entry =
  re_index :: nat
  re_call :: call_id

record replay_view =
  rp_latched_off :: bool
  rp_open :: "replay_entry list"

record step_cost =
  ct_attempts :: nat
  ct_capped :: nat
  ct_fell_back :: nat

definition no_cost :: step_cost where
  "no_cost = \<lparr>ct_attempts = 0, ct_capped = 0, ct_fell_back = 0\<rparr>"

record repair_turn =
  rt_worker :: worker_ref
  rt_rejected :: step_envelope

record step_progress =
  sp_ordinal :: nat
  sp_cost :: step_cost
  sp_link :: "nat option"
  sp_moved_on :: bool
  sp_walked :: "model_try list"
  sp_last_error :: ustring
  sp_last_worker :: "ustring option"
  sp_route_failed :: bool
  sp_repair :: "repair_turn option"

definition fresh_progress :: "nat \<Rightarrow> step_progress" where
  "fresh_progress ordinal = \<lparr>sp_ordinal = ordinal, sp_cost = no_cost, sp_link = None,
     sp_moved_on = False, sp_walked = [], sp_last_error = [], sp_last_worker = None,
     sp_route_failed = False, sp_repair = None\<rparr>"

record snapshot =
  sn_version :: nat
  sn_run :: run_id
  sn_max_steps :: nat
  sn_has_base :: bool
  sn_role :: "role_view option"
  sn_replay :: replay_view
  sn_step :: step_progress

record plan_request =
  pq_version :: nat
  pq_call :: call_id
  pq_label :: "ustring option"
  pq_role :: ustring
  pq_worktree :: "ustring option"
  pq_tools :: "ustring list option"

datatype attempt =
    AtWorktreeRefused ustring
  | AtWorktreeCancelled
  | AtCapped ustring nat nat
  | AtJournalFailed ustring
  | AtRunnerRefused ustring
  | AtCancelled
  | AtEnded worker_ref step_end
  | AtRepairEnded step_end

record attempt_outcome =
  ao_version :: nat
  ao_call :: call_id
  ao_label :: "ustring option"
  ao_attempt :: attempt

datatype action =
    AcReplay (ar_entry: nat)
  | AcDispatch (ad_link: nat) (ad_model: ustring) (ad_tools: "ustring list") (ad_latch: bool)
  | AcRepair (ap_message: ustring) (ap_rejected: step_envelope)
  | AcMoveOn (am_reason: moved_on) (am_tried: model_try) (am_error: ustring) (am_worker: "ustring option")
  | AcEnd (ae_envelope: step_envelope) (ae_latch: bool)
  | AcCancelled (ac_envelope: step_envelope)

record transition =
  tr_version :: nat
  tr_action :: action

definition new_transition :: "action \<Rightarrow> transition" where
  "new_transition action = \<lparr>tr_version = contract_version, tr_action = action\<rparr>"

definition check_version :: "ustring \<Rightarrow> nat \<Rightarrow> ustring + unit" where
  "check_version what version =
     (if version = contract_version then Inr ()
      else Inl (lit ''unknown '' @ what @ lit '' version '' @ dec version @
        lit '' (this build speaks version '' @ dec contract_version @ lit '')''))"

lemma check_version_ok [simp]: "check_version what contract_version = Inr ()"
  by (simp add: check_version_def)

end
