(* ===== verification/WorkflowDecision.thy ===== *)
theory WorkflowDecision
  imports WorkflowApi
begin

text \<open>
  The decisions of a workflow step, \<open>crates/p1-workflow/src/decision/mod.rs\<close>: \<open>plan_step\<close> says what a
  step does next, \<open>accept_step\<close> what the end of an attempt means. Both are pure functions of the
  snapshot the substrate passes in. The JSON shells around them only serialize.
\<close>

section \<open>Small helpers\<close>

definition granted_tools :: "plan_request \<Rightarrow> role_view \<Rightarrow> ustring list" where
  "granted_tools request role = (case pq_tools request of Some tools \<Rightarrow> tools | None \<Rightarrow> rv_tools role)"

definition chain_link :: "resolved_model list \<Rightarrow> nat \<Rightarrow> resolved_model option" where
  "chain_link chain link = (if link < length chain then Some (chain ! link) else None)"

fun attempt_name :: "attempt \<Rightarrow> ustring" where
  "attempt_name (AtWorktreeRefused _) = lit ''worktree_refused''"
| "attempt_name AtWorktreeCancelled = lit ''worktree_cancelled''"
| "attempt_name (AtCapped _ _ _) = lit ''capped''"
| "attempt_name (AtJournalFailed _) = lit ''journal_failed''"
| "attempt_name (AtRunnerRefused _) = lit ''runner_refused''"
| "attempt_name AtCancelled = lit ''cancelled''"
| "attempt_name (AtEnded _ _) = lit ''ended''"
| "attempt_name (AtRepairEnded _) = lit ''repair_ended''"

definition worker_text :: "worker_ref \<Rightarrow> ustring" where
  "worker_text worker = wk_id worker @ lit '' ('' @ wk_description worker @ lit '')''"

text \<open>The methods of \<open>Blank\<close>, for the envelopes built from nothing.\<close>

definition blank_failed :: "call_id \<Rightarrow> ustring option \<Rightarrow> nat \<Rightarrow> step_envelope" where
  "blank_failed call label attempts = \<lparr>en_step = call, en_label = label, en_status = SsFailed,
     en_value = JNull, en_schema = ScNotRequested, en_evidence = None, en_attempts = attempts,
     en_worker = None, en_needs = None, en_error = None, en_models = [], en_worktree = None\<rparr>"

definition blank_refused :: "call_id \<Rightarrow> ustring option \<Rightarrow> ustring \<Rightarrow> step_envelope" where
  "blank_refused call label error = (blank_failed call label 0)\<lparr>en_error := Some error\<rparr>"

definition exhausted :: "call_id \<Rightarrow> ustring option \<Rightarrow> step_progress \<Rightarrow> step_envelope" where
  "exhausted call label step = (blank_refused call label [])\<lparr>
     en_worker := sp_last_worker step,
     en_error := Some (if sp_route_failed step then lit ''route: '' @ sp_last_error step
                       else sp_last_error step),
     en_attempts := ct_attempts (sp_cost step),
     en_models := sp_walked step\<rparr>"

fun envelope_from_end :: "step_end \<Rightarrow> nat \<Rightarrow> step_envelope \<Rightarrow> step_envelope" where
  "envelope_from_end (EndDone summary evidence result schema) attempts base = base\<lparr>
     en_attempts := attempts,
     en_status := SsDone,
     en_value := (case (schema, result) of (ScPassed, Some value) \<Rightarrow> value | _ \<Rightarrow> JString summary),
     en_schema := schema,
     en_evidence := Some evidence,
     en_error := None\<rparr>"
| "envelope_from_end (EndBlocked summary needs) attempts base = base\<lparr>
     en_attempts := attempts, en_status := SsBlocked, en_needs := Some needs, en_error := None\<rparr>"
| "envelope_from_end (EndRouteFailed model error) attempts base = base\<lparr>
     en_attempts := attempts, en_status := SsFailed, en_value := JNull,
     en_error := Some (lit ''route: '' @ error)\<rparr>"
| "envelope_from_end (EndWithoutFinish text) attempts base = base\<lparr>
     en_attempts := attempts, en_status := SsFailed, en_value := JString text,
     en_error := Some (lit ''ended without finish'')\<rparr>"
| "envelope_from_end (EndFailed message) attempts base = base\<lparr>
     en_attempts := attempts, en_status := SsFailed, en_error := Some message\<rparr>"
| "envelope_from_end EndCancelled attempts base = base\<lparr>
     en_attempts := attempts, en_status := SsCancelled, en_error := None\<rparr>"

definition finish_nudge :: ustring where
  "finish_nudge = lit ''You ended your turn without calling finish. Call finish now: status '' @ [34] @
     lit ''done'' @ [34] @ lit '' with your result (and the evidence), or '' @ [34] @ lit ''blocked'' @
     [34] @ lit '' with what you need.''"

definition repair_message :: "ustring list \<Rightarrow> ustring" where
  "repair_message errors = lit ''Your result did not match the required schema:'' @ newline @
     concat (map (\<lambda>error. lit ''- '' @ error @ newline) errors) @
     lit ''Call finish again with a corrected '' @ [34] @ lit ''result'' @ [34] @
     lit '' that matches the schema of the '' @ [34] @ lit ''result'' @ [34] @ lit '' parameter.''"

section \<open>\<open>plan_step\<close>\<close>

text \<open>The end of a plan: \<open>Ok(Transition::new(Action::End { .. }))\<close>.\<close>

definition plan_end :: "step_envelope \<Rightarrow> bool \<Rightarrow> ustring + transition" where
  "plan_end envelope latch = Inr (new_transition (AcEnd envelope latch))"

text \<open>The move of a step that left \<open>link\<close>.\<close>

definition plan_next :: "snapshot \<Rightarrow> plan_request \<Rightarrow> nat \<Rightarrow> ustring + transition" where
  "plan_next snapshot request link =
     (let step = sn_step snapshot in
      if \<not> sp_moved_on step then
        Inl (lit ''plan_step: the step is still on link '' @ dec link @ lit '': nothing to plan'')
      else try_then (ok_or (lit ''plan_step: a dispatched step has no role'') (sn_role snapshot)) (\<lambda>role.
        let next_link = wrapping_add32 link 1 in
        (case chain_link (rv_chain role) next_link of
          Some model \<Rightarrow> Inr (new_transition (AcDispatch next_link (rm_reference model)
            (granted_tools request role) False))
        | None \<Rightarrow> plan_end (exhausted (pq_call request) (pq_label request) step) False)))"

text \<open>The first move of a step.\<close>

definition plan_first :: "snapshot \<Rightarrow> plan_request \<Rightarrow> ustring + transition" where
  "plan_first snapshot request =
     (let step = sn_step snapshot;
          refused = blank_refused (pq_call request) (pq_label request) in
      if sn_max_steps snapshot < sp_ordinal step then
        plan_end (refused (lit ''max_steps: '' @ dec (sn_max_steps snapshot) @ lit '' reached'')) False
      else
        (case (if rp_latched_off (sn_replay snapshot) then None
               else List.find (\<lambda>entry. re_call entry = pq_call request) (rp_open (sn_replay snapshot))) of
          Some entry \<Rightarrow> Inr (new_transition (AcReplay (re_index entry)))
        | None \<Rightarrow>
            (case sn_role snapshot of
              None \<Rightarrow> plan_end (refused (lit ''unknown_role: '' @ pq_role request)) True
            | Some role \<Rightarrow>
                (case rv_chain role of
                  [] \<Rightarrow> plan_end (exhausted (pq_call request) (pq_label request) step) True
                | head # _ \<Rightarrow>
                    (case (pq_worktree request, sn_has_base snapshot) of
                      (Some slug, False) \<Rightarrow> plan_end (refused (lit ''worktree: '' @ slug @
                        lit '': the run has no base commit (its workspace is not a git repository)'')) True
                    | _ \<Rightarrow> Inr (new_transition (AcDispatch 0 (rm_reference head)
                        (granted_tools request role) True)))))))"

definition plan_step :: "snapshot \<Rightarrow> plan_request \<Rightarrow> ustring + transition" where
  "plan_step snapshot request =
     try_then (check_version (lit ''snapshot'') (sn_version snapshot)) (\<lambda>_.
     try_then (check_version (lit ''request'') (pq_version request)) (\<lambda>_.
       (case sp_link (sn_step snapshot) of
         Some link \<Rightarrow> plan_next snapshot request link
       | None \<Rightarrow> plan_first snapshot request)))"

section \<open>\<open>accept_step\<close>\<close>

text \<open>Before a link: only the worktree can have ended the step.\<close>

definition accept_unlinked :: "attempt_outcome \<Rightarrow> ustring + transition" where
  "accept_unlinked outcome =
     (case ao_attempt outcome of
       AtWorktreeRefused error \<Rightarrow>
         Inr (new_transition (AcEnd (blank_refused (ao_call outcome) (ao_label outcome) error) False))
     | AtWorktreeCancelled \<Rightarrow>
         Inr (new_transition (AcCancelled ((blank_refused (ao_call outcome) (ao_label outcome) [])\<lparr>
           en_status := SsCancelled, en_error := None\<rparr>)))
     | other \<Rightarrow> Inl (lit ''accept_step: '' @ attempt_name other @ lit '' before any link was dispatched''))"

text \<open>The closures \<open>models\<close>, \<open>end\<close> and \<open>cancelled\<close>: the link the step ends on is named last.\<close>

definition with_models :: "step_progress \<Rightarrow> resolved_model \<Rightarrow> step_envelope \<Rightarrow> step_envelope" where
  "with_models step model envelope = envelope\<lparr>
     en_models := sp_walked step @ [\<lparr>mt_model = rm_reference model, mt_moved_on = None\<rparr>]\<rparr>"

definition accept_end :: "step_progress \<Rightarrow> resolved_model \<Rightarrow> step_envelope \<Rightarrow> ustring + transition" where
  "accept_end step model envelope = Inr (new_transition (AcEnd (with_models step model envelope) False))"

definition accept_cancelled :: "step_progress \<Rightarrow> resolved_model \<Rightarrow> step_envelope \<Rightarrow> ustring + transition" where
  "accept_cancelled step model envelope = Inr (new_transition (AcCancelled (with_models step model envelope)))"

definition accept_settled :: "step_progress \<Rightarrow> resolved_model \<Rightarrow> step_envelope \<Rightarrow> ustring + transition" where
  "accept_settled step model envelope =
     (if en_status envelope = SsCancelled then accept_cancelled step model envelope
      else accept_end step model envelope)"

definition accept_capped ::
  "step_progress \<Rightarrow> resolved_model \<Rightarrow> bool \<Rightarrow> ustring \<Rightarrow> nat \<Rightarrow> nat \<Rightarrow> ustring + transition" where
  "accept_capped step model is_last wire_model used limit =
     (let suffix = (if sp_repair step \<noteq> None then lit '' (repair)'' else []);
          error = lit ''quota_exceeded: '' @ wire_model @ lit '' used='' @ dec used @ lit '' limit='' @
            dec limit @ suffix in
      case sp_repair step of
        Some repair \<Rightarrow> accept_end step model ((rt_rejected repair)\<lparr>en_error := Some error\<rparr>)
      | None \<Rightarrow> Inr (new_transition (AcMoveOn MvCapped
          \<lparr>mt_model = rm_reference model, mt_moved_on = (if is_last then None else Some MvCapped)\<rparr> error None)))"

text \<open>The first turn of a link ended.\<close>

definition accept_ended ::
  "call_id \<Rightarrow> ustring option \<Rightarrow> step_progress \<Rightarrow> resolved_model \<Rightarrow> bool \<Rightarrow> worker_ref \<Rightarrow> step_end \<Rightarrow>
    ustring + transition" where
  "accept_ended call label step model is_last worker ended =
     (let attempts = ct_attempts (sp_cost step);
          line = worker_text worker;
          base = (blank_failed call label attempts)\<lparr>en_worker := Some line\<rparr> in
      case ended of
        EndRouteFailed reported error \<Rightarrow>
          Inr (new_transition (AcMoveOn MvRouteFailed
            \<lparr>mt_model = (if reported = [] then rm_reference model else reported),
             mt_moved_on = (if is_last then None else Some MvRouteFailed)\<rparr> error (Some line)))
      | EndDone summary evidence result (ScFailed errors) \<Rightarrow>
          Inr (new_transition (AcRepair (repair_message errors) (base\<lparr>
            en_value := (case result of Some value \<Rightarrow> value | None \<Rightarrow> JNull),
            en_schema := ScFailed errors,
            en_evidence := Some evidence,
            en_error := None\<rparr>)))
      | EndWithoutFinish _ \<Rightarrow>
          Inr (new_transition (AcRepair finish_nudge (envelope_from_end ended attempts base)))
      | other \<Rightarrow> accept_settled step model (envelope_from_end other attempts base))"

text \<open>The repair turn ended.\<close>

definition accept_repaired ::
  "step_progress \<Rightarrow> resolved_model \<Rightarrow> step_envelope \<Rightarrow> step_end \<Rightarrow> ustring + transition" where
  "accept_repaired step model rejected ended =
     (let attempts = ct_attempts (sp_cost step) in
      accept_settled step model
        (case ended of
          EndDone summary evidence result (ScFailed errors) \<Rightarrow> rejected\<lparr>
            en_status := SsFailed,
            en_value := (case result of Some value \<Rightarrow> value | None \<Rightarrow> en_value rejected),
            en_error := Some (lit ''invalid_output: '' @ join_with (lit ''; '') errors),
            en_schema := ScFailed errors,
            en_evidence := Some evidence,
            en_attempts := attempts\<rparr>
        | other \<Rightarrow> envelope_from_end other attempts
            (rejected\<lparr>en_value := JNull, en_schema := ScNotRequested, en_evidence := None\<rparr>)))"

definition accept_linked ::
  "attempt_outcome \<Rightarrow> step_progress \<Rightarrow> nat \<Rightarrow> resolved_model \<Rightarrow> bool \<Rightarrow> ustring + transition" where
  "accept_linked outcome step link model is_last =
     (let attempts = ct_attempts (sp_cost step);
          failed = blank_failed (ao_call outcome) (ao_label outcome) attempts in
      case ao_attempt outcome of
        AtWorktreeRefused _ \<Rightarrow> Inl (lit ''accept_step: '' @ attempt_name (ao_attempt outcome) @
          lit '' after link '' @ dec link @ lit '' was dispatched'')
      | AtWorktreeCancelled \<Rightarrow> Inl (lit ''accept_step: '' @ attempt_name (ao_attempt outcome) @
          lit '' after link '' @ dec link @ lit '' was dispatched'')
      | AtCapped wire_model used limit \<Rightarrow> accept_capped step model is_last wire_model used limit
      | AtJournalFailed error \<Rightarrow> accept_end step model
          (case sp_repair step of
            Some repair \<Rightarrow> (rt_rejected repair)\<lparr>en_error := Some error\<rparr>
          | None \<Rightarrow> failed\<lparr>en_error := Some error\<rparr>)
      | AtRunnerRefused reason \<Rightarrow> accept_end step model
          (case sp_repair step of
            Some repair \<Rightarrow> (rt_rejected repair)\<lparr>en_attempts := attempts, en_error := Some reason\<rparr>
          | None \<Rightarrow> failed\<lparr>en_error := Some reason\<rparr>)
      | AtCancelled \<Rightarrow> accept_cancelled step model
          (case sp_repair step of
            Some repair \<Rightarrow> failed\<lparr>en_status := SsCancelled, en_worker := Some (worker_text (rt_worker repair))\<rparr>
          | None \<Rightarrow> failed\<lparr>en_status := SsCancelled\<rparr>)
      | AtEnded worker ended \<Rightarrow>
          (if sp_repair step \<noteq> None then
             Inl (lit ''accept_step: a first turn ended during the repair turn'')
           else accept_ended (ao_call outcome) (ao_label outcome) step model is_last worker ended)
      | AtRepairEnded ended \<Rightarrow>
          try_then (ok_or (lit ''accept_step: a repair turn ended but none was asked for'') (sp_repair step))
            (\<lambda>repair. accept_repaired step model (rt_rejected repair) ended))"

definition accept_step :: "snapshot \<Rightarrow> attempt_outcome \<Rightarrow> ustring + transition" where
  "accept_step snapshot outcome =
     try_then (check_version (lit ''snapshot'') (sn_version snapshot)) (\<lambda>_.
     try_then (check_version (lit ''outcome'') (ao_version outcome)) (\<lambda>_.
       (let step = sn_step snapshot in
        case sp_link step of
          None \<Rightarrow> accept_unlinked outcome
        | Some link \<Rightarrow>
            try_then (ok_or (lit ''accept_step: a dispatched step has no role'') (sn_role snapshot)) (\<lambda>role.
            try_then (ok_or (lit ''accept_step: link '' @ dec link @ lit '' is not in the role's chain'')
                (chain_link (rv_chain role) link)) (\<lambda>model.
              accept_linked outcome step link model (length (rv_chain role) \<le> link + 1))))))"

end
