(* ===== verification/WorkflowCheck.thy ===== *)
theory WorkflowCheck
  imports WorkflowDecision
begin

text \<open>
  The substrate's check of every transition a decision answers, \<open>crates/p1-workflow/src/check.rs\<close>,
  and the grant check with \<open>forbidden_tool\<close> of \<open>engine.rs\<close>. The lemmas show what the check
  enforces whatever the decision is, and that the decisions compiled into the crate pass it in
  every state a step can be in (\<open>step_fits\<close>, \<open>attempt_fits\<close>): none of their moves is refused.
\<close>

section \<open>The check\<close>

definition forbidden_tool :: "ustring \<Rightarrow> bool" where
  "forbidden_tool name \<longleftrightarrow> name = [] \<or> name = lit ''finish'' \<or> name = lit ''delegate'' \<or>
     starts_with (lit ''worker'') name \<or> starts_with (lit ''workflow'') name"

definition check_grant :: "ustring list \<Rightarrow> ustring list option \<Rightarrow> ustring + unit" where
  "check_grant tools expected =
     (if list_ex forbidden_tool tools \<or> expected \<noteq> Some tools
      then Inl (lit ''the decision changes the configured tool grant'') else Inr ())"

datatype ask = AskPlan | AskAccept attempt

definition check_envelope :: "snapshot \<Rightarrow> call_id \<Rightarrow> step_envelope \<Rightarrow> ustring + unit" where
  "check_envelope snapshot call envelope =
     (if en_step envelope \<noteq> call then
        Inl (lit ''its envelope answers call '' @ call_text (en_step envelope) @ lit '', not '' @ call_text call)
      else
        (let attempts = ct_attempts (sp_cost (sn_step snapshot)) in
         if en_attempts envelope \<noteq> attempts then
           Inl (lit ''it changes a counter: attempts '' @ dec (en_attempts envelope) @
             lit '' where the step spent '' @ dec attempts)
         else Inr ()))"

definition check_replay :: "snapshot \<Rightarrow> call_id \<Rightarrow> nat \<Rightarrow> ustring + unit" where
  "check_replay snapshot call entry =
     (if sp_link (sn_step snapshot) = None \<and> \<not> rp_latched_off (sn_replay snapshot) \<and>
         list_ex (\<lambda>open. re_index open = entry \<and> re_call open = call) (rp_open (sn_replay snapshot))
      then Inr ()
      else Inl (lit ''it replays entry '' @ dec entry @ lit '', which the journal does not hold for call '' @
        call_text call))"

definition check_dispatch :: "snapshot \<Rightarrow> nat \<Rightarrow> ustring \<Rightarrow> ustring + unit" where
  "check_dispatch snapshot link model =
     (let step = sn_step snapshot;
          named = (case sn_role snapshot of None \<Rightarrow> False
            | Some role \<Rightarrow> (case chain_link (rv_chain role) link of None \<Rightarrow> False
                | Some resolved \<Rightarrow> rm_reference resolved = model));
          next = (case sp_link step of None \<Rightarrow> link = 0
            | Some current \<Rightarrow> sp_moved_on step \<and> checked_add32 current 1 = Some link) in
      if \<not> named then Inl (lit ''it names '' @ model @ lit '' (link '' @ dec link @
        lit ''), which is not in the role's chain'')
      else if \<not> next then Inl (lit ''it dispatches link '' @ dec link @
        lit '' without a route failure or a cap on the link before'')
      else Inr ())"

definition earned_move :: "snapshot \<Rightarrow> moved_on \<Rightarrow> attempt \<Rightarrow> bool" where
  "earned_move snapshot reason attempt \<longleftrightarrow> sp_repair (sn_step snapshot) = None \<and>
     (case (reason, attempt) of
       (MvRouteFailed, AtEnded _ (EndRouteFailed _ _)) \<Rightarrow> True
     | (MvCapped, AtCapped _ _ _) \<Rightarrow> True
     | _ \<Rightarrow> False)"

definition check_move_on :: "snapshot \<Rightarrow> moved_on \<Rightarrow> attempt \<Rightarrow> ustring + unit" where
  "check_move_on snapshot reason attempt =
     (if earned_move snapshot reason attempt then Inr ()
      else Inl (lit ''it moves on to the next link without a route failure or a cap''))"

definition check_repair :: "snapshot \<Rightarrow> call_id \<Rightarrow> step_envelope \<Rightarrow> attempt \<Rightarrow> ustring + unit" where
  "check_repair snapshot call rejected attempt =
     (if sp_repair (sn_step snapshot) \<noteq> None \<or> (case attempt of AtRepairEnded _ \<Rightarrow> True | _ \<Rightarrow> False) then
        Inl (lit ''it asks for a second repair turn'')
      else if \<not> (case attempt of AtEnded _ _ \<Rightarrow> True | _ \<Rightarrow> False) then
        Inl (lit ''it asks for a repair of a turn that did not run'')
      else check_envelope snapshot call rejected)"

text \<open>The worker and the accepted outcome a successful envelope has to carry.\<close>

definition done_turn :: "snapshot \<Rightarrow> ask \<Rightarrow>
    ustring + (worker_ref \<times> ustring \<times> ustring \<times> json option \<times> schema_check)" where
  "done_turn snapshot ask =
     (case ask of
       AskAccept (AtEnded worker (EndDone summary evidence result schema)) \<Rightarrow>
         Inr (worker, summary, evidence, result, schema)
     | AskAccept (AtRepairEnded (EndDone summary evidence result schema)) \<Rightarrow>
         try_then (ok_or (lit ''repair finished without a worker'') (sp_repair (sn_step snapshot)))
           (\<lambda>repair. Inr (rt_worker repair, summary, evidence, result, schema))
     | _ \<Rightarrow> Inl (lit ''it reports success without a successful worker turn''))"

definition accepted_value :: "ustring \<Rightarrow> json option \<Rightarrow> schema_check \<Rightarrow> json" where
  "accepted_value summary result schema =
     (case (schema, result) of (ScPassed, Some value) \<Rightarrow> value | _ \<Rightarrow> JString summary)"

definition check_done :: "snapshot \<Rightarrow> ask \<Rightarrow> step_envelope \<Rightarrow> ustring + unit" where
  "check_done snapshot ask ended =
     try_then (done_turn snapshot ask) (\<lambda>(worker, summary, evidence, result, schema).
       if en_value ended \<noteq> accepted_value summary result schema \<or> en_evidence ended \<noteq> Some evidence \<or>
          en_schema ended \<noteq> schema \<or>
          (case en_worker ended of None \<Rightarrow> True | Some line \<Rightarrow> \<not> starts_with (wk_id worker) line)
       then Inl (lit ''it forges a successful worker outcome'')
       else Inr ())"

definition check_end :: "snapshot \<Rightarrow> call_id \<Rightarrow> ask \<Rightarrow> step_envelope \<Rightarrow> ustring + unit" where
  "check_end snapshot call ask ended =
     try_then (check_envelope snapshot call ended) (\<lambda>_.
     try_then (if en_status ended = SsDone then check_done snapshot ask ended else Inr ()) (\<lambda>_.
       if en_status ended = SsCancelled then Inl (lit ''it ends the step cancelled without a cancellation'')
       else Inr ()))"

definition check_cancelled :: "snapshot \<Rightarrow> call_id \<Rightarrow> step_envelope \<Rightarrow> ustring + unit" where
  "check_cancelled snapshot call ended =
     (if en_status ended \<noteq> SsCancelled then
        Inl (lit ''it cancels the step with an envelope that is not cancelled'')
      else check_envelope snapshot call ended)"

definition check_action :: "snapshot \<Rightarrow> call_id \<Rightarrow> ask \<Rightarrow> action \<Rightarrow> ustring + unit" where
  "check_action snapshot call ask action =
     (case (action, ask) of
       (AcReplay entry, AskPlan) \<Rightarrow> check_replay snapshot call entry
     | (AcDispatch link model _ _, AskPlan) \<Rightarrow> check_dispatch snapshot link model
     | (AcMoveOn reason _ _ _, AskAccept attempt) \<Rightarrow> check_move_on snapshot reason attempt
     | (AcRepair _ rejected, AskAccept attempt) \<Rightarrow> check_repair snapshot call rejected attempt
     | (AcEnd ended _, _) \<Rightarrow> check_end snapshot call ask ended
     | (AcCancelled ended, _) \<Rightarrow> check_cancelled snapshot call ended
     | (AcReplay _, AskAccept _) \<Rightarrow> Inl (lit ''accept_step answered with a plan'')
     | (AcDispatch _ _ _ _, AskAccept _) \<Rightarrow> Inl (lit ''accept_step answered with a plan'')
     | (AcMoveOn _ _ _ _, AskPlan) \<Rightarrow> Inl (lit ''plan_step answered for an attempt that did not run'')
     | (AcRepair _ _, AskPlan) \<Rightarrow> Inl (lit ''plan_step answered for an attempt that did not run''))"

definition check_transition :: "snapshot \<Rightarrow> call_id \<Rightarrow> ask \<Rightarrow> transition \<Rightarrow> ustring + action" where
  "check_transition snapshot call ask t =
     try_then (check_version (lit ''transition'') (tr_version t)) (\<lambda>_.
     try_then (check_action snapshot call ask (tr_action t)) (\<lambda>_. Inr (tr_action t)))"

section \<open>The decisions of a run\<close>

text \<open>
  \<open>trait Decisions\<close>: the substrate holds one implementation. A component may keep state of its
  own and be called from several threads, so its answers may depend on more than the snapshot;
  \<open>'e\<close> is what else they depend on. The native decisions depend on nothing else.
\<close>

record 'e decisions =
  dc_plan_step :: "'e \<Rightarrow> snapshot \<Rightarrow> plan_request \<Rightarrow> ustring + transition"
  dc_accept_step :: "'e \<Rightarrow> snapshot \<Rightarrow> attempt_outcome \<Rightarrow> ustring + transition"

definition native_decisions :: "'e decisions" where
  "native_decisions = \<lparr>dc_plan_step = (\<lambda>_. plan_step), dc_accept_step = (\<lambda>_. accept_step)\<rparr>"

text \<open>What the substrate asks: \<open>plan_step\<close> with the call, or \<open>accept_step\<close> with the attempt.\<close>

definition decide :: "'e decisions \<Rightarrow> 'e \<Rightarrow> snapshot \<Rightarrow> plan_request \<Rightarrow> ask \<Rightarrow> ustring + transition" where
  "decide ds e snapshot plan ask =
     (case ask of
       AskPlan \<Rightarrow> dc_plan_step ds e snapshot plan
     | AskAccept attempt \<Rightarrow> dc_accept_step ds e snapshot
         \<lparr>ao_version = contract_version, ao_call = pq_call plan, ao_label = pq_label plan,
          ao_attempt = attempt\<rparr>)"

section \<open>The states a step can be in\<close>

text \<open>
  What the substrate's own bookkeeping guarantees of a snapshot: nothing is spent before the first
  link, a link is one of the role's chain (whose length a \<open>u32\<close> can count), and the envelope kept
  for the repair turn is a failed one of this call that names the repair's worker.
\<close>

definition repair_fits :: "call_id \<Rightarrow> repair_turn \<Rightarrow> bool" where
  "repair_fits call repair \<longleftrightarrow> en_step (rt_rejected repair) = call \<and>
     en_status (rt_rejected repair) = SsFailed \<and>
     en_worker (rt_rejected repair) = Some (worker_text (rt_worker repair))"

definition step_fits :: "snapshot \<Rightarrow> call_id \<Rightarrow> bool" where
  "step_fits s call \<longleftrightarrow> sn_version s = contract_version \<and>
     (case sn_role s of None \<Rightarrow> True | Some role \<Rightarrow> length (rv_chain role) < 2 ^ 32) \<and>
     (case sp_link (sn_step s) of
       None \<Rightarrow> ct_attempts (sp_cost (sn_step s)) = 0 \<and> sp_repair (sn_step s) = None
     | Some link \<Rightarrow> \<exists>role. sn_role s = Some role \<and> link < length (rv_chain role)) \<and>
     (case sp_repair (sn_step s) of None \<Rightarrow> True | Some repair \<Rightarrow> repair_fits call repair)"

text \<open>The attempts that can have ended in such a state.\<close>

fun attempt_fits :: "step_progress \<Rightarrow> attempt \<Rightarrow> bool" where
  "attempt_fits step (AtWorktreeRefused _) \<longleftrightarrow> sp_link step = None"
| "attempt_fits step AtWorktreeCancelled \<longleftrightarrow> sp_link step = None"
| "attempt_fits step (AtCapped _ _ _) \<longleftrightarrow> sp_link step \<noteq> None \<and>
     (case sp_repair step of None \<Rightarrow> True
       | Some repair \<Rightarrow> en_attempts (rt_rejected repair) = ct_attempts (sp_cost step))"
| "attempt_fits step (AtJournalFailed _) \<longleftrightarrow> sp_link step \<noteq> None \<and>
     (case sp_repair step of None \<Rightarrow> True
       | Some repair \<Rightarrow> en_attempts (rt_rejected repair) = ct_attempts (sp_cost step))"
| "attempt_fits step (AtRunnerRefused _) \<longleftrightarrow> sp_link step \<noteq> None"
| "attempt_fits step AtCancelled \<longleftrightarrow> sp_link step \<noteq> None"
| "attempt_fits step (AtEnded _ _) \<longleftrightarrow> sp_link step \<noteq> None \<and> sp_repair step = None"
| "attempt_fits step (AtRepairEnded _) \<longleftrightarrow> sp_link step \<noteq> None \<and> sp_repair step \<noteq> None"

fun ask_fits :: "step_progress \<Rightarrow> ask \<Rightarrow> bool" where
  "ask_fits step AskPlan \<longleftrightarrow> sp_link step = None \<or> sp_moved_on step"
| "ask_fits step (AskAccept attempt) \<longleftrightarrow> attempt_fits step attempt"

definition request_fits :: "snapshot \<Rightarrow> plan_request \<Rightarrow> bool" where
  "request_fits s plan \<longleftrightarrow> pq_version plan = contract_version \<and>
     (case pq_tools plan of Some tools \<Rightarrow> \<not> list_ex forbidden_tool tools
      | None \<Rightarrow> (case sn_role s of None \<Rightarrow> True | Some role \<Rightarrow> \<not> list_ex forbidden_tool (rv_tools role)))"

definition expected_grant :: "snapshot \<Rightarrow> plan_request \<Rightarrow> ustring list option" where
  "expected_grant s plan = (case pq_tools plan of Some tools \<Rightarrow> Some tools
     | None \<Rightarrow> map_option rv_tools (sn_role s))"

text \<open>The whole examination of an answer: the check, and the grant of a dispatch.\<close>

fun granted :: "action \<Rightarrow> ustring list option \<Rightarrow> bool" where
  "granted (AcDispatch _ _ tools _) expected \<longleftrightarrow> check_grant tools expected = Inr ()"
| "granted _ expected \<longleftrightarrow> True"

definition passes :: "snapshot \<Rightarrow> plan_request \<Rightarrow> ask \<Rightarrow> action \<Rightarrow> bool" where
  "passes s plan ask action \<longleftrightarrow> check_action s (pq_call plan) ask action = Inr () \<and>
     granted action (expected_grant s plan)"

section \<open>The native decisions pass\<close>

lemma starts_with_worker [simp]: "starts_with (wk_id w) (worker_text w)"
  by (simp add: worker_text_def)

lemma blank_simps [simp]:
  "en_step (blank_failed call label n) = call" "en_attempts (blank_failed call label n) = n"
  "en_status (blank_failed call label n) = SsFailed"
  "en_step (blank_refused call label e) = call" "en_attempts (blank_refused call label e) = 0"
  "en_status (blank_refused call label e) = SsFailed"
  "en_step (exhausted call label st) = call"
  "en_attempts (exhausted call label st) = ct_attempts (sp_cost st)"
  "en_status (exhausted call label st) = SsFailed"
  by (simp_all add: blank_failed_def blank_refused_def exhausted_def)

lemma with_models_simps [simp]:
  "en_step (with_models st m e) = en_step e" "en_attempts (with_models st m e) = en_attempts e"
  "en_status (with_models st m e) = en_status e" "en_value (with_models st m e) = en_value e"
  "en_evidence (with_models st m e) = en_evidence e" "en_schema (with_models st m e) = en_schema e"
  "en_worker (with_models st m e) = en_worker e"
  by (simp_all add: with_models_def)

lemma envelope_from_end_simps [simp]:
  "en_step (envelope_from_end ended n base) = en_step base"
  "en_attempts (envelope_from_end ended n base) = n"
  "en_worker (envelope_from_end ended n base) = en_worker base"
  by (cases ended; simp)+

text \<open>An envelope that is neither successful nor cancelled ends a step when it is this call's and
  carries the counter.\<close>

lemma check_end_failed:
  "en_status e = SsFailed \<or> en_status e = SsBlocked \<Longrightarrow> en_step e = call \<Longrightarrow>
    en_attempts e = ct_attempts (sp_cost (sn_step s)) \<Longrightarrow> check_end s call ask e = Inr ()"
  by (auto simp: check_end_def check_envelope_def)

lemma check_cancelled_ok:
  "en_status e = SsCancelled \<Longrightarrow> en_step e = call \<Longrightarrow>
    en_attempts e = ct_attempts (sp_cost (sn_step s)) \<Longrightarrow> check_cancelled s call e = Inr ()"
  by (auto simp: check_cancelled_def check_envelope_def)

lemma check_action_simps [simp]:
  "check_action s call AskPlan (AcReplay entry) = check_replay s call entry"
  "check_action s call AskPlan (AcDispatch link model tools latch) = check_dispatch s link model"
  "check_action s call (AskAccept attempt) (AcMoveOn reason tried error worker) = check_move_on s reason attempt"
  "check_action s call (AskAccept attempt) (AcRepair message rejected) = check_repair s call rejected attempt"
  "check_action s call ask (AcEnd ended latch) = check_end s call ask ended"
  "check_action s call ask (AcCancelled ended) = check_cancelled s call ended"
  by (simp_all add: check_action_def)

lemma new_transition_eq [simp]: "new_transition a = new_transition b \<longleftrightarrow> a = b"
  by (simp add: new_transition_def)

lemma check_transition_new:
  "check_transition s call ask (new_transition a) = Inr a \<longleftrightarrow> check_action s call ask a = Inr ()"
  by (cases "check_action s call ask a") (auto simp: check_transition_def new_transition_def)

lemma native_plan_passes:
  assumes fits: "step_fits s (pq_call plan)" "ask_fits (sn_step s) AskPlan" "request_fits s plan"
  obtains a where "plan_step s plan = Inr (new_transition a)" "passes s plan AskPlan a"
proof (cases "sp_link (sn_step s)")
  case None
  have zero: "ct_attempts (sp_cost (sn_step s)) = 0"
    using fits(1) None by (simp add: step_fits_def)
  have plan: "plan_step s plan = plan_first s plan"
    using fits None by (simp add: plan_step_def step_fits_def request_fits_def)
  note simps = plan_first_def plan_end_def passes_def check_end_failed zero
  have "\<exists>a. plan_first s plan = Inr (new_transition a) \<and> passes s plan AskPlan a"
  proof (cases "sn_max_steps s < sp_ordinal (sn_step s)")
    case True
    then show ?thesis by (simp add: simps)
  next
    case below: False
    let ?found = "if rp_latched_off (sn_replay s) then None
      else List.find (\<lambda>entry. re_call entry = pq_call plan) (rp_open (sn_replay s))"
    show ?thesis
    proof (cases ?found)
      case (Some entry)
      then have "check_replay s (pq_call plan) (re_index entry) = Inr ()"
        using None by (auto simp: check_replay_def list_ex_iff split: if_splits dest: find_SomeD)
      with Some below show ?thesis by (simp add: simps)
    next
      case missed: None
      show ?thesis
      proof (cases "sn_role s")
        case unknown: None
        with below missed show ?thesis by (simp add: simps)
      next
        case (Some role)
        with below missed fits(3) None show ?thesis
          by (cases "rv_chain role"; cases "pq_worktree plan"; cases "sn_has_base s"; cases "pq_tools plan")
            (simp_all add: simps check_dispatch_def chain_link_def check_grant_def granted_tools_def
              expected_grant_def request_fits_def)
      qed
    qed
  qed
  with plan that show ?thesis by metis
next
  case (Some link)
  obtain role where role: "sn_role s = Some role" "link < length (rv_chain role)" "length (rv_chain role) < 2 ^ 32"
    using fits(1) Some by (auto simp: step_fits_def)
  have next_link: "wrapping_add32 link 1 = link + 1" "checked_add32 link 1 = Some (link + 1)"
    using role by (simp_all add: wrapping_add32_def checked_add32_def u32_max_def)
  have plan: "plan_step s plan = plan_next s plan link"
    using fits Some by (simp add: plan_step_def step_fits_def request_fits_def)
  have "\<exists>a. plan_next s plan link = Inr (new_transition a) \<and> passes s plan AskPlan a"
    using fits(2,3) Some role next_link
    by (auto simp: plan_next_def plan_end_def passes_def Let_def check_end_failed
        check_dispatch_def chain_link_def check_grant_def granted_tools_def
        expected_grant_def request_fits_def split: option.splits)
  with plan that show ?thesis by metis
qed

text \<open>An envelope made from the end of a turn, when it does not ask for a repair.\<close>

lemma settled_passes:
  assumes "en_step e = call" "en_attempts e = ct_attempts (sp_cost (sn_step s))"
    and "en_status e = SsDone \<Longrightarrow> check_done s ask e = Inr ()"
  obtains a where "accept_settled step model e = Inr (new_transition a)" "check_action s call ask a = Inr ()"
    "granted a expected"
proof (cases "en_status e = SsCancelled")
  case True
  with assms that [of "AcCancelled (with_models step model e)"] show ?thesis
    by (simp add: accept_settled_def accept_cancelled_def check_cancelled_ok)
next
  case False
  have "check_done s ask (with_models step model e) = check_done s ask e"
    by (simp add: check_done_def)
  with False assms that [of "AcEnd (with_models step model e) False"] show ?thesis
    by (cases "en_status e")
      (auto simp: accept_settled_def accept_end_def check_end_def check_envelope_def)
qed

lemma accept_end_passes:
  assumes "en_step e = call" "en_attempts e = ct_attempts (sp_cost (sn_step s))" "en_status e = SsFailed"
  obtains a where "accept_end step model e = Inr (new_transition a)" "check_action s call ask a = Inr ()"
    "granted a expected"
  using assms that [of "AcEnd (with_models step model e) False"]
  by (simp add: accept_end_def check_end_failed)

lemma accept_ended_passes:
  assumes "sp_repair (sn_step s) = None"
  obtains a where "accept_ended call label (sn_step s) model is_last worker ended = Inr (new_transition a)"
    "check_action s call (AskAccept (AtEnded worker ended)) a = Inr ()" "granted a expected"
proof -
  let ?base = "(blank_failed call label (ct_attempts (sp_cost (sn_step s))))\<lparr>en_worker := Some (worker_text worker)\<rparr>"
  have settled: "\<exists>a. accept_settled (sn_step s) model (envelope_from_end ended (ct_attempts (sp_cost (sn_step s))) ?base)
      = Inr (new_transition a) \<and> check_action s call (AskAccept (AtEnded worker ended)) a = Inr () \<and> granted a expected"
  proof (rule settled_passes [where call = call and s = s and ask = "AskAccept (AtEnded worker ended)" and expected = expected
        and e = "envelope_from_end ended (ct_attempts (sp_cost (sn_step s))) ?base" and step = "sn_step s" and model = model])
    assume "en_status (envelope_from_end ended (ct_attempts (sp_cost (sn_step s))) ?base) = SsDone"
    then show "check_done s (AskAccept (AtEnded worker ended))
        (envelope_from_end ended (ct_attempts (sp_cost (sn_step s))) ?base) = Inr ()"
      by (cases ended) (simp_all add: check_done_def done_turn_def accepted_value_def)
  qed auto
  have "\<exists>a. accept_ended call label (sn_step s) model is_last worker ended = Inr (new_transition a) \<and>
    check_action s call (AskAccept (AtEnded worker ended)) a = Inr () \<and> granted a expected"
  proof (cases ended)
    case (EndDone summary evidence result schema)
    with settled assms show ?thesis
      by (cases schema) (simp_all add: accept_ended_def Let_def check_repair_def check_envelope_def)
  next
    case (EndWithoutFinish message)
    with assms show ?thesis
      by (simp add: accept_ended_def Let_def check_repair_def check_envelope_def)
  next
    case (EndRouteFailed reported error)
    with assms show ?thesis
      by (simp add: accept_ended_def Let_def check_move_on_def earned_move_def)
  qed (use settled in \<open>simp_all add: accept_ended_def Let_def\<close>)
  with that show ?thesis by metis
qed

lemma accept_repaired_passes:
  assumes "sp_repair (sn_step s) = Some repair" "repair_fits call repair"
  obtains a where "accept_repaired (sn_step s) model (rt_rejected repair) ended = Inr (new_transition a)"
    "check_action s call (AskAccept (AtRepairEnded ended)) a = Inr ()" "granted a expected"
proof -
  let ?n = "ct_attempts (sp_cost (sn_step s))"
  let ?rejected = "rt_rejected repair"
  obtain e where e: "accept_repaired (sn_step s) model ?rejected ended = accept_settled (sn_step s) model e"
    "en_step e = call" "en_attempts e = ?n"
    "en_status e = SsDone \<Longrightarrow> check_done s (AskAccept (AtRepairEnded ended)) e = Inr ()"
  proof (cases ended)
    case (EndDone summary evidence result schema)
    show ?thesis
    proof (cases schema)
      case (ScFailed errors)
      with EndDone assms that [of "?rejected\<lparr>en_status := SsFailed,
            en_value := (case result of Some value \<Rightarrow> value | None \<Rightarrow> en_value ?rejected),
            en_error := Some (lit ''invalid_output: '' @ join_with (lit ''; '') errors),
            en_schema := ScFailed errors, en_evidence := Some evidence, en_attempts := ?n\<rparr>"]
      show ?thesis by (simp add: accept_repaired_def Let_def repair_fits_def)
    qed (use EndDone assms that [of "envelope_from_end ended ?n
          (?rejected\<lparr>en_value := JNull, en_schema := ScNotRequested, en_evidence := None\<rparr>)"] in
        \<open>simp_all add: accept_repaired_def Let_def repair_fits_def check_done_def done_turn_def accepted_value_def\<close>)
  qed (use assms that [of "envelope_from_end ended ?n
        (?rejected\<lparr>en_value := JNull, en_schema := ScNotRequested, en_evidence := None\<rparr>)"] in
      \<open>simp_all add: accept_repaired_def Let_def repair_fits_def\<close>)
  from settled_passes [OF e(2-4), where step = "sn_step s" and model = model and expected = expected]
  show ?thesis using that e(1) by metis
qed

lemma accept_capped_passes:
  assumes "case sp_repair (sn_step s) of None \<Rightarrow> True | Some repair \<Rightarrow>
      repair_fits call repair \<and> en_attempts (rt_rejected repair) = ct_attempts (sp_cost (sn_step s))"
  obtains a where "accept_capped (sn_step s) model is_last wire used limit = Inr (new_transition a)"
    "check_action s call (AskAccept (AtCapped wire used limit)) a = Inr ()" "granted a expected"
proof (cases "sp_repair (sn_step s)")
  case None
  with that show ?thesis
    by (simp add: accept_capped_def Let_def check_move_on_def earned_move_def)
next
  case (Some repair)
  with assms that show ?thesis
    by (simp add: accept_capped_def accept_end_def Let_def repair_fits_def check_end_failed)
qed

lemma accept_linked_passes:
  assumes fits: "attempt_fits (sn_step s) attempt" "sp_link (sn_step s) = Some link"
    and repair: "case sp_repair (sn_step s) of None \<Rightarrow> True | Some repair \<Rightarrow> repair_fits call repair"
    and outcome: "ao_attempt outcome = attempt" "ao_call outcome = call"
  obtains a where "accept_linked outcome (sn_step s) link model is_last = Inr (new_transition a)"
    "check_action s call (AskAccept attempt) a = Inr ()" "granted a expected"
proof -
  have "\<exists>a. accept_linked outcome (sn_step s) link model is_last = Inr (new_transition a) \<and>
    check_action s call (AskAccept attempt) a = Inr () \<and> granted a expected"
  proof (cases attempt)
    case (AtCapped wire used limit)
    have "case sp_repair (sn_step s) of None \<Rightarrow> True | Some repair \<Rightarrow>
        repair_fits call repair \<and> en_attempts (rt_rejected repair) = ct_attempts (sp_cost (sn_step s))"
      using fits repair AtCapped by (auto split: option.splits)
    from accept_capped_passes [OF this, where model = model and is_last = is_last and wire = wire
        and used = used and limit = limit and expected = expected]
    show ?thesis using AtCapped outcome by (auto simp: accept_linked_def Let_def)
  next
    case (AtEnded worker ended)
    then have "sp_repair (sn_step s) = None" using fits by simp
    from accept_ended_passes [OF this, where call = call and label = "ao_label outcome" and model = model
        and is_last = is_last and worker = worker and ended = ended and expected = expected]
    show ?thesis using AtEnded outcome fits by (auto simp: accept_linked_def Let_def)
  next
    case (AtRepairEnded ended)
    then obtain r where r: "sp_repair (sn_step s) = Some r" "repair_fits call r"
      using fits repair by auto
    from accept_repaired_passes [OF this, where model = model and ended = ended and expected = expected]
    show ?thesis using AtRepairEnded outcome r by (auto simp: accept_linked_def Let_def)
  qed (use fits repair outcome in \<open>auto simp: accept_linked_def Let_def accept_end_def accept_cancelled_def
      repair_fits_def check_end_failed check_cancelled_ok split: option.splits\<close>)
  with that show ?thesis by metis
qed

lemma native_accept_passes:
  assumes fits: "step_fits s call" "attempt_fits (sn_step s) attempt"
    and outcome: "ao_version outcome = contract_version" "ao_call outcome = call" "ao_attempt outcome = attempt"
  obtains a where "accept_step s outcome = Inr (new_transition a)"
    "check_action s call (AskAccept attempt) a = Inr ()" "granted a expected"
proof (cases "sp_link (sn_step s)")
  case None
  have "accept_step s outcome = accept_unlinked outcome"
    using fits None outcome by (simp add: accept_step_def step_fits_def)
  moreover have "\<exists>a. accept_unlinked outcome = Inr (new_transition a) \<and>
    check_action s call (AskAccept attempt) a = Inr () \<and> granted a expected"
    using fits outcome None
    by (cases attempt) (auto simp: accept_unlinked_def step_fits_def check_end_failed check_cancelled_ok)
  ultimately show ?thesis using that by metis
next
  case (Some link)
  then obtain role where role: "sn_role s = Some role" "link < length (rv_chain role)"
    using fits by (auto simp: step_fits_def)
  have accept: "accept_step s outcome =
      accept_linked outcome (sn_step s) link (rv_chain role ! link) (length (rv_chain role) \<le> link + 1)"
    using fits outcome Some role by (simp add: accept_step_def step_fits_def chain_link_def)
  have "case sp_repair (sn_step s) of None \<Rightarrow> True | Some repair \<Rightarrow> repair_fits call repair"
    using fits by (simp add: step_fits_def)
  from accept_linked_passes [OF fits(2) Some this outcome(3,2)] that show ?thesis
    unfolding accept by metis
qed

theorem native_passes:
  assumes "step_fits s (pq_call plan)" "ask_fits (sn_step s) ask" "request_fits s plan"
  obtains a where "decide native_decisions e s plan ask = Inr (new_transition a)" "passes s plan ask a"
proof (cases ask)
  case AskPlan
  with native_plan_passes [OF assms(1) _ assms(3)] assms(2) that show ?thesis
    by (auto simp: decide_def native_decisions_def)
next
  case (AskAccept attempt)
  with native_accept_passes [OF assms(1), of attempt "\<lparr>ao_version = contract_version, ao_call = pq_call plan,
      ao_label = pq_label plan, ao_attempt = attempt\<rparr>" "expected_grant s plan"] assms(2) that
  show ?thesis
    by (auto simp: decide_def native_decisions_def passes_def)
qed

end
