(* ===== verification/JsonOrder.thy ===== *)
theory JsonOrder
  imports Attachment "HOL-Library.List_Lexorder" "HOL-Library.Multiset"
begin

text \<open>
  The canonical rendering of JSON of \<open>crates/p1-json-order/src/lib.rs\<close>. A scalar, and an object's
  key, is printed by the JSON library, which is the parameter \<open>printer\<close> here. Keys are compared
  as their lists of scalar values, which is the order of their UTF-8 bytes. An object of
  \<open>serde_json\<close> is a map: its keys are distinct (\<open>keyed\<close>), so the unstable sort of the source
  has one result. The lemmas show that the rendering does not depend on the order in which the
  entries of an object were inserted, at any depth.
\<close>

section \<open>Rendering\<close>

text \<open>\<open>entries.sort_unstable_by_key(|(left, _)| *left)\<close>.\<close>

definition sorted_entries :: "(ustring \<times> 'a) list \<Rightarrow> (ustring \<times> 'a) list" where
  "sorted_entries entries = sort_key fst entries"

lemma set_sorted_entries [simp]: "set (sorted_entries entries) = set entries"
  by (simp add: sorted_entries_def)

lemma sorted_entries_map:
  "sorted_entries (map (map_prod id f) entries) = map (map_prod id f) (sorted_entries entries)"
  unfolding sorted_entries_def
proof (induction entries)
  case (Cons e entries)
  have "insort_key fst (map_prod id f x) (map (map_prod id f) xs) = map (map_prod id f) (insort_key fst x xs)"
    for x and xs :: "(ustring \<times> 'b) list"
    by (induction xs) auto
  with Cons show ?case by (simp add: id_def)
qed simp

definition comma_separated :: "ustring list \<Rightarrow> ustring" where
  "comma_separated parts = join_with (lit '','') parts"

text \<open>\<open>Value::sort_all_objects\<close> and \<open>write_canonical\<close>: the entries of an object are rendered one by
  one and then put in the order of their keys.\<close>

fun canonicalize :: "json \<Rightarrow> json" where
  "canonicalize (JArray items) = JArray (map canonicalize items)"
| "canonicalize (JObject entries) = JObject (sorted_entries (map (map_prod id canonicalize) entries))"
| "canonicalize v = v"

fun canonical_json :: "(json \<Rightarrow> ustring) \<Rightarrow> json \<Rightarrow> ustring" where
  "canonical_json printer (JArray items) =
     lit ''['' @ comma_separated (map (canonical_json printer) items) @ lit '']''"
| "canonical_json printer (JObject entries) =
     lit ''{'' @ comma_separated (map (\<lambda>(key, text). printer (JString key) @ lit '':'' @ text)
       (sorted_entries (map (map_prod id (canonical_json printer)) entries))) @ lit ''}''"
| "canonical_json printer v = printer v"

section \<open>The order of keys does not matter\<close>

text \<open>The keys of every object are distinct, as in a map.\<close>

fun keyed :: "json \<Rightarrow> bool" where
  "keyed (JArray items) \<longleftrightarrow> list_all keyed items"
| "keyed (JObject entries) \<longleftrightarrow> distinct (map fst entries) \<and> list_all (\<lambda>(k, v). keyed v) entries"
| "keyed v \<longleftrightarrow> True"

text \<open>Two values that differ in the order of object entries only.\<close>

inductive same_value :: "json \<Rightarrow> json \<Rightarrow> bool" where
  same_scalar: "same_value v v"
| same_array: "list_all2 same_value xs ys \<Longrightarrow> same_value (JArray xs) (JArray ys)"
| same_object: "list_all2 (\<lambda>p q. fst p = fst q \<and> same_value (snd p) (snd q)) xs ys \<Longrightarrow> mset ys = mset zs \<Longrightarrow>
    same_value (JObject xs) (JObject zs)"

lemma sorted_entries_perm:
  assumes "mset xs = mset ys" "distinct (map fst xs)"
  shows "sorted_entries xs = sorted_entries ys"
  unfolding sorted_entries_def
  using assms by (intro sort_key_inj_key_eq) (auto simp: distinct_map)

lemma map_pair_keys [simp]: "map fst (map (map_prod id f) entries) = map fst entries"
  by simp

lemma rendered_entries:
  assumes "list_all2 (\<lambda>p q. fst p = fst q \<and> f (snd p) = f (snd q)) xs ys"
  shows "map (map_prod id f) xs = map (map_prod id f) ys"
  using assms by (induction rule: list_all2_induct) (auto simp: map_prod_def case_prod_beta)

lemma same_value_renders:
  "same_value v w \<Longrightarrow> keyed v \<Longrightarrow> canonical_json printer v = canonical_json printer w"
proof (induction rule: same_value.induct)
  case (same_scalar v)
  show ?case ..
next
  case (same_array xs ys)
  have "map (canonical_json printer) xs = map (canonical_json printer) ys"
    using same_array by (induction rule: list_all2_induct) auto
  then show ?case by simp
next
  case (same_object xs ys zs)
  have "list_all2 (\<lambda>p q. fst p = fst q \<and> canonical_json printer (snd p) = canonical_json printer (snd q)) xs ys"
    and keys: "map fst xs = map fst ys"
    using same_object.IH(1) same_object.prems by (induction rule: list_all2_induct) auto
  then have xs: "map (map_prod id (canonical_json printer)) xs = map (map_prod id (canonical_json printer)) ys"
    by (intro rendered_entries)
  have "distinct (map fst ys)" using same_object.prems keys by simp
  then have "sorted_entries (map (map_prod id (canonical_json printer)) ys) =
      sorted_entries (map (map_prod id (canonical_json printer)) zs)"
    using same_object.hyps by (intro sorted_entries_perm) (simp_all only: mset_map map_pair_keys)
  with xs show ?case by (simp del: map_map)
qed

end
