(* ===== verification/WorkflowJournal.thy ===== *)
theory WorkflowJournal
  imports WorkflowApi JsonOrder
begin

text \<open>
  The journal of a workflow run, \<open>crates/p1-workflow/src/journal.rs\<close>: the identity of a call, the
  charges and the replay prefix a resumed run reads from its predecessor's journal, and the reader
  with its checks of the record sequence. What the source takes from libraries is the parameter
  \<open>codec\<close>: UTF-8 decoding, the JSON parser, and the derived parser and printer of a record.
\<close>

section \<open>Call identities\<close>

definition fnv_offset :: "64 word" where "fnv_offset = 0xcbf29ce484222325"

definition fnv_prime :: "64 word" where "fnv_prime = 0x100000001b3"

definition fnv_step :: "64 word \<Rightarrow> byte \<Rightarrow> 64 word" where
  "fnv_step hash byte = (xor hash (ucast byte)) * fnv_prime"

definition fnv1a64 :: "byte list list \<Rightarrow> 64 word" where
  "fnv1a64 parts = foldl fnv_step fnv_offset (concat parts)"

text \<open>\<open>format!("{hash:016x}")\<close>.\<close>

definition hex_digit :: "nat \<Rightarrow> nat" where
  "hex_digit d = (if d < 10 then 48 + d else 87 + d)"

definition hex16 :: "64 word \<Rightarrow> ustring" where
  "hex16 w = map (\<lambda>i. hex_digit (unat w div 16 ^ (15 - i) mod 16)) [0..<16]"

definition call_id :: "(json \<Rightarrow> ustring) \<Rightarrow> ustring \<Rightarrow> ustring \<Rightarrow> json \<Rightarrow> call_id" where
  "call_id printer label prompt opts =
     CallId (hex16 (fnv1a64 [utf8 label, [0], utf8 prompt, [0], utf8 (canonical_json printer opts)]))"

definition script_hash :: "ustring \<Rightarrow> ustring" where
  "script_hash script = hex16 (fnv1a64 [utf8 script])"

section \<open>Charges\<close>

definition add_charge :: "(ustring \<rightharpoonup> nat) \<Rightarrow> ustring \<Rightarrow> ustring + (ustring \<rightharpoonup> nat)" where
  "add_charge charges wire_model =
     (case checked_add32 (case charges wire_model of Some n \<Rightarrow> n | None \<Rightarrow> 0) 1 of
       Some n \<Rightarrow> Inr (charges(wire_model \<mapsto> n))
     | None \<Rightarrow> Inl (lit ''workflow dispatch charge overflow''))"

fun charge_lines :: "journal_line list \<Rightarrow> (ustring \<rightharpoonup> nat) \<Rightarrow> ustring + (ustring \<rightharpoonup> nat)" where
  "charge_lines [] charges = Inr charges"
| "charge_lines (JlDispatch _ _ _ _ wire_model _ _ _ # lines) charges =
     try_then (add_charge charges wire_model) (charge_lines lines)"
| "charge_lines (_ # lines) charges = charge_lines lines charges"

definition dispatch_charges :: "journal_line list \<Rightarrow> ustring + (ustring \<rightharpoonup> nat)" where
  "dispatch_charges records =
     (case records of
       JlStarted _ _ _ _ _ _ inherited # _ \<Rightarrow> charge_lines records inherited
     | _ \<Rightarrow> Inl (lit ''workflow journal has no started record''))"

section \<open>The replay prefix\<close>

record replay =
  ry_from :: "run_id option"
  ry_entries :: "(call_id \<times> step_envelope) list"
  ry_taken :: "bool list"
  ry_latched_off :: bool

definition replay_none :: replay where
  "replay_none = \<lparr>ry_from = None, ry_entries = [], ry_taken = [], ry_latched_off = True\<rparr>"

fun replayable :: "journal_line \<Rightarrow> (call_id \<times> step_envelope) option" where
  "replayable (JlResult call envelope) =
     (if en_status envelope = SsDone then Some (call, envelope) else None)"
| "replayable _ = None"

definition replay_from_records :: "run_id \<Rightarrow> journal_line list \<Rightarrow> replay" where
  "replay_from_records from records =
     (let entries = List.map_filter replayable records in
      \<lparr>ry_from = Some from, ry_entries = entries, ry_taken = replicate (length entries) False,
       ry_latched_off = False\<rparr>)"

text \<open>An index that does not fit a \<open>u32\<close> is not shown.\<close>

definition view :: "replay \<Rightarrow> replay_view" where
  "view r = \<lparr>rp_latched_off = ry_latched_off r,
     rp_open = List.map_filter
       (\<lambda>index. if \<not> ry_taken r ! index \<and> index \<le> u32_max
          then Some \<lparr>re_index = index, re_call = fst (ry_entries r ! index)\<rparr> else None)
       [0..<length (ry_entries r)]\<rparr>"

definition take_entry :: "nat \<Rightarrow> call_id \<Rightarrow> replay \<Rightarrow> (step_envelope \<times> run_id) option \<times> replay" where
  "take_entry index call r =
     (case ry_from r of
       None \<Rightarrow> (None, r)
     | Some from \<Rightarrow>
         (if length (ry_entries r) \<le> index then (None, r)
          else
            (let (id, envelope) = ry_entries r ! index in
             if ry_latched_off r \<or> ry_taken r ! index \<or> id \<noteq> call then (None, r)
             else (Some (envelope, from), r\<lparr>ry_taken := (ry_taken r)[index := True]\<rparr>))))"

definition latch_off :: "replay \<Rightarrow> replay" where
  "latch_off r = r\<lparr>ry_latched_off := True\<rparr>"

section \<open>Reading a journal back\<close>

record codec =
  cd_utf8 :: "byte list \<Rightarrow> ustring + ustring"
  cd_json :: "ustring \<Rightarrow> json option"
  cd_record :: "ustring \<Rightarrow> ustring + journal_line"
  cd_print_json :: "json \<Rightarrow> ustring"
  cd_print_record :: "journal_line \<Rightarrow> ustring"

definition max_journal :: nat where "max_journal = 256 * 1024 * 1024"

definition max_line :: nat where "max_line = 8 * 1024 * 1024"

definition unknown_version :: "ustring \<Rightarrow> ustring" where
  "unknown_version version = lit ''workflow journal version '' @ version @
     lit '' is not one this build reads (it reads version '' @ dec workflow_journal_version @
     lit ''); refusing to guess''"

text \<open>\<open>check_version\<close> of the leading line: \<open>version.as_u64()\<close> is \<open>1\<close> for the number written \<open>1\<close>.\<close>

definition check_journal_version :: "codec \<Rightarrow> ustring \<Rightarrow> ustring + unit" where
  "check_journal_version cd line =
     (case cd_json cd line of
       Some (JObject entries) \<Rightarrow>
         (case map_of entries (lit ''p1_workflow_journal'') of
           None \<Rightarrow> Inr ()
         | Some version \<Rightarrow>
             (if version = JNumber (dec workflow_journal_version) then Inr ()
              else Inl (unknown_version (cd_print_json cd version))))
     | _ \<Rightarrow> Inr ())"

definition at_line :: "ustring \<Rightarrow> nat \<Rightarrow> ustring \<Rightarrow> ustring" where
  "at_line label index error = label @ lit '' line '' @ dec index @ lit '': '' @ error"

text \<open>
  The checks of one record: what the reader knows is whether the journal opened with \<open>started\<close> and
  how many dispatches and replays of each call no result has consumed yet. (A journal is at most
  \<open>max_journal\<close> bytes long, so no count reaches \<open>2 ^ 32\<close>.)
\<close>

record reader =
  rd_lifecycle :: bool
  rd_pending :: "call_id \<Rightarrow> nat"

definition fresh_reader :: reader where
  "fresh_reader = \<lparr>rd_lifecycle = False, rd_pending = (\<lambda>_. 0)\<rparr>"

definition open_lifecycle :: "nat \<Rightarrow> journal_line \<Rightarrow> reader \<Rightarrow> reader" where
  "open_lifecycle index line rd =
     (case line of
       JlStarted _ _ _ _ _ _ _ \<Rightarrow> if index = 1 then rd\<lparr>rd_lifecycle := True\<rparr> else rd
     | _ \<Rightarrow> rd)"

definition check_result :: "call_id \<Rightarrow> step_envelope \<Rightarrow> reader \<Rightarrow> ustring + reader" where
  "check_result call envelope rd =
     (if en_step envelope \<noteq> call then Inl (lit ''result belongs to another call'')
      else
        (let open = rd_pending rd call in
         if open = 0 \<and> (en_status envelope = SsDone \<or> 0 < en_attempts envelope) then
           Inl (lit ''result has no dispatch or replay'')
         else Inr (if 0 < open then rd\<lparr>rd_pending := (rd_pending rd)(call := open - 1)\<rparr> else rd)))"

text \<open>The error of a leading record of another version carries no line number.\<close>

definition check_line :: "ustring \<Rightarrow> nat \<Rightarrow> bool \<Rightarrow> journal_line \<Rightarrow> reader \<Rightarrow> ustring + reader" where
  "check_line label index final line rd =
     (case line of
       JlStarted version _ _ _ _ _ _ \<Rightarrow>
         (if index = 1 then
            (if version \<noteq> workflow_journal_version then Inl (unknown_version (dec version)) else Inr rd)
          else if version \<noteq> workflow_journal_version then
            Inl (at_line label index (unknown_version (dec version)))
          else Inl (at_line label index (lit ''duplicate started'')))
     | JlEnded _ _ _ \<Rightarrow>
         (if final then Inr rd else Inl (at_line label index (lit ''ended before last line'')))
     | JlResult call envelope \<Rightarrow>
         (if rd_lifecycle rd then map_err (at_line label index) (check_result call envelope rd) else Inr rd)
     | _ \<Rightarrow> Inr rd)"

definition count_line :: "journal_line \<Rightarrow> reader \<Rightarrow> reader" where
  "count_line line rd =
     (case line of
       JlDispatch call _ _ _ _ _ _ _ \<Rightarrow> rd\<lparr>rd_pending := (rd_pending rd)(call := rd_pending rd call + 1)\<rparr>
     | JlReplayed call _ \<Rightarrow> rd\<lparr>rd_pending := (rd_pending rd)(call := rd_pending rd call + 1)\<rparr>
     | _ \<Rightarrow> rd)"

definition read_record :: "ustring \<Rightarrow> nat \<Rightarrow> bool \<Rightarrow> journal_line \<Rightarrow> reader \<Rightarrow> ustring + reader" where
  "read_record label index final line rd =
     try_then (check_line label index final line (open_lifecycle index line rd)) (\<lambda>rd. Inr (count_line line rd))"

text \<open>\<open>reader.take(MAX_LINE + 1).read_until(b'\n', ..)\<close>: the line with its newline, and what is left.\<close>

fun read_until :: "nat \<Rightarrow> byte list \<Rightarrow> byte list \<times> byte list" where
  "read_until 0 bytes = ([], bytes)"
| "read_until (Suc n) [] = ([], [])"
| "read_until (Suc n) (b # bytes) =
     (if b = 10 then ([b], bytes) else (let (line, rest) = read_until n bytes in (b # line, rest)))"

lemma read_until_append: "fst (read_until n bytes) @ snd (read_until n bytes) = bytes"
  by (induction n bytes rule: read_until.induct) (auto simp: case_prod_beta)

lemma read_until_progress: "bytes \<noteq> [] \<Longrightarrow> 0 < n \<Longrightarrow> length (snd (read_until n bytes)) < length bytes"
proof -
  assume "bytes \<noteq> []" "0 < n"
  then have "fst (read_until n bytes) \<noteq> []"
    by (cases n; cases bytes) (auto simp: case_prod_beta)
  moreover have "length (fst (read_until n bytes)) + length (snd (read_until n bytes)) = length bytes"
    by (metis length_append read_until_append)
  ultimately show ?thesis by (cases "fst (read_until n bytes)") auto
qed

text \<open>One line of the loop: decoded, its version checked when it leads, parsed.\<close>

definition parse_line :: "codec \<Rightarrow> nat \<Rightarrow> byte list \<Rightarrow> ustring + journal_line" where
  "parse_line cd index bytes =
     try_then (cd_utf8 cd bytes) (\<lambda>line.
     try_then (if index = 1 then check_journal_version cd line else Inr ()) (\<lambda>_.
       cd_record cd line))"

function read_lines :: "codec \<Rightarrow> ustring \<Rightarrow> nat \<Rightarrow> reader \<Rightarrow> byte list \<Rightarrow> ustring + journal_line list" where
  "read_lines cd label index rd bytes =
     (if bytes = [] then Inr []
      else
        (let (line, rest) = read_until (max_line + 1) bytes; index = index + 1 in
         if max_line < length line then Inl (at_line label index (lit ''too long''))
         else if last line \<noteq> 10 then Inr []
         else
           try_then (map_err (at_line label index) (parse_line cd index (butlast line))) (\<lambda>record.
           try_then (read_record label index (rest = []) record rd) (\<lambda>rd.
           try_then (read_lines cd label index rd rest) (\<lambda>records. Inr (record # records))))))"
  by pat_completeness auto
termination
proof (relation "measure (\<lambda>(cd, label, index, rd, bytes). length bytes)", goal_cases)
  case (2 cd label index rd bytes p line rest index' entry rd')
  then have "rest = snd (read_until (max_line + 1) bytes)" by (metis snd_conv)
  with 2 show ?case using read_until_progress [of bytes "max_line + 1"] by simp
qed simp

declare read_lines.simps [simp del]

text \<open>\<open>read_journal_file\<close> and \<open>read_records\<close>.\<close>

definition read_journal :: "codec \<Rightarrow> ustring \<Rightarrow> byte list \<Rightarrow> ustring + journal_line list" where
  "read_journal cd label bytes =
     (if max_journal < length bytes then Inl (lit ''workflow journal exceeds size limit'')
      else try_then (read_lines cd label 0 fresh_reader bytes) (\<lambda>records.
        if records = [] then Inl (label @ lit '': missing started'') else Inr records))"

end
