(* ===== verification/WorkflowRedact.thy ===== *)
theory WorkflowRedact
  imports Prelude
begin

text \<open>
  The masking of credentials in what a workflow run logs and journals,
  \<open>crates/p1-workflow/src/redact.rs\<close>. The source walks byte indices; every pattern it looks for is
  ASCII, so walking scalar values gives the same text. A key longer than the 33 bytes the source
  searches is none of the names either way.
\<close>

definition redacted_mark :: ustring where
  "redacted_mark = lit ''<redacted:credential>''"

definition credential_names :: "ustring list" where
  "credential_names = map lit [''api_key'', ''password'', ''secret'', ''token'', ''authorization'',
     ''access'', ''refresh'', ''key'']"

definition ascii_lower :: "nat \<Rightarrow> nat" where
  "ascii_lower c = (if 65 \<le> c \<and> c \<le> 90 then c + 32 else c)"

definition eq_ignore_ascii_case :: "ustring \<Rightarrow> ustring \<Rightarrow> bool" where
  "eq_ignore_ascii_case a b \<longleftrightarrow> map ascii_lower a = map ascii_lower b"

definition is_ascii_whitespace :: "nat \<Rightarrow> bool" where
  "is_ascii_whitespace c \<longleftrightarrow> c \<in> {9, 10, 12, 13, 32}"

definition is_blank :: "nat \<Rightarrow> bool" where
  "is_blank c \<longleftrightarrow> c = 32 \<or> c = 9"

text \<open>The bytes a token may consist of.\<close>

definition is_token_char :: "nat \<Rightarrow> bool" where
  "is_token_char c \<longleftrightarrow> 48 \<le> c \<and> c \<le> 57 \<or> 65 \<le> c \<and> c \<le> 90 \<or> 97 \<le> c \<and> c \<le> 122 \<or>
     c \<in> set (lit ''_-.+/=~'')"

section \<open>A quoted credential: \<open>"key" : "value"\<close>\<close>

text \<open>The rest of a JSON string up to its closing quote: how long the value is, escapes skipped.\<close>

fun string_length :: "ustring \<Rightarrow> nat option" where
  "string_length [] = None"
| "string_length (c # s) =
     (if c = 34 then Some 0
      else if c = 92 then (case s of [] \<Rightarrow> None | _ # rest \<Rightarrow> map_option (\<lambda>n. n + 2) (string_length rest))
      else map_option Suc (string_length s))"

text \<open>Whether a credential entry starts here: the length of what is kept before the value and of
  the value.\<close>

definition credential_entry :: "ustring \<Rightarrow> (nat \<times> nat) option" where
  "credential_entry s =
     (case s of
       [] \<Rightarrow> None
     | quote # after \<Rightarrow>
         (let key = takeWhile (\<lambda>c. c \<noteq> 34) after;
              colon = dropWhile is_ascii_whitespace (drop (length key + 1) after) in
          if quote = 34 \<and> length key < 33 \<and> length key < length after \<and> key \<in> set credential_names \<and>
             colon \<noteq> [] \<and> hd colon = 58
          then
            (let opening = dropWhile is_ascii_whitespace (tl colon) in
             if opening \<noteq> [] \<and> hd opening = 34 then
               (case string_length (tl opening) of
                 Some n \<Rightarrow> if 0 < n then Some (length s - length (tl opening), n) else None
               | None \<Rightarrow> None)
             else None)
          else None))"

section \<open>A bare token\<close>

datatype token_prefix = TpKey ustring | TpHeader ustring

fun prefix_text :: "token_prefix \<Rightarrow> ustring" where
  "prefix_text (TpKey p) = p"
| "prefix_text (TpHeader p) = p"

definition token_prefixes :: "token_prefix list" where
  "token_prefixes = [TpKey (lit ''sk-''), TpKey (lit ''ghp_''), TpKey (lit ''github_pat_''),
     TpHeader (lit ''Bearer''), TpHeader (lit ''Authorization:'')]"

fun prefix_matches :: "ustring \<Rightarrow> token_prefix \<Rightarrow> bool" where
  "prefix_matches s (TpKey p) \<longleftrightarrow> take (length p) s = p"
| "prefix_matches s (TpHeader p) \<longleftrightarrow> length p \<le> length s \<and> eq_ignore_ascii_case (take (length p) s) p"

text \<open>The length of the token that starts here, its prefix included.\<close>

definition credential_token :: "ustring \<Rightarrow> nat option" where
  "credential_token s =
     (case List.find (prefix_matches s) token_prefixes of
       None \<Rightarrow> None
     | Some found \<Rightarrow>
         (let p = prefix_text found;
              after = drop (length p) s;
              header = (case found of TpHeader _ \<Rightarrow> True | TpKey _ \<Rightarrow> False);
              blanks = (if header then length (takeWhile is_blank after) else 0);
              token = takeWhile is_token_char (drop blanks after) in
          if p = lit ''Bearer'' \<and> (after = [] \<or> \<not> is_blank (hd after)) then None
          else if (if header then 16 else 8) \<le> length token then Some (length p + blanks + length token)
          else None))"

section \<open>\<open>redact::text\<close> and \<open>redact::value\<close>\<close>

lemma string_length_le: "string_length s = Some n \<Longrightarrow> n < length s"
proof (induction s arbitrary: n rule: string_length.induct)
  case (2 c s)
  then show ?case by (auto split: if_splits list.splits)
qed simp

lemma credential_entry_pos: "credential_entry s = Some (kept, n) \<Longrightarrow> 0 < n"
  by (auto simp: credential_entry_def Let_def split: list.splits if_splits option.splits)

lemma credential_token_pos: "credential_token s = Some n \<Longrightarrow> 0 < n"
  by (auto simp: credential_token_def Let_def split: option.splits if_splits token_prefix.splits)

function redact_text :: "ustring \<Rightarrow> ustring" where
  "redact_text s =
     (case s of
       [] \<Rightarrow> []
     | c # rest \<Rightarrow>
         (case credential_entry s of
           Some (kept, n) \<Rightarrow> take kept s @ redacted_mark @ redact_text (drop (kept + n) s)
         | None \<Rightarrow>
             (case credential_token s of
               Some n \<Rightarrow> redacted_mark @ redact_text (drop n s)
             | None \<Rightarrow> c # redact_text rest)))"
  by pat_completeness auto
termination
  by (relation "measure length") (auto dest: credential_entry_pos credential_token_pos)

declare redact_text.simps [simp del]

definition credential_key :: "ustring \<Rightarrow> bool" where
  "credential_key key \<longleftrightarrow> list_ex (eq_ignore_ascii_case key) credential_names"

fun redact_value :: "json \<Rightarrow> json" where
  "redact_value (JString s) = JString (redact_text s)"
| "redact_value (JArray items) = JArray (map redact_value items)"
| "redact_value (JObject entries) = JObject (map (\<lambda>(key, item).
     (key, if credential_key key then JString redacted_mark else redact_value item)) entries)"
| "redact_value v = v"

lemma redact_text_Nil [simp]: "redact_text [] = []"
  by (simp add: redact_text.simps)

section \<open>What masking guarantees\<close>

text \<open>No object, at any depth, keeps a value under the name of a credential.\<close>

fun masked :: "json \<Rightarrow> bool" where
  "masked (JArray items) \<longleftrightarrow> list_all masked items"
| "masked (JObject entries) \<longleftrightarrow> list_all (\<lambda>(key, item).
     if credential_key key then item = JString redacted_mark else masked item) entries"
| "masked v \<longleftrightarrow> True"

text \<open>The same arrays and the same keys.\<close>

fun same_shape :: "json \<Rightarrow> json \<Rightarrow> bool" where
  "same_shape (JArray xs) (JArray ys) \<longleftrightarrow> list_all2 same_shape xs ys"
| "same_shape (JObject xs) (JObject ys) \<longleftrightarrow>
     list_all2 (\<lambda>(j, v) (k, w). j = k \<and> (credential_key j \<or> same_shape v w)) xs ys"
| "same_shape (JString _) (JString _) \<longleftrightarrow> True"
| "same_shape v w \<longleftrightarrow> v = w"

lemma redact_value_masked: "masked (redact_value v)"
  by (induction v rule: redact_value.induct) (auto simp: list_all_iff)

lemma redact_value_shape: "same_shape v (redact_value v)"
proof (induction v rule: redact_value.induct)
  case (2 items)
  then show ?case by (simp add: list_all2_map2 list.rel_refl_strong list_all2_same)
next
  case (3 entries)
  have "same_shape item (redact_value item)" if "(key, item) \<in> set entries" "\<not> credential_key key" for key item
    using 3 that by blast
  then show ?case by (fastforce simp: list_all2_map2 list_all2_same split: if_splits)
qed auto

end
