(* ===== verification/WorkflowEngine.thy ===== *)
theory WorkflowEngine
  imports WorkflowCheck WorkflowJournal WorkflowRedact
begin

text \<open>
  The substrate of a workflow run, the steps of \<open>crates/p1-workflow/src/engine.rs\<close>, with the counter
  of \<open>caps.rs\<close> and the writer of \<open>journal.rs\<close>. Several steps of a run are under way at once, each on
  a thread of its own, and share the state of the run, whose parts have a lock each. A step is
  therefore a program of atomic actions (\<open>prog\<close>): one action is one critical section of the source,
  or the start or the end of a call out to the runner. Between two actions of a step any other
  thread may act; \<open>WorkflowRun\<close> runs the programs of all threads against each other.

  Code after an action is its continuation, so that a function of the source that locks takes a
  continuation here. What comes from outside the run is the \<open>input\<close> of an action: what a decision
  depends on besides the snapshot, whether the journal file takes a line, what the runner
  answers, whether the process has outgrown its memory budget, and whether a file operation fails. An action also says which events others can observe: journal lines, calls to the runner
  and the observer, and (for the proofs) each attempt the caps counted, each refused decision and each recorded result taken.
\<close>

section \<open>Programs of atomic actions\<close>

record 'e input =
  in_salt :: 'e
  in_append :: "ustring option"
  in_run :: "ustring + step_outcome"
  in_repair :: "ustring + step_end"
  in_worktree :: "ustring + worktree_info"
  in_settle :: "ustring + worktree_info"
  in_memory :: bool
  in_file :: "ustring option"

text \<open>What the end of a run does to its artifact \<open>result.json\<close>.\<close>

datatype artifact_op = StageResult run_report | PublishResult | DropPending | RemoveResult

datatype event =
    EvLine journal_line
  | EvSpend ustring
  | EvRun step_request
  | EvRepair worker_ref ustring
  | EvWorktree step_request
  | EvRelease worktree_info
  | EvStepStarted step_request worker_ref
  | EvStepEnded step_line
  | EvLog ustring
  | EvPhase ustring
  | EvRefused ustring
  | EvTaken nat
  | EvFile artifact_op
  | EvRunEnded run_report

text \<open>The record of a run and the parts of \<open>RunState\<close> that change.\<close>

record run_record =
  rc_phase :: "ustring option"
  rc_steps_started :: nat
  rc_steps_ended :: nat
  rc_log :: "ustring list"
  rc_counts :: counts
  rc_steps :: "step_line list"

record shared =
  sh_journal_open :: bool
  sh_journal_error :: "ustring option"
  sh_replay :: replay
  sh_used :: "ustring \<rightharpoonup> nat"
  sh_calls :: nat
  sh_cancelled :: bool
  sh_record :: run_record
  sh_report :: "run_report option"

datatype ('e, 'r) prog =
    Return 'r
  | Act "'e input \<Rightarrow> shared \<Rightarrow> event list \<times> shared \<times> ('e, 'r) prog"

definition locked ::
  "('e input \<Rightarrow> shared \<Rightarrow> event list \<times> 'a \<times> shared) \<Rightarrow> ('a \<Rightarrow> ('e, 'r) prog) \<Rightarrow> ('e, 'r) prog" where
  "locked f k = Act (\<lambda>i s. case f i s of (evs, x, s') \<Rightarrow> (evs, s', k x))"

text \<open>
  \<open>cancellable\<close>: the token is polled first, so a cancelled run does not start the call; a call that
  was started ends with its outcome unless the run was cancelled meanwhile.
\<close>

definition cancellable ::
  "event \<Rightarrow> ('e input \<Rightarrow> 'a) \<Rightarrow> ('a option \<Rightarrow> ('e, 'r) prog) \<Rightarrow> ('e, 'r) prog" where
  "cancellable start outcome k =
     Act (\<lambda>i s. if sh_cancelled s then ([], s, k None)
       else ([start], s, Act (\<lambda>i s. ([], s, k (if sh_cancelled s then None else Some (outcome i))))))"

section \<open>Caps (\<open>caps.rs\<close>)\<close>

text \<open>\<open>CapCounter::try_spend\<close>; an uncapped model's count wraps.\<close>

definition used_count :: "(ustring \<rightharpoonup> nat) \<Rightarrow> ustring \<Rightarrow> nat" where
  "used_count used wire_model = (case used wire_model of Some n \<Rightarrow> n | None \<Rightarrow> 0)"

definition try_spend ::
  "(ustring \<rightharpoonup> nat) \<Rightarrow> ustring \<Rightarrow> (ustring \<rightharpoonup> nat) \<Rightarrow> (nat \<times> nat + unit) \<times> (ustring \<rightharpoonup> nat)" where
  "try_spend caps wire_model used =
     (let count = used_count used wire_model in
      case caps wire_model of
        Some limit \<Rightarrow>
          (if limit \<le> count then (Inl (count, limit), used(wire_model \<mapsto> count))
           else (Inr (), used(wire_model \<mapsto> wrapping_add32 count 1)))
      | None \<Rightarrow> (Inr (), used(wire_model \<mapsto> wrapping_add32 count 1)))"

section \<open>The journal writer and the log\<close>

text \<open>What \<open>JournalWriter::append\<close> masks of a record before it prints the line.\<close>

fun safe_line :: "journal_line \<Rightarrow> journal_line" where
  "safe_line (JlStarted version run hash args from base inherited) =
     JlStarted version run hash (redact_value args) from base inherited"
| "safe_line (JlDispatch call label role model wire_model attempt prompt opts) =
     JlDispatch call label role model wire_model attempt (redact_text prompt) (redact_value opts)"
| "safe_line (JlFallback call from to error) = JlFallback call from to (redact_text error)"
| "safe_line (JlResult call envelope) = JlResult call (envelope\<lparr>
     en_value := redact_value (en_value envelope),
     en_error := map_option redact_text (en_error envelope),
     en_evidence := map_option redact_text (en_evidence envelope)\<rparr>)"
| "safe_line (JlEnded outcome counts error) = JlEnded outcome counts (map_option redact_text error)"
| "safe_line (JlPhase name) = JlPhase (redact_text name)"
| "safe_line line = line"

text \<open>The bytes of a line: its text is masked once more as a whole.\<close>

definition printed_line :: "codec \<Rightarrow> journal_line \<Rightarrow> byte list" where
  "printed_line cd line = utf8 (redact_text (cd_print_record cd line)) @ [10]"

definition line_bytes :: "codec \<Rightarrow> journal_line \<Rightarrow> byte list" where
  "line_bytes cd line = printed_line cd (safe_line line)"

text \<open>A failed write or sync closes the writer for good. What part of the line it left in the file is no
  line of the journal (\<open>read_lines_printed\<close> reads past it).\<close>

definition append_line :: "journal_line \<Rightarrow> 'e input \<Rightarrow> shared \<Rightarrow> event list \<times> (ustring + unit) \<times> shared" where
  "append_line line i s =
     (if \<not> sh_journal_open s then ([], Inl (lit ''journal writer failed''), s)
      else (case in_append i of
        Some error \<Rightarrow> ([], Inl error, s\<lparr>sh_journal_open := False\<rparr>)
      | None \<Rightarrow> ([EvLine (safe_line line)], Inr (), s)))"

definition log_lines :: nat where "log_lines = 20"

definition push_log :: "ustring \<Rightarrow> run_record \<Rightarrow> run_record" where
  "push_log line r = r\<lparr>rc_log :=
     (if length (rc_log r) = log_lines then tl (rc_log r) else rc_log r) @ [line]\<rparr>"

definition log_line :: "ustring \<Rightarrow> (unit \<Rightarrow> ('e, 'r) prog) \<Rightarrow> ('e, 'r) prog" where
  "log_line line k = locked (\<lambda>i s. ([EvLog (redact_text line)], (),
     s\<lparr>sh_record := push_log (redact_text line) (sh_record s)\<rparr>)) k"

text \<open>\<open>RunState::write\<close>: after the first failed append nothing is written any more.\<close>

definition write_line :: "journal_line \<Rightarrow> (bool \<Rightarrow> ('e, 'r) prog) \<Rightarrow> ('e, 'r) prog" where
  "write_line line k =
     locked (\<lambda>i s. ([], sh_journal_error s \<noteq> None, s)) (\<lambda>failed.
       if failed then k False
       else locked (append_line line) (\<lambda>result.
         case result of
           Inr _ \<Rightarrow> k True
         | Inl error \<Rightarrow>
             (let message = lit ''journal write failed: '' @ error in
              locked (\<lambda>i s. ([], (), s\<lparr>sh_journal_error := Some message\<rparr>)) (\<lambda>_.
              log_line message (\<lambda>_. k False)))))"

definition set_phase :: "ustring \<Rightarrow> (unit \<Rightarrow> ('e, 'r) prog) \<Rightarrow> ('e, 'r) prog" where
  "set_phase name k =
     (let name = redact_text name in
      locked (\<lambda>i s. ([], (), s\<lparr>sh_record := (sh_record s)\<lparr>rc_phase := Some name\<rparr>\<rparr>)) (\<lambda>_.
      write_line (JlPhase name) (\<lambda>_.
      locked (\<lambda>i s. ([EvPhase name], (), s)) k)))"

section \<open>The run and a step of it\<close>

text \<open>What of \<open>RunState\<close> does not change.\<close>

record 'e run_env =
  rn_id :: run_id
  rn_decisions :: "'e decisions"
  rn_roles :: "ustring \<rightharpoonup> role_view"
  rn_caps :: "ustring \<rightharpoonup> nat"
  rn_max_steps :: nat
  rn_workspace :: "ustring option"
  rn_base :: "ustring option"
  rn_printer :: "json \<Rightarrow> ustring"
  rn_run_dir :: ustring

definition role_head :: "role_view \<Rightarrow> ustring" where
  "role_head role = (case rv_chain role of [] \<Rightarrow> [] | model # _ \<Rightarrow> rm_reference model)"

record step_options =
  op_json :: json
  op_role :: ustring
  op_label :: "ustring option"
  op_phase :: "ustring option"
  op_schema :: "json option"
  op_tools :: "ustring list option"
  op_workspace :: "ustring option"
  op_worktree :: "ustring option"

record line_context =
  lc_role :: ustring
  lc_model :: ustring
  lc_ordinal :: nat

text \<open>What a step keeps that no snapshot carries. A hold is known by the worktree it was made with.\<close>

record step_work =
  wo_hold :: "worktree_info option"
  wo_workspace :: "ustring option"
  wo_phase :: "ustring option"
  wo_request :: "step_request option"
  wo_worker :: "worker_ref option"

definition fresh_work :: step_work where
  "fresh_work = \<lparr>wo_hold = None, wo_workspace = None, wo_phase = None, wo_request = None, wo_worker = None\<rparr>"

text \<open>The arguments of \<open>step\<close> and what it computes from them before its loop.\<close>

record step_call =
  sc_prompt :: ustring
  sc_opts :: step_options
  sc_call :: call_id
  sc_ordinal :: nat
  sc_role :: "role_view option"
  sc_line :: line_context
  sc_plan :: plan_request

datatype step_result =
    StepOk step_envelope
  | StepScriptError ustring
  | StepTerminated ustring
  | StepOutOfFuel

section \<open>The end of a step\<close>

definition redact_try :: "model_try \<Rightarrow> model_try" where
  "redact_try tried = tried\<lparr>mt_model := redact_text (mt_model tried)\<rparr>"

fun redact_schema :: "schema_check \<Rightarrow> schema_check" where
  "redact_schema (ScFailed errors) = ScFailed (map redact_text errors)"
| "redact_schema schema = schema"

definition redact_envelope :: "step_envelope \<Rightarrow> step_envelope" where
  "redact_envelope e = e\<lparr>
     en_value := redact_value (en_value e),
     en_error := map_option redact_text (en_error e),
     en_evidence := map_option redact_text (en_evidence e),
     en_worker := map_option redact_text (en_worker e),
     en_needs := map_option redact_text (en_needs e),
     en_label := map_option redact_text (en_label e),
     en_models := map redact_try (en_models e),
     en_schema := redact_schema (en_schema e)\<rparr>"

fun schema_text :: "schema_check \<Rightarrow> ustring" where
  "schema_text ScNotRequested = lit ''not_requested''"
| "schema_text ScPassed = lit ''passed''"
| "schema_text (ScFailed _) = lit ''failed''"

definition step_line_of :: "call_id \<Rightarrow> line_context \<Rightarrow> step_envelope \<Rightarrow> bool \<Rightarrow> step_line" where
  "step_line_of call line e replayed = \<lparr>sl_call = call, sl_ordinal = lc_ordinal line,
     sl_label = en_label e, sl_role = lc_role line, sl_model = lc_model line, sl_worker = en_worker e,
     sl_status = en_status e, sl_schema = schema_text (en_schema e), sl_evidence = en_evidence e,
     sl_attempts = en_attempts e, sl_replayed = replayed, sl_error = en_error e, sl_models = en_models e\<rparr>"

abbreviation incr :: "nat \<Rightarrow> nat" where
  "incr n \<equiv> wrapping_add32 n 1"

definition count_status :: "step_status \<Rightarrow> counts \<Rightarrow> counts" where
  "count_status status c =
     (case status of
       SsDone \<Rightarrow> c\<lparr>cn_done := incr (cn_done c)\<rparr>
     | SsBlocked \<Rightarrow> c\<lparr>cn_blocked := incr (cn_blocked c)\<rparr>
     | SsFailed \<Rightarrow> c\<lparr>cn_failed := incr (cn_failed c)\<rparr>
     | SsCancelled \<Rightarrow> c\<lparr>cn_cancelled := incr (cn_cancelled c)\<rparr>)"

definition is_not_verified :: "step_envelope \<Rightarrow> bool" where
  "is_not_verified e \<longleftrightarrow> en_status e = SsDone \<and>
     (case en_evidence e of Some evidence \<Rightarrow> starts_with (lit ''not verified'') evidence | None \<Rightarrow> False)"

definition is_invalid_output :: "step_envelope \<Rightarrow> bool" where
  "is_invalid_output e \<longleftrightarrow>
     starts_with (lit ''invalid_output:'') (case en_error e of Some error \<Rightarrow> error | None \<Rightarrow> [])"

definition count_step :: "step_envelope \<Rightarrow> bool \<Rightarrow> step_cost \<Rightarrow> counts \<Rightarrow> counts" where
  "count_step e replayed cost c =
     (let c = c\<lparr>cn_steps := incr (cn_steps c),
                cn_replayed := wrapping_add32 (cn_replayed c) (of_bool replayed)\<rparr>;
          c = count_status (en_status e) c in
      c\<lparr>cn_not_verified := (if is_not_verified e then incr (cn_not_verified c) else cn_not_verified c),
        cn_capped := wrapping_add32 (cn_capped c) (ct_capped cost),
        cn_fell_back := wrapping_add32 (cn_fell_back c) (ct_fell_back cost),
        cn_invalid_output := wrapping_add32 (cn_invalid_output c) (of_bool (is_invalid_output e))\<rparr>)"

definition record_step :: "step_line \<Rightarrow> step_envelope \<Rightarrow> bool \<Rightarrow> step_cost \<Rightarrow> run_record \<Rightarrow> run_record" where
  "record_step line e replayed cost r = r\<lparr>
     rc_steps_ended := incr (rc_steps_ended r),
     rc_counts := count_step e replayed cost (rc_counts r),
     rc_steps := rc_steps r @ [line]\<rparr>"

definition conclude ::
  "call_id \<Rightarrow> line_context \<Rightarrow> step_envelope \<Rightarrow> bool \<Rightarrow> step_cost \<Rightarrow>
    (step_result \<Rightarrow> ('e, 'r) prog) \<Rightarrow> ('e, 'r) prog" where
  "conclude call line envelope replayed cost k =
     (let envelope = redact_envelope envelope in
      write_line (JlResult call envelope) (\<lambda>written.
        if \<not> written then k (StepScriptError (lit ''journal result write failed''))
        else
          (let step_line = step_line_of call line envelope replayed in
           locked (\<lambda>i s. ([], (), s\<lparr>sh_record := record_step step_line envelope replayed cost (sh_record s)\<rparr>)) (\<lambda>_.
           locked (\<lambda>i s. ([EvStepEnded step_line], (), s)) (\<lambda>_. k (StepOk envelope))))))"

text \<open>The worktree of a step, settled and released before the step concludes.\<close>

definition settle_hold ::
  "worktree_info option \<Rightarrow> step_envelope \<Rightarrow> (step_envelope \<Rightarrow> ('e, 'r) prog) \<Rightarrow> ('e, 'r) prog" where
  "settle_hold hold envelope k =
     (case hold of
       None \<Rightarrow> k envelope
     | Some info \<Rightarrow>
         locked (\<lambda>i s. ([], in_settle i, s)) (\<lambda>settled.
           let release = (\<lambda>envelope. locked (\<lambda>i s. ([EvRelease info], (), s)) (\<lambda>_. k envelope)) in
           case settled of
             Inr left \<Rightarrow> release (envelope\<lparr>en_worktree := Some left\<rparr>)
           | Inl error \<Rightarrow> log_line (lit ''worktree: '' @ error) (\<lambda>_.
               release (envelope\<lparr>en_worktree := Some info\<rparr>))))"

definition finish_step ::
  "call_id \<Rightarrow> line_context \<Rightarrow> step_envelope \<Rightarrow> step_cost \<Rightarrow> worktree_info option \<Rightarrow>
    (step_result \<Rightarrow> ('e, 'r) prog) \<Rightarrow> ('e, 'r) prog" where
  "finish_step call line envelope cost hold k =
     settle_hold hold envelope (\<lambda>envelope.
       if en_status envelope = SsCancelled then
         conclude call line envelope False cost (\<lambda>result.
           case result of StepOk _ \<Rightarrow> k (StepTerminated (lit ''cancelled'')) | error \<Rightarrow> k error)
       else conclude call line envelope False cost k)"

definition refuse_step ::
  "step_call \<Rightarrow> step_progress \<Rightarrow> step_work \<Rightarrow> ustring \<Rightarrow> (step_result \<Rightarrow> ('e, 'r) prog) \<Rightarrow> ('e, 'r) prog" where
  "refuse_step c progress work error k =
     locked (\<lambda>i s. ([EvRefused error], (), s\<lparr>sh_replay := latch_off (sh_replay s)\<rparr>)) (\<lambda>_.
       let envelope = \<lparr>en_step = sc_call c, en_label = op_label (sc_opts c), en_status = SsFailed,
         en_value = JNull, en_schema = ScNotRequested, en_evidence = None,
         en_attempts = ct_attempts (sp_cost progress), en_worker = None, en_needs = None,
         en_error = Some (lit ''workflow decision: '' @ error), en_models = sp_walked progress,
         en_worktree = None\<rparr> in
       finish_step (sc_call c) (sc_line c) envelope (sp_cost progress) (wo_hold work) k)"

section \<open>Dispatching an attempt\<close>

definition request_for ::
  "'e run_env \<Rightarrow> step_call \<Rightarrow> ustring list \<Rightarrow> resolved_model \<Rightarrow> ustring option \<Rightarrow> step_work \<Rightarrow> step_progress \<Rightarrow>
    step_request" where
  "request_for env c tools model workspace work progress = \<lparr>
     sq_run = rn_id env,
     sq_call = sc_call c,
     sq_label = op_label (sc_opts c),
     sq_phase = wo_phase work,
     sq_role = op_role (sc_opts c),
     sq_model = model,
     sq_tools = tools,
     sq_prompt = sc_prompt c,
     sq_schema = op_schema (sc_opts c),
     sq_workspace = workspace,
     sq_attempt = 1,
     sq_ordinal = sp_ordinal progress,
     sq_worktree = op_worktree (sc_opts c),
     sq_base = rn_base env\<rparr>"

definition dispatch_line :: "step_request \<Rightarrow> json \<Rightarrow> nat \<Rightarrow> journal_line" where
  "dispatch_line request opts attempt =
     JlDispatch (sq_call request) (sq_label request) (sq_role request) (rm_reference (sq_model request))
       (rm_wire_model (sq_model request)) attempt (sq_prompt request) opts"

text \<open>\<open>spend\<close>: \<open>Some\<close> attempt when it could not be dispatched; a refused cap is charged to the step.\<close>

definition spend ::
  "'e run_env \<Rightarrow> step_request \<Rightarrow> json \<Rightarrow> nat \<Rightarrow> step_progress \<Rightarrow>
    (attempt option \<Rightarrow> step_progress \<Rightarrow> ('e, 'r) prog) \<Rightarrow> ('e, 'r) prog" where
  "spend env request opts attempt progress k =
     (let wire_model = rm_wire_model (sq_model request) in
      locked (\<lambda>i s. case try_spend (rn_caps env) wire_model (sh_used s) of (result, used) \<Rightarrow>
          (case result of Inr _ \<Rightarrow> [EvSpend wire_model] | Inl _ \<Rightarrow> [], result, s\<lparr>sh_used := used\<rparr>)) (\<lambda>result.
      case result of
        Inl (used, limit) \<Rightarrow>
          write_line (JlCapped (sq_call request) wire_model used limit) (\<lambda>written.
            if \<not> written then k (Some (AtJournalFailed (lit ''journal cap write failed''))) progress
            else k (Some (AtCapped wire_model used limit))
              (progress\<lparr>sp_cost := (sp_cost progress)\<lparr>ct_capped := incr (ct_capped (sp_cost progress))\<rparr>\<rparr>))
      | Inr _ \<Rightarrow>
          write_line (dispatch_line request opts attempt) (\<lambda>written.
            if \<not> written then k (Some (AtJournalFailed (lit ''journal dispatch write failed''))) progress
            else k None progress)))"

definition spent_attempt :: "step_progress \<Rightarrow> step_progress" where
  "spent_attempt progress =
     progress\<lparr>sp_cost := (sp_cost progress)\<lparr>ct_attempts := incr (ct_attempts (sp_cost progress))\<rparr>\<rparr>"

text \<open>The turn of a link, once its attempt is charged and journalled.\<close>

definition visible_request :: "step_request \<Rightarrow> step_request" where
  "visible_request request = request\<lparr>sq_prompt := redact_text (sq_prompt request)\<rparr>"

definition visible_worker :: "worker_ref \<Rightarrow> worker_ref" where
  "visible_worker worker = \<lparr>wk_id = redact_text (wk_id worker),
     wk_description = redact_text (wk_description worker)\<rparr>"

definition run_link ::
  "step_request \<Rightarrow> step_progress \<Rightarrow> step_work \<Rightarrow>
    (attempt \<Rightarrow> step_progress \<Rightarrow> step_work \<Rightarrow> ('e, 'r) prog) \<Rightarrow> ('e, 'r) prog" where
  "run_link request progress work k =
     cancellable (EvRun request) in_run (\<lambda>outcome.
       let progress = spent_attempt progress in
       case outcome of
         None \<Rightarrow> k AtCancelled progress work
       | Some (Inl reason) \<Rightarrow> k (AtRunnerRefused reason) progress work
       | Some (Inr outcome) \<Rightarrow>
           locked (\<lambda>i s. ([EvStepStarted (visible_request request) (visible_worker (so_worker outcome))], (), s)) (\<lambda>_.
             k (AtEnded (so_worker outcome) (so_end outcome)) progress
               (work\<lparr>wo_worker := Some (so_worker outcome)\<rparr>)))"

text \<open>The step's phase and worktree, prepared on its first link. \<open>Some\<close> attempt: it could not be.\<close>

definition prepare_phase ::
  "step_call \<Rightarrow> step_work \<Rightarrow> (step_work \<Rightarrow> ('e, 'r) prog) \<Rightarrow> ('e, 'r) prog" where
  "prepare_phase c work k =
     (case op_phase (sc_opts c) of
       Some phase \<Rightarrow> k (work\<lparr>wo_phase := Some phase\<rparr>)
     | None \<Rightarrow> locked (\<lambda>i s. ([], rc_phase (sh_record s), s)) (\<lambda>phase. k (work\<lparr>wo_phase := phase\<rparr>)))"

definition or_else :: "'a option \<Rightarrow> 'a option \<Rightarrow> 'a option" where
  "or_else a b = (case a of Some x \<Rightarrow> Some x | None \<Rightarrow> b)"

definition place_work :: "'e run_env \<Rightarrow> step_call \<Rightarrow> step_work \<Rightarrow> step_work" where
  "place_work env c work = work\<lparr>wo_workspace := (case wo_hold work of
       Some hold \<Rightarrow> Some (wt_path hold)
     | None \<Rightarrow> or_else (op_workspace (sc_opts c)) (rn_workspace env))\<rparr>"

definition prepare_work ::
  "'e run_env \<Rightarrow> step_call \<Rightarrow> role_view \<Rightarrow> ustring list \<Rightarrow> step_progress \<Rightarrow> step_work \<Rightarrow>
    (attempt option \<Rightarrow> step_work \<Rightarrow> ('e, 'r) prog) \<Rightarrow> ('e, 'r) prog" where
  "prepare_work env c role tools progress work k =
     prepare_phase c work (\<lambda>work.
       case (op_worktree (sc_opts c), rv_chain role) of
         (Some _, head # _) \<Rightarrow>
           cancellable (EvWorktree (request_for env c tools head (rn_workspace env) work progress)) in_worktree
             (\<lambda>hold. case hold of
               None \<Rightarrow> k (Some AtWorktreeCancelled) work
             | Some (Inl error) \<Rightarrow> k (Some (AtWorktreeRefused error)) work
             | Some (Inr hold) \<Rightarrow> k None (place_work env c (work\<lparr>wo_hold := Some hold\<rparr>)))
       | _ \<Rightarrow> k None (place_work env c work))"

text \<open>The hop from the link left last is journalled before the next model is dispatched.\<close>

definition journal_hop ::
  "step_call \<Rightarrow> resolved_model \<Rightarrow> step_progress \<Rightarrow>
    (attempt option \<Rightarrow> step_progress \<Rightarrow> ('e, 'r) prog) \<Rightarrow> ('e, 'r) prog" where
  "journal_hop c model progress k =
     (if sp_walked progress = [] then k None progress
      else write_line (JlFallback (sc_call c) (mt_model (last (sp_walked progress))) (rm_reference model)
          (sp_last_error progress)) (\<lambda>written.
        if \<not> written then k (Some (AtJournalFailed (lit ''journal fallback write failed''))) progress
        else k None (progress\<lparr>sp_cost :=
          (sp_cost progress)\<lparr>ct_fell_back := incr (ct_fell_back (sp_cost progress))\<rparr>\<rparr>)))"

definition start_link ::
  "'e run_env \<Rightarrow> step_call \<Rightarrow> ustring list \<Rightarrow> nat \<Rightarrow> resolved_model \<Rightarrow> step_progress \<Rightarrow> step_work \<Rightarrow>
    (attempt \<Rightarrow> step_progress \<Rightarrow> step_work \<Rightarrow> ('e, 'r) prog) \<Rightarrow> ('e, 'r) prog" where
  "start_link env c tools link model progress work k =
     journal_hop c model progress (\<lambda>failed progress.
       case failed of
         Some attempt \<Rightarrow> k attempt progress work
       | None \<Rightarrow>
           (let progress = progress\<lparr>sp_link := Some link, sp_moved_on := False\<rparr>;
                request = request_for env c tools model (wo_workspace work) work progress;
                work = work\<lparr>wo_request := Some request, wo_worker := None\<rparr> in
            spend env request (op_json (sc_opts c)) 1 progress (\<lambda>refused progress.
              case refused of
                Some attempt \<Rightarrow> k attempt progress work
              | None \<Rightarrow> run_link request progress work k)))"

definition dispatch ::
  "'e run_env \<Rightarrow> step_call \<Rightarrow> role_view \<Rightarrow> ustring list \<Rightarrow> nat \<Rightarrow> resolved_model \<Rightarrow> step_progress \<Rightarrow> step_work \<Rightarrow>
    (attempt \<Rightarrow> step_progress \<Rightarrow> step_work \<Rightarrow> ('e, 'r) prog) \<Rightarrow> ('e, 'r) prog" where
  "dispatch env c role tools link model progress work k =
     (if sp_link progress = None then
        prepare_work env c role tools progress work (\<lambda>failed work.
          case failed of
            Some attempt \<Rightarrow> k attempt progress work
          | None \<Rightarrow> start_link env c tools link model progress work k)
      else start_link env c tools link model progress work k)"

text \<open>The one repair turn, in the worker that ended the first one.\<close>

definition repair_link ::
  "'e run_env \<Rightarrow> step_call \<Rightarrow> step_request \<Rightarrow> worker_ref \<Rightarrow> ustring \<Rightarrow> step_progress \<Rightarrow>
    (attempt \<Rightarrow> step_progress \<Rightarrow> ('e, 'r) prog) \<Rightarrow> ('e, 'r) prog" where
  "repair_link env c request worker message progress k =
     spend env request (op_json (sc_opts c)) 2 progress (\<lambda>refused progress.
       case refused of
         Some attempt \<Rightarrow> k attempt progress
       | None \<Rightarrow>
           cancellable (EvRepair worker message) in_repair (\<lambda>ended.
             let progress = spent_attempt progress in
             case ended of
               None \<Rightarrow> k AtCancelled progress
             | Some (Inl reason) \<Rightarrow> k (AtRunnerRefused reason) progress
             | Some (Inr ended) \<Rightarrow> k (AtRepairEnded ended) progress))"

section \<open>The loop of a step\<close>

definition snapshot_of :: "'e run_env \<Rightarrow> step_call \<Rightarrow> replay_view \<Rightarrow> step_progress \<Rightarrow> snapshot" where
  "snapshot_of env c replay progress = \<lparr>sn_version = contract_version, sn_run = rn_id env,
     sn_max_steps = rn_max_steps env, sn_has_base = (rn_base env \<noteq> None), sn_role = sc_role c,
     sn_replay = replay, sn_step = progress\<rparr>"

text \<open>The moves whose contents the host owns: they have to be the native decisions' own.\<close>

fun host_owned :: "action \<Rightarrow> bool" where
  "host_owned (AcReplay _) \<longleftrightarrow> False"
| "host_owned (AcDispatch _ _ _ _) \<longleftrightarrow> False"
| "host_owned _ \<longleftrightarrow> True"

definition check_owned ::
  "snapshot \<Rightarrow> plan_request \<Rightarrow> ask \<Rightarrow> action \<Rightarrow> ustring + unit" where
  "check_owned snapshot plan ask action =
     (if \<not> host_owned action then Inr ()
      else try_then (map_err (\<lambda>error. lit ''host decision: '' @ error)
          (decide native_decisions () snapshot plan ask)) (\<lambda>canonical.
        if tr_action canonical \<noteq> action then
          Inl (lit ''transition refused: decision changes host-owned outcome'')
        else Inr ()))"

definition check_tools :: "snapshot \<Rightarrow> plan_request \<Rightarrow> action \<Rightarrow> ustring + unit" where
  "check_tools snapshot plan action =
     (case action of
       AcDispatch _ _ tools _ \<Rightarrow> map_err (\<lambda>error. lit ''transition refused: '' @ error)
         (check_grant tools (expected_grant snapshot plan))
     | _ \<Rightarrow> Inr ())"

text \<open>What the loop does with a decision's answer before it applies it (\<open>checked\<close> in the source).\<close>

definition examine :: "'e decisions \<Rightarrow> 'e \<Rightarrow> snapshot \<Rightarrow> plan_request \<Rightarrow> ask \<Rightarrow> ustring + action" where
  "examine ds salt snapshot plan ask =
     try_then (map_err (\<lambda>error. lit ''the decision failed: '' @ error) (decide ds salt snapshot plan ask)) (\<lambda>t.
     try_then (map_err (\<lambda>error. lit ''transition refused: '' @ error)
       (check_transition snapshot (pq_call plan) ask t)) (\<lambda>action.
     try_then (check_tools snapshot plan action) (\<lambda>_.
     try_then (check_owned snapshot plan ask action) (\<lambda>_. Inr action))))"

definition move_on :: "moved_on \<Rightarrow> model_try \<Rightarrow> ustring \<Rightarrow> ustring option \<Rightarrow> step_progress \<Rightarrow> step_progress" where
  "move_on reason tried error worker progress = progress\<lparr>
     sp_route_failed := (sp_route_failed progress \<or> reason = MvRouteFailed),
     sp_walked := sp_walked progress @ [tried],
     sp_last_error := redact_text error,
     sp_last_worker := worker,
     sp_moved_on := True\<rparr>"

definition latch_if :: "bool \<Rightarrow> (unit \<Rightarrow> ('e, 'r) prog) \<Rightarrow> ('e, 'r) prog" where
  "latch_if latch k =
     (if latch then locked (\<lambda>i s. ([], (), s\<lparr>sh_replay := latch_off (sh_replay s)\<rparr>)) k else k ())"

text \<open>
  Applying an action: \<open>again\<close> is the next round of the loop, \<open>k\<close> the return from the step. A replay
  whose entry another call took meanwhile asks again.
\<close>

definition apply_action ::
  "'e run_env \<Rightarrow> step_call \<Rightarrow> step_progress \<Rightarrow> step_work \<Rightarrow> ask \<Rightarrow> action \<Rightarrow>
    (step_progress \<Rightarrow> step_work \<Rightarrow> ask \<Rightarrow> ('e, 'r) prog) \<Rightarrow> (step_result \<Rightarrow> ('e, 'r) prog) \<Rightarrow> ('e, 'r) prog" where
  "apply_action env c progress work ask action again k =
     (case action of
       AcReplay entry \<Rightarrow>
         locked (\<lambda>i s. case take_entry entry (sc_call c) (sh_replay s) of (taken, replay) \<Rightarrow>
             (case taken of None \<Rightarrow> [] | Some _ \<Rightarrow> [EvTaken entry], taken, s\<lparr>sh_replay := replay\<rparr>)) (\<lambda>taken.
         case taken of
           None \<Rightarrow> again progress work ask
         | Some (envelope, from) \<Rightarrow>
             write_line (JlReplayed (sc_call c) from) (\<lambda>written.
               if \<not> written then k (StepScriptError (lit ''journal replay write failed''))
               else conclude (sc_call c) (sc_line c) envelope True no_cost k))
     | AcDispatch link model tools latch \<Rightarrow>
         latch_if latch (\<lambda>_.
           case sc_role c of
             None \<Rightarrow> refuse_step c progress work
               (lit ''transition refused: no link '' @ dec link @ lit '' to dispatch'') k
           | Some role \<Rightarrow>
               (case chain_link (rv_chain role) link of
                 None \<Rightarrow> refuse_step c progress work
                   (lit ''transition refused: no link '' @ dec link @ lit '' to dispatch'') k
               | Some model \<Rightarrow>
                   dispatch env c role tools link model progress work (\<lambda>attempt progress work.
                     again progress work (AskAccept attempt))))
     | AcRepair message rejected \<Rightarrow>
         (case (wo_request work, wo_worker work) of
           (Some request, Some worker) \<Rightarrow>
             repair_link env c request worker message
               (progress\<lparr>sp_repair := Some \<lparr>rt_worker = worker, rt_rejected = rejected\<rparr>\<rparr>)
               (\<lambda>attempt progress. again progress work (AskAccept attempt))
         | _ \<Rightarrow> refuse_step c progress work (lit ''transition refused: no worker to repair'') k)
     | AcMoveOn reason tried error worker \<Rightarrow>
         again (move_on reason tried error worker progress) work AskPlan
     | AcEnd envelope latch \<Rightarrow>
         latch_if latch (\<lambda>_.
           finish_step (sc_call c) (sc_line c) envelope (sp_cost progress) (wo_hold work) k)
     | AcCancelled envelope \<Rightarrow>
         finish_step (sc_call c) (sc_line c) envelope (sp_cost progress) (wo_hold work) k)"

primrec step_loop ::
  "nat \<Rightarrow> 'e run_env \<Rightarrow> step_call \<Rightarrow> step_progress \<Rightarrow> step_work \<Rightarrow> ask \<Rightarrow>
    (step_result \<Rightarrow> ('e, 'r) prog) \<Rightarrow> ('e, 'r) prog" where
  "step_loop 0 env c progress work ask k = k StepOutOfFuel"
| "step_loop (Suc n) env c progress work ask k =
     locked (\<lambda>i s. ([], sh_journal_error s, s)) (\<lambda>error.
     case error of
       Some message \<Rightarrow> k (StepScriptError message)
     | None \<Rightarrow>
         locked (\<lambda>i s. ([], (in_salt i, view (sh_replay s)), s)) (\<lambda>(salt, replay).
         case examine (rn_decisions env) salt (snapshot_of env c replay progress) (sc_plan c) ask of
           Inl error \<Rightarrow> refuse_step c progress work error k
         | Inr action \<Rightarrow> apply_action env c progress work ask action
             (\<lambda>progress work ask. step_loop n env c progress work ask k) k))"

definition step_call_of ::
  "'e run_env \<Rightarrow> ustring \<Rightarrow> step_options \<Rightarrow> call_id \<Rightarrow> nat \<Rightarrow> step_call" where
  "step_call_of env prompt opts call number = (let role = rn_roles env (op_role opts) in \<lparr>
     sc_prompt = prompt,
     sc_opts = opts,
     sc_call = call,
     sc_ordinal = number,
     sc_role = role,
     sc_line = \<lparr>lc_role = op_role opts, lc_model = (case role of Some role \<Rightarrow> role_head role | None \<Rightarrow> []),
       lc_ordinal = number\<rparr>,
     sc_plan = \<lparr>pq_version = contract_version, pq_call = call, pq_label = op_label opts,
       pq_role = op_role opts, pq_worktree = op_worktree opts, pq_tools = op_tools opts\<rparr>\<rparr>)"

definition workflow_step ::
  "nat \<Rightarrow> 'e run_env \<Rightarrow> ustring \<Rightarrow> step_options \<Rightarrow> call_id \<Rightarrow> (step_result \<Rightarrow> ('e, 'r) prog) \<Rightarrow> ('e, 'r) prog" where
  "workflow_step fuel env prompt opts call k =
     locked (\<lambda>i s. ([], (), s\<lparr>sh_record := (sh_record s)\<lparr>rc_steps_started :=
       incr (rc_steps_started (sh_record s))\<rparr>\<rparr>)) (\<lambda>_.
     locked (\<lambda>i s. ([], incr (sh_calls s), s\<lparr>sh_calls := incr (sh_calls s)\<rparr>)) (\<lambda>number.
       step_loop fuel env (step_call_of env prompt opts call number) (fresh_progress number) fresh_work AskPlan k))"

end
