(* ===== verification/WorkflowLogic.thy ===== *)
theory WorkflowLogic
  imports WorkflowEngine
begin

text \<open>
  Reasoning about the programs of a workflow run. \<open>holds R Q p es s\<close>: however other threads change
  the shared state between its actions, as long as each change is in \<open>R\<close>, the program \<open>p\<close>, which
  has emitted the events \<open>es\<close> so far, returns with a result, its own events and a state in \<open>Q\<close>.
  \<open>acts G p\<close>: each action of \<open>p\<close>, taken in any state, is in the guarantee \<open>G\<close>. The collections
  \<open>holds_intros\<close> and \<open>acts_intros\<close> hold the rule of every function of the engine.
\<close>

named_theorems acts_intros
named_theorems holds_intros

section \<open>What an action guarantees\<close>

type_synonym action_rel = "shared \<Rightarrow> event list \<Rightarrow> shared \<Rightarrow> bool"

inductive acts :: "action_rel \<Rightarrow> ('e, 'r) prog \<Rightarrow> bool" for G where
  acts_Return: "acts G (Return r)"
| acts_Act: "(\<And>i s evs s' p. g i s = (evs, s', p) \<Longrightarrow> G s evs s' \<and> acts G p) \<Longrightarrow> acts G (Act g)"

declare acts_Return [acts_intros]

lemma acts_ActD: "acts G (Act g) \<Longrightarrow> g i s = (evs, s', p) \<Longrightarrow> G s evs s' \<and> acts G p"
  by (erule acts.cases) auto

lemma acts_locked:
  assumes "\<And>i s evs x s'. f i s = (evs, x, s') \<Longrightarrow> G s evs s' \<and> acts G (k x)"
  shows "acts G (locked f k)"
  unfolding locked_def using assms by (intro acts_Act) (auto split: prod.splits)

section \<open>Returning under interference\<close>

inductive holds ::
  "(shared \<Rightarrow> shared \<Rightarrow> bool) \<Rightarrow> ('r \<Rightarrow> event list \<Rightarrow> shared \<Rightarrow> bool) \<Rightarrow> ('e, 'r) prog \<Rightarrow> event list \<Rightarrow> shared \<Rightarrow> bool"
  for R Q where
  holds_Return: "Q r es s \<Longrightarrow> holds R Q (Return r) es s"
| holds_Act: "(\<And>i s' evs s'' p. R s s' \<Longrightarrow> g i s' = (evs, s'', p) \<Longrightarrow> holds R Q p (es @ evs) s'') \<Longrightarrow>
    holds R Q (Act g) es s"

inductive_cases holds_ReturnE [elim!]: "holds R Q (Return r) es s"
inductive_cases holds_ActE: "holds R Q (Act g) es s"

lemma holds_locked:
  assumes "\<And>i s' evs x s''. R s s' \<Longrightarrow> f i s' = (evs, x, s'') \<Longrightarrow> holds R Q (k x) (es @ evs) s''"
  shows "holds R Q (locked f k) es s"
  unfolding locked_def using assms by (intro holds_Act) (auto split: prod.splits)

lemma holds_step: "holds R Q (Act g) es s \<Longrightarrow> R s s' \<Longrightarrow> g i s' = (evs, s'', p) \<Longrightarrow> holds R Q p (es @ evs) s''"
  by (erule holds_ActE) auto

text \<open>The environment may act before anything else.\<close>

lemma holds_later:
  assumes "holds R Q p es s" "R s s'"
    and "\<And>a b c. R a b \<Longrightarrow> R b c \<Longrightarrow> R a c"
    and "\<And>r es a b. Q r es a \<Longrightarrow> R a b \<Longrightarrow> Q r es b"
  shows "holds R Q p es s'"
proof (cases p)
  case (Return r)
  with assms show ?thesis by (auto intro: holds_Return)
next
  case (Act g)
  show ?thesis unfolding Act
  proof (rule holds_Act)
    fix i t evs t' q
    assume "R s' t" "g i t = (evs, t', q)"
    with assms Act show "holds R Q q (es @ evs) t'" by (blast intro: holds_step)
  qed
qed

text \<open>A program that is under way can be run to its end.\<close>

lemma holds_completes:
  assumes "holds R Q p es s" "\<And>a. R a a"
  shows "\<exists>r rest t. Q r (es @ rest) t"
  using assms(1)
proof induction
  case (holds_Return r es s)
  then show ?case by (metis append_Nil2)
next
  case (holds_Act s g es)
  obtain evs s'' p where "g undefined s = (evs, s'', p)" by (metis prod_cases3)
  with holds_Act.IH [OF assms(2)] show ?case by (metis append_assoc)
qed

lemma holds_conseq:
  assumes "holds R Q p es s" "\<And>r es s. Q r es s \<Longrightarrow> Q' r es s"
  shows "holds R Q' p es s"
  using assms(1) by induction (auto intro: holds.intros assms(2))

section \<open>What the threads of a run do to the shared state\<close>

text \<open>
  A recorded result that was taken stays taken, the replay latch and the cancellation stay, a
  failed journal stays failed.
\<close>

definition replay_advances :: "replay \<Rightarrow> replay \<Rightarrow> bool" where
  "replay_advances a b \<longleftrightarrow> ry_from b = ry_from a \<and> ry_entries b = ry_entries a \<and>
     length (ry_taken b) = length (ry_taken a) \<and>
     (\<forall>i < length (ry_taken a). ry_taken a ! i \<longrightarrow> ry_taken b ! i) \<and>
     (ry_latched_off a \<longrightarrow> ry_latched_off b)"

definition advances :: "shared \<Rightarrow> shared \<Rightarrow> bool" where
  "advances s t \<longleftrightarrow> replay_advances (sh_replay s) (sh_replay t) \<and>
     (sh_journal_error s \<noteq> None \<longrightarrow> sh_journal_error t \<noteq> None) \<and>
     (sh_cancelled s \<longrightarrow> sh_cancelled t)"

lemma replay_advances_refl [simp]: "replay_advances r r"
  by (simp add: replay_advances_def)

lemma replay_advances_trans: "replay_advances a b \<Longrightarrow> replay_advances b c \<Longrightarrow> replay_advances a c"
  by (simp add: replay_advances_def)

lemma advances_refl [simp]: "advances s s"
  by (simp add: advances_def)

lemma advances_trans: "advances a b \<Longrightarrow> advances b c \<Longrightarrow> advances a c"
  unfolding advances_def by (blast intro: replay_advances_trans)

lemma advances_update [simp]:
  "advances s (t\<lparr>sh_journal_open := b\<rparr>) \<longleftrightarrow> advances s t"
  "advances s (t\<lparr>sh_record := r\<rparr>) \<longleftrightarrow> advances s t"
  "advances s (t\<lparr>sh_used := u\<rparr>) \<longleftrightarrow> advances s t"
  "advances s (t\<lparr>sh_calls := n\<rparr>) \<longleftrightarrow> advances s t"
  "advances s (t\<lparr>sh_report := x\<rparr>) \<longleftrightarrow> advances s t"
  by (simp_all add: advances_def)

lemma advances_fail: "advances s t \<Longrightarrow> advances s (t\<lparr>sh_journal_error := Some e\<rparr>)"
  by (simp add: advances_def)

lemma advances_replay: "advances s t \<Longrightarrow> replay_advances (sh_replay t) r \<Longrightarrow> advances s (t\<lparr>sh_replay := r\<rparr>)"
  by (auto simp: advances_def intro: replay_advances_trans)

lemma latch_off_advances [simp]: "replay_advances r (latch_off r)"
  by (simp add: replay_advances_def latch_off_def)

lemma take_entry_advances: "take_entry i call r = (taken, r') \<Longrightarrow> replay_advances r r'"
  by (auto simp: take_entry_def replay_advances_def Let_def split: option.splits if_splits prod.splits)
    (metis nth_list_update_eq nth_list_update_neq)

abbreviation under_way ::
  "('r \<Rightarrow> event list \<Rightarrow> bool) \<Rightarrow> ('e, 'r) prog \<Rightarrow> event list \<Rightarrow> shared \<Rightarrow> bool" where
  "under_way Q \<equiv> holds advances (\<lambda>r es _. Q r es)"

lemma under_way_later: "under_way Q p es s \<Longrightarrow> advances s s' \<Longrightarrow> under_way Q p es s'"
  by (rule holds_later) (auto intro: advances_trans)

section \<open>Reading a trace of own events\<close>

fun event_line :: "event \<Rightarrow> journal_line option" where
  "event_line (EvLine line) = Some line"
| "event_line _ = None"

fun event_run :: "event \<Rightarrow> step_request option" where
  "event_run (EvRun request) = Some request"
| "event_run _ = None"

fun event_spend :: "event \<Rightarrow> ustring option" where
  "event_spend (EvSpend wire_model) = Some wire_model"
| "event_spend _ = None"

fun event_repair :: "event \<Rightarrow> worker_ref option" where
  "event_repair (EvRepair worker _) = Some worker"
| "event_repair _ = None"

fun event_taken :: "event \<Rightarrow> nat option" where
  "event_taken (EvTaken entry) = Some entry"
| "event_taken _ = None"

fun dispatch_wire :: "journal_line \<Rightarrow> ustring option" where
  "dispatch_wire (JlDispatch _ _ _ _ wire_model _ _ _) = Some wire_model"
| "dispatch_wire _ = None"

fun is_result :: "journal_line \<Rightarrow> bool" where
  "is_result (JlResult _ _) \<longleftrightarrow> True"
| "is_result _ \<longleftrightarrow> False"

fun is_replayed :: "journal_line \<Rightarrow> bool" where
  "is_replayed (JlReplayed _ _) \<longleftrightarrow> True"
| "is_replayed _ \<longleftrightarrow> False"

definition lines_of :: "event list \<Rightarrow> journal_line list" where
  "lines_of es = List.map_filter event_line es"

definition runs_of :: "event list \<Rightarrow> step_request list" where
  "runs_of es = List.map_filter event_run es"

definition spends_of :: "event list \<Rightarrow> ustring list" where
  "spends_of es = List.map_filter event_spend es"

definition repairs_of :: "event list \<Rightarrow> worker_ref list" where
  "repairs_of es = List.map_filter event_repair es"

definition takes_of :: "event list \<Rightarrow> nat list" where
  "takes_of es = List.map_filter event_taken es"

definition dispatches_of :: "event list \<Rightarrow> ustring list" where
  "dispatches_of es = List.map_filter dispatch_wire (lines_of es)"

definition has_result :: "event list \<Rightarrow> bool" where
  "has_result es \<longleftrightarrow> list_ex is_result (lines_of es)"

definition has_replayed :: "event list \<Rightarrow> bool" where
  "has_replayed es \<longleftrightarrow> list_ex is_replayed (lines_of es)"

lemmas trace_defs = lines_of_def runs_of_def spends_of_def repairs_of_def takes_of_def dispatches_of_def has_result_def
  has_replayed_def

lemma map_filter_append: "List.map_filter f (xs @ ys) = List.map_filter f xs @ List.map_filter f ys"
  by (simp add: List.map_filter_def)

lemma map_filter_Cons: "List.map_filter f (x # xs) = (case f x of None \<Rightarrow> [] | Some y \<Rightarrow> [y]) @ List.map_filter f xs"
  by (simp add: List.map_filter_def split: option.splits)

lemma map_filter_Nil: "List.map_filter f [] = []"
  by (simp add: List.map_filter_def)

lemmas map_filter_simps = map_filter_append map_filter_Cons map_filter_Nil

lemma trace_append [simp]:
  "lines_of (a @ b) = lines_of a @ lines_of b" "runs_of (a @ b) = runs_of a @ runs_of b"
  "spends_of (a @ b) = spends_of a @ spends_of b" "repairs_of (a @ b) = repairs_of a @ repairs_of b"
  "takes_of (a @ b) = takes_of a @ takes_of b" "dispatches_of (a @ b) = dispatches_of a @ dispatches_of b"
  "has_result (a @ b) \<longleftrightarrow> has_result a \<or> has_result b"
  "has_replayed (a @ b) \<longleftrightarrow> has_replayed a \<or> has_replayed b"
  by (simp_all add: trace_defs map_filter_append)

lemma trace_Nil [simp]:
  "lines_of [] = []" "runs_of [] = []" "spends_of [] = []" "repairs_of [] = []" "takes_of [] = []" "dispatches_of [] = []"
  "\<not> has_result []" "\<not> has_replayed []"
  by (simp_all add: trace_defs map_filter_Nil)

lemma trace_Cons [simp]:
  "lines_of (e # es) = (case event_line e of None \<Rightarrow> [] | Some x \<Rightarrow> [x]) @ lines_of es"
  "runs_of (e # es) = (case event_run e of None \<Rightarrow> [] | Some x \<Rightarrow> [x]) @ runs_of es"
  "spends_of (e # es) = (case event_spend e of None \<Rightarrow> [] | Some x \<Rightarrow> [x]) @ spends_of es"
  "repairs_of (e # es) = (case event_repair e of None \<Rightarrow> [] | Some x \<Rightarrow> [x]) @ repairs_of es"
  "takes_of (e # es) = (case event_taken e of None \<Rightarrow> [] | Some x \<Rightarrow> [x]) @ takes_of es"
  "dispatches_of (e # es) = (case event_line e of None \<Rightarrow> [] | Some l \<Rightarrow>
     (case dispatch_wire l of None \<Rightarrow> [] | Some x \<Rightarrow> [x])) @ dispatches_of es"
  "has_result (e # es) \<longleftrightarrow> (case event_line e of None \<Rightarrow> False | Some l \<Rightarrow> is_result l) \<or> has_result es"
  "has_replayed (e # es) \<longleftrightarrow> (case event_line e of None \<Rightarrow> False | Some l \<Rightarrow> is_replayed l) \<or> has_replayed es"
  by (auto simp: trace_defs map_filter_Cons split: option.splits)

lemma safe_line_kind [simp]:
  "dispatch_wire (safe_line l) = dispatch_wire l" "is_result (safe_line l) = is_result l"
  "is_replayed (safe_line l) = is_replayed l"
  by (cases l; simp)+

text \<open>Events no trace property speaks about.\<close>

fun quiet_event :: "event \<Rightarrow> bool" where
  "quiet_event (EvLog _) \<longleftrightarrow> True"
| "quiet_event (EvRelease _) \<longleftrightarrow> True"
| "quiet_event (EvWorktree _) \<longleftrightarrow> True"
| "quiet_event (EvStepStarted _ _) \<longleftrightarrow> True"
| "quiet_event _ \<longleftrightarrow> False"

lemma quiet_traces [simp]:
  "list_all quiet_event evs \<Longrightarrow> lines_of evs = []" "list_all quiet_event evs \<Longrightarrow> runs_of evs = []"
  "list_all quiet_event evs \<Longrightarrow> spends_of evs = []" "list_all quiet_event evs \<Longrightarrow> repairs_of evs = []"
  "list_all quiet_event evs \<Longrightarrow> takes_of evs = []"
  "list_all quiet_event evs \<Longrightarrow> dispatches_of evs = []" "list_all quiet_event evs \<Longrightarrow> \<not> has_result evs"
  "list_all quiet_event evs \<Longrightarrow> \<not> has_replayed evs"
proof -
  assume quiet: "list_all quiet_event evs"
  have "event_line e = None \<and> event_run e = None \<and> event_spend e = None \<and> event_repair e = None \<and>
      event_taken e = None"
    if "quiet_event e" for e
    using that by (cases e) auto
  with quiet have "lines_of evs = [] \<and> runs_of evs = [] \<and> spends_of evs = [] \<and> repairs_of evs = [] \<and> takes_of evs = []"
    by (induction evs) auto
  then show "lines_of evs = []" "runs_of evs = []" "spends_of evs = []" "repairs_of evs = []" "takes_of evs = []"
    "dispatches_of evs = []" "\<not> has_result evs" "\<not> has_replayed evs"
    by (simp_all add: dispatches_of_def has_result_def has_replayed_def map_filter_Nil)
qed

section \<open>Rules of the journal\<close>

lemma under_way_locked:
  assumes "\<And>i s'. advances s s' \<Longrightarrow> case f i s' of (evs, x, s'') \<Rightarrow> under_way Q (k x) (es @ evs) s''"
  shows "under_way Q (locked f k) es s"
proof (rule holds_locked)
  fix i s' evs x s''
  assume "advances s s'" "f i s' = (evs, x, s'')"
  with assms [of s' i] show "under_way Q (k x) (es @ evs) s''" by simp
qed

lemma under_way_log_line:
  assumes "\<And>evs s'. list_all quiet_event evs \<Longrightarrow> advances s s' \<Longrightarrow> under_way Q (k ()) (es @ evs) s'"
  shows "under_way Q (log_line line k) es s"
  unfolding log_line_def
proof (rule under_way_locked, unfold prod.case)
  fix s'
  assume "advances s s'"
  then show "under_way Q (k ()) (es @ [EvLog (redact_text line)])
      (s'\<lparr>sh_record := push_log (redact_text line) (sh_record s')\<rparr>)"
    by (intro assms) auto
qed

lemma under_way_failed:
  assumes failed: "\<And>evs s'. list_all quiet_event evs \<Longrightarrow> advances s s' \<Longrightarrow> sh_journal_error s' \<noteq> None \<Longrightarrow>
      under_way Q (k False) (es @ evs) s'"
    and "advances s s1"
  shows "under_way Q (locked (\<lambda>i s. ([], (), s\<lparr>sh_journal_error := Some message\<rparr>))
    (\<lambda>_. log_line message (\<lambda>_. k False))) es s1"
proof (rule under_way_locked, unfold prod.case append_Nil2, rule under_way_log_line)
  fix s2 evs s3
  assume quiet: "list_all quiet_event evs" and "advances s1 s2" "advances (s2\<lparr>sh_journal_error := Some message\<rparr>) s3"
  moreover from this have "sh_journal_error s3 \<noteq> None" by (auto simp: advances_def)
  moreover have "advances s (s2\<lparr>sh_journal_error := Some message\<rparr>)"
    using assms(2) calculation(2) by (blast intro: advances_fail advances_trans)
  ultimately have "advances s s3" "sh_journal_error s3 \<noteq> None" by (blast intro: advances_trans)+
  with failed quiet show "under_way Q (k False) (es @ evs) s3" by blast
qed

lemma under_way_write_line:
  assumes written: "\<And>s'. advances s s' \<Longrightarrow> under_way Q (k True) (es @ [EvLine (safe_line line)]) s'"
    and failed: "\<And>evs s'. list_all quiet_event evs \<Longrightarrow> advances s s' \<Longrightarrow> sh_journal_error s' \<noteq> None \<Longrightarrow>
      under_way Q (k False) (es @ evs) s'"
  shows "under_way Q (write_line line k) es s"
  unfolding write_line_def
proof (rule under_way_locked, unfold prod.case append_Nil2)
  fix s1
  assume 1: "advances s s1"
  show "under_way Q (if sh_journal_error s1 \<noteq> None then k False
      else locked (append_line line) (\<lambda>result. case result of
          Inr _ \<Rightarrow> k True
        | Inl error \<Rightarrow> let message = lit ''journal write failed: '' @ error in
            locked (\<lambda>i s. ([], (), s\<lparr>sh_journal_error := Some message\<rparr>))
              (\<lambda>_. log_line message (\<lambda>_. k False)))) es s1"
  proof (cases "sh_journal_error s1 = None")
    case False
    with 1 failed [of "[]" s1] show ?thesis by simp
  next
    case True
    have "case append_line line i s2 of (evs, result, s3) \<Rightarrow>
      under_way Q (case result of
          Inr _ \<Rightarrow> k True
        | Inl error \<Rightarrow> let message = lit ''journal write failed: '' @ error in
            locked (\<lambda>i s. ([], (), s\<lparr>sh_journal_error := Some message\<rparr>))
              (\<lambda>_. log_line message (\<lambda>_. k False))) (es @ evs) s3"
      if 2: "advances s1 s2" for i s2
    proof -
      have "advances s s2"
        using 1 2 by (rule advances_trans)
      then show ?thesis
        using written failed
        by (auto simp: append_line_def Let_def split: option.splits intro!: under_way_failed)
    qed
    from under_way_locked [OF this] True show ?thesis by simp
  qed
qed

end
