(* ===== verification/WorkflowStep.thy ===== *)
theory WorkflowStep
  imports WorkflowLogic "HOL-Library.Sublist"
begin

text \<open>
  One step of a workflow run under arbitrary interference, whatever its decisions answer. The order
  of its own events (\<open>orderly\<close>): an attempt is charged to its cap before its \<open>dispatch\<close> line is
  written and the line is written before the runner is called; the models run are a subsequence of
  the role's chain; there is at most one repair turn, after a turn that ran; the \<open>result\<close> line is
  the last, only one, and carries the number of dispatches. The loop invariant \<open>step_inv\<close> ties the
  step's bookkeeping to these events, and \<open>rounds\<close> with the open entries of the replay prefix
  bounds the rounds of the loop.
\<close>

section \<open>The order of a step's events\<close>

definition role_chain :: "step_call \<Rightarrow> resolved_model list" where
  "role_chain c = (case sc_role c of None \<Rightarrow> [] | Some role \<Rightarrow> rv_chain role)"

fun own_line_ok :: "step_call \<Rightarrow> event list \<Rightarrow> journal_line \<Rightarrow> bool" where
  "own_line_ok c pre (JlDispatch call label role model wire attempt prompt opts) \<longleftrightarrow>
     call = sc_call c \<and> \<not> has_replayed pre \<and>
     count_list (dispatches_of pre) wire < count_list (spends_of pre) wire"
| "own_line_ok c pre (JlCapped call wire used limit) \<longleftrightarrow> call = sc_call c \<and> \<not> has_replayed pre"
| "own_line_ok c pre (JlFallback call from to error) \<longleftrightarrow> call = sc_call c \<and> \<not> has_replayed pre"
| "own_line_ok c pre (JlReplayed call from) \<longleftrightarrow>
     call = sc_call c \<and> \<not> has_replayed pre \<and> takes_of pre \<noteq> [] \<and> dispatches_of pre = []"
| "own_line_ok c pre (JlResult call en) \<longleftrightarrow> call = sc_call c \<and> en_step en = call \<and>
     (has_replayed pre \<or> en_attempts en = length (dispatches_of pre) \<and>
       (en_status en = SsDone \<longrightarrow> dispatches_of pre \<noteq> []))"
| "own_line_ok c pre _ \<longleftrightarrow> False"

fun own_ok :: "step_call \<Rightarrow> event list \<Rightarrow> event \<Rightarrow> bool" where
  "own_ok c pre (EvLine line) \<longleftrightarrow> \<not> has_result pre \<and> own_line_ok c pre line"
| "own_ok c pre (EvRun request) \<longleftrightarrow> \<not> has_result pre \<and> repairs_of pre = [] \<and> pre \<noteq> [] \<and>
     last pre = EvLine (safe_line (dispatch_line request (op_json (sc_opts c)) 1)) \<and>
     subseq (map sq_model (runs_of pre @ [request])) (role_chain c)"
| "own_ok c pre (EvRepair worker message) \<longleftrightarrow> \<not> has_result pre \<and> repairs_of pre = [] \<and> runs_of pre \<noteq> [] \<and>
     last pre = EvLine (safe_line (dispatch_line (last (runs_of pre)) (op_json (sc_opts c)) 2))"
| "own_ok c pre (EvStepEnded line) \<longleftrightarrow> has_result pre"
| "own_ok c pre (EvTaken entry) \<longleftrightarrow> takes_of pre = [] \<and> dispatches_of pre = []"
| "own_ok c pre (EvPhase name) \<longleftrightarrow> False"
| "own_ok c pre _ \<longleftrightarrow> True"

definition orderly :: "step_call \<Rightarrow> event list \<Rightarrow> bool" where
  "orderly c es \<longleftrightarrow> (\<forall>pre e post. es = pre @ e # post \<longrightarrow> own_ok c pre e)"

lemma orderly_Nil [simp]: "orderly c []"
  by (simp add: orderly_def)

lemma orderly_snoc [simp]: "orderly c (es @ [e]) \<longleftrightarrow> orderly c es \<and> own_ok c es e"
proof
  assume "orderly c (es @ [e])"
  then show "orderly c es \<and> own_ok c es e"
    unfolding orderly_def by (metis append.assoc append_Cons append_Nil)
next
  assume *: "orderly c es \<and> own_ok c es e"
  show "orderly c (es @ [e])"
    unfolding orderly_def
  proof (intro allI impI)
    fix pre x post
    assume "es @ [e] = pre @ x # post"
    with * show "own_ok c pre x"
      by (cases post rule: rev_cases) (auto simp: orderly_def)
  qed
qed

lemma orderly_two [simp]:
  "orderly c (es @ [a, b]) \<longleftrightarrow> orderly c es \<and> own_ok c es a \<and> own_ok c (es @ [a]) b"
  using orderly_snoc [of c "es @ [a]" b] by simp

lemma quiet_own_ok: "quiet_event e \<Longrightarrow> own_ok c pre e"
  by (cases e) auto

lemma orderly_quiet [simp]: "list_all quiet_event evs \<Longrightarrow> orderly c (es @ evs) \<longleftrightarrow> orderly c es"
proof (induction evs arbitrary: es rule: rev_induct)
  case (snoc e evs)
  then have "orderly c ((es @ evs) @ [e]) \<longleftrightarrow> orderly c es"
    by (simp only: orderly_snoc) (simp add: quiet_own_ok)
  then show ?case by simp
qed simp

text \<open>What happened before is orderly too.\<close>

lemma orderly_prefix: "orderly c (es @ rest) \<Longrightarrow> orderly c es"
  by (auto simp: orderly_def)

fun is_refusal :: "event \<Rightarrow> bool" where
  "is_refusal (EvRefused _) \<longleftrightarrow> True"
| "is_refusal _ \<longleftrightarrow> False"

definition any_refused :: "event list \<Rightarrow> bool" where
  "any_refused es \<longleftrightarrow> list_ex is_refusal es"

lemma any_refused_simps [simp]: "\<not> any_refused []" "any_refused (e # es) \<longleftrightarrow> is_refusal e \<or> any_refused es"
  "any_refused (a @ b) \<longleftrightarrow> any_refused a \<or> any_refused b"
  by (simp_all add: any_refused_def)

lemma quiet_not_refused [simp]: "list_all quiet_event evs \<Longrightarrow> \<not> any_refused evs"
proof -
  have "\<not> is_refusal e" if "quiet_event e" for e using that by (cases e) auto
  then show "list_all quiet_event evs \<Longrightarrow> \<not> any_refused evs" by (induction evs) auto
qed

section \<open>Bookkeeping and events\<close>

definition next_link :: "step_progress \<Rightarrow> nat" where
  "next_link progress = (case sp_link progress of None \<Rightarrow> 0 | Some link \<Rightarrow> Suc link)"

text \<open>The step is still going: nothing was replayed, no result was written. \<open>m\<close> is the number of
  links turned to so far.\<close>

definition books :: "step_call \<Rightarrow> nat \<Rightarrow> step_progress \<Rightarrow> event list \<Rightarrow> bool" where
  "books c m progress es \<longleftrightarrow> orderly c es \<and> \<not> has_result es \<and> \<not> has_replayed es \<and> takes_of es = [] \<and>
     ct_attempts (sp_cost progress) = length (dispatches_of es) \<and>
     length (dispatches_of es) \<le> m + of_bool (sp_repair progress \<noteq> None) \<and>
     subseq (map sq_model (runs_of es)) (take m (role_chain c)) \<and>
     length (runs_of es) \<le> length (dispatches_of es) \<and>
     (sp_repair progress = None \<longrightarrow> repairs_of es = []) \<and>
     (sp_repair progress \<noteq> None \<longrightarrow> runs_of es \<noteq> []) \<and>
     (\<forall>wire. count_list (dispatches_of es) wire \<le> count_list (spends_of es) wire)"

text \<open>What an envelope has to carry to end the step.\<close>

definition result_fits :: "step_call \<Rightarrow> event list \<Rightarrow> step_envelope \<Rightarrow> bool" where
  "result_fits c es envelope \<longleftrightarrow> en_step envelope = sc_call c \<and>
     (has_replayed es \<or> en_attempts envelope = length (dispatches_of es) \<and>
       (en_status envelope = SsDone \<longrightarrow> dispatches_of es \<noteq> []))"

text \<open>What is known when the step returns.\<close>

definition step_post :: "bool \<Rightarrow> step_call \<Rightarrow> step_result \<Rightarrow> event list \<Rightarrow> bool" where
  "step_post sound c r es \<longleftrightarrow> orderly c es \<and> r \<noteq> StepOutOfFuel \<and> (sound \<longrightarrow> \<not> any_refused es) \<and>
     (case r of
       StepOk envelope \<Rightarrow> \<exists>pre. lines_of es = pre @ [safe_line (JlResult (sc_call c) envelope)]
     | _ \<Rightarrow> True)"

lemma redact_envelope_simps [simp]:
  "en_step (redact_envelope e) = en_step e" "en_attempts (redact_envelope e) = en_attempts e"
  "en_status (redact_envelope e) = en_status e"
  by (simp_all add: redact_envelope_def)

lemma result_line_ok:
  "result_fits c es e \<Longrightarrow> own_line_ok c es (safe_line (JlResult (sc_call c) (redact_envelope e)))"
  by (auto simp: result_fits_def)

lemma result_fits_quiet [simp]:
  "list_all quiet_event evs \<Longrightarrow> result_fits c (es @ evs) e \<longleftrightarrow> result_fits c es e"
  by (simp add: result_fits_def)

lemma under_way_conclude:
  assumes fits: "orderly c es" "\<not> has_result es" "result_fits c es envelope" "sound \<longrightarrow> \<not> any_refused es"
    and k: "\<And>r es s. step_post sound c r es \<Longrightarrow> under_way Q (k r) es s"
  shows "under_way Q (conclude (sc_call c) (sc_line c) envelope replayed cost k) es s"
  unfolding conclude_def Let_def
proof (rule under_way_write_line, goal_cases)
  case (1 s1)
  show ?case
    unfolding not_True_eq_False if_False
  proof (rule under_way_locked, unfold prod.case append_Nil2, rule under_way_locked, unfold prod.case, rule k)
    show "step_post sound c (StepOk (redact_envelope envelope))
        ((es @ [EvLine (safe_line (JlResult (sc_call c) (redact_envelope envelope)))]) @
          [EvStepEnded (step_line_of (sc_call c) (sc_line c) (redact_envelope envelope) replayed)])"
      using fits result_line_ok [OF fits(3)] by (simp add: step_post_def)
  qed
next
  case (2 evs s1)
  with fits show ?case by (auto intro!: k simp: step_post_def)
qed

lemma under_way_settle_hold:
  assumes "\<And>evs (envelope' :: step_envelope) s. list_all quiet_event evs \<Longrightarrow> en_step envelope' = en_step envelope \<Longrightarrow>
      en_attempts envelope' = en_attempts envelope \<Longrightarrow> en_status envelope' = en_status envelope \<Longrightarrow>
      under_way Q (k envelope') (es @ evs) s"
  shows "under_way Q (settle_hold hold envelope k) es s"
proof (cases hold)
  case None
  with assms [of "[]" envelope] show ?thesis by (simp add: settle_hold_def)
next
  case (Some info)
  have "under_way Q (case settled of
      Inl error \<Rightarrow> log_line (lit ''worktree: '' @ error) (\<lambda>_. locked (\<lambda>i s. ([EvRelease info], (), s))
        (\<lambda>_. k (envelope\<lparr>en_worktree := Some info\<rparr>)))
    | Inr left \<Rightarrow> locked (\<lambda>i s. ([EvRelease info], (), s)) (\<lambda>_. k (envelope\<lparr>en_worktree := Some left\<rparr>))) es s1"
    for settled s1
  proof (cases settled)
    case (Inl error)
    show ?thesis unfolding Inl sum.case
    proof (rule under_way_log_line, rule under_way_locked, unfold prod.case append.assoc, goal_cases)
      case (1 evs s2 i s3)
      then show ?case by (intro assms) simp_all
    qed
  next
    case (Inr left)
    show ?thesis unfolding Inr sum.case
      by (rule under_way_locked, unfold prod.case, rule assms) simp_all
  qed
  then show ?thesis
    unfolding settle_hold_def Some option.case Let_def
    by (intro under_way_locked) simp
qed

lemma under_way_finish:
  assumes fits: "orderly c es" "\<not> has_result es" "result_fits c es envelope" "sound \<longrightarrow> \<not> any_refused es"
    and k: "\<And>r es s. step_post sound c r es \<Longrightarrow> under_way Q (k r) es s"
  shows "under_way Q (finish_step (sc_call c) (sc_line c) envelope cost hold k) es s"
  unfolding finish_step_def
proof (rule under_way_settle_hold)
  fix evs and envelope' :: step_envelope and s
  assume quiet: "list_all quiet_event evs" and same: "en_step envelope' = en_step envelope"
    "en_attempts envelope' = en_attempts envelope" "en_status envelope' = en_status envelope"
  then have fits': "orderly c (es @ evs)" "\<not> has_result (es @ evs)" "result_fits c (es @ evs) envelope'"
    "sound \<longrightarrow> \<not> any_refused (es @ evs)"
    using fits by (auto simp: result_fits_def)
  have "under_way Q (case r of StepOk _ \<Rightarrow> k (StepTerminated (lit ''cancelled'')) | error \<Rightarrow> k error) es s"
    if "step_post sound c r es" for r es s
    using that by (cases r) (auto intro!: k simp: step_post_def)
  then show "under_way Q (if en_status envelope' = SsCancelled then
        conclude (sc_call c) (sc_line c) envelope' False cost (\<lambda>result.
          case result of StepOk _ \<Rightarrow> k (StepTerminated (lit ''cancelled'')) | error \<Rightarrow> k error)
      else conclude (sc_call c) (sc_line c) envelope' False cost k) (es @ evs) s"
    by (auto intro!: under_way_conclude [OF fits'] k)
qed

lemma under_way_refuse:
  assumes "books c m progress es" "\<not> sound"
    and k: "\<And>r es s. step_post sound c r es \<Longrightarrow> under_way Q (k r) es s"
  shows "under_way Q (refuse_step c progress work error k) es s"
  unfolding refuse_step_def
proof (rule under_way_locked, unfold prod.case Let_def, rule under_way_finish [OF _ _ _ _ k])
qed (use assms in \<open>auto simp: books_def result_fits_def\<close>)

section \<open>One attempt\<close>

lemma books_capped [simp]:
  "books c m (progress\<lparr>sp_cost := (sp_cost progress)\<lparr>ct_capped := n\<rparr>\<rparr>) es \<longleftrightarrow> books c m progress es"
  "books c m (progress\<lparr>sp_cost := (sp_cost progress)\<lparr>ct_fell_back := n\<rparr>\<rparr>) es \<longleftrightarrow> books c m progress es"
  by (simp_all add: books_def)

lemma books_quiet [simp]: "list_all quiet_event evs \<Longrightarrow> books c m progress (es @ evs) \<longleftrightarrow> books c m progress es"
  by (simp add: books_def)

lemma subseq_take_mono: "subseq xs (take m ys) \<Longrightarrow> m \<le> n \<Longrightarrow> subseq xs (take n ys)"
  by (metis min.absorb1 prefix_imp_subseq subseq_order.order_trans take_is_prefix take_take)

lemma books_mono: "books c m progress es \<Longrightarrow> m \<le> n \<Longrightarrow> books c n progress es"
  by (auto simp: books_def intro: subseq_take_mono)

lemma books_bound: "books c m progress es \<Longrightarrow> sp_repair progress = None \<Longrightarrow> ct_attempts (sp_cost progress) \<le> m"
  by (simp add: books_def)

text \<open>The bookkeeping of the links: a link is one of the chain, the repair's envelope fits.\<close>

definition progress_fits :: "step_call \<Rightarrow> step_progress \<Rightarrow> bool" where
  "progress_fits c progress \<longleftrightarrow>
     (case sp_link progress of None \<Rightarrow> sp_repair progress = None | Some link \<Rightarrow> link < length (role_chain c)) \<and>
     (case sp_repair progress of None \<Rightarrow> True | Some repair \<Rightarrow> repair_fits (sc_call c) repair)"

text \<open>The worker a repair would go to, and the request it ran.\<close>

definition work_fits :: "step_call \<Rightarrow> step_work \<Rightarrow> attempt \<Rightarrow> event list \<Rightarrow> bool" where
  "work_fits c work attempt es \<longleftrightarrow>
     (case attempt of
       AtEnded worker _ \<Rightarrow> wo_worker work = Some worker \<and> runs_of es \<noteq> [] \<and>
         wo_request work = Some (last (runs_of es)) \<and> sq_call (last (runs_of es)) = sc_call c
     | _ \<Rightarrow> True)"

definition accept_inv ::
  "step_call \<Rightarrow> step_progress \<Rightarrow> step_work \<Rightarrow> attempt \<Rightarrow> event list \<Rightarrow> shared \<Rightarrow> bool" where
  "accept_inv c progress work attempt es s \<longleftrightarrow>
     (case attempt of
       AtJournalFailed _ \<Rightarrow> (\<exists>m. books c m progress es) \<and> sh_journal_error s \<noteq> None
     | _ \<Rightarrow> books c (next_link progress) progress es \<and> progress_fits c progress \<and>
         attempt_fits progress attempt \<and> work_fits c work attempt es)"

lemma accept_inv_failed:
  "books c m progress es \<Longrightarrow> sh_journal_error s \<noteq> None \<Longrightarrow> accept_inv c progress work (AtJournalFailed e) es s"
  by (auto simp: accept_inv_def)

lemma books_spend: "books c m progress es \<Longrightarrow> books c m progress (es @ [EvSpend w])"
  by (auto simp: books_def intro: le_SucI)

lemma books_line:
  "books c m progress es \<Longrightarrow> own_line_ok c es l \<Longrightarrow> dispatch_wire l = None \<Longrightarrow> \<not> is_result l \<Longrightarrow>
    \<not> is_replayed l \<Longrightarrow> books c m progress (es @ [EvLine l])"
  by (auto simp: books_def)

lemma under_way_spend:
  assumes books: "books c m progress es" and call: "sq_call request = sc_call c"
    and failed: "\<And>es' e s'. books c m progress es' \<Longrightarrow> any_refused es' = any_refused es \<Longrightarrow> advances s s' \<Longrightarrow>
      sh_journal_error s' \<noteq> None \<Longrightarrow> under_way Q (k (Some (AtJournalFailed e)) progress) es' s'"
    and capped: "\<And>es' used limit n s'. books c m progress es' \<Longrightarrow> any_refused es' = any_refused es \<Longrightarrow> advances s s' \<Longrightarrow>
      under_way Q (k (Some (AtCapped (rm_wire_model (sq_model request)) used limit))
        (progress\<lparr>sp_cost := (sp_cost progress)\<lparr>ct_capped := n\<rparr>\<rparr>)) es' s'"
    and spent: "\<And>s'. advances s s' \<Longrightarrow> under_way Q (k None progress)
      (es @ [EvSpend (rm_wire_model (sq_model request)), EvLine (safe_line (dispatch_line request opts attempt))]) s'"
  shows "under_way Q (spend env request opts attempt progress k) es s"
proof -
  let ?wire = "rm_wire_model (sq_model request)"
  let ?next = "\<lambda>result. case result of
      Inl (used, limit) \<Rightarrow> write_line (JlCapped (sq_call request) ?wire used limit) (\<lambda>written.
        if \<not> written then k (Some (AtJournalFailed (lit ''journal cap write failed''))) progress
        else k (Some (AtCapped ?wire used limit))
          (progress\<lparr>sp_cost := (sp_cost progress)\<lparr>ct_capped := incr (ct_capped (sp_cost progress))\<rparr>\<rparr>))
    | Inr _ \<Rightarrow> write_line (dispatch_line request opts attempt) (\<lambda>written.
        if \<not> written then k (Some (AtJournalFailed (lit ''journal dispatch write failed''))) progress
        else k None progress)"
  have refused_case: "under_way Q (?next (Inl (used, limit))) es s1" if "advances s s1" for used limit s1
    unfolding sum.case prod.case
  proof (rule under_way_write_line, goal_cases)
    case (1 s2)
    have "books c m progress (es @ [EvLine (safe_line (JlCapped (sq_call request) ?wire used limit))])"
      using books call by (intro books_line) (auto simp: books_def)
    with 1 that show ?case by (auto intro!: capped intro: advances_trans)
  next
    case (2 evs s2)
    with books that show ?case by (auto intro!: failed intro: advances_trans)
  qed
  have spent_case: "under_way Q (?next (Inr u)) (es @ [EvSpend ?wire]) s1" if "advances s s1" for u s1
    unfolding sum.case
  proof (rule under_way_write_line, goal_cases)
    case (1 s2)
    with that spent [of s2] show ?case by (auto intro: advances_trans)
  next
    case (2 evs s2)
    have "books c m progress ((es @ [EvSpend ?wire]) @ evs)"
      using books_quiet [OF 2(1)] books_spend [OF books] by blast
    with 2 that show ?case by (auto intro!: failed intro: advances_trans simp del: append_assoc)
  qed
  show ?thesis
    unfolding spend_def Let_def
  proof (rule under_way_locked)
    fix i s1
    assume later: "advances s s1"
    obtain result used where spend: "try_spend (rn_caps env) ?wire (sh_used s1) = (result, used)"
      by (cases "try_spend (rn_caps env) ?wire (sh_used s1)")
    have "advances s (s1\<lparr>sh_used := used\<rparr>)" using later by simp
    from refused_case [OF this] spent_case [OF this]
    show "case case try_spend (rn_caps env) ?wire (sh_used s1) of (result, used) \<Rightarrow>
          (case result of Inl _ \<Rightarrow> [] | Inr _ \<Rightarrow> [EvSpend ?wire], result, s1\<lparr>sh_used := used\<rparr>) of
        (evs, result, s2) \<Rightarrow> under_way Q (?next result) (es @ evs) s2"
      unfolding spend prod.case by (cases result) auto
  qed
qed

lemma under_way_cancellable:
  assumes "\<And>s'. advances s s' \<Longrightarrow> under_way Q (k None) es s'"
    and "\<And>s'. advances s s' \<Longrightarrow> under_way Q (k None) (es @ [start]) s'"
    and "\<And>i s'. advances s s' \<Longrightarrow> under_way Q (k (Some (outcome i))) (es @ [start]) s'"
  shows "under_way Q (cancellable start outcome k) es s"
  unfolding cancellable_def
proof (rule holds_Act)
  fix i s1 evs s2 p
  assume later: "advances s s1"
    and act: "(if sh_cancelled s1 then ([], s1, k None)
      else ([start], s1, Act (\<lambda>i s. ([], s, k (if sh_cancelled s then None else Some (outcome i)))))) = (evs, s2, p)"
  show "under_way Q p (es @ evs) s2"
  proof (cases "sh_cancelled s1")
    case True
    with act later assms(1) show ?thesis by simp
  next
    case False
    have "under_way Q (Act (\<lambda>i s. ([], s, k (if sh_cancelled s then None else Some (outcome i))))) (es @ [start]) s1"
      by (rule holds_Act) (auto intro!: assms(2,3) intro: advances_trans [OF later])
    with False act show ?thesis by auto
  qed
qed

lemma own_ok_dispatch:
  "sq_call request = sc_call c \<Longrightarrow> books c m progress es \<Longrightarrow>
    own_ok c (es @ [EvSpend (rm_wire_model (sq_model request))]) (EvLine (safe_line (dispatch_line request opts n)))"
  by (auto simp: books_def dispatch_line_def intro: le_imp_less_Suc)

text \<open>After the \<open>dispatch\<close> line the call to the runner is in order.\<close>

lemma subseq_snoc_nth:
  "subseq xs (take n ys) \<Longrightarrow> n < length ys \<Longrightarrow> subseq (xs @ [ys ! n]) (take (Suc n) ys)"
  by (simp add: take_Suc_conv_app_nth)

lemma subseq_take_whole: "subseq xs (take n ys) \<Longrightarrow> subseq xs ys"
  by (metis subseq_order.order_trans prefix_imp_subseq take_is_prefix)

lemma spent_attempt_simps [simp]:
  "sp_link (spent_attempt p) = sp_link p" "sp_repair (spent_attempt p) = sp_repair p"
  "ct_attempts (sp_cost (spent_attempt p)) = incr (ct_attempts (sp_cost p))"
  "sp_moved_on (spent_attempt p) = sp_moved_on p" "sp_walked (spent_attempt p) = sp_walked p"
  "sp_ordinal (spent_attempt p) = sp_ordinal p"
  by (simp_all add: spent_attempt_def)

lemma incr_small: "n < 2 ^ 32 - 1 \<Longrightarrow> incr n = Suc n" "n < 4294967295 \<Longrightarrow> wrapping_add32 n (Suc 0) = Suc n"
  by (simp_all add: wrapping_add32_def)

text \<open>The events of an attempt at a new link, and of the repair turn, keep the books.\<close>

definition charged :: "step_request \<Rightarrow> json \<Rightarrow> nat \<Rightarrow> event list" where
  "charged request opts n =
     [EvSpend (rm_wire_model (sq_model request)), EvLine (safe_line (dispatch_line request opts n))]"

lemma charged_traces [simp]:
  "runs_of (charged request opts n) = []" "repairs_of (charged request opts n) = []" "takes_of (charged request opts n) = []"
  "spends_of (charged request opts n) = [rm_wire_model (sq_model request)]"
  "dispatches_of (charged request opts n) = [rm_wire_model (sq_model request)]"
  "\<not> has_result (charged request opts n)" "\<not> has_replayed (charged request opts n)"
  "\<not> any_refused (charged request opts n)" "charged request opts n \<noteq> []"
  "last (charged request opts n) = EvLine (safe_line (dispatch_line request opts n))"
  by (auto simp: charged_def dispatch_line_def)

lemma books_charged:
  assumes "books c m progress es" "sq_call request = sc_call c" "ct_attempts (sp_cost progress) < 2 ^ 32 - 1"
    and "length (dispatches_of es) < n + of_bool (sp_repair progress \<noteq> None)" "m \<le> n"
  shows "books c n (spent_attempt progress) (es @ charged request opts k)"
proof -
  have "orderly c (es @ charged request opts k)"
    using own_ok_dispatch [OF assms(2,1)] assms(1) by (auto simp: charged_def books_def)
  with assms show ?thesis
    by (auto simp: books_def incr_small intro: subseq_take_mono)
qed

lemma books_run:
  assumes "books c link progress es" "sp_repair progress = None" "sq_call request = sc_call c"
    and "link < length (role_chain c)" "sq_model request = role_chain c ! link"
    and "length (role_chain c) < 2 ^ 32 - 1"
  shows "books c (Suc link) (spent_attempt progress) ((es @ charged request (op_json (sc_opts c)) 1) @ [EvRun request])"
    and "books c (Suc link) (spent_attempt progress) (es @ charged request (op_json (sc_opts c)) 1)"
proof -
  have small: "ct_attempts (sp_cost progress) < 2 ^ 32 - 1"
    using books_bound [OF assms(1,2)] assms(4,6) by simp
  have "length (dispatches_of es) \<le> link" using assms(1,2) by (simp add: books_def)
  then show after: "books c (Suc link) (spent_attempt progress) (es @ charged request (op_json (sc_opts c)) 1)"
    using assms small by (intro books_charged) auto
  have sub: "subseq (map sq_model (runs_of es) @ [sq_model request]) (take (Suc link) (role_chain c))"
    using assms(1,4,5) by (simp add: books_def subseq_snoc_nth)
  have "own_ok c (es @ charged request (op_json (sc_opts c)) 1) (EvRun request)"
    using assms(1,2) subseq_take_whole [OF sub] by (auto simp: books_def simp del: One_nat_def)
  with after sub assms(1) show "books c (Suc link) (spent_attempt progress)
      ((es @ charged request (op_json (sc_opts c)) 1) @ [EvRun request])"
    unfolding books_def orderly_snoc by (simp del: One_nat_def append_assoc)
qed

lemma under_way_run_link:
  assumes books: "books c link progress es" "sp_link progress = Some link" "sp_repair progress = None"
    and request: "sq_call request = sc_call c" "sq_model request = role_chain c ! link"
      "link < length (role_chain c)" "length (role_chain c) < 2 ^ 32 - 1"
    and work: "wo_request work = Some request"
    and k: "\<And>attempt progress' work' es' s'. accept_inv c progress' work' attempt es' s' \<Longrightarrow>
      any_refused es' = any_refused es \<Longrightarrow> advances s s' \<Longrightarrow> sp_link progress' = Some link \<Longrightarrow>
      under_way Q (k attempt progress' work') es' s'"
  shows "under_way Q (run_link request progress work k) (es @ charged request (op_json (sc_opts c)) 1) s"
proof -
  let ?es = "es @ charged request (op_json (sc_opts c)) 1"
  note run = books_run [OF books(1,3) request(1,3,2,4)]
  have fits: "progress_fits c (spent_attempt progress)" "next_link (spent_attempt progress) = Suc link"
    using books request by (simp_all add: progress_fits_def next_link_def)
  note inv = accept_inv_def work_fits_def run fits books
  show ?thesis
    unfolding run_link_def
  proof (rule under_way_cancellable, goal_cases)
    case (1 s1)
    then show ?case by (auto simp: inv intro!: k simp del: One_nat_def)
  next
    case (2 s1)
    then show ?case by (auto simp: inv intro!: k simp del: One_nat_def append_assoc)
  next
    case (3 i s1)
    have "under_way Q (locked (\<lambda>i s. ([EvStepStarted (visible_request request) (visible_worker (so_worker outcome))], (), s)) (\<lambda>_.
        k (AtEnded (so_worker outcome) (so_end outcome)) (spent_attempt progress)
          (work\<lparr>wo_worker := Some (so_worker outcome)\<rparr>))) (?es @ [EvRun request]) s1" for outcome
    proof (rule under_way_locked, unfold prod.case, rule k)
      fix s2
      let ?started = "[EvStepStarted (visible_request request) (visible_worker (so_worker outcome))]"
      have "books c (Suc link) (spent_attempt progress) ((?es @ [EvRun request]) @ ?started)"
        using run(1) books_quiet [of ?started] by (simp del: One_nat_def append_assoc)
      then show "accept_inv c (spent_attempt progress) (work\<lparr>wo_worker := Some (so_worker outcome)\<rparr>)
          (AtEnded (so_worker outcome) (so_end outcome)) ((?es @ [EvRun request]) @ ?started) s2"
        using work request by (simp add: inv del: One_nat_def append_assoc)
    qed (use 3 books in \<open>auto intro: advances_trans\<close>)
    moreover have "under_way Q (k (AtRunnerRefused reason) (spent_attempt progress) work) (?es @ [EvRun request]) s1" for reason
      using 3 by (auto simp: inv intro!: k simp del: One_nat_def append_assoc)
    ultimately show ?case by (auto simp: Let_def split: sum.splits)
  qed
qed

lemma under_way_start_link:
  assumes books: "books c link progress es" "sp_repair progress = None"
    and chain: "link < length (role_chain c)" "length (role_chain c) < 2 ^ 32 - 1" "model = role_chain c ! link"
    and k: "\<And>attempt progress' work' es' s'. accept_inv c progress' work' attempt es' s' \<Longrightarrow>
      any_refused es' = any_refused es \<Longrightarrow> advances s s' \<Longrightarrow>
      sp_link progress' = Some link \<or> (\<exists>e. attempt = AtJournalFailed e) \<Longrightarrow>
      under_way Q (k attempt progress' work') es' s'"
  shows "under_way Q (start_link env c tools link model progress work k) es s"
proof -
  let ?go = "\<lambda>failed progress. case failed of
      Some attempt \<Rightarrow> k attempt progress work
    | None \<Rightarrow>
        (let progress = progress\<lparr>sp_link := Some link, sp_moved_on := False\<rparr>;
             request = request_for env c tools model (wo_workspace work) work progress;
             work = work\<lparr>wo_request := Some request, wo_worker := None\<rparr> in
         spend env request (op_json (sc_opts c)) 1 progress (\<lambda>refused progress.
           case refused of
             Some attempt \<Rightarrow> k attempt progress work
           | None \<Rightarrow> run_link request progress work k))"
  have go: "under_way Q (?go None progress1) es1 s1"
    if books1: "books c link progress1 es1" "sp_repair progress1 = None" and same: "any_refused es1 = any_refused es" "advances s s1"
    for progress1 es1 s1
  proof -
    let ?progress = "progress1\<lparr>sp_link := Some link, sp_moved_on := False\<rparr>"
    let ?request = "request_for env c tools model (wo_workspace work) work ?progress"
    let ?work = "work\<lparr>wo_request := Some ?request, wo_worker := None\<rparr>"
    have books2: "books c link ?progress es1" using books1 by (simp add: books_def)
    have request: "sq_call ?request = sc_call c" "sq_model ?request = role_chain c ! link"
      using chain by (simp_all add: request_for_def)
    show ?thesis
      unfolding option.case Let_def
    proof (rule under_way_spend [OF books2 request(1)], goal_cases)
      case (1 es' e s')
      with same show ?case by (auto intro!: k accept_inv_failed intro: advances_trans)
    next
      case (2 es' used limit n s')
      have "books c (Suc link) (?progress\<lparr>sp_cost := (sp_cost ?progress)\<lparr>ct_capped := n\<rparr>\<rparr>) es'"
        unfolding books_capped using 2(1) by (rule books_mono) simp
      with 2 same books1 chain show ?case
        by (auto intro!: k intro: advances_trans simp: accept_inv_def work_fits_def progress_fits_def next_link_def)
    next
      case (3 s')
      have fits: "sp_link ?progress = Some link" "sp_repair ?progress = None" "wo_request ?work = Some ?request"
        using books1 by simp_all
      have "under_way Q (run_link ?request ?progress ?work k) (es1 @ charged ?request (op_json (sc_opts c)) 1) s'"
        using 3 same
        by (intro under_way_run_link [OF books2 fits(1,2) request chain(1,2) fits(3)] k) (auto intro: advances_trans)
      then show ?case by (simp add: charged_def)
    qed
  qed
  show ?thesis
    unfolding start_link_def journal_hop_def
  proof (cases "sp_walked progress = []")
    case True
    with go [OF books] show "under_way Q (if sp_walked progress = [] then ?go None progress else write_line
        (JlFallback (sc_call c) (mt_model (last (sp_walked progress))) (rm_reference model) (sp_last_error progress))
        (\<lambda>written. if \<not> written then ?go (Some (AtJournalFailed (lit ''journal fallback write failed''))) progress
          else ?go None (progress\<lparr>sp_cost := (sp_cost progress)\<lparr>ct_fell_back := incr (ct_fell_back (sp_cost progress))\<rparr>\<rparr>))) es s"
      by simp
  next
    case False
    have "under_way Q (write_line
        (JlFallback (sc_call c) (mt_model (last (sp_walked progress))) (rm_reference model) (sp_last_error progress))
        (\<lambda>written. if \<not> written then ?go (Some (AtJournalFailed (lit ''journal fallback write failed''))) progress
          else ?go None (progress\<lparr>sp_cost := (sp_cost progress)\<lparr>ct_fell_back := incr (ct_fell_back (sp_cost progress))\<rparr>\<rparr>))) es s"
    proof (rule under_way_write_line, goal_cases)
      case (1 s')
      have "books c link progress (es @ [EvLine (safe_line (JlFallback (sc_call c) (mt_model (last (sp_walked progress)))
          (rm_reference model) (sp_last_error progress)))])"
        using books by (intro books_line) (auto simp: books_def)
      with 1 books show ?case unfolding not_True_eq_False if_False by (intro go) auto
    next
      case (2 evs s')
      have "books c link progress (es @ evs)" using books 2(1) by simp
      with 2 show ?case by (auto intro!: k accept_inv_failed)
    qed
    with False show "under_way Q (if sp_walked progress = [] then ?go None progress else write_line
        (JlFallback (sc_call c) (mt_model (last (sp_walked progress))) (rm_reference model) (sp_last_error progress))
        (\<lambda>written. if \<not> written then ?go (Some (AtJournalFailed (lit ''journal fallback write failed''))) progress
          else ?go None (progress\<lparr>sp_cost := (sp_cost progress)\<lparr>ct_fell_back := incr (ct_fell_back (sp_cost progress))\<rparr>\<rparr>))) es s"
      by simp
  qed
qed

lemma under_way_prepare_phase:
  assumes "\<And>work' s'. advances s s' \<Longrightarrow> under_way Q (k work') es s'"
  shows "under_way Q (prepare_phase c work k) es s"
  unfolding prepare_phase_def using assms
  by (cases "op_phase (sc_opts c)") (auto intro!: under_way_locked)

lemma under_way_prepare_work:
  assumes ready: "\<And>work' evs s'. list_all quiet_event evs \<Longrightarrow> advances s s' \<Longrightarrow> under_way Q (k None work') (es @ evs) s'"
    and failed: "\<And>attempt work' evs s'. list_all quiet_event evs \<Longrightarrow> advances s s' \<Longrightarrow>
      attempt = AtWorktreeCancelled \<or> (\<exists>e. attempt = AtWorktreeRefused e) \<Longrightarrow>
      under_way Q (k (Some attempt) work') (es @ evs) s'"
  shows "under_way Q (prepare_work env c role tools progress work k) es s"
  unfolding prepare_work_def
proof (rule under_way_prepare_phase)
  fix work' s1
  assume later: "advances s s1"
  have plain: "under_way Q (k None w) es s1" for w
    using ready [of "[]" s1 w] later by simp
  have hold: "under_way Q (cancellable (EvWorktree request) in_worktree (\<lambda>hold. case hold of
        None \<Rightarrow> k (Some AtWorktreeCancelled) work'
      | Some (Inl error) \<Rightarrow> k (Some (AtWorktreeRefused error)) work'
      | Some (Inr hold) \<Rightarrow> k None (place_work env c (work'\<lparr>wo_hold := Some hold\<rparr>)))) es s1" for request
  proof (rule under_way_cancellable, goal_cases)
    case (1 s2)
    with later failed [of "[]" s2 AtWorktreeCancelled work'] show ?case by (auto intro: advances_trans)
  next
    case (2 s2)
    with later show ?case by (auto intro!: failed intro: advances_trans)
  next
    case (3 i s2)
    with later show ?case
      by (auto intro!: failed ready intro: advances_trans split: sum.splits)
  qed
  show "under_way Q (case (op_worktree (sc_opts c), rv_chain role) of
      (Some _, head # _) \<Rightarrow> cancellable (EvWorktree (request_for env c tools head (rn_workspace env) work' progress))
        in_worktree (\<lambda>hold. case hold of
            None \<Rightarrow> k (Some AtWorktreeCancelled) work'
          | Some (Inl error) \<Rightarrow> k (Some (AtWorktreeRefused error)) work'
          | Some (Inr hold) \<Rightarrow> k None (place_work env c (work'\<lparr>wo_hold := Some hold\<rparr>)))
    | _ \<Rightarrow> k None (place_work env c work')) es s1"
    using plain hold by (auto split: option.split list.split)
qed

lemma under_way_dispatch:
  assumes books: "books c link progress es" "sp_repair progress = None" "progress_fits c progress"
    and chain: "link < length (role_chain c)" "length (role_chain c) < 2 ^ 32 - 1" "model = role_chain c ! link"
    and link: "link = next_link progress"
    and k: "\<And>attempt progress' work' es' s'. accept_inv c progress' work' attempt es' s' \<Longrightarrow>
      any_refused es' = any_refused es \<Longrightarrow> advances s s' \<Longrightarrow>
      sp_link progress' = Some link \<or> sp_link progress' = None \<or> (\<exists>e. attempt = AtJournalFailed e) \<Longrightarrow>
      under_way Q (k attempt progress' work') es' s'"
  shows "under_way Q (dispatch env c role tools link model progress work k) es s"
proof (cases "sp_link progress = None")
  case False
  have "under_way Q (start_link env c tools link model progress work k) es s"
    by (rule under_way_start_link [OF books(1,2) chain]) (use k in blast)
  with False show ?thesis by (auto simp: dispatch_def)
next
  case True
  then have zero: "link = 0" using link by (simp add: next_link_def)
  have "under_way Q (prepare_work env c role tools progress work (\<lambda>failed work.
      case failed of
        Some attempt \<Rightarrow> k attempt progress work
      | None \<Rightarrow> start_link env c tools link model progress work k)) es s"
  proof (rule under_way_prepare_work, goal_cases)
    case (1 work' evs s')
    then have "books c link progress (es @ evs)" using books by simp
    then show ?case
      unfolding option.case
      by (rule under_way_start_link [OF _ books(2) chain]) (use 1 in \<open>auto intro!: k intro: advances_trans\<close>)
  next
    case (2 attempt work' evs s')
    then have "accept_inv c progress work' attempt (es @ evs) s'"
      using books True zero by (auto simp: accept_inv_def work_fits_def next_link_def)
    with 2 True show ?case by (auto intro!: k)
  qed
  with True show ?thesis by (simp add: dispatch_def)
qed

section \<open>The repair turn\<close>

lemma books_repair:
  assumes "books c m progress es" "sp_repair progress = None" "runs_of es \<noteq> []"
  shows "books c m (progress\<lparr>sp_repair := Some repair\<rparr>) es"
  using assms by (simp add: books_def)

lemma books_second_turn:
  assumes books: "books c m progress es" and repair: "sp_repair progress = Some r" "repairs_of es = []"
    and spent: "length (dispatches_of es) \<le> m"
    and request: "request = last (runs_of es)" "sq_call request = sc_call c" "m < 2 ^ 32 - 1"
  shows "books c m (spent_attempt progress) (es @ charged request (op_json (sc_opts c)) 2)"
    and "books c m (spent_attempt progress)
      ((es @ charged request (op_json (sc_opts c)) 2) @ [EvRepair worker message])"
proof -
  have "ct_attempts (sp_cost progress) < 2 ^ 32 - 1"
    using books spent request by (simp add: books_def)
  then show after: "books c m (spent_attempt progress) (es @ charged request (op_json (sc_opts c)) 2)"
    using assms by (intro books_charged [OF books]) auto
  have "own_ok c (es @ charged request (op_json (sc_opts c)) 2) (EvRepair worker message)"
    using books repair request by (auto simp: books_def)
  with after repair show "books c m (spent_attempt progress)
      ((es @ charged request (op_json (sc_opts c)) 2) @ [EvRepair worker message])"
    unfolding books_def orderly_snoc by (simp del: append_assoc)
qed

lemma under_way_repair:
  assumes books: "books c m progress es" and m: "m = next_link progress" "m < 2 ^ 32 - 1"
    and fits: "progress_fits c progress" "sp_repair progress = Some r"
      "en_attempts (rt_rejected r) = ct_attempts (sp_cost progress)" "sp_link progress \<noteq> None"
    and spent: "repairs_of es = []" "length (dispatches_of es) \<le> m"
    and request: "request = last (runs_of es)" "sq_call request = sc_call c"
    and k: "\<And>attempt progress' es' s'. accept_inv c progress' work attempt es' s' \<Longrightarrow>
      any_refused es' = any_refused es \<Longrightarrow> advances s s' \<Longrightarrow> sp_link progress' = sp_link progress \<Longrightarrow>
      sp_repair progress' \<noteq> None \<Longrightarrow> under_way Q (k attempt progress') es' s'"
  shows "under_way Q (repair_link env c request worker message progress k) es s"
  unfolding repair_link_def
proof (rule under_way_spend [OF books request(2)], goal_cases)
  case (1 es' e s')
  with fits show ?case by (auto intro!: k accept_inv_failed)
next
  case (2 es' used limit n s')
  have "books c m (progress\<lparr>sp_cost := (sp_cost progress)\<lparr>ct_capped := n\<rparr>\<rparr>) es'"
    using 2(1) by simp
  with 2 fits m show ?case
    by (auto intro!: k simp: accept_inv_def work_fits_def progress_fits_def next_link_def)
next
  case (3 s1)
  note turn = books_second_turn [OF books fits(2) spent request m(2)]
  have same: "next_link (spent_attempt progress) = m" "progress_fits c (spent_attempt progress)"
    using m fits by (auto simp: next_link_def progress_fits_def)
  note inv = accept_inv_def work_fits_def same fits
  have "under_way Q (cancellable (EvRepair worker message) in_repair (\<lambda>ended.
      let progress = spent_attempt progress in
      case ended of
        None \<Rightarrow> k AtCancelled progress
      | Some (Inl reason) \<Rightarrow> k (AtRunnerRefused reason) progress
      | Some (Inr ended) \<Rightarrow> k (AtRepairEnded ended) progress)) (es @ charged request (op_json (sc_opts c)) 2) s1"
  proof (rule under_way_cancellable, goal_cases)
    case (1 s2)
    with 3 turn(1) show ?case by (auto simp: inv intro!: k intro: advances_trans)
  next
    case (2 s2)
    with 3 turn(2) show ?case by (auto simp: inv intro!: k intro: advances_trans simp del: append_assoc)
  next
    case (3 i s2)
    with \<open>advances s s1\<close> turn(2) show ?case
      by (auto simp: inv Let_def intro!: k intro: advances_trans split: sum.splits simp del: append_assoc)
  qed
  then show ?case by (simp add: charged_def)
qed

section \<open>What an examined answer is\<close>

lemma examine_Inr:
  assumes "examine ds salt s plan ask = Inr a"
  shows "check_action s (pq_call plan) ask a = Inr ()"
    and "host_owned a \<Longrightarrow> \<exists>t. decide native_decisions () s plan ask = Inr t \<and> tr_action t = a"
  using assms
  by (auto simp: examine_def try_then_Inr map_err_Inr check_transition_def check_owned_def split: if_splits)

text \<open>The native decisions ask for a repair only after a first turn, with a failed envelope that
  names the worker.\<close>

lemma accept_settled_no_repair: "accept_settled st m e \<noteq> Inr (new_transition (AcRepair message rejected))"
  by (simp add: accept_settled_def accept_cancelled_def accept_end_def)

lemma native_repair:
  assumes "decide native_decisions e s plan (AskAccept attempt) = Inr t" "tr_action t = AcRepair message rejected"
  shows "\<exists>worker ended. attempt = AtEnded worker ended \<and> en_status rejected = SsFailed \<and>
    en_worker rejected = Some (worker_text worker)"
proof -
  let ?out = "\<lparr>ao_version = contract_version, ao_call = pq_call plan, ao_label = pq_label plan, ao_attempt = attempt\<rparr>"
  have accept: "accept_step s ?out = Inr t"
    using assms(1) by (simp add: decide_def native_decisions_def)
  then obtain link where link: "sp_link (sn_step s) = Some link"
    using assms(2)
    by (cases attempt; cases "sp_link (sn_step s)")
      (auto simp: accept_step_def accept_unlinked_def try_then_Inr new_transition_def)
  with accept obtain model is_last where "accept_linked ?out (sn_step s) link model is_last = Inr t"
    by (auto simp: accept_step_def try_then_Inr Let_def)
  then show ?thesis
    using assms(2)
    by (cases attempt)
      (auto simp: accept_linked_def Let_def accept_capped_def accept_end_def accept_cancelled_def
        accept_repaired_def accept_settled_def accept_ended_def new_transition_def try_then_Inr
        split: option.splits if_splits step_end.splits schema_check.splits)
qed

lemma check_end_Inr:
  assumes "check_end s call ask e = Inr ()"
  shows "en_step e = call" "en_attempts e = ct_attempts (sp_cost (sn_step s))"
    and "en_status e = SsDone \<Longrightarrow> (\<exists>worker ended. ask = AskAccept (AtEnded worker ended)) \<or>
      (\<exists>ended repair. ask = AskAccept (AtRepairEnded ended) \<and> sp_repair (sn_step s) = Some repair)"
proof -
  show "en_step e = call" "en_attempts e = ct_attempts (sp_cost (sn_step s))"
    using assms by (auto simp: check_end_def check_envelope_def try_then_Inr Let_def split: if_splits)
  assume "en_status e = SsDone"
  with assms have "\<exists>d. done_turn s ask = Inr d"
    by (auto simp: check_end_def check_done_def try_then_Inr)
  then show "(\<exists>worker ended. ask = AskAccept (AtEnded worker ended)) \<or>
      (\<exists>ended repair. ask = AskAccept (AtRepairEnded ended) \<and> sp_repair (sn_step s) = Some repair)"
    by (auto simp: done_turn_def try_then_Inr ok_or_Inr split: ask.splits attempt.splits step_end.splits)
qed

lemma check_cancelled_Inr:
  assumes "check_cancelled s call e = Inr ()"
  shows "en_step e = call" "en_attempts e = ct_attempts (sp_cost (sn_step s))" "en_status e = SsCancelled"
  using assms by (auto simp: check_cancelled_def check_envelope_def Let_def split: if_splits)

section \<open>The replay prefix under interference\<close>

definition replay_ok :: "replay \<Rightarrow> bool" where
  "replay_ok r \<longleftrightarrow> length (ry_taken r) = length (ry_entries r) \<and>
     (\<forall>(id, envelope) \<in> set (ry_entries r). en_step envelope = id) \<and>
     (ry_from r = None \<longrightarrow> ry_latched_off r)"

lemma replay_ok_advances: "replay_ok r \<Longrightarrow> replay_advances r r' \<Longrightarrow> replay_ok r'"
  by (auto simp: replay_ok_def replay_advances_def)

text \<open>How often a replay can be asked for again.\<close>

definition open_entries :: "replay \<Rightarrow> nat" where
  "open_entries r = (if ry_latched_off r then 0 else Suc (length (filter Not (ry_taken r))))"

lemma filter_Not_mono:
  "length bs = length as \<Longrightarrow> \<forall>i < length as. as ! i \<longrightarrow> bs ! i \<Longrightarrow>
    length (filter Not bs) \<le> length (filter Not as)"
  by (induction bs as rule: list_induct2) (auto simp: All_less_Suc2 le_SucI)

lemma filter_Not_strict:
  "length bs = length as \<Longrightarrow> \<forall>i < length as. as ! i \<longrightarrow> bs ! i \<Longrightarrow> j < length as \<Longrightarrow> \<not> as ! j \<Longrightarrow> bs ! j \<Longrightarrow>
    length (filter Not bs) < length (filter Not as)"
proof (induction bs as arbitrary: j rule: list_induct2)
  case (Cons b bs a as)
  have mono: "length (filter Not bs) \<le> length (filter Not as)"
    using Cons.hyps Cons.prems(1) by (intro filter_Not_mono) (auto simp: All_less_Suc2)
  show ?case
  proof (cases j)
    case 0
    with Cons.prems mono show ?thesis by simp
  next
    case (Suc k)
    with Cons.IH [of k] Cons.prems show ?thesis by (auto simp: All_less_Suc2)
  qed
qed simp

lemma open_entries_mono: "replay_advances r r' \<Longrightarrow> open_entries r' \<le> open_entries r"
  by (auto simp: open_entries_def replay_advances_def intro: filter_Not_mono)

text \<open>When the entry the view showed is gone, fewer are open.\<close>

lemma replay_missed:
  assumes ok: "replay_ok r" and "replay_advances r r'"
    and shown: "check_replay (snapshot_of env c (view r) progress) call entry = Inr ()"
    and missed: "take_entry entry call r' = (None, r'')"
  shows "open_entries r'' < open_entries r" "r'' = r'" "sp_link progress = None"
proof -
  have held: "sp_link progress = None" "\<not> ry_latched_off r" "entry < length (ry_entries r)" "\<not> ry_taken r ! entry"
    "fst (ry_entries r ! entry) = call"
    using shown by (auto simp: check_replay_def snapshot_of_def view_def list_ex_iff List.map_filter_def
        split: if_splits)
  show same: "r'' = r'" using missed by (auto simp: take_entry_def Let_def split: option.splits if_splits prod.splits)
  have "ry_latched_off r' \<or> ry_taken r' ! entry"
    using missed held assms(2) ok
    by (auto simp: take_entry_def replay_advances_def replay_ok_def Let_def split: option.splits if_splits prod.splits)
  then show "open_entries r'' < open_entries r"
    unfolding same using held assms(2) ok
    by (auto simp: open_entries_def replay_advances_def replay_ok_def intro!: filter_Not_strict)
  show "sp_link progress = None" by fact
qed

lemma take_entry_Some:
  assumes "take_entry entry call r = (Some (envelope, from), r')" "replay_ok r"
  shows "en_step envelope = call"
  using assms by (auto simp: take_entry_def replay_ok_def Let_def split: option.splits if_splits prod.splits)
    (metis (mono_tags, lifting) case_prodD not_le nth_mem)

end
