(* ===== verification/WorkflowLoop.thy ===== *)
theory WorkflowLoop
  imports WorkflowStep
begin

text \<open>
  The loop of a workflow step: its invariant, the bound on its rounds, and the theorem that it
  returns under arbitrary interference with its events in order, whatever the decisions answer.
\<close>

section \<open>The loop\<close>

definition loop_inv ::
  "step_call \<Rightarrow> step_progress \<Rightarrow> step_work \<Rightarrow> ask \<Rightarrow> event list \<Rightarrow> shared \<Rightarrow> bool" where
  "loop_inv c progress work ask es s \<longleftrightarrow> replay_ok (sh_replay s) \<and>
     (case ask of
       AskPlan \<Rightarrow> books c (next_link progress) progress es \<and> sp_repair progress = None \<and>
         progress_fits c progress \<and> ask_fits progress AskPlan
     | AskAccept attempt \<Rightarrow> accept_inv c progress work attempt es s)"

text \<open>How many rounds the loop can still take, replays that miss aside.\<close>

definition rounds :: "step_call \<Rightarrow> step_progress \<Rightarrow> ask \<Rightarrow> nat" where
  "rounds c progress ask =
     (let left = 3 * (length (role_chain c) - next_link progress) in
      case ask of
        AskPlan \<Rightarrow> left + 2
      | AskAccept (AtJournalFailed _) \<Rightarrow> 1
      | AskAccept _ \<Rightarrow> if sp_link progress = None \<or> sp_repair progress \<noteq> None then 1 else left + 3)"

definition call_ok :: "step_call \<Rightarrow> bool" where
  "call_ok c \<longleftrightarrow> pq_call (sc_plan c) = sc_call c \<and> pq_version (sc_plan c) = contract_version \<and>
     length (role_chain c) < 2 ^ 32 - 1"

text \<open>With decisions that keep their contract, no answer is refused.\<close>

definition never_refused :: "'e decisions \<Rightarrow> 'e run_env \<Rightarrow> step_call \<Rightarrow> bool" where
  "never_refused ds env c \<longleftrightarrow> (\<forall>salt replay progress ask.
     step_fits (snapshot_of env c replay progress) (sc_call c) \<longrightarrow> ask_fits progress ask \<longrightarrow>
     (\<exists>a. examine ds salt (snapshot_of env c replay progress) (sc_plan c) ask = Inr a))"

lemma loop_step_fits:
  assumes "call_ok c" "books c m progress es" "m = next_link progress" "progress_fits c progress"
  shows "step_fits (snapshot_of env c replay progress) (sc_call c)"
proof -
  have "ct_attempts (sp_cost progress) = 0" if "sp_link progress = None"
    using assms that by (auto simp: books_def next_link_def progress_fits_def)
  with assms show ?thesis
    by (auto simp: step_fits_def snapshot_of_def progress_fits_def call_ok_def role_chain_def split: option.splits)
qed

text \<open>The invariant gives the decisions a state of the contract.\<close>

lemma loop_inv_fits:
  assumes "call_ok c" "loop_inv c progress work ask es s" "sh_journal_error s = None"
  shows "books c (next_link progress) progress es" "progress_fits c progress" "ask_fits progress ask"
    "step_fits (snapshot_of env c replay progress) (sc_call c)"
proof -
  have *: "books c (next_link progress) progress es \<and> progress_fits c progress \<and> ask_fits progress ask"
    using assms(2,3) by (auto simp: loop_inv_def accept_inv_def split: ask.splits attempt.splits)
  then show "books c (next_link progress) progress es" "progress_fits c progress" "ask_fits progress ask"
    by simp_all
  with assms(1) show "step_fits (snapshot_of env c replay progress) (sc_call c)"
    by (intro loop_step_fits) auto
qed

lemma loop_inv_later:
  assumes "loop_inv c progress work ask es s" "advances s s'"
  shows "loop_inv c progress work ask es s'"
  using assms
  by (auto simp: loop_inv_def accept_inv_def advances_def intro: replay_ok_advances split: ask.splits attempt.splits)

lemma under_way_latch_if:
  assumes "\<And>s'. advances s s' \<Longrightarrow> under_way Q (k ()) es s'"
  shows "under_way Q (latch_if latch k) es s"
proof (cases latch)
  case True
  then show ?thesis
    unfolding latch_if_def
    by (auto intro!: under_way_locked assms advances_replay)
qed (use assms [of s] in \<open>simp add: latch_if_def\<close>)

lemma rounds_pos: "0 < rounds c progress ask"
  by (auto simp: rounds_def Let_def split: ask.split attempt.split)

section \<open>One round\<close>

lemma apply_replay:
  assumes inv: "books c 0 progress es" "sp_repair progress = None" "sound \<longrightarrow> \<not> any_refused es"
    and replay: "replay_ok (sh_replay s)"
      "check_replay (snapshot_of env c (view (sh_replay s)) progress) (sc_call c) entry = Inr ()"
    and again: "\<And>s'. replay_ok (sh_replay s') \<Longrightarrow> open_entries (sh_replay s') < open_entries (sh_replay s) \<Longrightarrow>
      under_way Q (again progress work AskPlan) es s'"
    and k: "\<And>r es s. step_post sound c r es \<Longrightarrow> under_way Q (k r) es s"
  shows "under_way Q (apply_action env c progress work AskPlan (AcReplay entry) again k) es s"
  unfolding apply_action_def action.case
proof (rule under_way_locked)
  fix i s1
  assume later: "advances s s1"
  let ?take = "take_entry entry (sc_call c) (sh_replay s1)"
  let ?next = "\<lambda>taken. case taken of
      None \<Rightarrow> again progress work AskPlan
    | Some (envelope, from) \<Rightarrow> write_line (JlReplayed (sc_call c) from) (\<lambda>written.
        if \<not> written then k (StepScriptError (lit ''journal replay write failed''))
        else conclude (sc_call c) (sc_line c) envelope True no_cost k)"
  obtain taken r where taken: "?take = (taken, r)" by (cases ?take)
  have ok: "replay_ok (sh_replay s1)" "replay_advances (sh_replay s) (sh_replay s1)"
    using replay(1) later by (auto simp: advances_def intro: replay_ok_advances)
  let ?evs = "case taken of None \<Rightarrow> [] | Some _ \<Rightarrow> [EvTaken entry]"
  have "under_way Q (?next taken) (es @ ?evs) (s1\<lparr>sh_replay := r\<rparr>)"
  proof (cases taken)
    case None
    with taken have missed: "?take = (None, r)" by simp
    from replay_missed [OF replay(1) ok(2) replay(2) missed] ok
    show ?thesis unfolding None option.case append_Nil2 by (intro again) auto
  next
    case (Some p)
    obtain envelope "from" where p: "p = (envelope, from)" by (cases p)
    have step: "en_step envelope = sc_call c"
      using taken Some p take_entry_Some [OF _ ok(1)] by blast
    have none: "dispatches_of es = []" using inv by (simp add: books_def)
    show ?thesis unfolding Some p option.case prod.case
    proof (rule under_way_write_line, goal_cases)
      case (1 s2)
      show ?case unfolding not_True_eq_False if_False
        by (rule under_way_conclude [OF _ _ _ _ k])
          (use inv none step in \<open>auto simp: books_def result_fits_def simp flip: append_assoc simp del: append_assoc\<close>)
    next
      case (2 evs s2)
      with inv show ?case
        by (auto intro!: k simp: step_post_def books_def simp flip: append_assoc simp del: append_assoc)
    qed
  qed
  then show "case case ?take of (taken, replay) \<Rightarrow>
        (case taken of None \<Rightarrow> [] | Some _ \<Rightarrow> [EvTaken entry], taken, s1\<lparr>sh_replay := replay\<rparr>) of
      (evs, taken, s2) \<Rightarrow> under_way Q (?next taken) (es @ evs) s2"
    by (simp add: taken)
qed

lemma loop_inv_accept:
  "accept_inv c progress work attempt es s \<Longrightarrow> replay_ok (sh_replay s) \<Longrightarrow>
    loop_inv c progress work (AskAccept attempt) es s"
  by (simp add: loop_inv_def)

lemma check_dispatch_Inr:
  assumes "check_dispatch (snapshot_of env c replay progress) link model = Inr ()"
  obtains role resolved where "sc_role c = Some role" "chain_link (rv_chain role) link = Some resolved"
    "link = next_link progress" "link < length (role_chain c)" "resolved = role_chain c ! link"
  using assms
  by (auto simp: check_dispatch_def snapshot_of_def chain_link_def next_link_def role_chain_def checked_add32_def
      Let_def split: option.splits if_splits)

lemma open_entries_advances: "advances s s' \<Longrightarrow> open_entries (sh_replay s') \<le> open_entries (sh_replay s)"
  by (auto simp: advances_def intro: open_entries_mono)

lemma apply_dispatch:
  assumes inv: "books c (next_link progress) progress es" "sp_repair progress = None" "progress_fits c progress"
    and call: "call_ok c" and replay: "replay_ok (sh_replay s)"
    and checked: "check_dispatch (snapshot_of env c (view (sh_replay s)) progress) link model = Inr ()"
    and again: "\<And>attempt progress' work' es' s'. loop_inv c progress' work' (AskAccept attempt) es' s' \<Longrightarrow>
      any_refused es' = any_refused es \<Longrightarrow>
      rounds c progress' (AskAccept attempt) + open_entries (sh_replay s') < rounds c progress AskPlan + open_entries (sh_replay s) \<Longrightarrow>
      under_way Q (again progress' work' (AskAccept attempt)) es' s'"
  shows "under_way Q (apply_action env c progress work AskPlan (AcDispatch link model tools latch) again k) es s"
proof -
  from checked obtain role resolved where role: "sc_role c = Some role"
    "chain_link (rv_chain role) link = Some resolved" "link = next_link progress" "link < length (role_chain c)"
    "resolved = role_chain c ! link"
    by (rule check_dispatch_Inr)
  have "under_way Q (latch_if latch (\<lambda>_. dispatch env c role tools link resolved progress work (\<lambda>attempt progress work.
      again progress work (AskAccept attempt)))) es s"
  proof (rule under_way_latch_if, rule under_way_dispatch, goal_cases)
    case (8 s1 attempt progress' work' es' s2)
    from 8(1,4) have later: "advances s s2" by (rule advances_trans)
    then have "replay_ok (sh_replay s2)"
      using replay by (auto simp: advances_def intro: replay_ok_advances)
    moreover have "rounds c progress' (AskAccept attempt) < rounds c progress AskPlan"
      using 8(5) role by (auto simp: rounds_def next_link_def Let_def split: attempt.split)
    ultimately show ?case
      using 8 open_entries_advances [OF later] by (intro again loop_inv_accept) auto
  qed (use inv role call in \<open>auto simp: call_ok_def\<close>)
  then show ?thesis
    by (simp add: apply_action_def role(1,2))
qed

lemma apply_repair:
  assumes inv: "books c (next_link progress) progress es" "progress_fits c progress" "sp_repair progress = None"
      "sp_link progress \<noteq> None"
    and work: "work_fits c work (AtEnded worker ended) es"
    and call: "call_ok c" and replay: "replay_ok (sh_replay s)"
    and rejected: "en_step rejected = sc_call c" "en_attempts rejected = ct_attempts (sp_cost progress)"
      "en_status rejected = SsFailed" "en_worker rejected = Some (worker_text worker)"
    and again: "\<And>attempt progress' es' s'. loop_inv c progress' work (AskAccept attempt) es' s' \<Longrightarrow>
      any_refused es' = any_refused es \<Longrightarrow> rounds c progress' (AskAccept attempt) + open_entries (sh_replay s') <
        rounds c progress (AskAccept (AtEnded worker ended)) + open_entries (sh_replay s) \<Longrightarrow>
      under_way Q (again progress' work (AskAccept attempt)) es' s'"
  shows "under_way Q (apply_action env c progress work (AskAccept (AtEnded worker ended)) (AcRepair message rejected)
    again k) es s"
proof -
  let ?turn = "\<lparr>rt_worker = worker, rt_rejected = rejected\<rparr>"
  let ?progress = "progress\<lparr>sp_repair := Some ?turn\<rparr>"
  let ?request = "last (runs_of es)"
  have found: "wo_worker work = Some worker" "wo_request work = Some ?request" "runs_of es \<noteq> []"
    "sq_call ?request = sc_call c"
    using work by (simp_all add: work_fits_def)
  have small: "next_link progress < 2 ^ 32 - 1"
    using inv(2,4) call by (auto simp: next_link_def progress_fits_def call_ok_def)
  have same: "next_link ?progress = next_link progress" by (simp add: next_link_def)
  have fits: "progress_fits c ?progress"
    using inv rejected by (auto simp: progress_fits_def repair_fits_def)
  have "under_way Q (repair_link env c ?request worker message ?progress
      (\<lambda>attempt progress. again progress work (AskAccept attempt))) es s"
  proof (rule under_way_repair [where m = "next_link progress" and r = ?turn and work = work], goal_cases)
    case (12 attempt progress' es' s')
    then have "replay_ok (sh_replay s')"
      using replay by (auto simp: advances_def intro: replay_ok_advances)
    moreover have "rounds c progress' (AskAccept attempt) < rounds c progress (AskAccept (AtEnded worker ended))"
      using 12(5) inv(3,4) by (auto simp: rounds_def Let_def split: attempt.split)
    ultimately show ?case
      using 12 open_entries_advances [OF 12(3)] by (intro again loop_inv_accept) auto
  qed (use inv books_repair [OF inv(1,3) found(3)] rejected small same fits found in
      \<open>auto simp: books_def\<close>)
  then show ?thesis
    by (simp add: apply_action_def found)
qed

lemma apply_ended:
  assumes inv: "books c m progress es" "sound \<longrightarrow> \<not> any_refused es"
    and checked: "check_end (snapshot_of env c replay progress) (sc_call c) ask envelope = Inr ()"
    and ask: "ask_fits progress ask" "\<And>attempt. ask = AskAccept attempt \<Longrightarrow> work_fits c work attempt es"
    and k: "\<And>r es s. step_post sound c r es \<Longrightarrow> under_way Q (k r) es s"
  shows "under_way Q (apply_action env c progress work ask (AcEnd envelope latch) again k) es s"
proof -
  have "runs_of es \<noteq> []" if "en_status envelope = SsDone"
    using check_end_Inr(3) [OF checked that] ask inv(1)
    by (auto simp: work_fits_def books_def snapshot_of_def)
  with inv check_end_Inr(1,2) [OF checked] have "result_fits c es envelope"
    by (auto simp: result_fits_def books_def snapshot_of_def)
  with inv show ?thesis
    unfolding apply_action_def action.case
    by (intro under_way_latch_if under_way_finish [OF _ _ _ _ k]) (auto simp: books_def)
qed

lemma apply_cancelled:
  assumes inv: "books c m progress es" "sound \<longrightarrow> \<not> any_refused es"
    and checked: "check_cancelled (snapshot_of env c replay progress) (sc_call c) envelope = Inr ()"
    and k: "\<And>r es s. step_post sound c r es \<Longrightarrow> under_way Q (k r) es s"
  shows "under_way Q (apply_action env c progress work ask (AcCancelled envelope) again k) es s"
proof -
  have "result_fits c es envelope"
    using inv check_cancelled_Inr [OF checked] by (auto simp: result_fits_def books_def snapshot_of_def)
  with inv show ?thesis
    unfolding apply_action_def action.case
    by (intro under_way_finish [OF _ _ _ _ k]) (auto simp: books_def)
qed

lemma move_on_inv:
  assumes "books c (next_link progress) progress es" "sp_repair progress = None" "progress_fits c progress"
    and "replay_ok (sh_replay s)"
  shows "loop_inv c (move_on reason tried error worker progress) work AskPlan es s"
proof -
  let ?p = "move_on reason tried error worker progress"
  have same: "sp_cost ?p = sp_cost progress" "sp_repair ?p = sp_repair progress" "sp_link ?p = sp_link progress"
    "sp_moved_on ?p"
    by (simp_all add: move_on_def)
  then have "books c (next_link ?p) ?p es = books c (next_link progress) progress es"
    by (simp add: books_def next_link_def)
  with assms same show ?thesis by (auto simp: loop_inv_def progress_fits_def split: option.splits)
qed

lemma apply_checked:
  assumes call: "call_ok c" and replay: "replay_ok (sh_replay s)"
    and inv: "books c (next_link progress) progress es" "progress_fits c progress" "ask_fits progress ask"
      "sound \<longrightarrow> \<not> any_refused es"
    and plan: "ask = AskPlan \<Longrightarrow> sp_repair progress = None"
    and accept: "\<And>attempt. ask = AskAccept attempt \<Longrightarrow> work_fits c work attempt es \<and> (\<forall>e. attempt \<noteq> AtJournalFailed e)"
    and examined: "examine ds salt (snapshot_of env c (view (sh_replay s)) progress) (sc_plan c) ask = Inr action"
    and again: "\<And>progress' work' ask' es' s'. loop_inv c progress' work' ask' es' s' \<Longrightarrow>
      sound \<longrightarrow> \<not> any_refused es' \<Longrightarrow>
      rounds c progress' ask' + open_entries (sh_replay s') < rounds c progress ask + open_entries (sh_replay s) \<Longrightarrow>
      under_way Q (again progress' work' ask') es' s'"
    and k: "\<And>r es s. step_post sound c r es \<Longrightarrow> under_way Q (k r) es s"
  shows "under_way Q (apply_action env c progress work ask action again k) es s"
proof -
  let ?s = "snapshot_of env c (view (sh_replay s)) progress"
  have checked: "check_action ?s (sc_call c) ask action = Inr ()"
    using examine_Inr(1) [OF examined] call by (simp add: call_ok_def)
  note native = examine_Inr(2) [OF examined]
  have step: "sn_step ?s = progress" by (simp add: snapshot_of_def)
  show ?thesis
  proof (cases action)
    case (AcReplay entry)
    with checked have ask: "ask = AskPlan" and held: "check_replay ?s (sc_call c) entry = Inr ()"
      by (auto simp: check_action_def split: ask.splits)
    then have "sp_link progress = None" by (auto simp: check_replay_def step split: if_splits)
    then have zero: "next_link progress = 0" by (simp add: next_link_def)
    show ?thesis unfolding AcReplay ask
    proof (rule apply_replay [OF _ _ inv(4) replay held _ k], goal_cases)
      case (3 s')
      then show ?case
        using inv plan ask by (intro again) (auto simp: loop_inv_def)
    qed (use inv zero plan ask in auto)
  next
    case (AcDispatch link model tools latch)
    with checked have ask: "ask = AskPlan" and held: "check_dispatch ?s link model = Inr ()"
      by (auto simp: check_action_def split: ask.splits)
    show ?thesis unfolding AcDispatch ask
      by (rule apply_dispatch [OF inv(1) _ inv(2) call replay held])
        (use plan ask inv(4) in \<open>auto intro!: again\<close>)
  next
    case (AcRepair message rejected)
    with checked obtain attempt where ask: "ask = AskAccept attempt"
      and held: "check_repair ?s (sc_call c) rejected attempt = Inr ()"
      by (cases ask) (auto simp: check_action_def)
    from native AcRepair obtain t where "decide native_decisions () ?s (sc_plan c) (AskAccept attempt) = Inr t"
      "tr_action t = AcRepair message rejected"
      by (auto simp: ask)
    from native_repair [OF this] obtain worker ended where ended: "attempt = AtEnded worker ended"
      "en_status rejected = SsFailed" "en_worker rejected = Some (worker_text worker)"
      by blast
    have rejected: "en_step rejected = sc_call c" "en_attempts rejected = ct_attempts (sp_cost progress)"
      using held by (auto simp: check_repair_def check_envelope_def step Let_def split: if_splits)
    have none: "sp_repair progress = None" "sp_link progress \<noteq> None" using inv(3) ask ended by simp_all
    have work: "work_fits c work (AtEnded worker ended) es" using accept ask ended by blast
    show ?thesis unfolding AcRepair ask ended(1)
      by (rule apply_repair [OF inv(1,2) none work call replay rejected ended(2,3)])
        (use ask ended inv(4) in \<open>auto intro!: again\<close>)
  next
    case (AcMoveOn reason tried error worker)
    with checked obtain attempt where ask: "ask = AskAccept attempt"
      and held: "earned_move ?s reason attempt"
      by (cases ask) (auto simp: check_action_def check_move_on_def split: if_splits)
    have none: "sp_repair progress = None" "sp_link progress \<noteq> None"
      using held inv(3) ask
      by (auto simp: earned_move_def step split: moved_on.splits attempt.splits step_end.splits)
    have less: "rounds c (move_on reason tried error worker progress) AskPlan < rounds c progress ask"
      using none held
      by (auto simp: ask rounds_def Let_def move_on_def next_link_def earned_move_def split: attempt.splits moved_on.splits)
    show ?thesis unfolding AcMoveOn apply_action_def action.case
      using move_on_inv [OF inv(1) none(1) inv(2) replay] inv(4) less by (intro again) auto
  next
    case (AcEnd envelope latch)
    with checked have "check_end ?s (sc_call c) ask envelope = Inr ()" by simp
    then show ?thesis unfolding AcEnd
      by (rule apply_ended [OF inv(1,4) _ inv(3) _ k]) (use accept in simp_all)
  next
    case (AcCancelled envelope)
    with checked have "check_cancelled ?s (sc_call c) envelope = Inr ()" by simp
    then show ?thesis unfolding AcCancelled by (rule apply_cancelled [OF inv(1,4) _ k])
  qed
qed

theorem under_way_loop:
  assumes call: "call_ok c"
    and inv: "loop_inv c progress work ask es s" "sound \<longrightarrow> \<not> any_refused es"
    and sound: "sound \<Longrightarrow> never_refused (rn_decisions env) env c"
    and fuel: "rounds c progress ask + open_entries (sh_replay s) \<le> n"
    and k: "\<And>r es s. step_post sound c r es \<Longrightarrow> under_way Q (k r) es s"
  shows "under_way Q (step_loop n env c progress work ask k) es s"
  using inv fuel
proof (induction n arbitrary: progress work ask es s)
  case 0
  with rounds_pos [of c progress ask] show ?case by simp
next
  case (Suc n)
  let ?apply = "\<lambda>salt replay. case examine (rn_decisions env) salt (snapshot_of env c replay progress) (sc_plan c) ask of
      Inl error \<Rightarrow> refuse_step c progress work error k
    | Inr action \<Rightarrow> apply_action env c progress work ask action
        (\<lambda>progress work ask. step_loop n env c progress work ask k) k"
  have round: "under_way Q (?apply salt (view (sh_replay s2))) es s2"
    if none: "sh_journal_error s1 = None" and "advances s s1" "advances s1 s2" for salt s1 s2
  proof -
    have inv1: "loop_inv c progress work ask es s1"
      using Suc.prems(1) \<open>advances s s1\<close> by (rule loop_inv_later)
    note fits = loop_inv_fits [OF call inv1 none]
    have later: "advances s s2" using that by (blast intro: advances_trans)
    then have ok: "replay_ok (sh_replay s2)"
      using Suc.prems(1) by (auto simp: loop_inv_def advances_def intro: replay_ok_advances)
    show ?thesis
    proof (cases "examine (rn_decisions env) salt (snapshot_of env c (view (sh_replay s2)) progress) (sc_plan c) ask")
      case (Inl error)
      have "\<not> sound"
      proof
        assume sound: "sound"
        then have "\<exists>a. examine (rn_decisions env) salt (snapshot_of env c (view (sh_replay s2)) progress) (sc_plan c) ask = Inr a"
          using assms(4) fits(3,4) unfolding never_refused_def by blast
        with Inl show False by simp
      qed
      then show ?thesis unfolding Inl sum.case
        by (intro under_way_refuse [OF fits(1) _ k])
    next
      case (Inr action)
      show ?thesis unfolding Inr sum.case
      proof (rule apply_checked [OF call ok fits(1-3) Suc.prems(2) _ _ Inr _ k], goal_cases)
        case 1
        then show ?case using inv1 by (simp add: loop_inv_def)
      next
        case (2 attempt)
        then show ?case
          using inv1 none by (auto simp: loop_inv_def accept_inv_def work_fits_def split: attempt.splits)
      next
        case (3 progress' work' ask' es' s')
        then show ?case
          using Suc.prems(3) open_entries_advances [OF later] by (intro Suc.IH) auto
      qed
    qed
  qed
  show ?case
    unfolding step_loop.simps
  proof (rule under_way_locked, unfold prod.case append_Nil2, goal_cases)
    case (1 i s1)
    show ?case
    proof (cases "sh_journal_error s1")
      case (Some message)
      have "orderly c es"
        using Suc.prems(1) by (auto simp: loop_inv_def accept_inv_def books_def split: ask.splits attempt.splits)
      with Some Suc.prems(2) show ?thesis by (auto intro!: k simp: step_post_def)
    next
      case None
      then show ?thesis unfolding None option.case
        using round [OF None 1] by (intro under_way_locked) simp
    qed
  qed
qed

end
