(* ===== verification/WorkflowAgent.thy ===== *)
theory WorkflowAgent
  imports WorkflowLoop
begin

text \<open>
  The script function \<open>agent()\<close> of \<open>crates/p1-workflow/src/engine.rs\<close>: its options
  (\<open>StepOptions::parse\<close>, \<open>parse_slug\<close>, \<open>parse_tools\<close>) and the call around a step. The contract of
  the \<open>Decisions\<close> seam is the locale \<open>decision_contract\<close>: under it the substrate refuses no answer.
  The decisions compiled into the crate are its interpretation \<open>native\<close>.
\<close>

section \<open>Options\<close>

text \<open>What the script passes: nothing, a map as JSON (or why it is not JSON), or another value of the
  named type.\<close>

datatype script_opts = NoOpts | MapOpts "ustring + json" | OtherOpts ustring

definition quoted :: "ustring \<Rightarrow> ustring" where
  "quoted s = [34] @ s @ [34]"

definition option_text :: "ustring \<Rightarrow> json \<Rightarrow> ustring + ustring" where
  "option_text key value =
     (case value of
       JString s \<Rightarrow> Inr s
     | _ \<Rightarrow> Inl (lit ''agent: option '' @ quoted key @ lit '' must be a string''))"

definition max_slug :: nat where "max_slug = 64"

definition slug_edge :: "nat \<Rightarrow> bool" where
  "slug_edge c \<longleftrightarrow> 97 \<le> c \<and> c \<le> 122 \<or> 48 \<le> c \<and> c \<le> 57"

text \<open>The source tests bytes; every byte it lets through is a character of its own.\<close>

definition valid_slug :: "ustring \<Rightarrow> bool" where
  "valid_slug slug \<longleftrightarrow> slug \<noteq> [] \<and> length slug \<le> max_slug \<and>
     list_all (\<lambda>c. slug_edge c \<or> c = 45) slug \<and> slug_edge (hd slug) \<and> slug_edge (last slug)"

definition parse_slug :: "ustring \<Rightarrow> ustring + ustring" where
  "parse_slug slug =
     (if valid_slug slug then Inr slug
      else Inl (lit ''agent: option '' @ quoted (lit ''worktree'') @
        lit '' must be a slug of lowercase letters, digits and '' @ [39] @ lit ''-'' @ [39] @
        lit '', starting and ending with a letter or digit, at most '' @ dec max_slug @
        lit '' characters, not '' @ quoted slug))"

definition tools_shape :: ustring where
  "tools_shape = lit ''agent: option '' @ quoted (lit ''tools'') @ lit '' must be a non-empty array of strings''"

fun collect_tools :: "json list \<Rightarrow> ustring + ustring list" where
  "collect_tools [] = Inr []"
| "collect_tools (JString name # items) =
     (if forbidden_tool name then Inl (lit ''agent: a step may not be granted '' @ quoted name)
      else try_then (collect_tools items) (\<lambda>names. Inr (name # names)))"
| "collect_tools (_ # items) = Inl tools_shape"

definition parse_tools :: "json \<Rightarrow> ustring + ustring list" where
  "parse_tools value =
     (case value of
       JArray items \<Rightarrow> if items = [] then Inl tools_shape else collect_tools items
     | _ \<Rightarrow> Inl tools_shape)"

definition default_options :: step_options where
  "default_options = \<lparr>op_json = JNull, op_role = lit ''worker'', op_label = None, op_phase = None,
     op_schema = None, op_tools = None, op_workspace = None, op_worktree = None\<rparr>"

definition parse_entry :: "ustring \<Rightarrow> json \<Rightarrow> step_options \<Rightarrow> ustring + step_options" where
  "parse_entry key value o' =
     (if key = lit ''role'' then
        try_then (option_text key value) (\<lambda>x. Inr (o'\<lparr>op_role := x\<rparr>))
      else if key = lit ''label'' then
        try_then (option_text key value) (\<lambda>x. Inr (o'\<lparr>op_label := Some x\<rparr>))
      else if key = lit ''phase'' then
        try_then (option_text key value) (\<lambda>x. Inr (o'\<lparr>op_phase := Some x\<rparr>))
      else if key = lit ''workspace'' then
        try_then (option_text key value) (\<lambda>x. Inr (o'\<lparr>op_workspace := Some x\<rparr>))
      else if key = lit ''worktree'' then
        try_then (option_text key value) (\<lambda>x.
        try_then (parse_slug x) (\<lambda>x. Inr (o'\<lparr>op_worktree := Some x\<rparr>)))
      else if key = lit ''schema'' then
        (case value of
          JObject _ \<Rightarrow> Inr (o'\<lparr>op_schema := Some value\<rparr>)
        | _ \<Rightarrow> Inl (lit ''agent: option '' @ quoted (lit ''schema'') @ lit '' must be a map''))
      else if key = lit ''tools'' then
        try_then (parse_tools value) (\<lambda>x. Inr (o'\<lparr>op_tools := Some x\<rparr>))
      else Inl (lit ''agent: unknown option '' @ quoted key))"

fun parse_entries :: "(ustring \<times> json) list \<Rightarrow> step_options \<Rightarrow> ustring + step_options" where
  "parse_entries [] o' = Inr o'"
| "parse_entries ((key, value) # entries) o' = try_then (parse_entry key value o') (parse_entries entries)"

definition opts_json :: "script_opts \<Rightarrow> ustring + json" where
  "opts_json opts =
     (case opts of
       NoOpts \<Rightarrow> Inr (JObject [])
     | MapOpts value \<Rightarrow> map_err (\<lambda>error. lit ''agent: opts: '' @ error) value
     | OtherOpts name \<Rightarrow> Inl (lit ''agent: opts must be a map, not '' @ name))"

definition parse_options :: "script_opts \<Rightarrow> ustring + step_options" where
  "parse_options opts =
     try_then (opts_json opts) (\<lambda>json.
     try_then (parse_entries (case json of JObject entries \<Rightarrow> entries | _ \<Rightarrow> []) default_options) (\<lambda>parsed.
       if op_worktree parsed \<noteq> None \<and> op_workspace parsed \<noteq> None then
         Inl (lit ''agent: options '' @ quoted (lit ''worktree'') @ lit '' and '' @ quoted (lit ''workspace'') @
           lit '' cannot be given together'')
       else Inr (parsed\<lparr>op_json := json\<rparr>)))"

text \<open>What parsed options guarantee.\<close>

definition options_ok :: "step_options \<Rightarrow> bool" where
  "options_ok o' \<longleftrightarrow>
     (case op_tools o' of None \<Rightarrow> True | Some tools \<Rightarrow> tools \<noteq> [] \<and> \<not> list_ex forbidden_tool tools) \<and>
     (case op_worktree o' of None \<Rightarrow> True | Some slug \<Rightarrow> valid_slug slug)"

lemma collect_tools_ok: "collect_tools items = Inr names \<Longrightarrow> length names = length items \<and> \<not> list_ex forbidden_tool names"
  by (induction items arbitrary: names rule: collect_tools.induct) (auto simp: try_then_Inr split: if_splits)

lemma parse_tools_ok: "parse_tools value = Inr names \<Longrightarrow> names \<noteq> [] \<and> \<not> list_ex forbidden_tool names"
  using collect_tools_ok by (force simp: parse_tools_def split: json.splits if_splits)

lemma parse_entry_ok: "parse_entry key value o' = Inr o'' \<Longrightarrow> options_ok o' \<Longrightarrow> options_ok o''"
  by (auto simp: parse_entry_def options_ok_def try_then_Inr parse_slug_def dest: parse_tools_ok
      split: if_splits json.splits)

lemma parse_entries_ok: "parse_entries entries o' = Inr o'' \<Longrightarrow> options_ok o' \<Longrightarrow> options_ok o''"
  by (induction entries o' rule: parse_entries.induct) (auto simp: try_then_Inr dest: parse_entry_ok)

lemma parse_options_ok:
  assumes "parse_options opts = Inr o'"
  shows "options_ok o'" "op_worktree o' = None \<or> op_workspace o' = None"
proof -
  have "options_ok default_options" by (simp add: options_ok_def default_options_def)
  with assms show "options_ok o'" "op_worktree o' = None \<or> op_workspace o' = None"
    by (auto simp: parse_options_def try_then_Inr options_ok_def split: if_splits dest!: parse_entries_ok)
qed

section \<open>\<open>agent()\<close>\<close>

definition memory_budget_error :: ustring where
  "memory_budget_error = lit ''the workflow run exceeded its memory budget (1 GiB above the process at start)''"

definition script_agent ::
  "nat \<Rightarrow> 'e run_env \<Rightarrow> ustring \<Rightarrow> script_opts \<Rightarrow> (step_result \<Rightarrow> ('e, 'r) prog) \<Rightarrow> ('e, 'r) prog" where
  "script_agent fuel env prompt opts k =
     (case parse_options opts of
       Inl error \<Rightarrow> k (StepScriptError error)
     | Inr opts \<Rightarrow>
         locked (\<lambda>i s. ([], (sh_cancelled s, in_memory i), s)) (\<lambda>(cancelled, exceeded).
           if cancelled then k (StepTerminated (lit ''cancelled''))
           else if exceeded then k (StepTerminated memory_budget_error)
           else workflow_step fuel env prompt opts
             (call_id (rn_printer env) (case op_label opts of Some label \<Rightarrow> label | None \<Rightarrow> []) prompt (op_json opts)) k))"

section \<open>The contract of the decisions\<close>

text \<open>Every answer passes the substrate's examination, and what the host owns of it is the host's own.\<close>

locale decision_contract =
  fixes ds :: "'e decisions"
  assumes answers: "step_fits s (pq_call plan) \<Longrightarrow> ask_fits (sn_step s) ask \<Longrightarrow> request_fits s plan \<Longrightarrow>
    \<exists>a. decide ds salt s plan ask = Inr (new_transition a) \<and> passes s plan ask a \<and>
      (host_owned a \<longrightarrow> decide native_decisions () s plan ask = Inr (new_transition a))"
begin

lemma examined:
  assumes "step_fits s (pq_call plan)" "ask_fits (sn_step s) ask" "request_fits s plan"
  shows "\<exists>a. examine ds salt s plan ask = Inr a"
proof -
  from answers [OF assms] obtain a where a: "decide ds salt s plan ask = Inr (new_transition a)"
    "passes s plan ask a" "host_owned a \<Longrightarrow> decide native_decisions () s plan ask = Inr (new_transition a)"
    by blast
  have "check_transition s (pq_call plan) ask (new_transition a) = Inr a"
    using a(2) by (simp add: check_transition_new passes_def)
  moreover have "check_tools s plan a = Inr ()"
    using a(2) by (cases a) (simp_all add: check_tools_def passes_def)
  moreover have "check_owned s plan ask a = Inr ()"
    using a(3) by (cases "host_owned a") (simp_all add: check_owned_def new_transition_def)
  ultimately show ?thesis using a(1) by (simp add: examine_def)
qed

lemma no_refusal:
  assumes "call_ok c" "\<And>replay progress. request_fits (snapshot_of env c replay progress) (sc_plan c)"
  shows "never_refused ds env c"
  unfolding never_refused_def
proof (intro allI impI)
  fix salt replay progress ask
  assume "step_fits (snapshot_of env c replay progress) (sc_call c)" "ask_fits progress ask"
  with assms show "\<exists>a. examine ds salt (snapshot_of env c replay progress) (sc_plan c) ask = Inr a"
    by (intro examined) (auto simp: call_ok_def snapshot_of_def)
qed

end

interpretation native: decision_contract native_decisions
proof
  fix s :: snapshot and plan ask and salt :: 'e
  assume fits: "step_fits s (pq_call plan)" "ask_fits (sn_step s) ask" "request_fits s plan"
  obtain a where "decide native_decisions salt s plan ask = Inr (new_transition a)" "passes s plan ask a"
    by (rule native_passes [OF fits])
  moreover have "decide native_decisions () s plan ask = decide native_decisions salt s plan ask"
    by (simp add: decide_def native_decisions_def split: ask.split)
  ultimately show "\<exists>a. decide native_decisions salt s plan ask = Inr (new_transition a) \<and> passes s plan ask a \<and>
      (host_owned a \<longrightarrow> decide native_decisions () s plan ask = Inr (new_transition a))"
    by auto
qed

section \<open>An \<open>agent()\<close> call under interference\<close>

text \<open>What the settings guarantee of the roles: a chain a \<open>u32\<close> counts, and no tool a step may not
  be granted.\<close>

definition role_ok :: "role_view \<Rightarrow> bool" where
  "role_ok role \<longleftrightarrow> length (rv_chain role) < 2 ^ 32 - 1 \<and> \<not> list_ex forbidden_tool (rv_tools role)"

definition env_ok :: "'e run_env \<Rightarrow> bool" where
  "env_ok env \<longleftrightarrow> (\<forall>name role. rn_roles env name = Some role \<longrightarrow> role_ok role)"

text \<open>The rounds a step can take: three for each link, two more, and one for each recorded result
  that another call takes first.\<close>

definition step_fuel :: "'e run_env \<Rightarrow> step_options \<Rightarrow> replay \<Rightarrow> nat" where
  "step_fuel env opts r =
     3 * (case rn_roles env (op_role opts) of None \<Rightarrow> 0 | Some role \<Rightarrow> length (rv_chain role)) +
     length (ry_entries r) + 3"

definition agent_fuel :: "'e run_env \<Rightarrow> script_opts \<Rightarrow> replay \<Rightarrow> nat" where
  "agent_fuel env opts r = (case parse_options opts of Inl _ \<Rightarrow> 0 | Inr o' \<Rightarrow> step_fuel env o' r)"

definition agent_call :: "'e run_env \<Rightarrow> ustring \<Rightarrow> step_options \<Rightarrow> call_id" where
  "agent_call env prompt opts = call_id (rn_printer env)
     (case op_label opts of Some label \<Rightarrow> label | None \<Rightarrow> []) prompt (op_json opts)"

definition agent_post ::
  "bool \<Rightarrow> 'e run_env \<Rightarrow> ustring \<Rightarrow> script_opts \<Rightarrow> step_result \<Rightarrow> event list \<Rightarrow> bool" where
  "agent_post sound env prompt opts r es \<longleftrightarrow> (case parse_options opts of
     Inl error \<Rightarrow> r = StepScriptError error \<and> es = []
   | Inr o' \<Rightarrow> (es = [] \<and> (\<exists>reason. r = StepTerminated reason)) \<or>
       (\<exists>number. step_post sound (step_call_of env prompt o' (agent_call env prompt o') number) r es))"

definition unrefused :: "'e run_env \<Rightarrow> ustring \<Rightarrow> step_options \<Rightarrow> bool" where
  "unrefused env prompt opts \<longleftrightarrow>
     (\<forall>call number. never_refused (rn_decisions env) env (step_call_of env prompt opts call number))"

lemma step_call_ok: "env_ok env \<Longrightarrow> call_ok (step_call_of env prompt opts call number)"
  by (auto simp: call_ok_def step_call_of_def Let_def role_chain_def env_ok_def role_ok_def split: option.splits)

lemma loop_inv_fresh:
  assumes "replay_ok (sh_replay s)"
  shows "loop_inv c (fresh_progress number) fresh_work AskPlan [] s"
  using assms by (simp add: loop_inv_def books_def fresh_progress_def progress_fits_def next_link_def no_cost_def)

lemma open_entries_bound: "replay_ok r \<Longrightarrow> open_entries r \<le> Suc (length (ry_entries r))"
  by (auto simp: open_entries_def replay_ok_def intro: order_trans [OF length_filter_le])

lemma rounds_fresh: "rounds c (fresh_progress number) AskPlan = 3 * length (role_chain c) + 2"
  by (simp add: rounds_def fresh_progress_def next_link_def)

lemma under_way_step:
  assumes env: "env_ok env" and replay: "replay_ok (sh_replay s)"
    and sound: "sound \<Longrightarrow> unrefused env prompt opts"
    and fuel: "step_fuel env opts (sh_replay s) \<le> n"
    and k: "\<And>number r es s. step_post sound (step_call_of env prompt opts call number) r es \<Longrightarrow> under_way Q (k r) es s"
  shows "under_way Q (workflow_step n env prompt opts call k) [] s"
  unfolding workflow_step_def
proof (rule under_way_locked, unfold prod.case append_Nil2, rule under_way_locked, unfold prod.case append_Nil2)
  fix i :: 'a and s1 :: shared and i' :: 'b and s2 :: shared
  let ?s1 = "s1\<lparr>sh_record := (sh_record s1)\<lparr>rc_steps_started := incr (rc_steps_started (sh_record s1))\<rparr>\<rparr>"
  let ?c = "step_call_of env prompt opts call (incr (sh_calls s2))"
  assume "advances s s1" "advances ?s1 s2"
  then have later: "replay_advances (sh_replay s) (sh_replay s2)"
    by (auto simp: advances_def intro: replay_advances_trans)
  with replay have ok: "replay_ok (sh_replay s2)" by (rule replay_ok_advances)
  have "3 * length (role_chain ?c) + 2 + open_entries (sh_replay s2) \<le> n"
    using fuel later open_entries_bound [OF ok]
    by (auto simp: step_fuel_def replay_advances_def role_chain_def step_call_of_def Let_def split: option.splits)
  then show "under_way Q (step_loop n env ?c (fresh_progress (incr (sh_calls s2))) fresh_work AskPlan k) []
      (s2\<lparr>sh_calls := incr (sh_calls s2)\<rparr>)"
    using ok sound
    by (intro under_way_loop [OF step_call_ok [OF env] loop_inv_fresh _ _ _ k])
      (auto simp: rounds_fresh unrefused_def)
qed

lemma under_way_agent:
  assumes env: "env_ok env" and replay: "replay_ok (sh_replay s)"
    and sound: "\<And>o'. sound \<Longrightarrow> parse_options opts = Inr o' \<Longrightarrow> unrefused env prompt o'"
    and fuel: "agent_fuel env opts (sh_replay s) \<le> n"
    and k: "\<And>r es s. agent_post sound env prompt opts r es \<Longrightarrow> under_way Q (k r) es s"
  shows "under_way Q (script_agent n env prompt opts k) [] s"
proof (cases "parse_options opts")
  case (Inl error)
  then show ?thesis by (auto simp: script_agent_def agent_post_def intro: k)
next
  case (Inr o')
  let ?call = "agent_call env prompt o'"
  have "under_way Q (workflow_step n env prompt o' ?call k) [] s1"
    if "advances s s1" for s1
  proof (rule under_way_step [OF env])
    have later: "replay_advances (sh_replay s) (sh_replay s1)" using that by (simp add: advances_def)
    with replay show "replay_ok (sh_replay s1)" by (rule replay_ok_advances)
    show "step_fuel env o' (sh_replay s1) \<le> n"
      using fuel later Inr by (simp add: agent_fuel_def step_fuel_def replay_advances_def)
    show "sound \<Longrightarrow> unrefused env prompt o'" using sound Inr by blast
    show "under_way Q (k r) es t"
      if "step_post sound (step_call_of env prompt o' ?call number) r es" for number r es t
      using that Inr by (intro k) (auto simp: agent_post_def)
  qed
  then show ?thesis
    by (auto simp: script_agent_def Inr agent_post_def simp flip: agent_call_def intro!: under_way_locked k)
qed

context decision_contract
begin

lemma sound_agent:
  assumes "env_ok env" "rn_decisions env = ds" "parse_options opts = Inr o'"
  shows "unrefused env prompt o'"
  unfolding unrefused_def assms(2)
proof (intro allI no_refusal)
  fix call number replay progress
  let ?c = "step_call_of env prompt o' call number"
  show "call_ok ?c" by (rule step_call_ok [OF assms(1)])
  show "request_fits (snapshot_of env ?c replay progress) (sc_plan ?c)"
    using parse_options_ok(1) [OF assms(3)] assms(1)
    by (auto simp: request_fits_def snapshot_of_def step_call_of_def Let_def options_ok_def env_ok_def role_ok_def
        split: option.splits)
qed

end

lemmas native_sound_agent = native.sound_agent

end
