(* ===== verification/WorkflowEnd.thy ===== *)
theory WorkflowEnd
  imports WorkflowAgent
begin

text \<open>
  The end of a workflow run, \<open>RunState::end\<close> and \<open>execute\<close> of \<open>crates/p1-workflow/src/engine.rs\<close>: the report is
  staged, published as \<open>result.json\<close> and committed by the journal's \<open>ended\<close> line, in this order, so
  that a report that says the run completed is published and committed. Each file operation is an
  action of its own and may fail.
\<close>

section \<open>The verdict on a run\<close>

definition no_issues :: "counts \<Rightarrow> bool" where
  "no_issues c \<longleftrightarrow>
     wrapping_add32 (wrapping_add32 (wrapping_add32 (cn_failed c) (cn_blocked c)) (cn_cancelled c)) (cn_capped c) = 0"

definition run_verdict ::
  "counts \<Rightarrow> (run_outcome \<times> ustring) option \<Rightarrow> ustring option \<Rightarrow> run_outcome \<times> ustring option" where
  "run_verdict counts error journal_error =
     (case journal_error of
       Some reason \<Rightarrow> (RoFailed, Some reason)
     | None \<Rightarrow>
         (case error of
           Some (outcome, message) \<Rightarrow> (outcome, Some message)
         | None \<Rightarrow> (if no_issues counts then RoCompleted else RoCompletedWithIssues, None)))"

definition failed_report :: "ustring option \<Rightarrow> run_report \<Rightarrow> run_report" where
  "failed_report error report = report\<lparr>rr_outcome := RoFailed, rr_error := error\<rparr>"

section \<open>Publishing the report\<close>

definition file_action :: "artifact_op \<Rightarrow> (ustring option \<Rightarrow> ('e, 'r) prog) \<Rightarrow> ('e, 'r) prog" where
  "file_action op k =
     locked (\<lambda>i s. (case in_file i of None \<Rightarrow> [EvFile op] | Some _ \<Rightarrow> [], in_file i, s)) k"

definition log_failure :: "ustring \<Rightarrow> ustring option \<Rightarrow> (unit \<Rightarrow> ('e, 'r) prog) \<Rightarrow> ('e, 'r) prog" where
  "log_failure what failure k =
     (case failure of None \<Rightarrow> k () | Some failure \<Rightarrow> log_line (what @ failure) k)"

definition publish_report ::
  "run_report \<Rightarrow> (bool \<Rightarrow> run_report \<Rightarrow> ('e, 'r) prog) \<Rightarrow> ('e, 'r) prog" where
  "publish_report report k =
     file_action (StageResult report) (\<lambda>failure.
       case failure of
         Some failure \<Rightarrow> k False (failed_report (Some (lit ''result.json write failed: '' @ failure)) report)
       | None \<Rightarrow>
           file_action PublishResult (\<lambda>failure.
             let published = (failure = None);
                 report = (case failure of
                   Some failure \<Rightarrow> failed_report (Some (lit ''result.json publish failed: '' @ failure)) report
                 | None \<Rightarrow> report) in
             file_action DropPending (\<lambda>failure.
             log_failure (lit ''result.json pending cleanup failed: '') failure (\<lambda>_. k published report))))"

definition roll_back :: "bool \<Rightarrow> (unit \<Rightarrow> ('e, 'r) prog) \<Rightarrow> ('e, 'r) prog" where
  "roll_back published k =
     (if published then file_action RemoveResult (\<lambda>failure.
        log_failure (lit ''result.json rollback failed: '') failure k)
      else k ())"

definition commit_report ::
  "bool \<Rightarrow> run_report \<Rightarrow> (run_report \<Rightarrow> ('e, 'r) prog) \<Rightarrow> ('e, 'r) prog" where
  "commit_report published report k =
     write_line (JlEnded (rr_outcome report) (rr_counts report) (rr_error report)) (\<lambda>committed.
       if committed then k report
       else locked (\<lambda>i s. ([], sh_journal_error s, s)) (\<lambda>error.
         roll_back published (\<lambda>_. k (failed_report error report))))"

section \<open>Ending the run\<close>

definition end_run ::
  "'e run_env \<Rightarrow> json \<Rightarrow> (run_outcome \<times> ustring) option \<Rightarrow> (run_report \<Rightarrow> ('e, 'r) prog) \<Rightarrow> ('e, 'r) prog" where
  "end_run env value error k =
     locked (\<lambda>i s. ([], (rc_counts (sh_record s), rc_steps (sh_record s)), s)) (\<lambda>(counts, steps).
     locked (\<lambda>i s. ([], sh_journal_error s, s)) (\<lambda>journal_error.
       case run_verdict counts error journal_error of (outcome, error) \<Rightarrow>
       publish_report \<lparr>rr_id = rn_id env, rr_outcome = outcome, rr_value = redact_value value,
           rr_counts = counts, rr_steps = steps, rr_error = map_option redact_text error,
           rr_run_dir = rn_run_dir env\<rparr> (\<lambda>published report.
       commit_report published report (\<lambda>report.
       locked (\<lambda>i s. ([], (), s\<lparr>sh_journal_open := False\<rparr>)) (\<lambda>_.
       locked (\<lambda>i s. ([], (), s\<lparr>sh_report := Some report\<rparr>)) (\<lambda>_.
       locked (\<lambda>i s. ([EvRunEnded report], (), s)) (\<lambda>_. k report)))))))"

text \<open>How the script ended, as \<open>execute\<close> tells \<open>end\<close>.\<close>

datatype script_end =
    ScriptValue "ustring + json"
  | ScriptError ustring
  | ScriptPanicked

definition script_verdict ::
  "bool \<Rightarrow> bool \<Rightarrow> script_end \<Rightarrow> json \<times> (run_outcome \<times> ustring) option" where
  "script_verdict cancelled memory_exceeded script =
     (if cancelled then (JNull, Some (RoCancelled, lit ''cancelled''))
      else if memory_exceeded then (JNull, Some (RoFailed, memory_budget_error))
      else case script of
        ScriptValue (Inr value) \<Rightarrow> (value, None)
      | ScriptValue (Inl error) \<Rightarrow>
          (JNull, Some (RoFailed, lit ''the script'' @ [39] @ lit ''s return value is not JSON: '' @ error))
      | ScriptError message \<Rightarrow> (JNull, Some (RoFailed, message))
      | ScriptPanicked \<Rightarrow> (JNull, Some (RoFailed, lit ''the script engine panicked'')))"

text \<open>The memory flag is read before the token.\<close>

definition execute :: "'e run_env \<Rightarrow> script_end \<Rightarrow> (run_report \<Rightarrow> ('e, 'r) prog) \<Rightarrow> ('e, 'r) prog" where
  "execute env script k =
     locked (\<lambda>i s. ([], in_memory i, s)) (\<lambda>memory_exceeded.
     locked (\<lambda>i s. ([], sh_cancelled s, s)) (\<lambda>cancelled.
       case script_verdict cancelled memory_exceeded script of (value, error) \<Rightarrow> end_run env value error k))"

section \<open>What the end of a run shows\<close>

definition artifact_ops :: "event list \<Rightarrow> artifact_op list" where
  "artifact_ops es = List.map_filter (\<lambda>e. case e of EvFile op \<Rightarrow> Some op | _ \<Rightarrow> None) es"

lemma artifact_ops_simps [simp]:
  "artifact_ops [] = []"
  "artifact_ops (e # es) = (case e of EvFile op \<Rightarrow> op # artifact_ops es | _ \<Rightarrow> artifact_ops es)"
  "artifact_ops (a @ b) = artifact_ops a @ artifact_ops b"
  by (simp_all add: artifact_ops_def map_filter_append map_filter_Cons map_filter_Nil split: event.split)

lemma quiet_artifact_ops [simp]: "list_all quiet_event evs \<Longrightarrow> artifact_ops evs = []"
  by (induction evs) (auto split: event.split)

fun end_of_run :: "journal_line \<Rightarrow> bool" where
  "end_of_run (JlEnded _ _ _) \<longleftrightarrow> True"
| "end_of_run _ \<longleftrightarrow> False"

text \<open>
  A report is the last word of the run. Its outcome is the one committed; where nothing was
  committed it says failed, and an artifact published before is removed or its removal was tried.
  A report that does not say failed was published, and committed after that.
\<close>

fun bystander_line :: "journal_line \<Rightarrow> bool" where
  "bystander_line (JlPhase _) \<longleftrightarrow> True"
| "bystander_line (JlEnded _ _ _) \<longleftrightarrow> True"
| "bystander_line _ \<longleftrightarrow> False"

definition no_step_events :: "event list \<Rightarrow> bool" where
  "no_step_events es \<longleftrightarrow> \<not> any_refused es \<and> takes_of es = [] \<and> list_all bystander_line (lines_of es)"

lemma no_step_eventsD:
  assumes "no_step_events es"
  shows "dispatches_of es = []" "\<not> has_replayed es" "\<not> has_result es"
proof -
  have *: "dispatch_wire l = None \<and> \<not> is_replayed l \<and> \<not> is_result l" if "bystander_line l" for l
    using that by (cases l) auto
  from assms show "dispatches_of es = []" "\<not> has_replayed es" "\<not> has_result es"
    unfolding no_step_events_def dispatches_of_def has_replayed_def has_result_def
    by (induction "lines_of es" arbitrary: es rule: list.induct)
      (auto simp: map_filter_simps list_all_iff list_ex_iff List.map_filter_def filter_empty_conv dest: *)
qed

lemma no_step_events_simps [simp]:
  "no_step_events []" "no_step_events (a @ b) \<longleftrightarrow> no_step_events a \<and> no_step_events b"
  "list_all quiet_event evs \<Longrightarrow> no_step_events evs" "no_step_events (EvFile op # es) \<longleftrightarrow> no_step_events es"
  "no_step_events (EvRunEnded report # es) \<longleftrightarrow> no_step_events es"
  "no_step_events (EvLine (JlEnded outcome counts error) # es) \<longleftrightarrow> no_step_events es"
  "no_step_events (EvLine (JlPhase name) # es) \<longleftrightarrow> no_step_events es"
  "no_step_events (EvPhase name # es) \<longleftrightarrow> no_step_events es"
  by (auto simp: no_step_events_def)

definition ended_well :: "run_report \<Rightarrow> event list \<Rightarrow> bool" where
  "ended_well report es \<longleftrightarrow> no_step_events es \<and>
     (\<exists>evs. es = evs @ [EvRunEnded report]) \<and>
     (lines_of es = [] \<and> rr_outcome report = RoFailed \<or>
      lines_of es = [safe_line (JlEnded (rr_outcome report) (rr_counts report) (rr_error report))]) \<and>
     (rr_outcome report \<noteq> RoFailed \<longrightarrow>
        (\<exists>pre post. es = pre @ EvLine (safe_line (JlEnded (rr_outcome report) (rr_counts report) (rr_error report))) # post \<and>
          PublishResult \<in> set (artifact_ops pre)) \<and>
        RemoveResult \<notin> set (artifact_ops es))"

lemma under_way_file_action:
  assumes "\<And>s'. advances s s' \<Longrightarrow> under_way Q (k None) (es @ [EvFile op]) s'"
    and "\<And>error s'. advances s s' \<Longrightarrow> under_way Q (k (Some error)) es s'"
  shows "under_way Q (file_action op k) es s"
  unfolding file_action_def
proof (rule under_way_locked, unfold prod.case, goal_cases)
  case (1 i s')
  with assms show ?case by (cases "in_file i") simp_all
qed

lemma under_way_log_failure:
  assumes "\<And>evs s'. list_all quiet_event evs \<Longrightarrow> under_way Q (k ()) (es @ evs) s'"
  shows "under_way Q (log_failure what failure k) es s"
  using assms [of "[]"] by (auto simp: log_failure_def intro: under_way_log_line assms split: option.split)

text \<open>\<open>told published report es\<close>: what is known before the commit.\<close>

definition told :: "bool \<Rightarrow> run_report \<Rightarrow> event list \<Rightarrow> bool" where
  "told published report es \<longleftrightarrow> no_step_events es \<and> lines_of es = [] \<and> RemoveResult \<notin> set (artifact_ops es) \<and>
     (published \<longrightarrow> PublishResult \<in> set (artifact_ops es)) \<and> (rr_outcome report \<noteq> RoFailed \<longrightarrow> published)"

lemma told_plain: "told published report es \<Longrightarrow> no_step_events es"
  by (simp add: told_def)

lemma under_way_publish_report:
  assumes k: "\<And>published report es s. told published report es \<Longrightarrow> under_way Q (k published report) es s"
  shows "under_way Q (publish_report report k) [] s"
  unfolding publish_report_def
proof (rule under_way_file_action, unfold option.case append_Nil, rule under_way_file_action, goal_cases)
  case (1 s1 s2)
  show ?case unfolding Let_def option.case
    by (rule under_way_file_action; rule under_way_log_failure) (auto intro!: k simp: told_def)
next
  case (2 s1 error s2)
  show ?case unfolding Let_def option.case
    by (rule under_way_file_action; rule under_way_log_failure) (auto intro!: k simp: told_def failed_report_def)
next
  case (3 error s1)
  show ?case by (auto intro!: k simp: told_def failed_report_def)
qed

text \<open>What is known after it.\<close>

definition settled :: "run_report \<Rightarrow> event list \<Rightarrow> bool" where
  "settled report es \<longleftrightarrow> no_step_events es \<and> (
     (lines_of es = [] \<and> rr_outcome report = RoFailed) \<or>
     (\<exists>pre. es = pre @ [EvLine (safe_line (JlEnded (rr_outcome report) (rr_counts report) (rr_error report)))] \<and>
       (\<exists>published. told published report pre)))"

lemma under_way_roll_back:
  assumes "lines_of es = []" "no_step_events es"
    and "\<And>es s. lines_of es = [] \<Longrightarrow> no_step_events es \<Longrightarrow> under_way Q (k ()) es s"
  shows "under_way Q (roll_back published k) es s"
  unfolding roll_back_def using assms
  by (auto intro!: under_way_file_action under_way_log_failure)

lemma under_way_commit_report:
  assumes told: "told published report es"
    and k: "\<And>report es s. settled report es \<Longrightarrow> under_way Q (k report) es s"
  shows "under_way Q (commit_report published report k) es s"
  unfolding commit_report_def
proof (rule under_way_write_line, goal_cases)
  case (1 s1)
  show ?case unfolding if_True
    using told by (intro k) (auto simp: settled_def dest: told_plain)
next
  case (2 evs s1)
  with told have none: "lines_of (es @ evs) = []" "no_step_events (es @ evs)" by (simp_all add: told_def)
  show ?case unfolding if_False
  proof (rule under_way_locked, unfold prod.case append_Nil2, rule under_way_roll_back [OF none])
    fix s2 es' s3
    assume "lines_of es' = []" "no_step_events es'"
    then show "under_way Q (k (failed_report (sh_journal_error s2) report)) es' s3"
      by (intro k) (simp add: settled_def failed_report_def)
  qed
qed

lemma ended_well_settled: "settled report es \<Longrightarrow> ended_well report (es @ [EvRunEnded report])"
  unfolding settled_def ended_well_def told_def by (auto, metis)

lemma under_way_end_run:
  assumes k: "\<And>report es s. ended_well report es \<Longrightarrow> under_way Q (k report) es s"
  shows "under_way Q (end_run env value error k) [] s"
  unfolding end_run_def
proof (rule under_way_locked, unfold prod.case append_Nil2, rule under_way_locked, unfold prod.case append_Nil2, goal_cases)
  case (1 i s1 i' s2)
  show ?case
    by (auto split: prod.split intro!: under_way_publish_report under_way_commit_report under_way_locked k ended_well_settled)
qed

lemma under_way_execute:
  assumes "\<And>report es s. ended_well report es \<Longrightarrow> under_way Q (k report) es s"
  shows "under_way Q (execute env script k) [] s"
  unfolding execute_def
  by (rule under_way_locked, unfold prod.case append_Nil2, rule under_way_locked, unfold prod.case append_Nil2)
    (auto split: prod.split intro!: under_way_end_run assms)

end
