(* ===== verification/WorkflowGuarantee.thy ===== *)
theory WorkflowGuarantee
  imports WorkflowEnd
begin

text \<open>
  What every action of a workflow run guarantees to the other threads, whatever state it finds: the
  \<open>guarantee\<close>, and the rule of each function of the engine that its actions keep it
  (\<open>acts_intros\<close>). A capped model's count rises by exactly the attempts charged, never past its
  limit; a line is written only while the journal is open; a recorded result is taken only while it
  is there and the latch is off; no turn and no worktree is started once the run is cancelled; the counts of the report agree with its step lines.
\<close>

section \<open>The guarantee\<close>

definition caps_kept :: "'e run_env \<Rightarrow> shared \<Rightarrow> event list \<Rightarrow> shared \<Rightarrow> bool" where
  "caps_kept env s evs s' \<longleftrightarrow> (\<forall>wire limit. rn_caps env wire = Some limit \<longrightarrow> limit < 2 ^ 32 \<longrightarrow>
     used_count (sh_used s') wire = used_count (sh_used s) wire + count_list (spends_of evs) wire \<and>
     (spends_of evs = [] \<or> used_count (sh_used s') wire \<le> max limit (used_count (sh_used s) wire)))"

definition journal_kept :: "shared \<Rightarrow> event list \<Rightarrow> shared \<Rightarrow> bool" where
  "journal_kept s evs s' \<longleftrightarrow> (lines_of evs = [] \<or> sh_journal_open s) \<and> (sh_journal_open s' \<longrightarrow> sh_journal_open s)"

definition replay_kept :: "shared \<Rightarrow> event list \<Rightarrow> shared \<Rightarrow> bool" where
  "replay_kept s evs s' \<longleftrightarrow>
     takes_of evs = [] \<and> ry_taken (sh_replay s') = ry_taken (sh_replay s) \<or>
     (\<exists>entry. takes_of evs = [entry] \<and> entry < length (ry_entries (sh_replay s)) \<and>
       \<not> ry_latched_off (sh_replay s) \<and> \<not> ry_taken (sh_replay s) ! entry \<and>
       ry_taken (sh_replay s') = (ry_taken (sh_replay s))[entry := True])"

definition starts_turn :: "event \<Rightarrow> bool" where
  "starts_turn e \<longleftrightarrow> (case e of EvRun _ \<Rightarrow> True | EvRepair _ _ \<Rightarrow> True | EvWorktree _ \<Rightarrow> True | _ \<Rightarrow> False)"

definition cancel_kept :: "shared \<Rightarrow> event list \<Rightarrow> bool" where
  "cancel_kept s evs \<longleftrightarrow> \<not> sh_cancelled s \<or> \<not> list_ex starts_turn evs"

definition tally :: "('a \<Rightarrow> bool) \<Rightarrow> 'a list \<Rightarrow> nat" where
  "tally P xs = length (filter P xs) mod 2 ^ 32"

definition line_not_verified :: "step_line \<Rightarrow> bool" where
  "line_not_verified l \<longleftrightarrow> sl_status l = SsDone \<and>
     (case sl_evidence l of Some evidence \<Rightarrow> starts_with (lit ''not verified'') evidence | None \<Rightarrow> False)"

definition line_invalid_output :: "step_line \<Rightarrow> bool" where
  "line_invalid_output l \<longleftrightarrow>
     starts_with (lit ''invalid_output:'') (case sl_error l of Some error \<Rightarrow> error | None \<Rightarrow> [])"

text \<open>The counts of a run are those of its step lines; \<open>cn_capped\<close> and \<open>cn_fell_back\<close> sum up the costs of
  the steps, which no step line shows.\<close>

definition counts_agree :: "counts \<Rightarrow> step_line list \<Rightarrow> bool" where
  "counts_agree c steps \<longleftrightarrow>
     cn_steps c = tally (\<lambda>_. True) steps \<and>
     cn_replayed c = tally sl_replayed steps \<and>
     cn_done c = tally (\<lambda>l. sl_status l = SsDone) steps \<and>
     cn_blocked c = tally (\<lambda>l. sl_status l = SsBlocked) steps \<and>
     cn_failed c = tally (\<lambda>l. sl_status l = SsFailed) steps \<and>
     cn_cancelled c = tally (\<lambda>l. sl_status l = SsCancelled) steps \<and>
     cn_not_verified c = tally line_not_verified steps \<and>
     cn_invalid_output c = tally line_invalid_output steps"

definition record_ok :: "run_record \<Rightarrow> bool" where
  "record_ok r \<longleftrightarrow> length (rc_log r) \<le> log_lines \<and> counts_agree (rc_counts r) (rc_steps r) \<and>
     rc_steps_ended r = tally (\<lambda>_. True) (rc_steps r)"

definition report_ok :: "run_report \<Rightarrow> bool" where
  "report_ok report \<longleftrightarrow> counts_agree (rr_counts report) (rr_steps report)"

definition guarantee :: "'e run_env \<Rightarrow> action_rel" where
  "guarantee env s evs s' \<longleftrightarrow> advances s s' \<and> caps_kept env s evs s' \<and> journal_kept s evs s' \<and>
     replay_kept s evs s' \<and> cancel_kept s evs \<and> (record_ok (sh_record s) \<longrightarrow> record_ok (sh_record s'))"

lemma guarantee_same [simp]:
  "guarantee env s evs s \<longleftrightarrow> (lines_of evs = [] \<or> sh_journal_open s) \<and> cancel_kept s evs"
  if "spends_of evs = []" "takes_of evs = []"
  using that by (auto simp: guarantee_def caps_kept_def journal_kept_def replay_kept_def)

lemma cancel_kept_Nil [simp]: "cancel_kept s []"
  by (simp add: cancel_kept_def)

lemma cancel_kept_event [simp]:
  "cancel_kept s [e] \<longleftrightarrow> \<not> sh_cancelled s \<or> \<not> starts_turn e"
  "\<not> starts_turn (EvLine line)" "\<not> starts_turn (EvSpend wire)" "\<not> starts_turn (EvTaken entry)"
  "\<not> starts_turn (EvLog x)" "\<not> starts_turn (EvRefused x)" "\<not> starts_turn (EvStepEnded l)"
  "\<not> starts_turn (EvRelease info)" "\<not> starts_turn (EvStepStarted request worker)" "\<not> starts_turn (EvPhase x)"
  "\<not> starts_turn (EvFile op)" "\<not> starts_turn (EvRunEnded report)"
  by (simp_all add: cancel_kept_def starts_turn_def)

lemmas guarantee_defs = guarantee_def caps_kept_def journal_kept_def replay_kept_def

section \<open>Counting steps\<close>

lemma tally_Nil [simp]: "tally P [] = 0"
  by (simp add: tally_def)

lemma tally_snoc: "tally P (xs @ [x]) = (if P x then incr (tally P xs) else tally P xs)"
  by (simp add: tally_def wrapping_add32_def mod_Suc_eq)

lemma wrapping_add32_of_bool: "wrapping_add32 n (of_bool b) = (if b then incr n else n mod 2 ^ 32)"
  by (simp add: wrapping_add32_def)

lemma tally_mod [simp]: "tally P xs mod 2 ^ 32 = tally P xs" "tally P xs mod 4294967296 = tally P xs"
  by (simp_all add: tally_def)

lemma step_line_of_simps:
  "sl_status (step_line_of call line e replayed) = en_status e"
  "sl_replayed (step_line_of call line e replayed) = replayed"
  "line_not_verified (step_line_of call line e replayed) = is_not_verified e"
  "line_invalid_output (step_line_of call line e replayed) = is_invalid_output e"
  by (simp_all add: step_line_of_def line_not_verified_def is_not_verified_def line_invalid_output_def
      is_invalid_output_def)

lemma counts_agree_step:
  assumes "counts_agree c steps"
  shows "counts_agree (count_step e replayed cost c) (steps @ [step_line_of call line e replayed])"
  using assms
  by (cases "en_status e")
    (auto simp: counts_agree_def count_step_def count_status_def Let_def tally_snoc step_line_of_simps
      wrapping_add32_of_bool)

lemma record_ok_step:
  "record_ok r \<Longrightarrow> record_ok (record_step (step_line_of call line e replayed) e replayed cost r)"
  by (simp add: record_ok_def record_step_def counts_agree_step tally_snoc)

lemma record_ok_log: "record_ok r \<Longrightarrow> record_ok (push_log line r)"
  by (auto simp: record_ok_def push_log_def log_lines_def)

lemma record_ok_other [simp]:
  "record_ok (r\<lparr>rc_phase := phase\<rparr>) = record_ok r"
  "record_ok (r\<lparr>rc_steps_started := n\<rparr>) = record_ok r"
  by (simp_all add: record_ok_def)

lemma guarantee_updates [simp]:
  "guarantee env s [] (s\<lparr>sh_record := r\<rparr>) \<longleftrightarrow> (record_ok (sh_record s) \<longrightarrow> record_ok r)"
  "guarantee env s [] (s\<lparr>sh_calls := n\<rparr>)"
  "guarantee env s [] (s\<lparr>sh_report := x\<rparr>)"
  "guarantee env s [] (s\<lparr>sh_journal_open := False\<rparr>)"
  "guarantee env s [] (s\<lparr>sh_journal_error := Some e\<rparr>)"
  "guarantee env s [] (s\<lparr>sh_cancelled := True\<rparr>)"
  by (auto simp: guarantee_defs advances_def)

lemma guarantee_log: "guarantee env s [EvLog text] (s\<lparr>sh_record := push_log text (sh_record s)\<rparr>)"
  by (auto simp: guarantee_defs advances_def record_ok_log)

lemma latch_off_taken [simp]: "ry_taken (latch_off r) = ry_taken r"
  by (simp add: latch_off_def)

lemma guarantee_latch:
  "guarantee env s [] (s\<lparr>sh_replay := latch_off (sh_replay s)\<rparr>)"
  "guarantee env s [EvRefused error] (s\<lparr>sh_replay := latch_off (sh_replay s)\<rparr>)"
  by (simp_all add: guarantee_defs advances_def)

lemma guarantee_append: "append_line line i s = (evs, x, s') \<Longrightarrow> guarantee env s evs s'"
  by (auto simp: append_line_def split: if_splits option.splits)

lemma guarantee_take:
  assumes "take_entry entry call (sh_replay s) = (taken, r)"
  shows "guarantee env s (case taken of None \<Rightarrow> [] | Some _ \<Rightarrow> [EvTaken entry]) (s\<lparr>sh_replay := r\<rparr>)"
proof -
  have "replay_kept s (case taken of None \<Rightarrow> [] | Some _ \<Rightarrow> [EvTaken entry]) (s\<lparr>sh_replay := r\<rparr>)"
    using assms by (auto simp: replay_kept_def take_entry_def Let_def split: option.splits if_splits prod.splits)
  moreover have "advances s (s\<lparr>sh_replay := r\<rparr>)"
    by (rule advances_replay [OF advances_refl take_entry_advances [OF assms]])
  ultimately show ?thesis
    by (auto simp: guarantee_def caps_kept_def journal_kept_def split: option.split)
qed

lemma used_count_update: "used_count (used(w \<mapsto> n)) v = (if v = w then n else used_count used v)"
  by (simp add: used_count_def)

lemma guarantee_spend:
  assumes "try_spend (rn_caps env) wire (sh_used s) = (result, used)"
  shows "guarantee env s (case result of Inr _ \<Rightarrow> [EvSpend wire] | Inl _ \<Rightarrow> []) (s\<lparr>sh_used := used\<rparr>)"
proof -
  let ?evs = "case result of Inr _ \<Rightarrow> [EvSpend wire] | Inl _ \<Rightarrow> []"
  have "caps_kept env s ?evs (s\<lparr>sh_used := used\<rparr>)"
    using assms by (auto simp: caps_kept_def try_spend_def used_count_update Let_def incr_small wrapping_add32_def
        split: option.splits if_splits)
  then show ?thesis
    by (auto simp: guarantee_def journal_kept_def replay_kept_def split: sum.split)
qed

section \<open>The functions of the engine keep it\<close>

abbreviation guarded :: "'e run_env \<Rightarrow> ('e, 'r) prog \<Rightarrow> bool" where
  "guarded env \<equiv> acts (guarantee env)"

lemma acts_read [acts_intros]:
  assumes "\<And>x. guarded env (k x)"
  shows "guarded env (locked (\<lambda>i s. ([], f i s, s)) k)"
  using assms by (auto intro: acts_locked)

lemma acts_quiet_event:
  assumes "guarded env (k ())" "spends_of [e] = []" "takes_of [e] = []" "lines_of [e] = []" "\<not> starts_turn e"
  shows "guarded env (locked (\<lambda>i s. ([e], (), s)) k)"
  using assms by (intro acts_locked) auto

lemma acts_log_line [acts_intros]: "guarded env (k ()) \<Longrightarrow> guarded env (log_line line k)"
  unfolding log_line_def by (rule acts_locked) (auto intro: guarantee_log)

lemma acts_set [acts_intros]:
  "guarded env (k ()) \<Longrightarrow> guarded env (locked (\<lambda>i s. ([], (), s\<lparr>sh_journal_error := Some e\<rparr>)) k)"
  "guarded env (k ()) \<Longrightarrow> guarded env (locked (\<lambda>i s. ([], (), s\<lparr>sh_journal_open := False\<rparr>)) k)"
  "guarded env (k ()) \<Longrightarrow> guarded env (locked (\<lambda>i s. ([], (), s\<lparr>sh_report := x\<rparr>)) k)"
  "guarded env (k ()) \<Longrightarrow> guarded env (locked (\<lambda>i s. ([], (), s\<lparr>sh_replay := latch_off (sh_replay s)\<rparr>)) k)"
  "guarded env (k ()) \<Longrightarrow>
     guarded env (locked (\<lambda>i s. ([EvRefused e'], (), s\<lparr>sh_replay := latch_off (sh_replay s)\<rparr>)) k)"
  by (auto intro!: acts_locked simp: guarantee_latch)

lemma acts_write_line [acts_intros]:
  assumes "\<And>written. guarded env (k written)"
  shows "guarded env (write_line line k)"
proof -
  have "guarded env (case result of Inr _ \<Rightarrow> k True | Inl error \<Rightarrow>
      let message = lit ''journal write failed: '' @ error in
      locked (\<lambda>i s. ([], (), s\<lparr>sh_journal_error := Some message\<rparr>)) (\<lambda>_. log_line message (\<lambda>_. k False)))"
    for result :: "ustring + unit"
    using assms by (auto simp: Let_def intro!: acts_intros split: sum.split)
  then show ?thesis
    unfolding write_line_def using assms
    by (auto intro!: acts_read acts_locked [where f = "append_line line"] dest: guarantee_append)
qed

lemma acts_set_phase [acts_intros]: "guarded env (k ()) \<Longrightarrow> guarded env (set_phase name k)"
  unfolding set_phase_def Let_def
  by (rule acts_locked) (auto intro!: acts_intros acts_quiet_event)

lemma acts_cancellable [acts_intros]:
  assumes "\<And>x. guarded env (k x)" "spends_of [start] = []" "takes_of [start] = []" "lines_of [start] = []"
  shows "guarded env (cancellable start outcome k)"
  unfolding cancellable_def using assms by (auto intro!: acts_Act split: if_splits)

lemma acts_conclude [acts_intros]:
  assumes "\<And>r. guarded env (k r)"
  shows "guarded env (conclude call line envelope replayed cost k)"
proof -
  let ?e = "redact_envelope envelope"
  let ?line = "step_line_of call line ?e replayed"
  have "guarded env (locked (\<lambda>i s. ([], (), s\<lparr>sh_record := record_step ?line ?e replayed cost (sh_record s)\<rparr>))
      (\<lambda>_. locked (\<lambda>i s. ([EvStepEnded ?line], (), s)) (\<lambda>_. k (StepOk ?e))))"
    using assms by (intro acts_locked) (auto simp: record_ok_step intro!: acts_quiet_event)
  with assms show ?thesis
    unfolding conclude_def Let_def by (auto intro!: acts_write_line)
qed

lemma acts_settle_hold [acts_intros]:
  assumes "\<And>e. guarded env (k e)"
  shows "guarded env (settle_hold hold envelope k)"
  unfolding settle_hold_def Let_def using assms
  by (auto intro!: acts_intros acts_quiet_event split: option.split sum.split)

lemma acts_finish_step [acts_intros]:
  assumes "\<And>r. guarded env (k r)"
  shows "guarded env (finish_step call line envelope cost hold k)"
  unfolding finish_step_def using assms
  by (auto intro!: acts_intros split: step_result.split)

lemma acts_refuse_step [acts_intros]:
  assumes "\<And>r. guarded env (k r)"
  shows "guarded env (refuse_step c progress work error k)"
  unfolding refuse_step_def Let_def using assms by (auto intro!: acts_intros)

lemma acts_spend [acts_intros]:
  assumes "\<And>attempt progress. guarded env (k attempt progress)"
  shows "guarded env (spend env request opts attempt progress k)"
proof -
  have "guarded env (case result of
      Inl (used, limit) \<Rightarrow> write_line (JlCapped (sq_call request) wire used limit) (\<lambda>written.
        if \<not> written then k (Some (AtJournalFailed (lit ''journal cap write failed''))) progress
        else k (Some (AtCapped wire used limit))
          (progress\<lparr>sp_cost := (sp_cost progress)\<lparr>ct_capped := incr (ct_capped (sp_cost progress))\<rparr>\<rparr>))
    | Inr _ \<Rightarrow> write_line (dispatch_line request opts attempt) (\<lambda>written.
        if \<not> written then k (Some (AtJournalFailed (lit ''journal dispatch write failed''))) progress
        else k None progress))" for result :: "nat \<times> nat + unit" and wire
    using assms by (auto intro!: acts_intros split: sum.split)
  then show ?thesis
    unfolding spend_def Let_def
    by (intro acts_locked) (auto split: prod.splits dest: guarantee_spend)
qed

lemma acts_run_link [acts_intros]:
  assumes "\<And>attempt progress work. guarded env (k attempt progress work)"
  shows "guarded env (run_link request progress work k)"
  unfolding run_link_def Let_def using assms
  by (auto intro!: acts_intros acts_quiet_event split: option.split sum.split)

lemma acts_prepare_phase [acts_intros]:
  assumes "\<And>work. guarded env (k work)"
  shows "guarded env (prepare_phase c work k)"
  unfolding prepare_phase_def using assms by (auto intro!: acts_intros split: option.split)

lemma acts_prepare_work [acts_intros]:
  assumes "\<And>attempt work. guarded env (k attempt work)"
  shows "guarded env (prepare_work env c role tools progress work k)"
  unfolding prepare_work_def using assms
  by (auto intro!: acts_intros split: option.split list.split sum.split)

lemma acts_journal_hop [acts_intros]:
  assumes "\<And>attempt progress. guarded env (k attempt progress)"
  shows "guarded env (journal_hop c model progress k)"
  unfolding journal_hop_def using assms by (auto intro!: acts_intros)

lemma acts_dispatch [acts_intros]:
  assumes "\<And>attempt progress work. guarded env (k attempt progress work)"
  shows "guarded env (dispatch env c role tools link model progress work k)"
proof -
  have "guarded env (start_link env c tools link model progress work k)" for progress work
    unfolding start_link_def Let_def using assms by (auto intro!: acts_intros split: option.split)
  with assms show ?thesis
    unfolding dispatch_def by (auto intro!: acts_intros split: option.split)
qed

lemma acts_repair_link [acts_intros]:
  assumes "\<And>attempt progress. guarded env (k attempt progress)"
  shows "guarded env (repair_link env c request worker message progress k)"
  unfolding repair_link_def Let_def using assms
  by (auto intro!: acts_intros split: option.split sum.split)

lemma acts_latch_if [acts_intros]: "guarded env (k ()) \<Longrightarrow> guarded env (latch_if latch k)"
  unfolding latch_if_def by (auto intro!: acts_intros)

lemma acts_apply_action [acts_intros]:
  assumes "\<And>progress work ask. guarded env (again progress work ask)" "\<And>r. guarded env (k r)"
  shows "guarded env (apply_action env c progress work ask action again k)"
proof (cases action)
  case (AcReplay entry)
  have "guarded env (case taken of
      None \<Rightarrow> again progress work ask
    | Some (envelope, from) \<Rightarrow> write_line (JlReplayed (sc_call c) from) (\<lambda>written.
        if \<not> written then k (StepScriptError (lit ''journal replay write failed''))
        else conclude (sc_call c) (sc_line c) envelope True no_cost k))" for taken :: "(step_envelope \<times> run_id) option"
    using assms by (auto intro!: acts_intros split: option.split)
  then show ?thesis
    unfolding apply_action_def AcReplay action.case
    by (intro acts_locked) (auto split: prod.splits dest: guarantee_take)
qed (use assms in \<open>auto simp: apply_action_def intro!: acts_intros split: option.split\<close>)

lemma acts_step_loop [acts_intros]:
  assumes "\<And>r. guarded env (k r)"
  shows "guarded env (step_loop n env c progress work ask k)"
proof (induction n arbitrary: progress work ask)
  case (Suc n)
  with assms show ?case by (auto intro!: acts_intros split: option.split sum.split)
qed (use assms in simp)

lemma acts_agent [acts_intros]:
  assumes "\<And>r. guarded env (k r)"
  shows "guarded env (script_agent n env prompt opts k)"
proof -
  have "guarded env (locked (\<lambda>i s. ([], incr (sh_calls s), s\<lparr>sh_calls := incr (sh_calls s)\<rparr>))
      (\<lambda>number. step_loop n env (step_call_of env prompt o' call number) (fresh_progress number) fresh_work AskPlan k))"
    for o' call
    using assms by (intro acts_locked) (auto intro!: acts_intros)
  then have "guarded env (workflow_step n env prompt o' call k)" for o' call
    unfolding workflow_step_def by (intro acts_locked) auto
  with assms show ?thesis
    unfolding script_agent_def by (auto intro!: acts_intros split: sum.split)
qed

lemma acts_file_action [acts_intros]:
  assumes "\<And>failure. guarded env (k failure)"
  shows "guarded env (file_action op k)"
  unfolding file_action_def using assms by (intro acts_locked) (auto split: option.splits)

lemma acts_log_failure [acts_intros]: "guarded env (k ()) \<Longrightarrow> guarded env (log_failure what failure k)"
  unfolding log_failure_def by (auto intro!: acts_intros split: option.split)

lemma acts_publish_report [acts_intros]:
  assumes "\<And>published report. guarded env (k published report)"
  shows "guarded env (publish_report report k)"
  unfolding publish_report_def Let_def using assms by (auto intro!: acts_intros split: option.split)

lemma acts_commit_report [acts_intros]:
  assumes "\<And>report. guarded env (k report)"
  shows "guarded env (commit_report published report k)"
  unfolding commit_report_def roll_back_def using assms by (auto intro!: acts_intros)

lemma acts_execute [acts_intros]:
  assumes "\<And>report. guarded env (k report)"
  shows "guarded env (execute env script k)"
  unfolding execute_def end_run_def using assms
  by (auto intro!: acts_intros acts_quiet_event split: prod.split)

end
