(* ===== verification/WorkflowRun.thy ===== *)
theory WorkflowRun
  imports WorkflowGuarantee
begin

text \<open>
  A workflow run: the operations its script calls, each a program of its own, acting against each
  other in any order (\<open>run_step\<close>), the cancellation of the run, and its end after the script's threads were
  joined. \<open>reachable\<close> are the states of a run that starts with a replay prefix and charges. The
  invariant \<open>run_inv\<close> holds in each of them: every operation under way keeps its contract, whatever
  the others do, and every action keeps the guarantee.
\<close>

section \<open>The states and steps of a run\<close>

datatype operation = OpAgent ustring script_opts | OpPhase ustring | OpLog ustring | OpEnd script_end

datatype op_result = OrStep step_result | OrUnit | OrReport run_report

definition operation_prog :: "nat \<Rightarrow> 'e run_env \<Rightarrow> operation \<Rightarrow> ('e, op_result) prog" where
  "operation_prog n env op =
     (case op of
       OpAgent prompt opts \<Rightarrow> script_agent n env prompt opts (\<lambda>r. Return (OrStep r))
     | OpPhase name \<Rightarrow> set_phase name (\<lambda>_. Return OrUnit)
     | OpLog line \<Rightarrow> log_line line (\<lambda>_. Return OrUnit)
     | OpEnd script \<Rightarrow> execute env script (\<lambda>report. Return (OrReport report)))"

text \<open>The fuel that is enough for an operation: only a step has a loop.\<close>

definition operation_fuel :: "'e run_env \<Rightarrow> operation \<Rightarrow> replay \<Rightarrow> nat" where
  "operation_fuel env op r = (case op of OpAgent _ opts \<Rightarrow> agent_fuel env opts r | _ \<Rightarrow> 0)"

record 'e run =
  ru_shared :: shared
  ru_ops :: "(operation \<times> ('e, op_result) prog) list"
  ru_trace :: "(nat \<times> event) list"

definition empty_record :: run_record where
  "empty_record = \<lparr>rc_phase = None, rc_steps_started = 0, rc_steps_ended = 0, rc_log = [],
     rc_counts = no_counts, rc_steps = []\<rparr>"

definition start_run :: "replay \<Rightarrow> (ustring \<rightharpoonup> nat) \<Rightarrow> 'e run" where
  "start_run replay charges = \<lparr>ru_shared = \<lparr>sh_journal_open = True, sh_journal_error = None,
     sh_replay = replay, sh_used = charges, sh_calls = 0, sh_cancelled = False, sh_record = empty_record,
     sh_report = None\<rparr>, ru_ops = [], ru_trace = []\<rparr>"

fun is_end :: "operation \<Rightarrow> bool" where
  "is_end (OpEnd _) \<longleftrightarrow> True"
| "is_end _ \<longleftrightarrow> False"

fun returned :: "('e, 'r) prog \<Rightarrow> bool" where
  "returned (Return _) \<longleftrightarrow> True"
| "returned (Act _) \<longleftrightarrow> False"

definition ended :: "'e run \<Rightarrow> bool" where
  "ended p \<longleftrightarrow> list_ex (is_end \<circ> fst) (ru_ops p)"

definition add_op :: "operation \<times> ('e, op_result) prog \<Rightarrow> 'e run \<Rightarrow> 'e run" where
  "add_op op p = p\<lparr>ru_ops := ru_ops p @ [op]\<rparr>"

definition take_action :: "nat \<Rightarrow> event list \<times> shared \<times> ('e, op_result) prog \<Rightarrow> 'e run \<Rightarrow> 'e run" where
  "take_action i outcome p = (case outcome of (evs, s, prog) \<Rightarrow>
     p\<lparr>ru_shared := s, ru_ops := (ru_ops p)[i := (fst (ru_ops p ! i), prog)],
       ru_trace := ru_trace p @ map (Pair i) evs\<rparr>)"

inductive run_step :: "'e run_env \<Rightarrow> 'e run \<Rightarrow> 'e run \<Rightarrow> bool" for env where
  run_call: "\<not> ended p \<Longrightarrow> \<not> is_end op \<Longrightarrow> operation_fuel env op (sh_replay (ru_shared p)) \<le> n \<Longrightarrow>
    run_step env p (add_op (op, operation_prog n env op) p)"
| run_end: "\<not> ended p \<Longrightarrow> list_all (returned \<circ> snd) (ru_ops p) \<Longrightarrow>
    run_step env p (add_op (OpEnd script, operation_prog 0 env (OpEnd script)) p)"
| run_act: "i < length (ru_ops p) \<Longrightarrow> snd (ru_ops p ! i) = Act g \<Longrightarrow>
    run_step env p (take_action i (g inp (ru_shared p)) p)"
| run_cancel: "run_step env p (p\<lparr>ru_shared := (ru_shared p)\<lparr>sh_cancelled := True\<rparr>\<rparr>)"

inductive_cases run_stepE: "run_step env p p'"

inductive reachable :: "'e run_env \<Rightarrow> replay \<Rightarrow> (ustring \<rightharpoonup> nat) \<Rightarrow> 'e run \<Rightarrow> bool" for env replay charges where
  reachable_start: "reachable env replay charges (start_run replay charges)"
| reachable_step: "reachable env replay charges p \<Longrightarrow> run_step env p p' \<Longrightarrow> reachable env replay charges p'"

text \<open>The events of one operation, and those of all.\<close>

definition own :: "nat \<Rightarrow> 'e run \<Rightarrow> event list" where
  "own i p = map snd (filter (\<lambda>(j, _). j = i) (ru_trace p))"

definition events :: "'e run \<Rightarrow> event list" where
  "events p = map snd (ru_trace p)"

section \<open>What every operation under way keeps\<close>

definition op_post :: "bool \<Rightarrow> 'e run_env \<Rightarrow> operation \<Rightarrow> op_result \<Rightarrow> event list \<Rightarrow> bool" where
  "op_post sound env op r es \<longleftrightarrow>
     (case op of
       OpAgent prompt opts \<Rightarrow> \<exists>r'. r = OrStep r' \<and> agent_post sound env prompt opts r' es
     | OpPhase name \<Rightarrow> no_step_events es \<and> list_all (\<lambda>l. \<not> end_of_run l) (lines_of es)
     | OpLog line \<Rightarrow> no_step_events es \<and> lines_of es = []
     | OpEnd _ \<Rightarrow> \<exists>report. r = OrReport report \<and> ended_well report es)"

definition run_inv :: "bool \<Rightarrow> 'e run_env \<Rightarrow> 'e run \<Rightarrow> bool" where
  "run_inv sound env p \<longleftrightarrow> replay_ok (sh_replay (ru_shared p)) \<and>
     (\<forall>(i, e) \<in> set (ru_trace p). i < length (ru_ops p)) \<and>
     (\<forall>i < length (ru_ops p). case ru_ops p ! i of (op, prog) \<Rightarrow>
        guarded env prog \<and> under_way (op_post sound env op) prog (own i p) (ru_shared p))"

text \<open>Decisions that keep the contract are refused in no run.\<close>

definition decisions_hold :: "bool \<Rightarrow> 'e run_env \<Rightarrow> bool" where
  "decisions_hold sound env \<longleftrightarrow>
     (sound \<longrightarrow> (\<forall>opts o' prompt. parse_options opts = Inr o' \<longrightarrow> unrefused env prompt o'))"

lemma run_invD:
  assumes "run_inv sound env p" "i < length (ru_ops p)" "ru_ops p ! i = (op, prog)"
  shows "guarded env prog" "under_way (op_post sound env op) prog (own i p) (ru_shared p)"
  using assms by (auto simp: run_inv_def)

lemma acts_operation: "guarded env (operation_prog n env op)"
  by (cases op) (auto simp: operation_prog_def intro!: acts_intros)

lemma under_way_operation:
  assumes "env_ok env" "replay_ok (sh_replay s)"
    and "decisions_hold sound env"
    and "operation_fuel env op (sh_replay s) \<le> n"
  shows "under_way (op_post sound env op) (operation_prog n env op) [] s"
proof (cases op)
  case (OpAgent prompt opts)
  with assms show ?thesis
    by (auto simp: operation_prog_def operation_fuel_def op_post_def decisions_hold_def
        intro!: under_way_agent holds_Return)
next
  case (OpPhase name)
  show ?thesis
    unfolding operation_prog_def OpPhase operation.case set_phase_def Let_def
    by (rule under_way_locked, unfold prod.case append_Nil2, rule under_way_write_line)
      (auto simp: op_post_def intro!: under_way_locked holds_Return)
next
  case (OpLog line)
  then show ?thesis
    by (auto simp: operation_prog_def op_post_def intro!: under_way_log_line holds_Return)
next
  case (OpEnd script)
  then show ?thesis
    by (auto simp: operation_prog_def op_post_def intro!: under_way_execute holds_Return)
qed

lemma add_op_simps [simp]: "ru_shared (add_op op p) = ru_shared p" "ru_ops (add_op op p) = ru_ops p @ [op]"
  "ru_trace (add_op op p) = ru_trace p"
  by (simp_all add: add_op_def)

lemma act_simps [simp]:
  "ru_shared (take_action i (evs, s, prog) p) = s"
  "ru_ops (take_action i (evs, s, prog) p) = (ru_ops p)[i := (fst (ru_ops p ! i), prog)]"
  "ru_trace (take_action i (evs, s, prog) p) = ru_trace p @ map (Pair i) evs"
  by (simp_all add: take_action_def)

lemma own_take_action: "own j (take_action i (evs, s, prog) p) = own j p @ (if j = i then evs else [])"
  by (auto simp: own_def take_action_def filter_map comp_def)

lemma own_other [simp]: "own i (add_op op p) = own i p" "own i (p\<lparr>ru_shared := s\<rparr>) = own i p"
  by (simp_all add: own_def add_op_def)

lemma events_simps [simp]: "events (add_op op p) = events p" "events (p\<lparr>ru_shared := s\<rparr>) = events p"
  "events (take_action i (evs, s, prog) p) = events p @ evs" "events (start_run replay charges) = []"
  by (simp_all add: events_def add_op_def take_action_def comp_def start_run_def)

lemma own_unborn:
  assumes "run_inv sound env p"
  shows "own (length (ru_ops p)) p = []"
  using assms by (auto simp: run_inv_def own_def filter_empty_conv)

lemma start_run_simps [simp]: "ru_ops (start_run replay charges) = []" "ru_trace (start_run replay charges) = []"
  "sh_replay (ru_shared (start_run replay charges)) = replay"
  by (simp_all add: start_run_def)

lemma run_inv_start: "replay_ok replay \<Longrightarrow> run_inv sound env (start_run replay charges)"
  by (simp add: run_inv_def)

lemma run_inv_add:
  assumes inv: "run_inv sound env p"
    and new: "guarded env prog" "under_way (op_post sound env op) prog [] (ru_shared p)"
  shows "run_inv sound env (add_op (op, prog) p)"
  using inv new own_unborn [OF inv]
  by (auto simp: run_inv_def add_op_def nth_append less_Suc_eq own_def split: prod.splits) 

lemma run_inv_act:
  assumes inv: "run_inv sound env p" and i: "i < length (ru_ops p)" "snd (ru_ops p ! i) = Act g"
    and g: "g inp (ru_shared p) = (evs, s, prog)"
  shows "run_inv sound env (take_action i (evs, s, prog) p)" "guarantee env (ru_shared p) evs s"
proof -
  obtain op where op: "ru_ops p ! i = (op, Act g)" using i(2) by (metis prod.collapse)
  have mine: "guarded env (Act g)" "under_way (op_post sound env op) (Act g) (own i p) (ru_shared p)"
    using run_invD [OF inv i(1) op] by simp_all
  from acts_ActD [OF mine(1) g] have kept: "guarantee env (ru_shared p) evs s" "guarded env prog"
    by simp_all
  then show "guarantee env (ru_shared p) evs s" by simp
  have later: "advances (ru_shared p) s" using kept(1) by (simp add: guarantee_def)
  have next_op: "under_way (op_post sound env op) prog (own i p @ evs) s"
    by (rule holds_step [OF mine(2) advances_refl g])
  have other: "guarded env q \<and> under_way (op_post sound env op') q (own j p) s"
    if "j < length (ru_ops p)" "ru_ops p ! j = (op', q)" for j op' q
    using run_invD [OF inv that] later by (auto intro: under_way_later)
  have "replay_ok (sh_replay s)"
    using inv later by (auto simp: run_inv_def advances_def intro: replay_ok_advances)
  moreover have "\<forall>(j, e) \<in> set (ru_trace (take_action i (evs, s, prog) p)). j < length (ru_ops p)"
    using inv i(1) by (auto simp: run_inv_def)
  ultimately show "run_inv sound env (take_action i (evs, s, prog) p)"
    using next_op kept(2) other i(1) op
    by (auto simp: run_inv_def own_take_action nth_list_update split: prod.splits)
qed

lemma run_inv_step:
  assumes inv: "run_inv sound env p" and env: "env_ok env" "decisions_hold sound env"
    and step: "run_step env p p'"
  shows "run_inv sound env p'"
  using step
proof (cases rule: run_step.cases)
  case (run_call op n)
  then show ?thesis
    using inv env
    by (auto simp: run_inv_def [of _ _ p] intro!: run_inv_add acts_operation under_way_operation)
next
  case (run_end script)
  then show ?thesis
    using inv env
    by (auto simp: operation_fuel_def run_inv_def [of _ _ p]
        intro!: run_inv_add acts_operation under_way_operation)
next
  case (run_act i g inp)
  obtain evs s prog where g: "g inp (ru_shared p) = (evs, s, prog)" by (metis prod_cases3)
  show ?thesis unfolding run_act(1) g by (rule run_inv_act(1) [OF inv run_act(2,3) g])
next
  case run_cancel
  have "advances (ru_shared p) ((ru_shared p)\<lparr>sh_cancelled := True\<rparr>)" by (simp add: advances_def)
  then show ?thesis
    unfolding run_cancel using inv
    by (auto simp: run_inv_def own_def split: prod.splits intro: under_way_later)
qed

lemma reachable_inv:
  assumes "reachable env replay charges p" "env_ok env" "replay_ok replay" "decisions_hold sound env"
  shows "run_inv sound env p"
  using assms(1) by induction (auto intro: run_inv_start run_inv_step assms(2-))

text \<open>A property of the shared state and the events so far that every action keeps under the guarantee.\<close>

lemma reachable_induct_shared:
  fixes p :: "'e run"
  assumes reach: "reachable env replay charges p" and env: "env_ok env" "replay_ok replay"
    and start: "P (ru_shared (start_run replay charges :: 'e run)) []"
    and kept: "\<And>s es evs s'. P s es \<Longrightarrow> guarantee env s evs s' \<Longrightarrow> P s' (es @ evs)"
  shows "P (ru_shared p) (events p)"
  using reach
proof induction
  case reachable_start
  then show ?case using start by simp
next
  case (reachable_step p p')
  note inv = reachable_inv [OF reachable_step.hyps(1) env, of False]
  from reachable_step.hyps(2) show ?case
  proof (cases rule: run_step.cases)
    case (run_act i g inp)
    obtain evs s prog where g: "g inp (ru_shared p) = (evs, s, prog)" by (metis prod_cases3)
    have "guarantee env (ru_shared p) evs s"
      by (rule run_inv_act(2) [OF inv run_act(2,3) g]) (simp add: decisions_hold_def)
    with reachable_step.IH show ?thesis unfolding run_act(1) g by (auto intro: kept)
  next
    case run_cancel
    from kept [OF reachable_step.IH, of "[]" "(ru_shared p)\<lparr>sh_cancelled := True\<rparr>"] show ?thesis
      unfolding run_cancel by simp
  qed (use reachable_step.IH in simp_all)
qed

end
