(* ===== verification/WorkflowSafety.thy ===== *)
theory WorkflowSafety
  imports WorkflowRun
begin

text \<open>
  What holds in every state a workflow run can reach, whatever the script calls, the runner answers
  and the scheduler interleaves: the order of a step's events, the caps, the replay prefix, the
  journal and its last line, the counts, cancellation, and that native decisions are never refused.
\<close>

section \<open>From one operation to the run\<close>

lemma run_op_completes:
  assumes "run_inv sound env p" "i < length (ru_ops p)"
  shows "\<exists>r rest. op_post sound env (fst (ru_ops p ! i)) r (own i p @ rest)"
proof -
  obtain op prog where op: "ru_ops p ! i = (op, prog)" by fastforce
  from holds_completes [OF run_invD(2) [OF assms op] advances_refl] op show ?thesis by auto
qed

text \<open>Counting the events of a run operation by operation.\<close>

lemma sum_over_operations:
  fixes weight :: "event list \<Rightarrow> nat" and n :: nat
  assumes "\<forall>(i, e) \<in> set tr. i < n" and weight: "weight [] = 0" "\<And>a b. weight (a @ b) = weight a + weight b"
  shows "weight (map snd tr) = (\<Sum>i<n. weight (map snd (filter (\<lambda>(j, _). j = i) tr)))"
  using assms(1)
proof (induction tr)
  case (Cons x tr)
  obtain j e where x: "x = (j, e)" by (cases x)
  have split: "weight (e # es) = weight [e] + weight es" for es
    using weight(2) [of "[e]" es] by simp
  have "weight (map snd (filter (\<lambda>(k, _). k = i) (x # tr))) =
      weight (map snd (filter (\<lambda>(k, _). k = i) tr)) + (if i = j then weight [e] else 0)" for i
    using split [of "map snd (filter (\<lambda>(k, _). k = i) tr)"] by (auto simp: x)
  moreover have "weight (map snd (x # tr)) = weight (map snd tr) + weight [e]"
    by (simp add: x split [of "map snd tr"])
  moreover have "j < n" "\<forall>(i, e) \<in> set tr. i < n"
    using Cons.prems by (simp_all add: x)
  moreover from this have "(\<Sum>i<n. if i = j then weight [e] else 0) = weight [e]"
    by (subst sum.delta) auto
  ultimately show ?case
    using Cons.IH by (simp only: sum.distrib)
qed (simp add: weight(1))

lemma weight_of_run:
  fixes weight :: "event list \<Rightarrow> nat"
  assumes "run_inv sound env p" and weight: "weight [] = 0" "\<And>a b. weight (a @ b) = weight a + weight b"
  shows "weight (events p) = (\<Sum>i<length (ru_ops p). weight (own i p))"
  unfolding events_def own_def
  by (rule sum_over_operations [OF _ weight]) (use assms(1) in \<open>simp add: run_inv_def\<close>)

definition replays_of :: "event list \<Rightarrow> journal_line list" where
  "replays_of es = filter is_replayed (lines_of es)"

lemma replays_of_simps [simp]: "replays_of [] = []" "replays_of (a @ b) = replays_of a @ replays_of b"
  by (simp_all add: replays_of_def)

lemma replays_of_none: "replays_of es = [] \<longleftrightarrow> \<not> has_replayed es"
  by (auto simp: replays_of_def has_replayed_def filter_empty_conv list_ex_iff)

text \<open>What the order of a step's events says of their numbers.\<close>

lemma orderly_numbers:
  assumes "orderly c es"
  shows "count_list (dispatches_of es) wire \<le> count_list (spends_of es) wire \<and>
    length (replays_of es) \<le> of_bool (takes_of es \<noteq> []) \<and> length (takes_of es) \<le> 1"
  using assms
proof (induction es rule: rev_induct)
  case (snoc e es)
  then have IH: "count_list (dispatches_of es) wire \<le> count_list (spends_of es) wire"
      "length (replays_of es) \<le> of_bool (takes_of es \<noteq> [])" "length (takes_of es) \<le> 1"
    and ok: "own_ok c es e"
    by simp_all
  show ?case
  proof (cases e)
    case (EvLine l)
    with ok have line: "own_line_ok c es l" by simp
    show ?thesis
    proof (cases l)
      case (JlReplayed call origin)
      with line have "replays_of es = []" "takes_of es \<noteq> []" by (simp_all add: replays_of_none)
      with IH EvLine JlReplayed show ?thesis by (simp add: replays_of_def)
    next
      case (JlDispatch call label role model wire' attempt prompt opts)
      with line IH EvLine show ?thesis by (auto simp: replays_of_def)
    qed (use IH EvLine in \<open>simp_all add: replays_of_def\<close>)
  qed (use IH ok in \<open>auto simp: replays_of_def\<close>)
qed simp

lemma agent_post_so_far:
  assumes "agent_post sound env prompt opts r (es @ rest)"
  shows "es = [] \<or> (\<exists>o' number. parse_options opts = Inr o' \<and>
    orderly (step_call_of env prompt o' (agent_call env prompt o') number) es \<and> (sound \<longrightarrow> \<not> any_refused es))"
proof (cases "parse_options opts")
  case (Inr o')
  with assms show ?thesis
    unfolding agent_post_def step_post_def by (auto dest: orderly_prefix)
qed (use assms in \<open>simp add: agent_post_def\<close>)

lemma own_numbers:
  assumes inv: "run_inv sound env p" and i: "i < length (ru_ops p)"
  shows "count_list (dispatches_of (own i p)) wire \<le> count_list (spends_of (own i p)) wire"
    "length (replays_of (own i p)) \<le> length (takes_of (own i p))"
    "sound \<Longrightarrow> \<not> any_refused (own i p)"
proof -
  obtain r rest where post: "op_post sound env (fst (ru_ops p ! i)) r (own i p @ rest)"
    using run_op_completes [OF inv i] by blast
  have "(\<exists>c. orderly c (own i p)) \<and> (sound \<longrightarrow> \<not> any_refused (own i p)) \<or> no_step_events (own i p)"
  proof (cases "fst (ru_ops p ! i)")
    case (OpAgent prompt opts)
    with post show ?thesis
      by (auto simp: op_post_def dest!: agent_post_so_far)
  qed (use post in \<open>auto simp: op_post_def ended_well_def\<close>)
  then have "count_list (dispatches_of (own i p)) wire \<le> count_list (spends_of (own i p)) wire \<and>
    length (replays_of (own i p)) \<le> length (takes_of (own i p)) \<and> (sound \<longrightarrow> \<not> any_refused (own i p))"
  proof (elim disjE exE conjE)
    fix c
    assume "orderly c (own i p)" "sound \<longrightarrow> \<not> any_refused (own i p)"
    with orderly_numbers [OF this(1), of wire] show ?thesis
      by (cases "takes_of (own i p)") auto
  next
    assume "no_step_events (own i p)"
    then show ?thesis
      using no_step_eventsD [of "own i p"] by (simp add: no_step_events_def replays_of_none [symmetric])
  qed
  then show "count_list (dispatches_of (own i p)) wire \<le> count_list (spends_of (own i p)) wire"
    "length (replays_of (own i p)) \<le> length (takes_of (own i p))" "sound \<Longrightarrow> \<not> any_refused (own i p)"
    by blast+
qed

lemma run_numbers:
  assumes inv: "run_inv sound env p"
  shows "count_list (dispatches_of (events p)) wire \<le> count_list (spends_of (events p)) wire"
    "length (replays_of (events p)) \<le> length (takes_of (events p))"
proof -
  note sums = weight_of_run [OF inv]
  have "count_list (dispatches_of (events p)) wire =
      (\<Sum>i<length (ru_ops p). count_list (dispatches_of (own i p)) wire)"
    by (rule sums) simp_all
  also have "\<dots> \<le> (\<Sum>i<length (ru_ops p). count_list (spends_of (own i p)) wire)"
    by (rule sum_mono) (simp add: own_numbers [OF inv])
  also have "\<dots> = count_list (spends_of (events p)) wire"
    by (rule sums [symmetric]) simp_all
  finally show "count_list (dispatches_of (events p)) wire \<le> count_list (spends_of (events p)) wire" .
  have "length (replays_of (events p)) = (\<Sum>i<length (ru_ops p). length (replays_of (own i p)))"
    by (rule sums) simp_all
  also have "\<dots> \<le> (\<Sum>i<length (ru_ops p). length (takes_of (own i p)))"
    by (rule sum_mono) (simp add: own_numbers [OF inv])
  also have "\<dots> = length (takes_of (events p))"
    by (rule sums [symmetric]) simp_all
  finally show "length (replays_of (events p)) \<le> length (takes_of (events p))" .
qed

section \<open>Facts about reachable states\<close>

lemma reachable_inv_any:
  assumes "reachable env replay charges p" "env_ok env" "replay_ok replay"
  shows "run_inv False env p"
  using reachable_inv [OF assms] by (simp add: decisions_hold_def)

lemma reachable_inv_native:
  assumes "reachable env replay charges p" "env_ok env" "replay_ok replay" "rn_decisions env = native_decisions"
  shows "run_inv True env p"
  using reachable_inv [OF assms(1-3)] native.sound_agent [OF assms(2,4)] by (simp add: decisions_hold_def)

lemma reachable_caps:
  assumes reach: "reachable env replay charges p" "env_ok env" "replay_ok replay"
    and limit: "rn_caps env wire = Some limit" "limit < 2 ^ 32"
  shows "used_count (sh_used (ru_shared p)) wire = used_count charges wire + count_list (spends_of (events p)) wire \<and>
    used_count (sh_used (ru_shared p)) wire \<le> max limit (used_count charges wire)"
proof (rule reachable_induct_shared [OF reach,
    where P = "\<lambda>s es. used_count (sh_used s) wire = used_count charges wire + count_list (spends_of es) wire \<and>
      used_count (sh_used s) wire \<le> max limit (used_count charges wire)"], goal_cases)
  case 1
  show ?case by (simp add: start_run_def)
next
  case (2 s es evs s')
  then have "used_count (sh_used s') wire = used_count (sh_used s) wire + count_list (spends_of evs) wire"
    "spends_of evs = [] \<or> used_count (sh_used s') wire \<le> max limit (used_count (sh_used s) wire)"
    using limit unfolding guarantee_def caps_kept_def by blast+
  with 2(1) show ?case by auto
qed

lemma reachable_replay:
  assumes reach: "reachable env replay charges p" "env_ok env" "replay_ok replay"
    and fresh: "ry_taken replay = replicate (length (ry_entries replay)) False"
  shows "distinct (takes_of (events p)) \<and>
    (\<forall>entry < length (ry_entries replay). ry_taken (sh_replay (ru_shared p)) ! entry \<longleftrightarrow> entry \<in> set (takes_of (events p))) \<and>
    set (takes_of (events p)) \<subseteq> {..<length (ry_entries replay)} \<and>
    ry_entries (sh_replay (ru_shared p)) = ry_entries replay \<and>
    length (ry_taken (sh_replay (ru_shared p))) = length (ry_entries replay)"
proof (rule reachable_induct_shared [OF reach,
    where P = "\<lambda>s es. distinct (takes_of es) \<and>
      (\<forall>entry < length (ry_entries replay). ry_taken (sh_replay s) ! entry \<longleftrightarrow> entry \<in> set (takes_of es)) \<and>
      set (takes_of es) \<subseteq> {..<length (ry_entries replay)} \<and> ry_entries (sh_replay s) = ry_entries replay \<and>
      length (ry_taken (sh_replay s)) = length (ry_entries replay)"], goal_cases)
  case 1
  show ?case using fresh by (simp add: start_run_def)
next
  case (2 s es evs s')
  have "ry_entries (sh_replay s') = ry_entries (sh_replay s)"
    using 2(2) by (simp add: guarantee_def advances_def replay_advances_def)
  moreover have "replay_kept s evs s'" using 2(2) by (simp add: guarantee_def)
  ultimately show ?case
    using 2(1) unfolding replay_kept_def by (auto simp: nth_list_update)
qed

lemma reachable_record:
  assumes "reachable env replay charges p" "env_ok env" "replay_ok replay"
  shows "record_ok (sh_record (ru_shared p))"
proof (rule reachable_induct_shared [OF assms, where P = "\<lambda>s es. record_ok (sh_record s)"], goal_cases)
  case 1
  show ?case by (simp add: start_run_def record_ok_def empty_record_def counts_agree_def no_counts_def)
next
  case (2 s es evs s')
  then show ?case by (simp add: guarantee_def)
qed

lemma run_step_guarantee:
  assumes "run_step env p p'" "run_inv sound env p"
  shows "\<exists>evs. events p' = events p @ evs \<and> guarantee env (ru_shared p) evs (ru_shared p')"
  using assms(1)
proof (cases rule: run_step.cases)
  case (run_act i g inp)
  obtain evs s prog where g: "g inp (ru_shared p) = (evs, s, prog)" by (metis prod_cases3)
  show ?thesis
    unfolding run_act(1) g using run_inv_act(2) [OF assms(2) run_act(2,3) g] by auto
qed simp_all

text \<open>Once the run is cancelled or its journal closed, no later step changes what was started or written.\<close>

lemma run_steps_stable:
  assumes "(run_step env)\<^sup>*\<^sup>* p p'" "run_inv False env p" "env_ok env"
  shows "run_inv False env p' \<and> advances (ru_shared p) (ru_shared p') \<and>
    (sh_cancelled (ru_shared p) \<longrightarrow> filter starts_turn (events p') = filter starts_turn (events p)) \<and>
    (\<not> sh_journal_open (ru_shared p) \<longrightarrow> \<not> sh_journal_open (ru_shared p') \<and> lines_of (events p') = lines_of (events p)) \<and>
    (ry_latched_off (sh_replay (ru_shared p)) \<longrightarrow> takes_of (events p') = takes_of (events p))"
  using assms(1)
proof induction
  case (step q r)
  then obtain evs where evs: "events r = events q @ evs" "guarantee env (ru_shared q) evs (ru_shared r)"
    using run_step_guarantee by blast
  have "run_inv False env r"
    using run_inv_step [OF _ assms(3) _ step.hyps(2)] step.IH by (simp add: decisions_hold_def)
  moreover have "advances (ru_shared p) (ru_shared r)"
    using step.IH evs(2) by (auto simp: guarantee_def intro: advances_trans)
  moreover have "cancel_kept (ru_shared q) evs" "journal_kept (ru_shared q) evs (ru_shared r)"
    "replay_kept (ru_shared q) evs (ru_shared r)"
    using evs(2) by (simp_all add: guarantee_def)
  moreover have "sh_cancelled (ru_shared p) \<longrightarrow> sh_cancelled (ru_shared q)"
    "ry_latched_off (sh_replay (ru_shared p)) \<longrightarrow> ry_latched_off (sh_replay (ru_shared q))"
    using step.IH by (auto simp: advances_def replay_advances_def)
  ultimately show ?case
    using step.IH evs(1)
    by (auto simp: cancel_kept_def journal_kept_def replay_kept_def list_ex_iff filter_empty_conv)
qed (use assms in simp)

section \<open>The last line of the journal\<close>

lemma orderly_no_end:
  assumes "orderly c es"
  shows "list_all (\<lambda>l. \<not> end_of_run l) (lines_of es)"
  using assms
proof (induction es rule: rev_induct)
  case (snoc e es)
  have "\<not> end_of_run l" if "own_line_ok c es l" for l
    using that by (cases l) auto
  with snoc show ?case by (cases e) auto
qed simp

lemma own_no_end:
  assumes inv: "run_inv sound env p" and i: "i < length (ru_ops p)" "\<not> is_end (fst (ru_ops p ! i))"
  shows "list_all (\<lambda>l. \<not> end_of_run l) (lines_of (own i p))"
proof -
  obtain r rest where post: "op_post sound env (fst (ru_ops p ! i)) r (own i p @ rest)"
    using run_op_completes [OF inv i(1)] by blast
  with i(2) show ?thesis
    by (cases "fst (ru_ops p ! i)") (auto simp: op_post_def dest!: agent_post_so_far orderly_no_end)
qed

text \<open>Before the run ends no line says so; after that only the end itself acts.\<close>

definition end_inv :: "'e run \<Rightarrow> bool" where
  "end_inv p \<longleftrightarrow>
     (\<not> ended p \<and> list_all (\<lambda>l. \<not> end_of_run l) (lines_of (events p)) \<or>
      (\<exists>ops script prog pre. ru_ops p = ops @ [(OpEnd script, prog)] \<and> list_all (returned \<circ> snd) ops \<and>
        lines_of (events p) = pre @ lines_of (own (length ops) p) \<and> list_all (\<lambda>l. \<not> end_of_run l) pre))"

lemma ended_simps [simp]: "ended (add_op (op, prog) p) \<longleftrightarrow> is_end op \<or> ended p"
  "ended (p\<lparr>ru_shared := s\<rparr>) = ended p"
  by (auto simp: ended_def)

lemma ended_act [simp]: "i < length (ru_ops p) \<Longrightarrow> ended (take_action i (evs, s, prog) p) = ended p"
  by (auto simp: ended_def list_ex_length nth_list_update)

lemma end_inv_step:
  assumes inv: "end_inv p" "run_inv False env p" and step: "run_step env p p'" and env: "env_ok env"
  shows "end_inv p'"
  using step
proof (cases rule: run_step.cases)
  case (run_call op n)
  then show ?thesis using inv(1) by (auto simp: end_inv_def ended_def)
next
  case (run_end script)
  have "list_all (\<lambda>l. \<not> end_of_run l) (lines_of (events p))"
    using run_end(2) inv(1) by (auto simp: end_inv_def ended_def)
  then show ?thesis
    unfolding run_end(1) end_inv_def
    using run_end(3) own_unborn [OF inv(2)] by (intro disjI2) auto
next
  case (run_act i g inp)
  obtain evs s prog where g: "g inp (ru_shared p) = (evs, s, prog)" by (metis prod_cases3)
  have inv': "run_inv False env (take_action i (evs, s, prog) p)"
    by (rule run_inv_act(1) [OF inv(2) run_act(2,3) g])
  from inv(1) show ?thesis
    unfolding run_act(1) g end_inv_def [of p]
  proof (elim disjE exE conjE)
    assume go: "\<not> ended p" "list_all (\<lambda>l. \<not> end_of_run l) (lines_of (events p))"
    then have "\<not> is_end (fst (ru_ops p ! i))"
      using run_act(2) by (auto simp: ended_def list_ex_length)
    with own_no_end [OF inv', of i] run_act(2)
    have "list_all (\<lambda>l. \<not> end_of_run l) (lines_of evs)" by (simp add: own_take_action)
    with go run_act(2) show "end_inv (take_action i (evs, s, prog) p)" by (simp add: end_inv_def)
  next
    fix ops script last_prog pre
    assume last_op: "ru_ops p = ops @ [(OpEnd script, last_prog)]" "list_all (returned \<circ> snd) ops"
      "lines_of (events p) = pre @ lines_of (own (length ops) p)" "list_all (\<lambda>l. \<not> end_of_run l) pre"
    then have "i = length ops"
      using run_act(2,3) by (auto simp: nth_append less_Suc_eq list_all_length split: if_splits)
    with last_op show "end_inv (take_action i (evs, s, prog) p)"
      by (auto simp: end_inv_def own_take_action)
  qed
next
  case run_cancel
  then show ?thesis using inv(1) by (auto simp: end_inv_def)
qed

lemma reachable_end_inv:
  assumes "reachable env replay charges p" "env_ok env" "replay_ok replay"
  shows "end_inv p"
  using assms(1)
proof induction
  case reachable_start
  then show ?case by (simp add: end_inv_def ended_def)
next
  case (reachable_step p p')
  then show ?case
    using end_inv_step reachable_inv_any [OF reachable_step.hyps(1) assms(2,3)] assms(2) by blast
qed

end
