(* ===== verification/WorkflowPlay.thy ===== *)
theory WorkflowPlay
  imports WorkflowSafety
begin

text \<open>
  Playing a workflow run: a schedule of moves as a list, so that a concrete run can be computed. A
  move that is not enabled is skipped, and every state played is reachable.
\<close>

datatype 'e move = MoveCall operation nat | MoveEnd script_end | MoveAct nat "'e input" | MoveCancel

definition play_move :: "'e run_env \<Rightarrow> 'e move \<Rightarrow> 'e run \<Rightarrow> 'e run" where
  "play_move env move p =
     (case move of
       MoveCall op n \<Rightarrow>
         (if ended p \<or> is_end op \<or> n < operation_fuel env op (sh_replay (ru_shared p)) then p
          else add_op (op, operation_prog n env op) p)
     | MoveEnd script \<Rightarrow>
         (if ended p \<or> \<not> list_all (returned \<circ> snd) (ru_ops p) then p
          else add_op (OpEnd script, operation_prog 0 env (OpEnd script)) p)
     | MoveAct i inp \<Rightarrow>
         (if i < length (ru_ops p) then
            (case snd (ru_ops p ! i) of Return _ \<Rightarrow> p | Act g \<Rightarrow> take_action i (g inp (ru_shared p)) p)
          else p)
     | MoveCancel \<Rightarrow> p\<lparr>ru_shared := (ru_shared p)\<lparr>sh_cancelled := True\<rparr>\<rparr>)"

fun play :: "'e run_env \<Rightarrow> 'e move list \<Rightarrow> 'e run \<Rightarrow> 'e run" where
  "play env [] p = p"
| "play env (move # moves) p = play env moves (play_move env move p)"

lemma play_move_step: "play_move env move p = p \<or> run_step env p (play_move env move p)"
  by (auto simp: play_move_def intro: run_step.intros split: move.split prog.split)

lemma play_reachable_from:
  "reachable env replay charges p \<Longrightarrow> reachable env replay charges (play env moves p)"
proof (induction moves arbitrary: p)
  case (Cons move moves)
  from play_move_step [of env move p] Cons.prems have "reachable env replay charges (play_move env move p)"
    by (auto intro: reachable_step)
  from Cons.IH [OF this] show ?case by simp
qed simp

lemma play_reachable: "reachable env replay charges (play env moves (start_run replay charges))"
  by (rule play_reachable_from [OF reachable_start])

section \<open>A small run\<close>

definition demo_model :: resolved_model where
  "demo_model = \<lparr>rm_reference = lit ''e/m'', rm_environment = lit ''e'', rm_profile = lit ''m'', rm_effort = None,
     rm_wire_model = lit ''m''\<rparr>"

definition demo_env :: "unit run_env" where
  "demo_env = \<lparr>rn_id = RunId (lit ''wf1''), rn_decisions = native_decisions,
     rn_roles = [lit ''worker'' \<mapsto> \<lparr>rv_chain = [demo_model], rv_tools = []\<rparr>],
     rn_caps = [lit ''m'' \<mapsto> 3], rn_max_steps = 1, rn_workspace = None, rn_base = None,
     rn_printer = (\<lambda>_. []), rn_run_dir = []\<rparr>"

definition demo_done :: step_outcome where
  "demo_done = \<lparr>so_worker = \<lparr>wk_id = lit ''w'', wk_description = []\<rparr>,
     so_end = EndDone (lit ''ok'') [] None ScNotRequested\<rparr>"

definition demo_input :: "unit input" where
  "demo_input = \<lparr>in_salt = (), in_append = None, in_run = Inr demo_done, in_repair = Inl [], in_worktree = Inl [],
     in_settle = Inl [], in_memory = False, in_file = None\<rparr>"

definition demo_op :: operation where
  "demo_op = OpAgent (lit ''p'') NoOpts"

definition demo_acts :: "nat \<Rightarrow> nat \<Rightarrow> unit move list" where
  "demo_acts i n = replicate n (MoveAct i demo_input)"

text \<open>Two calls of the same prompt in a run of one step at most: the first is dispatched, the second
  is refused while the first still runs, the first ends done, and the run ends.\<close>

definition demo_fuel :: nat where
  "demo_fuel = Suc (Suc (Suc (Suc (Suc (Suc 0)))))"

definition demo_run :: "unit run" where
  "demo_run = play demo_env ([MoveCall demo_op demo_fuel, MoveCall demo_op demo_fuel] @
     demo_acts 0 11 @ demo_acts 1 20 @ demo_acts 0 20 @ [MoveEnd (ScriptValue (Inr JNull))] @ demo_acts 2 20)
     (start_run replay_none Map.empty)"

section \<open>Computing it\<close>

text \<open>Programs are unfolded one action at a time: the simplifier does not enter a continuation.\<close>

lemma prog_congs:
  "Act a0 = Act a0"
  "locked b0 b1 = locked b0 b1"
  "cancellable c0 c1 c2 = cancellable c0 c1 c2"
  "log_line d0 d1 = log_line d0 d1"
  "write_line e0 e1 = write_line e0 e1"
  "set_phase f0 f1 = set_phase f0 f1"
  "conclude g0 g1 g2 g3 g4 g5 = conclude g0 g1 g2 g3 g4 g5"
  "settle_hold h0 h1 h2 = settle_hold h0 h1 h2"
  "finish_step i0 i1 i2 i3 i4 i5 = finish_step i0 i1 i2 i3 i4 i5"
  "refuse_step j0 j1 j2 j3 j4 = refuse_step j0 j1 j2 j3 j4"
  "spend k0 k1 k2 k3 k4 k5 = spend k0 k1 k2 k3 k4 k5"
  "run_link l0 l1 l2 l3 = run_link l0 l1 l2 l3"
  "prepare_phase m0 m1 m2 = prepare_phase m0 m1 m2"
  "prepare_work n0 n1 n2 n3 n4 n5 n6 = prepare_work n0 n1 n2 n3 n4 n5 n6"
  "journal_hop o0 o1 o2 o3 = journal_hop o0 o1 o2 o3"
  "start_link p0 p1 p2 p3 p4 p5 p6 p7 = start_link p0 p1 p2 p3 p4 p5 p6 p7"
  "dispatch q0 q1 q2 q3 q4 q5 q6 q7 q8 = dispatch q0 q1 q2 q3 q4 q5 q6 q7 q8"
  "repair_link r0 r1 r2 r3 r4 r5 r6 = repair_link r0 r1 r2 r3 r4 r5 r6"
  "latch_if s0 s1 = latch_if s0 s1"
  "apply_action t0 t1 t2 t3 t4 t5 t6 t7 = apply_action t0 t1 t2 t3 t4 t5 t6 t7"
  "step_loop u0 u1 u2 u3 u4 u5 u6 = step_loop u0 u1 u2 u3 u4 u5 u6"
  "workflow_step v0 v1 v2 v3 v4 v5 = workflow_step v0 v1 v2 v3 v4 v5"
  "script_agent w0 w1 w2 w3 w4 = script_agent w0 w1 w2 w3 w4"
  "operation_prog x0 x1 x2 = operation_prog x0 x1 x2"
  by (rule refl)+

lemma replicate_numeral: "replicate (numeral n) x = x # replicate (pred_numeral n) x"
  by (simp add: numeral_eq_Suc)

lemma parse_no_opts: "parse_options NoOpts = Inr (default_options\<lparr>op_json := JObject []\<rparr>)"
  by (simp add: parse_options_def opts_json_def try_then_def default_options_def)

lemmas prog_defs = locked_def cancellable_def append_line_def log_line_def write_line_def conclude_def finish_step_def
  settle_hold_def refuse_step_def spend_def run_link_def prepare_phase_def prepare_work_def place_work_def or_else_def
  journal_hop_def start_link_def dispatch_def repair_link_def latch_if_def apply_action_def workflow_step_def script_agent_def
  operation_prog_def try_spend_def used_count_def request_for_def dispatch_line_def spent_attempt_def Let_def
  visible_request_def visible_worker_def

lemmas decision_defs = examine_def check_owned_def check_tools_def snapshot_of_def step_call_of_def decide_def
  native_decisions_def plan_step_def plan_first_def plan_next_def plan_end_def accept_step_def accept_linked_def
  accept_ended_def accept_settled_def accept_end_def with_models_def check_transition_def new_transition_def
  check_action_def check_dispatch_def check_end_def check_envelope_def check_done_def done_turn_def accepted_value_def check_version_def
  chain_link_def granted_tools_def expected_grant_def check_grant_def blank_refused_def blank_failed_def
  fresh_progress_def fresh_work_def no_cost_def contract_version_def worker_text_def checked_add32_def wrapping_add32_def
  try_then_def map_err_def ok_or_def role_head_def redact_envelope_def

lemmas end_defs = execute_def end_run_def publish_report_def commit_report_def file_action_def log_failure_def
  roll_back_def script_verdict_def run_verdict_def

lemmas demo_defs = demo_acts_def play_move_def start_run_def operation_fuel_def demo_op_def agent_fuel_def
  parse_no_opts step_fuel_def replay_none_def demo_env_def default_options_def add_op_def ended_def demo_model_def
  take_action_def demo_input_def demo_done_def demo_fuel_def view_def empty_record_def latch_off_def replicate_numeral

text \<open>Its journal after the \<open>started\<close> line.\<close>

lemma demo_lines:
  "\<exists>call role model wire prompt opts refused finished outcome counts error.
     lines_of (events demo_run) =
       [JlDispatch call None role model wire 1 prompt opts, JlResult call refused, JlResult call finished,
        JlEnded outcome counts error] \<and>
     en_step refused = call \<and> en_status refused = SsFailed \<and> en_attempts refused = 0 \<and>
     en_step finished = call \<and> en_status finished = SsDone \<and> en_attempts finished = 1"
  by (simp add: demo_run_def events_def prog_defs decision_defs end_defs demo_defs del: if_split cong: prog_congs)

lemma demo_reachable: "reachable demo_env replay_none Map.empty demo_run"
  unfolding demo_run_def by (rule play_reachable)

lemma demo_env_ok: "env_ok demo_env"
  by (simp add: env_ok_def demo_env_def demo_model_def role_ok_def)

lemma replay_none_ok: "replay_ok replay_none"
  by (simp add: replay_ok_def replay_none_def)

text \<open>The operations of a run played are those of the moves so far, and more.\<close>

lemma play_move_ops: "\<exists>more. map fst (ru_ops (play_move env move p)) = map fst (ru_ops p) @ more"
  by (auto simp: play_move_def take_action_def map_update split: move.split prog.split prod.split)
    (metis list_update_id nth_map append_Nil2)+

lemma play_ops: "\<exists>more. map fst (ru_ops (play env moves p)) = map fst (ru_ops p) @ more"
proof (induction moves arbitrary: p)
  case (Cons move moves)
  from Cons.IH [of "play_move env move p"] play_move_ops [of env move p] show ?case by auto
qed simp

lemma play_append: "play env (a @ b) p = play env b (play env a p)"
  by (induction a arbitrary: p) simp_all

lemma demo_ops: "0 < length (ru_ops demo_run)" "fst (ru_ops demo_run ! 0) = demo_op"
proof -
  let ?p = "play_move demo_env (MoveCall demo_op demo_fuel) (start_run replay_none Map.empty)"
  have "map fst (ru_ops ?p) = [demo_op]"
    by (simp add: demo_defs)
  moreover have "\<exists>more. map fst (ru_ops demo_run) = map fst (ru_ops ?p) @ more"
    unfolding demo_run_def append_Cons play.simps(2) [of demo_env "MoveCall demo_op demo_fuel" _ "start_run _ _"]
    by (rule play_ops)
  ultimately have "\<exists>more. map fst (ru_ops demo_run) = demo_op # more" by simp
  then show "0 < length (ru_ops demo_run)" "fst (ru_ops demo_run ! 0) = demo_op"
    by (auto simp: map_eq_Cons_conv)
qed

text \<open>A run whose script only returns: it ends at once.\<close>

definition empty_run :: "unit run" where
  "empty_run = play demo_env (MoveEnd (ScriptValue (Inr JNull)) # demo_acts 0 20) (start_run replay_none Map.empty)"

lemma empty_run_ops: "\<exists>report. ru_ops empty_run = [(OpEnd (ScriptValue (Inr JNull)), Return (OrReport report))]"
  by (simp add: empty_run_def prog_defs end_defs demo_defs del: if_split cong: prog_congs)

lemma empty_run_lines: "lines_of (events empty_run) = [JlEnded RoCompleted no_counts None]"
  by (simp add: empty_run_def events_def prog_defs end_defs demo_defs no_issues_def no_counts_def wrapping_add32_def
      del: if_split cong: prog_congs)

lemma empty_run_reachable: "reachable demo_env replay_none Map.empty empty_run"
  unfolding empty_run_def by (rule play_reachable)

end
