(* ===== verification/WorkflowReader.thy ===== *)
theory WorkflowReader
  imports WorkflowEngine
begin

text \<open>
  Reading a workflow journal back, record by record. \<open>read_all\<close> is the reader on records; over the
  bytes of well-printed lines \<open>read_journal\<close> is \<open>read_all\<close> (\<open>read_lines_printed\<close>). \<open>lines_ok\<close> is a
  condition on a journal's lines that makes the reader accept them (\<open>read_all_ok\<close>).
\<close>

section \<open>The reader on records\<close>

fun read_all :: "ustring \<Rightarrow> nat \<Rightarrow> reader \<Rightarrow> journal_line list \<Rightarrow> ustring + reader" where
  "read_all label index rd [] = Inr rd"
| "read_all label index rd (line # lines) =
     try_then (read_record label (index + 1) (lines = []) line rd) (\<lambda>rd. read_all label (index + 1) rd lines)"

text \<open>What of a line the reader's checks look at is not masked.\<close>

lemma read_record_safe [simp]: "read_record label index final (safe_line line) rd = read_record label index final line rd"
  by (cases line)
    (simp_all add: read_record_def check_line_def open_lifecycle_def count_line_def check_result_def cong: sum.case_cong)

lemma read_all_safe [simp]: "read_all label index rd (map safe_line lines) = read_all label index rd lines"
  by (induction lines arbitrary: index rd) (simp_all add: try_then_def split: sum.split)

text \<open>A line that was printed well: short enough, one line, and parsed as what was printed.\<close>

definition reads_back :: "codec \<Rightarrow> nat \<Rightarrow> journal_line \<Rightarrow> bool" where
  "reads_back cd index line \<longleftrightarrow> length (printed_line cd line) \<le> max_line \<and>
     10 \<notin> set (butlast (printed_line cd line)) \<and>
     parse_line cd index (butlast (printed_line cd line)) = Inr line"

lemma printed_line_end: "printed_line cd line = butlast (printed_line cd line) @ [10]"
  by (simp add: printed_line_def)

lemma read_until_line:
  "10 \<notin> set bytes \<Longrightarrow> length bytes < n \<Longrightarrow> read_until n (bytes @ 10 # rest) = (bytes @ [10], rest)"
proof (induction bytes arbitrary: n)
  case Nil
  then show ?case by (cases n) simp_all
next
  case (Cons b bytes)
  then obtain m where "n = Suc m" by (cases n) auto
  with Cons show ?case by simp
qed

lemma read_until_printed:
  assumes "reads_back cd index line"
  shows "read_until (max_line + 1) (printed_line cd line @ rest) = (printed_line cd line, rest)"
proof -
  let ?b = "butlast (printed_line cd line)"
  have "read_until (max_line + 1) (?b @ 10 # rest) = (?b @ [10], rest)"
    by (rule read_until_line) (use assms in \<open>auto simp: reads_back_def\<close>)
  with printed_line_end [of cd line] show ?thesis by (metis append.assoc append_Cons append_Nil)
qed

lemma printed_line_nonempty [simp]: "printed_line cd line \<noteq> []"
  by (simp add: printed_line_def)

lemma concat_printed_line_Nil [simp]: "concat (map (printed_line cd) lines) = [] \<longleftrightarrow> lines = []"
  by (cases lines) auto

text \<open>Only an \<open>ended\<close> line is asked whether it is the last one.\<close>

fun ends_run :: "journal_line \<Rightarrow> bool" where
  "ends_run (JlEnded _ _ _) \<longleftrightarrow> True"
| "ends_run _ \<longleftrightarrow> False"

lemma read_record_final:
  "\<not> ends_run line \<Longrightarrow> read_record label index final line rd = read_record label index final' line rd"
  by (cases line) (simp_all add: read_record_def check_line_def)

lemma read_until_torn: "10 \<notin> set bytes \<Longrightarrow> length bytes \<le> n \<Longrightarrow> read_until n bytes = (bytes, [])"
  by (induction n bytes rule: read_until.induct) auto

text \<open>The bytes of well-printed lines, and what a failed append may have left after them.\<close>

lemma read_lines_printed:
  assumes "\<And>k. k < length lines \<Longrightarrow> reads_back cd (Suc (index + k)) (lines ! k)"
    and torn: "10 \<notin> set torn" "length torn \<le> max_line"
    and unended: "torn = [] \<or> \<not> list_ex ends_run lines"
  shows "read_lines cd label index rd (concat (map (printed_line cd) lines) @ torn) =
    try_then (read_all label index rd lines) (\<lambda>_. Inr lines)"
  using assms(1) unended
proof (induction lines arbitrary: index rd)
  case Nil
  show ?case
  proof (cases "torn = []")
    case False
    then have "last torn \<noteq> 10" using torn(1) last_in_set by metis
    with False show ?thesis
      using read_until_torn [OF torn(1), of "max_line + 1"] torn(2)
      by (subst read_lines.simps) (simp add: try_then_def)
  qed (simp add: read_lines.simps [of _ _ _ _ "[]"] try_then_def)
next
  case (Cons line lines)
  have whole: "reads_back cd (Suc index) line" using Cons.prems(1) [of 0] by simp
  have IH: "read_lines cd label (Suc index) rd' (concat (map (printed_line cd) lines) @ torn) =
      try_then (read_all label (Suc index) rd' lines) (\<lambda>_. Inr lines)" for rd'
  proof (rule Cons.IH)
    fix k
    assume "k < length lines"
    then show "reads_back cd (Suc (Suc index + k)) (lines ! k)" using Cons.prems(1) [of "Suc k"] by simp
  qed (use Cons.prems(2) in auto)
  have last_byte: "last (printed_line cd line) = 10" by (simp add: printed_line_def)
  have short: "\<not> max_line < length (printed_line cd line)"
    and parsed: "parse_line cd (Suc index) (butlast (printed_line cd line)) = Inr line"
    using whole by (simp_all add: reads_back_def)
  have final: "read_record label (Suc index) (lines = [] \<and> torn = []) line rd =
      read_record label (Suc index) (lines = []) line rd"
  proof (cases "torn = []")
    case False
    with Cons.prems(2) have "\<not> ends_run line" by simp
    then show ?thesis by (rule read_record_final)
  qed simp
  show ?case
    by (subst read_lines.simps)
      (simp add: read_until_printed [OF whole, simplified] last_byte short parsed IH final try_then_def map_err_def
        split: sum.split)
qed

section \<open>Journals the reader accepts\<close>

fun opens :: "call_id \<Rightarrow> journal_line \<Rightarrow> bool" where
  "opens c (JlDispatch call _ _ _ _ _ _ _) \<longleftrightarrow> call = c"
| "opens c (JlReplayed call _) \<longleftrightarrow> call = c"
| "opens c _ \<longleftrightarrow> False"

fun closes :: "call_id \<Rightarrow> journal_line \<Rightarrow> bool" where
  "closes c (JlResult call _) \<longleftrightarrow> call = c"
| "closes c _ \<longleftrightarrow> False"

text \<open>A line in its place: after the lines before it, the last one or not.\<close>

fun line_ok :: "journal_line list \<Rightarrow> bool \<Rightarrow> journal_line \<Rightarrow> bool" where
  "line_ok pre final (JlStarted _ _ _ _ _ _ _) \<longleftrightarrow> False"
| "line_ok pre final (JlEnded _ _ _) \<longleftrightarrow> final"
| "line_ok pre final (JlResult call envelope) \<longleftrightarrow> en_step envelope = call \<and> \<not> list_ex (closes call) pre \<and>
     (en_status envelope = SsDone \<or> 0 < en_attempts envelope \<longrightarrow> list_ex (opens call) pre)"
| "line_ok pre final _ \<longleftrightarrow> True"

definition lines_ok :: "journal_line list \<Rightarrow> bool" where
  "lines_ok lines \<longleftrightarrow> (\<forall>pre line post. lines = pre @ line # post \<longrightarrow> line_ok pre (post = []) line)"

text \<open>A call without a result has all it opened pending.\<close>

definition pending_ok :: "journal_line list \<Rightarrow> reader \<Rightarrow> bool" where
  "pending_ok pre rd \<longleftrightarrow> rd_lifecycle rd \<and>
     (\<forall>call. \<not> list_ex (closes call) pre \<longrightarrow> rd_pending rd call = length (filter (opens call) pre))"

lemma read_record_ok:
  assumes pending: "pending_ok pre rd" and ok: "line_ok pre final line"
  shows "\<exists>rd'. read_record label index final line rd = Inr rd' \<and> pending_ok (pre @ [line]) rd'"
proof (cases line)
  case (JlResult call envelope)
  with ok have fits: "en_step envelope = call" "\<not> list_ex (closes call) pre"
    "en_status envelope = SsDone \<or> 0 < en_attempts envelope \<Longrightarrow> list_ex (opens call) pre"
    by auto
  then have "rd_pending rd call = length (filter (opens call) pre)"
    using pending by (simp add: pending_ok_def)
  then have "rd_pending rd call = 0 \<longrightarrow> \<not> (en_status envelope = SsDone \<or> 0 < en_attempts envelope)"
    using fits(3) by (auto simp: filter_empty_conv list_ex_iff)
  with fits(1) pending have "\<exists>rd'. check_result call envelope rd = Inr rd' \<and> rd_lifecycle rd' \<and>
      (\<forall>c. c \<noteq> call \<longrightarrow> rd_pending rd' c = rd_pending rd c)"
    by (auto simp: check_result_def Let_def pending_ok_def)
  then obtain rd' where rd': "check_result call envelope rd = Inr rd'" "rd_lifecycle rd'"
    "\<And>c. c \<noteq> call \<Longrightarrow> rd_pending rd' c = rd_pending rd c"
    by blast
  have "read_record label index final line rd = Inr rd'"
    using rd'(1) pending
    by (simp add: JlResult read_record_def check_line_def open_lifecycle_def count_line_def pending_ok_def
        try_then_def map_err_def)
  moreover have "pending_ok (pre @ [line]) rd'"
    using pending rd'(2,3) by (auto simp: JlResult pending_ok_def)
  ultimately show ?thesis by blast
qed (use assms in \<open>auto simp: read_record_def check_line_def open_lifecycle_def count_line_def pending_ok_def try_then_def\<close>)

lemma read_all_ok:
  assumes "pending_ok pre rd" "\<And>mid line post. lines = mid @ line # post \<Longrightarrow> line_ok (pre @ mid) (post = []) line"
  shows "\<exists>rd'. read_all label index rd lines = Inr rd'"
  using assms
proof (induction lines arbitrary: pre index rd)
  case (Cons line lines)
  have "line_ok pre (lines = []) line" using Cons.prems(2) [of "[]"] by simp
  with read_record_ok [OF Cons.prems(1)] obtain rd'
    where rd': "read_record label (index + 1) (lines = []) line rd = Inr rd'" "pending_ok (pre @ [line]) rd'"
    by blast
  have "\<exists>rd''. read_all label (index + 1) rd' lines = Inr rd''"
  proof (rule Cons.IH [OF rd'(2)])
    fix mid line' post
    assume "lines = mid @ line' # post"
    then show "line_ok ((pre @ [line]) @ mid) (post = []) line'" using Cons.prems(2) [of "line # mid"] by simp
  qed
  with rd'(1) show ?case by (auto simp: try_then_def)
qed simp

text \<open>A journal is the \<open>started\<close> line and the lines of the run.\<close>

lemma journal_accepted:
  assumes "lines_ok lines"
  shows "\<exists>rd. read_all label 0 fresh_reader (JlStarted workflow_journal_version run hash args from base inherited # lines) = Inr rd"
proof -
  let ?started = "JlStarted workflow_journal_version run hash args from base inherited"
  have "read_record label 1 (lines = []) ?started fresh_reader = Inr (fresh_reader\<lparr>rd_lifecycle := True\<rparr>)"
    by (simp add: read_record_def check_line_def open_lifecycle_def count_line_def try_then_def)
  moreover have "pending_ok [] (fresh_reader\<lparr>rd_lifecycle := True\<rparr>)"
    by (simp add: pending_ok_def fresh_reader_def)
  then have "\<exists>rd. read_all label 1 (fresh_reader\<lparr>rd_lifecycle := True\<rparr>) lines = Inr rd"
    by (rule read_all_ok) (use assms in \<open>auto simp: lines_ok_def\<close>)
  ultimately show ?thesis by (auto simp: try_then_def)
qed

end
