(* ===== verification/WorkflowClaims.thy ===== *)
theory WorkflowClaims
  imports WorkflowPlay WorkflowReader
begin

text \<open>
  The properties of a workflow run. They hold in every reachable state, for every script, runner,
  observer, settings and interleaving. The first section reads a run's journal back: when no two
  calls of the run share a call id, the reader accepts it; when two do, it may not.
\<close>

section \<open>The lines of a run\<close>

lemma map_filter_split:
  assumes "List.map_filter f xs = pre @ y # post"
  shows "\<exists>xs1 x xs2. xs = xs1 @ x # xs2 \<and> f x = Some y \<and> List.map_filter f xs1 = pre \<and> List.map_filter f xs2 = post"
  using assms
proof (induction xs arbitrary: pre)
  case (Cons x xs)
  show ?case
  proof (cases "f x")
    case None
    with Cons.prems have "List.map_filter f xs = pre @ y # post" by (simp add: map_filter_Cons)
    from Cons.IH [OF this] obtain xs1 x' xs2 where "xs = xs1 @ x' # xs2" "f x' = Some y"
      "List.map_filter f xs1 = pre" "List.map_filter f xs2 = post" by blast
    with None show ?thesis by (intro exI [of _ "x # xs1"]) (auto simp: map_filter_Cons)
  next
    case (Some z)
    show ?thesis
    proof (cases pre)
      case Nil
      with Some Cons.prems show ?thesis
        by (intro exI [of _ "[]"]) (auto simp: map_filter_Cons map_filter_Nil)
    next
      case (Cons a as)
      with Some Cons.prems have "List.map_filter f xs = as @ y # post" "a = z" by (auto simp: map_filter_Cons)
      from Cons.IH [OF this(1)] obtain xs1 x' xs2 where "xs = xs1 @ x' # xs2" "f x' = Some y"
        "List.map_filter f xs1 = as" "List.map_filter f xs2 = post" by blast
      with Some Cons \<open>a = z\<close> show ?thesis by (intro exI [of _ "x # xs1"]) (auto simp: map_filter_Cons)
    qed
  qed
qed (simp add: map_filter_Nil)

lemma event_line_Some: "event_line e = Some l \<longleftrightarrow> e = EvLine l"
  by (cases e) auto

definition own_of :: "nat \<Rightarrow> (nat \<times> event) list \<Rightarrow> event list" where
  "own_of i tr = map snd (filter (\<lambda>(j, _). j = i) tr)"

lemma own_is_own_of: "own i p = own_of i (ru_trace p)"
  by (simp add: own_def own_of_def)

lemma own_of_simps [simp]: "own_of i (a @ b) = own_of i a @ own_of i b"
  "own_of i ((j, e) # tr) = (if j = i then e # own_of i tr else own_of i tr)"
  by (simp_all add: own_of_def)

lemma set_own_of: "e \<in> set (own_of i tr) \<longleftrightarrow> (i, e) \<in> set tr"
  by (force simp: own_of_def)

lemma lines_of_set: "l \<in> set (lines_of es) \<longleftrightarrow> EvLine l \<in> set es"
  by (force simp: lines_of_def List.map_filter_def event_line_Some)

lemma run_line_split:
  assumes "lines_of (events p) = pre @ l # post"
  shows "\<exists>tr1 i tr2. ru_trace p = tr1 @ (i, EvLine l) # tr2 \<and> lines_of (map snd tr1) = pre"
proof -
  from map_filter_split [OF assms [unfolded lines_of_def events_def]] obtain xs1 x xs2 where
    "map snd (ru_trace p) = xs1 @ x # xs2" "event_line x = Some l" "List.map_filter event_line xs1 = pre"
    by blast
  moreover from this obtain tr1 i tr2 where "ru_trace p = tr1 @ (i, x) # tr2" "map snd tr1 = xs1"
    by (auto simp: map_eq_append_conv map_eq_Cons_conv)
  ultimately have "ru_trace p = tr1 @ (i, EvLine l) # tr2 \<and> lines_of (map snd tr1) = pre"
    by (auto simp: lines_of_def event_line_Some)
  then show ?thesis by blast
qed

section \<open>The call of an operation\<close>

definition op_call :: "'e run_env \<Rightarrow> operation \<Rightarrow> call_id option" where
  "op_call env op = (case op of
     OpAgent prompt opts \<Rightarrow> (case parse_options opts of Inr o' \<Rightarrow> Some (agent_call env prompt o') | Inl _ \<Rightarrow> None)
   | _ \<Rightarrow> None)"

text \<open>No two calls of the run have the same call id.\<close>

definition distinct_calls :: "'e run_env \<Rightarrow> 'e run \<Rightarrow> bool" where
  "distinct_calls env p \<longleftrightarrow> distinct (List.map_filter (op_call env \<circ> fst) (ru_ops p))"

lemma distinct_map_filter_nth:
  "distinct (List.map_filter f xs) \<Longrightarrow> i < length xs \<Longrightarrow> j < length xs \<Longrightarrow> f (xs ! i) = Some y \<Longrightarrow>
    f (xs ! j) = Some y \<Longrightarrow> i = j"
proof (induction xs arbitrary: i j)
  case (Cons x xs)
  have mem: "y \<in> set (List.map_filter f xs)" if "k < length xs" "f (xs ! k) = Some y" for k
    using that by (force simp: List.map_filter_def)
  show ?case
    using Cons mem by (cases i; cases j) (auto simp: map_filter_Cons split: option.splits)
qed simp

lemma own_contract:
  assumes inv: "run_inv sound env p" and i: "i < length (ru_ops p)" and line: "EvLine l \<in> set (own i p)"
  shows "(\<exists>c. op_call env (fst (ru_ops p ! i)) = Some (sc_call c) \<and> orderly c (own i p)) \<or>
    bystander_line l"
proof -
  obtain r rest where post: "op_post sound env (fst (ru_ops p ! i)) r (own i p @ rest)"
    using run_op_completes [OF inv i] by blast
  have bystander: "bystander_line l" if "no_step_events (own i p)"
    using that line by (auto simp: no_step_events_def list_all_iff lines_of_set)
  show ?thesis
  proof (cases "fst (ru_ops p ! i)")
    case (OpAgent prompt opts)
    with post obtain r' where "agent_post sound env prompt opts r' (own i p @ rest)"
      by (auto simp: op_post_def)
    from agent_post_so_far [OF this] line obtain o' number where "parse_options opts = Inr o'"
      "orderly (step_call_of env prompt o' (agent_call env prompt o') number) (own i p)"
      by auto
    then show ?thesis
      by (intro disjI1 exI [of _ "step_call_of env prompt o' (agent_call env prompt o') number"])
        (simp add: OpAgent op_call_def step_call_of_def Let_def)
  qed (use post bystander in \<open>auto simp: op_post_def ended_well_def\<close>)
qed

lemma orderlyD: "orderly c es \<Longrightarrow> es = pre @ e # post \<Longrightarrow> own_ok c pre e"
  by (simp add: orderly_def)

lemma orderly_line:
  assumes "orderly c es" "EvLine l \<in> set es"
  shows "\<exists>pre post. es = pre @ EvLine l # post \<and> \<not> has_result pre \<and> own_line_ok c pre l"
proof -
  from split_list [OF assms(2)] obtain pre post where "es = pre @ EvLine l # post" by blast
  moreover from orderlyD [OF assms(1) this] have "own_ok c pre (EvLine l)" .
  ultimately show ?thesis by auto
qed

lemma opens_own:
  assumes "orderly c es" "dispatches_of es \<noteq> [] \<or> has_replayed es"
  shows "list_ex (opens (sc_call c)) (lines_of es)"
proof -
  have "\<exists>l \<in> set (lines_of es). dispatch_wire l \<noteq> None \<or> is_replayed l"
    using assms(2) by (auto simp: dispatches_of_def has_replayed_def list_ex_iff List.map_filter_def filter_empty_conv)
  then obtain l where l: "EvLine l \<in> set es" "dispatch_wire l \<noteq> None \<or> is_replayed l"
    by (auto simp: lines_of_set)
  with orderly_line [OF assms(1) l(1)] have "opens (sc_call c) l" by (cases l) auto
  with l(1) show ?thesis by (auto simp: list_ex_iff lines_of_set)
qed

lemma ended_last:
  assumes reach: "reachable env replay charges p" "env_ok env" "replay_ok replay"
    and lines: "lines_of (events p) = pre @ l # post" "end_of_run l"
  shows "post = []"
proof -
  note inv = reachable_inv_any [OF reach]
  from reachable_end_inv [OF reach] show ?thesis
    unfolding end_inv_def
  proof (elim disjE exE conjE)
    fix ops script prog pre'
    assume p: "ru_ops p = ops @ [(OpEnd script, prog)]" "lines_of (events p) = pre' @ lines_of (own (length ops) p)"
      "list_all (\<lambda>l. \<not> end_of_run l) pre'"
    have "\<exists>r rest. op_post False env (fst (ru_ops p ! length ops)) r (own (length ops) p @ rest)"
      by (rule run_op_completes [OF inv]) (simp add: p)
    then have "length (lines_of (own (length ops) p)) \<le> 1"
      by (auto simp: p op_post_def ended_well_def append_eq_Cons_conv)
    with p(2,3) lines show "post = []"
      by (cases "lines_of (own (length ops) p)") (auto simp: append_eq_append_conv2 append_eq_Cons_conv list_all_iff
          Cons_eq_append_conv)
  qed (use lines in \<open>auto simp: list_all_iff\<close>)
qed

lemma run_lines_ok:
  assumes reach: "reachable env replay charges p" "env_ok env" "replay_ok replay"
    and calls: "distinct_calls env p"
  shows "lines_ok (lines_of (events p))"
  unfolding lines_ok_def
proof (intro allI impI)
  fix pre l post
  assume lines: "lines_of (events p) = pre @ l # post"
  note inv = reachable_inv_any [OF reach]
  from run_line_split [OF lines] obtain tr1 i tr2 where
    tr: "ru_trace p = tr1 @ (i, EvLine l) # tr2" and pre: "lines_of (map snd tr1) = pre"
    by blast
  have i: "i < length (ru_ops p)" using inv tr by (auto simp: run_inv_def)
  have mine: "own i p = own_of i tr1 @ EvLine l # own_of i tr2"
    by (simp add: own_is_own_of tr)
  have sub: "list_ex P pre" if "list_ex P (lines_of (own_of i tr1))" for P
    using that by (force simp: list_ex_iff lines_of_set set_own_of pre [symmetric])
  from own_contract [OF inv i, of l] mine have
    "(\<exists>c. op_call env (fst (ru_ops p ! i)) = Some (sc_call c) \<and> orderly c (own i p)) \<or> bystander_line l"
    by simp
  then show "line_ok pre (post = []) l"
  proof (elim disjE exE conjE)
    fix c
    assume c: "op_call env (fst (ru_ops p ! i)) = Some (sc_call c)" "orderly c (own i p)"
    from orderlyD [OF c(2) mine] have ok: "\<not> has_result (own_of i tr1)" "own_line_ok c (own_of i tr1) l"
      by simp_all
    have before: "orderly c (own_of i tr1)" using c(2) mine by (simp add: orderly_prefix)
    show ?thesis
    proof (cases l)
      case (JlResult call envelope)
      with ok(2) have call: "call = sc_call c" "en_step envelope = call" by simp_all
      have "\<not> closes call l'" if "l' \<in> set pre" for l'
      proof
        assume closes: "closes call l'"
        then obtain e where l': "l' = JlResult call e" by (cases l') auto
        from that pre obtain j where j: "(j, EvLine l') \<in> set tr1" by (force simp: lines_of_set)
        then have j_ops: "j < length (ru_ops p)" "EvLine l' \<in> set (own j p)"
          using inv tr by (auto simp: run_inv_def own_is_own_of set_own_of)
        from own_contract [OF inv this] l' obtain c' where
          c': "op_call env (fst (ru_ops p ! j)) = Some (sc_call c')" "orderly c' (own j p)"
          by auto
        from orderly_line [OF c'(2) j_ops(2)] l' have "call = sc_call c'" by auto
        with c'(1) c(1) call(1) calls have "i = j"
          using distinct_map_filter_nth [of "op_call env \<circ> fst" "ru_ops p" i j "sc_call c"] i j_ops(1)
          by (simp add: distinct_calls_def)
        with j l' have "has_result (own_of i tr1)"
          by (auto simp: has_result_def list_ex_iff lines_of_set set_own_of intro: bexI [of _ l'])
        with ok(1) show False by simp
      qed
      then have "\<not> list_ex (closes call) pre" by (simp add: list_ex_iff)
      moreover have "list_ex (opens call) pre" if "en_status envelope = SsDone \<or> 0 < en_attempts envelope"
        using sub [OF opens_own [OF before]] ok(2) JlResult that call(1) by auto
      ultimately show ?thesis using JlResult call(2) by auto
    qed (use ok(2) in auto)
  next
    assume "bystander_line l"
    then show ?thesis
      using ended_last [OF reach lines] by (cases l) auto
  qed
qed

section \<open>Running one call to its end\<close>

text \<open>
  \<open>run_against\<close> runs a program while others act: move \<open>k\<close> is the input of its \<open>k\<close>-th action and what
  the other threads did to the shared state before it.
\<close>

fun run_against ::
  "(nat \<Rightarrow> 'e input \<times> (shared \<Rightarrow> shared)) \<Rightarrow> nat \<Rightarrow> ('e, 'r) prog \<Rightarrow> event list \<Rightarrow> shared \<Rightarrow>
    ('e, 'r) prog \<times> event list \<times> shared" where
  "run_against moves 0 p es s = (p, es, s)"
| "run_against moves (Suc n) p es s =
     (case p of
       Return r \<Rightarrow> (p, es, s)
     | Act g \<Rightarrow>
         (case moves 0 of (inp, others) \<Rightarrow>
         (case g inp (others s) of (evs, s', q) \<Rightarrow> run_against (\<lambda>k. moves (Suc k)) n q (es @ evs) s')))"

definition fair_play :: "(nat \<Rightarrow> 'e input \<times> (shared \<Rightarrow> shared)) \<Rightarrow> bool" where
  "fair_play moves \<longleftrightarrow> (\<forall>k s. advances s (snd (moves k) s))"

lemma drive_returns:
  "holds advances Q p es s \<Longrightarrow> fair_play moves \<Longrightarrow>
    \<exists>n r es' t. run_against moves n p es s = (Return r, es', t) \<and> Q r es' t"
proof (induction arbitrary: moves rule: holds.induct)
  case (holds_Return r es s)
  then show ?case by (intro exI [of _ 0]) simp
next
  case (holds_Act s g es)
  obtain inp others where first: "moves 0 = (inp, others)" by (cases "moves 0")
  obtain evs s' q where g: "g inp (others s) = (evs, s', q)" by (metis prod_cases3)
  have "advances s (others s)" using holds_Act.prems first by (metis fair_play_def snd_conv)
  moreover have "fair_play (\<lambda>k. moves (Suc k))" using holds_Act.prems by (simp add: fair_play_def)
  ultimately obtain n r es' t where "run_against (\<lambda>k. moves (Suc k)) n q (es @ evs) s' = (Return r, es', t) \<and> Q r es' t"
    using holds_Act.IH g by blast
  with first g show ?case by (intro exI [of _ "Suc n"] exI [of _ r]) auto
qed

section \<open>Properties\<close>

text \<open>C13: the events of an \<open>agent()\<close> call come in order. An attempt's \<open>dispatch\<close> line is written
  after the attempt was charged to its model's cap; the runner is called right after that line, with
  its request; the models run are a subsequence of the role's chain; there is at most one repair turn, after
  a turn that ran; a replayed call dispatches nothing; the \<open>result\<close> line is the last one and carries
  the number of dispatches. A call whose options are refused does nothing.\<close>

theorem step_events_in_order:
  assumes "reachable env replay charges p" and "env_ok env" and "replay_ok replay"
    and "i < length (ru_ops p)" and "fst (ru_ops p ! i) = OpAgent prompt opts"
  shows "case parse_options opts of
      Inl _ \<Rightarrow> own i p = []
    | Inr o' \<Rightarrow> \<exists>number. orderly (step_call_of env prompt o' (agent_call env prompt o') number) (own i p)"
proof -
  from run_op_completes [OF reachable_inv_any [OF assms(1-3)] assms(4)] assms(5) obtain r rest where
    "agent_post False env prompt opts r (own i p @ rest)"
    by (auto simp: op_post_def)
  from agent_post_so_far [OF this] show ?thesis by (auto split: sum.split)
qed

theorem step_events_in_order_witness:
  "\<exists>number. orderly (step_call_of demo_env (lit ''p'') (default_options\<lparr>op_json := JObject []\<rparr>)
     (agent_call demo_env (lit ''p'') (default_options\<lparr>op_json := JObject []\<rparr>)) number) (own 0 demo_run)"
  using step_events_in_order [OF demo_reachable demo_env_ok replay_none_ok demo_ops(1)] demo_ops(2)
  by (simp add: demo_op_def parse_no_opts)

text \<open>C14: the substrate never refuses an answer of the native decisions: in no reachable state of
  a run that uses them does a step end with a refused decision.\<close>

theorem native_decisions_are_not_refused:
  assumes "reachable env replay charges p" and "env_ok env" and "replay_ok replay"
    and "rn_decisions env = native_decisions"
  shows "\<not> any_refused (events p)"
proof -
  note inv = reachable_inv_native [OF assms]
  have "length (filter is_refusal (events p)) = (\<Sum>i<length (ru_ops p). length (filter is_refusal (own i p)))"
    by (rule weight_of_run [OF inv]) simp_all
  also have "\<dots> = (\<Sum>i<length (ru_ops p). 0)"
    using own_numbers(3) [OF inv] by (intro sum.cong) (simp_all add: any_refused_def list_ex_iff filter_empty_conv)
  finally show ?thesis by (simp add: any_refused_def list_ex_iff filter_empty_conv)
qed

theorem native_decisions_are_not_refused_witness: "\<not> any_refused (events demo_run)"
  by (rule native_decisions_are_not_refused [OF demo_reachable demo_env_ok replay_none_ok]) (simp add: demo_env_def)

text \<open>C15: a cap holds over a run and all it was resumed from, however its steps interleave: the
  dispatches of a capped model, with the charges inherited, never exceed its limit (or the
  inherited charges, where those are past the limit already).\<close>

theorem caps_hold:
  assumes "reachable env replay charges p" and "env_ok env" and "replay_ok replay"
    and "rn_caps env wire = Some limit" and "limit < 2 ^ 32"
  shows "used_count charges wire + count_list (dispatches_of (events p)) wire \<le> max limit (used_count charges wire)"
  using reachable_caps [OF assms] run_numbers(1) [OF reachable_inv_any [OF assms(1-3)], of wire] by linarith

theorem caps_hold_witness: "count_list (dispatches_of (events demo_run)) (lit ''m'') \<le> 3"
  using caps_hold [OF demo_reachable demo_env_ok replay_none_ok, of "lit ''m''" 3]
  by (simp add: demo_env_def used_count_def)

text \<open>C16: a recorded result is replayed at most once: the entries taken are distinct entries of the
  prefix, and no step writes a \<open>replayed\<close> line without taking one.\<close>

theorem recorded_results_replay_once:
  assumes "reachable env replay charges p" and "env_ok env" and "replay_ok replay"
    and "ry_taken replay = replicate (length (ry_entries replay)) False"
  shows "distinct (takes_of (events p)) \<and> set (takes_of (events p)) \<subseteq> {..<length (ry_entries replay)} \<and>
    length (replays_of (events p)) \<le> length (takes_of (events p)) \<and>
    length (replays_of (events p)) \<le> length (ry_entries replay)"
proof -
  have taken: "distinct (takes_of (events p))" "set (takes_of (events p)) \<subseteq> {..<length (ry_entries replay)}"
    using reachable_replay [OF assms] by simp_all
  then have "length (takes_of (events p)) \<le> length (ry_entries replay)"
    using card_mono [of "{..<length (ry_entries replay)}" "set (takes_of (events p))"] by (simp add: distinct_card)
  with taken run_numbers(2) [OF reachable_inv_any [OF assms(1-3)]] show ?thesis by simp
qed

theorem recorded_results_replay_once_witness: "replays_of (events demo_run) = []"
  using recorded_results_replay_once [OF demo_reachable demo_env_ok replay_none_ok] by (simp add: replay_none_def)

text \<open>C17: the counts of a run that its step lines determine (steps, replayed, the four statuses, not
  verified, invalid output; \<open>capped\<close> and \<open>fell_back\<close> are costs no step line shows) are those of its
  step lines, modulo \<open>2^32\<close>, at every moment; the log holds at most 20 lines.\<close>

theorem counts_match_the_steps:
  assumes "reachable env replay charges p" and "env_ok env" and "replay_ok replay"
  shows "counts_agree (rc_counts (sh_record (ru_shared p))) (rc_steps (sh_record (ru_shared p))) \<and>
    rc_steps_ended (sh_record (ru_shared p)) = tally (\<lambda>_. True) (rc_steps (sh_record (ru_shared p))) \<and>
    length (rc_log (sh_record (ru_shared p))) \<le> 20"
  using reachable_record [OF assms] by (simp add: record_ok_def log_lines_def)

theorem counts_match_the_steps_witness:
  "counts_agree (rc_counts (sh_record (ru_shared demo_run))) (rc_steps (sh_record (ru_shared demo_run)))"
  using counts_match_the_steps [OF demo_reachable demo_env_ok replay_none_ok] by simp

text \<open>C18: what a run gave up stays given up. Once it is cancelled no turn, repair turn or worktree is
  started; once the replay latch is off no recorded result is taken; once the journal is closed no
  line is written.\<close>

theorem given_up_stays_given_up:
  assumes "reachable env replay charges p" and "env_ok env" and "replay_ok replay"
    and "(run_step env)\<^sup>*\<^sup>* p p'"
  shows "(sh_cancelled (ru_shared p) \<longrightarrow> filter starts_turn (events p') = filter starts_turn (events p)) \<and>
    (ry_latched_off (sh_replay (ru_shared p)) \<longrightarrow> takes_of (events p') = takes_of (events p)) \<and>
    (\<not> sh_journal_open (ru_shared p) \<longrightarrow> lines_of (events p') = lines_of (events p))"
  using run_steps_stable [OF assms(4) reachable_inv_any [OF assms(1-3)] assms(2)] by blast

theorem given_up_stays_given_up_witness:
  "\<exists>p. filter starts_turn (events (play_move demo_env (MoveCall demo_op demo_fuel) p)) = [] \<and> sh_cancelled (ru_shared p)"
proof -
  let ?p = "play demo_env [MoveCancel] (start_run replay_none Map.empty)"
  have cancelled: "sh_cancelled (ru_shared ?p)" "events ?p = []" by (simp_all add: demo_defs events_def)
  have "(run_step demo_env)\<^sup>*\<^sup>* ?p (play_move demo_env (MoveCall demo_op demo_fuel) ?p)"
    using play_move_step [of demo_env "MoveCall demo_op demo_fuel" ?p] by (auto intro: r_into_rtranclp)
  from given_up_stays_given_up [OF play_reachable demo_env_ok replay_none_ok this] cancelled show ?thesis
    by (intro exI [of _ ?p]) simp
qed

text \<open>C19: the \<open>ended\<close> line is the last line of a run's journal.\<close>

theorem ended_is_the_last_line:
  assumes "reachable env replay charges p" and "env_ok env" and "replay_ok replay"
    and "lines_of (events p) = pre @ JlEnded outcome counts error # post"
  shows "post = []"
  by (rule ended_last [OF assms]) simp

theorem ended_is_the_last_line_witness:
  "\<exists>pre outcome counts error. lines_of (events demo_run) = pre @ [JlEnded outcome counts error]"
proof -
  from demo_lines obtain call role model wire prompt opts refused finished outcome counts error where
    lines: "lines_of (events demo_run) = [JlDispatch call None role model wire 1 prompt opts, JlResult call refused,
      JlResult call finished] @ JlEnded outcome counts error # []"
    by auto
  from ended_is_the_last_line [OF demo_reachable demo_env_ok replay_none_ok this] lines show ?thesis by blast
qed

text \<open>C20: an \<open>agent()\<close> call returns, whatever the other threads do between its actions (as long as
  taken results stay taken and failures stay known), whatever its decisions answer and the runner
  reports: three rounds of its loop for each link of the role's chain, two more and one for each
  recorded result are enough.\<close>

theorem agent_call_returns:
  fixes s :: shared
  assumes "env_ok env" and "replay_ok (sh_replay s)" and "agent_fuel env opts (sh_replay s) \<le> fuel"
    and "fair_play moves"
  shows "\<exists>n r es t. run_against moves n (script_agent fuel env prompt opts Return) [] s = (Return r, es, t) \<and> r \<noteq> StepOutOfFuel"
proof -
  have "under_way (agent_post False env prompt opts) (script_agent fuel env prompt opts Return) [] s"
    by (rule under_way_agent [OF assms(1,2) _ assms(3)]) (auto intro: holds_Return)
  from drive_returns [OF this assms(4)] obtain n r es t where
    "run_against moves n (script_agent fuel env prompt opts Return) [] s = (Return r, es, t)"
    "agent_post False env prompt opts r es"
    by blast
  moreover from this(2) have "r \<noteq> StepOutOfFuel"
    by (auto simp: agent_post_def step_post_def split: sum.splits)
  ultimately show ?thesis by blast
qed

theorem agent_call_returns_witness:
  "\<exists>n r es t. run_against (\<lambda>_. (demo_input, id)) n (script_agent 6 demo_env (lit ''p'') NoOpts Return) []
     (ru_shared (start_run replay_none Map.empty :: unit run)) = (Return r, es, t) \<and> r \<noteq> StepOutOfFuel"
  using demo_env_ok replay_none_ok
  by (intro agent_call_returns)
    (simp_all add: fair_play_def agent_fuel_def parse_no_opts step_fuel_def demo_env_def default_options_def
      replay_none_def)

text \<open>C21: how a run ends. The report is the last event; its outcome is the one committed, and it says
  failed when nothing could be committed. A report that does not say failed was published before
  it was committed, and its artifact was not removed.\<close>

theorem run_ends_well:
  assumes "reachable env replay charges p" and "env_ok env" and "replay_ok replay"
    and "i < length (ru_ops p)" and "ru_ops p ! i = (OpEnd script, Return r)"
  shows "\<exists>report. r = OrReport report \<and> ended_well report (own i p)"
  using run_invD(2) [OF reachable_inv_any [OF assms(1-3)] assms(4,5)] by (auto simp: op_post_def)

theorem run_ends_well_witness: "\<exists>report. ended_well report (own 0 empty_run)"
  using empty_run_ops run_ends_well [OF empty_run_reachable demo_env_ok replay_none_ok, of 0] by auto

text \<open>C22: the journal of a run can be read back, when no two calls of the run have the same call id:
  from lines that fit the reader's limits and that the serializer prints and parses, \<open>read_journal\<close>
  gives the records written. A part of a line that an append left which failed (nothing is appended
  after it, and no \<open>ended\<close> line was written before) does not disturb the reader.\<close>

theorem journal_reads_back:
  assumes "reachable env replay charges p" and "env_ok env" and "replay_ok replay" and "distinct_calls env p"
    and "started = JlStarted workflow_journal_version run hash args from base inherited"
    and "list_all (\<lambda>(k, line). reads_back cd (Suc k) line) (List.enumerate 0 (started # lines_of (events p)))"
    and "10 \<notin> set torn" and "length torn \<le> max_line"
    and "torn = [] \<or> \<not> list_ex ends_run (lines_of (events p))"
    and "length (concat (map (printed_line cd) (started # lines_of (events p))) @ torn) \<le> max_journal"
  shows "read_journal cd label (concat (map (printed_line cd) (started # lines_of (events p))) @ torn) =
    Inr (started # lines_of (events p))"
proof -
  let ?lines = "started # lines_of (events p)"
  have printed: "reads_back cd (Suc (0 + k)) (?lines ! k)" if "k < length ?lines" for k
    using assms(6) that by (simp add: list_all_length nth_enumerate_eq del: enumerate_simps)
  have "read_lines cd label 0 fresh_reader (concat (map (printed_line cd) ?lines) @ torn) =
      try_then (read_all label 0 fresh_reader ?lines) (\<lambda>_. Inr ?lines)"
    by (rule read_lines_printed [OF printed assms(7,8)]) (use assms(5,9) in auto)
  moreover obtain rd where "read_all label 0 fresh_reader ?lines = Inr rd"
    using journal_accepted [OF run_lines_ok [OF assms(1-4)]] assms(5) by blast
  ultimately show ?thesis
    using assms(10) by (simp add: read_journal_def try_then_def)
qed

definition demo_started :: journal_line where
  "demo_started = JlStarted workflow_journal_version (RunId []) [] JNull None None Map.empty"

definition demo_codec :: codec where
  "demo_codec = \<lparr>cd_utf8 = (\<lambda>bytes. Inr (map unat bytes)), cd_json = (\<lambda>_. None),
     cd_record = (\<lambda>line. if line = [115] then Inr demo_started else Inr (JlEnded RoCompleted no_counts None)),
     cd_print_json = (\<lambda>_. []),
     cd_print_record = (\<lambda>line. case line of JlStarted _ _ _ _ _ _ _ \<Rightarrow> [115] | _ \<Rightarrow> [101])\<rparr>"

lemma demo_printed: "printed_line demo_codec demo_started = [115, 10]"
  "printed_line demo_codec (JlEnded RoCompleted no_counts None) = [101, 10]"
proof -
  have "redact_text [115] = [115]" "redact_text [101] = [101]" by code_simp+
  then show "printed_line demo_codec demo_started = [115, 10]"
    "printed_line demo_codec (JlEnded RoCompleted no_counts None) = [101, 10]"
    by (simp_all add: printed_line_def demo_codec_def demo_started_def utf8_def utf8_char_def)
qed

lemma demo_codec_simps [simp]:
  "cd_utf8 demo_codec bytes = Inr (map unat bytes)" "cd_json demo_codec text = None"
  "cd_record demo_codec text = (if text = [115] then Inr demo_started else Inr (JlEnded RoCompleted no_counts None))"
  by (simp_all add: demo_codec_def)

theorem journal_reads_back_witness:
  "read_journal demo_codec [] [115, 10, 101, 10] = Inr [demo_started, JlEnded RoCompleted no_counts None] \<and>
   read_journal demo_codec [] [115, 10, 101] = Inr [demo_started]"
proof -
  note demo_simps = demo_printed reads_back_def parse_line_def check_journal_version_def
    try_then_def max_line_def max_journal_def
  have "distinct_calls demo_env empty_run"
    using empty_run_ops by (auto simp: distinct_calls_def op_call_def map_filter_Cons map_filter_Nil)
  from journal_reads_back [OF empty_run_reachable demo_env_ok replay_none_ok this demo_started_def, of demo_codec "[]" "[]"]
  have "read_journal demo_codec [] [115, 10, 101, 10] = Inr [demo_started, JlEnded RoCompleted no_counts None]"
    by (simp add: empty_run_lines demo_simps)
  moreover
  have start: "lines_of (events (start_run replay_none Map.empty :: unit run)) = []"
    "distinct_calls demo_env (start_run replay_none Map.empty)"
    by (simp_all add: start_run_def events_def distinct_calls_def)
  from journal_reads_back [OF reachable_start demo_env_ok replay_none_ok start(2) demo_started_def, of demo_codec "[101]" "[]"]
  have "read_journal demo_codec [] [115, 10, 101] = Inr [demo_started]"
    by (simp add: start demo_simps)
  ultimately show ?thesis by blast
qed

text \<open>C23: when two calls of a run have the same call id, the journal may be refused. A run that
  the native decisions can reach: the first call is dispatched, the second is refused for the run's
  step limit while the first runs, and its \<open>result\<close> line consumes the first call's dispatch; the
  result of the first call is then one without a dispatch, and the run cannot be resumed.\<close>

theorem same_call_can_break_the_journal:
  "\<exists>env replay charges p. reachable env replay charges p \<and> env_ok env \<and> rn_decisions env = native_decisions \<and>
     replay = replay_none \<and> (\<exists>pre outcome counts error. lines_of (events p) = pre @ [JlEnded outcome counts error]) \<and>
     read_all label 0 fresh_reader
       (JlStarted workflow_journal_version run hash args from base inherited # lines_of (events (p :: unit run))) =
       Inl (at_line label 4 (lit ''result has no dispatch or replay''))"
proof -
  from demo_lines obtain call role model wire prompt opts refused finished outcome counts error where
    lines: "lines_of (events demo_run) =
       [JlDispatch call None role model wire 1 prompt opts, JlResult call refused, JlResult call finished,
        JlEnded outcome counts error]"
    and fits: "en_step refused = call" "en_status refused = SsFailed" "en_attempts refused = 0"
      "en_step finished = call" "en_status finished = SsDone" "en_attempts finished = 1"
    by blast
  have "read_all label 0 fresh_reader
      (JlStarted workflow_journal_version run hash args from base inherited # lines_of (events demo_run)) =
      Inl (at_line label 4 (lit ''result has no dispatch or replay''))"
    using fits
    by (simp add: lines read_record_def check_line_def open_lifecycle_def count_line_def check_result_def
        fresh_reader_def try_then_def map_err_def numeral_eq_Suc)
  moreover have "rn_decisions demo_env = native_decisions" by (simp add: demo_env_def)
  ultimately show ?thesis
    using demo_reachable demo_env_ok lines by (metis append_Cons append_Nil)
qed

text \<open>C24: the options a step runs with were checked: the tools asked for are some, none of them
  forbidden to a step, and a worktree is a slug, not given together with a workspace.\<close>

theorem parsed_options_are_checked:
  assumes "parse_options opts = Inr o'"
  shows "options_ok o' \<and> (op_worktree o' = None \<or> op_workspace o' = None)"
  using parse_options_ok [OF assms] by blast

theorem parsed_options_are_checked_witness:
  "\<exists>o'. parse_options (MapOpts (Inr (JObject [(lit ''tools'', JArray [JString (lit ''read'')])]))) = Inr o' \<and>
     op_tools o' = Some [lit ''read''] \<and> options_ok o'"
proof -
  let ?opts = "MapOpts (Inr (JObject [(lit ''tools'', JArray [JString (lit ''read'')])]))"
  have "parse_options ?opts =
      Inr (default_options\<lparr>op_tools := Some [lit ''read''],
        op_json := JObject [(lit ''tools'', JArray [JString (lit ''read'')])]\<rparr>)"
    by code_simp
  with parsed_options_are_checked [of ?opts] show ?thesis by auto
qed

text \<open>A call's identity does not depend on the order its options were written in.\<close>

theorem call_id_ignores_key_order:
  assumes "same_value opts opts'" and "keyed opts"
  shows "call_id printer label prompt opts = call_id printer label prompt opts'"
  using same_value_renders [OF assms] by (simp add: call_id_def)

definition demo_printer :: "json \<Rightarrow> ustring" where
  "demo_printer v = (case v of JString s \<Rightarrow> lit ''#'' @ s @ lit ''#'' | JBool True \<Rightarrow> lit ''true'' | _ \<Rightarrow> lit ''null'')"

theorem call_id_ignores_key_order_witness:
  "call_id demo_printer (lit ''l'') (lit ''p'') (JObject [(lit ''a'', JNull), (lit ''b'', JBool True)]) =
   call_id demo_printer (lit ''l'') (lit ''p'') (JObject [(lit ''b'', JBool True), (lit ''a'', JNull)])"
proof (rule call_id_ignores_key_order)
  show "same_value (JObject [(lit ''a'', JNull), (lit ''b'', JBool True)])
      (JObject [(lit ''b'', JBool True), (lit ''a'', JNull)])"
    by (rule same_object [where ys = "[(lit ''a'', JNull), (lit ''b'', JBool True)]"]) (simp_all add: same_scalar)
  show "keyed (JObject [(lit ''a'', JNull), (lit ''b'', JBool True)])" by (simp add: lit_def)
qed

end
