(* ===== verification/Utf8.thy ===== *)
theory Utf8
  imports Attachment
begin

text \<open>
  UTF-8 as \<open>std::str::from_utf8\<close> checks it: no overlong form, no surrogate, nothing above the last
  scalar value. The encoder is \<open>utf8\<close> of the attachments; the two are inverse to each other.
\<close>

definition scalar :: "nat \<Rightarrow> bool" where
  "scalar c \<longleftrightarrow> c < 0xD800 \<or> 0xE000 \<le> c \<and> c < 0x110000"

definition continuation :: "byte \<Rightarrow> nat option" where
  "continuation b = (if 0x80 \<le> unat b \<and> unat b < 0xC0 then Some (unat b - 0x80) else None)"

text \<open>The scalar value a byte string begins with, and the bytes after it.\<close>

fun next_char :: "byte list \<Rightarrow> (nat \<times> byte list) option" where
  "next_char [] = None"
| "next_char (b # rest) =
     (if unat b < 0x80 then Some (unat b, rest)
      else if 0xC2 \<le> unat b \<and> unat b < 0xE0 then
        (case rest of
           b1 # tail \<Rightarrow>
             (case continuation b1 of
                Some c1 \<Rightarrow> Some ((unat b - 0xC0) * 64 + c1, tail)
              | None \<Rightarrow> None)
         | _ \<Rightarrow> None)
      else if 0xE0 \<le> unat b \<and> unat b < 0xF0 then
        (case rest of
           b1 # b2 # tail \<Rightarrow>
             (case (continuation b1, continuation b2) of
                (Some c1, Some c2) \<Rightarrow>
                  (let c = (unat b - 0xE0) * 4096 + c1 * 64 + c2 in
                   if 0x800 \<le> c \<and> scalar c then Some (c, tail) else None)
              | _ \<Rightarrow> None)
         | _ \<Rightarrow> None)
      else if 0xF0 \<le> unat b \<and> unat b < 0xF5 then
        (case rest of
           b1 # b2 # b3 # tail \<Rightarrow>
             (case (continuation b1, continuation b2, continuation b3) of
                (Some c1, Some c2, Some c3) \<Rightarrow>
                  (let c = (unat b - 0xF0) * 262144 + c1 * 4096 + c2 * 64 + c3 in
                   if 0x10000 \<le> c \<and> scalar c then Some (c, tail) else None)
              | _ \<Rightarrow> None)
         | _ \<Rightarrow> None)
      else None)"

lemma next_char_shorter: "next_char bs = Some (c, rest) \<Longrightarrow> length rest < length bs"
  by (cases bs) (auto simp: Let_def split: if_splits list.splits option.splits)

function from_utf8 :: "byte list \<Rightarrow> ustring option" where
  "from_utf8 bs =
     (if bs = [] then Some []
      else case next_char bs of
             None \<Rightarrow> None
           | Some (c, rest) \<Rightarrow> map_option (Cons c) (from_utf8 rest))"
  by pat_completeness auto
termination by (relation "measure length") (auto dest: next_char_shorter)

declare from_utf8.simps [simp del]

lemma from_utf8_Nil [simp]: "from_utf8 [] = Some []"
  by (simp add: from_utf8.simps)

section \<open>The decoder inverts the encoder\<close>

lemma unat_byte: "n < 256 \<Longrightarrow> unat (word_of_nat n :: byte) = n"
  by (simp add: unat_of_nat)

lemma continuation_encoded: "x < 64 \<Longrightarrow> continuation (word_of_nat (128 + x)) = Some x"
  by (simp only: continuation_def unat_byte) (simp add: unat_byte del: of_nat_add)

lemma encoded_byte: "a + x < 256 \<Longrightarrow> unat (word_of_nat (a + x) :: byte) = a + x"
  by (rule unat_byte)

lemma div_4096: "c div 4096 = c div 64 div (64::nat)"
  by (simp add: div_mult2_eq [symmetric])

lemma div_262144: "c div 262144 = c div 64 div 64 div (64::nat)"
  by (simp add: div_mult2_eq [symmetric])

lemma split3: "c div 4096 * 4096 + c div 64 mod 64 * 64 + c mod 64 = (c::nat)"
  using div_mult_mod_eq [of c 64] div_mult_mod_eq [of "c div 64" 64]
  unfolding div_4096 by linarith

lemma split4: "c div 262144 * 262144 + c div 4096 mod 64 * 4096 + c div 64 mod 64 * 64 + c mod 64 = (c::nat)"
  using div_mult_mod_eq [of c 64] div_mult_mod_eq [of "c div 64" 64] div_mult_mod_eq [of "c div 64 div 64" 64]
  unfolding div_4096 div_262144 by linarith

lemma shift6: "y < 64 \<Longrightarrow> (x * 64 + y) div 64 = (x::nat) \<and> (x * 64 + y) mod 64 = y"
  by auto

lemma next_char_encoded:
  assumes "scalar c"
  shows "next_char (utf8_char c @ rest) = Some (c, rest)"
proof -
  consider "c < 128" | "128 \<le> c" "c < 2048" | "2048 \<le> c" "c < 65536" | "65536 \<le> c" "c < 0x110000"
    using assms by (fastforce simp: scalar_def)
  then show ?thesis
  proof cases
    case 1
    then show ?thesis by (simp add: utf8_char_def unat_byte)
  next
    case 2
    then have d: "2 \<le> c div 64" "c div 64 < 32" by auto
    then have b: "unat (word_of_nat (192 + c div 64) :: byte) = 192 + c div 64" by (intro encoded_byte) simp
    show ?thesis using 2 d
      by (simp add: utf8_char_def b continuation_encoded del: of_nat_add)
  next
    case 3
    then have d: "c div 4096 < 16" by auto
    then have b: "unat (word_of_nat (224 + c div 4096) :: byte) = 224 + c div 4096" by (intro encoded_byte) simp
    show ?thesis using 3 d assms
      by (simp add: utf8_char_def b continuation_encoded Let_def split3 del: of_nat_add)
  next
    case 4
    then have d: "c div 262144 < 5" by auto
    then have b: "unat (word_of_nat (240 + c div 262144) :: byte) = 240 + c div 262144" by (intro encoded_byte) simp
    show ?thesis using 4 d assms
      by (simp add: utf8_char_def b continuation_encoded Let_def split4 del: of_nat_add)
  qed
qed

lemma utf8_char_nonempty: "utf8_char c \<noteq> []"
  by (simp add: utf8_char_def)

lemma utf8_Nil [simp]: "utf8 [] = []"
  by (simp add: utf8_def)

lemma utf8_Cons: "utf8 (c # s) = utf8_char c @ utf8 s"
  by (simp add: utf8_def)

lemma from_utf8_utf8: "list_all scalar s \<Longrightarrow> from_utf8 (utf8 s) = Some s"
proof (induction s)
  case (Cons c s)
  then show ?case
    by (subst from_utf8.simps) (simp add: utf8_Cons utf8_char_nonempty next_char_encoded)
qed simp

section \<open>What the decoder accepts is an encoding\<close>

lemma continuation_SomeD: "continuation b = Some x \<Longrightarrow> x < 64 \<and> b = word_of_nat (128 + x)"
  by (auto simp: continuation_def split: if_splits)

lemma word_of_unat: "unat (b::byte) = n \<Longrightarrow> b = word_of_nat n"
  by auto

lemma decoded2:
  assumes "b = word_of_nat (192 + u)" "2 \<le> u" "u < 32" "x1 < 64" "b1 = word_of_nat (128 + x1)"
  shows "utf8_char (u * 64 + x1) = [b, b1]"
proof -
  have "(u * 64 + x1) div 64 = u" "(u * 64 + x1) mod 64 = x1" using assms(4) by auto
  then show ?thesis using assms by (simp add: utf8_char_def del: of_nat_add)
qed

lemma decoded3:
  assumes "b = word_of_nat (224 + u)" "u < 16" "x1 < 64" "b1 = word_of_nat (128 + x1)"
    "x2 < 64" "b2 = word_of_nat (128 + x2)" "0x800 \<le> u * 4096 + x1 * 64 + x2"
  shows "utf8_char (u * 4096 + x1 * 64 + x2) = [b, b1, b2]"
proof -
  let ?c = "u * 4096 + x1 * 64 + x2"
  have c: "?c = (u * 64 + x1) * 64 + x2" by simp
  have "?c div 64 = u * 64 + x1" "?c mod 64 = x2"
    using shift6 [OF assms(5), of "u * 64 + x1"] unfolding c by blast+
  moreover from this have "?c div 4096 = u" "?c div 64 mod 64 = x1"
    using shift6 [OF assms(3), of u] unfolding div_4096 by simp_all
  moreover have "?c < 65536" using assms(2,3,5) by linarith
  ultimately have "?c div 4096 = u" "?c div 64 mod 64 = x1" "?c mod 64 = x2" "?c < 65536" by blast+
  then show ?thesis using assms by (simp add: utf8_char_def del: of_nat_add)
qed

lemma decoded4:
  assumes "b = word_of_nat (240 + u)" "u < 5" "x1 < 64" "b1 = word_of_nat (128 + x1)"
    "x2 < 64" "b2 = word_of_nat (128 + x2)" "x3 < 64" "b3 = word_of_nat (128 + x3)"
    "0x10000 \<le> u * 262144 + x1 * 4096 + x2 * 64 + x3"
  shows "utf8_char (u * 262144 + x1 * 4096 + x2 * 64 + x3) = [b, b1, b2, b3]"
proof -
  let ?c = "u * 262144 + x1 * 4096 + x2 * 64 + x3"
  have c: "?c = ((u * 64 + x1) * 64 + x2) * 64 + x3" by simp
  have d1: "?c div 64 = (u * 64 + x1) * 64 + x2" "?c mod 64 = x3"
    using shift6 [OF assms(7), of "(u * 64 + x1) * 64 + x2"] unfolding c by blast+
  have d2: "?c div 4096 = u * 64 + x1" "?c div 64 mod 64 = x2"
    using shift6 [OF assms(5), of "u * 64 + x1"] unfolding div_4096 d1(1) by blast+
  have "?c div 262144 = u" "?c div 4096 mod 64 = x1"
    using shift6 [OF assms(3), of u] d2(1) unfolding div_262144 div_4096 by simp_all
  with d1(2) d2(2) show ?thesis using assms by (simp add: utf8_char_def del: of_nat_add)
qed

lemma next_char_decoded:
  assumes "next_char bs = Some (c, rest)"
  shows "bs = utf8_char c @ rest \<and> scalar c"
proof (cases bs)
  case Nil
  with assms show ?thesis by simp
next
  case (Cons b more)
  consider "unat b < 0x80" | "0xC2 \<le> unat b" "unat b < 0xE0" | "0xE0 \<le> unat b" "unat b < 0xF0"
    | "0xF0 \<le> unat b" "unat b < 0xF5"
    using assms Cons by (auto split: if_splits)
  then show ?thesis
  proof cases
    case 1
    with assms Cons show ?thesis by (auto simp: utf8_char_def scalar_def)
  next
    case 2
    with assms Cons obtain b1 x1 where more: "more = b1 # rest" and x1: "continuation b1 = Some x1"
      and c: "c = (unat b - 0xC0) * 64 + x1"
      by (auto split: list.splits option.splits)
    have "b = word_of_nat (192 + (unat b - 0xC0))" using 2 by simp
    with 2 continuation_SomeD [OF x1] have "utf8_char c = [b, b1]"
      unfolding c by (intro decoded2) auto
    with Cons more c 2 continuation_SomeD [OF x1] show ?thesis by (auto simp: scalar_def)
  next
    case 3
    with assms Cons obtain b1 b2 x1 x2 where more: "more = b1 # b2 # rest"
      and x: "continuation b1 = Some x1" "continuation b2 = Some x2"
      and c: "c = (unat b - 0xE0) * 4096 + x1 * 64 + x2" "0x800 \<le> c" "scalar c"
      by (auto simp: Let_def split: list.splits option.splits if_splits)
    have "b = word_of_nat (224 + (unat b - 0xE0))" using 3 by simp
    with 3 x [THEN continuation_SomeD] c(2) have "utf8_char c = [b, b1, b2]"
      unfolding c(1) by (intro decoded3) auto
    with Cons more c show ?thesis by simp
  next
    case 4
    with assms Cons obtain b1 b2 b3 x1 x2 x3 where more: "more = b1 # b2 # b3 # rest"
      and x: "continuation b1 = Some x1" "continuation b2 = Some x2" "continuation b3 = Some x3"
      and c: "c = (unat b - 0xF0) * 262144 + x1 * 4096 + x2 * 64 + x3" "0x10000 \<le> c" "scalar c"
      by (auto simp: Let_def split: list.splits option.splits if_splits)
    have "b = word_of_nat (240 + (unat b - 0xF0))" using 4 by simp
    with 4 x [THEN continuation_SomeD] c(2) have "utf8_char c = [b, b1, b2, b3]"
      unfolding c(1) by (intro decoded4) auto
    with Cons more c show ?thesis by simp
  qed
qed

lemma from_utf8_SomeD: "from_utf8 bs = Some s \<Longrightarrow> bs = utf8 s \<and> list_all scalar s"
proof (induction bs arbitrary: s rule: from_utf8.induct)
  case (1 bs)
  show ?case
  proof (cases "bs = []")
    case True
    with "1.prems" show ?thesis by simp
  next
    case False
    with "1.prems" obtain c rest s' where next_step: "next_char bs = Some (c, rest)"
      and rest: "from_utf8 rest = Some s'" and s: "s = c # s'"
      by (subst (asm) from_utf8.simps) (auto split: option.splits)
    have "rest = utf8 s' \<and> list_all scalar s'" using "1.IH" False next_step rest by blast
    with next_char_decoded [OF next_step] s show ?thesis by (simp add: utf8_Cons)
  qed
qed

lemma from_utf8_iff: "from_utf8 bs = Some s \<longleftrightarrow> bs = utf8 s \<and> list_all scalar s"
  using from_utf8_SomeD from_utf8_utf8 by blast

lemma utf8_inject: "utf8 s = utf8 t \<Longrightarrow> list_all scalar s \<Longrightarrow> list_all scalar t \<Longrightarrow> s = t"
  by (metis from_utf8_utf8 option.inject)

end
