(* ===== verification/TextOps.thy ===== *)
theory TextOps
  imports Utf8
begin

text \<open>
  The operations of Rust's \<open>str\<close> that the file tools are written with: lines, splitting, trimming,
  searching and replacing, and the tools' own bound on what the model is shown. A position is
  counted in characters where the source counts bytes of UTF-8; both only ever stand at character
  boundaries, and a length in bytes is \<open>bytes_of\<close>.
\<close>

definition bytes_of :: "ustring \<Rightarrow> nat" where
  "bytes_of s = length (utf8 s)"

lemma bytes_of_append [simp]: "bytes_of (s @ t) = bytes_of s + bytes_of t"
  by (simp add: bytes_of_def utf8_append)

lemma bytes_of_Nil [simp]: "bytes_of [] = 0"
  by (simp add: bytes_of_def)

lemma bytes_of_Cons: "bytes_of (c # s) = length (utf8_char c) + bytes_of s"
  by (simp add: bytes_of_def utf8_Cons)

section \<open>White space\<close>

text \<open>\<open>char::is_whitespace\<close>: the \<open>White_Space\<close> property of Unicode.\<close>

definition is_whitespace :: "nat \<Rightarrow> bool" where
  "is_whitespace c \<longleftrightarrow>
     9 \<le> c \<and> c \<le> 13 \<or> c = 32 \<or> c = 0x85 \<or> c = 0xA0 \<or> c = 0x1680 \<or> 0x2000 \<le> c \<and> c \<le> 0x200A \<or>
     c = 0x2028 \<or> c = 0x2029 \<or> c = 0x202F \<or> c = 0x205F \<or> c = 0x3000"

definition trim_start :: "ustring \<Rightarrow> ustring" where
  "trim_start s = dropWhile is_whitespace s"

definition trim_end :: "ustring \<Rightarrow> ustring" where
  "trim_end s = rev (dropWhile is_whitespace (rev s))"

definition trim :: "ustring \<Rightarrow> ustring" where
  "trim s = trim_end (trim_start s)"

text \<open>\<open>split_whitespace\<close>: the maximal runs of characters that are not white space.\<close>

fun split_whitespace :: "ustring \<Rightarrow> ustring list" where
  "split_whitespace [] = []"
| "split_whitespace (c # s) =
     (if is_whitespace c then split_whitespace s
      else if s = [] \<or> is_whitespace (hd s) then [c] # split_whitespace s
      else case split_whitespace s of [] \<Rightarrow> [[c]] | w # ws \<Rightarrow> (c # w) # ws)"

section \<open>Lines\<close>

text \<open>\<open>split('\\n')\<close>, \<open>split_inclusive('\\n')\<close> and \<open>lines()\<close>.\<close>

fun split_on :: "'a \<Rightarrow> 'a list \<Rightarrow> 'a list list" where
  "split_on d [] = [[]]"
| "split_on d (c # s) =
     (if c = d then [] # split_on d s else (c # hd (split_on d s)) # tl (split_on d s))"

fun split_inclusive :: "'a \<Rightarrow> 'a list \<Rightarrow> 'a list list" where
  "split_inclusive d [] = []"
| "split_inclusive d (c # s) =
     (if c = d then [c] # split_inclusive d s
      else case split_inclusive d s of [] \<Rightarrow> [[c]] | p # ps \<Rightarrow> (c # p) # ps)"

definition strip_suffix :: "'a list \<Rightarrow> 'a list \<Rightarrow> 'a list option" where
  "strip_suffix p s = (if ends_with p s then Some (take (length s - length p) s) else None)"

definition line_content :: "ustring \<Rightarrow> ustring" where
  "line_content l =
     (case strip_suffix [10] l of
        None \<Rightarrow> l
      | Some m \<Rightarrow> (case strip_suffix [13] m of None \<Rightarrow> m | Some n \<Rightarrow> n))"

definition str_lines :: "ustring \<Rightarrow> ustring list" where
  "str_lines s = map line_content (split_inclusive 10 s)"

lemma split_on_nonempty [simp]: "split_on d s \<noteq> []"
  by (cases s) auto

lemma join_split_on [simp]: "join_with [d] (split_on d s) = s"
proof (induction s)
  case (Cons c s)
  obtain p ps where split: "split_on d s = p # ps" by (cases "split_on d s") auto
  with Cons show ?case by (cases ps) auto
qed simp

lemma split_on_free: "p \<in> set (split_on d s) \<Longrightarrow> d \<notin> set p"
proof (induction s arbitrary: p)
  case (Cons c s)
  have "hd (split_on d s) \<in> set (split_on d s)" by simp
  with Cons show ?case by (auto split: if_splits dest: list.set_sel(2) [OF split_on_nonempty])
qed simp

lemma split_on_append:
  "d \<notin> set p \<Longrightarrow> split_on d (p @ d # s) = p # split_on d s"
  by (induction p) auto

lemma split_on_single: "d \<notin> set p \<Longrightarrow> split_on d p = [p]"
  by (induction p) auto

lemma split_on_join:
  "ps \<noteq> [] \<Longrightarrow> list_all (\<lambda>p. d \<notin> set p) ps \<Longrightarrow> split_on d (join_with [d] ps) = ps"
  by (induction "[d]" ps rule: join_with.induct) (simp_all add: split_on_append split_on_single)

lemma concat_split_inclusive [simp]: "concat (split_inclusive d s) = s"
  by (induction s) (auto split: list.splits)

lemma split_inclusive_append:
  "d \<notin> set p \<Longrightarrow> split_inclusive d (p @ d # s) = (p @ [d]) # split_inclusive d s"
  by (induction p) auto

lemma split_inclusive_single: "d \<notin> set p \<Longrightarrow> p \<noteq> [] \<Longrightarrow> split_inclusive d p = [p]"
proof (induction p)
  case (Cons c p)
  then show ?case by (cases p) auto
qed simp

lemma split_inclusive_pieces: "p \<in> set (split_inclusive d s) \<Longrightarrow> p \<noteq> [] \<and> d \<notin> set (butlast p)"
  by (induction s arbitrary: p) (auto split: if_splits list.splits)

lemma length_split_inclusive:
  "length (split_inclusive d s) = length (split_on d s) - (if s = [] \<or> last s = d then 1 else 0)"
proof (induction s)
  case (Cons c s)
  then show ?case
    by (cases s) (auto split: list.splits simp: length_greater_0_conv [symmetric] simp del: length_greater_0_conv)
qed simp

section \<open>Searching and replacing\<close>

text \<open>\<open>find\<close> of a substring, \<open>replace\<close>, and the non-overlapping occurrences from the left.\<close>

fun find_sub :: "'a list \<Rightarrow> 'a list \<Rightarrow> nat option" where
  "find_sub needle [] = (if needle = [] then Some 0 else None)"
| "find_sub needle (c # s) =
     (if starts_with needle (c # s) then Some 0 else map_option Suc (find_sub needle s))"

lemma starts_with_iff: "starts_with p s \<longleftrightarrow> (\<exists>t. s = p @ t)"
  by (auto simp: starts_with_def) (metis append_take_drop_id)

lemma find_sub_SomeD:
  "find_sub needle s = Some i \<Longrightarrow>
     i + length needle \<le> length s \<and> take (length needle) (drop i s) = needle \<and>
     (\<forall>j < i. take (length needle) (drop j s) \<noteq> needle)"
proof (induction s arbitrary: i)
  case (Cons c s)
  show ?case
  proof (cases "starts_with needle (c # s)")
    case True
    with Cons.prems have "i = 0" by simp
    moreover have "length needle \<le> Suc (length s)" using True by (auto simp: starts_with_iff dest: arg_cong [of _ _ length])
    ultimately show ?thesis using True by (simp add: starts_with_def)
  next
    case False
    with Cons.prems obtain i' where i': "find_sub needle s = Some i'" "i = Suc i'" by auto
    then show ?thesis using Cons.IH [OF i'(1)] False
      by (auto simp: starts_with_def less_Suc_eq_0_disj)
  qed
qed (auto split: if_splits)

lemma find_sub_None:
  "find_sub needle s = None \<Longrightarrow> take (length needle) (drop j s) \<noteq> needle \<or> (needle = [] \<and> length s < j)"
proof (induction s arbitrary: j)
  case (Cons c s)
  then show ?case by (cases j) (auto simp: starts_with_def split: if_splits)
qed (auto split: if_splits)

function find_from :: "'a list \<Rightarrow> 'a list \<Rightarrow> nat \<Rightarrow> nat list" where
  "find_from needle haystack start =
     (if needle = [] then []
      else case find_sub needle (drop start haystack) of
             None \<Rightarrow> []
           | Some i \<Rightarrow> (start + i) # find_from needle haystack (start + i + length needle))"
  by pat_completeness auto
termination
proof (relation "measure (\<lambda>(needle, haystack, start). length haystack - start)")
  fix needle haystack :: "'a list" and start i
  assume "needle \<noteq> []" "find_sub needle (drop start haystack) = Some i"
  then show "((needle, haystack, start + i + length needle), needle, haystack, start)
      \<in> measure (\<lambda>(needle, haystack, start). length haystack - start)"
    using find_sub_SomeD [of needle "drop start haystack" i] by (auto simp: length_greater_0_conv [symmetric] simp del: length_greater_0_conv)
qed simp

declare find_from.simps [simp del]

definition find_all :: "'a list \<Rightarrow> 'a list \<Rightarrow> nat list" where
  "find_all haystack needle = find_from needle haystack 0"

function str_replace :: "'a list \<Rightarrow> 'a list \<Rightarrow> 'a list \<Rightarrow> 'a list" where
  "str_replace pat new [] = []"
| "str_replace pat new (c # s) =
     (if pat \<noteq> [] \<and> starts_with pat (c # s)
      then new @ str_replace pat new (drop (length pat) (c # s))
      else c # str_replace pat new s)"
  by pat_completeness auto
termination by (relation "measure (\<lambda>(pat, new, s). length s)") (auto simp: length_greater_0_conv [symmetric] simp del: length_greater_0_conv)

lemma str_replace_char:
  "str_replace [d] new s = concat (map (\<lambda>c. if c = d then new else [c]) s)"
  by (induction s) (auto simp: starts_with_def)

declare str_replace.simps(2) [simp del]

section \<open>What the model is shown\<close>

text \<open>The first \<open>n\<close> lines, with the line break that ends the last of them.\<close>

fun first_lines :: "nat \<Rightarrow> ustring \<Rightarrow> ustring" where
  "first_lines n [] = []"
| "first_lines n (c # s) =
     (if c = 10 then (if n \<le> 1 then [c] else c # first_lines (n - 1) s) else c # first_lines n s)"

text \<open>The longest prefix of at most \<open>n\<close> bytes that ends at a character boundary.\<close>

fun take_bytes :: "nat \<Rightarrow> ustring \<Rightarrow> ustring" where
  "take_bytes n [] = []"
| "take_bytes n (c # s) =
     (if length (utf8_char c) \<le> n then c # take_bytes (n - length (utf8_char c)) s else [])"

definition bound_output :: "ustring \<Rightarrow> nat \<Rightarrow> nat \<Rightarrow> ustring" where
  "bound_output s max_bytes max_lines =
     (let lines_kept = (if max_lines > 0 then first_lines max_lines s else s);
          kept = (if max_bytes < bytes_of lines_kept then take_bytes max_bytes lines_kept else lines_kept)
      in if length kept = length s then s
         else kept @ (if ends_with [10] kept then [] else [10]) @
           lit ''[output truncated: showing '' @ dec (bytes_of kept) @ lit '' of '' @ dec (bytes_of s) @
           lit '' bytes]'')"

lemma first_lines_prefix: "\<exists>t. s = first_lines n s @ t"
  by (induction n s rule: first_lines.induct) auto

lemma take_bytes_prefix: "\<exists>t. s = take_bytes n s @ t"
  by (induction n s rule: take_bytes.induct) auto

lemma take_bytes_bound: "bytes_of (take_bytes n s) \<le> n"
  by (induction n s rule: take_bytes.induct) (auto simp: bytes_of_Cons)

lemma first_lines_count: "1 \<le> n \<Longrightarrow> count_list (first_lines n s) 10 \<le> n"
proof (induction n s rule: first_lines.induct)
  case (2 n c s)
  show ?case
  proof (cases "n \<le> 1")
    case False
    then have "1 \<le> n - 1" by simp
    with 2 False show ?thesis by (cases "c = 10") fastforce+
  qed (use 2 in auto)
qed simp

lemma bound_output_short:
  assumes "max_lines = 0 \<or> first_lines max_lines s = s" and "bytes_of s \<le> max_bytes"
  shows "bound_output s max_bytes max_lines = s"
  using assms by (auto simp: bound_output_def Let_def)

end
