(* ===== verification/EditText.thy ===== *)
theory EditText
  imports TextOps "HOL-Library.Product_Lexorder"
begin

text \<open>
  The pure logic of the \<open>edit\<close> tool, \<open>crates/p1-tool-edit/logic/src/lib.rs\<close>: where a replacement's
  text is found in a file, exactly or folded, what the file holds afterwards, and the texts the
  model is shown. How serde reads the call's JSON (\<open>RawInput\<close>, \<open>SingleInput\<close>) is the parameter
  \<open>edit_codec\<close>.
\<close>

section \<open>The input of a call\<close>

record replacement =
  rp_old :: ustring
  rp_new :: ustring
  rp_all :: bool

record edit_input =
  ei_path :: ustring
  ei_edits :: "replacement list"
  ei_listed :: bool

definition edit_single :: "ustring \<Rightarrow> ustring \<Rightarrow> ustring \<Rightarrow> bool \<Rightarrow> edit_input" where
  "edit_single path old_s new_s all =
     \<lparr>ei_path = path, ei_edits = [\<lparr>rp_old = old_s, rp_new = new_s, rp_all = all\<rparr>], ei_listed = False\<rparr>"

definition entry_separator :: ustring where
  "entry_separator = [10, 0x2026, 10]"

definition before_and_after :: "edit_input \<Rightarrow> ustring \<times> ustring" where
  "before_and_after input =
     (join_with entry_separator (map rp_old (ei_edits input)),
      join_with entry_separator (map rp_new (ei_edits input)))"

text \<open>The wire shape, and the single form as it is parsed on its own.\<close>

record raw_edit =
  re_path :: ustring
  re_old :: "ustring option"
  re_new :: "ustring option"
  re_all :: "bool option"
  re_edits :: "replacement list option"

record edit_codec =
  ec_raw :: "ustring \<Rightarrow> ustring + raw_edit"
  ec_single :: "ustring \<Rightarrow> ustring + (ustring \<times> ustring \<times> ustring \<times> bool)"

definition invalid_input :: "ustring \<Rightarrow> ustring \<Rightarrow> ustring" where
  "invalid_input tool reason = lit ''Invalid input for '' @ tool @ lit '': '' @ reason"

definition parse_json_input :: "edit_codec \<Rightarrow> ustring \<Rightarrow> ustring \<Rightarrow> ustring + edit_input" where
  "parse_json_input codec tool raw =
     (case ec_raw codec raw of
        Inl e \<Rightarrow> Inl (invalid_input tool e)
      | Inr input \<Rightarrow>
          (case re_edits input of
             None \<Rightarrow>
               (case ec_single codec raw of
                  Inl e \<Rightarrow> Inl (invalid_input tool e)
                | Inr (path, old_s, new_s, all) \<Rightarrow>
                    if old_s = [] then Inl (invalid_input tool (lit ''`old_string` must not be empty''))
                    else Inr (edit_single path old_s new_s all))
           | Some edits \<Rightarrow>
               if re_old input \<noteq> None \<or> re_new input \<noteq> None \<or> re_all input = Some True then
                 Inl (invalid_input tool
                   (lit ''give either `edits` or `old_string`/`new_string`/`replace_all`, not both''))
               else if edits = [] then Inl (invalid_input tool (lit ''`edits` must not be empty''))
               else (case position (\<lambda>entry. rp_old entry = []) edits of
                       Some i \<Rightarrow> Inl (invalid_input tool
                         (lit ''`edits['' @ dec i @ lit ''].old_string` must not be empty''))
                     | None \<Rightarrow> Inr \<lparr>ei_path = re_path input, ei_edits = edits, ei_listed = True\<rparr>)))"

definition is_no_change :: "edit_input \<Rightarrow> bool" where
  "is_no_change input \<longleftrightarrow> list_all (\<lambda>entry. rp_old entry = rp_new entry) (ei_edits input)"

definition no_change :: "edit_input \<Rightarrow> ustring" where
  "no_change input =
     (if ei_listed input
      then lit ''No change: every entry's old_string and new_string are identical; '' @ ei_path input @
        lit '' was not modified.''
      else lit ''No change: old_string and new_string are identical; '' @ ei_path input @
        lit '' was not modified.'')"

definition text_input_error :: "ustring \<Rightarrow> ustring" where
  "text_input_error tool = invalid_input tool (lit ''expected a JSON object input, got freeform text'')"

definition does_not_exist :: "ustring \<Rightarrow> ustring" where
  "does_not_exist display = display @ lit '' does not exist.''"

definition could_not_read :: "ustring \<Rightarrow> ustring \<Rightarrow> ustring" where
  "could_not_read display err = display @ lit '' could not be read: '' @ err"

definition never_observed :: "ustring \<Rightarrow> ustring" where
  "never_observed display = lit ''You must read '' @ display @ lit '' before changing it.''"

definition changed_since_observed :: "ustring \<Rightarrow> ustring" where
  "changed_since_observed display = display @ lit '' changed on disk since you last read it; read it again.''"

definition failed_to_write :: "ustring \<Rightarrow> ustring \<Rightarrow> ustring" where
  "failed_to_write display err = lit ''failed to write '' @ display @ lit '': '' @ err"

definition escapes_workspace :: "ustring \<Rightarrow> ustring" where
  "escapes_workspace requested = lit ''path escapes workspace: '' @ requested"

section \<open>Line endings and the byte order mark\<close>

definition strip_bom :: "ustring \<Rightarrow> ustring \<times> bool" where
  "strip_bom s = (case strip_prefix [0xFEFF] s of None \<Rightarrow> (s, False) | Some t \<Rightarrow> (t, True))"

datatype line_ending = CrLf | Cr | Lf

fun detect_line_ending :: "ustring \<Rightarrow> line_ending" where
  "detect_line_ending [] = Lf"
| "detect_line_ending (c # s) =
     (if c = 13 then (if starts_with [10] s then CrLf else Cr)
      else if c = 10 then Lf else detect_line_ending s)"

text \<open>The text with every line ending as a line feed, and for every position of that text (its end
  included) the position it comes from.\<close>

fun normalized_from :: "nat \<Rightarrow> ustring \<Rightarrow> (nat \<times> nat) list" where
  "normalized_from i [] = []"
| "normalized_from i (c # s) =
     (if c = 13 then
        (case s of
           d # t \<Rightarrow> if d = 10 then (10, i) # normalized_from (i + 2) t else (10, i) # normalized_from (i + 1) s
         | [] \<Rightarrow> (10, i) # normalized_from (i + 1) s)
      else (c, i) # normalized_from (i + 1) s)"

definition normalized_with_offsets :: "ustring \<Rightarrow> ustring \<times> nat list" where
  "normalized_with_offsets s =
     (map fst (normalized_from 0 s), map snd (normalized_from 0 s) @ [length s])"

fun normalize_to_lf :: "ustring \<Rightarrow> ustring" where
  "normalize_to_lf [] = []"
| "normalize_to_lf (c # s) =
     (if c = 13 then
        (case s of
           d # t \<Rightarrow> if d = 10 then 10 # normalize_to_lf t else 10 # normalize_to_lf s
         | [] \<Rightarrow> 10 # normalize_to_lf s)
      else c # normalize_to_lf s)"

fun restore_line_endings :: "ustring \<Rightarrow> line_ending \<Rightarrow> ustring" where
  "restore_line_endings s CrLf = str_replace [10] [13, 10] s"
| "restore_line_endings s Cr = str_replace [10] [13] s"
| "restore_line_endings s Lf = s"

section \<open>The tolerant match\<close>

definition is_unicode_space :: "nat \<Rightarrow> bool" where
  "is_unicode_space c \<longleftrightarrow>
     c = 0x00A0 \<or> c = 0x1680 \<or> 0x2000 \<le> c \<and> c \<le> 0x200A \<or> c = 0x202F \<or> c = 0x205F \<or> c = 0x3000 \<or>
     is_whitespace c \<and> c \<notin> {10, 13, 9, 32}"

definition fold_char :: "nat \<Rightarrow> nat" where
  "fold_char c =
     (if is_unicode_space c then 32
      else if c \<in> {0x2018, 0x2019} then 39
      else if c \<in> {0x201C, 0x201D, 0x201E, 0x201F} then 34
      else if c \<in> {0x2010, 0x2011, 0x2012, 0x2013, 0x2014, 0x2015, 0x2212} then 45
      else c)"

text \<open>The folded characters with the positions they come from, before trailing white space is
  dropped.\<close>

fun fold_chars :: "nat \<Rightarrow> ustring \<Rightarrow> (nat \<times> nat) list" where
  "fold_chars i [] = []"
| "fold_chars i (c # s) =
     (if c = 13 then
        (case s of
           d # t \<Rightarrow> if d = 10 then (10, i) # fold_chars (i + 2) t else (10, i) # fold_chars (i + 1) s
         | [] \<Rightarrow> (10, i) # fold_chars (i + 1) s)
      else (fold_char c, i) # fold_chars (i + 1) s)"

text \<open>The scan from the right: whether each character is kept, and whether the scan stands in the
  white space at the end of a line.\<close>

fun keep_flags :: "nat list \<Rightarrow> bool list \<times> bool" where
  "keep_flags [] = ([], True)"
| "keep_flags (c # cs) =
     (let (kept, trailing) = keep_flags cs in
      if c = 10 then (True # kept, True)
      else if is_whitespace c \<and> trailing then (False # kept, trailing)
      else (True # kept, False))"

definition normalize_tolerant :: "ustring \<Rightarrow> ustring \<times> nat list" where
  "normalize_tolerant s =
     (let chars = fold_chars 0 s;
          kept = map fst (filter snd (zip chars (fst (keep_flags (map fst chars)))))
      in (map fst kept, map snd kept @ [length s]))"

text \<open>The ranges of the needle in the normalized text, and whether they are tolerant matches.\<close>

definition locate :: "ustring \<Rightarrow> ustring \<Rightarrow> ((nat \<times> nat) list \<times> bool) option" where
  "locate normalized needle =
     (let exact = find_all normalized needle in
      if exact \<noteq> [] then Some (map (\<lambda>start. (start, start + length needle)) exact, False)
      else
        let (haystack, offsets) = normalize_tolerant normalized;
            folded = fst (normalize_tolerant needle)
        in if folded = [] then None
           else let matches = map (\<lambda>start. (offsets ! start, offsets ! (start + length folded)))
                                (find_all haystack folded)
                in if matches = [] then None else Some (matches, True))"

section \<open>Echoed regions\<close>

definition region_max_lines :: nat where "region_max_lines = 40"

definition region_max_bytes :: nat where "region_max_bytes = 8000"

definition max_line_chars :: nat where "max_line_chars = 200"

definition numbered_line :: "ustring list \<Rightarrow> nat \<Rightarrow> ustring" where
  "numbered_line lines index =
     (let line = (if index < length lines then lines ! index else []);
          number = dec (index + 1)
      in replicate (4 - length number) 32 @ number @ lit '' | '' @ take max_line_chars line @
         (if length line > max_line_chars then lit '' ...'' else []))"

definition hidden_note :: "nat \<Rightarrow> ustring" where
  "hidden_note hidden = lit ''     '' @ [0x2026] @ lit '' '' @ dec hidden @ lit '' lines not shown''"

text \<open>Lines from both ends in turn while they fit: \<open>(head, tail)\<close>, the tail in the order it was
  taken.\<close>

fun take_ends ::
  "(nat \<Rightarrow> ustring) \<Rightarrow> nat \<Rightarrow> nat \<Rightarrow> nat \<Rightarrow> nat \<Rightarrow> ustring list \<Rightarrow> ustring list \<Rightarrow> ustring list \<times> ustring list"
where
  "take_ends render 0 bytes front back hd_lines tl_lines = (hd_lines, tl_lines)"
| "take_ends render (Suc rounds) bytes front back hd_lines tl_lines =
     (let take_front = length hd_lines \<le> length tl_lines;
          line = render (if take_front then front else back)
      in if length hd_lines + length tl_lines + 2 > region_max_lines \<or>
            bytes + bytes_of line + 1 > region_max_bytes
         then (hd_lines, tl_lines)
         else if take_front
         then take_ends render rounds (bytes + bytes_of line + 1) (front + 1) back (hd_lines @ [line]) tl_lines
         else take_ends render rounds (bytes + bytes_of line + 1) front (back - 1) hd_lines (tl_lines @ [line]))"

definition numbered_lines :: "ustring \<Rightarrow> nat \<Rightarrow> nat \<Rightarrow> nat \<Rightarrow> ustring" where
  "numbered_lines content from_line to_line context_lines =
     (let lines = split_on 10 content;
          lo = from_line - context_lines;
          hi = min (to_line + context_lines) (length lines - 1);
          count = hi + 1 - lo;
          whole = join_with [10] (map (numbered_line lines) [lo..<hi + 1])
      in if count \<le> region_max_lines \<and> bytes_of whole \<le> region_max_bytes then whole
         else let (hd_lines, tl_lines) =
                take_ends (numbered_line lines) count (bytes_of (hidden_note count)) lo hi [] [];
                  hidden = count - length hd_lines - length tl_lines
              in join_with [10] (hd_lines @ (if hidden > 0 then [hidden_note hidden] else []) @ rev tl_lines))"

text \<open>\<open>matches('\\n').count()\<close>.\<close>

definition newlines_in :: "ustring \<Rightarrow> nat" where
  "newlines_in s = count_list s 10"

definition region_snippet :: "ustring \<Rightarrow> nat \<Rightarrow> nat \<Rightarrow> ustring" where
  "region_snippet content start stop =
     numbered_lines content (newlines_in (take start content)) (newlines_in (take stop content)) 2"

text \<open>The line with the most words of the target, the first of them: \<open>(score, index)\<close>.\<close>

fun best_line :: "ustring list \<Rightarrow> nat \<Rightarrow> ustring list \<Rightarrow> (nat \<times> nat) option \<Rightarrow> (nat \<times> nat) option" where
  "best_line target_words index [] best = best"
| "best_line target_words index (line # lines) best =
     (let score = length (filter (\<lambda>word. word \<in> set target_words) (split_whitespace line)) in
      best_line target_words (index + 1) lines
        (if score > 0 \<and> (case best of None \<Rightarrow> True | Some (best_score, _) \<Rightarrow> score > best_score)
         then Some (score, index) else best))"

definition closest_candidate_region :: "ustring \<Rightarrow> ustring \<Rightarrow> (nat \<times> ustring) option" where
  "closest_candidate_region content needle =
     (case List.find (\<lambda>line. trim line \<noteq> []) (str_lines needle) of
        None \<Rightarrow> None
      | Some line \<Rightarrow>
          (let target_words = split_whitespace (trim line) in
           if target_words = [] then None
           else (case best_line target_words 0 (split_on 10 content) None of
                   None \<Rightarrow> None
                 | Some (_, index) \<Rightarrow> Some (index + 1, numbered_lines content index index 2))))"

definition not_found :: "ustring \<Rightarrow> ustring \<Rightarrow> ustring \<Rightarrow> ustring" where
  "not_found display normalized needle =
     lit ''old_string was not found in '' @ display @ lit ''.'' @
     (case closest_candidate_region normalized needle of
        None \<Rightarrow> []
      | Some (line, region) \<Rightarrow>
          newline @ lit ''Closest matching region (around line '' @ dec line @ lit ''):'' @ newline @ region)"

section \<open>The edit\<close>

record edited =
  ed_contents :: ustring
  ed_replacements :: nat
  ed_region :: "ustring option"

record span =
  sp_start :: nat
  sp_end :: nat
  sp_entry :: nat
  sp_tolerant :: bool

definition edit_failed :: "bool \<Rightarrow> nat \<Rightarrow> ustring \<Rightarrow> ustring" where
  "edit_failed listed index message =
     (if listed then lit ''edits['' @ dec index @ lit ''] failed; no edit was applied. '' @ message
      else message)"

text \<open>The matched ranges of every replacement, in call order, or the first failure.\<close>

fun collect_spans ::
  "ustring \<Rightarrow> bool \<Rightarrow> ustring \<Rightarrow> nat \<Rightarrow> replacement list \<Rightarrow> ustring + span list"
where
  "collect_spans display listed normalized index [] = Inr []"
| "collect_spans display listed normalized index (entry # entries) =
     (let old_string = normalize_to_lf (rp_old entry) in
      case locate normalized old_string of
        None \<Rightarrow> Inl (edit_failed listed index (not_found display normalized old_string))
      | Some (ranges, tolerant) \<Rightarrow>
          if length ranges > 1 \<and> \<not> rp_all entry then
            Inl (edit_failed listed index
              (lit ''old_string occurs '' @ dec (length ranges) @ lit '' times in '' @ display @
               lit ''; add context to make it unique or set replace_all.''))
          else
            (case collect_spans display listed normalized (index + 1) entries of
               Inl e \<Rightarrow> Inl e
             | Inr spans \<Rightarrow>
                 Inr (map (\<lambda>(start, stop). \<lparr>sp_start = start, sp_end = stop, sp_entry = index,
                        sp_tolerant = tolerant\<rparr>) ranges @ spans)))"

text \<open>The first two neighbours of which the second starts before the first ends.\<close>

fun overlapping :: "span list \<Rightarrow> (span \<times> span) option" where
  "overlapping (a # b # spans) =
     (if sp_start b < sp_end a then Some (a, b) else overlapping (b # spans))"
| "overlapping _ = None"

definition piece :: "'a list \<Rightarrow> nat \<Rightarrow> nat \<Rightarrow> 'a list" where
  "piece xs i j = take (j - i) (drop i xs)"

record edit_build =
  eb_restored :: ustring
  eb_cursor :: nat
  eb_view :: ustring
  eb_view_cursor :: nat
  eb_first :: "(nat \<times> nat) option"

definition apply_span ::
  "ustring \<Rightarrow> ustring \<Rightarrow> nat list \<Rightarrow> line_ending \<Rightarrow> ustring list \<Rightarrow> bool \<Rightarrow> span \<Rightarrow> edit_build \<Rightarrow> edit_build"
where
  "apply_span body normalized offsets ending new_strings tolerant sp b =
     (let new_string = new_strings ! sp_entry sp;
          b' = b\<lparr>eb_restored := eb_restored b @ piece body (eb_cursor b) (offsets ! sp_start sp) @
                  restore_line_endings new_string ending,
                 eb_cursor := offsets ! sp_end sp\<rparr>
      in if tolerant then
           let view = eb_view b' @ piece normalized (eb_view_cursor b') (sp_start sp);
               view' = view @ new_string
           in b'\<lparr>eb_view := view',
                 eb_first := (if sp_tolerant sp \<and> eb_first b' = None
                   then Some (length view, length view') else eb_first b'),
                 eb_view_cursor := sp_end sp\<rparr>
         else b')"

definition edit_text :: "ustring \<Rightarrow> byte list \<Rightarrow> edit_input \<Rightarrow> ustring + edited" where
  "edit_text display bytes input =
     (case from_utf8 bytes of
        None \<Rightarrow> Inl (display @ lit '' is not valid UTF-8.'')
      | Some txt \<Rightarrow>
          (let (body, had_bom) = strip_bom txt;
               ending = detect_line_ending body;
               (normalized, offsets) = normalized_with_offsets body
           in case collect_spans display (ei_listed input) normalized 0 (ei_edits input) of
                Inl e \<Rightarrow> Inl e
              | Inr found \<Rightarrow>
                  (let spans = sort_key (\<lambda>sp. (sp_start sp, sp_end sp)) found in
                   case overlapping spans of
                     Some (a, b) \<Rightarrow>
                       Inl (lit ''edits['' @ dec (min (sp_entry a) (sp_entry b)) @ lit ''] and edits['' @
                         dec (max (sp_entry a) (sp_entry b)) @ lit ''] overlap in '' @ display @
                         lit ''; no edit was applied. Merge them into one entry.'')
                   | None \<Rightarrow>
                       (let new_strings = map (\<lambda>entry. normalize_to_lf (rp_new entry)) (ei_edits input);
                            tolerant = list_ex sp_tolerant spans;
                            b = fold (apply_span body normalized offsets ending new_strings tolerant) spans
                                  \<lparr>eb_restored = [], eb_cursor = 0, eb_view = [], eb_view_cursor = 0,
                                   eb_first = None\<rparr>;
                            restored = eb_restored b @ drop (eb_cursor b) body
                        in Inr \<lparr>ed_contents = (if had_bom then 0xFEFF # restored else restored),
                                ed_replacements = length spans,
                                ed_region = map_option
                                  (\<lambda>(start, stop). region_snippet
                                     (eb_view b @ drop (eb_view_cursor b) normalized) start stop)
                                  (eb_first b)\<rparr>))))"

definition max_output_bytes :: nat where "max_output_bytes = 50000"

definition max_output_lines :: nat where "max_output_lines = 2000"

definition edited_output :: "ustring \<Rightarrow> nat \<Rightarrow> ustring option \<Rightarrow> ustring" where
  "edited_output display replacements region =
     bound_output
       (lit ''Edited '' @ display @ lit '' ('' @ dec replacements @ lit '' replacement'' @
        (if replacements = 1 then [] else lit ''s'') @ lit '').'' @
        (case region of None \<Rightarrow> [] | Some r \<Rightarrow> newline @ lit ''Applied region (tolerant match):'' @ newline @ r))
       max_output_bytes max_output_lines"

end
