(* ===== verification/EditMatch.thy ===== *)
theory EditMatch
  imports EditText
begin

text \<open>
  What an edit does to a file: the ranges it replaces are the matches of the call's entries, exact
  or folded, and everything outside them stays byte for byte.
\<close>

section \<open>Offsets of the normalized text\<close>

lemma length_normalized_from [simp]: "length (normalized_from i s) \<le> length s"
  by (induction i s rule: normalized_from.induct) (auto split: list.splits)

lemma normalized_from_fst: "map fst (normalized_from i s) = normalize_to_lf s"
  by (induction i s rule: normalized_from.induct) (auto split: list.splits)

lemma normalized_snd_eq: "fst (normalized_with_offsets s) = normalize_to_lf s"
  by (simp add: normalized_with_offsets_def normalized_from_fst)

lemma normalize_to_lf_free: "13 \<notin> set (normalize_to_lf s)"
  by (induction s rule: normalize_to_lf.induct) (auto split: list.splits)

text \<open>Cutting the source at an offset cuts the normalized text at the position.\<close>

lemma cut_at_offset:
  assumes "p \<le> length (normalized_from i s)"
  shows "i \<le> (map snd (normalized_from i s) @ [i + length s]) ! p \<and>
    (map snd (normalized_from i s) @ [i + length s]) ! p \<le> i + length s \<and>
    normalized_from i (take ((map snd (normalized_from i s) @ [i + length s]) ! p - i) s) =
      take p (normalized_from i s) \<and>
    normalized_from ((map snd (normalized_from i s) @ [i + length s]) ! p)
        (drop ((map snd (normalized_from i s) @ [i + length s]) ! p - i) s) = drop p (normalized_from i s)"
  using assms
proof (induction i s arbitrary: p rule: normalized_from.induct)
  case (1 i)
  then show ?case by simp
next
  case (2 i c s)
  show ?case
  proof (cases p)
    case 0
    then show ?thesis by (auto split: list.splits)
  next
    case (Suc q)
    consider (crlf) t where "c = 13" "s = 10 # t" | (cr) "c = 13" "\<And>t. s \<noteq> 10 # t" | (other) "c \<noteq> 13"
      by blast
    then show ?thesis
    proof cases
      case crlf
      with "2.prems" Suc have q: "q \<le> length (normalized_from (i + 2) t)" by simp
      let ?o = "(map snd (normalized_from (i + 2) t) @ [i + 2 + length t]) ! q"
      have ih: "i + 2 \<le> ?o \<and> ?o \<le> i + 2 + length t \<and>
          normalized_from (i + 2) (take (?o - (i + 2)) t) = take q (normalized_from (i + 2) t) \<and>
          normalized_from ?o (drop (?o - (i + 2)) t) = drop q (normalized_from (i + 2) t)"
        using "2.IH"(2) [OF crlf(1) crlf(2) refl q] by simp
      have o: "(map snd (normalized_from i (c # s)) @ [i + length (c # s)]) ! p = ?o"
        using crlf Suc by simp
      from ih obtain r where r: "?o = i + 2 + r" "r \<le> length t"
        "normalized_from (i + 2) (take r t) = take q (normalized_from (i + 2) t)"
        "normalized_from (i + 2 + r) (drop r t) = drop q (normalized_from (i + 2) t)"
        by (metis (no_types, lifting) add_le_cancel_left le_Suc_ex diff_add_inverse)
      show ?thesis unfolding o r(1) using r(2-4) crlf Suc by simp
    next
      case cr
      then have n: "normalized_from i (c # s) = (10, i) # normalized_from (i + 1) s"
        by (auto split: list.splits)
      with "2.prems" Suc have q: "q \<le> length (normalized_from (i + 1) s)" by simp
      let ?o = "(map snd (normalized_from (i + 1) s) @ [i + 1 + length s]) ! q"
      have ih: "i + 1 \<le> ?o \<and> ?o \<le> i + 1 + length s \<and>
          normalized_from (i + 1) (take (?o - (i + 1)) s) = take q (normalized_from (i + 1) s) \<and>
          normalized_from ?o (drop (?o - (i + 1)) s) = drop q (normalized_from (i + 1) s)"
      proof (cases s)
        case Nil
        then show ?thesis using "2.IH"(1) [OF cr(1) Nil, of q] q by simp
      next
        case (Cons d t)
        have "d \<noteq> 10" using cr(2) [of t] Cons by auto
        then show ?thesis using "2.IH"(3) [OF cr(1) Cons, of q] q by simp
      qed
      have o: "(map snd (normalized_from i (c # s)) @ [i + length (c # s)]) ! p = ?o"
        unfolding n using Suc by simp
      from ih obtain r where r: "?o = i + 1 + r" "r \<le> length s"
        "normalized_from (i + 1) (take r s) = take q (normalized_from (i + 1) s)"
        "normalized_from (i + 1 + r) (drop r s) = drop q (normalized_from (i + 1) s)"
        by (metis (no_types, lifting) add_le_cancel_left le_Suc_ex diff_add_inverse)
      have k: "normalized_from i (c # take r s) = (10, i) # normalized_from (i + 1) (take r s)"
        using cr by (cases s; cases r) (auto split: list.splits)
      show ?thesis unfolding o unfolding r(1) n using r(2-4) Suc k by (simp del: normalized_from.simps(2))
    next
      case other
      with "2.prems" Suc have q: "q \<le> length (normalized_from (i + 1) s)" by simp
      let ?o = "(map snd (normalized_from (i + 1) s) @ [i + 1 + length s]) ! q"
      have ih: "i + 1 \<le> ?o \<and> ?o \<le> i + 1 + length s \<and>
          normalized_from (i + 1) (take (?o - (i + 1)) s) = take q (normalized_from (i + 1) s) \<and>
          normalized_from ?o (drop (?o - (i + 1)) s) = drop q (normalized_from (i + 1) s)"
        using "2.IH"(4) [OF other q] by simp
      have o: "(map snd (normalized_from i (c # s)) @ [i + length (c # s)]) ! p = ?o"
        using other Suc by simp
      from ih obtain r where r: "?o = i + 1 + r" "r \<le> length s"
        "normalized_from (i + 1) (take r s) = take q (normalized_from (i + 1) s)"
        "normalized_from (i + 1 + r) (drop r s) = drop q (normalized_from (i + 1) s)"
        by (metis (no_types, lifting) add_le_cancel_left le_Suc_ex diff_add_inverse)
      show ?thesis unfolding o r(1) using r(2-4) other Suc by simp
    qed
  qed
qed

text \<open>The offset of a position, and what a piece between two offsets normalizes to.\<close>

definition offset :: "ustring \<Rightarrow> nat \<Rightarrow> nat" where
  "offset s p = snd (normalized_with_offsets s) ! p"

lemma offset_eq: "offset s p = (map snd (normalized_from 0 s) @ [0 + length s]) ! p"
  by (simp add: offset_def normalized_with_offsets_def)

lemma length_normalized: "length (normalize_to_lf s) = length (normalized_from 0 s)"
  using normalized_from_fst [of 0 s] by (metis length_map)

lemma normalized_from_shift: "map fst (normalized_from i s) = map fst (normalized_from j s)"
  by (simp add: normalized_from_fst)

lemma offset_cut:
  assumes "p \<le> length (normalize_to_lf s)"
  shows "offset s p \<le> length s" and "normalize_to_lf (take (offset s p) s) = take p (normalize_to_lf s)"
    and "normalize_to_lf (drop (offset s p) s) = drop p (normalize_to_lf s)"
proof -
  have cut: "offset s p \<le> length s"
    "normalized_from 0 (take (offset s p) s) = take p (normalized_from 0 s)"
    "normalized_from (offset s p) (drop (offset s p) s) = drop p (normalized_from 0 s)"
    using cut_at_offset [of p 0 s] assms unfolding length_normalized offset_eq by simp_all
  show "offset s p \<le> length s" by (rule cut(1))
  show "normalize_to_lf (take (offset s p) s) = take p (normalize_to_lf s)"
    using arg_cong [OF cut(2), of "map fst"] by (simp only: normalized_from_fst take_map [symmetric])
  show "normalize_to_lf (drop (offset s p) s) = drop p (normalize_to_lf s)"
    using arg_cong [OF cut(3), of "map fst"] by (simp only: normalized_from_fst drop_map [symmetric])
qed


lemma offset_piece:
  assumes "p \<le> q" "q \<le> length (normalize_to_lf s)"
  shows "offset s p \<le> offset s q" and "normalize_to_lf (piece s (offset s p) (offset s q)) = piece (normalize_to_lf s) p q"
    and "p < q \<Longrightarrow> offset s p < offset s q"
proof -
  let ?n = "normalized_from 0 s" let ?o = "offset s p" let ?t = "drop ?o s"
  have p: "p \<le> length ?n" and q: "q \<le> length ?n" using assms by (simp_all add: length_normalized)
  have cut: "?o \<le> length s" "normalized_from ?o ?t = drop p ?n"
    using cut_at_offset [OF p] by (simp_all add: offset_eq)
  have at: "(map snd (normalized_from ?o ?t) @ [?o + length ?t]) ! (q - p) = offset s q"
    using assms(1) p q cut(1) unfolding cut(2) by (cases "q = length ?n") (auto simp: offset_eq nth_append)
  have sub: "q - p \<le> length (normalized_from ?o ?t)" using assms(1) q by (simp add: cut(2))
  have cut2: "?o \<le> offset s q" "normalized_from ?o (take (offset s q - ?o) ?t) = take (q - p) (drop p ?n)"
    using cut_at_offset [OF sub, unfolded at] unfolding cut(2) by blast+
  show "offset s p \<le> offset s q" by (rule cut2(1))
  show "normalize_to_lf (piece s (offset s p) (offset s q)) = piece (normalize_to_lf s) p q"
    using arg_cong [OF cut2(2), of "map fst"]
    by (simp add: piece_def normalized_from_fst flip: take_map drop_map)
  assume "p < q"
  have "offset s p \<noteq> offset s q"
  proof
    assume "offset s p = offset s q"
    with cut2(2) have "take (q - p) (drop p ?n) = []" by simp
    with \<open>p < q\<close> q show False by simp
  qed
  with cut2(1) show "offset s p < offset s q" by simp
qed

section \<open>Occurrences\<close>

lemma find_from_occurrences:
  "needle \<noteq> [] \<Longrightarrow> start \<le> length h \<Longrightarrow>
   sorted_wrt (\<lambda>a b. a + length needle \<le> b) (find_from needle h start) \<and>
   (\<forall>p \<in> set (find_from needle h start). start \<le> p \<and> p + length needle \<le> length h \<and>
      piece h p (p + length needle) = needle)"
proof (induction needle h start rule: find_from.induct)
  case (1 needle h start)
  show ?case
  proof (cases "find_sub needle (drop start h)")
    case None
    then show ?thesis by (subst find_from.simps, subst (2) find_from.simps) (simp add: "1.prems")
  next
    case (Some i)
    note at = find_sub_SomeD [OF Some]
    have next_start: "start + i + length needle \<le> length h" using at "1.prems"(2) by auto
    have step: "find_from needle h start = (start + i) # find_from needle h (start + i + length needle)"
      using Some "1.prems" by (subst find_from.simps) simp
    have "piece h (start + i) (start + i + length needle) = needle"
      using at by (simp add: piece_def add.commute)
    with "1.IH" [OF "1.prems"(1) Some "1.prems"(1) next_start] next_start show ?thesis
      unfolding step by auto
  qed
qed

lemma find_all_occurrences:
  assumes "needle \<noteq> []"
  shows "sorted_wrt (\<lambda>a b. a + length needle \<le> b) (find_all h needle)"
    and "p \<in> set (find_all h needle) \<Longrightarrow> p + length needle \<le> length h \<and> piece h p (p + length needle) = needle"
  using find_from_occurrences [OF assms, of 0 h] by (auto simp: find_all_def)

lemma find_all_Nil:
  assumes "find_all h needle = []" "needle \<noteq> []"
  shows "piece h p (p + length needle) \<noteq> needle"
proof -
  have "find_sub needle h = None"
    using assms by (auto simp: find_all_def find_from.simps [of needle h 0] split: option.splits)
  from find_sub_None [OF this, of p] assms(2) show ?thesis by (auto simp: piece_def)
qed

lemma find_all_unique:
  assumes "needle \<noteq> []" "piece h p (p + length needle) = needle"
    and "\<And>q. piece h q (q + length needle) = needle \<Longrightarrow> q = p"
  shows "find_all h needle = [p]"
proof -
  have ne: "find_all h needle \<noteq> []" using find_all_Nil assms(1,2) by blast
  have all: "\<And>q. q \<in> set (find_all h needle) \<Longrightarrow> q = p"
    using find_all_occurrences(2) [OF assms(1)] assms(3) by blast
  obtain a rest where list: "find_all h needle = a # rest" using ne by (cases "find_all h needle") auto
  have "rest = []"
  proof (cases rest)
    case (Cons b more)
    with find_all_occurrences(1) [OF assms(1), of h] list have "a + length needle \<le> b" by simp
    moreover have "a = p" "b = p" using all list Cons by auto
    ultimately show ?thesis using assms(1) by simp
  qed simp
  with list all show ?thesis by simp
qed


section \<open>The folded text\<close>

text \<open>The scan of \<open>keep_flags\<close> with the state it has after the text to the right.\<close>

fun flags_from :: "bool \<Rightarrow> nat list \<Rightarrow> bool list \<times> bool" where
  "flags_from b [] = ([], b)"
| "flags_from b (c # cs) =
     (let (kept, trailing) = flags_from b cs in
      if c = 10 then (True # kept, True)
      else if is_whitespace c \<and> trailing then (False # kept, trailing)
      else (True # kept, False))"

lemma keep_flags_eq: "keep_flags cs = flags_from True cs"
  by (induction cs) (simp_all add: Let_def split: prod.splits)

lemma length_flags_from [simp]: "length (fst (flags_from b cs)) = length cs"
  by (induction cs) (auto simp: Let_def split: prod.splits)

lemma flags_from_append:
  "flags_from b (u @ v) =
     (fst (flags_from (snd (flags_from b v)) u) @ fst (flags_from b v), snd (flags_from (snd (flags_from b v)) u))"
  by (induction u) (auto simp: Let_def split: prod.splits)

definition kept_text :: "bool \<Rightarrow> nat list \<Rightarrow> nat list" where
  "kept_text b cs = map fst (filter snd (zip cs (fst (flags_from b cs))))"

lemma kept_text_Nil [simp]: "kept_text b [] = []"
  by (simp add: kept_text_def)

lemma kept_text_append:
  "kept_text b (u @ v) = kept_text (snd (flags_from b v)) u @ kept_text b v"
  by (simp add: kept_text_def flags_from_append)

lemma kept_text_last: "kept_text False (u @ [c]) = kept_text (c = 10) u @ [c]"
  by (simp add: kept_text_append) (auto simp: kept_text_def)

lemma kept_text_same: "c = 10 \<or> \<not> is_whitespace c \<Longrightarrow> kept_text True (u @ [c]) = kept_text False (u @ [c])"
  by (auto simp: kept_text_append) (auto simp: kept_text_def)

lemma nothing_kept: "kept_text True cs = [] \<Longrightarrow> snd (flags_from True cs)"
  by (induction cs) (auto simp: kept_text_def Let_def split: prod.splits if_splits)

lemma kept_text_ends: "kept_text True cs \<noteq> [] \<Longrightarrow> last (kept_text True cs) = 10 \<or> \<not> is_whitespace (last (kept_text True cs))"
proof (induction cs)
  case (Cons c cs)
  have split: "kept_text True (c # cs) = kept_text (snd (flags_from True cs)) [c] @ kept_text True cs"
    using kept_text_append [of True "[c]" cs] by simp
  show ?case
  proof (cases "kept_text True cs = []")
    case True
    with nothing_kept have "snd (flags_from True cs)" by blast
    with True Cons.prems show ?thesis unfolding split by (auto simp: kept_text_def split: if_splits)
  next
    case False
    with Cons.IH show ?thesis unfolding split by simp
  qed
qed simp

definition kept_positions :: "nat list \<Rightarrow> nat list" where
  "kept_positions cs = filter (\<lambda>j. fst (flags_from True cs) ! j) [0..<length cs]"

lemma fold_chars_free: "13 \<notin> set s \<Longrightarrow> fold_chars i s = zip (map fold_char s) [i..<i + length s]"
  by (induction s arbitrary: i) (simp_all add: upt_rec)

lemma zip_as_map: "length ks = length cs \<Longrightarrow> zip (zip cs [0..<length cs]) ks = map (\<lambda>j. ((cs ! j, j), ks ! j)) [0..<length cs]"
  by (intro nth_equalityI) auto

lemma kept_text_positions: "kept_text True cs = map (nth cs) (kept_positions cs)"
proof -
  have "zip cs (fst (flags_from True cs)) = map (\<lambda>j. (cs ! j, fst (flags_from True cs) ! j)) [0..<length cs]"
    by (intro nth_equalityI) auto
  then show ?thesis by (simp add: kept_text_def kept_positions_def filter_map o_def)
qed

lemma normalize_tolerant_free:
  assumes "13 \<notin> set s"
  shows "normalize_tolerant s =
    (kept_text True (map fold_char s), kept_positions (map fold_char s) @ [length s])"
proof -
  let ?f = "map fold_char s" let ?k = "fst (flags_from True ?f)"
  have "map fst (zip ?f [0..<length s]) = ?f" by simp
  moreover have "zip (zip ?f [0..<length s]) ?k = map (\<lambda>j. ((?f ! j, j), ?k ! j)) [0..<length s]"
    using zip_as_map [of ?k ?f] by simp
  ultimately show ?thesis
    by (simp add: normalize_tolerant_def fold_chars_free [OF assms] keep_flags_eq Let_def kept_text_positions
        kept_positions_def filter_map o_def)
qed

lemma sorted_filter_upt: "sorted_wrt (<) (filter P [0..<n])"
  by (rule sorted_wrt_filter) (rule sorted_wrt_upt)

lemma normalize_tolerant_offsets:
  assumes "13 \<notin> set s" and "normalize_tolerant s = (h, offsets)"
  shows "sorted_wrt (<) offsets" and "length offsets = Suc (length h)"
  using assms(2) by (auto simp: normalize_tolerant_free [OF assms(1)] kept_text_positions sorted_wrt_append
      kept_positions_def sorted_filter_upt)

lemma filter_upt_take:
  "k \<le> length (filter P [0..<n]) \<Longrightarrow> filter P [0..<(filter P [0..<n] @ [n]) ! k] = take k (filter P [0..<n])"
proof (induction n)
  case (Suc n)
  show ?case
  proof (cases "k \<le> length (filter P [0..<n])")
    case True
    show ?thesis
    proof (cases "P n")
      case True
      with \<open>k \<le> length (filter P [0..<n])\<close> Suc.IH show ?thesis
        by (cases "k < length (filter P [0..<n])") (auto simp: nth_append)
    next
      case False
      with \<open>k \<le> length (filter P [0..<n])\<close> Suc.IH show ?thesis
        by (cases "k = length (filter P [0..<n])") (auto simp: nth_append)
    qed
  next
    case False
    with Suc.prems have "P n" "k = Suc (length (filter P [0..<n]))" by (auto split: if_splits)
    then show ?thesis by (simp add: nth_append)
  qed
qed simp

lemma kept_prefix_length:
  assumes "k \<le> length (kept_positions cs)" "lo = (kept_positions cs @ [length cs]) ! k"
  shows "lo \<le> length cs" and "length (kept_text (snd (flags_from True (drop lo cs))) (take lo cs)) = k"
proof -
  let ?k = "fst (flags_from True cs)"
  show le: "lo \<le> length cs"
  proof (cases "k < length (kept_positions cs)")
    case True
    then have "lo \<in> set (kept_positions cs)" using assms(2) by (simp add: nth_append)
    then show ?thesis by (auto simp: kept_positions_def)
  qed (use assms in \<open>auto simp: nth_append\<close>)
  have flags: "fst (flags_from (snd (flags_from True (drop lo cs))) (take lo cs)) = take lo ?k"
    using flags_from_append [of True "take lo cs" "drop lo cs"] le by simp
  have pairs: "zip (take lo cs) (take lo ?k) = map (\<lambda>j. (cs ! j, ?k ! j)) [0..<lo]"
    using le by (intro nth_equalityI) auto
  have "length (kept_text (snd (flags_from True (drop lo cs))) (take lo cs)) =
      length (filter (\<lambda>j. ?k ! j) [0..<lo])"
    by (simp add: kept_text_def flags pairs filter_map o_def)
  also have "\<dots> = k"
    using filter_upt_take [of k "\<lambda>j. ?k ! j" "length cs"] assms by (simp add: kept_positions_def)
  finally show "length (kept_text (snd (flags_from True (drop lo cs))) (take lo cs)) = k" .
qed

text \<open>The source of a tolerant match folds to the folded needle.\<close>

lemma tolerant_range:
  assumes free: "13 \<notin> set s" and offsets: "normalize_tolerant s = (haystack, offsets)"
    and ne: "folded \<noteq> []" and ends: "last folded = 10 \<or> \<not> is_whitespace (last folded)"
    and fits: "start + length folded \<le> length haystack"
    and at: "piece haystack start (start + length folded) = folded"
    and lo: "lo = offsets ! start" and hi: "hi = offsets ! (start + length folded)"
  shows "lo < hi" and "hi \<le> length s" and "fst (normalize_tolerant (piece s lo hi)) = folded"
proof -
  let ?f = "map fold_char s" let ?m = "length folded"
  have hay: "haystack = kept_text True ?f" and off: "offsets = kept_positions ?f @ [length ?f]"
    using offsets by (simp_all add: normalize_tolerant_free [OF free])
  have len: "length haystack = length (kept_positions ?f)" by (simp add: hay kept_text_positions)
  have k1: "start \<le> length (kept_positions ?f)" and k2: "start + ?m \<le> length (kept_positions ?f)"
    using fits len by simp_all
  note p1 = kept_prefix_length [OF k1 lo [unfolded off]]
  note p2 = kept_prefix_length [OF k2 hi [unfolded off]]
  show "hi \<le> length s" using p2(1) by simp
  have sorted: "sorted_wrt (<) offsets"
    by (auto simp: off kept_positions_def sorted_wrt_append intro: sorted_wrt_filter)
  show "lo < hi" unfolding lo hi
    using sorted_wrt_nth_less [OF sorted, of start "start + ?m"] fits ne len by (simp add: off)
  let ?x = "take lo ?f" and ?u = "piece ?f lo hi" and ?y = "drop hi ?f"
  have hi_split: "take hi ?f = ?x @ ?u" using \<open>lo < hi\<close> by (simp add: piece_def flip: take_add)
  have lo_split: "drop lo ?f = ?u @ ?y"
    using \<open>lo < hi\<close> by (simp add: piece_def) (metis append_take_drop_id drop_drop le_add_diff_inverse2 less_imp_le)
  let ?b = "snd (flags_from True ?y)"
  have whole: "haystack = kept_text (snd (flags_from ?b ?u)) ?x @ kept_text ?b ?u @ kept_text True ?y"
    unfolding hay using append_take_drop_id [of lo ?f, symmetric] unfolding lo_split
    by (metis kept_text_append append.assoc flags_from_append snd_conv)
  have xlen: "length (kept_text (snd (flags_from ?b ?u)) ?x) = start"
    using p1(2) unfolding lo_split by (simp add: flags_from_append)
  have "length (kept_text ?b (?x @ ?u)) = start + ?m"
    using p2(2) unfolding hi_split by simp
  then have ulen: "length (kept_text ?b ?u) = ?m" using xlen by (simp add: kept_text_append)
  have u: "kept_text ?b ?u = folded"
    using at xlen ulen unfolding whole by (simp add: piece_def)
  have "?u \<noteq> []" using u ne by auto
  then obtain u' c where uc: "?u = u' @ [c]" by (metis rev_exhaust)
  have "kept_text True ?u = folded"
  proof (cases ?b)
    case True
    with u show ?thesis by simp
  next
    case False
    with u uc kept_text_last [of u' c] have "last folded = c" by auto
    with ends kept_text_same [of c u'] u uc False show ?thesis by simp
  qed
  moreover have "13 \<notin> set (piece s lo hi)" using free by (auto simp: piece_def dest: in_set_takeD in_set_dropD)
  moreover have "map fold_char (piece s lo hi) = ?u" by (simp add: piece_def take_map drop_map)
  ultimately show "fst (normalize_tolerant (piece s lo hi)) = folded"
    by (simp add: normalize_tolerant_free)
qed

end
