(* ===== verification/EditLaws.thy ===== *)
theory EditLaws
  imports EditMatch "HOL-Library.Multiset"
begin

text \<open>The laws of \<open>edit_text\<close>: what it replaces, what it keeps, and when it succeeds.\<close>

section \<open>What a located range holds\<close>

definition same_text :: "bool \<Rightarrow> ustring \<Rightarrow> ustring \<Rightarrow> bool" where
  "same_text tolerant found wanted \<longleftrightarrow>
     (if tolerant then fst (normalize_tolerant found) = fst (normalize_tolerant wanted) else found = wanted)"

definition occurs_in :: "ustring \<Rightarrow> ustring \<Rightarrow> bool" where
  "occurs_in needle h \<longleftrightarrow> (\<exists>a b. h = a @ needle @ b)"

lemma piece_occurs: "occurs_in needle h \<Longrightarrow> \<exists>p. piece h p (p + length needle) = needle"
  unfolding occurs_in_def piece_def
proof (elim exE)
  fix a b assume "h = a @ needle @ b"
  then show "\<exists>p. take (p + length needle - p) (drop p h) = needle" by (intro exI [of _ "length a"]) simp
qed

lemma locate_ranges:
  assumes "locate normalized needle = Some (ranges, tolerant)"
    and free: "13 \<notin> set normalized" "13 \<notin> set needle"
  shows "ranges \<noteq> []" and "sorted_wrt (\<lambda>a b. snd a \<le> fst b) ranges"
    and "(a, b) \<in> set ranges \<Longrightarrow> a < b \<and> b \<le> length normalized \<and> same_text tolerant (piece normalized a b) needle"
    and "tolerant \<Longrightarrow> \<not> occurs_in needle normalized"
proof -
  have ne: "needle \<noteq> []"
    using assms(1) by (auto simp: locate_def find_all_def find_from.simps normalize_tolerant_def split: prod.splits if_splits)
  have "ranges \<noteq> [] \<and> sorted_wrt (\<lambda>a b. snd a \<le> fst b) ranges \<and>
    ((a, b) \<in> set ranges \<longrightarrow> a < b \<and> b \<le> length normalized \<and> same_text tolerant (piece normalized a b) needle) \<and>
    (tolerant \<longrightarrow> \<not> occurs_in needle normalized)"
  proof (cases "find_all normalized needle = []")
    case False
    then have r: "ranges = map (\<lambda>start. (start, start + length needle)) (find_all normalized needle)" "\<not> tolerant"
      using assms(1) by (auto simp: locate_def)
    show ?thesis
      using False find_all_occurrences [OF ne] ne unfolding r(1)
      by (auto simp: sorted_wrt_map r(2) same_text_def)
  next
    case True
    obtain haystack offsets where off: "normalize_tolerant normalized = (haystack, offsets)"
      by (cases "normalize_tolerant normalized") auto
    let ?folded = "fst (normalize_tolerant needle)"
    have folded: "?folded = kept_text True (map fold_char needle)"
      by (simp add: normalize_tolerant_free [OF free(2)])
    have r: "?folded \<noteq> []" "tolerant" "find_all haystack ?folded \<noteq> []"
      "ranges = map (\<lambda>start. (offsets ! start, offsets ! (start + length ?folded))) (find_all haystack ?folded)"
      using assms(1) True off by (auto simp: locate_def Let_def split: if_splits)
    note occ = find_all_occurrences [OF r(1)]
    have ends: "last ?folded = 10 \<or> \<not> is_whitespace (last ?folded)"
      using kept_text_ends r(1) unfolding folded by blast
    have sorted: "sorted_wrt (<) offsets" and len: "length offsets = Suc (length haystack)"
      using normalize_tolerant_offsets [OF free(1) off] by blast+
    have mono: "i \<le> j \<Longrightarrow> j \<le> length haystack \<Longrightarrow> offsets ! i \<le> offsets ! j" for i j
      using sorted_wrt_nth_less [OF sorted, of i j] len by (cases "i = j") auto
    have "sorted_wrt (\<lambda>p q. offsets ! (p + length ?folded) \<le> offsets ! q) (find_all haystack ?folded)"
    proof (rule sorted_wrt_mono_rel [OF _ occ(1) [of haystack]])
      fix p q assume "q \<in> set (find_all haystack ?folded)" "p + length ?folded \<le> q"
      then show "offsets ! (p + length ?folded) \<le> offsets ! q"
        using occ(2) [of q haystack] mono [of "p + length ?folded" q] by simp
    qed
    moreover have "a < b \<and> b \<le> length normalized \<and> same_text tolerant (piece normalized a b) needle"
      if "(a, b) \<in> set ranges"
    proof -
      from that obtain p where p: "p \<in> set (find_all haystack ?folded)" "a = offsets ! p" "b = offsets ! (p + length ?folded)"
        unfolding r(4) by auto
      from occ(2) [OF p(1)] have "p + length ?folded \<le> length haystack"
        "piece haystack p (p + length ?folded) = ?folded" by blast+
      from tolerant_range [OF free(1) off r(1) ends this p(2,3)] show ?thesis
        by (simp add: r(2) same_text_def)
    qed
    moreover have "\<not> occurs_in needle normalized"
      using find_all_Nil [OF True ne] piece_occurs by blast
    ultimately show ?thesis using r(3) unfolding r(4) by (auto simp: sorted_wrt_map)
  qed
  then show "ranges \<noteq> []" "sorted_wrt (\<lambda>a b. snd a \<le> fst b) ranges"
    "(a, b) \<in> set ranges \<Longrightarrow> a < b \<and> b \<le> length normalized \<and> same_text tolerant (piece normalized a b) needle"
    "tolerant \<Longrightarrow> \<not> occurs_in needle normalized" by blast+
qed

section \<open>The spans of a call\<close>

definition span_ok :: "ustring \<Rightarrow> replacement list \<Rightarrow> nat \<Rightarrow> span \<Rightarrow> bool" where
  "span_ok normalized entries index sp \<longleftrightarrow>
     index \<le> sp_entry sp \<and> sp_entry sp < index + length entries \<and>
     sp_start sp < sp_end sp \<and> sp_end sp \<le> length normalized \<and>
     same_text (sp_tolerant sp) (piece normalized (sp_start sp) (sp_end sp))
       (normalize_to_lf (rp_old (entries ! (sp_entry sp - index)))) \<and>
     (sp_tolerant sp \<longrightarrow> \<not> occurs_in (normalize_to_lf (rp_old (entries ! (sp_entry sp - index)))) normalized)"

lemma collect_spans_ok:
  assumes "collect_spans display listed normalized index entries = Inr spans" and "13 \<notin> set normalized"
  shows "list_all (span_ok normalized entries index) spans \<and>
    (\<forall>e < length entries.
       (\<exists>sp \<in> set spans. sp_entry sp = index + e) \<and>
       (\<not> rp_all (entries ! e) \<longrightarrow> length (filter (\<lambda>sp. sp_entry sp = index + e) spans) = 1))"
  using assms
proof (induction entries arbitrary: index spans)
  case (Cons entry entries)
  let ?old = "normalize_to_lf (rp_old entry)"
  from Cons.prems(1) obtain ranges tolerant more where loc: "locate normalized ?old = Some (ranges, tolerant)"
    and count: "\<not> (length ranges > 1 \<and> \<not> rp_all entry)"
    and rec: "collect_spans display listed normalized (index + 1) entries = Inr more"
    and spans: "spans = map (\<lambda>(start, stop). \<lparr>sp_start = start, sp_end = stop, sp_entry = index,
        sp_tolerant = tolerant\<rparr>) ranges @ more"
    by (auto simp: Let_def split: option.splits sum.splits if_splits)
  note ih = Cons.IH [OF rec Cons.prems(2)]
  note ranges = locate_ranges [OF loc Cons.prems(2) normalize_to_lf_free]
  have more_index: "\<And>sp. sp \<in> set more \<Longrightarrow> index + 1 \<le> sp_entry sp"
    using ih by (auto simp: list_all_iff span_ok_def)
  have head: "filter (\<lambda>sp. sp_entry sp = index) more = []"
    using more_index by (fastforce simp: filter_empty_conv)
  have "span_ok normalized (entry # entries) index sp" if "span_ok normalized entries (index + 1) sp" for sp
  proof -
    from that have "sp_entry sp - index = Suc (sp_entry sp - (index + 1))" by (auto simp: span_ok_def)
    with that show ?thesis by (simp add: span_ok_def)
  qed
  then have "list_all (span_ok normalized (entry # entries) index) more"
    using ih by (simp add: list_all_iff)
  moreover have "list_all (span_ok normalized (entry # entries) index)
      (map (\<lambda>(start, stop). \<lparr>sp_start = start, sp_end = stop, sp_entry = index, sp_tolerant = tolerant\<rparr>) ranges)"
    using ranges(3,4) by (auto simp: list_all_iff span_ok_def)
  moreover have "(\<exists>sp \<in> set spans. sp_entry sp = index + e) \<and>
      (\<not> rp_all ((entry # entries) ! e) \<longrightarrow> length (filter (\<lambda>sp. sp_entry sp = index + e) spans) = 1)"
    if "e < length (entry # entries)" for e
  proof (cases e)
    case 0
    let ?here = "map (\<lambda>(start, stop). \<lparr>sp_start = start, sp_end = stop, sp_entry = index, sp_tolerant = tolerant\<rparr>) ranges"
    have "\<forall>sp \<in> set ?here. sp_entry sp = index" by auto
    then have here: "filter (\<lambda>sp. sp_entry sp = index) ?here = ?here" by (simp add: filter_id_conv)
    have "?here \<noteq> []" using ranges(1) by simp
    then have "hd ?here \<in> set ?here" by (rule hd_in_set)
    then have "\<exists>sp \<in> set spans. sp_entry sp = index" unfolding spans using \<open>\<forall>sp \<in> set ?here. _\<close> by auto
    moreover have "length (filter (\<lambda>sp. sp_entry sp = index) spans) = length ranges"
      unfolding spans by (simp only: filter_append here head) simp
    moreover have "\<not> rp_all entry \<Longrightarrow> length ranges = 1" using ranges(1) count by (cases ranges) auto
    ultimately show ?thesis using 0 by auto
  next
    case (Suc e')
    have "filter (\<lambda>sp. sp_entry sp = index + e) (map (\<lambda>(start, stop). \<lparr>sp_start = start, sp_end = stop,
        sp_entry = index, sp_tolerant = tolerant\<rparr>) ranges) = []"
      using Suc by (auto simp: filter_empty_conv)
    with ih that Suc show ?thesis by (auto simp: spans)
  qed
  ultimately show ?case unfolding spans by simp
qed simp

lemma overlapping_None:
  "overlapping spans = None \<Longrightarrow> \<forall>sp \<in> set spans. sp_start sp < sp_end sp \<Longrightarrow>
   sorted_wrt (\<lambda>a b. sp_end a \<le> sp_start b) spans"
proof (induction spans rule: overlapping.induct)
  case (1 a b spans)
  from 1 have sorted: "sorted_wrt (\<lambda>a b. sp_end a \<le> sp_start b) (b # spans)" and ab: "sp_end a \<le> sp_start b"
    by (auto split: if_splits)
  moreover have "sp_end a \<le> sp_start c" if "c \<in> set spans" for c
    using sorted that ab "1.prems"(2) by fastforce
  ultimately show ?case by simp
qed auto

section \<open>Weaving the file\<close>

text \<open>The kept pieces with a text between each two neighbours.\<close>

fun weave :: "'a list list \<Rightarrow> 'a list list \<Rightarrow> 'a list" where
  "weave (g # gs) (m # ms) = g @ m @ weave gs ms"
| "weave gs [] = concat gs"
| "weave [] ms = []"

fun replaced :: "ustring \<Rightarrow> nat list \<Rightarrow> line_ending \<Rightarrow> ustring list \<Rightarrow> nat \<Rightarrow> span list \<Rightarrow> ustring" where
  "replaced body offsets ending news cursor [] = drop cursor body"
| "replaced body offsets ending news cursor (sp # spans) =
     piece body cursor (offsets ! sp_start sp) @ restore_line_endings (news ! sp_entry sp) ending @
     replaced body offsets ending news (offsets ! sp_end sp) spans"

lemma fold_apply_span:
  "eb_restored (fold (apply_span body normalized offsets ending news tolerant) spans b) @
     drop (eb_cursor (fold (apply_span body normalized offsets ending news tolerant) spans b)) body =
   eb_restored b @ replaced body offsets ending news (eb_cursor b) spans"
  by (induction spans arbitrary: b) (simp_all add: apply_span_def Let_def)

lemma piece_drop: "i \<le> j \<Longrightarrow> drop i xs = piece xs i j @ drop j xs"
  by (simp add: piece_def) (metis append_take_drop_id drop_drop le_add_diff_inverse2)

lemma replaced_weave:
  assumes "sorted_wrt (\<lambda>a b. sp_end a \<le> sp_start b) spans"
    and "\<forall>sp \<in> set spans. sp_start sp < sp_end sp \<and> sp_end sp \<le> length (normalize_to_lf body)"
    and "\<forall>sp \<in> set spans. cursor \<le> offset body (sp_start sp)"
    and off: "offsets = snd (normalized_with_offsets body)"
  shows "\<exists>gaps. length gaps = Suc (length spans) \<and>
    drop cursor body = weave gaps (map (\<lambda>sp. piece body (offset body (sp_start sp)) (offset body (sp_end sp))) spans) \<and>
    replaced body offsets ending news cursor spans =
      weave gaps (map (\<lambda>sp. restore_line_endings (news ! sp_entry sp) ending) spans)"
  using assms(1-3)
proof (induction spans arbitrary: cursor)
  case Nil
  then show ?case by (intro exI [of _ "[drop cursor body]"]) simp
next
  case (Cons sp spans)
  have o: "offsets ! p = offset body p" for p by (simp add: offset_def off)
  have sp: "sp_start sp < sp_end sp" "sp_end sp \<le> length (normalize_to_lf body)" using Cons.prems(2) by auto
  have later: "\<forall>s \<in> set spans. offset body (sp_end sp) \<le> offset body (sp_start s)"
  proof
    fix s assume s: "s \<in> set spans"
    then have "sp_end sp \<le> sp_start s" "sp_start s \<le> length (normalize_to_lf body)"
      using Cons.prems(1,2) by (auto intro: less_imp_le order.strict_trans2)
    then show "offset body (sp_end sp) \<le> offset body (sp_start s)" by (rule offset_piece(1))
  qed
  obtain gaps where gaps: "length gaps = Suc (length spans)"
    "drop (offset body (sp_end sp)) body =
       weave gaps (map (\<lambda>sp. piece body (offset body (sp_start sp)) (offset body (sp_end sp))) spans)"
    "replaced body offsets ending news (offset body (sp_end sp)) spans =
       weave gaps (map (\<lambda>sp. restore_line_endings (news ! sp_entry sp) ending) spans)"
    using Cons.IH [of "offset body (sp_end sp)"] Cons.prems later by auto
  have "cursor \<le> offset body (sp_start sp)" "offset body (sp_start sp) \<le> offset body (sp_end sp)"
    using Cons.prems(3) offset_piece(1) [of "sp_start sp" "sp_end sp" body] sp by auto
  then have "drop cursor body = piece body cursor (offset body (sp_start sp)) @
      piece body (offset body (sp_start sp)) (offset body (sp_end sp)) @ drop (offset body (sp_end sp)) body"
    by (simp add: piece_drop [of cursor "offset body (sp_start sp)"] piece_drop [of "offset body (sp_start sp)" "offset body (sp_end sp)"])
  then show ?case
    by (intro exI [of _ "piece body cursor (offset body (sp_start sp)) # gaps"])
      (use gaps in \<open>simp add: o\<close>)
qed


section \<open>An edit replaces its matches and nothing else\<close>

text \<open>How a call's entries account for the texts found, in file order.\<close>

definition accounts_for :: "replacement list \<Rightarrow> ustring \<Rightarrow> (nat \<times> ustring) list \<Rightarrow> bool" where
  "accounts_for entries body found \<longleftrightarrow>
     (\<forall>(e, m) \<in> set found. e < length entries \<and> m \<noteq> [] \<and>
        (same_text False (normalize_to_lf m) (normalize_to_lf (rp_old (entries ! e))) \<or>
         same_text True (normalize_to_lf m) (normalize_to_lf (rp_old (entries ! e))) \<and>
         \<not> occurs_in (normalize_to_lf (rp_old (entries ! e))) (normalize_to_lf body))) \<and>
     (\<forall>e < length entries. (\<exists>m. (e, m) \<in> set found) \<and>
        (\<not> rp_all (entries ! e) \<longrightarrow> length (filter (\<lambda>(e', m). e' = e) found) = 1))"

definition bom :: "bool \<Rightarrow> ustring" where
  "bom present = (if present then [0xFEFF] else [])"

lemma strip_bom_eq: "strip_bom s = (body, had) \<Longrightarrow> s = bom had @ body"
  by (auto simp: strip_bom_def strip_prefix_def starts_with_def bom_def split: option.splits if_splits)
    (metis One_nat_def append_take_drop_id append_Cons append_Nil)

lemma edit_text_parts:
  assumes "edit_text display bytes input = Inr ed"
  obtains body had spans where
    "from_utf8 bytes = Some (bom had @ body)"
    "sorted_wrt (\<lambda>a b. sp_end a \<le> sp_start b) spans"
    "list_all (span_ok (normalize_to_lf body) (ei_edits input) 0) spans"
    "\<forall>e < length (ei_edits input). (\<exists>sp \<in> set spans. sp_entry sp = e) \<and>
       (\<not> rp_all (ei_edits input ! e) \<longrightarrow> length (filter (\<lambda>sp. sp_entry sp = e) spans) = 1)"
    "ed_replacements ed = length spans"
    "ed_contents ed = bom had @ replaced body (snd (normalized_with_offsets body)) (detect_line_ending body)
       (map (\<lambda>entry. normalize_to_lf (rp_new entry)) (ei_edits input)) 0 spans"
proof -
  from assms obtain src where src: "from_utf8 bytes = Some src"
    by (auto simp: edit_text_def split: option.splits)
  obtain body had where strip: "strip_bom src = (body, had)" by (cases "strip_bom src") auto
  obtain offsets where norm: "normalized_with_offsets body = (normalize_to_lf body, offsets)"
    using normalized_snd_eq [of body] by (cases "normalized_with_offsets body") auto
  let ?news = "map (\<lambda>entry. normalize_to_lf (rp_new entry)) (ei_edits input)"
  from assms obtain found where found:
    "collect_spans display (ei_listed input) (normalize_to_lf body) 0 (ei_edits input) = Inr found"
    by (auto simp: edit_text_def src strip norm split: sum.splits)
  let ?spans = "sort_key (\<lambda>sp. (sp_start sp, sp_end sp)) found"
  from assms have apart: "overlapping ?spans = None"
    by (auto simp: edit_text_def src strip norm found Let_def split: option.splits)
  let ?tolerant = "list_ex sp_tolerant ?spans"
  let ?b = "fold (apply_span body (normalize_to_lf body) offsets (detect_line_ending body) ?news ?tolerant) ?spans
    \<lparr>eb_restored = [], eb_cursor = 0, eb_view = [], eb_view_cursor = 0, eb_first = None\<rparr>"
  from assms apart have ed: "ed_replacements ed = length ?spans"
    "ed_contents ed = bom had @ eb_restored ?b @ drop (eb_cursor ?b) body"
    by (auto simp: edit_text_def src strip norm found Let_def bom_def)
  note ok = collect_spans_ok [OF found normalize_to_lf_free]
  have count: "length (filter P ?spans) = length (filter P found)" for P
    by (metis mset_filter mset_sort size_mset)
  show ?thesis
  proof (rule that [of had body ?spans])
    show "from_utf8 bytes = Some (bom had @ body)" using src strip_bom_eq [OF strip] by simp
    show all: "list_all (span_ok (normalize_to_lf body) (ei_edits input) 0) ?spans"
      using ok by (simp add: list_all_iff)
    show "sorted_wrt (\<lambda>a b. sp_end a \<le> sp_start b) ?spans"
      using overlapping_None [OF apart] all by (auto simp: list_all_iff span_ok_def)
    show "\<forall>e < length (ei_edits input). (\<exists>sp \<in> set ?spans. sp_entry sp = e) \<and>
       (\<not> rp_all (ei_edits input ! e) \<longrightarrow> length (filter (\<lambda>sp. sp_entry sp = e) ?spans) = 1)"
      using ok by (simp add: count)
    show "ed_replacements ed = length ?spans" by (rule ed(1))
    show "ed_contents ed = bom had @ replaced body (snd (normalized_with_offsets body)) (detect_line_ending body) ?news 0 ?spans"
      using fold_apply_span [of body "normalize_to_lf body" offsets "detect_line_ending body" ?news ?tolerant ?spans
          "\<lparr>eb_restored = [], eb_cursor = 0, eb_view = [], eb_view_cursor = 0, eb_first = None\<rparr>"]
      by (simp add: ed(2) norm)
  qed
qed

lemma edit_text_weave:
  assumes "edit_text display bytes input = Inr ed"
  obtains body had gaps found where
    "bytes = utf8 (bom had @ body)"
    "length gaps = Suc (length found)" "ed_replacements ed = length found"
    "body = weave gaps (map snd found)"
    "ed_contents ed = bom had @ weave gaps (map (\<lambda>(e, m).
       restore_line_endings (normalize_to_lf (rp_new (ei_edits input ! e))) (detect_line_ending body)) found)"
    "accounts_for (ei_edits input) body found"
proof -
  from assms obtain body had spans where utf: "from_utf8 bytes = Some (bom had @ body)"
    and sorted: "sorted_wrt (\<lambda>a b. sp_end a \<le> sp_start b) spans"
    and ok: "list_all (span_ok (normalize_to_lf body) (ei_edits input) 0) spans"
    and count: "\<forall>e < length (ei_edits input). (\<exists>sp \<in> set spans. sp_entry sp = e) \<and>
       (\<not> rp_all (ei_edits input ! e) \<longrightarrow> length (filter (\<lambda>sp. sp_entry sp = e) spans) = 1)"
    and n: "ed_replacements ed = length spans"
    and contents: "ed_contents ed = bom had @ replaced body (snd (normalized_with_offsets body)) (detect_line_ending body)
       (map (\<lambda>entry. normalize_to_lf (rp_new entry)) (ei_edits input)) 0 spans"
    by (rule edit_text_parts)
  let ?text = "\<lambda>sp. piece body (offset body (sp_start sp)) (offset body (sp_end sp))"
  let ?found = "map (\<lambda>sp. (sp_entry sp, ?text sp)) spans"
  have bounds: "\<forall>sp \<in> set spans. sp_start sp < sp_end sp \<and> sp_end sp \<le> length (normalize_to_lf body)"
    using ok by (simp add: list_all_iff span_ok_def)
  have "\<forall>sp \<in> set spans. 0 \<le> offset body (sp_start sp)" by simp
  from replaced_weave [OF sorted bounds this refl, where ending = "detect_line_ending body" and
      news = "map (\<lambda>entry. normalize_to_lf (rp_new entry)) (ei_edits input)"]
  obtain gaps where gaps: "length gaps = Suc (length spans)" "body = weave gaps (map ?text spans)"
    "replaced body (snd (normalized_with_offsets body)) (detect_line_ending body)
       (map (\<lambda>entry. normalize_to_lf (rp_new entry)) (ei_edits input)) 0 spans =
     weave gaps (map (\<lambda>sp. restore_line_endings
       (map (\<lambda>entry. normalize_to_lf (rp_new entry)) (ei_edits input) ! sp_entry sp) (detect_line_ending body)) spans)"
    by auto
  have news: "map (\<lambda>sp. restore_line_endings
       (map (\<lambda>entry. normalize_to_lf (rp_new entry)) (ei_edits input) ! sp_entry sp) (detect_line_ending body)) spans =
     map (\<lambda>(e, m). restore_line_endings (normalize_to_lf (rp_new (ei_edits input ! e))) (detect_line_ending body)) ?found"
    using ok by (simp add: list_all_iff span_ok_def)
  have texts: "normalize_to_lf (?text sp) = piece (normalize_to_lf body) (sp_start sp) (sp_end sp) \<and> ?text sp \<noteq> []"
    if "sp \<in> set spans" for sp
  proof -
    from bounds that have b: "sp_start sp < sp_end sp" "sp_end sp \<le> length (normalize_to_lf body)" by auto
    from offset_piece(2,3) [of "sp_start sp" "sp_end sp" body] offset_cut(1) [OF b(2)] b show ?thesis
      by (auto simp: piece_def)
  qed
  have "accounts_for (ei_edits input) body ?found"
    unfolding accounts_for_def
  proof (intro conjI)
    show "\<forall>(e, m) \<in> set ?found. e < length (ei_edits input) \<and> m \<noteq> [] \<and>
        (same_text False (normalize_to_lf m) (normalize_to_lf (rp_old (ei_edits input ! e))) \<or>
         same_text True (normalize_to_lf m) (normalize_to_lf (rp_old (ei_edits input ! e))) \<and>
         \<not> occurs_in (normalize_to_lf (rp_old (ei_edits input ! e))) (normalize_to_lf body))"
    proof (clarsimp)
      fix sp assume sp: "sp \<in> set spans"
      from ok sp have "span_ok (normalize_to_lf body) (ei_edits input) 0 sp" by (simp add: list_all_iff)
      with texts [OF sp]
      show "sp_entry sp < length (ei_edits input) \<and> ?text sp \<noteq> [] \<and>
          (same_text False (normalize_to_lf (?text sp)) (normalize_to_lf (rp_old (ei_edits input ! sp_entry sp))) \<or>
           same_text True (normalize_to_lf (?text sp)) (normalize_to_lf (rp_old (ei_edits input ! sp_entry sp))) \<and>
           \<not> occurs_in (normalize_to_lf (rp_old (ei_edits input ! sp_entry sp))) (normalize_to_lf body))"
        by (cases "sp_tolerant sp") (auto simp: span_ok_def)
    qed
    show "\<forall>e < length (ei_edits input). (\<exists>m. (e, m) \<in> set ?found) \<and>
        (\<not> rp_all (ei_edits input ! e) \<longrightarrow> length (filter (\<lambda>(e', m). e' = e) ?found) = 1)"
    proof (intro allI impI)
      fix e assume e: "e < length (ei_edits input)"
      with count obtain sp where "sp \<in> set spans" "sp_entry sp = e" by blast
      then have "(e, ?text sp) \<in> set ?found" by auto
      moreover have "length (filter (\<lambda>(e', m). e' = e) ?found) = length (filter (\<lambda>sp. sp_entry sp = e) spans)"
        by (simp add: filter_map o_def)
      ultimately show "(\<exists>m. (e, m) \<in> set ?found) \<and>
          (\<not> rp_all (ei_edits input ! e) \<longrightarrow> length (filter (\<lambda>(e', m). e' = e) ?found) = 1)"
        using count e by auto
    qed
  qed
  moreover have "bytes = utf8 (bom had @ body)" using utf by (simp add: from_utf8_iff)
  ultimately show ?thesis
    using that [of had body gaps ?found] gaps n contents news by (simp add: o_def)
qed


section \<open>Line endings\<close>

text \<open>Every line ending of the text is the given one.\<close>

fun uniform :: "line_ending \<Rightarrow> ustring \<Rightarrow> bool" where
  "uniform ending [] = True"
| "uniform ending (c # s) =
     (if c = 13 then
        (case s of
           d # t \<Rightarrow> if d = 10 then ending = CrLf \<and> uniform ending t else ending = Cr \<and> uniform ending s
         | [] \<Rightarrow> ending = Cr \<and> uniform ending s)
      else if c = 10 then ending = Lf \<and> uniform ending s
      else uniform ending s)"

lemma uniform_Lf: "uniform Lf s \<longleftrightarrow> 13 \<notin> set s"
  by (induction Lf s rule: uniform.induct) (auto split: list.splits)

lemma uniform_Cr: "uniform Cr s \<longleftrightarrow> 10 \<notin> set s"
  by (induction Cr s rule: uniform.induct) (auto split: list.splits)

text \<open>A text whose line endings are all carriage return and line feed is its normalized text with
  the ending put back.\<close>

lemma restore_CrLf: "restore_line_endings s CrLf = concat (map (\<lambda>c. if c = 10 then [13, 10] else [c]) s)"
  by (simp add: str_replace_char)

lemma restore_Cr: "restore_line_endings s Cr = concat (map (\<lambda>c. if c = 10 then [13] else [c]) s)"
  by (simp add: str_replace_char)

lemma restore_Lf: "restore_line_endings s Lf = s"
  by simp

declare restore_line_endings.simps [simp del]

lemma restore_append: "restore_line_endings (s @ t) ending = restore_line_endings s ending @ restore_line_endings t ending"
  by (cases ending) (simp_all add: restore_CrLf restore_Cr restore_Lf)

definition ending_text :: "line_ending \<Rightarrow> ustring" where
  "ending_text ending = (case ending of CrLf \<Rightarrow> [13, 10] | Cr \<Rightarrow> [13] | Lf \<Rightarrow> [10])"

lemma restore_Nil [simp]: "restore_line_endings [] ending = []"
  by (cases ending) (simp_all add: restore_CrLf restore_Cr restore_Lf)

lemma restore_Cons: "restore_line_endings (c # s) ending =
    (if c = 10 then ending_text ending else [c]) @ restore_line_endings s ending"
  by (cases ending) (simp_all add: restore_CrLf restore_Cr restore_Lf ending_text_def)

lemma restore_normalized: "uniform ending s \<Longrightarrow> restore_line_endings (normalize_to_lf s) ending = s"
proof (induction s rule: normalize_to_lf.induct)
  case (2 c s)
  consider (crlf) t where "c = 13" "s = 10 # t" "ending = CrLf" | (cr) "c = 13" "\<And>t. s \<noteq> 10 # t" "ending = Cr"
    | (lf) "c = 10" "ending = Lf" | (other) "c \<noteq> 13" "c \<noteq> 10"
    using 2(5) by (cases s) (auto split: if_splits)
  then show ?case
  proof cases
    case crlf
    with 2(2) [OF crlf(1,2) refl] 2(5) show ?thesis by (simp add: restore_Cons ending_text_def)
  next
    case cr
    have "hd s \<noteq> 10 \<or> s = []" using cr(2) [of "tl s"] by (cases s) auto
    then have "normalize_to_lf (c # s) = 10 # normalize_to_lf s" "uniform ending s"
      using 2(5) cr(1) by (cases s; simp)+
    moreover have "restore_line_endings (normalize_to_lf s) ending = s"
    proof (cases s)
      case Nil
      then show ?thesis by simp
    next
      case (Cons d t)
      have "d \<noteq> 10" using cr(2) [of t] Cons by auto
      with 2(3) [OF cr(1) Cons] calculation(2) show ?thesis by simp
    qed
    ultimately show ?thesis using cr by (simp add: restore_Cons ending_text_def)
  next
    case lf
    with 2(4,5) show ?thesis by (simp add: restore_Cons ending_text_def)
  next
    case other
    with 2(4,5) show ?thesis by (simp add: restore_Cons)
  qed
qed simp

lemma uniform_restored: "13 \<notin> set s \<Longrightarrow> uniform ending (restore_line_endings s ending)"
proof (cases ending)
  case CrLf
  assume "13 \<notin> set s"
  then show ?thesis unfolding CrLf restore_CrLf by (induction s) auto
next
  case Cr
  assume "13 \<notin> set s"
  then show ?thesis unfolding Cr restore_Cr uniform_Cr by auto
next
  case Lf
  assume "13 \<notin> set s"
  then show ?thesis by (simp add: Lf uniform_Lf restore_Lf)
qed

text \<open>Where a position of the normalized text lies in a text of uniform endings.\<close>

lemma uniform_offset:
  "uniform ending s \<Longrightarrow> p \<le> length (normalized_from i s) \<Longrightarrow>
   (map snd (normalized_from i s) @ [i + length s]) ! p =
     i + length (restore_line_endings (take p (normalize_to_lf s)) ending)"
proof (induction i s arbitrary: p rule: normalized_from.induct)
  case (1 i)
  then show ?case by (cases ending) auto
next
  case (2 i c s)
  show ?case
  proof (cases p)
    case 0
    then show ?thesis by (cases ending) (auto split: list.splits)
  next
    case (Suc q)
    consider (crlf) t where "c = 13" "s = 10 # t" "ending = CrLf" | (cr) "c = 13" "\<And>t. s \<noteq> 10 # t" "ending = Cr"
      | (lf) "c = 10" "ending = Lf" | (other) "c \<noteq> 13" "c \<noteq> 10"
      using "2.prems"(1) by (cases s) (auto split: if_splits)
    then show ?thesis
    proof cases
      case crlf
      with "2.prems" Suc have "uniform ending t" "q \<le> length (normalized_from (i + 2) t)" by simp_all
      from "2.IH"(2) [OF crlf(1,2) refl this] crlf Suc show ?thesis
        by (simp add: restore_CrLf)
    next
      case cr
      then have n: "normalized_from i (c # s) = (10, i) # normalized_from (i + 1) s"
        "normalize_to_lf (c # s) = 10 # normalize_to_lf s" "uniform ending (c # s) = uniform ending s"
        by (auto split: list.splits)
      have q: "uniform ending s" "q \<le> length (normalized_from (i + 1) s)"
        using "2.prems" Suc unfolding n by simp_all
      have "(map snd (normalized_from (i + 1) s) @ [i + 1 + length s]) ! q =
          i + 1 + length (restore_line_endings (take q (normalize_to_lf s)) ending)"
      proof (cases s)
        case Nil
        then show ?thesis using "2.IH"(1) [OF cr(1) Nil q] by simp
      next
        case (Cons d t)
        have "d \<noteq> 10" using cr(2) [of t] Cons by auto
        then show ?thesis using "2.IH"(3) [OF cr(1) Cons _ q] by simp
      qed
      then show ?thesis unfolding n using Suc cr(3) by (simp add: restore_Cr)
    next
      case lf
      with "2.prems" Suc have "uniform ending s" "q \<le> length (normalized_from (i + 1) s)" by simp_all
      from "2.IH"(4) [OF _ this] lf Suc show ?thesis by (simp add: restore_Lf)
    next
      case other
      with "2.prems" Suc have "uniform ending s" "q \<le> length (normalized_from (i + 1) s)" by simp_all
      from "2.IH"(4) [OF other(1) this] other Suc show ?thesis
        by (cases ending) (simp_all add: restore_CrLf restore_Cr restore_Lf)
    qed
  qed
qed

lemma uniform_piece:
  assumes "uniform ending s" and "p \<le> q" "q \<le> length (normalize_to_lf s)"
  shows "piece s (offset s p) (offset s q) = restore_line_endings (piece (normalize_to_lf s) p q) ending"
    and "drop (offset s q) s = restore_line_endings (drop q (normalize_to_lf s)) ending"
proof -
  let ?n = "normalize_to_lf s" let ?r = "\<lambda>t. restore_line_endings t ending"
  have at: "offset s k = length (?r (take k ?n))" if "k \<le> length ?n" for k
    using uniform_offset [OF assms(1), of k 0] that by (simp add: offset_eq length_normalized)
  have s: "s = ?r (take p ?n) @ ?r (piece ?n p q) @ ?r (drop q ?n)"
    using restore_normalized [OF assms(1)] piece_drop [OF assms(2), of ?n]
    by (metis append_take_drop_id restore_append)
  have pq: "take q ?n = take p ?n @ piece ?n p q"
    using assms(2) by (simp add: piece_def flip: take_add)
  have op: "offset s p = length (?r (take p ?n))" and oq: "offset s q = length (?r (take p ?n)) + length (?r (piece ?n p q))"
    using assms(2,3) by (simp_all add: at pq restore_append)
  show "piece s (offset s p) (offset s q) = ?r (piece ?n p q)"
    unfolding op oq by (subst (1) s) (simp add: piece_def)
  show "drop (offset s q) s = ?r (drop q ?n)"
    unfolding oq by (subst (1) s) simp
qed

lemma uniform_replaced:
  assumes "uniform ending body"
    and "sorted_wrt (\<lambda>a b. sp_end a \<le> sp_start b) spans"
    and "\<forall>sp \<in> set spans. sp_start sp < sp_end sp \<and> sp_end sp \<le> length (normalize_to_lf body) \<and>
      sp_entry sp < length news"
    and "cursor \<le> length (normalize_to_lf body)" "\<forall>sp \<in> set spans. cursor \<le> sp_start sp"
    and "\<forall>new_s \<in> set news. 13 \<notin> set new_s"
  shows "\<exists>t. 13 \<notin> set t \<and>
    replaced body (snd (normalized_with_offsets body)) ending news (offset body cursor) spans = restore_line_endings t ending"
  using assms(2-5)
proof (induction spans arbitrary: cursor)
  case Nil
  then show ?case
    using uniform_piece(2) [OF assms(1), of cursor cursor] normalize_to_lf_free [of body]
    by (intro exI [of _ "drop cursor (normalize_to_lf body)"]) (auto dest: in_set_dropD)
next
  case (Cons sp spans)
  let ?n = "normalize_to_lf body"
  have sp: "cursor \<le> sp_start sp" "sp_start sp \<le> length ?n" "sp_end sp \<le> length ?n" "sp_entry sp < length news"
    using Cons.prems(2,4) by auto
  have "\<forall>s \<in> set spans. sp_end sp \<le> sp_start s" using Cons.prems(1) by simp
  from Cons.IH [OF _ _ sp(3) this] Cons.prems obtain t where t: "13 \<notin> set t"
    "replaced body (snd (normalized_with_offsets body)) ending news (offset body (sp_end sp)) spans =
       restore_line_endings t ending" by auto
  have "13 \<notin> set (piece ?n cursor (sp_start sp))"
    using normalize_to_lf_free [of body] by (auto simp: piece_def dest: in_set_takeD in_set_dropD)
  moreover have "13 \<notin> set (news ! sp_entry sp)" using assms(6) sp(4) by simp
  ultimately show ?case
    using t uniform_piece(1) [OF assms(1) sp(1,2)]
    by (intro exI [of _ "piece ?n cursor (sp_start sp) @ news ! sp_entry sp @ t"])
      (simp add: restore_append flip: offset_def)
qed

lemma edit_keeps_line_endings:
  assumes edit: "edit_text display bytes input = Inr ed"
    and src: "from_utf8 bytes = Some src" and uni: "uniform (detect_line_ending src) src"
  shows "uniform (detect_line_ending src) (ed_contents ed)"
proof -
  from edit obtain body had spans where utf: "from_utf8 bytes = Some (bom had @ body)"
    and sorted: "sorted_wrt (\<lambda>a b. sp_end a \<le> sp_start b) spans"
    and ok: "list_all (span_ok (normalize_to_lf body) (ei_edits input) 0) spans"
    and contents: "ed_contents ed = bom had @ replaced body (snd (normalized_with_offsets body)) (detect_line_ending body)
       (map (\<lambda>entry. normalize_to_lf (rp_new entry)) (ei_edits input)) 0 spans"
    by (rule edit_text_parts)
  let ?news = "map (\<lambda>entry. normalize_to_lf (rp_new entry)) (ei_edits input)"
  have mark: "uniform e (bom had @ s) = uniform e s" "detect_line_ending (bom had @ s) = detect_line_ending s" for e s
    by (simp_all add: bom_def)
  have "src = bom had @ body" using src utf by simp
  then have body: "uniform (detect_line_ending body) body" and same: "detect_line_ending src = detect_line_ending body"
    using uni by (simp_all add: mark)
  have "offset body 0 = 0"
    using uniform_offset [OF body, of 0 0] by (cases "detect_line_ending body") (simp_all add: offset_eq)
  moreover have "\<forall>sp \<in> set spans. sp_start sp < sp_end sp \<and> sp_end sp \<le> length (normalize_to_lf body) \<and>
      sp_entry sp < length ?news"
    using ok by (simp add: list_all_iff span_ok_def)
  moreover have "\<forall>new_s \<in> set ?news. 13 \<notin> set new_s" by (auto simp: normalize_to_lf_free)
  ultimately obtain t where "13 \<notin> set t"
    "replaced body (snd (normalized_with_offsets body)) (detect_line_ending body) ?news 0 spans =
       restore_line_endings t (detect_line_ending body)"
    using uniform_replaced [OF body sorted, of ?news 0] by auto
  then show ?thesis by (simp add: contents mark same uniform_restored)
qed


section \<open>A unique match is replaced\<close>

lemma edit_unique_match:
  assumes src: "from_utf8 bytes = Some src" "strip_bom src = (body, had)"
    and old_s: "normalize_to_lf (rp_old entry) = needle" "needle \<noteq> []"
    and at: "normalize_to_lf body = a @ needle @ b"
    and unique: "\<And>a' b'. normalize_to_lf body = a' @ needle @ b' \<Longrightarrow> a' = a"
  shows "edit_text display bytes \<lparr>ei_path = path, ei_edits = [entry], ei_listed = listed\<rparr> =
    Inr \<lparr>ed_contents = bom had @ take (offset body (length a)) body @
            restore_line_endings (normalize_to_lf (rp_new entry)) (detect_line_ending body) @
            drop (offset body (length a + length needle)) body,
         ed_replacements = 1, ed_region = None\<rparr>"
proof -
  let ?n = "normalize_to_lf body"
  have "find_all ?n needle = [length a]"
  proof (rule find_all_unique [OF old_s(2)])
    show "piece ?n (length a) (length a + length needle) = needle" by (simp add: at piece_def)
    fix q assume q: "piece ?n q (q + length needle) = needle"
    then have "q < length ?n" using old_s(2) by (cases "q < length ?n") (auto simp: piece_def)
    have "?n = take q ?n @ needle @ drop (q + length needle) ?n"
      using piece_drop [of q "q + length needle" ?n] q by (metis append_take_drop_id le_add1)
    from unique [OF this] have "length (take q ?n) = length a" by simp
    with \<open>q < length ?n\<close> show "q = length a" by simp
  qed
  then have loc: "locate ?n needle = Some ([(length a, length a + length needle)], False)"
    by (simp add: locate_def)
  obtain offsets where norm: "normalized_with_offsets body = (?n, offsets)"
    using normalized_snd_eq [of body] by (cases "normalized_with_offsets body") auto
  then have off: "offsets ! k = offset body k" for k by (simp add: offset_def)
  show ?thesis
    by (simp add: edit_text_def src norm old_s loc apply_span_def off piece_def bom_def Let_def)
qed

end
