(* ===== verification/EditDiff.thy ===== *)
theory EditDiff
  imports EditText
begin

text \<open>
  The stale-edit refusal, \<open>crates/p1-tool-edit/logic/src/stale.rs\<close>: Myers' greedy difference of the
  lines, the unified diff of it, and the refusal that shows the diff. The signed indices of the
  source are \<open>int\<close>.
\<close>

definition max_diff_lines :: nat where "max_diff_lines = 200"

definition context_lines :: nat where "context_lines = 3"

definition max_line_bytes :: nat where "max_line_bytes = 500"

definition max_edit_distance :: nat where "max_edit_distance = 1000"

record stale_refusal =
  sr_message :: ustring
  sr_whole :: bool

datatype diff_op = DEqual | DDelete | DInsert

section \<open>Myers' algorithm\<close>

text \<open>The diagonal is followed while the lines are equal.\<close>

function follow :: "'a list \<Rightarrow> 'a list \<Rightarrow> int \<Rightarrow> int \<Rightarrow> int \<times> int" where
  "follow old_l new_l x y =
     (if x < int (length old_l) \<and> y < int (length new_l) \<and> old_l ! nat x = new_l ! nat y
      then follow old_l new_l (x + 1) (y + 1) else (x, y))"
  by pat_completeness auto
termination by (relation "measure (\<lambda>(old_l, new_l, x, y). nat (int (length old_l) - x))") auto

declare follow.simps [simp del]

text \<open>The furthest old index of round \<open>d - 1\<close> on diagonal \<open>k\<close>, and where round \<open>d\<close> starts.\<close>

definition previous_x :: "int list list \<Rightarrow> int \<Rightarrow> int \<Rightarrow> int" where
  "previous_x rounds d k = rounds ! nat (d - 1) ! nat (k + d - 1)"

definition goes_down :: "int list list \<Rightarrow> int \<Rightarrow> int \<Rightarrow> bool" where
  "goes_down rounds d k \<longleftrightarrow>
     k = - d \<or> (k \<noteq> d \<and> previous_x rounds d (k - 1) < previous_x rounds d (k + 1))"

definition start_x :: "int list list \<Rightarrow> int \<Rightarrow> int \<Rightarrow> int" where
  "start_x rounds d k =
     (if d = 0 then 0
      else if goes_down rounds d k then previous_x rounds d (k + 1)
      else previous_x rounds d (k - 1) + 1)"

text \<open>The inner loop over the diagonals of a round: the frontier, and whether the end was reached.\<close>

function sweep :: "'a list \<Rightarrow> 'a list \<Rightarrow> int list list \<Rightarrow> int \<Rightarrow> int list \<Rightarrow> int \<Rightarrow> int list \<times> bool" where
  "sweep old_l new_l rounds d frontier k =
     (if k \<le> d then
        let (x, y) = follow old_l new_l (start_x rounds d k) (start_x rounds d k - k);
            frontier = frontier[nat (k + d) := x]
        in if x \<ge> int (length old_l) \<and> y \<ge> int (length new_l) then (frontier, True)
           else sweep old_l new_l rounds d frontier (k + 2)
      else (frontier, False))"
  by pat_completeness auto
termination by (relation "measure (\<lambda>(old_l, new_l, rounds, d, frontier, k). nat (d + 1 - k))") auto

declare sweep.simps [simp del]

text \<open>Back along the diagonal to where the round's move ended; the operations are collected in
  reverse order.\<close>

function walk_back :: "int \<Rightarrow> int \<Rightarrow> int \<Rightarrow> int \<Rightarrow> diff_op list \<Rightarrow> int \<times> int \<times> diff_op list" where
  "walk_back x y to_x to_y ops =
     (if x > to_x \<and> y > to_y then walk_back (x - 1) (y - 1) to_x to_y (ops @ [DEqual]) else (x, y, ops))"
  by pat_completeness auto
termination by (relation "measure (\<lambda>(x, y, to_x, to_y, ops). nat (x - to_x))") auto

declare walk_back.simps [simp del]

fun backtrack_rounds :: "int list list \<Rightarrow> nat \<Rightarrow> int \<Rightarrow> int \<Rightarrow> diff_op list \<Rightarrow> int \<times> int \<times> diff_op list" where
  "backtrack_rounds rounds 0 x y ops = (x, y, ops)"
| "backtrack_rounds rounds (Suc d') x y ops =
     (let d = int (Suc d'); k = x - y;
          down = goes_down rounds d k;
          previous_k = (if down then k + 1 else k - 1);
          prev_x = previous_x rounds d previous_k;
          prev_y = prev_x - previous_k;
          (to_x, to_y) = (if down then (prev_x, prev_y + 1) else (prev_x + 1, prev_y));
          (_, _, ops) = walk_back x y to_x to_y ops
      in backtrack_rounds rounds d' prev_x prev_y (ops @ [if down then DInsert else DDelete]))"

definition backtrack :: "int list list \<Rightarrow> int \<Rightarrow> int \<Rightarrow> diff_op list" where
  "backtrack rounds n m =
     (let (x, y, ops) = backtrack_rounds rounds (length rounds - 1) n m [];
          (_, _, ops) = walk_back x y 0 0 ops
      in rev ops)"

function search_rounds :: "'a list \<Rightarrow> 'a list \<Rightarrow> nat \<Rightarrow> int list list \<Rightarrow> nat \<Rightarrow> diff_op list option" where
  "search_rounds old_l new_l limit rounds d =
     (if d \<le> limit then
        let (frontier, reached) = sweep old_l new_l rounds (int d) (replicate (2 * d + 1) 0) (- int d) in
        if reached then Some (backtrack (rounds @ [frontier]) (int (length old_l)) (int (length new_l)))
        else search_rounds old_l new_l limit (rounds @ [frontier]) (d + 1)
      else None)"
  by pat_completeness auto
termination by (relation "measure (\<lambda>(old_l, new_l, limit, rounds, d). limit + 1 - d)") auto

declare search_rounds.simps [simp del]

definition myers :: "'a list \<Rightarrow> 'a list \<Rightarrow> diff_op list option" where
  "myers old_l new_l = search_rounds old_l new_l (min (length old_l + length new_l) max_edit_distance) [] 0"

definition common_prefix :: "'a list \<Rightarrow> 'a list \<Rightarrow> nat" where
  "common_prefix xs ys = length (takeWhile (\<lambda>(a, b). a = b) (zip xs ys))"

definition edit_script :: "'a list \<Rightarrow> 'a list \<Rightarrow> diff_op list" where
  "edit_script old_l new_l =
     (let h = common_prefix old_l new_l;
          t = common_prefix (rev (drop h old_l)) (rev (drop h new_l));
          middle_old = drop h (take (length old_l - t) old_l);
          middle_new = drop h (take (length new_l - t) new_l)
      in replicate h DEqual @
         (case myers middle_old middle_new of
            Some middle \<Rightarrow> middle
          | None \<Rightarrow> replicate (length middle_old) DDelete @ replicate (length middle_new) DInsert) @
         replicate t DEqual)"

section \<open>The unified diff\<close>

text \<open>Each operation with the old and the new index it stands at.\<close>

fun script_steps :: "nat \<Rightarrow> nat \<Rightarrow> diff_op list \<Rightarrow> (diff_op \<times> nat \<times> nat) list" where
  "script_steps a b [] = []"
| "script_steps a b (op # ops) =
     (op, a, b) #
     (case op of
        DEqual \<Rightarrow> script_steps (a + 1) (b + 1) ops
      | DDelete \<Rightarrow> script_steps (a + 1) b ops
      | DInsert \<Rightarrow> script_steps a (b + 1) ops)"

definition is_change :: "diff_op \<times> nat \<times> nat \<Rightarrow> bool" where
  "is_change st \<longleftrightarrow> fst st \<noteq> DEqual"

text \<open>Where the hunk that begins with the change at \<open>cursor\<close> ends: changes whose gaps of unchanged
  lines are short enough for their contexts to touch.\<close>

function hunk_end :: "(diff_op \<times> nat \<times> nat) list \<Rightarrow> nat \<Rightarrow> nat \<Rightarrow> nat" where
  "hunk_end steps stop cursor =
     (if cursor < length steps then
        if is_change (steps ! cursor) then hunk_end steps (cursor + 1) (cursor + 1)
        else let run = length (takeWhile (\<lambda>st. \<not> is_change st) (drop cursor steps)) in
             if cursor + run < length steps \<and> run \<le> 2 * context_lines
             then hunk_end steps stop (cursor + run)
             else stop
      else stop)"
  by pat_completeness auto
termination
proof (relation "measure (\<lambda>(steps, stop, cursor). length steps - cursor)")
  fix steps :: "(diff_op \<times> nat \<times> nat) list" and stop cursor run
  assume c: "cursor < length steps" "\<not> is_change (steps ! cursor)"
    "run = length (takeWhile (\<lambda>st. \<not> is_change st) (drop cursor steps))"
  then have "drop cursor steps = steps ! cursor # drop (Suc cursor) steps" by (simp add: Cons_nth_drop_Suc)
  with c have "0 < run" by simp
  with c(1) show "((steps, stop, cursor + run), steps, stop, cursor)
      \<in> measure (\<lambda>(steps, stop, cursor). length steps - cursor)" by simp
qed auto

declare hunk_end.simps [simp del]

definition diff_range :: "nat \<Rightarrow> nat \<Rightarrow> ustring" where
  "diff_range start count =
     (if count = 0 then dec start @ lit '',0''
      else if count = 1 then dec (start + 1)
      else dec (start + 1) @ lit '','' @ dec count)"

definition cut_line :: "ustring \<Rightarrow> ustring" where
  "cut_line line =
     (if bytes_of line \<le> max_line_bytes then line
      else take_bytes max_line_bytes line @ lit '' [line cut at '' @ dec max_line_bytes @ lit '' bytes]'')"

definition no_newline_line :: ustring where
  "no_newline_line = 92 # lit '' No newline at end of file''"

text \<open>The lines one step shows, and whether its text was cut.\<close>

definition step_lines :: "ustring list \<Rightarrow> ustring list \<Rightarrow> diff_op \<times> nat \<times> nat \<Rightarrow> ustring list \<times> bool" where
  "step_lines old_l new_l st =
     (let (op, a, b) = st;
          (marker, line) = (case op of
             DEqual \<Rightarrow> (32, old_l ! a) | DDelete \<Rightarrow> (45, old_l ! a) | DInsert \<Rightarrow> (43, new_l ! b));
          ended = strip_suffix [10] line;
          body = (case ended of None \<Rightarrow> line | Some l \<Rightarrow> l)
      in ((marker # cut_line body) # (if ended = None then [no_newline_line] else []),
          bytes_of body > max_line_bytes))"

definition hunk_lines ::
  "ustring list \<Rightarrow> ustring list \<Rightarrow> (diff_op \<times> nat \<times> nat) list \<Rightarrow> ustring list \<times> bool"
where
  "hunk_lines old_l new_l hunk =
     (let old_count = length (filter (\<lambda>st. fst st \<noteq> DInsert) hunk);
          new_count = length (filter (\<lambda>st. fst st \<noteq> DDelete) hunk);
          (_, old_start, new_start) = hd hunk
      in ((lit ''@@ -'' @ diff_range old_start old_count @ lit '' +'' @ diff_range new_start new_count @ lit '' @@'') #
            concat (map (\<lambda>st. fst (step_lines old_l new_l st)) hunk),
          list_ex (\<lambda>st. snd (step_lines old_l new_l st)) hunk))"

lemma hunk_end_bounds:
  "stop \<le> cursor \<Longrightarrow> cursor \<le> length steps \<Longrightarrow>
   stop \<le> hunk_end steps stop cursor \<and> hunk_end steps stop cursor \<le> length steps"
proof (induction steps stop cursor rule: hunk_end.induct)
  case (1 steps stop cursor)
  let ?run = "length (takeWhile (\<lambda>st. \<not> is_change st) (drop cursor steps))"
  show ?case
  proof (cases "cursor < length steps")
    case True
    show ?thesis
    proof (cases "is_change (steps ! cursor)")
      case change: True
      from "1.IH"(1) [OF True change] True "1.prems" change show ?thesis by (subst (1 2) hunk_end.simps) simp
    next
      case same: False
      show ?thesis
      proof (cases "cursor + ?run < length steps \<and> ?run \<le> 2 * context_lines")
        case gap: True
        from "1.IH"(2) [OF True same refl gap] "1.prems" True same gap show ?thesis
          by (subst (1 2) hunk_end.simps) (simp add: Let_def)
      next
        case gap: False
        with "1.prems" True same show ?thesis by (subst (1 2) hunk_end.simps) (auto simp: Let_def)
      qed
    qed
  next
    case False
    with "1.prems" show ?thesis by (subst (1 2) hunk_end.simps) simp
  qed
qed

lemma hunk_end_change:
  assumes "i < length steps" "is_change (steps ! i)"
  shows "i < hunk_end steps i i" and "hunk_end steps i i \<le> length steps"
  using hunk_end_bounds [of "i + 1" "i + 1" steps] assms by (subst hunk_end.simps; simp)+

text \<open>The hunks from a step on: their lines, and whether any was cut.\<close>

function diff_hunks ::
  "ustring list \<Rightarrow> ustring list \<Rightarrow> (diff_op \<times> nat \<times> nat) list \<Rightarrow> nat \<Rightarrow> ustring list \<times> bool"
where
  "diff_hunks old_l new_l steps index =
     (case position is_change (drop index steps) of
        None \<Rightarrow> ([], False)
      | Some off \<Rightarrow>
          (let first_change = index + off;
               start = max (first_change - context_lines) index;
               stop = min (hunk_end steps first_change first_change + context_lines) (length steps);
               (here, cut_here) = hunk_lines old_l new_l (piece steps start stop);
               (rest, cut_rest) = diff_hunks old_l new_l steps stop
           in (here @ rest, cut_here \<or> cut_rest)))"
  by pat_completeness auto
termination
proof (relation "measure (\<lambda>(old_l, new_l, steps, index). length steps - index)")
  fix old_l new_l steps index off first_change start stop
  assume "position is_change (drop index steps) = Some off" "first_change = index + off"
    "stop = min (hunk_end steps first_change first_change + context_lines) (length steps)"
  moreover from this have "first_change < length steps" "is_change (steps ! first_change)"
    using position_SomeD [of is_change "drop index steps" off] by auto
  ultimately show "((old_l, new_l, steps, stop), old_l, new_l, steps, index)
      \<in> measure (\<lambda>(old_l, new_l, steps, index). length steps - index)"
    using hunk_end_change(1) [of first_change steps] by auto
qed simp

declare diff_hunks.simps [simp del]

definition unified_lines :: "ustring \<Rightarrow> ustring \<Rightarrow> ustring list \<times> bool" where
  "unified_lines before after =
     (let old_l = split_inclusive 10 before; new_l = split_inclusive 10 after
      in diff_hunks old_l new_l (script_steps 0 0 (edit_script old_l new_l)) 0)"

section \<open>The refusal\<close>

definition refusal_head :: "ustring \<Rightarrow> ustring" where
  "refusal_head display =
     display @ lit '' changed on disk since you last read it. The change since then, as a unified diff of the text an edit matches:'' @
     newline @ lit ''--- '' @ display @ lit '' (as you last read it)'' @ newline @
     lit ''+++ '' @ display @ lit '' (on disk now)'' @ newline"

definition refusal_close :: ustring where
  "refusal_close = lit ''Re-issue the edit against the current text above, or read the file again.''"

definition refusal_text :: "ustring \<Rightarrow> ustring list \<Rightarrow> ustring" where
  "refusal_text display lines =
     refusal_head display @ concat (map (\<lambda>line. line @ newline) (take max_diff_lines lines)) @
     (if length lines > max_diff_lines
      then lit ''[diff capped at '' @ dec max_diff_lines @ lit '' lines; '' @
        dec (length lines - max_diff_lines) @ lit '' more not shown: read '' @ display @
        lit '' again for the rest]'' @ newline
      else []) @
     refusal_close"

definition stale_refusal_of :: "ustring \<Rightarrow> byte list option \<Rightarrow> byte list \<Rightarrow> stale_refusal" where
  "stale_refusal_of display observed current =
     (let plain = \<lparr>sr_message = changed_since_observed display, sr_whole = False\<rparr> in
      case Option.bind observed from_utf8 of
        None \<Rightarrow> plain
      | Some seen \<Rightarrow>
          (case from_utf8 current of
             None \<Rightarrow> plain
           | Some now \<Rightarrow>
               (let before = normalize_to_lf (fst (strip_bom seen));
                    after = normalize_to_lf (fst (strip_bom now));
                    (lines, cut_any) = unified_lines before after
                in if lines = [] then plain
                   else \<lparr>sr_message = refusal_text display lines,
                          sr_whole = (length lines \<le> max_diff_lines \<and> \<not> cut_any)\<rparr>)))"

end
