(* ===== verification/EditDiffLaws.thy ===== *)
theory EditDiffLaws
  imports EditDiff
begin

text \<open>
  Myers' algorithm finds a shortest edit script: its frontiers are the furthest points of each
  round, and the walk back over them spells a path.
\<close>

section \<open>Edit scripts and paths\<close>

text \<open>The operations turn the first list into the second.\<close>

fun script :: "diff_op list \<Rightarrow> 'a list \<Rightarrow> 'a list \<Rightarrow> bool" where
  "script [] [] [] = True"
| "script (DEqual # ops) (a # as) (b # bs) = (a = b \<and> script ops as bs)"
| "script (DDelete # ops) (a # as) bs = script ops as bs"
| "script (DInsert # ops) as (b # bs) = script ops as bs"
| "script _ _ _ = False"

definition edits :: "diff_op list \<Rightarrow> nat" where
  "edits ops = length (filter (\<lambda>op. op \<noteq> DEqual) ops)"

lemma edits_simps [simp]: "edits [] = 0" "edits (a @ b) = edits a + edits b"
  "edits [DEqual] = 0" "edits [DDelete] = 1" "edits [DInsert] = 1" "edits (replicate r DEqual) = 0"
  by (simp_all add: edits_def)

lemma script_Nil_left: "script ops [] ys \<longleftrightarrow> ops = replicate (length ys) DInsert"
proof (induction ops arbitrary: ys)
  case Nil
  then show ?case by (cases ys) auto
next
  case (Cons op ops)
  then show ?case by (cases op; cases ys) auto
qed

lemma script_append: "script p xs ys \<Longrightarrow> script q xs' ys' \<Longrightarrow> script (p @ q) (xs @ xs') (ys @ ys')"
  by (induction p xs ys rule: script.induct) auto

lemma script_equal: "script (replicate (length xs) DEqual) xs xs"
  by (induction xs) auto

lemma script_delete: "script (replicate (length xs) DDelete) xs []"
  by (induction xs) auto

lemma script_insert: "script (replicate (length ys) DInsert) [] ys"
  by (induction ys) auto

text \<open>Paths of the edit graph from the origin, continued without bound past its sides.\<close>

inductive reach :: "'a list \<Rightarrow> 'a list \<Rightarrow> nat \<Rightarrow> int \<Rightarrow> int \<Rightarrow> diff_op list \<Rightarrow> bool"
  for old_l new_l where
  origin: "reach old_l new_l 0 0 0 []"
| diagonal: "reach old_l new_l d x y ops \<Longrightarrow> x < int (length old_l) \<Longrightarrow> y < int (length new_l) \<Longrightarrow>
    old_l ! nat x = new_l ! nat y \<Longrightarrow> reach old_l new_l d (x + 1) (y + 1) (ops @ [DEqual])"
| delete: "reach old_l new_l d x y ops \<Longrightarrow> reach old_l new_l (Suc d) (x + 1) y (ops @ [DDelete])"
| insert: "reach old_l new_l d x y ops \<Longrightarrow> reach old_l new_l (Suc d) x (y + 1) (ops @ [DInsert])"

lemma reach_bounds:
  "reach old_l new_l d x y ops \<Longrightarrow>
     0 \<le> x \<and> 0 \<le> y \<and> - int d \<le> x - y \<and> x - y \<le> int d \<and> even (x - y + int d) \<and> edits ops = d"
  by (induction rule: reach.induct) (auto simp: algebra_simps)

lemma take_Suc_nth: "i < length xs \<Longrightarrow> take (Suc i) xs = take i xs @ [xs ! i]"
  by (rule take_Suc_conv_app_nth)

lemma nat_plus_one: "0 \<le> x \<Longrightarrow> nat (x + 1) = Suc (nat x)"
  by simp

lemma reach_script:
  "reach old_l new_l d x y ops \<Longrightarrow> x \<le> int (length old_l) \<Longrightarrow> y \<le> int (length new_l) \<Longrightarrow>
   script ops (take (nat x) old_l) (take (nat y) new_l)"
proof (induction rule: reach.induct)
  case (diagonal d x y ops)
  note b = reach_bounds [OF diagonal.hyps(1)]
  have "script [DEqual] [old_l ! nat x] [new_l ! nat y]" using diagonal by simp
  from script_append [OF _ this] diagonal b show ?case
    by (simp add: nat_plus_one take_Suc_nth nat_less_iff del: diagonal.IH)
next
  case (delete d x y ops)
  note b = reach_bounds [OF delete.hyps(1)]
  have "script [DDelete] [old_l ! nat x] []" by simp
  from script_append [OF _ this, of ops "take (nat x) old_l" "take (nat y) new_l"] delete b show ?case
    by (simp add: nat_plus_one take_Suc_nth nat_less_iff)
next
  case (insert d x y ops)
  note b = reach_bounds [OF insert.hyps(1)]
  have "script [DInsert] [] [new_l ! nat y]" by simp
  from script_append [OF _ this, of ops "take (nat x) old_l" "take (nat y) new_l"] insert b show ?case
    by (simp add: nat_plus_one take_Suc_nth nat_less_iff)
qed simp

lemma reach_append:
  "reach old_l new_l d x y ops \<Longrightarrow> script tail_ops (drop (nat x) old_l) (drop (nat y) new_l) \<Longrightarrow>
   x \<le> int (length old_l) \<Longrightarrow> y \<le> int (length new_l) \<Longrightarrow>
   reach old_l new_l (d + edits tail_ops) (int (length old_l)) (int (length new_l)) (ops @ tail_ops)"
proof (induction tail_ops arbitrary: d x y ops)
  case Nil
  then have "drop (nat x) old_l = []" "drop (nat y) new_l = []"
    by (auto elim: script.elims)
  with Nil reach_bounds [OF Nil(1)] have "x = int (length old_l)" "y = int (length new_l)" by auto
  with Nil show ?case by simp
next
  case (Cons op tail_ops)
  note b = reach_bounds [OF Cons.prems(1)]
  have old_drop: "drop (nat x) old_l = (if x < int (length old_l) then old_l ! nat x # drop (nat (x + 1)) old_l else [])"
    using b by (simp add: nat_plus_one Cons_nth_drop_Suc nat_less_iff)
  have new_drop: "drop (nat y) new_l = (if y < int (length new_l) then new_l ! nat y # drop (nat (y + 1)) new_l else [])"
    using b by (simp add: nat_plus_one Cons_nth_drop_Suc nat_less_iff)
  show ?case
  proof (cases op)
    case DEqual
    with Cons.prems(2) have s: "x < int (length old_l)" "y < int (length new_l)" "old_l ! nat x = new_l ! nat y"
      "script tail_ops (drop (nat (x + 1)) old_l) (drop (nat (y + 1)) new_l)"
      unfolding old_drop new_drop by (auto split: if_splits)
    from Cons.IH [OF diagonal [OF Cons.prems(1) s(1-3)] s(4)] s DEqual show ?thesis
      by (simp add: edits_def)
  next
    case DDelete
    with Cons.prems(2) have s: "x < int (length old_l)" "script tail_ops (drop (nat (x + 1)) old_l) (drop (nat y) new_l)"
      unfolding old_drop by (auto split: if_splits)
    from Cons.IH [OF delete [OF Cons.prems(1)] s(2)] s Cons.prems DDelete show ?thesis
      by (simp add: edits_def)
  next
    case DInsert
    with Cons.prems(2) have s: "y < int (length new_l)" "script tail_ops (drop (nat x) old_l) (drop (nat (y + 1)) new_l)"
      unfolding new_drop by (auto split: if_splits)
    from Cons.IH [OF insert [OF Cons.prems(1)] s(2)] s Cons.prems DInsert show ?thesis
      by (simp add: edits_def)
  qed
qed

lemma script_reach:
  "script ops old_l new_l \<Longrightarrow> reach old_l new_l (edits ops) (int (length old_l)) (int (length new_l)) ops"
  using reach_append [OF origin, of ops old_l new_l] by simp

text \<open>A path past the corner passes the corner earlier.\<close>

lemma reach_clamped:
  "reach old_l new_l d x y ops \<Longrightarrow>
   \<exists>d' ops'. reach old_l new_l d' (min x (int (length old_l))) (min y (int (length new_l))) ops' \<and>
     int d' + (x - min x (int (length old_l))) + (y - min y (int (length new_l))) \<le> int d"
proof (induction rule: reach.induct)
  case origin
  then show ?case using reach.origin by (intro exI [of _ 0] exI [of _ "[]"]) simp
next
  case (diagonal d x y ops)
  from reach.diagonal [OF diagonal.hyps] diagonal.hyps diagonal.IH show ?case
    by (intro exI [of _ d] exI [of _ "ops @ [DEqual]"]) simp
next
  case (delete d x y ops)
  then obtain d' ops' where r: "reach old_l new_l d' (min x (int (length old_l))) (min y (int (length new_l))) ops'"
    "int d' + (x - min x (int (length old_l))) + (y - min y (int (length new_l))) \<le> int d" by blast
  show ?case
  proof (cases "x < int (length old_l)")
    case True
    with r reach.delete [OF r(1)] show ?thesis by (intro exI [of _ "Suc d'"] exI [of _ "ops' @ [DDelete]"]) simp
  next
    case False
    with r show ?thesis by (intro exI [of _ d'] exI [of _ ops']) simp
  qed
next
  case (insert d x y ops)
  then obtain d' ops' where r: "reach old_l new_l d' (min x (int (length old_l))) (min y (int (length new_l))) ops'"
    "int d' + (x - min x (int (length old_l))) + (y - min y (int (length new_l))) \<le> int d" by blast
  show ?case
  proof (cases "y < int (length new_l)")
    case True
    with r reach.insert [OF r(1)] show ?thesis by (intro exI [of _ "Suc d'"] exI [of _ "ops' @ [DInsert]"]) simp
  next
    case False
    with r show ?thesis by (intro exI [of _ d'] exI [of _ ops']) simp
  qed
qed

section \<open>Following a diagonal\<close>

lemma follow_spec:
  assumes "follow old_l new_l x y = (x', y')"
  shows "x \<le> x' \<and> y' - y = x' - x \<and>
    \<not> (x' < int (length old_l) \<and> y' < int (length new_l) \<and> old_l ! nat x' = new_l ! nat y')"
  using assms
proof (induction old_l new_l x y rule: follow.induct)
  case (1 old_l new_l x y)
  show ?case
  proof (cases "x < int (length old_l) \<and> y < int (length new_l) \<and> old_l ! nat x = new_l ! nat y")
    case True
    with 1 show ?thesis by (subst (asm) follow.simps) fastforce
  next
    case False
    with "1.prems" show ?thesis by (subst (asm) follow.simps) auto
  qed
qed

lemma follow_reach:
  "follow old_l new_l x y = (x', y') \<Longrightarrow> reach old_l new_l d x y ops \<Longrightarrow>
   reach old_l new_l d x' y' (ops @ replicate (nat (x' - x)) DEqual)"
proof (induction old_l new_l x y arbitrary: ops rule: follow.induct)
  case (1 old_l new_l x y)
  show ?case
  proof (cases "x < int (length old_l) \<and> y < int (length new_l) \<and> old_l ! nat x = new_l ! nat y")
    case True
    with "1.prems"(1) have f: "follow old_l new_l (x + 1) (y + 1) = (x', y')"
      by (subst (asm) follow.simps) simp
    have r: "reach old_l new_l d x' y' ((ops @ [DEqual]) @ replicate (nat (x' - (x + 1))) DEqual)"
      by (rule "1.IH" [OF True f]) (use reach.diagonal "1.prems"(2) True in blast)
    have "nat (x' - x) = Suc (nat (x' - (x + 1)))" using follow_spec [OF f] by auto
    with r show ?thesis by simp
  next
    case False
    with "1.prems" show ?thesis by (subst (asm) follow.simps) simp
  qed
qed

lemma walk_back_eq:
  "walk_back x y to_x to_y ops =
     (x - int (nat (min (x - to_x) (y - to_y))), y - int (nat (min (x - to_x) (y - to_y))),
      ops @ replicate (nat (min (x - to_x) (y - to_y))) DEqual)"
proof (induction x y to_x to_y ops rule: walk_back.induct)
  case (1 x y to_x to_y ops)
  show ?case
  proof (cases "x > to_x \<and> y > to_y")
    case True
    then have n: "nat (min (x - to_x) (y - to_y)) = Suc (nat (min (x - 1 - to_x) (y - 1 - to_y)))" by auto
    show ?thesis
      by (subst walk_back.simps) (use True "1.IH" in \<open>simp add: n\<close>)
  next
    case False
    then have "nat (min (x - to_x) (y - to_y)) = 0" by auto
    with False show ?thesis by (subst walk_back.simps) auto
  qed
qed


section \<open>The frontiers\<close>

definition visited :: "nat \<Rightarrow> int \<Rightarrow> bool" where
  "visited d k \<longleftrightarrow> - int d \<le> k \<and> k \<le> int d \<and> even (k + int d)"

definition frontier_at :: "int list list \<Rightarrow> nat \<Rightarrow> int \<Rightarrow> int" where
  "frontier_at rounds d k = rounds ! d ! nat (k + int d)"

text \<open>Where round \<open>d\<close> arrives on diagonal \<open>k\<close>.\<close>

definition arrives :: "'a list \<Rightarrow> 'a list \<Rightarrow> int list list \<Rightarrow> nat \<Rightarrow> int \<Rightarrow> int" where
  "arrives old_l new_l rounds d k =
     fst (follow old_l new_l (start_x rounds (int d) k) (start_x rounds (int d) k - k))"

definition at_end :: "'a list \<Rightarrow> 'a list \<Rightarrow> int \<Rightarrow> int \<Rightarrow> bool" where
  "at_end old_l new_l x k \<longleftrightarrow> x \<ge> int (length old_l) \<and> x - k \<ge> int (length new_l)"

lemma follow_diagonal:
  "follow old_l new_l x (x - k) = (fst (follow old_l new_l x (x - k)), fst (follow old_l new_l x (x - k)) - k)"
  using follow_spec [of old_l new_l x "x - k"] by (cases "follow old_l new_l x (x - k)") force

lemma arrives_ge: "start_x rounds (int d) k \<le> arrives old_l new_l rounds d k"
  using follow_spec [OF follow_diagonal [of old_l new_l "start_x rounds (int d) k" k]] by (simp add: arrives_def)

definition complete_rounds :: "'a list \<Rightarrow> 'a list \<Rightarrow> int list list \<Rightarrow> bool" where
  "complete_rounds old_l new_l rounds \<longleftrightarrow>
     (\<forall>d < length rounds. \<forall>k. visited d k \<longrightarrow>
        frontier_at rounds d k = arrives old_l new_l rounds d k \<and>
        \<not> at_end old_l new_l (frontier_at rounds d k) k)"

lemma previous_frontier: "previous_x rounds (int (Suc d)) k = frontier_at rounds d k"
  by (simp add: previous_x_def frontier_at_def)

lemma visited_neighbours:
  assumes "visited (Suc d) k"
  shows "k \<noteq> - int (Suc d) \<Longrightarrow> visited d (k - 1)" and "k \<noteq> int (Suc d) \<Longrightarrow> visited d (k + 1)"
proof -
  from assms have k: "- int (Suc d) \<le> k" "k \<le> int (Suc d)" "even (k + int (Suc d))" by (auto simp: visited_def)
  show "visited d (k - 1)" if "k \<noteq> - int (Suc d)"
  proof -
    have "k \<noteq> - int d" using k(3) by auto
    with k that show ?thesis by (auto simp: visited_def)
  qed
  show "visited d (k + 1)" if "k \<noteq> int (Suc d)"
  proof -
    have "k \<noteq> int d" using k(3) by auto
    with k that show ?thesis by (auto simp: visited_def)
  qed
qed

text \<open>A frontier is the furthest point of its round on its diagonal.\<close>

lemma frontier_furthest:
  assumes complete: "complete_rounds old_l new_l rounds"
    and "reach old_l new_l d x y ops" "d < length rounds"
  shows "x \<le> frontier_at rounds d (x - y)"
  using assms(2,3)
proof (induction rule: reach.induct)
  case origin
  then have "frontier_at rounds 0 0 = arrives old_l new_l rounds 0 0"
    using complete by (auto simp: complete_rounds_def visited_def)
  then show ?case
    using follow_spec [of old_l new_l 0 0] by (cases "follow old_l new_l 0 0") (simp add: arrives_def start_x_def)
next
  case (diagonal d x y ops)
  have v: "visited d (x - y)" using reach_bounds [OF diagonal.hyps(1)] by (simp add: visited_def)
  let ?f = "frontier_at rounds d (x - y)"
  let ?s = "start_x rounds (int d) (x - y)"
  have f: "?f = arrives old_l new_l rounds d (x - y)"
    using complete v diagonal.prems by (auto simp: complete_rounds_def)
  have stuck: "\<not> (?f < int (length old_l) \<and> ?f - (x - y) < int (length new_l) \<and> old_l ! nat ?f = new_l ! nat (?f - (x - y)))"
    using follow_spec [OF follow_diagonal [of old_l new_l ?s "x - y"]] by (simp add: f arrives_def)
  have "x \<le> ?f" using diagonal by simp
  moreover have "x \<noteq> ?f" using stuck diagonal.hyps by auto
  ultimately show ?case by simp
next
  case (delete d x y ops)
  let ?k = "x - y + 1"
  note b = reach_bounds [OF delete.hyps(1)]
  have v: "visited (Suc d) ?k" using b by (auto simp: visited_def)
  have f: "frontier_at rounds (Suc d) ?k = arrives old_l new_l rounds (Suc d) ?k"
    using complete v delete.prems by (auto simp: complete_rounds_def)
  have "x + 1 \<le> start_x rounds (int (Suc d)) ?k"
    using delete.IH delete.prems b
    by (auto simp: start_x_def goes_down_def previous_frontier simp del: of_nat_Suc)
  also have "\<dots> \<le> arrives old_l new_l rounds (Suc d) ?k"
    by (rule arrives_ge)
  finally have "x + 1 \<le> frontier_at rounds (Suc d) ?k" by (simp only: f)
  moreover have "?k = x + 1 - y" by simp
  ultimately show ?case by (simp only:)
next
  case (insert d x y ops)
  let ?k = "x - y - 1"
  note b = reach_bounds [OF insert.hyps(1)]
  have v: "visited (Suc d) ?k" using b by (auto simp: visited_def)
  have f: "frontier_at rounds (Suc d) ?k = arrives old_l new_l rounds (Suc d) ?k"
    using complete v insert.prems by (auto simp: complete_rounds_def)
  have "x \<le> start_x rounds (int (Suc d)) ?k"
    using insert.IH insert.prems b
    by (auto simp: start_x_def goes_down_def previous_frontier simp del: of_nat_Suc)
  also have "\<dots> \<le> arrives old_l new_l rounds (Suc d) ?k"
    by (rule arrives_ge)
  finally have "x \<le> frontier_at rounds (Suc d) ?k" by (simp only: f)
  moreover have "?k = x - (y + 1)" by simp
  ultimately show ?case by (simp only:)
qed

text \<open>No path reaches the end within the complete rounds.\<close>

lemma not_within_complete:
  assumes complete: "complete_rounds old_l new_l rounds"
    and end_path: "reach old_l new_l d (int (length old_l)) (int (length new_l)) ops"
  shows "length rounds \<le> d"
proof (rule ccontr)
  assume "\<not> length rounds \<le> d"
  then have d: "d < length rounds" by simp
  let ?k = "int (length old_l) - int (length new_l)"
  have "visited d ?k" using reach_bounds [OF end_path] by (simp add: visited_def)
  then have "\<not> at_end old_l new_l (frontier_at rounds d ?k) ?k"
    using complete d unfolding complete_rounds_def by blast
  with frontier_furthest [OF complete end_path d] show False by (simp add: at_end_def)
qed

text \<open>So a path that reaches the end in the first incomplete round stands exactly at the corner.\<close>

lemma arrives_at_corner:
  assumes complete: "complete_rounds old_l new_l rounds"
    and path: "reach old_l new_l (length rounds) x y ops"
    and past: "x \<ge> int (length old_l)" "y \<ge> int (length new_l)"
  shows "x = int (length old_l) \<and> y = int (length new_l)"
proof -
  from reach_clamped [OF path] past obtain d' ops' where
    "reach old_l new_l d' (int (length old_l)) (int (length new_l)) ops'"
    "int d' + (x - int (length old_l)) + (y - int (length new_l)) \<le> int (length rounds)"
    by (auto simp: min_def split: if_splits)
  with not_within_complete [OF complete this(1)] past show ?thesis by linarith
qed

section \<open>The walk back spells a path\<close>

definition spelled :: "int list list \<Rightarrow> nat \<Rightarrow> int \<Rightarrow> int \<Rightarrow> diff_op list" where
  "spelled rounds d x y =
     (let (x', y', ops) = backtrack_rounds rounds d x y []; (_, _, ops) = walk_back x' y' 0 0 ops in rev ops)"

lemma backtrack_step:
  "\<exists>r px py op. \<forall>ops. backtrack_rounds rounds (Suc d) x y ops =
     backtrack_rounds rounds d px py (ops @ replicate r DEqual @ [op])"
proof (cases "goes_down rounds (int (Suc d)) (x - y)")
  case True
  then show ?thesis
    by (simp add: Let_def walk_back_eq del: of_nat_Suc) blast
next
  case False
  then show ?thesis
    by (simp add: Let_def walk_back_eq del: of_nat_Suc) blast
qed

lemma backtrack_rounds_acc:
  "backtrack_rounds rounds d x y (acc @ ops) =
     (case backtrack_rounds rounds d x y ops of (x', y', ops') \<Rightarrow> (x', y', acc @ ops'))"
proof (induction d arbitrary: x y ops)
  case (Suc d)
  obtain r px py op where step: "\<And>ops. backtrack_rounds rounds (Suc d) x y ops =
      backtrack_rounds rounds d px py (ops @ replicate r DEqual @ [op])"
    using backtrack_step [of rounds d x y] by blast
  show ?case unfolding step using Suc.IH [of px py "ops @ replicate r DEqual @ [op]"] by simp
qed simp

lemma spelled_path:
  assumes complete: "complete_rounds old_l new_l rounds"
  shows "d \<le> length rounds \<Longrightarrow> visited d k \<Longrightarrow>
    reach old_l new_l d (arrives old_l new_l rounds d k) (arrives old_l new_l rounds d k - k)
      (spelled rounds d (arrives old_l new_l rounds d k) (arrives old_l new_l rounds d k - k))"
proof (induction d arbitrary: k)
  case 0
  then have k: "k = 0" by (auto simp: visited_def)
  let ?x = "arrives old_l new_l rounds 0 0"
  have f: "follow old_l new_l 0 0 = (?x, ?x)"
    using follow_diagonal [of old_l new_l 0 0] by (simp add: arrives_def start_x_def)
  from follow_reach [OF f reach.origin] show ?case
    using follow_spec [OF f] by (simp add: k spelled_def walk_back_eq)
next
  case (Suc d)
  let ?d = "int (Suc d)" let ?down = "goes_down rounds ?d k"
  let ?pk = "if ?down then k + 1 else k - 1"
  let ?px = "frontier_at rounds d ?pk" let ?py = "?px - ?pk"
  let ?sx = "start_x rounds ?d k"
  let ?x = "arrives old_l new_l rounds (Suc d) k"
  have d: "d < length rounds" using Suc.prems by simp
  have pv: "visited d ?pk"
    using visited_neighbours [OF Suc.prems(2)] Suc.prems(2) by (auto simp: goes_down_def visited_def)
  then have px: "?px = arrives old_l new_l rounds d ?pk"
    using complete d by (auto simp: complete_rounds_def)
  have path: "reach old_l new_l d ?px ?py (spelled rounds d ?px ?py)"
    unfolding px by (rule Suc.IH [OF less_imp_le [OF d] pv])
  have sx: "?sx = (if ?down then ?px else ?px + 1)"
    by (simp add: start_x_def previous_frontier del: of_nat_Suc)
  have step: "reach old_l new_l (Suc d) ?sx (?sx - k) (spelled rounds d ?px ?py @ [if ?down then DInsert else DDelete])"
  proof (cases ?down)
    case True
    then have "?sx = ?px" "?sx - k = ?py + 1" unfolding sx by simp_all
    with True reach.insert [OF path] show ?thesis by (simp only: if_True)
  next
    case False
    then have "?sx = ?px + 1" "?sx - k = ?py" unfolding sx by simp_all
    with False reach.delete [OF path] show ?thesis by (simp only: if_False)
  qed
  have f: "follow old_l new_l ?sx (?sx - k) = (?x, ?x - k)"
    using follow_diagonal [of old_l new_l ?sx k] by (simp add: arrives_def)
  have ge: "?sx \<le> ?x" using follow_spec [OF f] by simp
  let ?run = "replicate (nat (?x - ?sx)) DEqual"
  have walk: "walk_back ?x (?x - k) (if ?down then ?px else ?px + 1) (if ?down then ?py + 1 else ?py) [] =
      (?sx, ?sx - k, ?run)"
    using ge unfolding sx by (cases ?down) (simp_all add: walk_back_eq)
  have "spelled rounds (Suc d) ?x (?x - k) = spelled rounds d ?px ?py @ [if ?down then DInsert else DDelete] @ ?run"
    using walk backtrack_rounds_acc [of rounds d ?px ?py "?run @ [if ?down then DInsert else DDelete]" "[]"]
    by (auto simp: spelled_def Let_def previous_frontier walk_back_eq split_beta simp del: of_nat_Suc)
  with follow_reach [OF f step] show ?case by simp
qed


section \<open>The search\<close>

lemma start_x_append:
  "d \<le> length rounds \<Longrightarrow> start_x (rounds @ [f]) (int d) k = start_x rounds (int d) k"
  "d \<le> length rounds \<Longrightarrow> 0 < d \<Longrightarrow> goes_down (rounds @ [f]) (int d) k = goes_down rounds (int d) k"
  "d \<le> length rounds \<Longrightarrow> 0 < d \<Longrightarrow> previous_x (rounds @ [f]) (int d) k = previous_x rounds (int d) k"
  by (auto simp: start_x_def goes_down_def previous_x_def nth_append)

lemma arrives_append: "d \<le> length rounds \<Longrightarrow> arrives old_l new_l (rounds @ [f]) d k = arrives old_l new_l rounds d k"
  by (simp add: arrives_def start_x_append)

lemma backtrack_append:
  "d \<le> length rounds \<Longrightarrow> backtrack_rounds (rounds @ [f]) d x y ops = backtrack_rounds rounds d x y ops"
proof (induction d arbitrary: x y ops)
  case (Suc d)
  then show ?case
    by (simp add: start_x_append(2,3) Let_def split_beta del: of_nat_Suc)
qed simp

lemma sweep_spec:
  assumes "sweep old_l new_l rounds (int d) frontier k = (f, reached)"
    and "- int d \<le> k" "even (k + int d)" "length frontier = 2 * d + 1"
  shows "length f = 2 * d + 1 \<and>
    (\<forall>k'. visited d k' \<and> k' < k \<longrightarrow> f ! nat (k' + int d) = frontier ! nat (k' + int d)) \<and>
    (reached \<longrightarrow> (\<exists>k'. visited d k' \<and> at_end old_l new_l (arrives old_l new_l rounds d k') k')) \<and>
    (\<not> reached \<longrightarrow> (\<forall>k'. visited d k' \<and> k \<le> k' \<longrightarrow> f ! nat (k' + int d) = arrives old_l new_l rounds d k' \<and>
       \<not> at_end old_l new_l (arrives old_l new_l rounds d k') k'))"
  using assms
proof (induction "nat (int d + 2 - k)" arbitrary: frontier k rule: less_induct)
  case less
  let ?x = "arrives old_l new_l rounds d k"
  have f: "follow old_l new_l (start_x rounds (int d) k) (start_x rounds (int d) k - k) = (?x, ?x - k)"
    using follow_diagonal [of old_l new_l "start_x rounds (int d) k" k] by (simp add: arrives_def)
  show ?case
  proof (cases "k \<le> int d")
    case False
    with less.prems show ?thesis by (subst (asm) sweep.simps) (auto simp: visited_def)
  next
    case True
    then have v: "visited d k" using less.prems by (simp add: visited_def)
    let ?f = "frontier[nat (k + int d) := ?x]"
    show ?thesis
    proof (cases "at_end old_l new_l ?x k")
      case at: True
      then have "sweep old_l new_l rounds (int d) frontier k = (?f, True)"
        using True f by (subst sweep.simps) (simp add: at_end_def)
      with less.prems(1) have "f = ?f" "reached" by simp_all
      with v at less.prems show ?thesis by (auto simp: visited_def nth_list_update nat_eq_iff)
    next
      case False
      then have "sweep old_l new_l rounds (int d) frontier k = sweep old_l new_l rounds (int d) ?f (k + 2)"
        using True f by (subst sweep.simps) (auto simp: at_end_def)
      with less.prems(1) have rec: "sweep old_l new_l rounds (int d) ?f (k + 2) = (f, reached)" by simp
      have "nat (int d + 2 - (k + 2)) < nat (int d + 2 - k)" using True by simp
      from less.hyps [OF this rec] less.prems(2-4)
      have ih: "length f = 2 * d + 1"
        "\<And>k'. visited d k' \<Longrightarrow> k' < k + 2 \<Longrightarrow> f ! nat (k' + int d) = ?f ! nat (k' + int d)"
        "reached \<Longrightarrow> \<exists>k'. visited d k' \<and> at_end old_l new_l (arrives old_l new_l rounds d k') k'"
        "\<And>k'. \<not> reached \<Longrightarrow> visited d k' \<Longrightarrow> k + 2 \<le> k' \<Longrightarrow> f ! nat (k' + int d) = arrives old_l new_l rounds d k' \<and>
           \<not> at_end old_l new_l (arrives old_l new_l rounds d k') k'"
        by auto
      have here: "f ! nat (k + int d) = ?x"
        using ih(2) [OF v] less.prems(2,4) True by (simp add: nth_list_update)
      have "f ! nat (k' + int d) = arrives old_l new_l rounds d k' \<and> \<not> at_end old_l new_l (arrives old_l new_l rounds d k') k'"
        if "\<not> reached" "visited d k'" "k \<le> k'" for k'
      proof (cases "k' = k")
        case True
        with here False show ?thesis by simp
      next
        case False
        have "even (k' - k)" using that(2) v by (auto simp: visited_def)
        then have "k' - k \<noteq> 1" by (metis odd_one)
        with False that(3) have "k + 2 \<le> k'" by linarith
        with ih(4) that show ?thesis by blast
      qed
      moreover have "f ! nat (k' + int d) = frontier ! nat (k' + int d)" if "visited d k'" "k' < k" for k'
        using ih(2) [OF that(1)] that less.prems(2) by (simp add: visited_def nth_list_update nat_eq_iff)
      ultimately show ?thesis using ih(1,3) by blast
    qed
  qed
qed

lemma search_rounds_spec:
  assumes "complete_rounds old_l new_l rounds" "length rounds = d"
  shows "case search_rounds old_l new_l limit rounds d of
      Some ops \<Rightarrow> script ops old_l new_l \<and> (\<forall>ops'. script ops' old_l new_l \<longrightarrow> edits ops \<le> edits ops')
    | None \<Rightarrow> \<forall>ops'. script ops' old_l new_l \<longrightarrow> max (limit + 1) d \<le> edits ops'"
  using assms
proof (induction "limit + 1 - d" arbitrary: rounds d rule: less_induct)
  case less
  note complete = less.prems(1) and len = less.prems(2)
  have least: "d \<le> edits ops'" if "script ops' old_l new_l" for ops'
    using not_within_complete [OF complete script_reach [OF that]] len by simp
  show ?case
  proof (cases "d \<le> limit")
    case False
    then show ?thesis by (subst search_rounds.simps) (use least in auto)
  next
    case True
    obtain f reached where sw: "sweep old_l new_l rounds (int d) (replicate (2 * d + 1) 0) (- int d) = (f, reached)"
      by (cases "sweep old_l new_l rounds (int d) (replicate (2 * d + 1) 0) (- int d)") auto
    have "length (replicate (2 * d + 1) (0::int)) = 2 * d + 1" by simp
    note spec = sweep_spec [OF sw order.refl _ this]
    show ?thesis
    proof (cases reached)
      case at: True
      with spec obtain k where k: "visited d k" "at_end old_l new_l (arrives old_l new_l rounds d k) k" by auto
      let ?x = "arrives old_l new_l rounds d k"
      have path: "reach old_l new_l d ?x (?x - k) (spelled rounds d ?x (?x - k))"
        using spelled_path [OF complete _ k(1)] len by simp
      with arrives_at_corner [OF complete, of ?x "?x - k"] k(2) len
      have corner: "?x = int (length old_l)" "?x - k = int (length new_l)" by (auto simp: at_end_def)
      have "backtrack (rounds @ [f]) (int (length old_l)) (int (length new_l)) =
          spelled rounds d (int (length old_l)) (int (length new_l))"
        using len by (simp add: backtrack_def spelled_def backtrack_append)
      moreover have "script (spelled rounds d (int (length old_l)) (int (length new_l))) old_l new_l"
        using reach_script [OF path] corner by simp
      moreover have "edits (spelled rounds d (int (length old_l)) (int (length new_l))) = d"
        using reach_bounds [OF path] corner by simp
      ultimately show ?thesis using True sw at least by (subst search_rounds.simps) simp
    next
      case False
      have "complete_rounds old_l new_l (rounds @ [f])"
        unfolding complete_rounds_def
      proof (intro allI impI)
        fix e k assume e: "e < length (rounds @ [f])" and v: "visited e k"
        show "frontier_at (rounds @ [f]) e k = arrives old_l new_l (rounds @ [f]) e k \<and>
            \<not> at_end old_l new_l (frontier_at (rounds @ [f]) e k) k"
        proof (cases "e < length rounds")
          case True
          have "frontier_at rounds e k = arrives old_l new_l rounds e k \<and> \<not> at_end old_l new_l (frontier_at rounds e k) k"
            using complete v True unfolding complete_rounds_def by blast
          moreover have "frontier_at (rounds @ [f]) e k = frontier_at rounds e k"
            using True by (simp add: frontier_at_def nth_append)
          moreover have "arrives old_l new_l (rounds @ [f]) e k = arrives old_l new_l rounds e k"
            using True by (simp add: arrives_append)
          ultimately show ?thesis by metis
        next
          case False
          with e have "e = d" using len by simp
          with v spec \<open>\<not> reached\<close> len show ?thesis
            by (auto simp: frontier_at_def nth_append arrives_append visited_def)
        qed
      qed
      moreover have "limit + 1 - (d + 1) < limit + 1 - d" using True by simp
      ultimately have "case search_rounds old_l new_l limit (rounds @ [f]) (d + 1) of
          Some ops \<Rightarrow> script ops old_l new_l \<and> (\<forall>ops'. script ops' old_l new_l \<longrightarrow> edits ops \<le> edits ops')
        | None \<Rightarrow> \<forall>ops'. script ops' old_l new_l \<longrightarrow> max (limit + 1) (d + 1) \<le> edits ops'"
        using less.hyps [of "d + 1" "rounds @ [f]"] len by simp
      then show ?thesis
        by (subst search_rounds.simps) (use True sw False in \<open>auto split: option.splits\<close>)
    qed
  qed
qed

lemma complete_Nil: "complete_rounds old_l new_l []"
  by (simp add: complete_rounds_def)

lemma myers_shortest:
  "myers old_l new_l = Some ops \<Longrightarrow> script ops old_l new_l"
  "myers old_l new_l = Some ops \<Longrightarrow> script ops' old_l new_l \<Longrightarrow> edits ops \<le> edits ops'"
  using search_rounds_spec [OF complete_Nil, of 0 old_l new_l "min (length old_l + length new_l) max_edit_distance"]
  by (auto simp: myers_def)

text \<open>It gives up only beyond the bound.\<close>

lemma myers_gives_up:
  assumes "myers old_l new_l = None" "script ops old_l new_l"
  shows "max_edit_distance < edits ops"
proof -
  have far: "min (length old_l + length new_l) max_edit_distance < edits ops'" if "script ops' old_l new_l" for ops'
    using search_rounds_spec [OF complete_Nil, of 0 old_l new_l "min (length old_l + length new_l) max_edit_distance"]
      assms(1) that by (auto simp: myers_def)
  have "script (replicate (length old_l) DDelete @ replicate (length new_l) DInsert) old_l new_l"
    using script_append [OF script_delete script_insert, of old_l new_l] by simp
  from far [OF this] have "max_edit_distance < length old_l + length new_l"
    by (auto simp: edits_def)
  with far [OF assms(2)] show ?thesis by simp
qed

section \<open>The script of the refusal\<close>

lemma common_prefix_spec: "take (common_prefix xs ys) xs = take (common_prefix xs ys) ys"
  by (induction xs ys rule: list_induct2') (auto simp: common_prefix_def)

lemma common_prefix_le: "common_prefix xs ys \<le> length xs" "common_prefix xs ys \<le> length ys"
  by (induction xs ys rule: list_induct2') (auto simp: common_prefix_def)

lemma three_parts: "h \<le> k \<Longrightarrow> xs = take h xs @ drop h (take k xs) @ drop k xs"
  by (metis append.assoc append_take_drop_id min.absorb1 take_take)

lemma edit_script_sound: "script (edit_script old_l new_l) old_l new_l"
proof -
  let ?h = "common_prefix old_l new_l"
  let ?t = "common_prefix (rev (drop ?h old_l)) (rev (drop ?h new_l))"
  let ?mo = "drop ?h (take (length old_l - ?t) old_l)" and ?mn = "drop ?h (take (length new_l - ?t) new_l)"
  have t: "?t \<le> length old_l - ?h" "?t \<le> length new_l - ?h"
    using common_prefix_le [of "rev (drop ?h old_l)" "rev (drop ?h new_l)"] by simp_all
  have tails: "drop (length old_l - ?t) old_l = drop (length new_l - ?t) new_l"
  proof -
    have "rev (take ?t (rev (drop ?h old_l))) = rev (take ?t (rev (drop ?h new_l)))"
      by (simp only: common_prefix_spec)
    then show ?thesis using t common_prefix_le [of old_l new_l] by (simp add: take_rev)
  qed
  have old_parts: "old_l = take ?h old_l @ ?mo @ drop (length old_l - ?t) old_l"
    using t common_prefix_le(1) [of old_l new_l]
    by (intro three_parts) simp
  have new_parts: "new_l = take ?h new_l @ ?mn @ drop (length new_l - ?t) new_l"
    using t common_prefix_le(2) [of old_l new_l]
    by (intro three_parts) simp
  have mid: "script (case myers ?mo ?mn of Some middle \<Rightarrow> middle
      | None \<Rightarrow> replicate (length ?mo) DDelete @ replicate (length ?mn) DInsert) ?mo ?mn"
    using myers_shortest(1) [of ?mo ?mn] script_append [OF script_delete [of ?mo] script_insert [of ?mn]]
    by (cases "myers ?mo ?mn") simp_all
  have pre: "script (replicate ?h DEqual) (take ?h old_l) (take ?h new_l)"
    using script_equal [of "take ?h new_l"] common_prefix_le(2) [of old_l new_l]
    by (simp add: common_prefix_spec min_absorb2)
  have post: "script (replicate ?t DEqual) (drop (length old_l - ?t) old_l) (drop (length new_l - ?t) new_l)"
    using script_equal [of "drop (length old_l - ?t) old_l"] t by (simp add: tails)
  show ?thesis
    using script_append [OF pre script_append [OF mid post]] old_parts new_parts
    by (simp add: edit_script_def Let_def)
qed

end
