(* ===== verification/EditStale.thy ===== *)
theory EditStale
  imports EditDiffLaws EditMatch
begin

text \<open>
  A refusal that shows the whole change says what the file holds: a reader of the unified diff who
  has the lines last observed recovers the current lines.
\<close>

section \<open>Numbers back from their digits\<close>

definition undec :: "ustring \<Rightarrow> nat" where
  "undec ds = foldl (\<lambda>n d. n * 10 + (d - 48)) 0 ds"

lemma undec_dec [simp]: "undec (dec n) = n"
proof (induction n rule: dec.induct)
  case (1 n)
  then show ?case by (subst dec.simps) (simp add: undec_def)
qed

definition is_digit :: "nat \<Rightarrow> bool" where
  "is_digit c \<longleftrightarrow> 48 \<le> c \<and> c \<le> 57"

lemma takeWhile_dec: "r = [] \<or> \<not> is_digit (hd r) \<Longrightarrow> takeWhile is_digit (dec n @ r) = dec n"
  using dec_digits by (cases r) (auto simp: takeWhile_append2 is_digit_def)

lemma dropWhile_dec: "r = [] \<or> \<not> is_digit (hd r) \<Longrightarrow> dropWhile is_digit (dec n @ r) = r"
  using dec_digits by (cases r) (auto simp: dropWhile_append2 is_digit_def)

lemma dec_first: "hd (dec n) = 48 \<Longrightarrow> n = 0"
proof (induction n rule: dec.induct)
  case (1 n)
  show ?case
  proof (cases "n < 10")
    case True
    with "1.prems" show ?thesis by (subst (asm) dec.simps) simp
  next
    case False
    with "1.prems" have "hd (dec (n div 10)) = 48" by (subst (asm) dec.simps) (simp add: dec_nonempty)
    with "1.IH" False have "n div 10 = 0" by blast
    with False show ?thesis by auto
  qed
qed

section \<open>The reader\<close>

text \<open>The old index a hunk header names: its first number is one less when the range is not empty.\<close>

definition header_start :: "ustring \<Rightarrow> nat" where
  "header_start line =
     (let after = drop 4 line; rest = dropWhile is_digit after; n = undec (takeWhile is_digit after)
      in if take 2 rest = lit '',0'' then n else n - 1)"

lemma header_start_number:
  assumes "r = [] \<or> \<not> is_digit (hd r)"
  shows "header_start (lit ''@@ -'' @ dec n @ r) = (if take 2 r = lit '',0'' then n else n - 1)"
proof -
  have four: "drop 4 (lit ''@@ -'' @ s) = s" for s by (simp add: lit_def)
  show ?thesis unfolding header_start_def four Let_def takeWhile_dec [OF assms] dropWhile_dec [OF assms] by simp
qed

lemma header_start_eq:
  assumes "rest = [] \<or> hd rest = 32"
  shows "header_start (lit ''@@ -'' @ diff_range start count @ rest) = start"
proof -
  have nd: "\<not> is_digit 44" "\<not> is_digit 32" by (simp_all add: is_digit_def)
  have r: "rest = [] \<or> \<not> is_digit (hd rest)" using assms nd by auto
  have comma: "lit '',0'' = [44, 48]" "lit '','' = [44]" by (simp_all add: lit_def)
  consider "count = 0" | "count = 1" | "2 \<le> count" by linarith
  then show ?thesis
  proof cases
    case 1
    then show ?thesis using header_start_number [of "lit '',0'' @ rest" start] nd
      by (simp add: diff_range_def comma)
  next
    case 2
    have "take 2 rest \<noteq> lit '',0''" using assms by (cases rest) (auto simp: comma)
    with 2 show ?thesis using header_start_number [OF r, of "start + 1"] by (simp add: diff_range_def)
  next
    case 3
    have "hd (dec count) \<noteq> 48" using dec_first 3 by force
    then have "take 2 (44 # dec count @ rest) \<noteq> lit '',0''"
      using dec_nonempty [of count] by (cases "dec count") (auto simp: comma)
    with 3 nd show ?thesis using header_start_number [of "44 # dec count @ rest" "start + 1"]
      by (simp add: diff_range_def comma)
  qed
qed

definition marker_next :: "ustring list \<Rightarrow> bool" where
  "marker_next ls \<longleftrightarrow> ls \<noteq> [] \<and> hd ls \<noteq> [] \<and> hd (hd ls) = 92"

fun read_diff :: "ustring list \<Rightarrow> nat \<Rightarrow> ustring list \<Rightarrow> ustring list" where
  "read_diff old_l cursor [] = drop cursor old_l"
| "read_diff old_l cursor (l # ls) =
     (if hd l = 64 then piece old_l cursor (header_start l) @ read_diff old_l (header_start l) ls
      else if hd l = 32 then old_l ! cursor # read_diff old_l (cursor + 1) ls
      else if hd l = 45 then read_diff old_l (cursor + 1) ls
      else if hd l = 43 then (tl l @ (if marker_next ls then [] else [10])) # read_diff old_l cursor ls
      else read_diff old_l cursor ls)"

section \<open>Segments of a script\<close>

definition takes_old :: "diff_op list \<Rightarrow> nat" where
  "takes_old ops = length (filter (\<lambda>op. op \<noteq> DInsert) ops)"

definition takes_new :: "diff_op list \<Rightarrow> nat" where
  "takes_new ops = length (filter (\<lambda>op. op \<noteq> DDelete) ops)"

lemma takes_append [simp]: "takes_old (p @ q) = takes_old p + takes_old q"
  "takes_new (p @ q) = takes_new p + takes_new q" "takes_old [] = 0" "takes_new [] = 0"
  by (simp_all add: takes_old_def takes_new_def)

lemma takes_Cons: "takes_old (op # ops) = (if op = DInsert then 0 else 1) + takes_old ops"
  "takes_new (op # ops) = (if op = DDelete then 0 else 1) + takes_new ops"
  by (simp_all add: takes_old_def takes_new_def)

lemma script_steps_append:
  "script_steps a b (p @ q) = script_steps a b p @ script_steps (a + takes_old p) (b + takes_new p) q"
  by (induction p arbitrary: a b) (auto simp: takes_Cons split: diff_op.splits)

lemma length_script_steps [simp]: "length (script_steps a b ops) = length ops"
  by (induction ops arbitrary: a b) (auto split: diff_op.splits)

lemma map_fst_steps: "map fst (script_steps a b ops) = ops"
  by (induction ops arbitrary: a b) (auto split: diff_op.splits)

lemma script_Cons:
  "script (DEqual # ops) xs ys \<longleftrightarrow> (\<exists>x as bs. xs = x # as \<and> ys = x # bs \<and> script ops as bs)"
  "script (DDelete # ops) xs ys \<longleftrightarrow> (\<exists>x as. xs = x # as \<and> script ops as ys)"
  "script (DInsert # ops) xs ys \<longleftrightarrow> (\<exists>y bs. ys = y # bs \<and> script ops xs bs)"
  by (cases xs; cases ys; auto)+

lemma script_drop:
  "script (p @ q) xs ys \<Longrightarrow> script q (drop (takes_old p) xs) (drop (takes_new p) ys)"
proof (induction p arbitrary: xs ys)
  case (Cons op p)
  then show ?case by (cases op) (auto simp: takes_Cons script_Cons)
qed simp

lemma script_all_equal: "script ops xs ys \<Longrightarrow> set ops \<subseteq> {DEqual} \<Longrightarrow> xs = ys"
  by (induction ops xs ys rule: script.induct) auto

lemma script_equal_prefix:
  "script (p @ q) xs ys \<Longrightarrow> set p \<subseteq> {DEqual} \<Longrightarrow>
   take (length p) xs = take (length p) ys \<and> takes_old p = length p \<and> takes_new p = length p"
proof (induction p arbitrary: xs ys)
  case (Cons op p)
  then show ?case by (cases xs; cases ys) (auto simp: takes_Cons)
qed simp

text \<open>Reading the lines of a segment yields the new lines of the segment.\<close>

lemma split_line: "(l :: ustring) \<noteq> [] \<Longrightarrow> 10 \<notin> set (butlast l) \<Longrightarrow>
    strip_suffix [10] l = (if last l = 10 then Some (butlast l) else None)"
proof (cases l rule: rev_cases)
  case (snoc xs x)
  then show ?thesis by (simp add: strip_suffix_def ends_with_def)
qed simp

definition proper_lines :: "ustring list \<Rightarrow> bool" where
  "proper_lines ls \<longleftrightarrow> (\<forall>l \<in> set ls. l \<noteq> [] \<and> 10 \<notin> set (butlast l))"

lemma proper_split: "proper_lines (split_inclusive 10 s)"
  using split_inclusive_pieces by (fastforce simp: proper_lines_def)

lemma hd_step_lines: "hd (fst (step_lines old_l new_l st)) \<noteq> [] \<and> hd (hd (fst (step_lines old_l new_l st))) \<noteq> 92 \<and>
    fst (step_lines old_l new_l st) \<noteq> []"
  by (cases st) (auto simp: step_lines_def Let_def split: diff_op.splits option.splits)

lemma steps_no_marker:
  "\<not> marker_next ls \<Longrightarrow> \<not> marker_next (concat (map (\<lambda>st. fst (step_lines old_l new_l st)) sts) @ ls)"
proof (cases sts)
  case (Cons st sts')
  then show ?thesis using hd_step_lines [of old_l new_l st]
    by (cases "fst (step_lines old_l new_l st)") (auto simp: marker_next_def)
qed simp

lemma drop_eq_Cons: "drop a xs = y # ys \<Longrightarrow> a < length xs \<and> xs ! a = y \<and> drop (Suc a) xs = ys"
  by (metis Cons_nth_drop_Suc drop_all leI list.distinct(1) list.inject)

lemma read_line:
  "read_diff old_l cursor ((32 # t) # ls) = old_l ! cursor # read_diff old_l (cursor + 1) ls"
  "read_diff old_l cursor ((45 # t) # ls) = read_diff old_l (cursor + 1) ls"
  "read_diff old_l cursor ((43 # t) # ls) = (t @ (if marker_next ls then [] else [10])) # read_diff old_l cursor ls"
  "read_diff old_l cursor (no_newline_line # ls) = read_diff old_l cursor ls"
  by (simp_all add: no_newline_line_def)

lemma step_lines_shape:
  "\<exists>t marker. fst (step_lines old_l new_l (op, a, b)) =
     ((case op of DEqual \<Rightarrow> 32 | DDelete \<Rightarrow> 45 | DInsert \<Rightarrow> 43) # t) # marker \<and>
     (marker = [] \<or> marker = [no_newline_line])"
  by (cases op) (simp_all add: step_lines_def Let_def)

declare read_diff.simps(2) [simp del]

lemma step_shows:
  assumes "proper_lines lines" "i < length lines"
  shows "strip_suffix [10] (lines ! i) = (if last (lines ! i) = 10 then Some (butlast (lines ! i)) else None)"
    and "lines ! i \<noteq> []"
proof -
  from assms have "lines ! i \<in> set lines" by simp
  with assms(1) have "lines ! i \<noteq> [] \<and> 10 \<notin> set (butlast (lines ! i))" by (auto simp: proper_lines_def)
  then show "strip_suffix [10] (lines ! i) = (if last (lines ! i) = 10 then Some (butlast (lines ! i)) else None)"
    "lines ! i \<noteq> []" using split_line by auto
qed

lemma read_steps:
  assumes "proper_lines new_l"
    and "script (ops @ later) (drop a old_l) (drop b new_l)"
    and "\<not> list_ex (\<lambda>st. snd (step_lines old_l new_l st)) (script_steps a b ops)"
    and "\<not> marker_next ls"
  shows "read_diff old_l a (concat (map (\<lambda>st. fst (step_lines old_l new_l st)) (script_steps a b ops)) @ ls) =
    take (takes_new ops) (drop b new_l) @ read_diff old_l (a + takes_old ops) ls"
  using assms(2-3)
proof (induction ops arbitrary: a b)
  case (Cons op ops)
  let ?later = "\<lambda>a b. concat (map (\<lambda>st. fst (step_lines old_l new_l st)) (script_steps a b ops)) @ ls"
  show ?case
  proof (cases op)
    case DEqual
    with Cons.prems(1) obtain x as bs where "drop a old_l = x # as" "drop b new_l = x # bs" "script (ops @ later) as bs"
      by (auto simp: script_Cons)
    then have s: "old_l ! a = new_l ! b" "script (ops @ later) (drop (a + 1) old_l) (drop (b + 1) new_l)"
      "drop b new_l = new_l ! b # drop (b + 1) new_l"
      using drop_eq_Cons [of a old_l] drop_eq_Cons [of b new_l] by auto
    from Cons.IH [OF s(2)] Cons.prems(2) DEqual
    have ih: "read_diff old_l (a + 1) (?later (a + 1) (b + 1)) =
        take (takes_new ops) (drop (b + 1) new_l) @ read_diff old_l (a + 1 + takes_old ops) ls" by simp
    obtain t marker where "fst (step_lines old_l new_l (DEqual, a, b)) = (32 # t) # marker"
      "marker = [] \<or> marker = [no_newline_line]"
      using step_lines_shape [of old_l new_l DEqual a b] by auto
    with DEqual ih s(1) show ?thesis
      unfolding s(3) by (auto simp: takes_Cons read_line)
  next
    case DDelete
    with Cons.prems(1) obtain x as where "drop a old_l = x # as" "script (ops @ later) as (drop b new_l)"
      by (auto simp: script_Cons)
    then have s: "script (ops @ later) (drop (a + 1) old_l) (drop b new_l)"
      using drop_eq_Cons [of a old_l] by auto
    from Cons.IH [OF s] Cons.prems(2) DDelete
    have ih: "read_diff old_l (a + 1) (?later (a + 1) b) =
        take (takes_new ops) (drop b new_l) @ read_diff old_l (a + 1 + takes_old ops) ls" by simp
    obtain t marker where "fst (step_lines old_l new_l (DDelete, a, b)) = (45 # t) # marker"
      "marker = [] \<or> marker = [no_newline_line]"
      using step_lines_shape [of old_l new_l DDelete a b] by auto
    with DDelete ih show ?thesis by (auto simp: takes_Cons read_line)
  next
    case DInsert
    with Cons.prems(1) obtain y bs where "drop b new_l = y # bs" "script (ops @ later) (drop a old_l) bs"
      by (auto simp: script_Cons)
    then have b: "b < length new_l" and s: "script (ops @ later) (drop a old_l) (drop (b + 1) new_l)"
      "drop b new_l = new_l ! b # drop (b + 1) new_l"
      using drop_eq_Cons [of b new_l] by auto
    from Cons.IH [OF s(1)] Cons.prems(2) DInsert
    have ih: "read_diff old_l a (?later a (b + 1)) =
        take (takes_new ops) (drop (b + 1) new_l) @ read_diff old_l (a + takes_old ops) ls" by simp
    note line = step_shows [OF assms(1) b]
    have uncut: "bytes_of (if last (new_l ! b) = 10 then butlast (new_l ! b) else new_l ! b) \<le> max_line_bytes"
      using Cons.prems(2) DInsert by (auto simp: step_lines_def Let_def line(1) split: if_splits)
    have no_marker: "\<not> marker_next (?later a (b + 1))" by (rule steps_no_marker [OF assms(4)])
    have marker: "marker_next (no_newline_line # ls')" for ls' by (simp add: marker_next_def no_newline_line_def)
    show ?thesis
    proof (cases "last (new_l ! b) = 10")
      case True
      have "fst (step_lines old_l new_l (DInsert, a, b)) = [43 # butlast (new_l ! b)]"
        using True line(1) uncut by (simp add: step_lines_def cut_line_def)
      moreover have "butlast (new_l ! b) @ [10] = new_l ! b" using line(2) True by (metis append_butlast_last_id)
      ultimately show ?thesis
        unfolding s(2) using DInsert ih no_marker by (simp add: takes_Cons read_line)
    next
      case False
      have "fst (step_lines old_l new_l (DInsert, a, b)) = [43 # new_l ! b, no_newline_line]"
        using False line(1) uncut by (simp add: step_lines_def cut_line_def)
      then show ?thesis
        unfolding s(2) using DInsert ih marker by (simp add: takes_Cons read_line)
    qed
  qed
qed simp


section \<open>Reading the whole diff\<close>

lemma take_piece: "i \<le> j \<Longrightarrow> take j xs = take i xs @ piece xs i j"
  by (simp add: piece_def flip: take_add)

lemma drop_piece: "i \<le> j \<Longrightarrow> drop i xs = piece xs i j @ drop j xs"
  by (simp add: piece_def) (metis append_take_drop_id drop_drop le_add_diff_inverse2)

lemma piece_steps:
  assumes "i \<le> j"
  shows "piece (script_steps 0 0 ops) i j =
    script_steps (takes_old (take i ops)) (takes_new (take i ops)) (piece ops i j)"
proof -
  have "script_steps 0 0 ops = script_steps 0 0 (take i ops) @
      script_steps (takes_old (take i ops)) (takes_new (take i ops)) (drop i ops)"
    by (metis append_take_drop_id script_steps_append add_0)
  then have "drop i (script_steps 0 0 ops) =
      script_steps (takes_old (take i ops)) (takes_new (take i ops)) (drop i ops)"
    by (cases "i \<le> length ops") simp_all
  moreover have "take n (script_steps a b os) = script_steps a b (take n os)" for n a b os
    by (metis append_take_drop_id append_eq_conv_conj length_script_steps length_take min.cobounded1
        min.absorb2 nat_le_linear script_steps_append take_all_iff)
  ultimately show ?thesis by (simp add: piece_def)
qed

lemma is_change_step: "is_change (script_steps a b ops ! i) \<longleftrightarrow> ops ! i \<noteq> DEqual" if "i < length ops"
  using that map_fst_steps [of a b ops] by (metis is_change_def length_script_steps nth_map)

lemma hunk_lines_shape:
  assumes "hunk = script_steps a b ops" "ops \<noteq> []"
  shows "\<exists>rest. hunk_lines old_l new_l hunk =
    ((lit ''@@ -'' @ diff_range a (takes_old ops) @ 32 # rest) #
       concat (map (\<lambda>st. fst (step_lines old_l new_l st)) hunk),
     list_ex (\<lambda>st. snd (step_lines old_l new_l st)) hunk)"
proof -
  have count: "length (filter (\<lambda>st. fst st \<noteq> DInsert) hunk) = takes_old ops"
    using map_fst_steps [of a b ops] unfolding assms(1) takes_old_def
    by (metis (mono_tags, lifting) filter_map length_map comp_apply filter_cong)
  obtain op ops' where "ops = op # ops'" using assms(2) by (cases ops) auto
  then have "hd hunk = (op, a, b)" by (simp add: assms(1))
  then show ?thesis by (simp add: hunk_lines_def count lit_def)
qed

lemma hunks_no_marker: "\<not> marker_next (fst (diff_hunks old_l new_l steps index))"
proof (cases "position is_change (drop index steps)")
  case None
  then show ?thesis by (subst diff_hunks.simps) (simp add: marker_next_def)
next
  case (Some off)
  have "\<not> marker_next (fst (hunk_lines old_l new_l hunk) @ ls)" for hunk ls
    by (simp add: hunk_lines_def marker_next_def split_beta lit_def)
  with Some show ?thesis by (subst diff_hunks.simps) (simp add: Let_def split_beta)
qed

lemma diff_hunks_step:
  assumes "position is_change (drop index steps) = Some off"
    and "hunk_lines old_l new_l (piece steps (max (index + off - context_lines) index)
      (min (hunk_end steps (index + off) (index + off) + context_lines) (length steps))) = (here, cut_here)"
    and "diff_hunks old_l new_l steps
      (min (hunk_end steps (index + off) (index + off) + context_lines) (length steps)) = (rest, cut_rest)"
  shows "diff_hunks old_l new_l steps index = (here @ rest, cut_here \<or> cut_rest)"
  using assms by (subst diff_hunks.simps) (simp add: Let_def)

lemma read_header:
  "read_diff old_l cursor ((lit ''@@ -'' @ s) # ls) =
     piece old_l cursor (header_start (lit ''@@ -'' @ s)) @ read_diff old_l (header_start (lit ''@@ -'' @ s)) ls"
  by (simp add: read_diff.simps(2)) (simp add: lit_def)

lemma read_hunks:
  assumes "proper_lines new_l" and ops: "script ops old_l new_l" and "index \<le> length ops"
    and "diff_hunks old_l new_l (script_steps 0 0 ops) index = (lines, False)"
  shows "read_diff old_l (takes_old (take index ops)) lines = drop (takes_new (take index ops)) new_l"
  using assms(3,4)
proof (induction "length ops - index" arbitrary: index lines rule: less_induct)
  case less
  let ?steps = "script_steps 0 0 ops"
  have at: "script (drop i ops) (drop (takes_old (take i ops)) old_l) (drop (takes_new (take i ops)) new_l)" for i
    using script_drop [of "take i ops" "drop i ops" old_l new_l] ops by simp
  show ?case
  proof (cases "position is_change (drop index ?steps)")
    case None
    have "\<forall>i < length ops - index. \<not> is_change (?steps ! (index + i))"
    proof (intro allI impI)
      fix i assume "i < length ops - index"
      then have "drop index ?steps ! i \<in> set (drop index ?steps)" by (intro nth_mem) simp
      with None less.prems(1) show "\<not> is_change (?steps ! (index + i))" by (simp add: position_None)
    qed
    then have "\<forall>i < length ops - index. ops ! (index + i) = DEqual" using is_change_step by fastforce
    then have "set (drop index ops) \<subseteq> {DEqual}" by (auto simp: in_set_conv_nth)
    from script_all_equal [OF at this] less.prems(2) None show ?thesis
      by (subst (asm) diff_hunks.simps) simp
  next
    case (Some off)
    let ?first = "index + off"
    define start where "start = max (?first - context_lines) index"
    define stop where "stop = min (hunk_end ?steps ?first ?first + context_lines) (length ?steps)"
    have first: "?first < length ?steps" "is_change (?steps ! ?first)" "\<forall>j < off. \<not> is_change (?steps ! (index + j))"
      using position_SomeD [OF Some] by auto
    have order: "index \<le> start" "start \<le> ?first" "?first < stop" "stop \<le> length ops"
      using hunk_end_change [OF first(1,2)] first(1) by (auto simp: start_def stop_def)
    obtain here cut_here rest cut_rest where parts:
      "hunk_lines old_l new_l (piece ?steps start stop) = (here, cut_here)"
      "diff_hunks old_l new_l ?steps stop = (rest, cut_rest)"
      by (cases "hunk_lines old_l new_l (piece ?steps start stop)"; cases "diff_hunks old_l new_l ?steps stop") auto
    from diff_hunks_step [OF Some parts [unfolded start_def stop_def]] less.prems(2)
    have lines: "lines = here @ rest" and uncut: "\<not> cut_here" "\<not> cut_rest" by simp_all
    let ?hunk = "piece ops start stop"
    let ?a = "takes_old (take index ops)" and ?b = "takes_new (take index ops)"
    let ?as = "takes_old (take start ops)" and ?bs = "takes_new (take start ops)"
    let ?at = "takes_old (take stop ops)" and ?bt = "takes_new (take stop ops)"
    have hunk: "piece ?steps start stop = script_steps ?as ?bs ?hunk"
      using order by (intro piece_steps) linarith
    have "start < stop" "start < length ops" using order by linarith+
    then have ne: "?hunk \<noteq> []" by (simp add: piece_def)
    obtain tail where here: "here = (lit ''@@ -'' @ diff_range ?as (takes_old ?hunk) @ 32 # tail) #
        concat (map (\<lambda>st. fst (step_lines old_l new_l st)) (script_steps ?as ?bs ?hunk))"
      and uncut_hunk: "\<not> list_ex (\<lambda>st. snd (step_lines old_l new_l st)) (script_steps ?as ?bs ?hunk)"
      using hunk_lines_shape [OF hunk ne, of old_l new_l] parts(1) uncut(1) unfolding hunk by auto
    have shift: "?as = ?a + takes_old (piece ops index start)" "?bs = ?b + takes_new (piece ops index start)"
      "?at = ?as + takes_old ?hunk" "?bt = ?bs + takes_new ?hunk"
      using take_piece [of index start ops] take_piece [of start stop ops] order by simp_all
    have "set (piece ops index start) \<subseteq> {DEqual}"
    proof
      fix op assume "op \<in> set (piece ops index start)"
      then obtain j where j: "j < start - index" "op = ops ! (index + j)"
        using order by (auto simp: piece_def in_set_conv_nth)
      then have "j < off" "index + j < length ops" using order first(1) by auto
      with first(3) is_change_step [of "index + j" ops 0 0] j(2) show "op \<in> {DEqual}" by simp
    qed
    then have same: "take (length (piece ops index start)) (drop ?a old_l) = take (length (piece ops index start)) (drop ?b new_l)"
      "takes_old (piece ops index start) = length (piece ops index start)"
      "takes_new (piece ops index start) = length (piece ops index start)"
      using script_equal_prefix [of "piece ops index start" "drop start ops" "drop ?a old_l" "drop ?b new_l"]
        at [of index] drop_piece [of index start ops] order(1) by simp_all
    have gap: "piece old_l ?a ?as = piece new_l ?b ?bs"
      using same unfolding shift(1,2) by (simp add: piece_def)
    have "length ops - stop < length ops - index" using order by linarith
    from less.hyps [OF this] order(4) parts(2) uncut(2)
    have ih: "read_diff old_l ?at rest = drop ?bt new_l" by simp
    have no_marker: "\<not> marker_next rest" using hunks_no_marker [of old_l new_l ?steps stop] parts(2) by simp
    have "drop start ops = ?hunk @ drop stop ops" using drop_piece [of start stop ops] order by simp
    with at [of start] have seg: "script (?hunk @ drop stop ops) (drop ?as old_l) (drop ?bs new_l)" by simp
    have body: "read_diff old_l ?as
        (concat (map (\<lambda>st. fst (step_lines old_l new_l st)) (script_steps ?as ?bs ?hunk)) @ rest) =
      take (takes_new ?hunk) (drop ?bs new_l) @ read_diff old_l ?at rest"
      using read_steps [OF assms(1) seg uncut_hunk no_marker] by (simp add: shift(3))
    have head: "header_start (lit ''@@ -'' @ diff_range ?as (takes_old ?hunk) @ 32 # tail) = ?as"
      by (rule header_start_eq) simp
    have "read_diff old_l ?a lines = piece old_l ?a ?as @
        read_diff old_l ?as (concat (map (\<lambda>st. fst (step_lines old_l new_l st)) (script_steps ?as ?bs ?hunk)) @ rest)"
      unfolding lines here append_Cons read_header head ..
    also have "\<dots> = piece new_l ?b ?bs @ take (takes_new ?hunk) (drop ?bs new_l) @ drop ?bt new_l"
      unfolding body gap ih ..
    also have "\<dots> = drop ?b new_l"
      using drop_piece [of ?b ?bs new_l] drop_piece [of ?bs ?bt new_l] unfolding shift(2,4) by (simp add: piece_def)
    finally show ?thesis .
  qed
qed

lemma unified_lines_read:
  "unified_lines before after = (lines, False) \<Longrightarrow>
   concat (read_diff (split_inclusive 10 before) 0 lines) = after"
  using read_hunks [OF proper_split [of after] edit_script_sound, of 0 "split_inclusive 10 before" lines]
  by (simp add: unified_lines_def Let_def)


section \<open>The message determines the text\<close>

lemma hunk_lines_clean:
  assumes "proper_lines old_l" "proper_lines new_l"
    and "script (ops @ later) (drop a old_l) (drop b new_l)"
    and "\<not> list_ex (\<lambda>st. snd (step_lines old_l new_l st)) (script_steps a b ops)"
  shows "\<forall>l \<in> set (concat (map (\<lambda>st. fst (step_lines old_l new_l st)) (script_steps a b ops))). 10 \<notin> set l"
  using assms(3,4)
proof (induction ops arbitrary: a b)
  case (Cons op ops)
  have clean: "\<forall>l \<in> set (fst (step_lines old_l new_l (op, a, b))). 10 \<notin> set l"
    if "i < length lines" "proper_lines lines"
      "(case op of DEqual \<Rightarrow> (32, old_l ! a) | DDelete \<Rightarrow> (45, old_l ! a) | DInsert \<Rightarrow> (43, new_l ! b)) = (m, lines ! i)"
      "m \<noteq> 10" for i lines and m :: nat
  proof -
    have "\<not> snd (step_lines old_l new_l (op, a, b))" using Cons.prems(2) by simp
    moreover have "10 \<notin> set (butlast (lines ! i))" using that(1,2) by (auto simp: proper_lines_def)
    moreover have "last (lines ! i) \<noteq> 10 \<Longrightarrow> 10 \<notin> set (lines ! i)"
      using calculation(2) step_shows(2) [OF that(2,1)] by (metis append_butlast_last_id in_set_conv_decomp rotate1.simps(2) set_ConsD set_rotate1)
    ultimately show ?thesis
      using step_shows(1) [OF that(2,1)] that(3,4)
      by (auto simp: step_lines_def cut_line_def no_newline_line_def lit_def Let_def split: if_splits)
  qed
  show ?case
  proof (cases op)
    case DEqual
    with Cons.prems(1) obtain x as bs where d: "drop a old_l = x # as" "drop b new_l = x # bs" "script (ops @ later) as bs"
      by (auto simp: script_Cons)
    then have "a < length old_l" "script (ops @ later) (drop (a + 1) old_l) (drop (b + 1) new_l)"
      using drop_eq_Cons [of a old_l] drop_eq_Cons [of b new_l] by auto
    with Cons.IH [of "a + 1" "b + 1"] Cons.prems(2) clean [of a old_l 32] assms(1) DEqual show ?thesis by auto
  next
    case DDelete
    with Cons.prems(1) obtain x as where d: "drop a old_l = x # as" "script (ops @ later) as (drop b new_l)"
      by (auto simp: script_Cons)
    then have "a < length old_l" "script (ops @ later) (drop (a + 1) old_l) (drop b new_l)"
      using drop_eq_Cons [of a old_l] by auto
    with Cons.IH [of "a + 1" b] Cons.prems(2) clean [of a old_l 45] assms(1) DDelete show ?thesis by auto
  next
    case DInsert
    with Cons.prems(1) obtain y bs where d: "drop b new_l = y # bs" "script (ops @ later) (drop a old_l) bs"
      by (auto simp: script_Cons)
    then have "b < length new_l" "script (ops @ later) (drop a old_l) (drop (b + 1) new_l)"
      using drop_eq_Cons [of b new_l] by auto
    with Cons.IH [of a "b + 1"] Cons.prems(2) clean [of b new_l 43] assms(2) DInsert show ?thesis by auto
  qed
qed simp

lemma dec_no_newline: "10 \<notin> set (dec n)"
  using dec_digits by fastforce

lemma header_clean: "10 \<notin> set (lit ''@@ -'' @ diff_range a c @ lit '' +'' @ diff_range b d @ lit '' @@'')"
  by (auto simp: diff_range_def dec_no_newline lit_def)

lemma diff_lines_clean:
  assumes "proper_lines old_l" "proper_lines new_l" and ops: "script ops old_l new_l"
    and "index \<le> length ops" "diff_hunks old_l new_l (script_steps 0 0 ops) index = (lines, False)"
  shows "\<forall>l \<in> set lines. 10 \<notin> set l"
  using assms(4,5)
proof (induction "length ops - index" arbitrary: index lines rule: less_induct)
  case less
  let ?steps = "script_steps 0 0 ops"
  show ?case
  proof (cases "position is_change (drop index ?steps)")
    case None
    with less.prems(2) show ?thesis by (subst (asm) diff_hunks.simps) simp
  next
    case (Some off)
    let ?first = "index + off"
    define start where "start = max (?first - context_lines) index"
    define stop where "stop = min (hunk_end ?steps ?first ?first + context_lines) (length ?steps)"
    have first: "?first < length ?steps" "is_change (?steps ! ?first)"
      using position_SomeD [OF Some] by auto
    have order: "index \<le> start" "start \<le> ?first" "?first < stop" "stop \<le> length ops"
      using hunk_end_change [OF first(1,2)] first(1) by (auto simp: start_def stop_def)
    obtain here cut_here rest cut_rest where parts:
      "hunk_lines old_l new_l (piece ?steps start stop) = (here, cut_here)"
      "diff_hunks old_l new_l ?steps stop = (rest, cut_rest)"
      by (cases "hunk_lines old_l new_l (piece ?steps start stop)"; cases "diff_hunks old_l new_l ?steps stop") auto
    from diff_hunks_step [OF Some parts [unfolded start_def stop_def]] less.prems(2)
    have lines: "lines = here @ rest" and uncut: "\<not> cut_here" "\<not> cut_rest" by simp_all
    have hunk: "piece ?steps start stop = script_steps (takes_old (take start ops)) (takes_new (take start ops)) (piece ops start stop)"
      using order by (intro piece_steps) linarith
    have "length ops - stop < length ops - index" using order by linarith
    from less.hyps [OF this] order(4) parts(2) uncut(2) have rest_clean: "\<forall>l \<in> set rest. 10 \<notin> set l" by simp
    have "drop start ops = piece ops start stop @ drop stop ops" using drop_piece [of start stop ops] order by simp
    moreover have "script (drop start ops) (drop (takes_old (take start ops)) old_l) (drop (takes_new (take start ops)) new_l)"
      by (rule script_drop) (simp add: ops)
    ultimately have "script (piece ops start stop @ drop stop ops)
        (drop (takes_old (take start ops)) old_l) (drop (takes_new (take start ops)) new_l)" by simp
    from hunk_lines_clean [OF assms(1,2) this] parts(1) uncut(1)
    have "\<forall>l \<in> set here. 10 \<notin> set l"
      unfolding hunk hunk_lines_def using header_clean
      by (auto simp: Let_def split_beta simp del: set_append)
    with rest_clean show ?thesis unfolding lines by auto
  qed
qed

lemma split_terminated:
  "\<forall>l \<in> set ls. 10 \<notin> set l \<Longrightarrow> split_on 10 (concat (map (\<lambda>l. l @ newline) ls)) = ls @ [[]]"
  by (induction ls) (simp_all add: newline_def split_on_append)

lemma whole_refusal_parts:
  assumes "stale_refusal_of display (Some seen) current = r" and "sr_whole r"
  obtains s now lines where "from_utf8 seen = Some s" "from_utf8 current = Some now"
    "unified_lines (normalize_to_lf (fst (strip_bom s))) (normalize_to_lf (fst (strip_bom now))) = (lines, False)"
    "length lines \<le> max_diff_lines" "sr_message r = refusal_text display lines"
proof -
  from assms obtain s where s: "from_utf8 seen = Some s"
    by (cases "from_utf8 seen") (auto simp: stale_refusal_of_def)
  from assms s obtain now where now: "from_utf8 current = Some now"
    by (cases "from_utf8 current") (auto simp: stale_refusal_of_def)
  let ?before = "normalize_to_lf (fst (strip_bom s))" and ?after = "normalize_to_lf (fst (strip_bom now))"
  obtain lines cut where u: "unified_lines ?before ?after = (lines, cut)" by (cases "unified_lines ?before ?after") auto
  have "lines \<noteq> []"
  proof
    assume "lines = []"
    with assms(1) have "\<not> sr_whole r" by (auto simp: stale_refusal_of_def s now u)
    with assms(2) show False by contradiction
  qed
  then have r: "r = \<lparr>sr_message = refusal_text display lines, sr_whole = (length lines \<le> max_diff_lines \<and> \<not> cut)\<rparr>"
    using assms(1) by (simp add: stale_refusal_of_def s now u)
  with assms(2) have "length lines \<le> max_diff_lines" "\<not> cut" by simp_all
  with that [OF s now] u r show ?thesis by simp
qed

lemma refusal_text_inject:
  assumes "refusal_text display lines = refusal_text display lines'"
    and "length lines \<le> max_diff_lines" "length lines' \<le> max_diff_lines"
    and "\<forall>l \<in> set lines. 10 \<notin> set l" "\<forall>l \<in> set lines'. 10 \<notin> set l"
  shows "lines = lines'"
proof -
  have shown: "refusal_text display ls = refusal_head display @ concat (map (\<lambda>line. line @ newline) ls) @ refusal_close"
    if "length ls \<le> max_diff_lines" for ls
    unfolding refusal_text_def using that by (simp only: take_all not_less [THEN iffD2] if_False append_Nil)
  have "concat (map (\<lambda>line. line @ newline) lines) = concat (map (\<lambda>line. line @ newline) lines')"
    using assms(1) unfolding shown [OF assms(2)] shown [OF assms(3)] by (simp only: same_append_eq append_same_eq)
  from arg_cong [OF this, of "split_on 10"] have "lines @ [[]] = lines' @ [[]]"
    unfolding split_terminated [OF assms(4)] split_terminated [OF assms(5)] .
  then show ?thesis by simp
qed

lemma refusal_determines_text:
  assumes "stale_refusal_of display (Some seen) current = r" "stale_refusal_of display (Some seen) current' = r"
    and "sr_whole r"
  obtains now now' where "from_utf8 current = Some now" "from_utf8 current' = Some now'"
    "normalize_to_lf (fst (strip_bom now)) = normalize_to_lf (fst (strip_bom now'))"
proof -
  from whole_refusal_parts [OF assms(1,3)] obtain s now lines where a:
    "from_utf8 seen = Some s" "from_utf8 current = Some now"
    "unified_lines (normalize_to_lf (fst (strip_bom s))) (normalize_to_lf (fst (strip_bom now))) = (lines, False)"
    "length lines \<le> max_diff_lines" "sr_message r = refusal_text display lines" by metis
  from whole_refusal_parts [OF assms(2,3)] obtain s' now' lines' where b:
    "from_utf8 seen = Some s'" "from_utf8 current' = Some now'"
    "unified_lines (normalize_to_lf (fst (strip_bom s'))) (normalize_to_lf (fst (strip_bom now'))) = (lines', False)"
    "length lines' \<le> max_diff_lines" "sr_message r = refusal_text display lines'" by metis
  have s': "s' = s" using a(1) b(1) by simp
  have clean: "\<forall>l \<in> set ls. 10 \<notin> set l" if "unified_lines before after = (ls, False)" for before after ls
    using diff_lines_clean [OF proper_split proper_split edit_script_sound, of 0 before after ls] that
    by (simp add: unified_lines_def Let_def)
  have "refusal_text display lines = refusal_text display lines'" using a(5) b(5) by simp
  from refusal_text_inject [OF this a(4) b(4) clean [OF a(3)] clean [OF b(3)]]
  have "lines = lines'" .
  with unified_lines_read [OF a(3)] unified_lines_read [OF b(3)] s'
  have "normalize_to_lf (fst (strip_bom now)) = normalize_to_lf (fst (strip_bom now'))" by simp
  with a(2) b(2) that show ?thesis by blast
qed

end
