(* ===== verification/EditCall.thy ===== *)
theory EditCall
  imports EditDiff EditMatch
begin

text \<open>
  An \<open>edit\<close> call as the component runs it, \<open>crates/p1-tool-edit/logic/src/exec.rs\<close>, and the descriptions
  of \<open>lib.rs\<close>. The imports of the component are the record \<open>capabilities\<close>: operations of the host on
  its own state \<open>'w\<close>, with \<open>'m\<close> the held write gate. The loop that reads a file window by window ends
  only if the host ends the file, so it takes fuel; without fuel left the call stops with
  \<open>OutOfFuel\<close>, which the source does not have.
\<close>

section \<open>The imports\<close>

datatype fs_error =
    OutsideWorkspace | NotFound | WrongKind | AlreadyExists | InvalidPattern ustring | FsCancelled | Io ustring

datatype entry_kind = FileEntry | DirectoryEntry | OtherEntry

record entry =
  en_path :: ustring
  en_kind :: entry_kind

datatype observation = NeverObserved | Unchanged | ChangedSinceObserved

record ('w, 'm) capabilities =
  cap_cancelled :: "('w, bool) state"
  cap_stat :: "ustring \<Rightarrow> ('w, fs_error + entry) state"
  cap_read :: "ustring \<Rightarrow> nat \<Rightarrow> nat \<Rightarrow> ('w, fs_error + byte list) state"
  cap_check :: "ustring \<Rightarrow> byte list \<Rightarrow> ('w, fs_error + observation) state"
  cap_observe :: "ustring \<Rightarrow> byte list \<Rightarrow> ('w, fs_error + unit) state"
  cap_observed :: "ustring \<Rightarrow> ('w, fs_error + byte list option) state"
  cap_begin :: "('w, 'm) state"
  cap_write :: "'m \<Rightarrow> ustring \<Rightarrow> byte list \<Rightarrow> ('w, fs_error + unit) state"
  cap_drop :: "'m \<Rightarrow> ('w, unit) state"

datatype call_input = JsonInput ustring | TextInput ustring

datatype edit_outcome = EditOk ustring | EditError ustring | EditCancelled | EditOutOfFuel

datatype stop = StopCancelled | StopError ustring | OutOfFuel

definition read_window :: nat where "read_window = 2 ^ 20"

section \<open>Paths by their spelling\<close>

definition lexical_normalize :: "ustring \<Rightarrow> ustring" where
  "lexical_normalize requested =
     join_with [47] (foldl (\<lambda>out part.
        if part = [] \<or> part = lit ''.'' then out
        else if part = lit ''..'' then butlast out
        else out @ [part]) [] (split_on 47 requested))"

fun escapes_from :: "nat \<Rightarrow> ustring list \<Rightarrow> bool" where
  "escapes_from depth [] = False"
| "escapes_from depth (part # parts) =
     (if part = [] \<or> part = lit ''.'' then escapes_from depth parts
      else if part = lit ''..'' then (if depth = 0 then True else escapes_from (depth - 1) parts)
      else escapes_from (depth + 1) parts)"

definition escapes_lexically :: "ustring \<Rightarrow> bool" where
  "escapes_lexically requested \<longleftrightarrow>
     starts_with [47] requested \<or> escapes_from 0 (split_on 47 requested)"

section \<open>Failures\<close>

definition fs_error_text :: "fs_error \<Rightarrow> ustring" where
  "fs_error_text e =
     (case e of
        OutsideWorkspace \<Rightarrow> lit ''the path escapes the workspace''
      | NotFound \<Rightarrow> lit ''no such file''
      | WrongKind \<Rightarrow> lit ''Is a directory (os error 21)''
      | AlreadyExists \<Rightarrow> lit ''already exists''
      | FsCancelled \<Rightarrow> lit ''cancelled''
      | InvalidPattern message \<Rightarrow> message
      | Io message \<Rightarrow> message)"

definition unresolved_error_text :: "fs_error \<Rightarrow> ustring" where
  "unresolved_error_text e = (case e of WrongKind \<Rightarrow> lit ''Not a directory (os error 20)'' | _ \<Rightarrow> fs_error_text e)"

text \<open>The ancestors of a path that does not exist, the nearest first.\<close>

fun missing_from :: "('w, 'm) capabilities \<Rightarrow> ustring \<Rightarrow> ustring list \<Rightarrow> nat \<Rightarrow> ('w, ustring) state" where
  "missing_from caps requested components 0 = State_Monad.return requested"
| "missing_from caps requested components (Suc keep) =
     do {
       r \<leftarrow> cap_stat caps (47 # join_with [47] (take keep components));
       case r of
         Inr e \<Rightarrow>
           (let rest = join_with [47] (drop keep components) in
            State_Monad.return
              (if en_path e = [] \<or> en_path e = lit ''.'' then rest else en_path e @ [47] @ rest))
       | Inl _ \<Rightarrow> missing_from caps requested components keep
     }"

definition missing_display :: "('w, 'm) capabilities \<Rightarrow> ustring \<Rightarrow> ('w, ustring) state" where
  "missing_display caps requested =
     (if \<not> starts_with [47] requested then State_Monad.return (lexical_normalize requested)
      else let components = split_on 47 (lexical_normalize requested)
           in missing_from caps requested components (length components))"

definition resolve_error :: "('w, 'm) capabilities \<Rightarrow> fs_error \<Rightarrow> ustring \<Rightarrow> ('w, stop) state" where
  "resolve_error caps e requested =
     (case e of
        FsCancelled \<Rightarrow> State_Monad.return StopCancelled
      | OutsideWorkspace \<Rightarrow> State_Monad.return (StopError (escapes_workspace requested))
      | InvalidPattern message \<Rightarrow> State_Monad.return (StopError message)
      | _ \<Rightarrow> do {
          display \<leftarrow> missing_display caps requested;
          State_Monad.return (StopError (could_not_read display (unresolved_error_text e)))
        })"

definition read_error :: "fs_error \<Rightarrow> ustring \<Rightarrow> ustring \<Rightarrow> stop" where
  "read_error e requested display =
     (case e of
        FsCancelled \<Rightarrow> StopCancelled
      | OutsideWorkspace \<Rightarrow> StopError (escapes_workspace requested)
      | NotFound \<Rightarrow> StopError (does_not_exist display)
      | Io message \<Rightarrow> StopError (could_not_read display message)
      | _ \<Rightarrow> StopError (could_not_read display (fs_error_text e)))"

definition write_error :: "fs_error \<Rightarrow> ustring \<Rightarrow> ustring \<Rightarrow> stop" where
  "write_error e requested display =
     (case e of
        FsCancelled \<Rightarrow> StopCancelled
      | OutsideWorkspace \<Rightarrow> StopError (escapes_workspace requested)
      | NotFound \<Rightarrow> StopError (does_not_exist display)
      | Io message \<Rightarrow> StopError message
      | _ \<Rightarrow> StopError (failed_to_write display (fs_error_text e)))"

section \<open>The call\<close>

text \<open>The whole file, window by window, with a cancellation check between windows.\<close>

fun read_whole :: "nat \<Rightarrow> ('w, 'm) capabilities \<Rightarrow> ustring \<Rightarrow> ustring \<Rightarrow> byte list \<Rightarrow> ('w, stop + byte list) state" where
  "read_whole 0 caps requested display bytes = State_Monad.return (Inl OutOfFuel)"
| "read_whole (Suc fuel) caps requested display bytes =
     do {
       r \<leftarrow> cap_read caps requested (length bytes) read_window;
       case r of
         Inl e \<Rightarrow> State_Monad.return (Inl (read_error e requested display))
       | Inr window \<Rightarrow>
           if length window < read_window then State_Monad.return (Inr (bytes @ window))
           else do {
             cancelled \<leftarrow> cap_cancelled caps;
             if cancelled then State_Monad.return (Inl StopCancelled)
             else read_whole fuel caps requested display (bytes @ window)
           }
     }"

text \<open>From the computed edit on: the gate is held for the write and the observation only.\<close>

definition write_edit ::
  "('w, 'm) capabilities \<Rightarrow> ustring \<Rightarrow> ustring \<Rightarrow> edited \<Rightarrow> ('w, stop + ustring) state"
where
  "write_edit caps requested display ed =
     do {
       cancelled \<leftarrow> cap_cancelled caps;
       if cancelled then State_Monad.return (Inl StopCancelled)
       else do {
         gate \<leftarrow> cap_begin caps;
         r \<leftarrow> cap_write caps gate requested (utf8 (ed_contents ed));
         case r of
           Inl e \<Rightarrow> do {
             _ \<leftarrow> cap_drop caps gate;
             State_Monad.return (Inl (write_error e requested display))
           }
         | Inr _ \<Rightarrow> do {
             _ \<leftarrow> cap_observe caps requested (utf8 (ed_contents ed));
             _ \<leftarrow> cap_drop caps gate;
             State_Monad.return (Inr (edited_output display (ed_replacements ed) (ed_region ed)))
           }
       }
     }"

text \<open>The refusal of a file that changed: what changed, and the observation of what was shown.\<close>

definition refuse_stale ::
  "('w, 'm) capabilities \<Rightarrow> ustring \<Rightarrow> ustring \<Rightarrow> byte list \<Rightarrow> ('w, stop + ustring) state"
where
  "refuse_stale caps requested display bytes =
     do {
       r \<leftarrow> cap_observed caps requested;
       case r of
         Inl FsCancelled \<Rightarrow> State_Monad.return (Inl StopCancelled)
       | _ \<Rightarrow>
           (let observed = (case r of Inr o' \<Rightarrow> o' | Inl _ \<Rightarrow> None);
                refusal = stale_refusal_of display observed bytes
            in if sr_whole refusal then do {
                 _ \<leftarrow> cap_observe caps requested bytes;
                 State_Monad.return (Inl (StopError (sr_message refusal)))
               }
               else State_Monad.return (Inl (StopError (sr_message refusal))))
     }"

definition edit_run :: "nat \<Rightarrow> ('w, 'm) capabilities \<Rightarrow> edit_input \<Rightarrow> ('w, stop + ustring) state" where
  "edit_run fuel caps input =
     (let requested = ei_path input in
      do {
        r \<leftarrow> cap_stat caps requested;
        case r of
          Inl NotFound \<Rightarrow>
            (if is_no_change input then State_Monad.return (Inr (no_change input))
             else do {
               display \<leftarrow> missing_display caps requested;
               State_Monad.return (Inl (StopError (does_not_exist display)))
             })
        | Inl e \<Rightarrow> do {
            s \<leftarrow> resolve_error caps e requested;
            State_Monad.return (Inl s)
          }
        | Inr found \<Rightarrow>
            (let display = en_path found in
             if is_no_change input then State_Monad.return (Inr (no_change input))
             else do {
               whole \<leftarrow> read_whole fuel caps requested display [];
               case whole of
                 Inl s \<Rightarrow> State_Monad.return (Inl s)
               | Inr bytes \<Rightarrow> do {
                   checked \<leftarrow> cap_check caps requested bytes;
                   case checked of
                     Inl e \<Rightarrow> State_Monad.return (Inl (read_error e requested display))
                   | Inr NeverObserved \<Rightarrow> State_Monad.return (Inl (StopError (never_observed display)))
                   | Inr ChangedSinceObserved \<Rightarrow> refuse_stale caps requested display bytes
                   | Inr Unchanged \<Rightarrow>
                       (case edit_text display bytes input of
                          Inl message \<Rightarrow> State_Monad.return (Inl (StopError message))
                        | Inr ed \<Rightarrow> write_edit caps requested display ed)
                 }
             })
      })"

definition edit_execute ::
  "nat \<Rightarrow> edit_codec \<Rightarrow> ('w, 'm) capabilities \<Rightarrow> ustring \<Rightarrow> call_input \<Rightarrow> ('w, edit_outcome) state"
where
  "edit_execute fuel codec caps tool input =
     do {
       cancelled \<leftarrow> cap_cancelled caps;
       if cancelled then State_Monad.return EditCancelled
       else
         (case input of
            TextInput _ \<Rightarrow> State_Monad.return (EditError (text_input_error tool))
          | JsonInput raw \<Rightarrow>
              (case parse_json_input codec tool raw of
                 Inl message \<Rightarrow> State_Monad.return (EditError message)
               | Inr parsed \<Rightarrow> do {
                   r \<leftarrow> edit_run fuel caps parsed;
                   State_Monad.return (case r of
                       Inr content \<Rightarrow> EditOk content
                     | Inl StopCancelled \<Rightarrow> EditCancelled
                     | Inl (StopError message) \<Rightarrow> EditError message
                     | Inl OutOfFuel \<Rightarrow> EditOutOfFuel)
                 }))
     }"

section \<open>Descriptions\<close>

text \<open>\<open>str::parse::<usize>\<close> of a text of digits.\<close>

definition parse_usize :: "ustring \<Rightarrow> nat option" where
  "parse_usize digits =
     (let n = foldl (\<lambda>n d. n * 10 + (d - 48)) 0 digits in
      if digits = [] \<or> n > u64_max then None else Some n)"

definition after_last :: "'a \<Rightarrow> 'a list \<Rightarrow> 'a list option" where
  "after_last d s = (if d \<in> set s then Some (rev (takeWhile (\<lambda>c. c \<noteq> d) (rev s))) else None)"

definition parenthesized_count :: "ustring \<Rightarrow> ustring \<Rightarrow> nat option" where
  "parenthesized_count content unit_name =
     (case str_lines content of
        [] \<Rightarrow> None
      | first # _ \<Rightarrow>
          (case after_last 40 first of
             None \<Rightarrow> None
           | Some rest \<Rightarrow>
               (let digits = takeWhile (\<lambda>c. 48 \<le> c \<and> c \<le> 57) rest; tail = drop (length digits) rest in
                if tail = [] then None
                else (case parse_usize digits of
                        None \<Rightarrow> None
                      | Some n \<Rightarrow> if starts_with unit_name (trim_start tail) then Some n else None))))"

record edit_summary =
  es_summary :: ustring
  es_diff :: "(ustring \<times> ustring \<times> ustring) option"

definition first_line :: "ustring \<Rightarrow> ustring" where
  "first_line content = (case str_lines content of [] \<Rightarrow> [] | l # _ \<Rightarrow> l)"

definition describe_edit_result :: "edit_input option \<Rightarrow> bool \<Rightarrow> ustring \<Rightarrow> edit_summary" where
  "describe_edit_result input succeeded content =
     (let plain = \<lparr>es_summary = first_line content, es_diff = None\<rparr> in
      case input of
        None \<Rightarrow> plain
      | Some i \<Rightarrow>
          if \<not> succeeded \<or> is_no_change i then plain
          else
            (let (before, after) = before_and_after i;
                 replacements = (if ei_listed i then 1
                   else (case parenthesized_count content (lit ''replacement'') of None \<Rightarrow> 1 | Some n \<Rightarrow> n));
                 lines = (\<lambda>pick. sum_list (map (\<lambda>entry. length (str_lines (pick entry))) (ei_edits i)) * replacements)
             in \<lparr>es_summary = lit ''+'' @ dec (lines rp_new) @ [32, 0x2212] @ dec (lines rp_old),
                 es_diff = Some (ei_path i, before, after)\<rparr>))"

section \<open>The calls a host receives\<close>

text \<open>A host that keeps a log of the imports called, with what they answered, beside its state.\<close>

datatype host_call =
    CalledStat ustring
  | CalledRead ustring
  | CalledCheck ustring "byte list" "fs_error + observation"
  | CalledObserve ustring "byte list"
  | CalledObserved ustring
  | CalledBegin
  | CalledWrite ustring "byte list" "fs_error + unit"
  | CalledDrop
  | CalledCancelled bool

definition with_log :: "('w, 'a) state \<Rightarrow> ('a \<Rightarrow> 'c) \<Rightarrow> ('w \<times> 'c list, 'a) state" where
  "with_log m call = State (\<lambda>(w, log). case run_state m w of (r, w') \<Rightarrow> (r, (w', log @ [call r])))"

definition logged :: "('w, 'm) capabilities \<Rightarrow> ('w \<times> host_call list, 'm) capabilities" where
  "logged caps =
     \<lparr>cap_cancelled = with_log (cap_cancelled caps) CalledCancelled,
      cap_stat = (\<lambda>p. with_log (cap_stat caps p) (\<lambda>_. CalledStat p)),
      cap_read = (\<lambda>p i n. with_log (cap_read caps p i n) (\<lambda>_. CalledRead p)),
      cap_check = (\<lambda>p bytes. with_log (cap_check caps p bytes) (CalledCheck p bytes)),
      cap_observe = (\<lambda>p bytes. with_log (cap_observe caps p bytes) (\<lambda>_. CalledObserve p bytes)),
      cap_observed = (\<lambda>p. with_log (cap_observed caps p) (\<lambda>_. CalledObserved p)),
      cap_begin = with_log (cap_begin caps) (\<lambda>_. CalledBegin),
      cap_write = (\<lambda>gate p bytes. with_log (cap_write caps gate p bytes) (CalledWrite p bytes)),
      cap_drop = (\<lambda>gate. with_log (cap_drop caps gate) (\<lambda>_. CalledDrop))\<rparr>"

lemma wp_with_log:
  "wp (with_log m call) Q (w, log) \<longleftrightarrow> (case run_state m w of (r, w') \<Rightarrow> Q r (w', log @ [call r]))"
  by (simp add: wp_def with_log_def split: prod.splits)

end
