(* ===== verification/EditCallLaws.thy ===== *)
theory EditCallLaws
  imports EditCall
begin

text \<open>What an edit call asks of its host: at most one write, of the edit of the very bytes the host
  said are unchanged since they were read, between taking and releasing the gate.\<close>

section \<open>Calls that change nothing\<close>

fun quiet_call :: "host_call \<Rightarrow> bool" where
  "quiet_call CalledBegin = False"
| "quiet_call (CalledWrite p bytes r) = False"
| "quiet_call CalledDrop = False"
| "quiet_call _ = True"

definition quiet :: "host_call list \<Rightarrow> bool" where
  "quiet log \<longleftrightarrow> list_all quiet_call log"

lemma quiet_simps [simp]: "quiet []" "quiet (a @ b) \<longleftrightarrow> quiet a \<and> quiet b" "quiet (c # a) \<longleftrightarrow> quiet_call c \<and> quiet a"
  by (simp_all add: quiet_def)

text \<open>An operation that only adds quiet calls to the log.\<close>

definition quietly :: "('w \<times> host_call list, 'a) state \<Rightarrow> bool" where
  "quietly m \<longleftrightarrow> (\<forall>w log. wp m (\<lambda>r (w', log'). \<exists>added. log' = log @ added \<and> quiet added) (w, log))"

named_theorems quiet_intros

lemma quietly_return [quiet_intros]: "quietly (State_Monad.return x)"
  by (simp add: quietly_def)

lemma quietly_bind [quiet_intros]:
  fixes m :: "('w \<times> host_call list, 'a) state" and f :: "'a \<Rightarrow> ('w \<times> host_call list, 'b) state"
  assumes "quietly m" "\<And>x. quietly (f x)"
  shows "quietly (State_Monad.bind m f)"
  unfolding quietly_def
proof (intro allI)
  fix w :: 'w and log
  have "wp m (\<lambda>r (w', log'). \<exists>added. log' = log @ added \<and> quiet added) (w, log)"
    using assms(1) by (simp add: quietly_def)
  then have "wp m (\<lambda>r. wp (f r) (\<lambda>r (w', log'). \<exists>added. log' = log @ added \<and> quiet added)) (w, log)"
  proof (rule wp_mono)
    fix r and t :: "'w \<times> host_call list" assume "case t of (w', log') \<Rightarrow> \<exists>added. log' = log @ added \<and> quiet added"
    then obtain w' added where t: "t = (w', log @ added)" "quiet added" by (cases t) auto
    have "wp (f r) (\<lambda>r (w'', log''). \<exists>added'. log'' = (log @ added) @ added' \<and> quiet added') (w', log @ added)"
      using assms(2) [of r] unfolding quietly_def by blast
    then show "wp (f r) (\<lambda>r (w', log'). \<exists>added. log' = log @ added \<and> quiet added) t"
      unfolding t(1) by (rule wp_mono) (use t(2) in auto)
  qed
  then show "wp (State_Monad.bind m f) (\<lambda>r (w', log'). \<exists>added. log' = log @ added \<and> quiet added) (w, log)"
    by simp
qed

lemma quietly_if [quiet_intros]: "(b \<Longrightarrow> quietly m) \<Longrightarrow> (\<not> b \<Longrightarrow> quietly n) \<Longrightarrow> quietly (if b then m else n)"
  by simp

lemma quietly_let [quiet_intros]: "quietly (f x) \<Longrightarrow> quietly (let y = x in f y)"
  by simp

lemma quietly_sum [quiet_intros]:
  "(\<And>e. r = Inl e \<Longrightarrow> quietly (f e)) \<Longrightarrow> (\<And>x. r = Inr x \<Longrightarrow> quietly (g x)) \<Longrightarrow>
   quietly (case r of Inl e \<Rightarrow> f e | Inr x \<Rightarrow> g x)"
  by (cases r) simp_all

lemma quietly_fs_error [quiet_intros]:
  "(\<And>m. quietly (k1)) \<Longrightarrow> quietly k2 \<Longrightarrow> quietly k3 \<Longrightarrow> quietly k4 \<Longrightarrow> (\<And>m. quietly (k5 m)) \<Longrightarrow> quietly k6 \<Longrightarrow>
   (\<And>m. quietly (k7 m)) \<Longrightarrow>
   quietly (case e of OutsideWorkspace \<Rightarrow> k1 | NotFound \<Rightarrow> k2 | WrongKind \<Rightarrow> k3 | AlreadyExists \<Rightarrow> k4
     | InvalidPattern m \<Rightarrow> k5 m | FsCancelled \<Rightarrow> k6 | Io m \<Rightarrow> k7 m)"
  by (cases e) simp_all

lemma quietly_logged [quiet_intros]: "(\<And>r. quiet_call (call r)) \<Longrightarrow> quietly (with_log m call)"
  by (simp add: quietly_def wp_with_log split: prod.splits)

lemma quiet_caps [quiet_intros]:
  "quietly (cap_cancelled (logged caps))" "quietly (cap_stat (logged caps) p)" "quietly (cap_read (logged caps) p i n)"
  "quietly (cap_check (logged caps) p bytes)" "quietly (cap_observe (logged caps) p bytes)"
  "quietly (cap_observed (logged caps) p)"
  by (simp_all add: logged_def quietly_logged)

lemma quietly_missing [quiet_intros]: "quietly (missing_display (logged caps) requested)"
proof -
  have "quietly (missing_from (logged caps) requested components n)" for components n
    by (induction n) (auto intro!: quiet_intros simp: Let_def)
  then show ?thesis by (simp add: missing_display_def quietly_return Let_def)
qed

lemma quietly_resolve_error [quiet_intros]: "quietly (resolve_error (logged caps) e requested)"
  unfolding resolve_error_def by (intro quiet_intros)

lemma quietly_read_whole [quiet_intros]: "quietly (read_whole fuel (logged caps) requested display bytes)"
  by (induction fuel arbitrary: bytes) (auto intro!: quiet_intros)

lemma quietly_refuse [quiet_intros]: "quietly (refuse_stale (logged caps) requested display bytes)"
  unfolding refuse_stale_def by (intro quiet_intros)

lemma quietly_wp:
  assumes "quietly m" and "\<And>r w' added. quiet added \<Longrightarrow> Q r (w', log @ added)"
  shows "wp m Q (w, log)"
  using assms(1) unfolding quietly_def
  by (rule_tac wp_mono [of _ "\<lambda>r (w', log'). \<exists>added. log' = log @ added \<and> quiet added"]) (use assms(2) in auto)


section \<open>The one write\<close>

definition wrote_checked :: "edit_input \<Rightarrow> (stop + ustring) \<Rightarrow> host_call list \<Rightarrow> bool" where
  "wrote_checked parsed out log \<longleftrightarrow>
     (\<exists>display bytes ed pre r.
        edit_text display bytes parsed = Inr ed \<and> quiet pre \<and>
        CalledCheck (ei_path parsed) bytes (Inr Unchanged) \<in> set pre \<and>
        log = pre @ [CalledBegin, CalledWrite (ei_path parsed) (utf8 (ed_contents ed)) r] @
          (if isl r then [] else [CalledObserve (ei_path parsed) (utf8 (ed_contents ed))]) @ [CalledDrop] \<and>
        out = (case r of Inl e \<Rightarrow> Inl (write_error e (ei_path parsed) display)
               | Inr _ \<Rightarrow> Inr (edited_output display (ed_replacements ed) (ed_region ed))))"

definition edit_post :: "edit_input \<Rightarrow> (stop + ustring) \<Rightarrow> host_call list \<Rightarrow> bool" where
  "edit_post parsed out log \<longleftrightarrow>
     quiet log \<and> (\<forall>content. out = Inr content \<longrightarrow> is_no_change parsed \<and> content = no_change parsed) \<or>
     wrote_checked parsed out log"

lemma wp_write_edit:
  assumes "edit_text display bytes parsed = Inr ed" "quiet log"
    "CalledCheck (ei_path parsed) bytes (Inr Unchanged) \<in> set log"
  shows "wp (write_edit (logged caps) (ei_path parsed) display ed) (\<lambda>r (w', log'). edit_post parsed r log') (w, log)"
proof -
  have one: "wrote_checked parsed
      (case r of Inl e \<Rightarrow> Inl (write_error e (ei_path parsed) display)
       | Inr _ \<Rightarrow> Inr (edited_output display (ed_replacements ed) (ed_region ed)))
      (log @ CalledCancelled c # CalledBegin # CalledWrite (ei_path parsed) (utf8 (ed_contents ed)) r #
        (if isl r then [] else [CalledObserve (ei_path parsed) (utf8 (ed_contents ed))]) @ [CalledDrop])" for r c
    unfolding wrote_checked_def
    by (intro exI [of _ display] exI [of _ bytes] exI [of _ ed] exI [of _ "log @ [CalledCancelled c]"] exI [of _ r])
      (use assms in simp)
  show ?thesis
    unfolding write_edit_def logged_def
    using assms(2) one [of "Inl e" False for e] one [of "Inr u" False for u]
    by (auto simp: wp_with_log edit_post_def split: prod.splits sum.splits)
qed

lemma wp_edit_run:
  assumes "quiet log0"
  shows "wp (edit_run fuel (logged caps) parsed) (\<lambda>r (w', log'). edit_post parsed r log') (w, log0)"
proof -
  have quiet_stop: "edit_post parsed (Inl s) log" if "quiet log" for s log
    using that by (simp add: edit_post_def)
  have quiet_end: "wp m (\<lambda>r (w', log'). edit_post parsed r log') (w', log)"
    if "quietly m" "quiet log" "\<And>s. wp m (\<lambda>r t. isl r) s" for m w' log
  proof -
    have "wp m (\<lambda>r (w', log'). \<exists>added. log' = log @ added \<and> quiet added) (w', log)"
      using that(1) by (simp add: quietly_def)
    from wp_conj [OF this that(3)] show ?thesis
      by (rule wp_mono) (use that(2) quiet_stop in \<open>auto simp: isl_def\<close>)
  qed
  have resolve: "wp (State_Monad.bind (resolve_error (logged caps) e p) (\<lambda>s. State_Monad.return (Inl s)))
      (\<lambda>r (w', log'). edit_post parsed r log') (w', log)" if "quiet log" for e p w' log
    by (rule quiet_end) (auto intro!: quiet_intros that simp: wp_def)
  have missing: "wp (State_Monad.bind (missing_display (logged caps) p) (\<lambda>d. State_Monad.return (Inl (StopError (f d)))))
      (\<lambda>r (w', log'). edit_post parsed r log') (w', log)" if "quiet log" for p w' log and f
    by (rule quiet_end) (auto intro!: quiet_intros that simp: wp_def)
  have refuse: "wp (refuse_stale (logged caps) p d bytes) (\<lambda>r (w', log'). edit_post parsed r log') (w', log)"
    if "quiet log" for p d bytes w' log
  proof (rule quiet_end [OF quietly_refuse that])
    show "wp (refuse_stale (logged caps) p d bytes) (\<lambda>r t. isl r) s" for s
      by (auto simp: refuse_stale_def wp_def Let_def split: sum.splits fs_error.splits prod.splits)
  qed
  have body: "wp (case r of
        Inl NotFound \<Rightarrow>
          (if is_no_change parsed then State_Monad.return (Inr (no_change parsed))
           else do { display \<leftarrow> missing_display (logged caps) (ei_path parsed);
             State_Monad.return (Inl (StopError (does_not_exist display))) })
      | Inl e \<Rightarrow> do { s \<leftarrow> resolve_error (logged caps) e (ei_path parsed); State_Monad.return (Inl s) }
      | Inr found \<Rightarrow>
          (if is_no_change parsed then State_Monad.return (Inr (no_change parsed))
           else do {
             whole \<leftarrow> read_whole fuel (logged caps) (ei_path parsed) (en_path found) [];
             case whole of
               Inl s \<Rightarrow> State_Monad.return (Inl s)
             | Inr bytes \<Rightarrow> do {
                 checked \<leftarrow> cap_check (logged caps) (ei_path parsed) bytes;
                 case checked of
                   Inl e \<Rightarrow> State_Monad.return (Inl (read_error e (ei_path parsed) (en_path found)))
                 | Inr NeverObserved \<Rightarrow> State_Monad.return (Inl (StopError (never_observed (en_path found))))
                 | Inr ChangedSinceObserved \<Rightarrow> refuse_stale (logged caps) (ei_path parsed) (en_path found) bytes
                 | Inr Unchanged \<Rightarrow>
                     (case edit_text (en_path found) bytes parsed of
                        Inl message \<Rightarrow> State_Monad.return (Inl (StopError message))
                      | Inr ed \<Rightarrow> write_edit (logged caps) (ei_path parsed) (en_path found) ed)
               }
           })) (\<lambda>r (w', log'). edit_post parsed r log') (w', log)" if q: "quiet log" for r and w' :: 'a and log
    proof (cases r)
      case (Inl e)
      then show ?thesis using resolve [OF q] missing [OF q] q
        by (cases e) (auto simp: edit_post_def)
    next
      case (Inr found)
      show ?thesis
      proof (cases "is_no_change parsed")
        case True
        then show ?thesis using Inr q by (simp add: edit_post_def)
      next
        case False
        have checked: "wp (do {
                 checked \<leftarrow> cap_check (logged caps) (ei_path parsed) bytes;
                 case checked of
                   Inl e \<Rightarrow> State_Monad.return (Inl (read_error e (ei_path parsed) (en_path found)))
                 | Inr NeverObserved \<Rightarrow> State_Monad.return (Inl (StopError (never_observed (en_path found))))
                 | Inr ChangedSinceObserved \<Rightarrow> refuse_stale (logged caps) (ei_path parsed) (en_path found) bytes
                 | Inr Unchanged \<Rightarrow>
                     (case edit_text (en_path found) bytes parsed of
                        Inl message \<Rightarrow> State_Monad.return (Inl (StopError message))
                      | Inr ed \<Rightarrow> write_edit (logged caps) (ei_path parsed) (en_path found) ed)
               }) (\<lambda>r (w', log'). edit_post parsed r log') (w', log)" if "quiet log" for bytes w' log
        proof -
          obtain c w'' where c: "run_state (cap_check caps (ei_path parsed) bytes) w' = (c, w'')"
            by (cases "run_state (cap_check caps (ei_path parsed) bytes) w'") auto
          have log: "quiet (log @ [CalledCheck (ei_path parsed) bytes c])" using that by simp
          show ?thesis
          proof (cases c)
            case (Inl e)
            then show ?thesis using quiet_stop [OF log] c by (simp add: logged_def wp_with_log)
          next
            case (Inr o')
            show ?thesis
            proof (cases o')
              case Unchanged
              have step: "wp (cap_check (logged caps) (ei_path parsed) bytes) Q (w', log) =
                  Q c (w'', log @ [CalledCheck (ei_path parsed) bytes c])" for Q
                using c by (simp add: logged_def wp_with_log)
              show ?thesis
              proof (cases "edit_text (en_path found) bytes parsed")
                case (Inl message)
                with step quiet_stop [OF log] \<open>c = Inr o'\<close> Unchanged show ?thesis by simp
              next
                case (Inr ed)
                with step wp_write_edit [OF Inr log] \<open>c = Inr o'\<close> Unchanged show ?thesis by simp
              qed
            next
              case NeverObserved
              then show ?thesis using quiet_stop [OF log] c Inr by (simp add: logged_def wp_with_log)
            next
              case ChangedSinceObserved
              have "wp (cap_check (logged caps) (ei_path parsed) bytes) Q (w', log) =
                  Q c (w'', log @ [CalledCheck (ei_path parsed) bytes c])" for Q
                using c by (simp add: logged_def wp_with_log)
              with refuse [OF log] Inr ChangedSinceObserved show ?thesis by simp
            qed
          qed
        qed
        have whole: "wp (read_whole fuel (logged caps) (ei_path parsed) (en_path found) [])
            (\<lambda>whole. wp (case whole of
                 Inl s \<Rightarrow> State_Monad.return (Inl s)
               | Inr bytes \<Rightarrow> do {
                   checked \<leftarrow> cap_check (logged caps) (ei_path parsed) bytes;
                   case checked of
                     Inl e \<Rightarrow> State_Monad.return (Inl (read_error e (ei_path parsed) (en_path found)))
                   | Inr NeverObserved \<Rightarrow> State_Monad.return (Inl (StopError (never_observed (en_path found))))
                   | Inr ChangedSinceObserved \<Rightarrow> refuse_stale (logged caps) (ei_path parsed) (en_path found) bytes
                   | Inr Unchanged \<Rightarrow>
                       (case edit_text (en_path found) bytes parsed of
                          Inl message \<Rightarrow> State_Monad.return (Inl (StopError message))
                        | Inr ed \<Rightarrow> write_edit (logged caps) (ei_path parsed) (en_path found) ed)
                 }) (\<lambda>r (w', log'). edit_post parsed r log')) (w', log)"
        proof (rule quietly_wp [OF quietly_read_whole])
          fix whole and w'' :: 'a and added assume "quiet added"
          then have l: "quiet (log @ added)" using q by simp
          show "wp (case whole of
                 Inl s \<Rightarrow> State_Monad.return (Inl s)
               | Inr bytes \<Rightarrow> do {
                   checked \<leftarrow> cap_check (logged caps) (ei_path parsed) bytes;
                   case checked of
                     Inl e \<Rightarrow> State_Monad.return (Inl (read_error e (ei_path parsed) (en_path found)))
                   | Inr NeverObserved \<Rightarrow> State_Monad.return (Inl (StopError (never_observed (en_path found))))
                   | Inr ChangedSinceObserved \<Rightarrow> refuse_stale (logged caps) (ei_path parsed) (en_path found) bytes
                   | Inr Unchanged \<Rightarrow>
                       (case edit_text (en_path found) bytes parsed of
                          Inl message \<Rightarrow> State_Monad.return (Inl (StopError message))
                        | Inr ed \<Rightarrow> write_edit (logged caps) (ei_path parsed) (en_path found) ed)
                 }) (\<lambda>r (w', log'). edit_post parsed r log') (w'', log @ added)"
          proof (cases whole)
            case (Inl s)
            then show ?thesis using quiet_stop [OF l] by simp
          next
            case (Inr bytes)
            show ?thesis unfolding Inr sum.case by (rule checked [OF l])
          qed
        qed
        show ?thesis
          unfolding Inr sum.case if_not_P [OF False] wp_bind by (rule whole)
      qed
    qed
  show ?thesis
    unfolding edit_run_def Let_def wp_bind
    by (rule quietly_wp [OF quiet_caps(2)], rule body) (use assms in simp)
qed

text \<open>The whole call: quiet and without effect, or the one checked write of its edit.\<close>

definition call_post :: "edit_codec \<Rightarrow> ustring \<Rightarrow> call_input \<Rightarrow> edit_outcome \<Rightarrow> host_call list \<Rightarrow> bool" where
  "call_post codec tool input out log \<longleftrightarrow>
     quiet log \<and> (\<forall>content. out = EditOk content \<longrightarrow>
       (\<exists>raw parsed. input = JsonInput raw \<and> parse_json_input codec tool raw = Inr parsed \<and>
          is_no_change parsed \<and> content = no_change parsed)) \<or>
     (\<exists>raw parsed r. input = JsonInput raw \<and> parse_json_input codec tool raw = Inr parsed \<and>
        wrote_checked parsed r log \<and>
        (case r of Inr content \<Rightarrow> out = EditOk content
         | Inl s \<Rightarrow> out = (case s of StopCancelled \<Rightarrow> EditCancelled | StopError message \<Rightarrow> EditError message
                            | OutOfFuel \<Rightarrow> EditOutOfFuel)))"

lemma wp_edit_execute:
  "wp (edit_execute fuel codec (logged caps) tool input) (\<lambda>out (w', log'). call_post codec tool input out log') (w, [])"
  unfolding edit_execute_def wp_bind
proof (rule quietly_wp [OF quiet_caps(1)], unfold append_Nil)
  fix cancelled and w' :: 'a and log assume q: "quiet log"
  show "wp (if cancelled then State_Monad.return EditCancelled
       else
         (case input of
            TextInput _ \<Rightarrow> State_Monad.return (EditError (text_input_error tool))
          | JsonInput raw \<Rightarrow>
              (case parse_json_input codec tool raw of
                 Inl message \<Rightarrow> State_Monad.return (EditError message)
               | Inr parsed \<Rightarrow> do {
                   r \<leftarrow> edit_run fuel (logged caps) parsed;
                   State_Monad.return (case r of
                       Inr content \<Rightarrow> EditOk content
                     | Inl StopCancelled \<Rightarrow> EditCancelled
                     | Inl (StopError message) \<Rightarrow> EditError message
                     | Inl OutOfFuel \<Rightarrow> EditOutOfFuel)
                 })))
     (\<lambda>out (w', log'). call_post codec tool input out log') (w', log)"
  proof (cases "\<not> cancelled \<and> (\<exists>raw parsed. input = JsonInput raw \<and> parse_json_input codec tool raw = Inr parsed)")
    case False
    then show ?thesis using q by (auto simp: call_post_def split: call_input.splits sum.splits)
  next
    case True
    then obtain raw parsed where parsed: "input = JsonInput raw" "parse_json_input codec tool raw = Inr parsed" by auto
    have "call_post codec tool input (case r of
                       Inr content \<Rightarrow> EditOk content
                     | Inl StopCancelled \<Rightarrow> EditCancelled
                     | Inl (StopError message) \<Rightarrow> EditError message
                     | Inl OutOfFuel \<Rightarrow> EditOutOfFuel) log'" if "edit_post parsed r log'" for r log'
      using that parsed by (cases r) (auto simp: edit_post_def call_post_def split: stop.splits)
    then have "wp (edit_run fuel (logged caps) parsed) (\<lambda>r (w', log'). call_post codec tool input (case r of
                       Inr content \<Rightarrow> EditOk content
                     | Inl StopCancelled \<Rightarrow> EditCancelled
                     | Inl (StopError message) \<Rightarrow> EditError message
                     | Inl OutOfFuel \<Rightarrow> EditOutOfFuel) log') (w', log)"
      by (intro wp_mono [OF wp_edit_run [OF q]]) auto
    with True parsed show ?thesis by (simp add: case_prod_unfold)
  qed
qed

section \<open>The read ends\<close>

text \<open>A host that answers every read at or past \<open>n\<close> windows with less than a window.\<close>

definition ends_files :: "('w, 'm) capabilities \<Rightarrow> nat \<Rightarrow> bool" where
  "ends_files caps n \<longleftrightarrow>
     (\<forall>p i w window. n * read_window \<le> i \<longrightarrow> fst (run_state (cap_read caps p i read_window) w) = Inr window \<longrightarrow>
        length window < read_window)"

lemma read_error_fuel [simp]: "read_error e requested display \<noteq> OutOfFuel"
  "write_error e requested display \<noteq> OutOfFuel"
  by (simp_all add: read_error_def write_error_def split: fs_error.splits)

lemma wp_all: "(\<And>r t. Q r t) \<Longrightarrow> wp m Q w"
  by (simp add: wp_def split: prod.splits)

lemma wp_bind_all: "(\<And>r t. wp (f r) Q t) \<Longrightarrow> wp (State_Monad.bind m f) Q w"
  by (simp add: wp_all)

lemma read_whole_ends:
  assumes ends: "ends_files caps n"
  shows "n < fuel + k \<Longrightarrow> k \<le> n \<Longrightarrow> k * read_window \<le> length bytes \<Longrightarrow>
    wp (read_whole fuel caps requested display bytes) (\<lambda>r t. r \<noteq> Inl OutOfFuel) w"
proof (induction fuel arbitrary: k bytes w)
  case 0
  then show ?case by simp
next
  case (Suc fuel k bytes w)
  obtain r w' where r: "run_state (cap_read caps requested (length bytes) read_window) w = (r, w')"
    by (cases "run_state (cap_read caps requested (length bytes) read_window) w") auto
  have step: "wp (cap_read caps requested (length bytes) read_window) Q w = Q r w'" for Q
    by (simp add: wp_def r)
  show ?case
  proof (cases "\<exists>window. r = Inr window \<and> \<not> length window < read_window")
    case False
    then show ?thesis unfolding read_whole.simps wp_bind step by (cases r) auto
  next
    case True
    then obtain window where window: "r = Inr window" "read_window \<le> length window" by auto
    have "length bytes < n * read_window"
      using ends r window unfolding ends_files_def by (metis fst_conv linorder_not_less)
    then have "k * read_window < n * read_window" by (rule le_less_trans [OF Suc.prems(3)])
    then have k: "Suc k \<le> n" by simp
    have "wp (read_whole fuel caps requested display (bytes @ window)) (\<lambda>r t. r \<noteq> Inl OutOfFuel) w''" for w''
      using Suc.IH [of "Suc k" "bytes @ window" w''] Suc.prems k window(2) by simp
    then show ?thesis using window
      unfolding read_whole.simps wp_bind step by (auto simp del: wp_bind intro!: wp_bind_all)
  qed
qed

lemma wp_resolve_error: "wp (resolve_error caps e requested) (\<lambda>r t. r \<noteq> OutOfFuel) w"
  by (cases e) (auto simp: resolve_error_def intro!: wp_all)

lemma wp_refuse_fuel: "wp (refuse_stale caps requested display bytes) (\<lambda>r t. r \<noteq> Inl OutOfFuel) w"
  unfolding refuse_stale_def Let_def
  by (auto simp del: wp_bind intro!: wp_bind_all split: sum.splits fs_error.splits)

lemma wp_write_fuel: "wp (write_edit caps requested display ed) (\<lambda>r t. r \<noteq> Inl OutOfFuel) w"
  unfolding write_edit_def by (auto simp del: wp_bind intro!: wp_bind_all split: sum.splits)

lemma edit_run_ends:
  assumes "ends_files caps n" "n < fuel"
  shows "wp (edit_run fuel caps parsed) (\<lambda>r t. r \<noteq> Inl OutOfFuel) w"
proof -
  have read: "wp (read_whole fuel caps p d []) (\<lambda>r t. r \<noteq> Inl OutOfFuel) w" for p d w
    using read_whole_ends [OF assms(1), of fuel 0 "[]"] assms(2) by simp
  have checked: "wp (do {
                   checked \<leftarrow> cap_check caps (ei_path parsed) bytes;
                   case checked of
                     Inl e \<Rightarrow> State_Monad.return (Inl (read_error e (ei_path parsed) d))
                   | Inr NeverObserved \<Rightarrow> State_Monad.return (Inl (StopError (never_observed d)))
                   | Inr ChangedSinceObserved \<Rightarrow> refuse_stale caps (ei_path parsed) d bytes
                   | Inr Unchanged \<Rightarrow>
                       (case edit_text d bytes parsed of
                          Inl message \<Rightarrow> State_Monad.return (Inl (StopError message))
                        | Inr ed \<Rightarrow> write_edit caps (ei_path parsed) d ed)
                 }) (\<lambda>r t. r \<noteq> Inl OutOfFuel) w" for bytes d w
    unfolding wp_bind
    by (rule wp_all) (simp add: wp_refuse_fuel wp_write_fuel split: sum.splits observation.splits)
  have whole: "wp (do {
               whole \<leftarrow> read_whole fuel caps (ei_path parsed) d [];
               case whole of
                 Inl s \<Rightarrow> State_Monad.return (Inl s)
               | Inr bytes \<Rightarrow> do {
                   checked \<leftarrow> cap_check caps (ei_path parsed) bytes;
                   case checked of
                     Inl e \<Rightarrow> State_Monad.return (Inl (read_error e (ei_path parsed) d))
                   | Inr NeverObserved \<Rightarrow> State_Monad.return (Inl (StopError (never_observed d)))
                   | Inr ChangedSinceObserved \<Rightarrow> refuse_stale caps (ei_path parsed) d bytes
                   | Inr Unchanged \<Rightarrow>
                       (case edit_text d bytes parsed of
                          Inl message \<Rightarrow> State_Monad.return (Inl (StopError message))
                        | Inr ed \<Rightarrow> write_edit caps (ei_path parsed) d ed)
                 }
             }) (\<lambda>r t. r \<noteq> Inl OutOfFuel) w" for d w
    unfolding wp_bind [of "read_whole _ _ _ _ _"]
    by (rule wp_mono [OF read]) (use checked in \<open>auto split: sum.splits simp del: wp_bind\<close>)
  have resolve: "wp (State_Monad.bind (resolve_error caps e p) (\<lambda>s. State_Monad.return (Inl s)))
      (\<lambda>r t. r \<noteq> Inl OutOfFuel) w" for e p w
    unfolding wp_bind by (rule wp_mono [OF wp_resolve_error]) simp
  have missing: "wp (State_Monad.bind (missing_display caps p) (\<lambda>d. State_Monad.return (Inl (StopError (f d)))))
      (\<lambda>r t. r \<noteq> Inl OutOfFuel) w" for p w f
    unfolding wp_bind by (rule wp_all) simp
  show ?thesis
    unfolding edit_run_def Let_def wp_bind [of "cap_stat _ _"]
  proof (rule wp_all)
    fix r and t :: 'a
    show "wp (case r of
        Inl NotFound \<Rightarrow>
          (if is_no_change parsed then State_Monad.return (Inr (no_change parsed))
           else do { display \<leftarrow> missing_display caps (ei_path parsed);
             State_Monad.return (Inl (StopError (does_not_exist display))) })
      | Inl e \<Rightarrow> do { s \<leftarrow> resolve_error caps e (ei_path parsed); State_Monad.return (Inl s) }
      | Inr found \<Rightarrow>
          (if is_no_change parsed then State_Monad.return (Inr (no_change parsed))
           else do {
             whole \<leftarrow> read_whole fuel caps (ei_path parsed) (en_path found) [];
             case whole of
               Inl s \<Rightarrow> State_Monad.return (Inl s)
             | Inr bytes \<Rightarrow> do {
                 checked \<leftarrow> cap_check caps (ei_path parsed) bytes;
                 case checked of
                   Inl e \<Rightarrow> State_Monad.return (Inl (read_error e (ei_path parsed) (en_path found)))
                 | Inr NeverObserved \<Rightarrow> State_Monad.return (Inl (StopError (never_observed (en_path found))))
                 | Inr ChangedSinceObserved \<Rightarrow> refuse_stale caps (ei_path parsed) (en_path found) bytes
                 | Inr Unchanged \<Rightarrow>
                     (case edit_text (en_path found) bytes parsed of
                        Inl message \<Rightarrow> State_Monad.return (Inl (StopError message))
                      | Inr ed \<Rightarrow> write_edit caps (ei_path parsed) (en_path found) ed)
               }
           })) (\<lambda>r t. r \<noteq> Inl OutOfFuel) t"
    proof (cases r)
      case (Inl e)
      then show ?thesis using resolve missing by (cases e) (auto simp del: wp_bind)
    next
      case (Inr found)
      then show ?thesis using whole by (simp del: wp_bind)
    qed
  qed
qed

lemma edit_execute_ends:
  assumes "ends_files caps n" "n < fuel"
  shows "wp (edit_execute fuel codec caps tool input) (\<lambda>out t. out \<noteq> EditOutOfFuel) w"
proof -
  have run: "wp (edit_run fuel caps parsed) (\<lambda>r t. (case r of
                       Inr content \<Rightarrow> EditOk content
                     | Inl StopCancelled \<Rightarrow> EditCancelled
                     | Inl (StopError message) \<Rightarrow> EditError message
                     | Inl OutOfFuel \<Rightarrow> EditOutOfFuel) \<noteq> EditOutOfFuel) w" for parsed w
    by (rule wp_mono [OF edit_run_ends [OF assms]]) (auto split: sum.splits stop.splits)
  show ?thesis
    unfolding edit_execute_def wp_bind [of "cap_cancelled _"]
    by (rule wp_all) (use run in \<open>auto split: call_input.splits sum.splits\<close>)
qed

end
