(* ===== verification/EditClaims.thy ===== *)
theory EditClaims
  imports EditLaws EditStale EditCallLaws
begin

text \<open>The properties of the \<open>edit\<close> tool.\<close>

section \<open>What an edit writes\<close>

text \<open>C25: A successful edit splits the file's text at texts its entries name: every piece outside them
  is written back unchanged, and each of them is replaced by its entry's new text under the file's line
  ending. Every entry finds its text, one without \<open>replace_all\<close> exactly once; a text found only
  under folding was nowhere in the file as written.\<close>
theorem edit_replaces_exactly_its_matches:
  assumes "edit_text display bytes input = Inr ed"
  shows "\<exists>body had gaps found.
    bytes = utf8 (bom had @ body) \<and>
    length gaps = Suc (length found) \<and> ed_replacements ed = length found \<and>
    body = weave gaps (map snd found) \<and>
    ed_contents ed = bom had @ weave gaps (map (\<lambda>(e, m).
       restore_line_endings (normalize_to_lf (rp_new (ei_edits input ! e))) (detect_line_ending body)) found) \<and>
    accounts_for (ei_edits input) body found"
  by (rule edit_text_weave [OF assms]) blast

definition sample_edit :: edit_input where
  "sample_edit = \<lparr>ei_path = [102], ei_edits = [\<lparr>rp_old = [98], rp_new = [100, 10], rp_all = True\<rparr>,
     \<lparr>rp_old = [99], rp_new = [], rp_all = False\<rparr>], ei_listed = True\<rparr>"

lemma sample_edited:
  "edit_text [102] [97, 98, 13, 10, 99, 98] sample_edit =
     Inr \<lparr>ed_contents = [97, 100, 13, 10, 13, 10, 100, 13, 10], ed_replacements = 3, ed_region = None\<rparr>"
proof -
  have utf: "from_utf8 [97, 98, 13, 10, 99, 98] = Some [97, 98, 13, 10, 99, 98]" by code_simp
  have at: "locate [97, 98, 10, 99, 98] [98] = Some ([(1, 2), (4, 5)], False)"
    "locate [97, 98, 10, 99, 98] [99] = Some ([(3, 4)], False)" by code_simp+
  have strip: "strip_bom [97, 98, 13, 10, 99, 98] = ([97, 98, 13, 10, 99, 98], False)"
    by (simp add: strip_bom_def strip_prefix_def starts_with_def)
  have ending: "detect_line_ending [97, 98, 13, 10, 99, 98] = CrLf" by code_simp
  have norm: "normalized_with_offsets [97, 98, 13, 10, 99, 98] = ([97, 98, 10, 99, 98], [0, 1, 2, 4, 5, 6])" by code_simp
  have crlf: "restore_line_endings [100, 10] CrLf = [100, 13, 10]" "restore_line_endings [] CrLf = []" by code_simp+
  show ?thesis
    by (simp add: edit_text_def utf at strip ending norm sample_edit_def Let_def apply_span_def piece_def crlf starts_with_def del: restore_line_endings.simps)
qed

lemma edit_replaces_exactly_its_matches_witness:
  "\<exists>body had gaps found.
    [97, 98, 13, 10, 99, 98] = utf8 (bom had @ body) \<and>
    length gaps = Suc (length found) \<and> (3::nat) = length found \<and>
    body = weave gaps (map snd found) \<and>
    [97, 100, 13, 10, 13, 10, 100, 13, 10] = bom had @ weave gaps (map (\<lambda>(e, m).
       restore_line_endings (normalize_to_lf (rp_new (ei_edits sample_edit ! e))) (detect_line_ending body)) found) \<and>
    accounts_for (ei_edits sample_edit) body found"
  using edit_replaces_exactly_its_matches [OF sample_edited] by simp

text \<open>C27: An edit keeps a file's line endings: when all of them are of one kind, so are all of the
  written text, whatever line endings the replacement came with.\<close>
theorem edit_keeps_uniform_line_endings:
  assumes "edit_text display bytes input = Inr ed" "from_utf8 bytes = Some src"
    "uniform (detect_line_ending src) src"
  shows "uniform (detect_line_ending src) (ed_contents ed)"
  by (rule edit_keeps_line_endings [OF assms])

lemma edit_keeps_uniform_line_endings_witness:
  "uniform CrLf [97, 100, 13, 10, 13, 10, 100, 13, 10]"
proof -
  have "from_utf8 [97, 98, 13, 10, 99, 98] = Some [97, 98, 13, 10, 99, 98]" by code_simp
  from edit_keeps_uniform_line_endings [OF sample_edited this] show ?thesis by (simp add: starts_with_def)
qed

section \<open>What a refusal shows\<close>

text \<open>C28: The diff of a refusal is a shortest edit script, and the search gives up only when every
  script is longer than its bound.\<close>
theorem diff_script_is_shortest:
  fixes old_l new_l :: "ustring list"
  shows "case myers old_l new_l of
      Some ops \<Rightarrow> script ops old_l new_l \<and> edits ops = (LEAST n. \<exists>ops'. script ops' old_l new_l \<and> edits ops' = n)
    | None \<Rightarrow> max_edit_distance < (LEAST n. \<exists>ops'. script ops' old_l new_l \<and> edits ops' = n)"
proof (cases "myers old_l new_l")
  case None
  have "script (edit_script old_l new_l) old_l new_l" by (rule edit_script_sound)
  then have ex: "\<exists>n ops'. script ops' old_l new_l \<and> edits ops' = n" by blast
  have "\<exists>ops'. script ops' old_l new_l \<and> edits ops' = (LEAST n. \<exists>ops'. script ops' old_l new_l \<and> edits ops' = n)"
    by (rule LeastI_ex [OF ex])
  then obtain ops' where "script ops' old_l new_l"
      "edits ops' = (LEAST n. \<exists>ops'. script ops' old_l new_l \<and> edits ops' = n)" by blast
  with myers_gives_up [OF None this(1)] None show ?thesis by simp
next
  case (Some ops)
  have "(LEAST n. \<exists>ops'. script ops' old_l new_l \<and> edits ops' = n) = edits ops"
    by (rule Least_equality) (use myers_shortest(1) [OF Some] myers_shortest(2) [OF Some] in blast)+
  then show ?thesis using Some myers_shortest(1) [OF Some] by simp
qed

text \<open>C29: A refusal that says it shows the whole change lets the reader tell the current text: two
  states of the file that give the same message have the same text, line endings and mark aside.\<close>
theorem whole_refusal_determines_the_text:
  assumes "stale_refusal_of display (Some seen) current = r" "stale_refusal_of display (Some seen) current' = r"
    and "sr_whole r"
  shows "\<exists>now now'. from_utf8 current = Some now \<and> from_utf8 current' = Some now' \<and>
    normalize_to_lf (fst (strip_bom now)) = normalize_to_lf (fst (strip_bom now'))"
  by (rule refusal_determines_text [OF assms]) blast

lemma whole_refusal_determines_the_text_witness:
  "\<exists>now now'. from_utf8 [98, 10] = Some now \<and> from_utf8 [98, 13, 10] = Some now' \<and>
    normalize_to_lf (fst (strip_bom now)) = normalize_to_lf (fst (strip_bom now'))"
proof (rule whole_refusal_determines_the_text)
  have utf: "from_utf8 [97, 10] = Some [97, 10]" "from_utf8 [98, 10] = Some [98, 10]"
    "from_utf8 [98, 13, 10] = Some [98, 13, 10]" by code_simp+
  have bom: "strip_bom [97, 10] = ([97, 10], False)" "strip_bom [98, 10] = ([98, 10], False)"
    "strip_bom [98, 13, 10] = ([98, 13, 10], False)"
    by (simp_all add: strip_bom_def strip_prefix_def starts_with_def)
  have lines: "unified_lines [97, 10] [98, 10] = ([[64, 64, 32, 45, 49, 32, 43, 49, 32, 64, 64], [45, 97], [43, 98]], False)"
  proof -
    have split: "split_inclusive 10 [97, 10] = [[97, 10 :: nat]]" "split_inclusive 10 [98, 10] = [[98, 10 :: nat]]"
      by code_simp+
    have script: "edit_script [[97, 10 :: nat]] [[98, 10]] = [DDelete, DInsert]"
      by code_simp
    have hunks: "diff_hunks [[97, 10]] [[98, 10 :: nat]] (script_steps 0 0 [DDelete, DInsert]) 0 =
        ([[64, 64, 32, 45, 49, 32, 43, 49, 32, 64, 64], [45, 97], [43, 98]], False)"
      by code_simp
    show ?thesis
      by (simp only: unified_lines_def split script hunks Let_def)
  qed
  show "stale_refusal_of [102] (Some [97, 10]) [98, 10] = stale_refusal_of [102] (Some [97, 10]) [98, 10]" by (rule refl)
  show "stale_refusal_of [102] (Some [97, 10]) [98, 13, 10] = stale_refusal_of [102] (Some [97, 10]) [98, 10]"
    by (simp add: stale_refusal_of_def utf bom)
  show "sr_whole (stale_refusal_of [102] (Some [97, 10]) [98, 10])"
    by (simp add: stale_refusal_of_def utf bom lines max_diff_lines_def)
qed

section \<open>What a call asks of its host\<close>

text \<open>C26: A call asks its host for at most one write, of the edit of the very bytes the host said
  are those last read, made while the gate is held and released whatever the write answers; any other
  call leaves the file alone, and reports success only for an edit that changes nothing.\<close>
theorem edit_call_writes_only_the_checked_edit:
  assumes "run_state (edit_execute fuel codec (logged caps) tool input) (w, []) = (out, (w', log))"
  shows "quiet log \<and> (\<forall>content. out = EditOk content \<longrightarrow>
      (\<exists>raw parsed. input = JsonInput raw \<and> parse_json_input codec tool raw = Inr parsed \<and>
         is_no_change parsed \<and> content = no_change parsed)) \<or>
    (\<exists>raw parsed display bytes ed pre r.
       input = JsonInput raw \<and> parse_json_input codec tool raw = Inr parsed \<and>
       edit_text display bytes parsed = Inr ed \<and> quiet pre \<and>
       CalledCheck (ei_path parsed) bytes (Inr Unchanged) \<in> set pre \<and>
       log = pre @ [CalledBegin, CalledWrite (ei_path parsed) (utf8 (ed_contents ed)) r] @
         (if isl r then [] else [CalledObserve (ei_path parsed) (utf8 (ed_contents ed))]) @ [CalledDrop] \<and>
       (\<forall>content. out = EditOk content \<longleftrightarrow>
          \<not> isl r \<and> content = edited_output display (ed_replacements ed) (ed_region ed)))"
proof -
  have "call_post codec tool input out log"
    using wp_edit_execute [of fuel codec caps tool input w] assms by (simp add: wp_def)
  then show ?thesis
    unfolding call_post_def
  proof (elim disjE exE conjE)
    fix raw parsed r assume parsed: "input = JsonInput raw" "parse_json_input codec tool raw = Inr parsed"
      and wrote: "wrote_checked parsed r log"
      and out: "case r of Inr content \<Rightarrow> out = EditOk content
         | Inl s \<Rightarrow> out = (case s of StopCancelled \<Rightarrow> EditCancelled | StopError message \<Rightarrow> EditError message
                            | OutOfFuel \<Rightarrow> EditOutOfFuel)"
    from wrote obtain display bytes ed pre a where a:
      "edit_text display bytes parsed = Inr ed" "quiet pre"
      "CalledCheck (ei_path parsed) bytes (Inr Unchanged) \<in> set pre"
      "log = pre @ [CalledBegin, CalledWrite (ei_path parsed) (utf8 (ed_contents ed)) a] @
          (if isl a then [] else [CalledObserve (ei_path parsed) (utf8 (ed_contents ed))]) @ [CalledDrop]"
      "r = (case a of Inl e \<Rightarrow> Inl (write_error e (ei_path parsed) display)
               | Inr _ \<Rightarrow> Inr (edited_output display (ed_replacements ed) (ed_region ed)))"
      unfolding wrote_checked_def by blast
    have "\<forall>content. out = EditOk content \<longleftrightarrow>
          \<not> isl a \<and> content = edited_output display (ed_replacements ed) (ed_region ed)"
      using out a(5) by (auto split: sum.splits stop.splits)
    with parsed a(1-4) show ?thesis by blast
  qed blast
qed

definition sample_host :: "(byte list, unit) capabilities" where
  "sample_host =
     \<lparr>cap_cancelled = State_Monad.return False,
      cap_stat = (\<lambda>p. State_Monad.return (Inr \<lparr>en_path = p, en_kind = FileEntry\<rparr>)),
      cap_read = (\<lambda>p i n. State (\<lambda>file. (Inr (take n (drop i file)), file))),
      cap_check = (\<lambda>p bytes. State_Monad.return (Inr Unchanged)),
      cap_observe = (\<lambda>p bytes. State_Monad.return (Inr ())),
      cap_observed = (\<lambda>p. State_Monad.return (Inr None)),
      cap_begin = State_Monad.return (),
      cap_write = (\<lambda>gate p bytes. State (\<lambda>file. (Inr (), bytes))),
      cap_drop = (\<lambda>gate. State_Monad.return ())\<rparr>"

definition sample_codec :: edit_codec where
  "sample_codec =
     \<lparr>ec_raw = (\<lambda>raw. Inr \<lparr>re_path = ei_path sample_edit, re_old = None, re_new = None, re_all = None,
        re_edits = Some (ei_edits sample_edit)\<rparr>),
      ec_single = (\<lambda>raw. Inl [])\<rparr>"

definition sample_log :: "host_call list" where
  "sample_log =
     [CalledCancelled False, CalledStat [102], CalledRead [102],
      CalledCheck [102] [97, 98, 13, 10, 99, 98] (Inr Unchanged), CalledCancelled False, CalledBegin,
      CalledWrite [102] [97, 100, 13, 10, 13, 10, 100, 13, 10] (Inr ()),
      CalledObserve [102] [97, 100, 13, 10, 13, 10, 100, 13, 10], CalledDrop]"

lemma sample_run:
  "run_state (edit_execute 1 sample_codec (logged sample_host) [] (JsonInput [])) ([97, 98, 13, 10, 99, 98], []) =
     (EditOk (edited_output [102] 3 None), ([97, 100, 13, 10, 13, 10, 100, 13, 10], sample_log))"
proof -
  have parsed: "parse_json_input sample_codec [] [] = Inr sample_edit"
    by (simp add: parse_json_input_def sample_codec_def sample_edit_def)
  have utf: "utf8 [97, 100, 13, 10, 13, 10, 100, 13, 10] = [97, 100, 13, 10, 13, 10, 100, 13, 10]" by code_simp
  have host: "run_state (cap_cancelled (logged sample_host)) (f, l) = (False, (f, l @ [CalledCancelled False]))"
    "run_state (cap_stat (logged sample_host) p) (f, l) =
       (Inr \<lparr>en_path = p, en_kind = FileEntry\<rparr>, (f, l @ [CalledStat p]))"
    "run_state (cap_read (logged sample_host) p i n) (f, l) = (Inr (take n (drop i f)), (f, l @ [CalledRead p]))"
    "run_state (cap_check (logged sample_host) p b) (f, l) = (Inr Unchanged, (f, l @ [CalledCheck p b (Inr Unchanged)]))"
    "run_state (cap_observe (logged sample_host) p b) (f, l) = (Inr (), (f, l @ [CalledObserve p b]))"
    "run_state (cap_begin (logged sample_host)) (f, l) = ((), (f, l @ [CalledBegin]))"
    "run_state (cap_write (logged sample_host) g p b) (f, l) = (Inr (), (b, l @ [CalledWrite p b (Inr ())]))"
    "run_state (cap_drop (logged sample_host) g) (f, l) = ((), (f, l @ [CalledDrop]))" for f l p i n b g
    by (simp_all add: logged_def with_log_def sample_host_def)
  have input: "ei_path sample_edit = [102]" "\<not> is_no_change sample_edit"
    by (simp_all add: sample_edit_def is_no_change_def)
  show ?thesis
    by (simp add: edit_execute_def parsed edit_run_def write_edit_def host input read_window_def sample_edited utf
        sample_log_def Let_def)
qed

lemma edit_call_writes_only_the_checked_edit_witness:
  "\<exists>raw parsed display bytes ed pre r.
       JsonInput [] = JsonInput raw \<and> parse_json_input sample_codec [] raw = Inr parsed \<and>
       edit_text display bytes parsed = Inr ed \<and> quiet pre \<and>
       CalledCheck (ei_path parsed) bytes (Inr Unchanged) \<in> set pre \<and>
       sample_log = pre @ [CalledBegin, CalledWrite (ei_path parsed) (utf8 (ed_contents ed)) r] @
         (if isl r then [] else [CalledObserve (ei_path parsed) (utf8 (ed_contents ed))]) @ [CalledDrop] \<and>
       (\<forall>content. EditOk (edited_output [102] 3 None) = EditOk content \<longleftrightarrow>
          \<not> isl r \<and> content = edited_output display (ed_replacements ed) (ed_region ed))"
proof -
  have "\<not> quiet sample_log" by (simp add: sample_log_def)
  with edit_call_writes_only_the_checked_edit [OF sample_run] show ?thesis by (simp only: simp_thms)
qed

text \<open>C30: A call ends: when the host answers reads at or past some number of windows with less than
  a window, one more round of the reading loop than that is enough.\<close>
theorem edit_call_ends:
  assumes "ends_files caps n" "n < fuel"
  shows "fst (run_state (edit_execute fuel codec caps tool input) w) \<noteq> EditOutOfFuel"
  using edit_execute_ends [OF assms, of codec tool input w] by (simp add: wp_def split: prod.splits)

definition short_host :: "(byte list, unit) capabilities" where
  "short_host = sample_host\<lparr>cap_read := (\<lambda>p i n. State_Monad.return (Inr (take n (drop i [97]))))\<rparr>"

lemma edit_call_ends_witness:
  "fst (run_state (edit_execute 2 sample_codec short_host [] (JsonInput [])) []) \<noteq> EditOutOfFuel"
proof (rule edit_call_ends)
  show "ends_files short_host 1"
    by (auto simp: ends_files_def short_host_def read_window_def)
qed simp

end
