(* ===== verification/PatchText.thy ===== *)
theory PatchText
  imports EditText
begin

text \<open>
  The V4A patch of \<open>crates/p1-tool-patch/logic/src/patch.rs\<close> and the texts of \<open>lib.rs\<close>: unwrapping and
  parsing a patch, and what its groups make of a file. \<open>printable\<close> is the Unicode table by which
  the standard library's debug format of a string escapes a character, a parameter here.
\<close>

section \<open>Hunks\<close>

record update_group =
  ug_header :: "ustring option"
  ug_eof :: bool
  ug_line :: nat
  ug_old :: "ustring list"
  ug_new :: "ustring list"
  ug_new_from_old :: "nat option list"

datatype hunk =
    AddFile ustring "ustring list"
  | DeleteFile ustring
  | UpdateFile ustring "ustring option" "update_group list"

fun hunk_path :: "hunk \<Rightarrow> ustring" where
  "hunk_path (AddFile path lines) = path"
| "hunk_path (DeleteFile path) = path"
| "hunk_path (UpdateFile path moveto groups) = path"

definition hunk_paths :: "hunk list \<Rightarrow> ustring list" where
  "hunk_paths hunks = map hunk_path hunks"

fun hunk_escapes :: "(ustring \<Rightarrow> bool) \<Rightarrow> hunk \<Rightarrow> bool" where
  "hunk_escapes escapes (UpdateFile path moveto groups) \<longleftrightarrow>
     escapes path \<or> (case moveto of None \<Rightarrow> False | Some target \<Rightarrow> escapes target)"
| "hunk_escapes escapes h \<longleftrightarrow> escapes (hunk_path h)"

definition patch_is_destructive :: "hunk list \<Rightarrow> (ustring \<Rightarrow> bool) \<Rightarrow> bool" where
  "patch_is_destructive hunks escapes \<longleftrightarrow> list_ex (hunk_escapes escapes) hunks"

text \<open>\<open>PatchOutOfFuel\<close> is not a value of the source: it ends the read of a file the host never ends.\<close>

datatype patch_failure = PatchMessage ustring | PatchCancelled | PatchOutOfFuel

definition invalid_patch :: "ustring \<Rightarrow> nat \<Rightarrow> patch_failure" where
  "invalid_patch reason line =
     PatchMessage (lit ''Invalid patch: '' @ reason @ lit '' (line '' @ dec line @ lit '').'')"

section \<open>The texts\<close>

definition already_exists :: "ustring \<Rightarrow> ustring" where
  "already_exists display = display @ lit '' already exists.''"

definition patch_does_not_exist :: "ustring \<Rightarrow> ustring" where
  "patch_does_not_exist display = display @ lit '' does not exist.''"

definition not_a_regular_file :: "ustring \<Rightarrow> ustring" where
  "not_a_regular_file display = display @ lit '' is not a regular file.''"

definition not_valid_utf8 :: "ustring \<Rightarrow> ustring" where
  "not_valid_utf8 display = display @ lit '' is not valid UTF-8.''"

definition could_not_be_read :: "ustring \<Rightarrow> ustring \<Rightarrow> ustring" where
  "could_not_be_read display reason = display @ lit '' could not be read: '' @ reason"

definition patch_failed_to_write :: "ustring \<Rightarrow> ustring \<Rightarrow> ustring" where
  "patch_failed_to_write display reason = lit ''failed to write '' @ display @ lit '': '' @ reason"

definition failed_to_delete :: "ustring \<Rightarrow> ustring \<Rightarrow> ustring" where
  "failed_to_delete display reason = lit ''failed to delete '' @ display @ lit '': '' @ reason"

text \<open>\<open>format!("{line:?}")\<close> of a string.\<close>

fun hex_digits :: "nat \<Rightarrow> ustring" where
  "hex_digits n =
     (let d = n mod 16; digit = (if d < 10 then 48 + d else 87 + d) in
      if n < 16 then [digit] else hex_digits (n div 16) @ [digit])"

declare hex_digits.simps [simp del]

definition debug_char :: "(nat \<Rightarrow> bool) \<Rightarrow> nat \<Rightarrow> ustring" where
  "debug_char printable c =
     (if c = 0 then [92, 48]
      else if c = 9 then [92, 116]
      else if c = 10 then [92, 110]
      else if c = 13 then [92, 114]
      else if c = 34 then [92, 34]
      else if c = 92 then [92, 92]
      else if printable c then [c]
      else [92, 117, 123] @ hex_digits c @ [125])"

definition debug_str :: "(nat \<Rightarrow> bool) \<Rightarrow> ustring \<Rightarrow> ustring" where
  "debug_str printable s = [34] @ concat (map (debug_char printable) s) @ [34]"

section \<open>The wrapper\<close>

definition heredoc_delimiter :: "ustring \<Rightarrow> ustring option" where
  "heredoc_delimiter line =
     (case strip_prefix (lit ''<<'') line of
        None \<Rightarrow> None
      | Some rest \<Rightarrow>
          (let rest = (case strip_prefix (lit ''-'') rest of Some r \<Rightarrow> r | None \<Rightarrow> rest);
               quote = (\<lambda>c. c = 39 \<or> c = 34);
               word = rev (dropWhile quote (rev (dropWhile quote rest)))
           in if word = [] then None else Some word))"

definition only_space :: "ustring \<Rightarrow> bool" where
  "only_space line \<longleftrightarrow> trim line = []"

definition drop_blank_end :: "ustring list \<Rightarrow> ustring list" where
  "drop_blank_end lines = rev (dropWhile only_space (rev lines))"

definition code_fence :: ustring where "code_fence = [96, 96, 96]"

definition unwrapped :: "ustring list \<Rightarrow> ustring list" where
  "unwrapped lines =
     (case lines of
        [] \<Rightarrow> []
      | first # rest \<Rightarrow>
          (if starts_with code_fence (trim first) then
             (let body = drop_blank_end rest in
              if body \<noteq> [] \<and> starts_with code_fence (trim_start (last body)) then butlast body else body)
           else case heredoc_delimiter (trim first) of
                  Some delimiter \<Rightarrow> takeWhile (\<lambda>line. trim line \<noteq> delimiter) rest
                | None \<Rightarrow> lines))"

definition strip_wrapper :: "ustring \<Rightarrow> ustring" where
  "strip_wrapper s =
     join_with [10] (drop_blank_end (unwrapped (dropWhile only_space (str_lines (str_replace [13, 10] [10] s)))))"

section \<open>The parser\<close>

text \<open>A change line: its marker and its content. An empty line is an empty context line.\<close>

fun split_change_line :: "ustring \<Rightarrow> (nat \<times> ustring) option" where
  "split_change_line [] = Some (32, [])"
| "split_change_line (c # content) = (if c \<in> {32, 43, 45} then Some (c, content) else None)"

definition empty_group :: "ustring option \<Rightarrow> nat \<Rightarrow> update_group" where
  "empty_group header line =
     \<lparr>ug_header = header, ug_eof = False, ug_line = line, ug_old = [], ug_new = [], ug_new_from_old = []\<rparr>"

definition add_change :: "nat \<Rightarrow> ustring \<Rightarrow> update_group \<Rightarrow> update_group" where
  "add_change marker content g =
     (let old_index = length (ug_old g);
          g' = (if marker \<noteq> 43 then g\<lparr>ug_old := ug_old g @ [content]\<rparr> else g)
      in if marker \<noteq> 45
         then g'\<lparr>ug_new_from_old := ug_new_from_old g' @ [if marker = 32 then Some old_index else None],
                ug_new := ug_new g' @ [content]\<rparr>
         else g')"

definition end_of_file_line :: ustring where "end_of_file_line = lit ''*** End of File''"

definition finished :: "update_group list \<Rightarrow> update_group option \<Rightarrow> update_group list" where
  "finished groups current = groups @ (case current of None \<Rightarrow> [] | Some g \<Rightarrow> [g])"

text \<open>The groups of one update: \<open>n\<close> lines of the patch are behind; what is returned is the groups, and
  the lines from the first that belongs to no group.\<close>

fun parse_update_groups ::
  "(nat \<Rightarrow> bool) \<Rightarrow> nat \<Rightarrow> ustring list \<Rightarrow> update_group list \<Rightarrow> update_group option \<Rightarrow>
   patch_failure + update_group list \<times> nat \<times> ustring list"
where
  "parse_update_groups printable n [] groups current = Inr (finished groups current, n, [])"
| "parse_update_groups printable n (line # rest) groups current =
     (if line = end_of_file_line then
        (case current of
           None \<Rightarrow> Inl (invalid_patch ([34] @ end_of_file_line @ [34] @ lit '' without a preceding change'') (n + 1))
         | Some g \<Rightarrow>
             if rest \<noteq> [] \<and> \<not> starts_with (lit ''*** '') (hd rest)
             then Inl (invalid_patch (lit ''unexpected line after '' @ [34] @ end_of_file_line @ [34] @ lit '': '' @
               debug_str printable (hd rest)) (n + 2))
             else parse_update_groups printable (n + 1) rest groups (Some (g\<lparr>ug_eof := True\<rparr>)))
      else if starts_with (lit ''*** '') line then Inr (finished groups current, n, line # rest)
      else if line = lit ''@@'' \<or> starts_with (lit ''@@ '') line then
        parse_update_groups printable (n + 1) rest (finished groups current)
          (Some (empty_group (if line = lit ''@@'' then None else Some (drop 3 line)) (n + 1)))
      else
        (case split_change_line line of
           None \<Rightarrow> Inl (invalid_patch (lit ''unexpected line in Update File hunk: '' @ debug_str printable line) (n + 1))
         | Some (marker, content) \<Rightarrow>
             parse_update_groups printable (n + 1) rest groups
               (Some (add_change marker content
                 (case current of None \<Rightarrow> empty_group None (n + 1) | Some g \<Rightarrow> g)))))"

lemma parse_update_groups_shorter:
  "parse_update_groups printable n lines groups current = Inr (groups', n', rest) \<Longrightarrow> length rest \<le> length lines"
proof (induction printable n lines groups current rule: parse_update_groups.induct)
  case (2 printable n line rest groups current)
  then show ?case by (auto split: if_splits option.splits intro: le_SucI)
qed simp

definition begin_patch_line :: ustring where "begin_patch_line = lit ''*** Begin Patch''"

definition end_patch_line :: ustring where "end_patch_line = lit ''*** End Patch''"

text \<open>\<open>*** Move to:\<close> on the first line of an update.\<close>

definition parse_move :: "nat \<Rightarrow> ustring list \<Rightarrow> patch_failure + ustring option \<times> nat \<times> ustring list" where
  "parse_move n lines =
     (case lines of
        [] \<Rightarrow> Inr (None, n, [])
      | line # rest \<Rightarrow>
          (case strip_prefix (lit ''*** Move to: '') line of
             None \<Rightarrow> Inr (None, n, lines)
           | Some target \<Rightarrow>
               if target = [] then Inl (invalid_patch (lit ''Move to has an empty path'') (n + 1))
               else Inr (Some target, n + 1, rest)))"

definition parse_update ::
  "(nat \<Rightarrow> bool) \<Rightarrow> ustring \<Rightarrow> nat \<Rightarrow> ustring list \<Rightarrow> patch_failure + hunk \<times> nat \<times> ustring list"
where
  "parse_update printable path n lines =
     (if path = [] then Inl (invalid_patch (lit ''Update File has an empty path'') n)
      else case parse_move n lines of
        Inl e \<Rightarrow> Inl e
      | Inr (moveto, n', lines') \<Rightarrow>
          (case parse_update_groups printable n' lines' [] None of
             Inl e \<Rightarrow> Inl e
           | Inr (groups, n'', rest) \<Rightarrow>
               if groups = [] \<and> moveto = None
               then Inl (invalid_patch (lit ''Update File hunk for '' @ path @ lit '' has no changes'') n)
               else (case List.find (\<lambda>g. ug_old g = [] \<and> ug_new g = []) groups of
                       Some g \<Rightarrow> Inl (invalid_patch (lit ''Update hunk for '' @ path @ lit '' contains no lines'') (ug_line g))
                     | None \<Rightarrow> Inr (UpdateFile path moveto groups, n'', rest))))"

lemma parse_update_shorter:
  "parse_update printable path n lines = Inr (h, n', rest) \<Longrightarrow> length rest \<le> length lines"
  by (auto simp: parse_update_def parse_move_def dest!: parse_update_groups_shorter
      split: if_splits sum.splits prod.splits option.splits list.splits)

text \<open>The hunks up to \<open>*** End Patch\<close>, and the lines after it; \<open>None\<close> when it never comes.\<close>

function parse_hunks ::
  "(nat \<Rightarrow> bool) \<Rightarrow> nat \<Rightarrow> ustring list \<Rightarrow> hunk list \<Rightarrow>
   patch_failure + hunk list \<times> (nat \<times> ustring list) option"
where
  "parse_hunks printable n [] hunks = Inr (hunks, None)"
| "parse_hunks printable n (line # rest) hunks =
     (if line = end_patch_line then Inr (hunks, Some (n + 1, rest))
      else case strip_prefix (lit ''*** Add File: '') line of
        Some path \<Rightarrow>
          if path = [] then Inl (invalid_patch (lit ''Add File has an empty path'') (n + 1))
          else
            (let added = takeWhile (starts_with [43]) rest in
             if added = [] then Inl (invalid_patch (lit ''Add File hunk for '' @ path @ lit '' has no lines'') (n + 1))
             else parse_hunks printable (n + 1 + length added) (drop (length added) rest)
               (hunks @ [AddFile path (map tl added)]))
      | None \<Rightarrow>
          (case strip_prefix (lit ''*** Delete File: '') line of
             Some path \<Rightarrow>
               if path = [] then Inl (invalid_patch (lit ''Delete File has an empty path'') (n + 1))
               else parse_hunks printable (n + 1) rest (hunks @ [DeleteFile path])
           | None \<Rightarrow>
               (case strip_prefix (lit ''*** Update File: '') line of
                  Some path \<Rightarrow>
                    (case parse_update printable path (n + 1) rest of
                       Inl e \<Rightarrow> Inl e
                     | Inr (h, n', rest') \<Rightarrow> parse_hunks printable n' rest' (hunks @ [h]))
                | None \<Rightarrow>
                    Inl (invalid_patch (lit ''expected a hunk header, found '' @ debug_str printable line) (n + 1)))))"
  by pat_completeness auto
termination
  by (relation "measure (\<lambda>(printable, n, lines, hunks). length lines)")
    (auto dest!: parse_update_shorter simp: less_Suc_eq_le)

declare parse_hunks.simps(2) [simp del]

definition parse_patch :: "(nat \<Rightarrow> bool) \<Rightarrow> ustring \<Rightarrow> patch_failure + hunk list" where
  "parse_patch printable s =
     (let lines = str_lines (strip_wrapper s) in
      if lines = [] \<or> hd lines \<noteq> begin_patch_line
      then Inl (invalid_patch (lit ''the first line must be '' @ [34] @ begin_patch_line @ [34]) 1)
      else case parse_hunks printable 1 (tl lines) [] of
        Inl e \<Rightarrow> Inl e
      | Inr (hunks, None) \<Rightarrow>
          Inl (invalid_patch (lit ''the patch must end with '' @ [34] @ end_patch_line @ [34]) (max (length lines) 1))
      | Inr (hunks, Some (n, after)) \<Rightarrow>
          (case position (\<lambda>line. \<not> only_space line) after of
             Some i \<Rightarrow> Inl (invalid_patch (lit ''unexpected content after '' @ [34] @ end_patch_line @ [34]) (n + i + 1))
           | None \<Rightarrow> if hunks = [] then Inl (invalid_patch (lit ''the patch contains no hunks'') 1) else Inr hunks))"

section \<open>Applying the groups of an update\<close>

definition split_lines :: "ustring \<Rightarrow> ustring list" where
  "split_lines normalized =
     (if normalized = [] then []
      else let lines = split_on 10 normalized in if ends_with [10] normalized then butlast lines else lines)"

definition detect_crlf :: "ustring \<Rightarrow> bool" where
  "detect_crlf s =
     (case position (\<lambda>c. c = 10) s of
        Some i \<Rightarrow> i > 0 \<and> s ! (i - 1) = 13
      | None \<Rightarrow> False)"

datatype match_tier = ExactTier | TrimEndTier | TrimBothTier

definition matches_at :: "ustring list \<Rightarrow> nat \<Rightarrow> ustring list \<Rightarrow> match_tier \<Rightarrow> bool" where
  "matches_at lines pos pat tier \<longleftrightarrow>
     list_all (\<lambda>(i, expected).
        pos + i < length lines \<and>
        (case tier of
           ExactTier \<Rightarrow> lines ! (pos + i) = expected
         | TrimEndTier \<Rightarrow> trim_end (lines ! (pos + i)) = trim_end expected
         | TrimBothTier \<Rightarrow> trim (lines ! (pos + i)) = trim expected))
       (List.enumerate 0 pat)"

definition match_tiers :: "match_tier list" where
  "match_tiers = [ExactTier, TrimEndTier, TrimBothTier]"

definition find_header :: "ustring list \<Rightarrow> ustring \<Rightarrow> nat \<Rightarrow> nat option" where
  "find_header lines header from_i =
     (case List.find (\<lambda>i. lines ! i = header) [from_i..<length lines] of
        Some i \<Rightarrow> Some i
      | None \<Rightarrow> List.find (\<lambda>i. trim (lines ! i) = trim header) [from_i..<length lines])"

text \<open>The first of the tiers at which the pattern is found, and where.\<close>

fun find_tier :: "match_tier list \<Rightarrow> ustring list \<Rightarrow> nat \<Rightarrow> ustring list \<Rightarrow> nat option" where
  "find_tier [] lines start pat = None"
| "find_tier (tier # tiers) lines start pat =
     (case List.find (\<lambda>i. matches_at lines i pat tier) [start..<length lines - length pat + 1] of
        Some i \<Rightarrow> Some i
      | None \<Rightarrow> find_tier tiers lines start pat)"

definition locate_group :: "ustring list \<Rightarrow> update_group \<Rightarrow> nat \<Rightarrow> nat option" where
  "locate_group lines g running =
     (case (case ug_header g of
              Some header \<Rightarrow> map_option Suc (find_header lines header running)
            | None \<Rightarrow> Some running) of
        None \<Rightarrow> None
      | Some start \<Rightarrow>
          (let pat = ug_old g in
           if ug_eof g then
             (if start > length lines \<or> length pat > length lines \<or> length lines - length pat < start then None
              else map_option (\<lambda>_. length lines - length pat)
                (List.find (matches_at lines (length lines - length pat) pat) match_tiers))
           else if pat = [] then Some (length lines)
           else if start + length pat > length lines then None
           else find_tier match_tiers lines start pat))"

definition line_ending_of :: "ustring \<Rightarrow> ustring" where
  "line_ending_of part = (if ends_with [13, 10] part then [13, 10] else if ends_with [10] part then [10] else [])"

text \<open>The endings of a group's new lines: a kept line keeps its own, an added line that of an equal old
  line further on, or of the old line it stands for.\<close>

fun replacement_endings ::
  "ustring list \<Rightarrow> ustring list \<Rightarrow> ustring \<Rightarrow> nat \<Rightarrow> (ustring \<times> nat option) list \<Rightarrow> nat \<Rightarrow> ustring list"
where
  "replacement_endings previous previous_endings default_ending index [] next_old = []"
| "replacement_endings previous previous_endings default_ending index ((line, kept) # rest) next_old =
     (case kept of
        Some old_index \<Rightarrow>
          previous_endings ! old_index #
          replacement_endings previous previous_endings default_ending (index + 1) rest (old_index + 1)
      | None \<Rightarrow>
          (case position (\<lambda>old. old = line) (drop next_old previous) of
             Some relative \<Rightarrow>
               previous_endings ! (next_old + relative) #
               replacement_endings previous previous_endings default_ending (index + 1) rest (next_old + relative + 1)
           | None \<Rightarrow>
               (if index < length previous_endings \<and> previous_endings ! index \<noteq> []
                then previous_endings ! index else default_ending) #
               replacement_endings previous previous_endings default_ending (index + 1) rest next_old))"

definition splice :: "'a list \<Rightarrow> nat \<Rightarrow> nat \<Rightarrow> 'a list \<Rightarrow> 'a list" where
  "splice xs start stop ys = take start xs @ ys @ drop stop xs"

fun apply_each ::
  "ustring \<Rightarrow> ustring \<Rightarrow> nat \<Rightarrow> update_group list \<Rightarrow> nat \<Rightarrow> ustring list \<Rightarrow> ustring list \<Rightarrow>
   patch_failure + ustring list \<times> ustring list"
where
  "apply_each display default_ending index [] running lines endings = Inr (lines, endings)"
| "apply_each display default_ending index (g # groups) running lines endings =
     (case locate_group lines g running of
        None \<Rightarrow> Inl (PatchMessage (display @ lit '': hunk '' @ dec (index + 1) @ lit '' did not match the file.''))
      | Some pos \<Rightarrow>
          (let stop = pos + length (ug_old g);
               new_endings = replacement_endings (take (length (ug_old g)) (drop pos lines))
                 (take (length (ug_old g)) (drop pos endings)) default_ending 0
                 (zip (ug_new g) (ug_new_from_old g)) 0
           in apply_each display default_ending (index + 1) groups (pos + length (ug_new g))
                (splice lines pos stop (ug_new g)) (splice endings pos stop new_endings)))"

text \<open>The lines put back together: the last one ends with a line break when the file did.\<close>

fun joined_lines :: "bool \<Rightarrow> ustring \<Rightarrow> (ustring \<times> ustring) list \<Rightarrow> ustring" where
  "joined_lines trailing default_ending [] = []"
| "joined_lines trailing default_ending ((line, ending) # rest) =
     line @ (if rest \<noteq> [] \<or> trailing then (if ending = [] then default_ending else ending) else []) @
     joined_lines trailing default_ending rest"

definition apply_groups :: "byte list \<Rightarrow> update_group list \<Rightarrow> ustring \<Rightarrow> patch_failure + byte list" where
  "apply_groups bytes groups display =
     (case from_utf8 bytes of
        None \<Rightarrow> Inl (PatchMessage (not_valid_utf8 display))
      | Some s \<Rightarrow>
          (let default_ending = (if detect_crlf s then [13, 10] else [10]);
               normalized = str_replace [13, 10] [10] s
           in case apply_each display default_ending 0 groups 0 (split_lines normalized)
                  (map line_ending_of (split_inclusive 10 s)) of
                Inl e \<Rightarrow> Inl e
              | Inr (lines, endings) \<Rightarrow>
                  Inr (utf8 (joined_lines (ends_with [10] normalized) default_ending (zip lines endings)))))"

end
