(* ===== verification/PatchPlan.thy ===== *)
theory PatchPlan
  imports PatchText
begin

text \<open>
  Planning a patch over a view of the workspace, and reducing the plan to one change per path:
  \<open>plan\<close> and \<open>coalesce\<close> of \<open>crates/p1-tool-patch/logic/src/patch.rs\<close>. The trait \<open>Files\<close> is the record
  \<open>files_view\<close>: operations on a state \<open>'f\<close> of its own, whose keys are \<open>'k\<close>.
\<close>

section \<open>The view and the operations\<close>

record ('f, 'k) files_view =
  fv_cancelled :: "('f, bool) state"
  fv_resolve :: "ustring \<Rightarrow> ('f, patch_failure + 'k \<times> ustring) state"
  fv_exists :: "'k \<Rightarrow> ('f, bool) state"
  fv_read :: "'k \<Rightarrow> ustring \<Rightarrow> ('f, patch_failure + byte list option) state"

datatype 'k patch_op =
    OpAdd 'k ustring "byte list"
  | OpModify 'k ustring "byte list"
  | OpDelete 'k ustring
  | OpMove 'k ustring 'k ustring "byte list"

fun success_line :: "'k patch_op \<Rightarrow> ustring" where
  "success_line (OpAdd path display contents) = lit ''A '' @ display"
| "success_line (OpModify path display contents) = lit ''M '' @ display"
| "success_line (OpDelete path display) = lit ''D '' @ display"
| "success_line (OpMove source source_display target target_display contents) =
     lit ''M '' @ source_display @ lit '' -> '' @ target_display"

definition success_output :: "'k patch_op list \<Rightarrow> ustring" where
  "success_output ops = join_with [10] (map success_line ops)"

section \<open>The plan\<close>

type_synonym 'k staged = "'k \<rightharpoonup> byte list option"

definition is_present :: "('f, 'k) files_view \<Rightarrow> 'k \<Rightarrow> 'k staged \<Rightarrow> ('f, bool) state" where
  "is_present files key staged =
     (case staged key of Some entry \<Rightarrow> ret (entry \<noteq> None) | None \<Rightarrow> fv_exists files key)"

definition current_contents ::
  "('f, 'k) files_view \<Rightarrow> 'k \<Rightarrow> ustring \<Rightarrow> 'k staged \<Rightarrow> ('f, patch_failure + byte list option) state"
where
  "current_contents files key display staged =
     (case staged key of
        Some entry \<Rightarrow> ret (Inr entry)
      | None \<Rightarrow> do {
          r \<leftarrow> fv_read files key display;
          ret (case r of
                 Inl e \<Rightarrow> Inl e
               | Inr None \<Rightarrow> Inr None
               | Inr (Some bytes) \<Rightarrow>
                   if from_utf8 bytes = None then Inl (PatchMessage (not_valid_utf8 display)) else Inr (Some bytes))
        })"

definition added_contents :: "ustring list \<Rightarrow> byte list" where
  "added_contents lines = utf8 (join_with [10] lines @ (if lines = [] then [] else [10]))"

text \<open>One hunk: the operation it becomes, and what is staged after it.\<close>

fun plan_hunk ::
  "('f, 'k) files_view \<Rightarrow> 'k staged \<Rightarrow> hunk \<Rightarrow> ('f, patch_failure + 'k patch_op \<times> 'k staged) state"
where
  "plan_hunk files staged (AddFile path lines) =
     do {
       r \<leftarrow> fv_resolve files path;
       case r of
         Inl e \<Rightarrow> ret (Inl e)
       | Inr (key, display) \<Rightarrow> do {
           present \<leftarrow> is_present files key staged;
           ret (if present then Inl (PatchMessage (already_exists display))
                else let contents = added_contents lines in
                  Inr (OpAdd key display contents, staged(key \<mapsto> Some contents)))
         }
     }"
| "plan_hunk files staged (DeleteFile path) =
     do {
       r \<leftarrow> fv_resolve files path;
       case r of
         Inl e \<Rightarrow> ret (Inl e)
       | Inr (key, display) \<Rightarrow> do {
           c \<leftarrow> current_contents files key display staged;
           ret (case c of
                  Inl e \<Rightarrow> Inl e
                | Inr None \<Rightarrow> Inl (PatchMessage (patch_does_not_exist display))
                | Inr (Some _) \<Rightarrow> Inr (OpDelete key display, staged(key \<mapsto> None)))
         }
     }"
| "plan_hunk files staged (UpdateFile path moveto groups) =
     do {
       r \<leftarrow> fv_resolve files path;
       case r of
         Inl e \<Rightarrow> ret (Inl e)
       | Inr (key, display) \<Rightarrow> do {
           c \<leftarrow> current_contents files key display staged;
           case c of
             Inl e \<Rightarrow> ret (Inl e)
           | Inr None \<Rightarrow> ret (Inl (PatchMessage (patch_does_not_exist display)))
           | Inr (Some bytes) \<Rightarrow>
               (case apply_groups bytes groups display of
                  Inl e \<Rightarrow> ret (Inl e)
                | Inr contents \<Rightarrow>
                    (case moveto of
                       None \<Rightarrow> ret (Inr (OpModify key display contents, staged(key \<mapsto> Some contents)))
                     | Some target \<Rightarrow> do {
                         t \<leftarrow> fv_resolve files target;
                         case t of
                           Inl e \<Rightarrow> ret (Inl e)
                         | Inr (to_key, to_display) \<Rightarrow> do {
                             present \<leftarrow> is_present files to_key staged;
                             ret (if present then Inl (PatchMessage (already_exists to_display))
                                  else Inr (OpMove key display to_key to_display contents,
                                    staged(key \<mapsto> None, to_key \<mapsto> Some contents)))
                           }
                       }))
         }
     }"

fun plan_from ::
  "('f, 'k) files_view \<Rightarrow> 'k staged \<Rightarrow> 'k patch_op list \<Rightarrow> hunk list \<Rightarrow> ('f, patch_failure + 'k patch_op list) state"
where
  "plan_from files staged ops [] = ret (Inr ops)"
| "plan_from files staged ops (h # hunks) =
     do {
       cancelled \<leftarrow> fv_cancelled files;
       if cancelled then ret (Inl PatchCancelled)
       else do {
         r \<leftarrow> plan_hunk files staged h;
         case r of
           Inl e \<Rightarrow> ret (Inl e)
         | Inr (op, staged') \<Rightarrow> plan_from files staged' (ops @ [op]) hunks
       }
     }"

definition plan_patch :: "('f, 'k) files_view \<Rightarrow> hunk list \<Rightarrow> ('f, patch_failure + 'k patch_op list) state" where
  "plan_patch files hunks = plan_from files Map.empty [] hunks"

section \<open>One change per path\<close>

datatype 'k patch_change =
    CreateFile 'k ustring "byte list"
  | WriteFile 'k ustring "byte list"
  | RemoveFile 'k ustring

fun change_key :: "'k patch_change \<Rightarrow> 'k" where
  "change_key (CreateFile path display contents) = path"
| "change_key (WriteFile path display contents) = path"
| "change_key (RemoveFile path display) = path"

record 'k final_state =
  fl_path :: 'k
  fl_display :: ustring
  fl_contents :: "byte list option"
  fl_created :: bool
  fl_position :: "nat \<times> nat"

text \<open>\<open>touch\<close>: the first call for a path fixes whether the patch created it.\<close>

fun touch ::
  "'k \<Rightarrow> ustring \<Rightarrow> byte list option \<Rightarrow> bool \<Rightarrow> nat \<times> nat \<Rightarrow> 'k final_state list \<Rightarrow> 'k final_state list"
where
  "touch path display contents created pos [] =
     [\<lparr>fl_path = path, fl_display = display, fl_contents = contents, fl_created = created, fl_position = pos\<rparr>]"
| "touch path display contents created pos (f # finals) =
     (if fl_path f = path
      then f\<lparr>fl_contents := contents, fl_display := display, fl_position := pos\<rparr> # finals
      else f # touch path display contents created pos finals)"

fun touch_op :: "nat \<Rightarrow> 'k patch_op \<Rightarrow> 'k final_state list \<Rightarrow> 'k final_state list" where
  "touch_op index (OpAdd path display contents) finals = touch path display (Some contents) True (index, 0) finals"
| "touch_op index (OpModify path display contents) finals = touch path display (Some contents) False (index, 0) finals"
| "touch_op index (OpDelete path display) finals = touch path display None False (index, 0) finals"
| "touch_op index (OpMove source source_display target target_display contents) finals =
     touch source source_display None False (index, 1)
       (touch target target_display (Some contents) True (index, 0) finals)"

fun touch_ops :: "nat \<Rightarrow> 'k patch_op list \<Rightarrow> 'k final_state list \<Rightarrow> 'k final_state list" where
  "touch_ops index [] finals = finals"
| "touch_ops index (op # ops) finals = touch_ops (index + 1) ops (touch_op index op finals)"

definition finals_of :: "'k patch_op list \<Rightarrow> 'k final_state list" where
  "finals_of ops = touch_ops 0 ops []"

definition change_of :: "'k final_state \<Rightarrow> 'k patch_change option" where
  "change_of f =
     (case (fl_contents f, fl_created f) of
        (Some contents, True) \<Rightarrow> Some (CreateFile (fl_path f) (fl_display f) contents)
      | (Some contents, False) \<Rightarrow> Some (WriteFile (fl_path f) (fl_display f) contents)
      | (None, False) \<Rightarrow> Some (RemoveFile (fl_path f) (fl_display f))
      | (None, True) \<Rightarrow> None)"

definition coalesce :: "'k patch_op list \<Rightarrow> 'k patch_change list" where
  "coalesce ops =
     map snd (sort_key fst
       (List.map_filter (\<lambda>f. map_option (Pair (fl_position f)) (change_of f)) (finals_of ops)))"

end
