(* ===== verification/PatchPlanLaws.thy ===== *)
theory PatchPlanLaws
  imports PatchPlan "HOL-Library.Multiset"
begin

text \<open>
  Planning and coalescing against their specification: a patch applied to a map of files, one hunk
  after the other.
\<close>

section \<open>The specification\<close>

text \<open>A hunk applied to a map of files; \<open>resolve\<close> names the file a path stands for.\<close>

fun patch_hunk ::
  "(ustring \<Rightarrow> 'k \<times> ustring) \<Rightarrow> ('k \<rightharpoonup> byte list) \<Rightarrow> hunk \<Rightarrow> ('k \<rightharpoonup> byte list) option"
where
  "patch_hunk resolve files (AddFile path lines) =
     (let key = fst (resolve path) in
      if files key \<noteq> None then None else Some (files(key \<mapsto> added_contents lines)))"
| "patch_hunk resolve files (DeleteFile path) =
     (let key = fst (resolve path) in
      if files key = None then None else Some (files(key := None)))"
| "patch_hunk resolve files (UpdateFile path moveto groups) =
     (let (key, display) = resolve path in
      case files key of
        None \<Rightarrow> None
      | Some bytes \<Rightarrow>
          (case (apply_groups bytes groups display, moveto) of
             (Inl _, _) \<Rightarrow> None
           | (Inr contents, None) \<Rightarrow> Some (files(key \<mapsto> contents))
           | (Inr contents, Some target) \<Rightarrow>
               (let to_key = fst (resolve target) in
                if files to_key \<noteq> None then None else Some (files(key := None, to_key \<mapsto> contents)))))"

fun patch_files ::
  "(ustring \<Rightarrow> 'k \<times> ustring) \<Rightarrow> ('k \<rightharpoonup> byte list) \<Rightarrow> hunk list \<Rightarrow> ('k \<rightharpoonup> byte list) option"
where
  "patch_files resolve files [] = Some files"
| "patch_files resolve files (h # hunks) =
     (case patch_hunk resolve files h of None \<Rightarrow> None | Some files' \<Rightarrow> patch_files resolve files' hunks)"

text \<open>The operations of a plan, applied in order.\<close>

fun run_op :: "('k \<rightharpoonup> byte list) \<Rightarrow> 'k patch_op \<Rightarrow> ('k \<rightharpoonup> byte list) option" where
  "run_op files (OpAdd key display contents) = (if files key = None then Some (files(key \<mapsto> contents)) else None)"
| "run_op files (OpModify key display contents) =
     (if files key = None then None else Some (files(key \<mapsto> contents)))"
| "run_op files (OpDelete key display) = (if files key = None then None else Some (files(key := None)))"
| "run_op files (OpMove key display to_key to_display contents) =
     (if files key = None \<or> files to_key \<noteq> None then None else Some (files(key := None, to_key \<mapsto> contents)))"

fun run_ops :: "('k \<rightharpoonup> byte list) \<Rightarrow> 'k patch_op list \<Rightarrow> ('k \<rightharpoonup> byte list) option" where
  "run_ops files [] = Some files"
| "run_ops files (op # ops) = (case run_op files op of None \<Rightarrow> None | Some files' \<Rightarrow> run_ops files' ops)"

lemma run_ops_append:
  "run_ops files (xs @ ys) = (case run_ops files xs of None \<Rightarrow> None | Some files' \<Rightarrow> run_ops files' ys)"
  by (induction xs arbitrary: files) (auto split: option.splits)

text \<open>A change as the host takes it: a created path held nothing, a written or removed one a file.\<close>

fun run_change :: "('k \<rightharpoonup> byte list) \<Rightarrow> 'k patch_change \<Rightarrow> ('k \<rightharpoonup> byte list) option" where
  "run_change files (CreateFile key display contents) =
     (if files key = None then Some (files(key \<mapsto> contents)) else None)"
| "run_change files (WriteFile key display contents) =
     (if files key = None then None else Some (files(key \<mapsto> contents)))"
| "run_change files (RemoveFile key display) = (if files key = None then None else Some (files(key := None)))"

fun run_changes :: "('k \<rightharpoonup> byte list) \<Rightarrow> 'k patch_change list \<Rightarrow> ('k \<rightharpoonup> byte list) option" where
  "run_changes files [] = Some files"
| "run_changes files (c # cs) = (case run_change files c of None \<Rightarrow> None | Some files' \<Rightarrow> run_changes files' cs)"

section \<open>Coalescing\<close>

fun change_contents :: "'k patch_change \<Rightarrow> byte list option" where
  "change_contents (CreateFile key display contents) = Some contents"
| "change_contents (WriteFile key display contents) = Some contents"
| "change_contents (RemoveFile key display) = None"

definition applicable :: "('k \<rightharpoonup> byte list) \<Rightarrow> 'k patch_change \<Rightarrow> bool" where
  "applicable files c \<longleftrightarrow> (case c of CreateFile key _ _ \<Rightarrow> files key = None | _ \<Rightarrow> files (change_key c) \<noteq> None)"

lemma run_change_iff:
  "run_change files c = (if applicable files c then Some (files(change_key c := change_contents c)) else None)"
  by (cases c) (simp_all add: applicable_def)

text \<open>Changes of distinct paths do not see each other.\<close>

lemma run_changes_distinct:
  assumes "distinct (map change_key cs)" and "\<forall>c \<in> set cs. applicable files c"
  shows "run_changes files cs = Some (\<lambda>key. case List.find (\<lambda>c. change_key c = key) cs of
      Some c \<Rightarrow> change_contents c | None \<Rightarrow> files key)"
  using assms
proof (induction cs arbitrary: files)
  case (Cons c cs)
  let ?files = "files(change_key c := change_contents c)"
  have "applicable ?files d = applicable files d" if "d \<in> set cs" for d
  proof -
    have "change_key d \<noteq> change_key c" using Cons.prems(1) that by (auto simp: image_iff)
    then show ?thesis by (cases d) (auto simp: applicable_def)
  qed
  with Cons have "run_changes ?files cs = Some (\<lambda>key. case List.find (\<lambda>c. change_key c = key) cs of
      Some c \<Rightarrow> change_contents c | None \<Rightarrow> ?files key)"
    by simp
  moreover have "List.find (\<lambda>d. change_key d = change_key c) cs = None"
    using Cons.prems(1) by (simp add: find_None_iff image_iff) metis
  ultimately show ?case using Cons.prems(2)
    by (auto simp: run_change_iff fun_eq_iff split: option.splits)
qed simp

text \<open>The final states say what each touched path held before and holds now.\<close>

definition settles :: "('k \<rightharpoonup> byte list) \<Rightarrow> ('k \<rightharpoonup> byte list) \<Rightarrow> 'k final_state list \<Rightarrow> bool" where
  "settles before now finals \<longleftrightarrow>
     distinct (map fl_path finals) \<and>
     (\<forall>f \<in> set finals. now (fl_path f) = fl_contents f \<and> (fl_created f \<longleftrightarrow> before (fl_path f) = None)) \<and>
     (\<forall>key. key \<notin> fl_path ` set finals \<longrightarrow> now key = before key)"

lemma touch_new:
  "key \<notin> fl_path ` set finals \<Longrightarrow> touch key display contents created pos finals =
     finals @ [\<lparr>fl_path = key, fl_display = display, fl_contents = contents, fl_created = created, fl_position = pos\<rparr>]"
  by (induction finals) auto

lemma touch_known:
  "distinct (map fl_path finals) \<Longrightarrow> key \<in> fl_path ` set finals \<Longrightarrow> touch key display contents created pos finals =
     map (\<lambda>f. if fl_path f = key then f\<lparr>fl_contents := contents, fl_display := display, fl_position := pos\<rparr> else f) finals"
  by (induction finals) (auto simp: image_iff intro!: map_idI [symmetric])

lemma settles_touch:
  assumes "settles before now finals" "created \<longleftrightarrow> now key = None"
  shows "settles before (now(key := contents)) (touch key display contents created pos finals)"
proof (cases "key \<in> fl_path ` set finals")
  case True
  let ?set = "\<lambda>f. if fl_path f = key then f\<lparr>fl_contents := contents, fl_display := display, fl_position := pos\<rparr> else f"
  have paths: "map (fl_path \<circ> ?set) finals = map fl_path finals" by (auto simp: comp_def)
  have path_set: "fl_path ` ?set ` set finals = fl_path ` set finals"
    unfolding image_image by (rule image_cong) auto
  have "settles before (now(key := contents)) (map ?set finals)"
    unfolding settles_def list.set_map path_set map_map paths
    using assms(1) True unfolding settles_def by auto
  then show ?thesis using True assms(1) by (simp add: touch_known settles_def)
next
  case False
  with assms show ?thesis unfolding settles_def by (subst (1 2 3) touch_new) auto
qed

lemma settles_op:
  assumes "settles before now finals" "run_op now op = Some now'"
  shows "settles before now' (touch_op index op finals)"
proof (cases op)
  case (OpMove key display to_key to_display contents)
  with assms(2) have op: "now key \<noteq> None" "now to_key = None" "now' = now(key := None, to_key \<mapsto> contents)"
    by (auto split: if_splits)
  then have "key \<noteq> to_key" by auto
  then have now': "now' = (now(to_key \<mapsto> contents))(key := None)" using op(3) by (simp add: fun_upd_twist)
  show ?thesis unfolding OpMove now' touch_op.simps
    by (intro settles_touch assms(1)) (use op \<open>key \<noteq> to_key\<close> in auto)
qed (use assms in \<open>auto intro!: settles_touch split: if_splits\<close>)

lemma settles_ops:
  "settles before now finals \<Longrightarrow> run_ops now ops = Some now' \<Longrightarrow> settles before now' (touch_ops n ops finals)"
proof (induction ops arbitrary: n now finals)
  case (Cons op ops)
  then obtain mid where mid: "run_op now op = Some mid" "run_ops mid ops = Some now'" by (auto split: option.splits)
  show ?case using Cons.IH [OF settles_op [OF Cons.prems(1) mid(1)] mid(2)] by simp
qed simp

lemma change_of_settled:
  assumes "settles before now finals" "f \<in> set finals"
  shows "case change_of f of
           Some c \<Rightarrow> change_key c = fl_path f \<and> change_contents c = now (fl_path f) \<and> applicable before c
         | None \<Rightarrow> now (fl_path f) = before (fl_path f)"
  using assms by (auto simp: settles_def change_of_def applicable_def split: option.splits bool.splits)

lemma change_of_path: "change_of f = Some c \<Longrightarrow> change_key c = fl_path f"
  by (auto simp: change_of_def split: option.splits bool.splits)

lemma settled_changes:
  "List.map_filter (\<lambda>f. map_option (Pair (fl_position f)) (change_of f)) finals =
     map (\<lambda>f. (fl_position f, the (change_of f))) (filter (\<lambda>f. change_of f \<noteq> None) finals)"
  by (induction finals) (auto simp: List.map_filter_simps split: option.splits)

lemma mset_coalesce:
  "mset (coalesce ops) = mset (map (\<lambda>f. the (change_of f)) (filter (\<lambda>f. change_of f \<noteq> None) (finals_of ops)))"
  by (simp add: coalesce_def settled_changes comp_def image_mset.compositionality)

theorem coalesce_runs:
  fixes ops :: "'k patch_op list"
  assumes "run_ops before ops = Some now"
  shows "distinct (map change_key (coalesce ops)) \<and> run_changes before (coalesce ops) = Some now"
proof -
  let ?kept = "filter (\<lambda>f. change_of f \<noteq> None) (finals_of ops)"
  let ?change = "\<lambda>f. the (change_of f)"
  have settled: "settles before now (finals_of ops)"
    unfolding finals_of_def by (rule settles_ops [OF _ assms]) (simp add: settles_def)
  have members: "set (coalesce ops) = ?change ` set ?kept"
    using arg_cong [OF mset_coalesce [of ops], of set_mset] by simp
  have keys: "map (change_key \<circ> ?change) ?kept = map fl_path ?kept"
    by (auto simp: change_of_path)
  have "mset (map change_key (coalesce ops)) = mset (map fl_path ?kept)"
    using arg_cong [OF mset_coalesce [of ops], of "image_mset change_key"] keys
    by (metis map_map mset_map)
  then have distinct: "distinct (map change_key (coalesce ops))"
    using settled by (metis distinct_filter distinct_map mset_eq_imp_distinct_iff settles_def filter_map distinct_map_filter)
  have applicable: "\<forall>c \<in> set (coalesce ops). applicable before c"
    using change_of_settled [OF settled] unfolding members by fastforce
  have "(case List.find (\<lambda>c. change_key c = key) (coalesce ops) of
      Some c \<Rightarrow> change_contents c | None \<Rightarrow> before key) = now key" for key
  proof (cases "List.find (\<lambda>c. change_key c = key) (coalesce ops)")
    case (Some c)
    then have "c \<in> set (coalesce ops)" "change_key c = key" by (auto simp: find_Some_iff)
    then show ?thesis using change_of_settled [OF settled] Some unfolding members by fastforce
  next
    case None
    show ?thesis
    proof (cases "key \<in> fl_path ` set (finals_of ops)")
      case True
      then obtain f where f: "f \<in> set (finals_of ops)" "fl_path f = key" by auto
      have "change_of f = None"
      proof (rule ccontr)
        assume "change_of f \<noteq> None"
        then have "?change f \<in> set (coalesce ops)" "change_key (?change f) = key"
          using f unfolding members by (auto simp: change_of_path)
        with None show False by (auto simp: find_None_iff)
      qed
      then show ?thesis using change_of_settled [OF settled f(1)] f(2) None by simp
    next
      case False
      then show ?thesis using settled None by (simp add: settles_def)
    qed
  qed
  then show ?thesis using run_changes_distinct [OF distinct applicable] distinct by simp
qed

section \<open>Planning\<close>

fun hunk_names :: "hunk \<Rightarrow> ustring set" where
  "hunk_names (AddFile path lines) = {path}"
| "hunk_names (DeleteFile path) = {path}"
| "hunk_names (UpdateFile path moveto groups) = insert path (set_option moveto)"

text \<open>The line of the output a hunk gives.\<close>

fun hunk_line :: "(ustring \<Rightarrow> 'k \<times> ustring) \<Rightarrow> hunk \<Rightarrow> ustring" where
  "hunk_line resolve (AddFile path lines) = lit ''A '' @ snd (resolve path)"
| "hunk_line resolve (DeleteFile path) = lit ''D '' @ snd (resolve path)"
| "hunk_line resolve (UpdateFile path moveto groups) =
     lit ''M '' @ snd (resolve path) @ (case moveto of None \<Rightarrow> [] | Some target \<Rightarrow> lit '' -> '' @ snd (resolve target))"

fun op_keys :: "'k patch_op \<Rightarrow> 'k set" where
  "op_keys (OpAdd key display contents) = {key}"
| "op_keys (OpModify key display contents) = {key}"
| "op_keys (OpDelete key display) = {key}"
| "op_keys (OpMove key display to_key to_display contents) = {key, to_key}"

text \<open>A view that shows the files \<open>files\<close>: in its good states, which its operations keep, a path of \<open>names\<close>
  resolves as \<open>resolve\<close> says, and a key that was resolved is found and read as \<open>files\<close> has it.\<close>

definition view_shows ::
  "('f, 'k) files_view \<Rightarrow> ('f \<Rightarrow> bool) \<Rightarrow> ('f \<Rightarrow> 'k set) \<Rightarrow> ustring set \<Rightarrow> (ustring \<Rightarrow> 'k \<times> ustring) \<Rightarrow> ('k \<rightharpoonup> byte list) \<Rightarrow> bool"
where
  "view_shows view good known names resolve files \<longleftrightarrow>
     (\<forall>s. good s \<longrightarrow>
        wp (fv_cancelled view) (\<lambda>r t. \<not> r \<and> good t) s \<and>
        (\<forall>path \<in> names. wp (fv_resolve view path) (\<lambda>r t. r = Inr (resolve path) \<and> good t \<and> fst (resolve path) \<in> known t) s) \<and>
        (\<forall>key \<in> known s. wp (fv_exists view key) (\<lambda>r t. (r \<longleftrightarrow> files key \<noteq> None) \<and> good t) s) \<and>
        (\<forall>key \<in> known s. \<forall>display. wp (fv_read view key display) (\<lambda>r t. r = Inr (files key) \<and> good t) s))"

text \<open>The files as they are after what is staged.\<close>

definition overlay :: "('k \<rightharpoonup> byte list) \<Rightarrow> 'k staged \<Rightarrow> ('k \<rightharpoonup> byte list)" where
  "overlay files staged = (\<lambda>key. case staged key of Some entry \<Rightarrow> entry | None \<Rightarrow> files key)"

lemma overlay_upd [simp]: "overlay files (staged(key \<mapsto> entry)) = (overlay files staged)(key := entry)"
  by (simp add: overlay_def fun_eq_iff)

lemma overlay_empty [simp]: "overlay files Map.empty = files"
  by (simp add: overlay_def)

lemma apply_each_message: "apply_each display default_ending index groups running lines endings = Inl e \<Longrightarrow> \<exists>m. e = PatchMessage m"
  by (induction display default_ending index groups running lines endings rule: apply_each.induct)
    (auto simp: Let_def split: option.splits)

lemma apply_groups_message: "apply_groups bytes groups display = Inl e \<Longrightarrow> \<exists>m. e = PatchMessage m"
  by (auto simp: apply_groups_def Let_def split: option.splits sum.splits dest: apply_each_message)

definition text_files :: "ustring set \<Rightarrow> (ustring \<Rightarrow> 'k \<times> ustring) \<Rightarrow> ('k \<rightharpoonup> byte list) \<Rightarrow> bool" where
  "text_files names resolve files \<longleftrightarrow>
     (\<forall>path \<in> names. \<forall>bytes. files (fst (resolve path)) = Some bytes \<longrightarrow> from_utf8 bytes \<noteq> None)"

text \<open>One hunk is planned as it is applied: the operation does to the files what the hunk does.\<close>

lemma run_op_of_hunk:
  assumes "view_shows view good known names resolve files" "good s" and utf8: "text_files names resolve files"
    and names: "hunk_names h \<subseteq> names"
  shows "wp (plan_hunk view staged h) (\<lambda>r t. good t \<and>
     (case patch_hunk resolve (overlay files staged) h of
        None \<Rightarrow> \<exists>m. r = Inl (PatchMessage m)
      | Some files' \<Rightarrow> \<exists>op staged'. r = Inr (op, staged') \<and> run_op (overlay files staged) op = Some files' \<and>
          overlay files staged' = files' \<and> success_line op = hunk_line resolve h \<and>
          op_keys op \<subseteq> fst ` resolve ` names)) s"
proof -
  note law = assms(1) [unfolded view_shows_def, rule_format]
  have resolves: "wp (fv_resolve view path) Q s'"
    if "good s'" "path \<in> names" "\<And>t. good t \<Longrightarrow> fst (resolve path) \<in> known t \<Longrightarrow> Q (Inr (resolve path)) t" for path Q s'
    using law [OF that(1), THEN conjunct2, THEN conjunct1, rule_format, OF that(2)] by (rule wp_mono) (use that(3) in auto)
  have present: "wp (is_present view key staged) Q s'"
    if "good s'" "key \<in> known s'" "\<And>t. good t \<Longrightarrow> Q (overlay files staged key \<noteq> None) t" for key Q s'
  proof (cases "staged key")
    case None
    then show ?thesis using law [OF that(1), THEN conjunct2, THEN conjunct2, THEN conjunct1, rule_format, OF that(2)]
      unfolding is_present_def None option.case by (elim wp_mono) (use that(3) None in \<open>auto simp: overlay_def\<close>)
  qed (use that in \<open>simp add: is_present_def overlay_def\<close>)
  have current: "wp (current_contents view (fst (resolve path)) display staged) Q s'"
    if "good s'" "path \<in> names" "fst (resolve path) \<in> known s'"
      "\<And>t. good t \<Longrightarrow> Q (Inr (overlay files staged (fst (resolve path)))) t" for path display Q s'
  proof (cases "staged (fst (resolve path))")
    case None
    let ?key = "fst (resolve path)"
    have "Q (case files ?key of None \<Rightarrow> Inr None | Some bytes \<Rightarrow>
        if from_utf8 bytes = None then Inl (PatchMessage (not_valid_utf8 display)) else Inr (Some bytes)) t" if "good t" for t
    proof -
      have "from_utf8 bytes \<noteq> None" if "files ?key = Some bytes" for bytes
        using utf8 that \<open>path \<in> names\<close> by (auto simp: text_files_def)
      with None \<open>good t \<Longrightarrow> Q (Inr (overlay files staged ?key)) t\<close> [OF \<open>good t\<close>] show ?thesis
        by (auto simp: overlay_def split: option.splits)
    qed
    then show ?thesis using law [OF that(1), THEN conjunct2, THEN conjunct2, THEN conjunct2, rule_format, OF that(3), of display]
      unfolding current_contents_def None option.case wp_bind wp_return by (elim wp_mono) simp
  qed (use that in \<open>simp add: current_contents_def overlay_def\<close>)
  show ?thesis
  proof (cases h)
    case (AddFile path lines)
    then show ?thesis using assms(2) names
      by (auto simp: Let_def split_beta intro!: resolves present)
  next
    case (DeleteFile path)
    then show ?thesis using assms(2) names
      by (auto simp: Let_def split_beta intro!: resolves current split: option.splits)
  next
    case (UpdateFile path moveto groups)
    show ?thesis
    proof (cases "overlay files staged (fst (resolve path))")
      case None
      then show ?thesis using UpdateFile assms(2) names
        by (auto simp: Let_def split_beta intro!: resolves current)
    next
      case (Some bytes)
      show ?thesis
      proof (cases "apply_groups bytes groups (snd (resolve path))")
        case (Inl e)
        then obtain m where "e = PatchMessage m" using apply_groups_message by blast
        then show ?thesis using UpdateFile Some Inl assms(2) names
          by (auto simp: Let_def split_beta intro!: resolves current)
      next
        case (Inr contents)
        then show ?thesis using UpdateFile Some assms(2) names
          by (cases moveto) (auto simp: Let_def split_beta intro!: resolves current present)
      qed
    qed
  qed
qed

lemma run_ops_of_hunks:
  assumes view: "view_shows view good known names resolve files" and utf8: "text_files names resolve files"
    and "\<forall>h \<in> set hunks. hunk_names h \<subseteq> names" "good s" "run_ops files ops = Some (overlay files staged)"
    and "\<forall>op \<in> set ops. op_keys op \<subseteq> fst ` resolve ` names"
  shows "wp (plan_from view staged ops hunks) (\<lambda>r t. good t \<and>
     (case patch_files resolve (overlay files staged) hunks of
        None \<Rightarrow> \<exists>m. r = Inl (PatchMessage m)
      | Some files' \<Rightarrow> \<exists>ops'. r = Inr ops' \<and> run_ops files ops' = Some files' \<and>
          map success_line ops' = map success_line ops @ map (hunk_line resolve) hunks \<and>
          (\<forall>op \<in> set ops'. op_keys op \<subseteq> fst ` resolve ` names))) s"
  using assms(3-)
proof (induction hunks arbitrary: s staged ops)
  case (Cons h hunks)
  let ?P = "\<lambda>r t. good t \<and>
     (case patch_files resolve (overlay files staged) (h # hunks) of
        None \<Rightarrow> \<exists>m. r = Inl (PatchMessage m)
      | Some files' \<Rightarrow> \<exists>ops'. r = Inr ops' \<and> run_ops files ops' = Some files' \<and>
          map success_line ops' = map success_line ops @ map (hunk_line resolve) (h # hunks) \<and>
          (\<forall>op \<in> set ops'. op_keys op \<subseteq> fst ` resolve ` names))"
  have go: "wp (plan_hunk view staged h) (\<lambda>r. wp (case r of Inl e \<Rightarrow> ret (Inl e)
        | Inr (op, staged') \<Rightarrow> plan_from view staged' (ops @ [op]) hunks) ?P) t" if "good t" for t
  proof (rule wp_mono [OF run_op_of_hunk [OF view that utf8, of h staged]], goal_cases)
    case 1
    then show ?case using Cons.prems(1) by simp
  next
    case (2 r u)
    show ?case
    proof (cases "patch_hunk resolve (overlay files staged) h")
      case None
      with 2 show ?thesis by auto
    next
      case (Some files')
      with 2 obtain op staged' where r: "r = Inr (op, staged')" "run_op (overlay files staged) op = Some files'"
        "overlay files staged' = files'" "success_line op = hunk_line resolve h" "op_keys op \<subseteq> fst ` resolve ` names" by auto
      have "run_ops files (ops @ [op]) = Some (overlay files staged')"
        using Cons.prems(3) r by (simp add: run_ops_append)
      note IH = Cons.IH [OF _ _ this, of u]
      have lines: "map success_line (ops @ [op]) @ map (hunk_line resolve) hunks =
          map success_line ops @ map (hunk_line resolve) (h # hunks)" using r(4) by simp
      have "wp (plan_from view staged' (ops @ [op]) hunks) ?P u"
        using IH [unfolded lines] 2 r Some Cons.prems(1,4) by simp
      then show ?thesis by (simp add: r(1))
    qed
  qed
  have cancelled: "wp (fv_cancelled view) (\<lambda>r t. \<not> r \<and> good t) s"
    using view Cons.prems(2) by (simp add: view_shows_def)
  show ?case unfolding plan_from.simps wp_bind
    using cancelled by (rule wp_mono) (use go in simp)
qed simp

theorem plan_applies:
  assumes "view_shows view good known names resolve files" "text_files names resolve files"
    "\<forall>h \<in> set hunks. hunk_names h \<subseteq> names" "good s"
  shows "wp (plan_patch view hunks) (\<lambda>r t. good t \<and>
     (case patch_files resolve files hunks of
        None \<Rightarrow> \<exists>m. r = Inl (PatchMessage m)
      | Some files' \<Rightarrow> \<exists>ops. r = Inr ops \<and> run_ops files ops = Some files' \<and>
          map success_line ops = map (hunk_line resolve) hunks \<and> (\<forall>op \<in> set ops. op_keys op \<subseteq> fst ` resolve ` names))) s"
  unfolding plan_patch_def
  using run_ops_of_hunks [OF assms, of "[]" Map.empty] by (simp cong: option.case_cong)

section \<open>A patch on a map of files\<close>

text \<open>
  The plainest view: paths are keys, and nothing is ever cancelled. Planning and coalescing a patch over
  it are together the patch applied hunk by hunk: the changes lead to the same files, and a patch that
  cannot be applied is refused with a message before anything changes.
\<close>

definition map_view :: "(ustring \<rightharpoonup> byte list, ustring) files_view" where
  "map_view = \<lparr>fv_cancelled = ret False, fv_resolve = (\<lambda>path. ret (Inr (path, path))),
     fv_exists = (\<lambda>key. gets (\<lambda>files. files key \<noteq> None)), fv_read = (\<lambda>key display. gets (\<lambda>files. Inr (files key)))\<rparr>"

lemma map_view_shows: "view_shows map_view (\<lambda>s. s = files) (\<lambda>_. UNIV) UNIV (\<lambda>path. (path, path)) files"
  by (simp add: view_shows_def map_view_def)

theorem patch_on_a_map:
  assumes "text_files UNIV (\<lambda>path. (path, path)) files"
    and "run_state (plan_patch map_view hunks) files = (r, files1)"
  shows "files1 = files \<and>
    (case patch_files (\<lambda>path. (path, path)) files hunks of
       None \<Rightarrow> \<exists>m. r = Inl (PatchMessage m)
     | Some files' \<Rightarrow> \<exists>ops. r = Inr ops \<and> distinct (map change_key (coalesce ops)) \<and>
         run_changes files (coalesce ops) = Some files')"
proof -
  have "wp (plan_patch map_view hunks) (\<lambda>r t. t = files \<and>
     (case patch_files (\<lambda>path. (path, path)) files hunks of
        None \<Rightarrow> \<exists>m. r = Inl (PatchMessage m)
      | Some files' \<Rightarrow> \<exists>ops. r = Inr ops \<and> run_ops files ops = Some files')) files"
    by (rule wp_mono [OF plan_applies [OF map_view_shows assms(1)]]) (auto split: option.splits)
  from wp_run [OF this assms(2)] show ?thesis
    using coalesce_runs by (auto split: option.splits)
qed

end
