(* ===== verification/PatchCall.thy ===== *)
theory PatchCall
  imports PatchPlan EditCall
begin

text \<open>
  An \<open>apply_patch\<close> call as the component runs it, \<open>crates/p1-tool-patch/logic/src/execute.rs\<close>, and the
  inputs and descriptions of \<open>lib.rs\<close>. The imports of the component are the record \<open>patch_host\<close>: operations
  of the host on its own state \<open>'w\<close>, with \<open>'m\<close> the held write gate. The read of a file takes fuel, as
  that of \<open>edit\<close> does.
\<close>

section \<open>Inputs\<close>

definition patch_name :: ustring where "patch_name = lit ''apply_patch''"

text \<open>\<open>function_input\<close> is how serde reads \<open>{"patch": ...}\<close>: its error text, or the patch.\<close>

definition patch_text :: "(ustring \<Rightarrow> ustring + ustring) \<Rightarrow> ustring \<Rightarrow> bool \<Rightarrow> call_input \<Rightarrow> ustring + ustring" where
  "patch_text function_input tool freeform input =
     (case input of
        TextInput raw \<Rightarrow>
          if freeform then Inr raw
          else Inl (invalid_input tool (lit ''expected a JSON object input, got freeform text''))
      | JsonInput raw \<Rightarrow>
          if freeform then Inl (invalid_input tool (lit ''expected freeform text input, got a JSON object''))
          else (case function_input raw of Inl e \<Rightarrow> Inl (invalid_input tool e) | Inr s \<Rightarrow> Inr s))"

section \<open>Descriptions\<close>

record patch_description =
  pd_target :: "ustring option"
  pd_destructive :: bool

definition describe_patch ::
  "(nat \<Rightarrow> bool) \<Rightarrow> (ustring \<Rightarrow> ustring + ustring) \<Rightarrow> bool \<Rightarrow> call_input \<Rightarrow> (ustring \<Rightarrow> bool) \<Rightarrow> patch_description"
where
  "describe_patch printable function_input freeform input escapes =
     (let hunks = (case patch_text function_input patch_name freeform input of
          Inl _ \<Rightarrow> None
        | Inr s \<Rightarrow> (case parse_patch printable s of Inl _ \<Rightarrow> None | Inr hunks \<Rightarrow> Some hunks))
      in \<lparr>pd_target = (case map_option hunk_paths hunks of
             None \<Rightarrow> None
           | Some [] \<Rightarrow> None
           | Some [only] \<Rightarrow> Some only
           | Some paths \<Rightarrow> Some (dec (length paths) @ lit '' files'')),
          pd_destructive = (case hunks of None \<Rightarrow> False | Some hunks \<Rightarrow> patch_is_destructive hunks escapes)\<rparr>)"

record described_file =
  df_path :: ustring
  df_kind :: char
  df_added :: nat
  df_removed :: "nat option"

definition describe_line :: "described_file list \<Rightarrow> ustring \<Rightarrow> described_file list" where
  "describe_line files line =
     (case strip_prefix (lit ''*** Add File: '') line of
        Some path \<Rightarrow> files @ [\<lparr>df_path = path, df_kind = CHR ''A'', df_added = 0, df_removed = Some 0\<rparr>]
      | None \<Rightarrow>
          (case strip_prefix (lit ''*** Delete File: '') line of
             Some path \<Rightarrow> files @ [\<lparr>df_path = path, df_kind = CHR ''D'', df_added = 0, df_removed = None\<rparr>]
           | None \<Rightarrow>
               (case strip_prefix (lit ''*** Update File: '') line of
                  Some path \<Rightarrow> files @ [\<lparr>df_path = path, df_kind = CHR ''M'', df_added = 0, df_removed = Some 0\<rparr>]
                | None \<Rightarrow>
                    if starts_with (lit ''*** Move to: '') line \<or> starts_with (lit ''*** End of File'') line \<or>
                       starts_with (lit ''@@'') line \<or> starts_with begin_patch_line line \<or> starts_with end_patch_line line
                    then files
                    else if files = [] then files
                    else
                      (let f = last files;
                           f' = (if df_kind f = CHR ''A'' then f\<lparr>df_added := df_added f + 1\<rparr>
                                 else if df_kind f = CHR ''M'' \<and> starts_with [43] line then f\<lparr>df_added := df_added f + 1\<rparr>
                                 else if df_kind f = CHR ''M'' \<and> starts_with [45] line
                                 then f\<lparr>df_removed := Some (case df_removed f of None \<Rightarrow> 1 | Some n \<Rightarrow> n + 1)\<rparr>
                                 else f)
                       in butlast files @ [f']))))"

definition describe_patch_files :: "ustring \<Rightarrow> described_file list" where
  "describe_patch_files s = foldl describe_line [] (str_lines (strip_wrapper s))"

record patch_summary =
  pa_summary :: ustring
  pa_files :: "ustring list option"

definition plain_result :: "ustring \<Rightarrow> patch_summary" where
  "plain_result content = \<lparr>pa_summary = first_line content, pa_files = None\<rparr>"

definition minus_sign :: ustring where "minus_sign = [32, 0x2212]"

definition file_facts :: "described_file \<Rightarrow> ustring" where
  "file_facts f = df_path f @ [9] @
     (if df_kind f = CHR ''D'' then lit ''D''
      else case df_removed f of
        Some removed \<Rightarrow> lit ''+'' @ dec (df_added f) @ minus_sign @ dec removed
      | None \<Rightarrow> lit ''+'' @ dec (df_added f))"

definition describe_patch_result ::
  "(ustring \<Rightarrow> ustring + ustring) \<Rightarrow> bool \<Rightarrow> call_input \<Rightarrow> bool \<Rightarrow> ustring \<Rightarrow> patch_summary"
where
  "describe_patch_result function_input freeform input succeeded content =
     (if \<not> succeeded then plain_result content
      else case patch_text function_input patch_name freeform input of
        Inl _ \<Rightarrow> plain_result content
      | Inr s \<Rightarrow>
          (let files = describe_patch_files s;
               added = sum_list (map df_added files);
               counts = map df_removed files;
               removed = (if None \<in> set counts then None else Some (sum_list (map the counts)));
               ending = [32, 0xB7, 32] @ dec (length files) @ lit '' files''
           in \<lparr>pa_summary = (case removed of
                  Some n \<Rightarrow> lit ''+'' @ dec added @ minus_sign @ dec n @ ending
                | None \<Rightarrow> lit ''+'' @ dec added @ ending),
               pa_files = Some (map file_facts files)\<rparr>))"

section \<open>The imports\<close>

record ('w, 'm) patch_host =
  ph_cancelled :: "('w, bool) state"
  ph_stat :: "ustring \<Rightarrow> ('w, fs_error + entry) state"
  ph_read :: "ustring \<Rightarrow> nat \<Rightarrow> nat \<Rightarrow> ('w, fs_error + byte list) state"
  ph_begin :: "('w, 'm) state"
  ph_write :: "'m \<Rightarrow> ustring \<Rightarrow> byte list \<Rightarrow> ('w, fs_error + unit) state"
  ph_create :: "'m \<Rightarrow> ustring \<Rightarrow> byte list \<Rightarrow> ('w, fs_error + unit) state"
  ph_remove :: "'m \<Rightarrow> ustring \<Rightarrow> ('w, fs_error + unit) state"
  ph_drop :: "'m \<Rightarrow> ('w, unit) state"

datatype patch_outcome = PatchOk ustring | PatchError ustring | PatchStopped | PatchUnfinished

section \<open>Paths by their spelling\<close>

definition display_of :: "ustring list \<Rightarrow> ustring" where
  "display_of parts = str_replace [92] [47] (join_with [47] parts)"

fun relative_parts :: "ustring list \<Rightarrow> ustring list \<Rightarrow> ustring list option" where
  "relative_parts parts [] = Some parts"
| "relative_parts parts (part # rest) =
     (if part = [] \<or> part = lit ''.'' then relative_parts parts rest
      else if part = lit ''..'' then (if parts = [] then None else relative_parts (butlast parts) rest)
      else relative_parts (parts @ [part]) rest)"

definition relative_display :: "ustring \<Rightarrow> ustring option" where
  "relative_display request =
     (if starts_with [47] request then None else map_option display_of (relative_parts [] (split_on 47 request)))"

definition lexically_confined :: "ustring \<Rightarrow> bool" where
  "lexically_confined path \<longleftrightarrow> relative_display path \<noteq> None"

definition normalized_parts :: "ustring \<Rightarrow> bool \<Rightarrow> ustring list" where
  "normalized_parts request absolute =
     foldl (\<lambda>parts part.
        if part = [] \<or> part = lit ''.'' then parts
        else if part = lit ''..'' then
          (if parts \<noteq> [] \<and> last parts \<noteq> lit ''..'' then butlast parts
           else if \<not> absolute then parts @ [lit ''..''] else parts)
        else parts @ [part]) [] (split_on 47 request)"

text \<open>The shortest prefix that the host places inside the workspace is its root.\<close>

fun display_from ::
  "('w, 'm) patch_host \<Rightarrow> bool \<Rightarrow> ustring list \<Rightarrow> nat list \<Rightarrow> ('w, patch_failure + ustring) state"
where
  "display_from host absolute parts [] = ret (Inr (display_of parts))"
| "display_from host absolute parts (at # splits) =
     do {
       r \<leftarrow> ph_stat host ((if absolute then [47] else []) @ join_with [47] (take at parts));
       case r of
         Inr e \<Rightarrow> ret (Inr (display_of ((if en_path e = [] then [] else [en_path e]) @ drop at parts)))
       | Inl FsCancelled \<Rightarrow> ret (Inl PatchCancelled)
       | Inl _ \<Rightarrow> display_from host absolute parts splits
     }"

definition new_file_display :: "('w, 'm) patch_host \<Rightarrow> ustring \<Rightarrow> ('w, patch_failure + ustring) state" where
  "new_file_display host request =
     (case relative_display request of
        Some display \<Rightarrow> ret (Inr display)
      | None \<Rightarrow>
          (let absolute = starts_with [47] request; parts = normalized_parts request absolute in
           display_from host absolute parts [(if absolute then 0 else 1) ..< length parts + 1]))"

section \<open>The workspace as planning sees it (\<open>HostFiles\<close>)\<close>

datatype found = FoundFile | FoundNotFile | FoundAbsent | FoundUnreadable ustring

text \<open>The host, what \<open>stat\<close> said of each key, and the absent keys by their last component.\<close>

type_synonym 'w files_state = "'w \<times> (ustring \<rightharpoonup> found) \<times> (ustring \<rightharpoonup> ustring list)"

definition on_host :: "('w, 'a) state \<Rightarrow> ('w files_state, 'a) state" where
  "on_host m = State (\<lambda>(w, found, absent). case run_state m w of (r, w') \<Rightarrow> (r, (w', found, absent)))"

fun canonical_at :: "('w, 'm) patch_host \<Rightarrow> ustring \<Rightarrow> nat list \<Rightarrow> ('w, patch_failure + ustring) state" where
  "canonical_at host display [] = ret (Inr display)"
| "canonical_at host display (slash # slashes) =
     do {
       r \<leftarrow> ph_stat host (take slash display);
       case r of
         Inr e \<Rightarrow>
           ret (Inr (if 0xFFFD \<in> set (en_path e) then display
                     else if en_path e = [] then drop (slash + 1) display
                     else en_path e @ drop slash display))
       | Inl NotFound \<Rightarrow> canonical_at host display slashes
       | Inl FsCancelled \<Rightarrow> ret (Inl PatchCancelled)
       | Inl _ \<Rightarrow> ret (Inr display)
     }"

definition canonical_absent :: "('w, 'm) patch_host \<Rightarrow> ustring \<Rightarrow> ('w, patch_failure + ustring) state" where
  "canonical_absent host display =
     canonical_at host display (rev (List.filter (\<lambda>i. display ! i = 47) [0..<length display]))"

text \<open>The earlier key that names the same absent file, if one does.\<close>

fun same_absent ::
  "('w, 'm) patch_host \<Rightarrow> ustring \<Rightarrow> ustring list \<Rightarrow> ('w, patch_failure + ustring option) state"
where
  "same_absent host canonical [] = ret (Inr None)"
| "same_absent host canonical (rival # rivals) =
     do {
       r \<leftarrow> canonical_absent host rival;
       case r of
         Inl e \<Rightarrow> ret (Inl e)
       | Inr c \<Rightarrow> if c = canonical then ret (Inr (Some rival)) else same_absent host canonical rivals
     }"

definition rival_of ::
  "('w, 'm) patch_host \<Rightarrow> ustring \<Rightarrow> ustring list \<Rightarrow> ('w, patch_failure + ustring option) state"
where
  "rival_of host display rivals =
     (if rivals = [] then ret (Inr None)
      else do {
        r \<leftarrow> canonical_absent host display;
        case r of Inl e \<Rightarrow> ret (Inl e) | Inr canonical \<Rightarrow> same_absent host canonical rivals
      })"

definition absent_key :: "('w, 'm) patch_host \<Rightarrow> ustring \<Rightarrow> ('w files_state, patch_failure + ustring) state" where
  "absent_key host display =
     do {
       let leaf = last (split_on 47 display);
       (w, found, absent) \<leftarrow> State_Monad.get;
       let known = (case absent leaf of None \<Rightarrow> [] | Some keys \<Rightarrow> keys);
       r \<leftarrow> on_host (rival_of host display (List.filter (\<lambda>key. key \<noteq> display) known));
       case r of
         Inl e \<Rightarrow> ret (Inl e)
       | Inr (Some rival) \<Rightarrow> ret (Inr rival)
       | Inr None \<Rightarrow> do {
           _ \<leftarrow> modify (\<lambda>(w, found, absent).
             (w, found, absent(leaf \<mapsto> (if display \<in> set known then known else known @ [display]))));
           ret (Inr display)
         }
     }"

definition stat_of :: "('w, 'm) patch_host \<Rightarrow> ustring \<Rightarrow> ('w, patch_failure + ustring \<times> found) state" where
  "stat_of host path =
     do {
       r \<leftarrow> ph_stat host path;
       case r of
         Inr e \<Rightarrow> ret (Inr (en_path e, if en_kind e = FileEntry then FoundFile else FoundNotFile))
       | Inl OutsideWorkspace \<Rightarrow> ret (Inl (PatchMessage (escapes_workspace path)))
       | Inl FsCancelled \<Rightarrow> ret (Inl PatchCancelled)
       | Inl e \<Rightarrow> do {
           d \<leftarrow> new_file_display host path;
           ret (case d of
                  Inl f \<Rightarrow> Inl f
                | Inr display \<Rightarrow> Inr (display,
                    case e of
                      NotFound \<Rightarrow> FoundAbsent
                    | WrongKind \<Rightarrow> FoundUnreadable (lit ''Not a directory (os error 20)'')
                    | Io message \<Rightarrow> FoundUnreadable message
                    | InvalidPattern message \<Rightarrow> FoundUnreadable message
                    | _ \<Rightarrow> FoundUnreadable (lit ''already exists'')))
         }
     }"

definition resolve_path ::
  "('w, 'm) patch_host \<Rightarrow> ustring \<Rightarrow> ('w files_state, patch_failure + ustring \<times> ustring) state"
where
  "resolve_path host path =
     do {
       r \<leftarrow> on_host (stat_of host path);
       case r of
         Inl e \<Rightarrow> ret (Inl e)
       | Inr (display, what) \<Rightarrow> do {
           k \<leftarrow> (if what = FoundAbsent then absent_key host display else ret (Inr display));
           case k of
             Inl e \<Rightarrow> ret (Inl e)
           | Inr key \<Rightarrow> do {
               _ \<leftarrow> modify (\<lambda>(w, found, absent). (w, found(key \<mapsto> what), absent));
               ret (Inr (key, display))
             }
         }
     }"

definition key_exists :: "ustring \<Rightarrow> ('w files_state, bool) state" where
  "key_exists key = gets (\<lambda>(w, found, absent). found key \<in> {Some FoundFile, Some FoundNotFile})"

fun read_windows :: "nat \<Rightarrow> ('w, 'm) patch_host \<Rightarrow> ustring \<Rightarrow> byte list \<Rightarrow> ('w, (fs_error + byte list) option) state" where
  "read_windows 0 host request bytes = ret None"
| "read_windows (Suc fuel) host request bytes =
     do {
       r \<leftarrow> ph_read host request (length bytes) read_window;
       case r of
         Inl e \<Rightarrow> ret (Some (Inl e))
       | Inr chunk \<Rightarrow>
           if length chunk < read_window then ret (Some (Inr (bytes @ chunk)))
           else do {
             cancelled \<leftarrow> ph_cancelled host;
             if cancelled then ret (Some (Inl FsCancelled))
             else read_windows fuel host request (bytes @ chunk)
           }
     }"

definition read_found :: "ustring \<Rightarrow> ustring \<Rightarrow> (fs_error + byte list) option \<Rightarrow> patch_failure + byte list option" where
  "read_found key display r =
     (case r of
        None \<Rightarrow> Inl PatchOutOfFuel
      | Some (Inr bytes) \<Rightarrow> Inr (Some bytes)
      | Some (Inl e) \<Rightarrow>
          (case e of
             NotFound \<Rightarrow> Inr None
           | FsCancelled \<Rightarrow> Inl PatchCancelled
           | OutsideWorkspace \<Rightarrow> Inl (PatchMessage (escapes_workspace key))
           | WrongKind \<Rightarrow> Inl (PatchMessage (could_not_be_read display (lit ''Is a directory (os error 21)'')))
           | Io message \<Rightarrow> Inl (PatchMessage (could_not_be_read display message))
           | InvalidPattern message \<Rightarrow> Inl (PatchMessage (could_not_be_read display message))
           | AlreadyExists \<Rightarrow> Inl (PatchMessage (could_not_be_read display (lit ''already exists'')))))"

definition read_key ::
  "nat \<Rightarrow> ('w, 'm) patch_host \<Rightarrow> ustring \<Rightarrow> ustring \<Rightarrow> ('w files_state, patch_failure + byte list option) state"
where
  "read_key fuel host key display =
     do {
       (w, found, absent) \<leftarrow> State_Monad.get;
       case found key of
         None \<Rightarrow> ret (Inr None)
       | Some FoundAbsent \<Rightarrow> ret (Inr None)
       | Some FoundNotFile \<Rightarrow> ret (Inl (PatchMessage (not_a_regular_file display)))
       | Some (FoundUnreadable reason) \<Rightarrow> ret (Inl (PatchMessage (could_not_be_read display reason)))
       | Some FoundFile \<Rightarrow> do {
           r \<leftarrow> on_host (read_windows fuel host key []);
           ret (read_found key display r)
         }
     }"

definition host_files :: "nat \<Rightarrow> ('w, 'm) patch_host \<Rightarrow> ('w files_state, ustring) files_view" where
  "host_files fuel host =
     \<lparr>fv_cancelled = on_host (ph_cancelled host), fv_resolve = resolve_path host, fv_exists = key_exists,
      fv_read = read_key fuel host\<rparr>"

section \<open>The call\<close>

definition wrong_kind_reason :: "('w, 'm) patch_host \<Rightarrow> ustring \<Rightarrow> ('w, ustring) state" where
  "wrong_kind_reason host display =
     do {
       r \<leftarrow> ph_stat host display;
       if \<exists>e. r = Inr e \<and> en_kind e = DirectoryEntry then ret (lit ''Is a directory (os error 21)'')
       else
         (let slashes = List.filter (\<lambda>i. display ! i = 47) [0..<length display] in
          if slashes = [] then ret (lit ''Not a directory (os error 20)'')
          else do {
            p \<leftarrow> ph_stat host (take (last slashes) display);
            ret (if \<exists>e. p = Inr e \<and> en_kind e = FileEntry then lit ''File exists (os error 17)''
                 else lit ''Not a directory (os error 20)'')
          })
     }"

definition mutation_failure ::
  "('w, 'm) patch_host \<Rightarrow> fs_error \<Rightarrow> ustring \<Rightarrow> (ustring \<Rightarrow> ustring \<Rightarrow> ustring) \<Rightarrow> ('w, patch_failure) state"
where
  "mutation_failure host error display wrap =
     (case error of
        FsCancelled \<Rightarrow> ret PatchCancelled
      | Io message \<Rightarrow> ret (PatchMessage message)
      | InvalidPattern message \<Rightarrow> ret (PatchMessage message)
      | AlreadyExists \<Rightarrow> ret (PatchMessage (already_exists display))
      | NotFound \<Rightarrow> ret (PatchMessage (patch_does_not_exist display))
      | OutsideWorkspace \<Rightarrow> ret (PatchMessage (escapes_workspace display))
      | WrongKind \<Rightarrow> do {
          reason \<leftarrow> wrong_kind_reason host display;
          ret (PatchMessage (wrap display reason))
        })"

definition apply_change ::
  "('w, 'm) patch_host \<Rightarrow> 'm \<Rightarrow> ustring patch_change \<Rightarrow> ('w, patch_failure + unit) state"
where
  "apply_change host gate change =
     do {
       (r, display, wrap) \<leftarrow> (case change of
           CreateFile path display contents \<Rightarrow> do {
             r \<leftarrow> ph_create host gate path contents;
             ret (r, display, patch_failed_to_write)
           }
         | WriteFile path display contents \<Rightarrow> do {
             r \<leftarrow> ph_write host gate path contents;
             ret (r, display, patch_failed_to_write)
           }
         | RemoveFile path display \<Rightarrow> do {
             r \<leftarrow> ph_remove host gate path;
             ret (r, display, failed_to_delete)
           });
       case r of
         Inr _ \<Rightarrow> ret (Inr ())
       | Inl e \<Rightarrow> do {
           f \<leftarrow> mutation_failure host e display wrap;
           ret (Inl f)
         }
     }"

fun apply_changes ::
  "('w, 'm) patch_host \<Rightarrow> 'm \<Rightarrow> ustring patch_change list \<Rightarrow> ('w, patch_failure + unit) state"
where
  "apply_changes host gate [] = ret (Inr ())"
| "apply_changes host gate (change # changes) =
     do {
       cancelled \<leftarrow> ph_cancelled host;
       if cancelled then ret (Inl PatchCancelled)
       else do {
         r \<leftarrow> apply_change host gate change;
         case r of Inl e \<Rightarrow> ret (Inl e) | Inr _ \<Rightarrow> apply_changes host gate changes
       }
     }"

text \<open>The first operation on each path, with whether it creates it.\<close>

fun first_touches :: "'k list \<Rightarrow> 'k patch_op list \<Rightarrow> ('k \<times> ustring) list" where
  "first_touches seen [] = []"
| "first_touches seen (op # ops) =
     (case op of
        OpAdd path display contents \<Rightarrow>
          (if path \<in> set seen then [] else [(path, display)]) @ first_touches (path # seen) ops
      | OpModify path display contents \<Rightarrow> first_touches (path # seen) ops
      | OpDelete path display \<Rightarrow> first_touches (path # seen) ops
      | OpMove path display target target_display contents \<Rightarrow>
          (if target \<in> set seen then [] else [(target, target_display)]) @ first_touches (path # target # seen) ops)"

definition created_and_removed :: "'k patch_op list \<Rightarrow> 'k patch_change list \<Rightarrow> ('k \<times> ustring) list" where
  "created_and_removed ops changes =
     List.filter (\<lambda>(path, display). path \<notin> change_key ` set changes) (first_touches [] ops)"

definition check_absent :: "('w, 'm) patch_host \<Rightarrow> ustring \<Rightarrow> ustring \<Rightarrow> ('w, patch_failure + unit) state" where
  "check_absent host path display =
     do {
       r \<leftarrow> ph_stat host path;
       ret (case r of
              Inr _ \<Rightarrow> Inl (PatchMessage (already_exists display))
            | Inl FsCancelled \<Rightarrow> Inl PatchCancelled
            | Inl OutsideWorkspace \<Rightarrow> Inl (PatchMessage (escapes_workspace display))
            | Inl _ \<Rightarrow> Inr ())
     }"

fun check_absents :: "('w, 'm) patch_host \<Rightarrow> (ustring \<times> ustring) list \<Rightarrow> ('w, patch_failure + unit) state" where
  "check_absents host [] = ret (Inr ())"
| "check_absents host ((path, display) # paths) =
     do {
       r \<leftarrow> check_absent host path display;
       case r of Inl e \<Rightarrow> ret (Inl e) | Inr _ \<Rightarrow> check_absents host paths
     }"

text \<open>Under the gate, which is released whatever happens.\<close>

definition change_workspace ::
  "('w, 'm) patch_host \<Rightarrow> (ustring \<times> ustring) list \<Rightarrow> ustring patch_change list \<Rightarrow> ('w, patch_failure + unit) state"
where
  "change_workspace host transient changes =
     do {
       gate \<leftarrow> ph_begin host;
       r \<leftarrow> check_absents host transient;
       r' \<leftarrow> (case r of Inl e \<Rightarrow> ret (Inl e) | Inr _ \<Rightarrow> apply_changes host gate changes);
       _ \<leftarrow> ph_drop host gate;
       ret r'
     }"

text \<open>The plan, over a fresh view of the host.\<close>

definition plan_over :: "nat \<Rightarrow> ('w, 'm) patch_host \<Rightarrow> hunk list \<Rightarrow> ('w, patch_failure + ustring patch_op list) state" where
  "plan_over fuel host hunks =
     State (\<lambda>w. case run_state (plan_patch (host_files fuel host) hunks) (w, Map.empty, Map.empty) of
       (r, (w', found, absent)) \<Rightarrow> (r, w'))"

definition patch_run ::
  "nat \<Rightarrow> (nat \<Rightarrow> bool) \<Rightarrow> ('w, 'm) patch_host \<Rightarrow> ustring \<Rightarrow> ('w, patch_failure + ustring) state"
where
  "patch_run fuel printable host s =
     (case parse_patch printable s of
        Inl e \<Rightarrow> ret (Inl e)
      | Inr hunks \<Rightarrow> do {
          p \<leftarrow> plan_over fuel host hunks;
          case p of
            Inl e \<Rightarrow> ret (Inl e)
          | Inr ops \<Rightarrow>
              (let changes = coalesce ops in
               do {
                 cancelled \<leftarrow> ph_cancelled host;
                 if cancelled then ret (Inl PatchCancelled)
                 else do {
                   r \<leftarrow> change_workspace host (created_and_removed ops changes) changes;
                   ret (case r of Inl e \<Rightarrow> Inl e | Inr _ \<Rightarrow> Inr (success_output ops))
                 }
               })
        })"

definition patch_execute ::
  "nat \<Rightarrow> (nat \<Rightarrow> bool) \<Rightarrow> (ustring \<Rightarrow> ustring + ustring) \<Rightarrow> ('w, 'm) patch_host \<Rightarrow> ustring \<Rightarrow> bool \<Rightarrow> call_input \<Rightarrow>
   ('w, patch_outcome) state"
where
  "patch_execute fuel printable function_input host tool freeform input =
     do {
       cancelled \<leftarrow> ph_cancelled host;
       if cancelled then ret PatchStopped
       else
         (case patch_text function_input tool freeform input of
            Inl message \<Rightarrow> ret (PatchError message)
          | Inr s \<Rightarrow> do {
              r \<leftarrow> patch_run fuel printable host s;
              ret (case r of
                     Inr content \<Rightarrow> PatchOk (bound_output content 50000 2000)
                   | Inl PatchCancelled \<Rightarrow> PatchStopped
                   | Inl (PatchMessage message) \<Rightarrow> PatchError message
                   | Inl PatchOutOfFuel \<Rightarrow> PatchUnfinished)
            })
     }"

end
