(* ===== verification/PatchWorkspace.thy ===== *)
theory PatchWorkspace
  imports PatchPlanLaws PatchCall
begin

text \<open>
  An \<open>apply_patch\<close> call on a plain workspace, from the patch to the files: the plan over the host's
  files, the coalesced changes and the checks under the gate together do what applying the hunks one
  after the other to the map of files does.
\<close>

section \<open>Plain workspaces\<close>

text \<open>A path as the host spells it: components without \<open>.\<close>, \<open>..\<close> and backslashes.\<close>

definition plain_path :: "ustring \<Rightarrow> bool" where
  "plain_path path \<longleftrightarrow> 92 \<notin> set path \<and> (\<forall>part \<in> set (split_on 47 path). part \<notin> {[], lit ''.'', lit ''..''})"

definition parents :: "ustring \<Rightarrow> ustring set" where
  "parents path = {take i path |i. i < length path \<and> path ! i = 47}"

text \<open>A plain path that no file stands in the way of.\<close>

definition placed :: "(ustring \<rightharpoonup> byte list) \<Rightarrow> ustring \<Rightarrow> bool" where
  "placed files path \<longleftrightarrow> plain_path path \<and> parents path \<inter> dom files = {}"

definition entry_at :: "(ustring \<rightharpoonup> byte list) \<times> ustring set \<Rightarrow> ustring \<Rightarrow> fs_error + entry" where
  "entry_at tree path =
     (if fst tree path \<noteq> None then Inr \<lparr>en_path = path, en_kind = FileEntry\<rparr>
      else if path \<in> snd tree then Inr \<lparr>en_path = path, en_kind = DirectoryEntry\<rparr>
      else Inl NotFound)"

text \<open>
  The host's documented answers when nothing cancels, nothing else writes and no path has two spellings:
  \<open>tree\<close> gives the files and the directories of a state of the host. A \<open>create\<close> may make the parents of
  its path, and a \<open>remove\<close> no directory.
\<close>

definition plain_workspace :: "('w, 'm) patch_host \<Rightarrow> ('w \<Rightarrow> (ustring \<rightharpoonup> byte list) \<times> ustring set) \<Rightarrow> bool" where
  "plain_workspace host tree \<longleftrightarrow>
     (\<forall>w. wp (ph_cancelled host) (\<lambda>r t. \<not> r \<and> tree t = tree w) w) \<and>
     (\<forall>p w. placed (fst (tree w)) p \<longrightarrow>
        wp (ph_stat host p) (\<lambda>r t. tree t = tree w \<and> r = entry_at (tree w) p) w) \<and>
     (\<forall>p i n w bytes. fst (tree w) p = Some bytes \<longrightarrow>
        wp (ph_read host p i n) (\<lambda>r t. tree t = tree w \<and> r = Inr (take n (drop i bytes))) w) \<and>
     (\<forall>w. wp (ph_begin host) (\<lambda>r t. tree t = tree w) w) \<and>
     (\<forall>gate w. wp (ph_drop host gate) (\<lambda>r t. tree t = tree w) w) \<and>
     (\<forall>gate p bytes w. placed (fst (tree w)) p \<and> entry_at (tree w) p = Inl NotFound \<longrightarrow>
        wp (ph_create host gate p bytes) (\<lambda>r t. r = Inr () \<and> fst (tree t) = (fst (tree w))(p \<mapsto> bytes) \<and>
          snd (tree t) \<subseteq> snd (tree w) \<union> parents p) w) \<and>
     (\<forall>gate p bytes w. placed (fst (tree w)) p \<and> fst (tree w) p \<noteq> None \<longrightarrow>
        wp (ph_write host gate p bytes) (\<lambda>r t. r = Inr () \<and> tree t = ((fst (tree w))(p \<mapsto> bytes), snd (tree w))) w) \<and>
     (\<forall>gate p w. placed (fst (tree w)) p \<and> fst (tree w) p \<noteq> None \<longrightarrow>
        wp (ph_remove host gate p) (\<lambda>r t. r = Inr () \<and> tree t = ((fst (tree w))(p := None), snd (tree w))) w)"

lemma workspace_wp:
  assumes "plain_workspace host tree"
  shows "(\<And>t. tree t = tree w \<Longrightarrow> Q False t) \<Longrightarrow> wp (ph_cancelled host) Q w"
    and "placed (fst (tree w)) p \<Longrightarrow> (\<And>t. tree t = tree w \<Longrightarrow> R (entry_at (tree w) p) t) \<Longrightarrow> wp (ph_stat host p) R w"
    and "fst (tree w) p = Some bytes \<Longrightarrow> (\<And>t. tree t = tree w \<Longrightarrow> S (Inr (take n (drop i bytes))) t) \<Longrightarrow>
      wp (ph_read host p i n) S w"
    and "(\<And>g t. tree t = tree w \<Longrightarrow> B g t) \<Longrightarrow> wp (ph_begin host) B w"
    and "(\<And>t. tree t = tree w \<Longrightarrow> D () t) \<Longrightarrow> wp (ph_drop host gate) D w"
    and "placed (fst (tree w)) p \<Longrightarrow> entry_at (tree w) p = Inl NotFound \<Longrightarrow>
      (\<And>t. fst (tree t) = (fst (tree w))(p \<mapsto> bytes) \<Longrightarrow> snd (tree t) \<subseteq> snd (tree w) \<union> parents p \<Longrightarrow> C (Inr ()) t) \<Longrightarrow>
      wp (ph_create host gate p bytes) C w"
    and "placed (fst (tree w)) p \<Longrightarrow> fst (tree w) p \<noteq> None \<Longrightarrow>
      (\<And>t. tree t = ((fst (tree w))(p \<mapsto> bytes), snd (tree w)) \<Longrightarrow> C (Inr ()) t) \<Longrightarrow> wp (ph_write host gate p bytes) C w"
    and "placed (fst (tree w)) p \<Longrightarrow> fst (tree w) p \<noteq> None \<Longrightarrow>
      (\<And>t. tree t = ((fst (tree w))(p := None), snd (tree w)) \<Longrightarrow> C (Inr ()) t) \<Longrightarrow> wp (ph_remove host gate p) C w"
  using assms unfolding plain_workspace_def by (simp_all add: wp_def)

lemma wp_on_host [simp]: "wp (on_host m) Q (w, found, absent) = wp m (\<lambda>r w'. Q r (w', found, absent)) w"
  by (simp add: on_host_def wp_def case_prod_beta)

section \<open>Plain paths\<close>

lemma split_on_middle: "split_on d (p @ d # s) = split_on d p @ split_on d s"
  by (induction p) auto

lemma relative_parts_plain:
  "\<forall>part \<in> set rest. part \<notin> {[], lit ''.'', lit ''..''} \<Longrightarrow> relative_parts parts rest = Some (parts @ rest)"
  by (induction parts rest rule: relative_parts.induct) auto

lemma plain_path_display:
  assumes "plain_path path"
  shows "relative_display path = Some path"
proof -
  have "str_replace [92] [47] path = path"
  proof -
    have "concat (map (\<lambda>c. if c = 92 then [47] else [c]) s) = s" if "92 \<notin> set s" for s :: ustring
      using that by (induction s) auto
    with assms show ?thesis by (simp add: plain_path_def str_replace_char)
  qed
  moreover have "\<not> starts_with [47] path"
    using assms by (cases path) (auto simp: plain_path_def starts_with_def)
  ultimately show ?thesis
    using assms by (simp add: relative_display_def relative_parts_plain plain_path_def display_of_def)
qed

lemma parents_prefix: "parent \<in> parents path \<Longrightarrow> \<exists>rest. path = parent @ 47 # rest"
  using id_take_nth_drop by (fastforce simp: parents_def)

lemma plain_path_parent: "plain_path path \<Longrightarrow> parent \<in> parents path \<Longrightarrow> plain_path parent"
  using parents_prefix by (fastforce simp: plain_path_def split_on_middle)

lemma parents_parent: "parent \<in> parents path \<Longrightarrow> parents parent \<subseteq> parents path"
  unfolding parents_def by (auto simp: min_def)

lemma parent_shorter: "parent \<in> parents path \<Longrightarrow> parent \<noteq> path"
  using parents_prefix by fastforce

lemma placed_parent: "placed files path \<Longrightarrow> parent \<in> parents path \<Longrightarrow> placed files parent \<and> files parent = None"
  using plain_path_parent parents_parent unfolding placed_def by blast

lemma placed_nonempty: "placed files path \<Longrightarrow> path \<noteq> []"
  by (auto simp: placed_def plain_path_def)

section \<open>Keys of absent files\<close>

lemma wp_canonical_at:
  assumes host: "plain_workspace host tree" and "placed (fst (tree w)) display"
    and "\<forall>i \<in> set slashes. i < length display \<and> display ! i = 47"
    and "\<And>t. tree t = tree w \<Longrightarrow> Q (Inr display) t"
  shows "wp (canonical_at host display slashes) Q w"
  using assms(2-)
proof (induction slashes arbitrary: w)
  case (Cons slash slashes)
  have parent: "take slash display \<in> parents display" using Cons.prems(2) by (auto simp: parents_def)
  have at: "placed (fst (tree w)) (take slash display)" "fst (tree w) (take slash display) = None"
    using placed_parent [OF Cons.prems(1) parent] by simp_all
  have split: "take slash display \<noteq> []" "take slash display @ drop slash display = display"
    using placed_nonempty [OF at(1)] by simp_all
  have go: "wp (canonical_at host display slashes) Q t" if "tree t = tree w" for t
    by (rule Cons.IH) (use Cons.prems that in auto)
  show ?case
    unfolding canonical_at.simps wp_bind
    by (rule workspace_wp(2) [OF host at(1)]) (use split go at(2) Cons.prems(3) in \<open>auto simp: entry_at_def\<close>)
qed simp

lemma wp_canonical_absent:
  assumes "plain_workspace host tree" and "placed (fst (tree w)) display"
    and "\<And>t. tree t = tree w \<Longrightarrow> Q (Inr display) t"
  shows "wp (canonical_absent host display) Q w"
  unfolding canonical_absent_def by (rule wp_canonical_at [OF assms(1,2)]) (auto intro: assms(3))

lemma wp_same_absent:
  assumes host: "plain_workspace host tree"
    and "\<forall>rival \<in> set rivals. placed (fst (tree w)) rival \<and> rival \<noteq> display"
    and "\<And>t. tree t = tree w \<Longrightarrow> Q (Inr None) t"
  shows "wp (same_absent host display rivals) Q w"
  using assms(2,3)
proof (induction rivals arbitrary: w)
  case (Cons rival rivals)
  then show ?case
    by (auto intro!: wp_canonical_absent [OF host] Cons.IH)
qed simp

lemma wp_rival_of:
  assumes "plain_workspace host tree" and "placed (fst (tree w)) display"
    and "\<forall>rival \<in> set rivals. placed (fst (tree w)) rival \<and> rival \<noteq> display"
    and "\<And>t. tree t = tree w \<Longrightarrow> Q (Inr None) t"
  shows "wp (rival_of host display rivals) Q w"
  using assms(3,4)
  by (auto simp: rival_of_def intro!: wp_canonical_absent [OF assms(1,2)] wp_same_absent [OF assms(1)])

section \<open>The view of a plain workspace\<close>

text \<open>What planning has seen agrees with the files.\<close>

fun seen_ok ::
  "('w \<Rightarrow> (ustring \<rightharpoonup> byte list) \<times> ustring set) \<Rightarrow> (ustring \<rightharpoonup> byte list) \<times> ustring set \<Rightarrow> 'w files_state \<Rightarrow> bool"
where
  "seen_ok tree seen (w, found, absent) \<longleftrightarrow> tree w = seen \<and>
     (\<forall>key \<in> dom found. found key = Some (if fst seen key = None then FoundAbsent else FoundFile)) \<and>
     (\<forall>leaf keys. absent leaf = Some keys \<longrightarrow> (\<forall>key \<in> set keys. placed (fst seen) key))"

fun seen_keys :: "'w files_state \<Rightarrow> ustring set" where
  "seen_keys (w, found, absent) = dom found"

text \<open>A path a patch may name: no file stands in its way, and it is not a directory.\<close>

definition file_path :: "(ustring \<rightharpoonup> byte list) \<times> ustring set \<Rightarrow> ustring \<Rightarrow> bool" where
  "file_path seen path \<longleftrightarrow> placed (fst seen) path \<and> path \<notin> snd seen"

lemma wp_stat_of:
  assumes "plain_workspace host tree" and "file_path (tree w) path"
    and "\<And>t. tree t = tree w \<Longrightarrow> Q (Inr (path, if fst (tree w) path = None then FoundAbsent else FoundFile)) t"
  shows "wp (stat_of host path) Q w"
proof -
  have path: "placed (fst (tree w)) path" "path \<notin> snd (tree w)" "relative_display path = Some path"
    using assms(2) plain_path_display by (auto simp: file_path_def placed_def)
  show ?thesis
    unfolding stat_of_def wp_bind
    by (rule workspace_wp(2) [OF assms(1) path(1)])
      (use assms(3) path in \<open>auto simp: new_file_display_def entry_at_def\<close>)
qed

lemma wp_absent_key:
  assumes "plain_workspace host tree" and "placed (fst seen) display" and "seen_ok tree seen s"
    and "\<And>t. seen_ok tree seen t \<Longrightarrow> Q (Inr display) t"
  shows "wp (absent_key host display) Q s"
proof -
  obtain w found absent where s: "s = (w, found, absent)" by (cases s)
  let ?known = "case absent (last (split_on 47 display)) of None \<Rightarrow> [] | Some keys \<Rightarrow> keys"
  have seen: "tree w = seen" using assms(3) by (simp add: s)
  have known: "\<forall>key \<in> set ?known. placed (fst (tree w)) key"
    by (cases "absent (last (split_on 47 display))") (use assms(3) seen in \<open>auto simp: s\<close>)
  have stored: "Q (Inr display) (t, found, absent(last (split_on 47 display) \<mapsto>
      (if display \<in> set ?known then ?known else ?known @ [display])))" if "tree t = tree w" for t
    by (rule assms(4)) (use assms(2,3) known seen that in \<open>auto simp: s\<close>)
  have display: "placed (fst (tree w)) display" using assms(2) seen by simp
  show ?thesis
    unfolding absent_key_def s Let_def wp_bind wp_get prod.case wp_on_host
    by (rule wp_rival_of [OF assms(1) display]) (use known stored in \<open>auto\<close>)
qed

lemma wp_resolve_path:
  assumes "plain_workspace host tree" and "file_path seen path" and "seen_ok tree seen s"
  shows "wp (resolve_path host path) (\<lambda>r t. r = Inr (path, path) \<and> seen_ok tree seen t \<and> path \<in> seen_keys t) s"
proof -
  obtain w found absent where s: "s = (w, found, absent)" by (cases s)
  let ?what = "if fst (tree w) path = None then FoundAbsent else FoundFile"
  have seen: "tree w = seen" using assms(3) by (simp add: s)
  have path: "file_path (tree w) path" "placed (fst seen) path" using assms(2) seen by (simp_all add: file_path_def)
  have key: "wp (if ?what = FoundAbsent then absent_key host path else ret (Inr path)) Q (t, found, absent)"
    if "tree t = tree w" "\<And>u. seen_ok tree seen u \<Longrightarrow> Q (Inr path) u" for Q t
  proof -
    have "seen_ok tree seen (t, found, absent)" using assms(3) that(1) by (simp add: s)
    then show ?thesis
      using that(2) wp_absent_key [OF assms(1) path(2), of _ Q] by simp
  qed
  have stored: "seen_ok tree seen (case u of (w, found, absent) \<Rightarrow> (w, found(path \<mapsto> ?what), absent)) \<and>
      path \<in> seen_keys (case u of (w, found, absent) \<Rightarrow> (w, found(path \<mapsto> ?what), absent))"
    if "seen_ok tree seen u" for u
    using that seen by (cases u) auto
  show ?thesis
    unfolding resolve_path_def wp_bind s wp_on_host
    by (rule wp_stat_of [OF assms(1) path(1)], simp only: sum.case prod.case wp_bind, rule key) (use stored in auto)
qed

lemma wp_read_windows:
  assumes host: "plain_workspace host tree" and "fst (tree w) path = Some bytes"
    and "length bytes div read_window < fuel + i div read_window" "i mod read_window = 0" "i \<le> length bytes"
    and "\<And>t. tree t = tree w \<Longrightarrow> Q (Some (Inr bytes)) t"
  shows "wp (read_windows fuel host path (take i bytes)) Q w"
  using assms(2-)
proof (induction fuel arbitrary: w i)
  case 0
  then have "length bytes div read_window < i div read_window" by simp
  with 0(4) show ?case by (meson div_le_mono leD)
next
  case (Suc fuel)
  have window: "0 < read_window" by (simp add: read_window_def)
  have so_far: "take i bytes @ take read_window (drop i bytes) = take (i + read_window) bytes"
    by (simp add: take_add)
  show ?case
  proof (cases "length bytes - i < read_window")
    case True
    then have "take i bytes @ drop i bytes = bytes" "min (length bytes - i) read_window = length bytes - i" by auto
    with True Suc.prems show ?thesis
      unfolding read_windows.simps wp_bind
      by (intro workspace_wp(3) [OF host Suc.prems(1)]) (auto simp: min_def)
  next
    case False
    then have len: "length (take read_window (drop i bytes)) = read_window" by simp
    have more: "wp (read_windows fuel host path (take (i + read_window) bytes)) Q t" if "tree t = tree w" for t
    proof (rule Suc.IH)
      show "length bytes div read_window < fuel + (i + read_window) div read_window"
        using Suc.prems(2) window by (simp add: div_add_self2)
      show "(i + read_window) mod read_window = 0" using Suc.prems(3) by simp
      show "i + read_window \<le> length bytes" using False Suc.prems(4) by simp
    qed (use that Suc.prems in auto)
    have i: "min (length bytes) i = i" using Suc.prems(4) by simp
    show ?thesis
      unfolding read_windows.simps wp_bind
      by (rule workspace_wp(3) [OF host Suc.prems(1)])
        (use len more in \<open>auto simp: i so_far intro!: workspace_wp(1) [OF host]\<close>)
  qed
qed

definition readable :: "nat \<Rightarrow> (ustring \<rightharpoonup> byte list) \<Rightarrow> bool" where
  "readable fuel files \<longleftrightarrow> (\<forall>path bytes. files path = Some bytes \<longrightarrow> length bytes div read_window < fuel)"

lemma host_files_show:
  assumes host: "plain_workspace host tree" and "readable fuel (fst seen)" and names: "\<forall>path \<in> names. file_path seen path"
  shows "view_shows (host_files fuel host) (seen_ok tree seen) seen_keys names
    (\<lambda>path. (path, path)) (fst seen)"
  unfolding view_shows_def
proof (intro allI impI conjI ballI)
  fix s :: "'a files_state" assume s: "seen_ok tree seen s"
  obtain w found absent where [simp]: "s = (w, found, absent)" by (cases s)
  have w: "tree w = seen" using s by simp
  show "wp (fv_cancelled (host_files fuel host)) (\<lambda>r t. \<not> r \<and> seen_ok tree seen t) s"
    using s by (auto simp: host_files_def intro!: workspace_wp(1) [OF host])
  show "wp (fv_resolve (host_files fuel host) path)
      (\<lambda>r t. r = Inr (path, path) \<and> seen_ok tree seen t \<and> fst (path, path) \<in> seen_keys t) s"
    if "path \<in> names" for path
    using wp_resolve_path [OF host _ s, of path] that names by (simp add: host_files_def)
  show "wp (fv_exists (host_files fuel host) key) (\<lambda>r t. r = (fst seen key \<noteq> None) \<and> seen_ok tree seen t) s"
    if "key \<in> seen_keys s" for key
    using s that by (auto simp: host_files_def key_exists_def)
  show "wp (fv_read (host_files fuel host) key display) (\<lambda>r t. r = Inr (fst seen key) \<and> seen_ok tree seen t) s"
    if "key \<in> seen_keys s" for key display
  proof (cases "fst seen key")
    case None
    then have "found key = Some FoundAbsent" using s that by fastforce
    then show ?thesis using s None by (simp add: host_files_def read_key_def)
  next
    case (Some bytes)
    then have known: "found key = Some FoundFile" using s that by fastforce
    have all: "wp (read_windows fuel host key (take 0 bytes)) Q w"
      if "\<And>t. tree t = tree w \<Longrightarrow> Q (Some (Inr bytes)) t" for Q
      by (rule wp_read_windows [OF host]) (use Some w assms(2) that in \<open>auto simp: readable_def\<close>)
    show ?thesis
      using all s known Some by (simp add: host_files_def read_key_def read_found_def)
  qed
qed

section \<open>The changes\<close>

text \<open>What a patch may name: files, none of which stands in the way of another.\<close>

definition patchable :: "(ustring \<rightharpoonup> byte list) \<times> ustring set \<Rightarrow> ustring set \<Rightarrow> bool" where
  "patchable seen names \<longleftrightarrow> (\<forall>path \<in> names. file_path seen path \<and> parents path \<inter> names = {})"

lemma patchable_kept:
  assumes "patchable seen names" and "key \<in> names"
    and "fst seen' = (fst seen)(key := contents)" "snd seen' \<subseteq> snd seen \<union> parents key"
  shows "patchable seen' names"
  using assms unfolding patchable_def file_path_def placed_def by (auto split: if_splits) blast+

lemma patchable_at:
  assumes "patchable seen names" and "key \<in> names"
  shows "placed (fst seen) key" and "fst seen key = None \<Longrightarrow> entry_at seen key = Inl NotFound"
  using assms by (auto simp: patchable_def file_path_def entry_at_def)

lemma plain_change:
  assumes host: "plain_workspace host tree" and names: "patchable (tree w) names" "change_key change \<in> names"
    and "run_change (fst (tree w)) change = Some files"
  shows "wp (apply_change host gate change) (\<lambda>r t. r = Inr () \<and> fst (tree t) = files \<and> patchable (tree t) names) w"
proof (cases change)
  case (CreateFile path display contents)
  with assms(4) have files: "fst (tree w) path = None" "files = (fst (tree w))(path \<mapsto> contents)" by (auto split: if_splits)
  note path = names(2) [unfolded CreateFile change_key.simps]
  show ?thesis
    using workspace_wp(6) [OF host patchable_at(1) [OF names(1) path] patchable_at(2) [OF names(1) path files(1)]]
      patchable_kept [OF names(1) path]
    by (simp add: CreateFile apply_change_def files(2))
next
  case (WriteFile path display contents)
  with assms(4) have files: "fst (tree w) path \<noteq> None" "files = (fst (tree w))(path \<mapsto> contents)" by (auto split: if_splits)
  note path = names(2) [unfolded WriteFile change_key.simps]
  show ?thesis
    using workspace_wp(7) [OF host patchable_at(1) [OF names(1) path] files(1)] patchable_kept [OF names(1) path]
    by (simp add: WriteFile apply_change_def files(2))
next
  case (RemoveFile path display)
  with assms(4) have files: "fst (tree w) path \<noteq> None" "files = (fst (tree w))(path := None)" by (auto split: if_splits)
  note path = names(2) [unfolded RemoveFile change_key.simps]
  show ?thesis
    using workspace_wp(8) [OF host patchable_at(1) [OF names(1) path] files(1)] patchable_kept [OF names(1) path]
    by (simp add: RemoveFile apply_change_def files(2))
qed

lemma plain_changes:
  assumes host: "plain_workspace host tree" and "patchable (tree w) names" "\<forall>c \<in> set changes. change_key c \<in> names"
    and "run_changes (fst (tree w)) changes = Some files"
  shows "wp (apply_changes host gate changes) (\<lambda>r t. r = Inr () \<and> fst (tree t) = files) w"
  using assms(2-)
proof (induction changes arbitrary: w)
  case (Cons change changes)
  then obtain files1 where files1: "run_change (fst (tree w)) change = Some files1" "run_changes files1 changes = Some files"
    by (auto split: option.splits)
  have go: "wp (apply_change host gate change)
      (\<lambda>r. wp (case r of Inl e \<Rightarrow> ret (Inl e) | Inr _ \<Rightarrow> apply_changes host gate changes)
        (\<lambda>r t. r = Inr () \<and> fst (tree t) = files)) t" if "tree t = tree w" for t
    by (rule wp_mono [OF plain_change [OF host, of t names change files1]])
      (use files1 that Cons.prems Cons.IH in auto)
  show ?case
    unfolding apply_changes.simps wp_bind
    by (rule workspace_wp(1) [OF host]) (use go in simp)
qed simp

lemma plain_absents:
  assumes host: "plain_workspace host tree"
    and "\<forall>(path, display) \<in> set paths. placed (fst (tree w)) path \<and> entry_at (tree w) path = Inl NotFound"
  shows "wp (check_absents host paths) (\<lambda>r t. r = Inr () \<and> tree t = tree w) w"
  using assms(2)
proof (induction paths arbitrary: w)
  case (Cons p paths)
  obtain path display where p: "p = (path, display)" by fastforce
  have more: "wp (check_absents host paths) (\<lambda>r u. r = Inr () \<and> tree u = tree w) t"
    if "tree t = tree w" for t
    using Cons.IH [of t] Cons.prems that by auto
  have at: "placed (fst (tree w)) path" "entry_at (tree w) path = Inl NotFound" using Cons.prems p by auto
  show ?case
    unfolding p check_absents.simps check_absent_def wp_bind
    by (rule workspace_wp(2) [OF host at(1)]) (use more at(2) in simp)
qed simp

text \<open>A path the patch creates held nothing before.\<close>

lemma first_touches_absent:
  assumes "run_ops now ops = Some final" and "(path, display) \<in> set (first_touches seen ops)"
    and "\<forall>key. key \<notin> set seen \<longrightarrow> now key = before key"
  shows "before path = None \<and> (\<exists>op \<in> set ops. path \<in> op_keys op)"
  using assms
proof (induction ops arbitrary: now seen)
  case (Cons op ops)
  then obtain mid where mid: "run_op now op = Some mid" "run_ops mid ops = Some final" by (auto split: option.splits)
  show ?case
  proof (cases op)
    case (OpAdd key shown contents)
    note IH = Cons.IH [OF mid(2), of "key # seen"]
    show ?thesis using IH Cons.prems mid(1) OpAdd by (auto split: if_splits)
  next
    case (OpModify key shown contents)
    note IH = Cons.IH [OF mid(2), of "key # seen"]
    show ?thesis using IH Cons.prems mid(1) OpModify by (auto split: if_splits)
  next
    case (OpDelete key shown)
    note IH = Cons.IH [OF mid(2), of "key # seen"]
    show ?thesis using IH Cons.prems mid(1) OpDelete by (auto split: if_splits)
  next
    case (OpMove key shown to_key to_shown contents)
    note IH = Cons.IH [OF mid(2), of "key # to_key # seen"]
    show ?thesis using IH Cons.prems mid(1) OpMove by (auto split: if_splits)
  qed
qed simp

lemma touch_paths: "fl_path ` set (touch key display contents created pos finals) \<subseteq> insert key (fl_path ` set finals)"
  by (induction finals) auto

lemma touch_op_paths: "fl_path ` set (touch_op n op finals) \<subseteq> op_keys op \<union> fl_path ` set finals"
proof (cases op)
  case (OpMove key display to_key to_display contents)
  note touched = touch_paths [of to_key to_display "Some contents" True "(n, 0)" finals]
  show ?thesis
    unfolding OpMove touch_op.simps op_keys.simps by (rule order_trans [OF touch_paths]) (use touched in auto)
qed (simp_all add: touch_paths)

lemma touch_ops_paths: "fl_path ` set (touch_ops n ops finals) \<subseteq> (\<Union> (op_keys ` set ops)) \<union> fl_path ` set finals"
proof (induction ops arbitrary: n finals)
  case (Cons op ops)
  show ?case using Cons.IH [of "n + 1" "touch_op n op finals"] touch_op_paths [of n op finals] by auto
qed simp

lemma coalesce_keys:
  assumes "c \<in> set (coalesce ops)"
  shows "\<exists>op \<in> set ops. change_key c \<in> op_keys op"
proof -
  have "c \<in> set_mset (mset (coalesce ops))" using assms by simp
  then obtain f where f: "f \<in> set (finals_of ops)" "change_of f = Some c" unfolding mset_coalesce by auto
  then have "change_key c \<in> fl_path ` set (touch_ops 0 ops [])"
    by (simp add: finals_of_def change_of_path)
  then show ?thesis using touch_ops_paths [of 0 ops "[]"] by auto
qed

lemma plain_change_workspace:
  assumes host: "plain_workspace host tree" and "run_ops (fst (tree w)) ops = Some files"
    and names: "patchable (tree w) names" "\<forall>op \<in> set ops. op_keys op \<subseteq> names"
  shows "wp (change_workspace host (created_and_removed ops (coalesce ops)) (coalesce ops))
    (\<lambda>r t. r = Inr () \<and> fst (tree t) = files) w"
proof -
  let ?transient = "created_and_removed ops (coalesce ops)"
  have absent: "\<forall>(path, display) \<in> set ?transient. placed (fst (tree w)) path \<and> entry_at (tree w) path = Inl NotFound"
  proof (intro ballI, clarify)
    fix path display assume "(path, display) \<in> set ?transient"
    with first_touches_absent [OF assms(2), of path display "[]" "fst (tree w)"] names(2)
    have "fst (tree w) path = None" "path \<in> names" by (auto simp: created_and_removed_def)
    then show "placed (fst (tree w)) path \<and> entry_at (tree w) path = Inl NotFound"
      using patchable_at [OF names(1)] by blast
  qed
  have changes: "run_changes (fst (tree w)) (coalesce ops) = Some files"
    using coalesce_runs [OF assms(2)] by blast
  have keys: "\<forall>c \<in> set (coalesce ops). change_key c \<in> names" using coalesce_keys names(2) by blast
  have checked: "wp (check_absents host ?transient) (\<lambda>r. wp (case r of
        Inl e \<Rightarrow> ret (Inl e) | Inr _ \<Rightarrow> apply_changes host gate (coalesce ops))
      (\<lambda>r'. wp (ph_drop host gate) (\<lambda>_ t. r' = Inr () \<and> fst (tree t) = files))) t"
    if "tree t = tree w" for t gate
  proof (rule wp_mono [OF plain_absents [OF host, of ?transient t]])
    fix r :: "patch_failure + unit" and u
    assume "r = Inr () \<and> tree u = tree t"
    then have u: "r = Inr ()" "tree u = tree w" using that by auto
    have "wp (apply_changes host gate (coalesce ops)) (\<lambda>r'. wp (ph_drop host gate) (\<lambda>_ t. r' = Inr () \<and> fst (tree t) = files)) u"
      by (rule wp_mono [OF plain_changes [OF host _ keys]])
        (use names(1) changes u(2) in \<open>auto intro!: workspace_wp(5) [OF host]\<close>)
    with u(1) show "wp (case r of Inl e \<Rightarrow> ret (Inl e) | Inr _ \<Rightarrow> apply_changes host gate (coalesce ops))
      (\<lambda>r'. wp (ph_drop host gate) (\<lambda>_ t. r' = Inr () \<and> fst (tree t) = files)) u" by simp
  qed (use absent that in auto)
  show ?thesis
    unfolding change_workspace_def wp_bind wp_return
    by (rule workspace_wp(4) [OF host]) (use checked in blast)
qed

section \<open>The call\<close>

text \<open>The files a patch names, and what the call says when it is applied.\<close>

definition patch_names :: "hunk list \<Rightarrow> ustring set" where
  "patch_names hunks = (\<Union> (hunk_names ` set hunks))"

definition as_spelled :: "ustring \<Rightarrow> ustring \<times> ustring" where
  "as_spelled path = (path, path)"

lemma wp_plan_over:
  "wp (plan_over fuel host hunks) Q w =
    wp (plan_patch (host_files fuel host) hunks) (\<lambda>r (w', found, absent). Q r w') (w, Map.empty, Map.empty)"
  by (simp add: wp_def plan_over_def split: prod.splits)

text \<open>The outcome of a run against the patch applied to the map of files.\<close>

definition ran_as_applied ::
  "(ustring \<rightharpoonup> byte list) \<Rightarrow> hunk list \<Rightarrow> (patch_failure + ustring) \<Rightarrow> (ustring \<rightharpoonup> byte list) \<Rightarrow> bool"
where
  "ran_as_applied files hunks r files' \<longleftrightarrow>
     (case patch_files as_spelled files hunks of
       None \<Rightarrow> files' = files \<and> (\<exists>m. r = Inl (PatchMessage m))
     | Some patched \<Rightarrow> files' = patched \<and> r = Inr (join_with [10] (map (hunk_line as_spelled) hunks)))"

lemma plain_patch_run:
  assumes host: "plain_workspace host tree" and readable: "readable fuel (fst (tree w))"
    and parsed: "parse_patch printable body = Inr hunks"
    and names: "patchable (tree w) (patch_names hunks)"
    and utf8: "text_files (patch_names hunks) as_spelled (fst (tree w))"
  shows "wp (patch_run fuel printable host body) (\<lambda>r t. ran_as_applied (fst (tree w)) hunks r (fst (tree t))) w"
proof -
  have as_spelled: "as_spelled = (\<lambda>path. (path, path))" by (simp add: as_spelled_def fun_eq_iff)
  have paths: "\<forall>path \<in> patch_names hunks. file_path (tree w) path" using names by (simp add: patchable_def)
  have images: "fst ` as_spelled ` N = N" for N by (auto simp: as_spelled_def image_iff)
  have plan: "wp (plan_over fuel host hunks) (\<lambda>r t. tree t = tree w \<and>
     (case patch_files as_spelled (fst (tree w)) hunks of
        None \<Rightarrow> \<exists>m. r = Inl (PatchMessage m)
      | Some files' \<Rightarrow> \<exists>ops. r = Inr ops \<and> run_ops (fst (tree w)) ops = Some files' \<and>
          map success_line ops = map (hunk_line as_spelled) hunks \<and>
          (\<forall>op \<in> set ops. op_keys op \<subseteq> patch_names hunks))) w"
    unfolding wp_plan_over
    by (rule wp_mono [OF plan_applies [OF host_files_show [OF host readable paths, folded as_spelled] utf8]])
      (auto simp: images patch_names_def split: option.splits)
  have change: "wp (ph_cancelled host) (\<lambda>c. wp (if c then ret (Inl PatchCancelled)
        else do {
          r \<leftarrow> change_workspace host (created_and_removed ops (coalesce ops)) (coalesce ops);
          ret (case r of Inl e \<Rightarrow> Inl e | Inr _ \<Rightarrow> Inr (success_output ops))
        }) (\<lambda>r t. fst (tree t) = files \<and> r = Inr (success_output ops))) t"
    if "tree t = tree w" "run_ops (fst (tree w)) ops = Some files" "\<forall>op \<in> set ops. op_keys op \<subseteq> patch_names hunks"
    for t ops files
  proof (rule workspace_wp(1) [OF host])
    fix u assume "tree u = tree t"
    then have ops: "run_ops (fst (tree u)) ops = Some files" "patchable (tree u) (patch_names hunks)"
      using that names by simp_all
    from wp_mono [OF plain_change_workspace [OF host ops that(3)]]
    show "wp (if False then ret (Inl PatchCancelled)
        else do {
          r \<leftarrow> change_workspace host (created_and_removed ops (coalesce ops)) (coalesce ops);
          ret (case r of Inl e \<Rightarrow> Inl e | Inr _ \<Rightarrow> Inr (success_output ops))
        }) (\<lambda>r t. fst (tree t) = files \<and> r = Inr (success_output ops)) u" by simp
  qed
  show ?thesis
    unfolding patch_run_def parsed sum.case wp_bind [of "plan_over _ _ _"]
  proof (rule wp_mono [OF plan], goal_cases)
    case (1 r t)
    show ?case
    proof (cases "patch_files as_spelled (fst (tree w)) hunks")
      case None
      with 1 show ?thesis by (auto simp: ran_as_applied_def)
    next
      case (Some files)
      with 1 obtain ops where ops: "r = Inr ops" "run_ops (fst (tree w)) ops = Some files"
        "map success_line ops = map (hunk_line as_spelled) hunks"
        "\<forall>op \<in> set ops. op_keys op \<subseteq> patch_names hunks" "tree t = tree w" by auto
      then have printed: "success_output ops = join_with [10] (map (hunk_line as_spelled) hunks)"
        by (simp add: success_output_def)
      from change [OF ops(5,2,4)] show ?thesis
        by (simp add: ops(1) Some printed Let_def ran_as_applied_def)
    qed
  qed
qed

text \<open>The whole call on text input or arguments that name the patch.\<close>

lemma plain_patch_execute:
  assumes host: "plain_workspace host tree" and readable: "readable fuel (fst (tree w))"
    and input: "patch_text function_input tool freeform input = Inr body"
    and parsed: "parse_patch printable body = Inr hunks"
    and names: "patchable (tree w) (patch_names hunks)"
    and utf8: "text_files (patch_names hunks) as_spelled (fst (tree w))"
  shows "wp (patch_execute fuel printable function_input host tool freeform input) (\<lambda>r t.
     case patch_files as_spelled (fst (tree w)) hunks of
       None \<Rightarrow> fst (tree t) = fst (tree w) \<and> (\<exists>m. r = PatchError m)
     | Some files \<Rightarrow> fst (tree t) = files \<and>
         r = PatchOk (bound_output (join_with [10] (map (hunk_line as_spelled) hunks)) 50000 2000)) w"
  unfolding patch_execute_def wp_bind
proof (rule workspace_wp(1) [OF host], simp only: if_False input sum.case wp_bind)
  fix t assume t: "tree t = tree w"
  have "wp (patch_run fuel printable host body) (\<lambda>r u. ran_as_applied (fst (tree w)) hunks r (fst (tree u))) t"
    using plain_patch_run [OF host, of fuel t printable body hunks] assms(2-) t by simp
  then show "wp (patch_run fuel printable host body) (\<lambda>r. wp (ret (case r of
        Inl PatchCancelled \<Rightarrow> PatchStopped | Inl (PatchMessage message) \<Rightarrow> PatchError message
      | Inl PatchOutOfFuel \<Rightarrow> PatchUnfinished | Inr content \<Rightarrow> PatchOk (bound_output content 50000 2000)))
    (\<lambda>r t. case patch_files as_spelled (fst (tree w)) hunks of
       None \<Rightarrow> fst (tree t) = fst (tree w) \<and> (\<exists>m. r = PatchError m)
     | Some files \<Rightarrow> fst (tree t) = files \<and>
         r = PatchOk (bound_output (join_with [10] (map (hunk_line as_spelled) hunks)) 50000 2000))) t"
    by (rule wp_mono) (auto simp: ran_as_applied_def split: option.splits)
qed

end
