(* ===== verification/PatchApply.thy ===== *)
theory PatchApply
  imports PatchText
begin

text \<open>
  What the groups of an update do to a file: each replaces lines that match its old lines, in the
  order of the groups, and every other line keeps its text and its ending.
\<close>

section \<open>Matching\<close>

lemma dropWhile_rev_comm:
  "dropWhile P (rev (dropWhile P (rev s))) = rev (dropWhile P (rev (dropWhile P s)))"
proof (induction s)
  case (Cons c s)
  show ?case
  proof (cases "P c")
    case True
    then have "dropWhile P (rev (dropWhile P (rev s @ [c]))) = dropWhile P (rev (dropWhile P (rev s)))"
      by (cases "\<forall>x \<in> set s. P x") (auto simp: dropWhile_append dropWhile_eq_Nil_conv [THEN iffD2])
    with Cons True show ?thesis by simp
  next
    case False
    then show ?thesis by (cases "\<forall>x \<in> set s. P x") (auto simp: dropWhile_append)
  qed
qed simp

lemma trim_trim_end: "trim s = trim_start (trim_end s)"
  by (simp add: trim_def trim_start_def trim_end_def dropWhile_rev_comm)

lemma matches_atD:
  assumes "matches_at lines pos pat tier"
  shows "pat = [] \<or> pos + length pat \<le> length lines"
    and "\<And>i. i < length pat \<Longrightarrow> trim (lines ! (pos + i)) = trim (pat ! i)"
proof -
  have each: "pos + i < length lines \<and> trim (lines ! (pos + i)) = trim (pat ! i)" if "i < length pat" for i
  proof -
    have "(i, pat ! i) \<in> set (List.enumerate 0 pat)" using that by (force simp: in_set_enumerate_eq)
    with assms have "pos + i < length lines \<and> (case tier of
         ExactTier \<Rightarrow> lines ! (pos + i) = pat ! i
       | TrimEndTier \<Rightarrow> trim_end (lines ! (pos + i)) = trim_end (pat ! i)
       | TrimBothTier \<Rightarrow> trim (lines ! (pos + i)) = trim (pat ! i))"
      unfolding matches_at_def list_all_iff by fast
    then show ?thesis by (cases tier) (auto simp: trim_trim_end)
  qed
  show "pat = [] \<or> pos + length pat \<le> length lines"
    using each [of "length pat - 1"] by (cases pat) auto
  show "trim (lines ! (pos + i)) = trim (pat ! i)" if "i < length pat" for i
    using each [OF that] by simp
qed

lemma find_tier_SomeD:
  "find_tier tiers lines start pat = Some i \<Longrightarrow> start \<le> i \<and> (\<exists>tier \<in> set tiers. matches_at lines i pat tier)"
  by (induction tiers) (auto split: option.splits simp del: upt_Suc dest!: find_SomeD)

text \<open>\<open>locate\<close> answers a place at or behind the position reached, where the old lines match up to white
  space at their ends.\<close>

lemma locate_groupD:
  assumes "locate_group lines g running = Some pos" "running \<le> length lines"
  shows "running \<le> pos" "pos + length (ug_old g) \<le> length lines"
    "list_all2 (\<lambda>l old. trim l = trim old) (take (length (ug_old g)) (drop pos lines)) (ug_old g)"
proof -
  obtain start where start: "(case ug_header g of Some header \<Rightarrow> map_option Suc (find_header lines header running) | None \<Rightarrow> Some running) = Some start"
    using assms(1) by (auto simp: locate_group_def split: option.splits)
  have "running \<le> start"
    using start by (auto simp: find_header_def find_Some_iff split: option.splits)
  have found: "start \<le> pos \<and> pos + length (ug_old g) \<le> length lines \<and> (\<exists>tier. matches_at lines pos (ug_old g) tier)
     \<or> pos = length lines \<and> ug_old g = []"
    using assms(1) start matches_atD(1) [of lines pos "ug_old g"]
    by (auto simp: locate_group_def Let_def find_Some_iff split: if_splits option.splits dest!: find_tier_SomeD)
  then show "running \<le> pos" "pos + length (ug_old g) \<le> length lines"
    using assms(2) \<open>running \<le> start\<close> by auto
  from found show "list_all2 (\<lambda>l old. trim l = trim old) (take (length (ug_old g)) (drop pos lines)) (ug_old g)"
    using matches_atD(2) [of lines pos "ug_old g"] by (auto simp: list_all2_conv_all_nth)
qed

section \<open>Endings\<close>

lemma length_replacement_endings [simp]:
  "length (replacement_endings previous endings default_ending index new next_old) = length new"
  by (induction previous endings default_ending index new next_old rule: replacement_endings.induct)
    (auto split: option.splits)

lemma kept_endings:
  "i < length new \<Longrightarrow> snd (new ! i) = Some k \<Longrightarrow>
   replacement_endings previous endings default_ending index new next_old ! i = endings ! k"
proof (induction previous endings default_ending index new next_old arbitrary: i rule: replacement_endings.induct)
  case (2 previous endings default_ending index line kept rest next_old)
  then show ?case by (cases i) (auto split: option.splits)
qed simp

lemma split_inclusive_empty [simp]: "split_inclusive d s = [] \<longleftrightarrow> s = []"
  by (cases s) (auto split: list.splits)

lemma length_split_inclusive_Cons:
  "length (split_inclusive d (c # s)) = (if c = d \<or> s = [] then Suc (length (split_inclusive d s)) else length (split_inclusive d s))"
  by (auto split: list.splits)

lemma str_replace_empty [simp]: "new \<noteq> [] \<Longrightarrow> str_replace pat new s = [] \<longleftrightarrow> s = []"
  by (cases s) (auto simp: str_replace.simps)

lemma length_split_inclusive_unix:
  fixes s :: ustring
  shows "length (split_inclusive 10 (str_replace [13, 10] [10] s)) = length (split_inclusive 10 s)"
proof (induction "[13, 10] :: ustring" "[10] :: ustring" s rule: str_replace.induct)
  case (2 c s)
  show ?case
  proof (cases "starts_with [13, 10] (c # s)")
    case True
    then obtain t where "c = 13" "s = 10 # t" by (auto simp: starts_with_iff)
    with 2(1) True show ?thesis by (simp add: str_replace.simps(2) [of _ _ 13])
  next
    case False
    then show ?thesis using 2(2)
      by (simp add: str_replace.simps(2) [of _ _ c] length_split_inclusive_Cons del: split_inclusive.simps(2))
  qed
qed simp

lemma length_split_lines: "length (split_lines s) = length (split_inclusive 10 s)"
  by (cases s rule: rev_cases) (auto simp: split_lines_def length_split_inclusive ends_with_def Let_def)

lemma ends_with_iff: "ends_with p s \<longleftrightarrow> (\<exists>t. s = t @ p)"
  by (auto simp: ends_with_def) (metis append_take_drop_id)

lemma ends_with_break: "ends_with [d] s \<longleftrightarrow> s \<noteq> [] \<and> last s = d"
  by (cases s rule: rev_cases) (auto simp: ends_with_iff)

lemma starts_with_crlf: "starts_with [13, 10] (c # p) \<longleftrightarrow> c = 13 \<and> p \<noteq> [] \<and> hd p = (10 :: nat)"
  by (cases p) (auto simp: starts_with_def)

lemma unix_free: "10 \<notin> set p \<Longrightarrow> str_replace [13, 10] [10 :: nat] p = p"
  by (induction p) (auto simp: str_replace.simps(2) starts_with_crlf dest: hd_in_set)

lemma unix_line:
  "10 \<notin> set p \<Longrightarrow> str_replace [13, 10] [10 :: nat] (p @ 10 # t) =
     (if p \<noteq> [] \<and> last p = 13 then butlast p else p) @ 10 # str_replace [13, 10] [10] t"
proof (induction p)
  case (Cons c p)
  then show ?case
    by (cases p) (auto simp: str_replace.simps(2) [of _ _ c] str_replace.simps(2) [of _ _ 10] starts_with_crlf)
qed (simp add: str_replace.simps(2) starts_with_crlf)

lemma last_unix: "s \<noteq> [] \<Longrightarrow> last (str_replace [13, 10] [10 :: nat] s) = last s"
proof (induction "[13, 10] :: ustring" "[10] :: ustring" s rule: str_replace.induct)
  case (2 c s)
  show ?case
  proof (cases "starts_with [13, 10] (c # s)")
    case True
    then obtain t where "c = 13" "s = 10 # t" by (auto simp: starts_with_iff)
    with 2(1) True show ?thesis by (cases "t = []") (auto simp: str_replace.simps(2) [of _ _ 13])
  next
    case False
    then show ?thesis using 2(2) by (auto simp: str_replace.simps(2) [of _ _ c])
  qed
qed simp

lemma split_lines_line: "10 \<notin> set p \<Longrightarrow> split_lines (p @ 10 # t) = p # split_lines t"
  by (auto simp: split_lines_def split_on_append Let_def ends_with_break)

lemma split_lines_single: "10 \<notin> set p \<Longrightarrow> p \<noteq> [] \<Longrightarrow> split_lines p = [p]"
  by (auto simp: split_lines_def split_on_single Let_def ends_with_break dest: last_in_set)

text \<open>The lines the patch sees and their endings are the whole text.\<close>

lemma lines_with_endings:
  fixes s :: ustring
  shows "concat (map (\<lambda>(l, e). l @ e) (zip (split_lines (str_replace [13, 10] [10] s)) (map line_ending_of (split_inclusive 10 s)))) = s"
proof (induction "length s" arbitrary: s rule: less_induct)
  case less
  show ?case
  proof (cases "10 \<in> set s")
    case True
    then obtain p t where s: "s = p @ 10 # t" "10 \<notin> set p" by (meson split_list_first)
    then have "10 \<notin> set (if p \<noteq> [] \<and> last p = 13 then butlast p else p)" by (auto dest: in_set_butlastD)
    moreover have "(if p \<noteq> [] \<and> last p = 13 then butlast p else p) @ line_ending_of (p @ [10]) = p @ [10]"
      by (cases p rule: rev_cases) (auto simp: line_ending_of_def ends_with_def)
    ultimately show ?thesis using less [of t] s
      by (simp add: unix_line split_lines_line split_inclusive_append del: if_split_asm)
  next
    case False
    then show ?thesis
      by (cases "s = []")
        (auto simp: unix_free split_lines_single split_inclusive_single line_ending_of_def ends_with_iff split_lines_def [of "[]"])
  qed
qed

section \<open>The groups of an update\<close>

definition well_formed_group :: "update_group \<Rightarrow> bool" where
  "well_formed_group g \<longleftrightarrow>
     length (ug_new_from_old g) = length (ug_new g) \<and>
     (\<forall>k. Some k \<in> set (ug_new_from_old g) \<longrightarrow> k < length (ug_old g))"

text \<open>\<open>patched groups old new\<close>: the lines \<open>new\<close>, each with its ending, are \<open>old\<close> with lines that match the old
  lines of each group replaced by its new lines; a line a group keeps keeps its ending.\<close>

fun patched :: "update_group list \<Rightarrow> (ustring \<times> ustring) list \<Rightarrow> (ustring \<times> ustring) list \<Rightarrow> bool" where
  "patched [] old new \<longleftrightarrow> new = old"
| "patched (g # groups) old new \<longleftrightarrow>
     (\<exists>kept found put old' new'.
        old = kept @ found @ old' \<and> new = kept @ put @ new' \<and>
        list_all2 (\<lambda>(l, e) line. trim l = trim line) found (ug_old g) \<and>
        map fst put = ug_new g \<and>
        (\<forall>i k. i < length put \<and> ug_new_from_old g ! i = Some k \<longrightarrow> snd (put ! i) = snd (found ! k)) \<and>
        patched groups old' new')"

lemma apply_each_patched:
  assumes "apply_each display default_ending index groups running lines endings = Inr (lines', endings')"
    "length lines = length endings" "running \<le> length lines" "\<forall>g \<in> set groups. well_formed_group g"
  shows "length lines' = length endings' \<and> take running (zip lines' endings') = take running (zip lines endings) \<and>
    patched groups (drop running (zip lines endings)) (drop running (zip lines' endings'))"
  using assms
proof (induction display default_ending index groups running lines endings rule: apply_each.induct)
  case (2 display default_ending index g groups running lines endings)
  obtain pos where pos: "locate_group lines g running = Some pos" using 2(2) by (auto split: option.splits)
  note place = locate_groupD [OF pos 2(4)]
  let ?n = "length (ug_old g)"
  let ?found = "take ?n (drop pos (zip lines endings))"
  let ?endings = "replacement_endings (take ?n (drop pos lines)) (take ?n (drop pos endings)) default_ending 0
      (zip (ug_new g) (ug_new_from_old g)) 0"
  let ?put = "zip (ug_new g) ?endings"
  let ?lines = "splice lines pos (pos + ?n) (ug_new g)"
  let ?ends = "splice endings pos (pos + ?n) ?endings"
  let ?next = "pos + length (ug_new g)"
  have wf: "length (ug_new_from_old g) = length (ug_new g)" "\<And>k. Some k \<in> set (ug_new_from_old g) \<Longrightarrow> k < ?n"
    using 2(5) by (auto simp: well_formed_group_def)
  have zip: "zip ?lines ?ends = take pos (zip lines endings) @ ?put @ drop (pos + ?n) (zip lines endings)"
    using place(2) 2(3) wf(1) by (simp add: splice_def zip_append take_zip drop_zip)
  have IH: "length lines' = length endings' \<and> take ?next (zip lines' endings') = take ?next (zip ?lines ?ends) \<and>
    patched groups (drop ?next (zip ?lines ?ends)) (drop ?next (zip lines' endings'))"
    by (rule 2(1) [OF pos refl refl])
      (use 2(2,3,5) pos place(2) wf(1) in \<open>auto simp: splice_def Let_def\<close>)
  define new' where "new' = drop ?next (zip lines' endings')"
  have all: "zip lines' endings' = take pos (zip lines endings) @ ?put @ new'"
  proof -
    have "take ?next (zip ?lines ?ends) = take pos (zip lines endings) @ ?put"
      unfolding zip using place(2) 2(3) wf(1) by simp
    then show ?thesis using IH append_take_drop_id [of ?next "zip lines' endings'"] unfolding new'_def by simp
  qed
  have rest: "drop ?next (zip ?lines ?ends) = drop (pos + ?n) (zip lines endings)"
    unfolding zip using place(2) 2(3) wf(1) by simp
  have endings: "snd (?put ! i) = snd (?found ! k)" if "i < length ?put" "ug_new_from_old g ! i = Some k" for i k
  proof -
    have "k < ?n" using wf(2) [of k] that wf(1) by (metis length_zip min_less_iff_conj nth_mem)
    then show ?thesis
      using that wf(1) place(2) 2(3) kept_endings [of i "zip (ug_new g) (ug_new_from_old g)" k] by simp
  qed
  have found: "list_all2 (\<lambda>(l, e) line. trim l = trim line) ?found (ug_old g)"
    using place(2,3) 2(3) by (simp add: list_all2_conv_all_nth)
  let ?kept = "drop running (take pos (zip lines endings))"
  have old: "drop running (zip lines endings) = ?kept @ ?found @ drop (pos + ?n) (zip lines endings)"
    by (metis place(1) drop_drop append_take_drop_id drop_take add.commute le_add_diff_inverse take_drop)
  have new: "drop running (zip lines' endings') = ?kept @ ?put @ new'"
    unfolding all using place 2(3) by simp
  have "take running (zip lines' endings') = take running (zip lines endings)"
    unfolding all using place 2(3) by simp
  moreover have "patched (g # groups) (drop running (zip lines endings)) (drop running (zip lines' endings'))"
    unfolding patched.simps
    by (rule exI [of _ ?kept], rule exI [of _ ?found], rule exI [of _ ?put],
        rule exI [of _ "drop (pos + ?n) (zip lines endings)"], rule exI [of _ new'])
      (use old new found endings wf(1) IH rest in \<open>auto simp: new'_def\<close>)
  ultimately show ?case using IH by blast
qed simp

section \<open>A parsed update\<close>

lemma well_formed_add:
  "well_formed_group g \<Longrightarrow> well_formed_group (add_change marker content g)"
  by (auto simp: well_formed_group_def add_change_def Let_def less_Suc_eq)

lemma well_formed_groups:
  "parse_update_groups printable n lines groups current = Inr (groups', n', rest) \<Longrightarrow>
   \<forall>g \<in> set (finished groups current). well_formed_group g \<Longrightarrow> \<forall>g \<in> set groups'. well_formed_group g"
proof (induction printable n lines groups current rule: parse_update_groups.induct)
  case (2 printable n line rest groups current)
  have new: "well_formed_group (empty_group header k)" for header k
    by (simp add: well_formed_group_def empty_group_def)
  have eof: "well_formed_group (g\<lparr>ug_eof := True\<rparr>) = well_formed_group g" for g
    by (simp add: well_formed_group_def)
  consider (eof) "line = end_of_file_line" | (stop) "line \<noteq> end_of_file_line" "starts_with (lit ''*** '') line"
    | (header) "line \<noteq> end_of_file_line" "\<not> starts_with (lit ''*** '') line" "line = lit ''@@'' \<or> starts_with (lit ''@@ '') line"
    | (change) "line \<noteq> end_of_file_line" "\<not> starts_with (lit ''*** '') line" "\<not> (line = lit ''@@'' \<or> starts_with (lit ''@@ '') line)"
    by blast
  then show ?case
  proof cases
    case eof
    then obtain g where g: "current = Some g" "\<not> (rest \<noteq> [] \<and> \<not> starts_with (lit ''*** '') (hd rest))"
      using "2.prems"(1) eof by (auto split: option.splits if_splits)
    show ?thesis
      by (rule "2.IH"(1) [OF eof g]) (use "2.prems" eof g in \<open>auto simp: finished_def \<open>\<And>g. well_formed_group (g\<lparr>ug_eof := True\<rparr>) = well_formed_group g\<close>\<close>)
  next
    case stop
    then show ?thesis using "2.prems" by simp
  next
    case header
    show ?thesis
      by (rule "2.IH"(2) [OF header]) (use "2.prems" header new in \<open>auto simp: finished_def split: option.splits\<close>)
  next
    case change
    then obtain marker content where m: "split_change_line line = Some (marker, content)"
      using "2.prems"(1) by (auto split: option.splits)
    show ?thesis
      by (rule "2.IH"(3) [OF change m refl]) 
        (use "2.prems" change m new in \<open>auto simp: finished_def intro!: well_formed_add split: option.splits\<close>)
  qed
qed simp

lemma well_formed_update:
  "parse_update printable path n lines = Inr (h, n', rest) \<Longrightarrow> \<exists>moveto groups. h = UpdateFile path moveto groups \<and>
     (\<forall>g \<in> set groups. well_formed_group g)"
  by (auto simp: parse_update_def finished_def split: if_splits sum.splits prod.splits option.splits
      dest!: well_formed_groups)

definition well_formed_hunk :: "hunk \<Rightarrow> bool" where
  "well_formed_hunk h \<longleftrightarrow> (case h of UpdateFile path moveto groups \<Rightarrow> \<forall>g \<in> set groups. well_formed_group g | _ \<Rightarrow> True)"

lemma well_formed_hunk_simps [simp]:
  "well_formed_hunk (AddFile path lines)" "well_formed_hunk (DeleteFile path)"
  "well_formed_hunk (UpdateFile path moveto groups) \<longleftrightarrow> (\<forall>g \<in> set groups. well_formed_group g)"
  by (simp_all add: well_formed_hunk_def)

lemma well_formed_hunks:
  "parse_hunks printable n lines hunks = Inr (hunks', after) \<Longrightarrow> \<forall>h \<in> set hunks. well_formed_hunk h \<Longrightarrow>
   \<forall>h \<in> set hunks'. well_formed_hunk h"
proof (induction printable n lines hunks rule: parse_hunks.induct)
  case (2 printable n line rest hunks)
  let ?add = "lit ''*** Add File: ''" and ?delete = "lit ''*** Delete File: ''" and ?update = "lit ''*** Update File: ''"
  have wf: "\<forall>h' \<in> set (hunks @ [h]). well_formed_hunk h'" if "well_formed_hunk h" for h
    using "2.prems"(2) that by auto
  show ?case
  proof (cases "line = end_patch_line")
    case True
    then show ?thesis using "2.prems" by (simp add: parse_hunks.simps(2))
  next
    case end_line: False
    show ?thesis
    proof (cases "strip_prefix ?add line")
      case (Some path)
      then have more: "path \<noteq> []" "takeWhile (starts_with [43]) rest \<noteq> []"
        using "2.prems"(1) end_line by (simp_all add: parse_hunks.simps(2) Let_def split: if_splits)
      show ?thesis
        by (rule "2.IH"(3) [OF end_line Some more(1) refl more(2)])
          (use "2.prems" end_line Some more in \<open>simp_all add: parse_hunks.simps(2) [of _ _ line] Let_def\<close>)
    next
      case add: None
      show ?thesis
      proof (cases "strip_prefix ?delete line")
        case (Some path)
        then have "path \<noteq> []" using "2.prems"(1) end_line add by (simp add: parse_hunks.simps(2) split: if_splits)
        show ?thesis
          by (rule "2.IH"(2) [OF end_line add Some \<open>path \<noteq> []\<close>])
            (use "2.prems" end_line add Some \<open>path \<noteq> []\<close> in \<open>simp_all add: parse_hunks.simps(2) [of _ _ line]\<close>)
      next
        case delete: None
        then obtain path h n' rest' where up: "strip_prefix ?update line = Some path"
            "parse_update printable path (n + 1) rest = Inr (h, n', rest')"
          using "2.prems"(1) end_line add by (simp add: parse_hunks.simps(2) split: option.splits sum.splits prod.splits)
        have "well_formed_hunk h" using well_formed_update [OF up(2)] by (auto simp: well_formed_hunk_def)
        show ?thesis
          by (rule "2.IH"(1) [OF end_line add delete up refl refl])
            (use "2.prems"(1) end_line add delete up wf [OF \<open>well_formed_hunk h\<close>] in
              \<open>simp_all add: parse_hunks.simps(2) [of _ _ line]\<close>)
      qed
    qed
  qed
qed simp

theorem update_patches_lines:
  assumes parsed: "parse_patch printable patch = Inr hunks" and update: "UpdateFile path moveto groups \<in> set hunks"
    and out: "apply_groups bytes groups display = Inr contents"
  shows "\<exists>s old new. from_utf8 bytes = Some s \<and> concat (map (\<lambda>(l, e). l @ e) old) = s \<and>
     map fst old = split_lines (str_replace [13, 10] [10] s) \<and> map snd old = map line_ending_of (split_inclusive 10 s) \<and>
     patched groups old new \<and>
     contents = utf8 (joined_lines (ends_with [10] s) (if detect_crlf s then [13, 10] else [10]) new)"
proof -
  obtain after where "parse_hunks printable 1 (tl (str_lines (strip_wrapper patch))) [] = Inr (hunks, after)"
    using parsed by (auto simp: parse_patch_def Let_def split: if_splits sum.splits option.splits prod.splits)
  then have "well_formed_hunk (UpdateFile path moveto groups)" using well_formed_hunks update by fastforce
  then have wf: "\<forall>g \<in> set groups. well_formed_group g" by simp
  obtain s where s: "from_utf8 bytes = Some s" using out by (auto simp: apply_groups_def split: option.splits)
  let ?unix = "str_replace [13, 10] [10] s" and ?endings = "map line_ending_of (split_inclusive 10 s)"
  let ?default = "if detect_crlf s then [13, 10] else [10 :: nat]"
  obtain lines endings where each: "apply_each display ?default 0 groups 0 (split_lines ?unix) ?endings = Inr (lines, endings)"
    and contents: "contents = utf8 (joined_lines (ends_with [10] ?unix) ?default (zip lines endings))"
    using out s by (auto simp: apply_groups_def Let_def split: sum.splits)
  have length: "length (split_lines ?unix) = length ?endings"
    by (simp add: length_split_lines length_split_inclusive_unix)
  have trailing: "ends_with [10] ?unix = ends_with [10] s"
    by (cases "s = []") (simp_all add: ends_with_break last_unix)
  show ?thesis
    by (rule exI [of _ s], rule exI [of _ "zip (split_lines ?unix) ?endings"], rule exI [of _ "zip lines endings"])
      (use apply_each_patched [OF each length _ wf] s contents length trailing lines_with_endings [of s] in simp)
qed

end
