(* ===== verification/PatchGrammar.thy ===== *)
theory PatchGrammar
  imports PatchApply
begin

text \<open>
  The grammar a patch is advertised with (\<open>PATCH_GRAMMAR\<close> in \<open>crates/p1-tool-patch/logic/src/lib.rs\<close>), as a
  datatype with its printer: the parser reads every printed patch back.
\<close>

section \<open>Patches and their text\<close>

datatype change_line = ContextLine ustring | RemovedLine ustring | AddedLine ustring

text \<open>\<open>gs_context\<close> is \<open>None\<close> without a \<open>@@\<close> line, and else what stands behind \<open>@@\<close>.\<close>

record group_source =
  gs_context :: "ustring option option"
  gs_lines :: "change_line list"
  gs_eof :: bool

datatype hunk_source =
    AddSource ustring "ustring list"
  | DeleteSource ustring
  | UpdateSource ustring "ustring option" "group_source list"

fun print_change :: "change_line \<Rightarrow> ustring" where
  "print_change (ContextLine content) = 32 # content"
| "print_change (RemovedLine content) = 45 # content"
| "print_change (AddedLine content) = 43 # content"

definition print_group :: "group_source \<Rightarrow> ustring list" where
  "print_group g =
     (case gs_context g of None \<Rightarrow> [] | Some None \<Rightarrow> [lit ''@@''] | Some (Some header) \<Rightarrow> [lit ''@@ '' @ header]) @
     map print_change (gs_lines g) @ (if gs_eof g then [end_of_file_line] else [])"

fun print_hunk :: "hunk_source \<Rightarrow> ustring list" where
  "print_hunk (AddSource path lines) = (lit ''*** Add File: '' @ path) # map (Cons 43) lines"
| "print_hunk (DeleteSource path) = [lit ''*** Delete File: '' @ path]"
| "print_hunk (UpdateSource path moveto groups) =
     (lit ''*** Update File: '' @ path) #
     (case moveto of None \<Rightarrow> [] | Some target \<Rightarrow> [lit ''*** Move to: '' @ target]) @ concat (map print_group groups)"

definition patch_lines :: "hunk_source list \<Rightarrow> ustring list" where
  "patch_lines hunks = begin_patch_line # concat (map print_hunk hunks) @ [end_patch_line]"

definition print_patch :: "hunk_source list \<Rightarrow> ustring" where
  "print_patch hunks = join_with [10] (patch_lines hunks)"

section \<open>What the grammar asks for\<close>

definition one_line :: "ustring \<Rightarrow> bool" where
  "one_line s \<longleftrightarrow> 10 \<notin> set s \<and> 13 \<notin> set s"

fun line_of :: "change_line \<Rightarrow> ustring" where
  "line_of (ContextLine content) = content"
| "line_of (RemovedLine content) = content"
| "line_of (AddedLine content) = content"

definition proper_group :: "group_source \<Rightarrow> bool" where
  "proper_group g \<longleftrightarrow>
     gs_lines g \<noteq> [] \<and> list_all (\<lambda>l. one_line (line_of l)) (gs_lines g) \<and>
     (case gs_context g of Some (Some header) \<Rightarrow> one_line header | _ \<Rightarrow> True)"

text \<open>Only the first group may have no \<open>@@\<close> line, only the last may be anchored at the end of the file.\<close>

fun proper_groups :: "group_source list \<Rightarrow> bool" where
  "proper_groups [] = True"
| "proper_groups (g # groups) \<longleftrightarrow>
     proper_group g \<and> (groups \<noteq> [] \<longrightarrow> \<not> gs_eof g \<and> gs_context (hd groups) \<noteq> None) \<and> proper_groups groups"

fun proper_hunk :: "hunk_source \<Rightarrow> bool" where
  "proper_hunk (AddSource path lines) \<longleftrightarrow> path \<noteq> [] \<and> one_line path \<and> lines \<noteq> [] \<and> list_all one_line lines"
| "proper_hunk (DeleteSource path) \<longleftrightarrow> path \<noteq> [] \<and> one_line path"
| "proper_hunk (UpdateSource path moveto groups) \<longleftrightarrow>
     path \<noteq> [] \<and> one_line path \<and> (groups \<noteq> [] \<or> moveto \<noteq> None) \<and> proper_groups groups \<and>
     (case moveto of None \<Rightarrow> True | Some target \<Rightarrow> target \<noteq> [] \<and> one_line target)"

section \<open>What it means\<close>

fun add_source :: "change_line \<Rightarrow> update_group \<Rightarrow> update_group" where
  "add_source (ContextLine content) g = add_change 32 content g"
| "add_source (RemovedLine content) g = add_change 45 content g"
| "add_source (AddedLine content) g = add_change 43 content g"

text \<open>The group a source stands for, when it starts on line \<open>n\<close> of the patch.\<close>

definition group_at :: "nat \<Rightarrow> group_source \<Rightarrow> update_group" where
  "group_at n g =
     (fold add_source (gs_lines g)
       (empty_group (case gs_context g of Some (Some header) \<Rightarrow> Some header | _ \<Rightarrow> None) n))\<lparr>ug_eof := gs_eof g\<rparr>"

definition unnumbered :: "update_group \<Rightarrow> update_group" where
  "unnumbered g = g\<lparr>ug_line := 0\<rparr>"

fun unnumbered_hunk :: "hunk \<Rightarrow> hunk" where
  "unnumbered_hunk (UpdateFile path moveto groups) = UpdateFile path moveto (map unnumbered groups)"
| "unnumbered_hunk h = h"

fun hunk_of :: "hunk_source \<Rightarrow> hunk" where
  "hunk_of (AddSource path lines) = AddFile path lines"
| "hunk_of (DeleteSource path) = DeleteFile path"
| "hunk_of (UpdateSource path moveto groups) = UpdateFile path moveto (map (group_at 0) groups)"

lemma add_source_fields [simp]:
  "ug_line (add_source l g) = ug_line g" "ug_eof (add_source l g) = ug_eof g" "ug_header (add_source l g) = ug_header g"
  "(add_source l g)\<lparr>ug_line := n\<rparr> = add_source l (g\<lparr>ug_line := n\<rparr>)"
  "ug_old (add_source l g) \<noteq> [] \<or> ug_new (add_source l g) \<noteq> []"
  by (cases l; simp add: add_change_def Let_def)+

lemma fold_add_source [simp]:
  "(fold add_source ls g)\<lparr>ug_line := n\<rparr> = fold add_source ls (g\<lparr>ug_line := n\<rparr>)"
  "ug_eof (fold add_source ls g) = ug_eof g"
  by (induction ls arbitrary: g) simp_all

lemma unnumbered_group_at [simp]: "unnumbered (group_at n g) = group_at 0 g"
proof -
  have comm: "h\<lparr>ug_eof := e, ug_line := n\<rparr> = h\<lparr>ug_line := n, ug_eof := e\<rparr>" for h :: update_group and e n by simp
  show ?thesis by (simp only: unnumbered_def group_at_def comm fold_add_source) (simp add: empty_group_def)
qed

lemma group_at_lines: "gs_lines g \<noteq> [] \<Longrightarrow> ug_old (group_at n g) \<noteq> [] \<or> ug_new (group_at n g) \<noteq> []"
  using add_source_fields(5) by (cases "gs_lines g" rule: rev_cases) (auto simp: group_at_def)

section \<open>Reading the groups back\<close>

abbreviation starred :: "ustring \<Rightarrow> bool" where
  "starred line \<equiv> starts_with (lit ''*** '') line"

lemma print_change_plain [simp]:
  "\<not> starred (print_change l)" "print_change l \<noteq> end_of_file_line" "print_change l \<noteq> lit ''@@''"
  "\<not> starts_with (lit ''@@ '') (print_change l)"
  by (cases l; simp add: starts_with_def lit_def end_of_file_line_def)+

lemma read_change [simp]:
  "\<exists>marker. split_change_line (print_change l) = Some (marker, line_of l) \<and> add_source l = add_change marker (line_of l)"
  by (cases l) auto

lemma read_changes:
  "parse_update_groups printable n (map print_change ls @ more_lines) groups (Some g) =
     parse_update_groups printable (n + length ls) more_lines groups (Some (fold add_source ls g))"
proof (induction ls arbitrary: n g)
  case (Cons l ls)
  obtain marker where "split_change_line (print_change l) = Some (marker, line_of l)" "add_source l = add_change marker (line_of l)"
    using read_change by blast
  with Cons show ?case by simp
qed simp

lemma read_first_change:
  assumes "ls \<noteq> []"
  shows "parse_update_groups printable n (map print_change ls @ more_lines) groups None =
     parse_update_groups printable (n + length ls) more_lines groups (Some (fold add_source ls (empty_group None (n + 1))))"
proof (cases ls)
  case (Cons l ls')
  obtain marker where "split_change_line (print_change l) = Some (marker, line_of l)" "add_source l = add_change marker (line_of l)"
    using read_change by blast
  with Cons show ?thesis by (simp add: read_changes)
qed (use assms in simp)

lemma context_lines_read [simp]:
  "lit ''@@'' \<noteq> end_of_file_line" "\<not> starred (lit ''@@'')"
  "lit ''@@ '' @ header \<noteq> end_of_file_line" "\<not> starred (lit ''@@ '' @ header)" "lit ''@@ '' @ header \<noteq> lit ''@@''"
  "drop 3 (lit ''@@ '') = []" "length (lit ''@@ '') = 3"
  by (simp_all add: starts_with_def lit_def end_of_file_line_def)

lemma read_group:
  assumes "proper_group g" "gs_context g \<noteq> None \<or> current = None" "gs_eof g \<Longrightarrow> rest = [] \<or> starred (hd rest)"
  shows "\<exists>n' k. parse_update_groups printable n (print_group g @ rest) groups current =
     parse_update_groups printable n' rest (finished groups current) (Some (group_at k g))"
proof -
  let ?tail = "(if gs_eof g then [end_of_file_line] else []) @ rest"
  let ?header = "case gs_context g of Some (Some header) \<Rightarrow> Some header | _ \<Rightarrow> None"
  have lines: "gs_lines g \<noteq> []" using assms(1) by (simp add: proper_group_def)
  have eof: "\<exists>n'. parse_update_groups printable m ?tail groups' (Some (fold add_source (gs_lines g) (empty_group ?header k))) =
      parse_update_groups printable n' rest groups' (Some (group_at k g))" for m groups' k
  proof (cases "gs_eof g")
    case True
    then show ?thesis using assms(3) by (intro exI [of _ "m + 1"]) (auto simp: group_at_def)
  next
    case False
    have "group_at k g = fold add_source (gs_lines g) (empty_group ?header k)"
      using False fold_add_source(2) [of "gs_lines g" "empty_group ?header k"]
      by (simp add: group_at_def empty_group_def)
    with False show ?thesis by auto
  qed
  show ?thesis
  proof (cases "gs_context g")
    case None
    then have "current = None" using assms(2) by simp
    obtain n' where n': "parse_update_groups printable (n + length (gs_lines g)) ?tail groups
        (Some (fold add_source (gs_lines g) (empty_group ?header (n + 1)))) =
        parse_update_groups printable n' rest groups (Some (group_at (n + 1) g))" using eof by blast
    have "print_group g @ rest = map print_change (gs_lines g) @ ?tail" by (simp add: print_group_def None)
    then have "parse_update_groups printable n (print_group g @ rest) groups current =
        parse_update_groups printable n' rest groups (Some (group_at (n + 1) g))"
      using n' by (simp only: \<open>current = None\<close> read_first_change [OF lines] None option.case)
    then show ?thesis by (auto simp: finished_def \<open>current = None\<close>)
  next
    case (Some at)
    define line where "line = (case at of None \<Rightarrow> lit ''@@'' | Some header \<Rightarrow> lit ''@@ '' @ header)"
    obtain n' where n': "parse_update_groups printable (n + 1 + length (gs_lines g)) ?tail (finished groups current)
        (Some (fold add_source (gs_lines g) (empty_group ?header (n + 1)))) =
        parse_update_groups printable n' rest (finished groups current) (Some (group_at (n + 1) g))" using eof by blast
    have "print_group g @ rest = line # map print_change (gs_lines g) @ ?tail"
      by (cases at) (simp_all add: print_group_def Some line_def)
    moreover have "parse_update_groups printable n (line # xs) groups current =
        parse_update_groups printable (n + 1) xs (finished groups current) (Some (empty_group ?header (n + 1)))" for xs
      by (cases at) (simp_all add: Some line_def)
    ultimately have "parse_update_groups printable n (print_group g @ rest) groups current =
        parse_update_groups printable n' rest (finished groups current) (Some (group_at (n + 1) g))"
      using n' by (simp only: read_changes)
    then show ?thesis by blast
  qed
qed

lemma read_groups:
  assumes "proper_groups gs" "gs \<noteq> [] \<Longrightarrow> gs_context (hd gs) \<noteq> None \<or> current = None"
    and rest: "rest \<noteq> []" "starred (hd rest)" "hd rest \<noteq> end_of_file_line"
  shows "\<exists>n' gs'. parse_update_groups printable n (concat (map print_group gs) @ rest) groups current =
       Inr (finished groups current @ gs', n', rest) \<and>
     map unnumbered gs' = map (group_at 0) gs \<and> (\<forall>g \<in> set gs'. ug_old g \<noteq> [] \<or> ug_new g \<noteq> [])"
  using assms(1,2)
proof (induction gs arbitrary: n groups current)
  case Nil
  then show ?case using rest by (cases rest) auto
next
  case (Cons g gs)
  have "gs_eof g \<Longrightarrow> gs = []" using Cons.prems(1) by auto
  then have eof: "gs_eof g \<Longrightarrow> concat (map print_group gs) @ rest = [] \<or> starred (hd (concat (map print_group gs) @ rest))"
    using rest by simp
  have "proper_group g" "gs_context g \<noteq> None \<or> current = None" using Cons.prems by simp_all
  from read_group [OF this eof, of printable n groups] obtain n' k where
    one: "parse_update_groups printable n (concat (map print_group (g # gs)) @ rest) groups current =
      parse_update_groups printable n' (concat (map print_group gs) @ rest) (finished groups current) (Some (group_at k g))"
    by auto
  have "proper_groups gs" "gs \<noteq> [] \<Longrightarrow> gs_context (hd gs) \<noteq> None \<or> Some (group_at k g) = None" using Cons.prems(1) by auto
  from Cons.IH [OF this, of n' "finished groups current"] obtain m gs' where
    rest: "parse_update_groups printable n' (concat (map print_group gs) @ rest) (finished groups current) (Some (group_at k g)) =
        Inr (finished (finished groups current) (Some (group_at k g)) @ gs', m, rest)"
      "map unnumbered gs' = map (group_at 0) gs" "\<forall>g \<in> set gs'. ug_old g \<noteq> [] \<or> ug_new g \<noteq> []"
    by blast
  have "gs_lines g \<noteq> []" using Cons.prems(1) by (simp add: proper_group_def)
  then show ?case
    by (intro exI [of _ m] exI [of _ "group_at k g # gs'"])
      (use one rest group_at_lines [of g k] in \<open>simp add: finished_def\<close>)
qed

section \<open>Reading the hunks back\<close>

lemma header_lines [simp]:
  "starred (lit ''*** Add File: '' @ path)" "starred (lit ''*** Delete File: '' @ path)"
  "starred (lit ''*** Update File: '' @ path)" "starred end_patch_line"
  "lit ''*** Add File: '' @ path \<noteq> end_of_file_line" "lit ''*** Delete File: '' @ path \<noteq> end_of_file_line"
  "lit ''*** Update File: '' @ path \<noteq> end_of_file_line" "end_patch_line \<noteq> end_of_file_line"
  "lit ''*** Add File: '' @ path \<noteq> end_patch_line" "lit ''*** Delete File: '' @ path \<noteq> end_patch_line"
  "lit ''*** Update File: '' @ path \<noteq> end_patch_line"
  "strip_prefix (lit ''*** Add File: '') (lit ''*** Delete File: '' @ path) = None"
  "strip_prefix (lit ''*** Add File: '') (lit ''*** Update File: '' @ path) = None"
  "strip_prefix (lit ''*** Delete File: '') (lit ''*** Update File: '' @ path) = None"
  "strip_prefix (lit ''*** Move to: '') (lit ''*** Add File: '' @ path) = None"
  "strip_prefix (lit ''*** Move to: '') (lit ''*** Delete File: '' @ path) = None"
  "strip_prefix (lit ''*** Move to: '') (lit ''*** Update File: '' @ path) = None"
  "strip_prefix (lit ''*** Move to: '') end_patch_line = None"
  by (simp_all add: starts_with_def strip_prefix_def lit_def end_of_file_line_def end_patch_line_def)

lemma plus_lines:
  assumes "rest = [] \<or> starred (hd rest)"
  shows "takeWhile (starts_with [43]) (map (Cons 43) lines @ rest) = map (Cons 43) lines"
proof -
  have "takeWhile (starts_with [43]) rest = []"
    using assms by (cases rest) (auto simp: starts_with_iff lit_def)
  then show ?thesis by (subst takeWhile_append2) (auto simp: starts_with_def)
qed

text \<open>What follows a hunk in a patch.\<close>

definition after_hunk :: "ustring list \<Rightarrow> bool" where
  "after_hunk rest \<longleftrightarrow> rest \<noteq> [] \<and> starred (hd rest) \<and> hd rest \<noteq> end_of_file_line \<and>
     strip_prefix (lit ''*** Move to: '') (hd rest) = None"

lemma after_hunk_rest [simp]: "after_hunk (concat (map print_hunk hunks) @ [end_patch_line])"
proof (cases hunks)
  case (Cons h hs)
  then show ?thesis by (cases h) (auto simp: after_hunk_def)
qed (simp add: after_hunk_def)

lemma first_group_line:
  assumes "proper_group g"
  shows "print_group g \<noteq> [] \<and> strip_prefix (lit ''*** Move to: '') (hd (print_group g)) = None"
proof (cases "gs_context g")
  case None
  then obtain l ls where "gs_lines g = l # ls" using assms by (cases "gs_lines g") (auto simp: proper_group_def)
  with None show ?thesis by (cases l) (auto simp: print_group_def strip_prefix_def starts_with_def lit_def)
next
  case (Some at)
  then show ?thesis by (cases at) (auto simp: print_group_def strip_prefix_def starts_with_def lit_def)
qed

lemma read_update:
  assumes "proper_hunk (UpdateSource path moveto gs)" "after_hunk rest"
  shows "\<exists>groups n'. parse_update printable path n (tl (print_hunk (UpdateSource path moveto gs)) @ rest) =
       Inr (UpdateFile path moveto groups, n', rest) \<and> map unnumbered groups = map (group_at 0) gs"
proof -
  let ?lines = "concat (map print_group gs) @ rest"
  have stop: "rest \<noteq> []" "starred (hd rest)" "hd rest \<noteq> end_of_file_line" using assms(2) by (simp_all add: after_hunk_def)
  have "proper_groups gs" using assms(1) by simp
  note groups = read_groups [OF this _ stop, of None printable _ "[]"]
  have move: "\<exists>m. parse_move n (tl (print_hunk (UpdateSource path moveto gs)) @ rest) = Inr (moveto, m, ?lines)"
  proof (cases moveto)
    case (Some target)
    then show ?thesis using assms(1) by (auto simp: parse_move_def)
  next
    case None
    then obtain g gs' where "gs = g # gs'" using assms(1) by (cases gs) auto
    then obtain l ls where "?lines = l # ls" "strip_prefix (lit ''*** Move to: '') l = None"
      using first_group_line [of g] assms(1) by (cases "print_group g") auto
    with None show ?thesis by (simp add: parse_move_def)
  qed
  then obtain m where move: "parse_move n (tl (print_hunk (UpdateSource path moveto gs)) @ rest) = Inr (moveto, m, ?lines)" by blast
  obtain n' gs' where read: "parse_update_groups printable m ?lines [] None = Inr (gs', n', rest)"
    "map unnumbered gs' = map (group_at 0) gs" "\<forall>g \<in> set gs'. ug_old g \<noteq> [] \<or> ug_new g \<noteq> []"
    using groups [of m] by (auto simp: finished_def)
  have "List.find (\<lambda>g. ug_old g = [] \<and> ug_new g = []) gs' = None" using read(3) by (auto simp: find_None_iff)
  moreover have "\<not> (gs' = [] \<and> moveto = None)" using assms(1) read(2) by auto
  ultimately show ?thesis using move read assms(1) by (simp add: parse_update_def)
qed

lemma hunks_read:
  assumes "list_all proper_hunk hunks"
  shows "\<exists>m hs. parse_hunks printable n (concat (map print_hunk hunks) @ [end_patch_line]) acc = Inr (acc @ hs, Some (m, [])) \<and>
     map unnumbered_hunk hs = map hunk_of hunks"
  using assms
proof (induction hunks arbitrary: n acc)
  case Nil
  then show ?case by (simp add: parse_hunks.simps(2))
next
  case (Cons h hunks)
  let ?rest = "concat (map print_hunk hunks) @ [end_patch_line]"
  have step: "\<exists>n' h'. parse_hunks printable n (print_hunk h @ ?rest) acc = parse_hunks printable n' ?rest (acc @ [h']) \<and>
      unnumbered_hunk h' = hunk_of h"
  proof (cases h)
    case (AddSource path lines)
    have "takeWhile (starts_with [43]) (map (Cons 43) lines @ ?rest) = map (Cons 43) lines"
      using after_hunk_rest [of hunks] unfolding after_hunk_def by (intro plus_lines) blast
    then show ?thesis using AddSource Cons.prems
      by (intro exI [of _ "n + 1 + length lines"] exI [of _ "AddFile path lines"])
        (simp add: parse_hunks.simps(2) comp_def)
  next
    case (DeleteSource path)
    then show ?thesis using Cons.prems
      by (intro exI [of _ "n + 1"] exI [of _ "DeleteFile path"]) (simp add: parse_hunks.simps(2))
  next
    case (UpdateSource path moveto gs)
    then obtain groups n' where update: "parse_update printable path (n + 1) (tl (print_hunk h) @ ?rest) =
        Inr (UpdateFile path moveto groups, n', ?rest)" "map unnumbered groups = map (group_at 0) gs"
      using read_update [of path moveto gs ?rest printable "n + 1"] Cons.prems by auto
    have split: "print_hunk h = (lit ''*** Update File: '' @ path) # tl (print_hunk h)" by (simp add: UpdateSource)
    have "parse_hunks printable n (print_hunk h @ ?rest) acc = parse_hunks printable n' ?rest (acc @ [UpdateFile path moveto groups])"
      using update(1) by (subst split) (simp only: append_Cons parse_hunks.simps(2) header_lines strip_prefix_append if_False option.case sum.case prod.case)
    with update(2) UpdateSource show ?thesis
      by (intro exI [of _ n'] exI [of _ "UpdateFile path moveto groups"]) simp
  qed
  then obtain n' h' where step: "parse_hunks printable n (print_hunk h @ ?rest) acc = parse_hunks printable n' ?rest (acc @ [h'])"
    "unnumbered_hunk h' = hunk_of h" by blast
  have "list_all proper_hunk hunks" using Cons.prems by simp
  from Cons.IH [OF this, of n' "acc @ [h']"] obtain m hs where
    "parse_hunks printable n' ?rest (acc @ [h']) = Inr ((acc @ [h']) @ hs, Some (m, []))"
    "map unnumbered_hunk hs = map hunk_of hunks" by blast
  with step show ?case by (intro exI [of _ m] exI [of _ "h' # hs"]) simp
qed

section \<open>The wrapper leaves a printed patch alone\<close>

lemma str_lines_join:
  "ls \<noteq> [] \<Longrightarrow> list_all one_line ls \<Longrightarrow> last ls \<noteq> [] \<Longrightarrow> str_lines (join_with [10] ls) = ls"
proof (induction "[10] :: ustring" ls rule: join_with.induct)
  case (2 l)
  then show ?case
    by (auto simp: str_lines_def split_inclusive_single one_line_def line_content_def strip_suffix_def ends_with_break
        dest: last_in_set)
next
  case (3 l k ls)
  have "line_content (l @ [10]) = l"
    using 3(3) by (cases l rule: rev_cases) (auto simp: line_content_def strip_suffix_def one_line_def ends_with_break)
  with 3 show ?case by (simp add: str_lines_def split_inclusive_append one_line_def)
qed simp

lemma unix_same: "13 \<notin> set s \<Longrightarrow> str_replace [13, 10] [10 :: nat] s = s"
  by (induction s) (auto simp: str_replace.simps(2) starts_with_crlf)

lemma set_join_with:
  fixes ls :: "ustring list"
  shows "set (join_with [10] ls) \<subseteq> insert 10 (\<Union> (set ` set ls))"
  by (induction "[10] :: ustring" ls rule: join_with.induct) auto

lemma one_line_simps [simp]:
  "one_line (c # s) \<longleftrightarrow> c \<noteq> 10 \<and> c \<noteq> 13 \<and> one_line s" "one_line (s @ t) \<longleftrightarrow> one_line s \<and> one_line t"
  "one_line (lit ''*** Add File: '')" "one_line (lit ''*** Delete File: '')" "one_line (lit ''*** Update File: '')"
  "one_line (lit ''*** Move to: '')" "one_line (lit ''@@'')" "one_line (lit ''@@ '')" "one_line end_of_file_line"
  "one_line begin_patch_line" "one_line end_patch_line"
  by (auto simp: one_line_def lit_def end_of_file_line_def begin_patch_line_def end_patch_line_def)

lemma one_line_group: "proper_group g \<Longrightarrow> list_all one_line (print_group g)"
proof -
  assume g: "proper_group g"
  have "one_line (print_change l)" if "one_line (line_of l)" for l using that by (cases l) auto
  with g show ?thesis by (auto simp: print_group_def proper_group_def list_all_iff split: option.splits)
qed

lemma one_line_groups: "proper_groups gs \<Longrightarrow> list_all one_line (concat (map print_group gs))"
  by (induction gs) (auto simp: one_line_group)

lemma one_line_hunk:
  assumes "proper_hunk h"
  shows "list_all one_line (print_hunk h)"
proof (cases h)
  case (UpdateSource path moveto gs)
  with assms one_line_groups [of gs] show ?thesis by (cases moveto) (auto simp del: map_concat)
qed (use assms in \<open>auto simp: list_all_iff\<close>)

lemma one_line_patch: "list_all proper_hunk hunks \<Longrightarrow> list_all one_line (patch_lines hunks)"
  by (induction hunks) (auto simp: patch_lines_def one_line_hunk)

lemma strip_wrapper_print:
  assumes "list_all proper_hunk hunks"
  shows "strip_wrapper (print_patch hunks) = print_patch hunks"
proof -
  have lines: "list_all one_line (patch_lines hunks)" using one_line_patch [OF assms] .
  have "13 \<notin> set (print_patch hunks)"
    using lines set_join_with [of "patch_lines hunks"] by (auto simp: print_patch_def one_line_def list_all_iff)
  moreover have "str_lines (print_patch hunks) = patch_lines hunks"
    unfolding print_patch_def by (rule str_lines_join) (use lines in \<open>auto simp: patch_lines_def end_patch_line_def lit_def\<close>)
  moreover have "\<not> only_space begin_patch_line" "\<not> only_space end_patch_line" "trim begin_patch_line = begin_patch_line"
    by (simp_all add: only_space_def trim_def trim_end_def trim_start_def begin_patch_line_def end_patch_line_def lit_def is_whitespace_def)
  moreover have "\<not> starts_with code_fence begin_patch_line" "heredoc_delimiter begin_patch_line = None"
    by (simp_all add: starts_with_def code_fence_def begin_patch_line_def lit_def heredoc_delimiter_def strip_prefix_def)
  ultimately show ?thesis
    by (simp add: strip_wrapper_def unix_same unwrapped_def drop_blank_end_def patch_lines_def print_patch_def)
qed

theorem parse_printed_patch:
  assumes "hunks \<noteq> []" "list_all proper_hunk hunks"
  shows "\<exists>hs. parse_patch printable (print_patch hunks) = Inr hs \<and> map unnumbered_hunk hs = map hunk_of hunks"
proof -
  obtain m hs where read: "parse_hunks printable 1 (concat (map print_hunk hunks) @ [end_patch_line]) [] = Inr (hs, Some (m, []))"
    "map unnumbered_hunk hs = map hunk_of hunks"
    using hunks_read [OF assms(2), of printable 1 "[]"] by auto
  have "str_lines (print_patch hunks) = patch_lines hunks"
    unfolding print_patch_def by (rule str_lines_join)
      (use one_line_patch [OF assms(2)] in \<open>auto simp: patch_lines_def end_patch_line_def lit_def\<close>)
  moreover have "hs \<noteq> []" using read(2) assms(1) by auto
  ultimately show ?thesis
    using read by (simp add: parse_patch_def strip_wrapper_print [OF assms(2)] patch_lines_def)
qed

end
