(* ===== verification/PatchCallLaws.thy ===== *)
theory PatchCallLaws
  imports PatchCall
begin

text \<open>
  What an \<open>apply_patch\<close> call asks of its host: planning only reads, the changes come after it, under the
  gate, and they are the coalesced ones in their order.
\<close>

section \<open>Planning over a view that keeps an invariant\<close>

text \<open>What planning relies on of the view: its operations keep \<open>I\<close>.\<close>

locale reading_view =
  fixes view :: "('f, 'k) files_view" and I :: "'f \<Rightarrow> bool"
  assumes cancelled_keeps: "keeps I (fv_cancelled view)"
    and resolve_keeps: "\<And>path. keeps I (fv_resolve view path)"
    and exists_keeps: "\<And>key. keeps I (fv_exists view key)"
    and read_keeps: "\<And>key display. keeps I (fv_read view key display)"
begin

lemma present_keeps: "keeps I (is_present view key staged)"
  unfolding is_present_def by (intro keeps_intros exists_keeps)

lemma current_keeps: "keeps I (current_contents view key display staged)"
  unfolding current_contents_def by (intro keeps_intros read_keeps)

lemma hunk_keeps: "keeps I (plan_hunk view staged h)"
  by (cases h) (auto intro!: keeps_intros resolve_keeps present_keeps current_keeps simp: Let_def)

lemma plan_from_keeps: "keeps I (plan_from view staged ops hunks)"
  by (induction hunks arbitrary: staged ops) (auto intro!: keeps_intros cancelled_keeps hunk_keeps)

lemma plan_keeps: "keeps I (plan_patch view hunks)"
  unfolding plan_patch_def by (rule plan_from_keeps)

end

section \<open>The calls a host receives\<close>

datatype host_change = HostCreate ustring "byte list" | HostWrite ustring "byte list" | HostRemove ustring

fun change_call :: "ustring patch_change \<Rightarrow> host_change" where
  "change_call (CreateFile path display contents) = HostCreate path contents"
| "change_call (WriteFile path display contents) = HostWrite path contents"
| "change_call (RemoveFile path display) = HostRemove path"

datatype patch_call =
    AskedCancelled bool
  | AskedStat ustring "fs_error + entry"
  | AskedRead ustring
  | AskedBegin
  | AskedChange host_change "fs_error + unit"
  | AskedDrop

definition patch_logged :: "('w, 'm) patch_host \<Rightarrow> ('w \<times> patch_call list, 'm) patch_host" where
  "patch_logged host =
     \<lparr>ph_cancelled = with_log (ph_cancelled host) AskedCancelled,
      ph_stat = (\<lambda>p. with_log (ph_stat host p) (AskedStat p)),
      ph_read = (\<lambda>p i n. with_log (ph_read host p i n) (\<lambda>_. AskedRead p)),
      ph_begin = with_log (ph_begin host) (\<lambda>_. AskedBegin),
      ph_write = (\<lambda>gate p bytes. with_log (ph_write host gate p bytes) (AskedChange (HostWrite p bytes))),
      ph_create = (\<lambda>gate p bytes. with_log (ph_create host gate p bytes) (AskedChange (HostCreate p bytes))),
      ph_remove = (\<lambda>gate p. with_log (ph_remove host gate p) (AskedChange (HostRemove p))),
      ph_drop = (\<lambda>gate. with_log (ph_drop host gate) (\<lambda>_. AskedDrop))\<rparr>"

fun reading_call :: "patch_call \<Rightarrow> bool" where
  "reading_call AskedBegin = False"
| "reading_call (AskedChange c r) = False"
| "reading_call AskedDrop = False"
| "reading_call _ = True"

text \<open>The log grew by calls that only read.\<close>

definition read_since :: "patch_call list \<Rightarrow> 'w \<times> patch_call list \<Rightarrow> bool" where
  "read_since log0 s \<longleftrightarrow> (\<exists>added. snd s = log0 @ added \<and> list_all reading_call added)"

lemma read_since_refl [simp]: "read_since log (w, log)"
  by (auto simp: read_since_def)

lemma keeps_with_log:
  assumes "\<And>r. reading_call (call r)"
  shows "keeps (read_since log0) (with_log m call)"
  using assms by (force simp: keeps_def read_since_def with_log_def split: prod.splits)

lemma logged_keeps [keeps_intros]:
  "keeps (read_since log0) (ph_cancelled (patch_logged host))"
  "keeps (read_since log0) (ph_stat (patch_logged host) p)"
  "keeps (read_since log0) (ph_read (patch_logged host) p i n)"
  by (simp_all add: patch_logged_def keeps_with_log)

lemma logged_changes:
  "ph_write (patch_logged host) gate p bytes = with_log (ph_write host gate p bytes) (AskedChange (HostWrite p bytes))"
  "ph_create (patch_logged host) gate p bytes = with_log (ph_create host gate p bytes) (AskedChange (HostCreate p bytes))"
  "ph_remove (patch_logged host) gate p = with_log (ph_remove host gate p) (AskedChange (HostRemove p))"
  by (simp_all add: patch_logged_def)

lemma keeps_on_host: "keeps I m \<Longrightarrow> keeps (\<lambda>(w, found, absent). I w) (on_host m)"
  by (auto simp: keeps_def on_host_def split: prod.splits)

lemma keeps_fs_error [keeps_intros]:
  "keeps I k1 \<Longrightarrow> keeps I k2 \<Longrightarrow> keeps I k3 \<Longrightarrow> keeps I k4 \<Longrightarrow> (\<And>m. keeps I (k5 m)) \<Longrightarrow> keeps I k6 \<Longrightarrow>
   (\<And>m. keeps I (k7 m)) \<Longrightarrow>
   keeps I (case e of OutsideWorkspace \<Rightarrow> k1 | NotFound \<Rightarrow> k2 | WrongKind \<Rightarrow> k3 | AlreadyExists \<Rightarrow> k4
     | InvalidPattern m \<Rightarrow> k5 m | FsCancelled \<Rightarrow> k6 | Io m \<Rightarrow> k7 m)"
  by (cases e) simp_all

lemma keeps_found [keeps_intros]:
  "keeps I k1 \<Longrightarrow> keeps I k2 \<Longrightarrow> keeps I k3 \<Longrightarrow> (\<And>m. keeps I (k4 m)) \<Longrightarrow>
   keeps I (case f of FoundFile \<Rightarrow> k1 | FoundNotFile \<Rightarrow> k2 | FoundAbsent \<Rightarrow> k3 | FoundUnreadable m \<Rightarrow> k4 m)"
  by (cases f) simp_all

lemma display_from_keeps: "keeps (read_since log0) (display_from (patch_logged host) absolute parts splits)"
  by (induction splits) (auto intro!: keeps_intros)

lemma canonical_at_keeps: "keeps (read_since log0) (canonical_at (patch_logged host) display slashes)"
  by (induction slashes) (auto intro!: keeps_intros)

lemma same_absent_keeps: "keeps (read_since log0) (same_absent (patch_logged host) canonical rivals)"
  by (induction rivals) (auto intro!: keeps_intros canonical_at_keeps simp: canonical_absent_def)

lemma rival_keeps: "keeps (read_since log0) (rival_of (patch_logged host) display rivals)"
  unfolding rival_of_def canonical_absent_def by (intro keeps_intros canonical_at_keeps same_absent_keeps)

lemma stat_of_keeps: "keeps (read_since log0) (stat_of (patch_logged host) path)"
  unfolding stat_of_def new_file_display_def by (intro keeps_intros display_from_keeps)

lemma read_windows_keeps: "keeps (read_since log0) (read_windows fuel (patch_logged host) request bytes)"
  by (induction fuel arbitrary: bytes) (auto intro!: keeps_intros)

lemma absent_key_keeps: "keeps (\<lambda>(w, found, absent). read_since log0 w) (absent_key (patch_logged host) display)"
  unfolding absent_key_def
  by (intro keeps_intros keeps_on_host rival_keeps keeps_modify) auto

lemma resolve_path_keeps: "keeps (\<lambda>(w, found, absent). read_since log0 w) (resolve_path (patch_logged host) path)"
  unfolding resolve_path_def
  by (intro keeps_intros keeps_on_host stat_of_keeps absent_key_keeps keeps_modify) auto

lemma read_key_keeps: "keeps (\<lambda>(w, found, absent). read_since log0 w) (read_key fuel (patch_logged host) key display)"
  unfolding read_key_def
  by (intro keeps_intros keeps_on_host read_windows_keeps)

text \<open>Planning over the host's files only reads.\<close>

interpretation host_plan: reading_view "host_files fuel (patch_logged host)" "\<lambda>(w, found, absent). read_since log0 w"
  for fuel host log0
  by unfold_locales
    (auto simp: host_files_def key_exists_def intro!: keeps_on_host keeps_intros resolve_path_keeps read_key_keeps)

lemma plan_over_keeps:
  fixes host :: "('w, 'm) patch_host"
  shows "keeps (read_since log0) (plan_over fuel (patch_logged host) hunks)"
  unfolding keeps_def
proof (intro allI impI)
  fix s :: "'w \<times> patch_call list" assume s: "read_since log0 s"
  obtain r w found absent where run: "run_state (plan_patch (host_files fuel (patch_logged host)) hunks) (s, Map.empty, Map.empty) =
      (r, (w, found, absent))" by (cases "run_state (plan_patch (host_files fuel (patch_logged host)) hunks) (s, Map.empty, Map.empty)") auto
  have "read_since log0 w" using keepsD [OF host_plan.plan_keeps _ run, of log0] s by simp
  then show "read_since log0 (snd (run_state (plan_over fuel (patch_logged host) hunks) s))"
    by (simp add: plan_over_def run)
qed

section \<open>Under the gate\<close>

text \<open>The changes a host was asked for, with its answers.\<close>

definition asked :: "patch_call list \<Rightarrow> (host_change \<times> (fs_error + unit)) list" where
  "asked log = List.map_filter (\<lambda>c. case c of AskedChange h r \<Rightarrow> Some (h, r) | _ \<Rightarrow> None) log"

lemma asked_simps [simp]:
  "asked [] = []" "asked (a @ b) = asked a @ asked b"
  "asked (c # log) = (case c of AskedChange h r \<Rightarrow> [(h, r)] | _ \<Rightarrow> []) @ asked log"
  by (simp_all add: asked_def List.map_filter_def split: patch_call.splits)

lemma asked_reading: "list_all reading_call log \<Longrightarrow> asked log = []"
  by (induction log) (auto split: patch_call.splits elim: reading_call.elims)

text \<open>What the changes of a call asked for: each of \<open>changes\<close> in order up to the first refused one, and
  all of them, accepted, when the answer is a success.\<close>

definition asks_in_order :: "ustring patch_change list \<Rightarrow> (patch_failure + unit) \<Rightarrow> (host_change \<times> (fs_error + unit)) list \<Rightarrow> bool" where
  "asks_in_order changes r calls \<longleftrightarrow>
     map fst calls = take (length calls) (map change_call changes) \<and>
     (\<forall>(c, answer) \<in> set (butlast calls). \<not> isl answer) \<and>
     (\<not> isl r \<longrightarrow> length calls = length changes \<and> (\<forall>(c, answer) \<in> set calls. \<not> isl answer))"

definition under_gate :: "patch_call \<Rightarrow> bool" where
  "under_gate c \<longleftrightarrow> c \<noteq> AskedBegin \<and> c \<noteq> AskedDrop"

lemma reading_under_gate: "list_all reading_call log \<Longrightarrow> list_all under_gate log"
  by (auto simp: list_all_iff under_gate_def)

lemma reads_wp:
  assumes "\<And>log0. keeps (read_since log0) m" and "\<And>r w' added. list_all reading_call added \<Longrightarrow> Q r (w', log @ added)"
  shows "wp m Q (w, log)"
proof (rule wp_runI)
  fix r t assume run: "run_state m (w, log) = (r, t)"
  have "read_since log t" using keepsD [OF assms(1) _ run] by simp
  then show "Q r t" using assms(2) by (cases t) (auto simp: read_since_def)
qed

lemma wrong_kind_keeps: "keeps (read_since log0) (wrong_kind_reason (patch_logged host) display)"
  unfolding wrong_kind_reason_def Let_def by (intro keeps_intros)

lemma mutation_failure_keeps: "keeps (read_since log0) (mutation_failure (patch_logged host) error display wrap)"
  unfolding mutation_failure_def by (intro keeps_intros wrong_kind_keeps)

text \<open>One change: the host is asked for it once, and the answer is a success if its answer is.\<close>

lemma wp_apply_change:
  "wp (apply_change (patch_logged host) gate change) (\<lambda>r (w', log'). \<exists>answer added.
     log' = log @ AskedChange (change_call change) answer # added \<and> list_all reading_call added \<and> (isl r \<longleftrightarrow> isl answer)) (w, log)"
proof -
  have failed: "wp (State_Monad.bind (mutation_failure (patch_logged host) e display wrap) (\<lambda>f. ret (Inl f))) (\<lambda>r (w', log'). \<exists>answer added.
     log' = log @ AskedChange c answer # added \<and> list_all reading_call added \<and> (isl r \<longleftrightarrow> isl answer)) (w', log @ [AskedChange c (Inl e)])"
    for e display wrap c and w' :: 'a
    unfolding wp_bind by (rule reads_wp [OF mutation_failure_keeps]) auto
  have each: "wp (State_Monad.bind (with_log m (AskedChange c)) (\<lambda>r. case r of
        Inl e \<Rightarrow> State_Monad.bind (mutation_failure (patch_logged host) e display wrap) (\<lambda>f. ret (Inl f))
      | Inr _ \<Rightarrow> ret (Inr ()))) (\<lambda>r (w', log'). \<exists>answer added.
     log' = log @ AskedChange c answer # added \<and> list_all reading_call added \<and> (isl r \<longleftrightarrow> isl answer)) (w, log)"
    for m c display wrap
  proof -
    obtain r w' where run: "run_state m w = (r, w')" by fastforce
    show ?thesis
    proof (cases r)
      case (Inl e)
      then show ?thesis
        using failed [of e display wrap c w'] by (simp add: wp_bind [of "with_log _ _"] wp_with_log run del: wp_bind)
    next
      case (Inr u)
      then show ?thesis by (simp add: wp_with_log run)
    qed
  qed
  show ?thesis
    unfolding apply_change_def
    by (cases change) (simp_all add: each [simplified] logged_changes)
qed

lemma wp_apply_changes:
  "wp (apply_changes (patch_logged host) gate changes) (\<lambda>r (w', log'). \<exists>added.
     log' = log @ added \<and> list_all under_gate added \<and> asks_in_order changes r (asked added)) (w, log)"
proof (induction changes arbitrary: w log)
  case Nil
  then show ?case by (simp add: asks_in_order_def)
next
  case (Cons change changes)
  let ?P = "\<lambda>log r (w', log'). \<exists>added. log' = log @ added \<and> list_all under_gate added \<and>
     asks_in_order (change # changes) r (asked added)"
  have refused: "?P log r (w', log @ added)"
    if "list_all under_gate added" "asked added = [] \<or> (\<exists>e. asked added = [(change_call change, Inl e)])" "isl r"
    for r added w' log using that by (auto simp: asks_in_order_def)
  have one: "wp (State_Monad.bind (apply_change (patch_logged host) gate change)
      (\<lambda>r. case r of Inl e \<Rightarrow> ret (Inl e) | Inr _ \<Rightarrow> apply_changes (patch_logged host) gate changes)) (?P log) (w, log @ [c])"
    if c: "reading_call c" for w and log :: "patch_call list" and c
    unfolding wp_bind
  proof (rule wp_mono [OF wp_apply_change])
    fix r :: "patch_failure + unit" and t :: "'a \<times> patch_call list"
    assume "case t of (w', log') \<Rightarrow> \<exists>answer added.
      log' = (log @ [c]) @ AskedChange (change_call change) answer # added \<and> list_all reading_call added \<and> isl r = isl answer"
    then obtain w' answer added where t: "t = (w', log @ c # AskedChange (change_call change) answer # added)"
      "list_all reading_call added" "isl r = isl answer" by (cases t) auto
    have under: "list_all under_gate (c # AskedChange (change_call change) answer # added)"
      using reading_under_gate [OF t(2)] reading_under_gate [of "[c]"] c by (simp add: under_gate_def)
    have only: "asked (c # AskedChange (change_call change) answer # added) = [(change_call change, answer)]"
      using asked_reading [OF t(2)] asked_reading [of "[c]"] c by simp
    show "wp (case r of Inl e \<Rightarrow> ret (Inl e) | Inr _ \<Rightarrow> apply_changes (patch_logged host) gate changes) (?P log) t"
    proof (cases r)
      case (Inl e)
      then obtain e' where "answer = Inl e'" using t(3) by (cases answer) auto
      then show ?thesis using refused [OF under, of "Inl e"] only Inl by (simp add: t(1))
    next
      case (Inr u)
      then have ok: "\<not> isl answer" using t(3) by simp
      have "wp (apply_changes (patch_logged host) gate changes) (?P log) (w', log @ c # AskedChange (change_call change) answer # added)"
      proof (rule wp_mono [OF Cons.IH])
        fix r' :: "patch_failure + unit" and t' :: "'a \<times> patch_call list"
        assume "case t' of (w', log') \<Rightarrow> \<exists>added'. log' = (log @ c # AskedChange (change_call change) answer # added) @ added' \<and>
          list_all under_gate added' \<and> asks_in_order changes r' (asked added')"
        then obtain w'' added' where t': "t' = (w'', log @ (c # AskedChange (change_call change) answer # added) @ added')"
          "list_all under_gate added'" "asks_in_order changes r' (asked added')" by (cases t') auto
        have "asks_in_order (change # changes) r' (asked ((c # AskedChange (change_call change) answer # added) @ added'))"
          using t'(3) ok unfolding asked_simps(2) only by (auto simp: asks_in_order_def)
        moreover have "list_all under_gate ((c # AskedChange (change_call change) answer # added) @ added')"
          using under t'(2) by simp
        ultimately show "?P log r' t'" unfolding t'(1) by blast
      qed
      then show ?thesis by (simp add: Inr t(1))
    qed
  qed
  obtain b w' where b: "run_state (ph_cancelled host) w = (b, w')" by fastforce
  have cancel: "wp (ph_cancelled (patch_logged host)) Q (w, log) = Q b (w', log @ [AskedCancelled b])" for Q
    by (simp add: patch_logged_def wp_with_log b)
  show ?case
    unfolding apply_changes.simps wp_bind [of "ph_cancelled _"] cancel
    using one [of "AskedCancelled b" log w'] refused [of "[AskedCancelled b]" "Inl PatchCancelled" log w']
    by (cases b) (auto simp: under_gate_def simp del: wp_bind)
qed

text \<open>The transient paths were found empty.\<close>

definition found_absent :: "(ustring \<times> ustring) list \<Rightarrow> patch_call list \<Rightarrow> bool" where
  "found_absent paths log \<longleftrightarrow> list_all (\<lambda>(path, display). \<exists>e. AskedStat path (Inl e) \<in> set log) paths"

lemma wp_check_absents:
  "wp (check_absents (patch_logged host) paths) (\<lambda>r (w', log'). \<exists>added.
     log' = log @ added \<and> list_all reading_call added \<and> (\<not> isl r \<longrightarrow> found_absent paths added)) (w, log)"
proof (induction paths arbitrary: w log)
  case Nil
  then show ?case by (simp add: found_absent_def)
next
  case (Cons p paths)
  obtain path display where p: "p = (path, display)" by fastforce
  obtain r w' where r: "run_state (ph_stat host path) w = (r, w')" by fastforce
  have stat: "wp (ph_stat (patch_logged host) path) Q (w, log) = Q r (w', log @ [AskedStat path r])" for Q
    by (simp add: patch_logged_def wp_with_log r)
  have more: "wp (check_absents (patch_logged host) paths) (\<lambda>r (w', log'). \<exists>added.
     log' = log @ added \<and> list_all reading_call added \<and> (\<not> isl r \<longrightarrow> found_absent (p # paths) added)) (w', log @ [AskedStat path (Inl e)])"
    for e
  proof (rule wp_mono [OF Cons.IH])
    fix r' :: "patch_failure + unit" and t' :: "'a \<times> patch_call list"
    assume "case t' of (w', log') \<Rightarrow> \<exists>added. log' = (log @ [AskedStat path (Inl e)]) @ added \<and> list_all reading_call added \<and>
      (\<not> isl r' \<longrightarrow> found_absent paths added)"
    then obtain w'' added where t': "t' = (w'', log @ AskedStat path (Inl e) # added)" "list_all reading_call added"
      "\<not> isl r' \<longrightarrow> found_absent paths added" by (cases t') auto
    then show "case t' of (w', log') \<Rightarrow> \<exists>added. log' = log @ added \<and> list_all reading_call added \<and>
      (\<not> isl r' \<longrightarrow> found_absent (p # paths) added)"
      by (auto simp: found_absent_def list_all_iff p intro!: exI [of _ "AskedStat path (Inl e) # added"])
  qed
  show ?case
    unfolding p check_absents.simps check_absent_def wp_bind stat wp_return
    using more unfolding p by (auto split: sum.splits fs_error.splits)
qed

text \<open>What the log of a call with planned operations holds: reads, then the gate with the changes.\<close>

definition changed_as_planned :: "ustring patch_op list \<Rightarrow> (patch_failure + unit) \<Rightarrow> patch_call list \<Rightarrow> bool" where
  "changed_as_planned ops r held \<longleftrightarrow>
     list_all under_gate held \<and> asks_in_order (coalesce ops) r (asked held) \<and>
     (asked held \<noteq> [] \<or> \<not> isl r \<longrightarrow> found_absent (created_and_removed ops (coalesce ops)) held)"

lemma wp_change_workspace:
  "wp (change_workspace (patch_logged host) (created_and_removed ops (coalesce ops)) (coalesce ops)) (\<lambda>r (w', log').
     \<exists>held. log' = log @ AskedBegin # held @ [AskedDrop] \<and> changed_as_planned ops r held) (w, log)"
proof -
  let ?transient = "created_and_removed ops (coalesce ops)"
  let ?P = "\<lambda>r (w', log'). \<exists>held. log' = log @ AskedBegin # held \<and> changed_as_planned ops r held"
  obtain gate w1 where start: "run_state (ph_begin host) w = (gate, w1)" by fastforce
  have body: "wp (do {
       r \<leftarrow> check_absents (patch_logged host) ?transient;
       case r of Inl e \<Rightarrow> ret (Inl e) | Inr _ \<Rightarrow> apply_changes (patch_logged host) gate (coalesce ops)
     }) ?P (w1, log @ [AskedBegin])"
    unfolding wp_bind
  proof (rule wp_mono [OF wp_check_absents])
    fix r :: "patch_failure + unit" and t :: "'a \<times> patch_call list"
    assume "case t of (w', log') \<Rightarrow> \<exists>added. log' = (log @ [AskedBegin]) @ added \<and> list_all reading_call added \<and>
      (\<not> isl r \<longrightarrow> found_absent ?transient added)"
    then obtain w2 added where t: "t = (w2, log @ AskedBegin # added)" "list_all reading_call added"
      "\<not> isl r \<longrightarrow> found_absent ?transient added" by (cases t) auto
    show "wp (case r of Inl e \<Rightarrow> ret (Inl e) | Inr _ \<Rightarrow> apply_changes (patch_logged host) gate (coalesce ops)) ?P t"
    proof (cases r)
      case (Inl e)
      then show ?thesis using t reading_under_gate [OF t(2)] asked_reading [OF t(2)]
        by (auto simp: changed_as_planned_def asks_in_order_def)
    next
      case (Inr u)
      have "wp (apply_changes (patch_logged host) gate (coalesce ops)) ?P (w2, log @ AskedBegin # added)"
      proof (rule wp_mono [OF wp_apply_changes])
        fix r' :: "patch_failure + unit" and t' :: "'a \<times> patch_call list"
        assume "case t' of (w', log') \<Rightarrow> \<exists>added'. log' = (log @ AskedBegin # added) @ added' \<and> list_all under_gate added' \<and>
          asks_in_order (coalesce ops) r' (asked added')"
        then obtain w3 added' where t': "t' = (w3, log @ AskedBegin # added @ added')" "list_all under_gate added'"
          "asks_in_order (coalesce ops) r' (asked added')" by (cases t') auto
        have "changed_as_planned ops r' (added @ added')"
          using t(2,3) t'(2,3) Inr reading_under_gate [OF t(2)] asked_reading [OF t(2)]
          by (auto simp: changed_as_planned_def found_absent_def list_all_iff)
        then show "?P r' t'" by (simp add: t'(1))
      qed
      then show ?thesis by (simp add: Inr t(1))
    qed
  qed
  have drop: "wp (ph_drop (patch_logged host) gate) (\<lambda>_. Q) (w2, log2) = Q (snd (run_state (ph_drop host gate) w2), log2 @ [AskedDrop])"
    for Q w2 log2 by (simp add: patch_logged_def wp_with_log split: prod.splits)
  have begins: "wp (ph_begin (patch_logged host)) Q (w, log) = Q gate (w1, log @ [AskedBegin])" for Q
    by (simp add: patch_logged_def wp_with_log start)
  show ?thesis
    unfolding change_workspace_def wp_bind begins wp_return drop
    using body [unfolded wp_bind]
  proof (rule wp_mono, goal_cases)
    case (1 r t)
    from 1 show ?case by (rule wp_mono) (auto simp: drop)
  qed
qed

lemma plan_over_state:
  "run_state (plan_over fuel host hunks) w = (r, w') \<Longrightarrow>
   fst (run_state (plan_patch (host_files fuel host) hunks) (w, Map.empty, Map.empty)) = r"
  by (auto simp: plan_over_def split: prod.splits)

text \<open>The whole run after a patch that parses: only reads, or the planned changes under the gate.\<close>

definition patched_as_planned ::
  "nat \<Rightarrow> ('w, 'm) patch_host \<Rightarrow> hunk list \<Rightarrow> 'w \<times> patch_call list \<Rightarrow> patch_call list \<Rightarrow> (patch_failure + ustring) \<Rightarrow> bool"
where
  "patched_as_planned fuel host hunks s log r \<longleftrightarrow>
     (\<exists>ops read held result.
        fst (run_state (plan_over fuel (patch_logged host) hunks) s) = Inr ops \<and>
        log = read @ AskedBegin # held @ [AskedDrop] \<and> list_all reading_call read \<and>
        changed_as_planned ops result held \<and>
        r = (case result of Inl e \<Rightarrow> Inl e | Inr _ \<Rightarrow> Inr (success_output ops)))"

lemma wp_patch_run:
  fixes host :: "('w, 'm) patch_host"
  shows "wp (patch_run fuel printable (patch_logged host) body) (\<lambda>r (w', log'). \<exists>added. log' = log @ added \<and>
     (list_all reading_call added \<and> isl r \<or>
      (\<exists>hunks. parse_patch printable body = Inr hunks \<and> patched_as_planned fuel host hunks (w, log) added r))) (w, log)"
proof (cases "parse_patch printable body")
  case (Inl e)
  then show ?thesis by (simp add: patch_run_def)
next
  case (Inr hunks)
  obtain p w1 log1 where plan: "run_state (plan_over fuel (patch_logged host) hunks) (w, log) = (p, (w1, log1))"
    by (metis prod.exhaust)
  then obtain read where read: "log1 = log @ read" "list_all reading_call read"
    using keepsD [OF plan_over_keeps _ plan, of log] by (auto simp: read_since_def)
  have planned: "wp (plan_over fuel (patch_logged host) hunks) Q (w, log) = Q p (w1, log1)" for Q
    by (simp add: wp_def plan)
  show ?thesis
  proof (cases p)
    case (Inl e)
    then show ?thesis using read by (simp add: patch_run_def Inr planned)
  next
    case p: (Inr ops)
    obtain b w2 where b: "run_state (ph_cancelled host) w1 = (b, w2)" by fastforce
    have cancel: "wp (ph_cancelled (patch_logged host)) Q (w1, log1) = Q b (w2, log1 @ [AskedCancelled b])" for Q
      by (simp add: patch_logged_def wp_with_log b)
    have go: "wp (State_Monad.bind
        (change_workspace (patch_logged host) (created_and_removed ops (coalesce ops)) (coalesce ops))
        (\<lambda>r. ret (case r of Inl e \<Rightarrow> Inl e | Inr _ \<Rightarrow> Inr (success_output ops)))) (\<lambda>r (w', log'). \<exists>added. log' = log @ added \<and>
          patched_as_planned fuel host hunks (w, log) added r) (w2, log1 @ [AskedCancelled b])"
      unfolding wp_bind
    proof (rule wp_mono [OF wp_change_workspace])
      fix r :: "patch_failure + unit" and t :: "'w \<times> patch_call list"
      assume "case t of (w', log') \<Rightarrow> \<exists>held. log' = (log1 @ [AskedCancelled b]) @ AskedBegin # held @ [AskedDrop] \<and>
        changed_as_planned ops r held"
      then obtain w3 held where t: "t = (w3, log @ (read @ [AskedCancelled b]) @ AskedBegin # held @ [AskedDrop])"
        "changed_as_planned ops r held" using read(1) by (cases t) auto
      have "patched_as_planned fuel host hunks (w, log) ((read @ [AskedCancelled b]) @ AskedBegin # held @ [AskedDrop])
          (case r of Inl e \<Rightarrow> Inl e | Inr _ \<Rightarrow> Inr (success_output ops))"
        unfolding patched_as_planned_def
        by (rule exI [of _ ops], rule exI [of _ "read @ [AskedCancelled b]"], rule exI [of _ held], rule exI [of _ r])
          (use t(2) read(2) plan p in simp)
      then show "wp (ret (case r of Inl e \<Rightarrow> Inl e | Inr _ \<Rightarrow> Inr (success_output ops))) (\<lambda>r (w', log'). \<exists>added. log' = log @ added \<and>
          patched_as_planned fuel host hunks (w, log) added r) t"
        by (auto simp: t(1))
    qed
    have go': "wp (State_Monad.bind
        (change_workspace (patch_logged host) (created_and_removed ops (coalesce ops)) (coalesce ops))
        (\<lambda>r. ret (case r of Inl e \<Rightarrow> Inl e | Inr _ \<Rightarrow> Inr (success_output ops)))) (\<lambda>r (w', log'). \<exists>added. log' = log @ added \<and>
     (list_all reading_call added \<and> isl r \<or>
      (\<exists>hunks'. Inr hunks = Inr hunks' \<and> patched_as_planned fuel host hunks' (w, log) added r))) (w2, log1 @ [AskedCancelled b])"
      by (rule wp_mono [OF go]) auto
    show ?thesis
      unfolding patch_run_def Inr sum.case wp_bind [of "plan_over _ _ _"] planned p Let_def wp_bind [of "ph_cancelled _"] cancel
      using go' read by (cases b) (auto simp del: wp_bind)
  qed
qed

end
