(* ===== verification/PatchClaims.thy ===== *)
theory PatchClaims
  imports PatchWorkspace PatchGrammar PatchCallLaws
begin

text \<open>The properties of the \<open>apply_patch\<close> tool.\<close>

section \<open>What a patch does to a workspace\<close>




text \<open>A patch that changes \<open>f\<close> and moves it to \<open>d/g\<close>.\<close>

definition sample_sources :: "hunk_source list" where
  "sample_sources =
     [UpdateSource [102] None [\<lparr>gs_context = None, gs_lines = [ContextLine [97], RemovedLine [98], AddedLine [99]], gs_eof = False\<rparr>],
      UpdateSource [102] (Some [100, 47, 103]) [], AddSource [102] [[120]]]"

definition sample_patch :: ustring where "sample_patch = print_patch sample_sources"

definition sample_group :: update_group where
  "sample_group = \<lparr>ug_header = None, ug_eof = False, ug_line = 3, ug_old = [[97], [98]], ug_new = [[97], [99]],
     ug_new_from_old = [Some 0, None]\<rparr>"

definition sample_hunks :: "hunk list" where
  "sample_hunks = [UpdateFile [102] None [sample_group], UpdateFile [102] (Some [100, 47, 103]) [],
     AddFile [102] [[120]]]"

lemma sample_patch_parses: "parse_patch (\<lambda>c. True) sample_patch = Inr sample_hunks"
proof -
  have proper: "list_all proper_hunk sample_sources"
    by (simp add: sample_sources_def proper_group_def one_line_def)
  have lines: "str_lines sample_patch = patch_lines sample_sources"
    unfolding sample_patch_def print_patch_def by (rule str_lines_join)
      (use one_line_patch [OF proper] in \<open>auto simp: patch_lines_def end_patch_line_def lit_def\<close>)
  have "parse_hunks (\<lambda>c. True) 1 (tl (patch_lines sample_sources)) [] = Inr (sample_hunks, Some (10, []))"
    by (simp add: patch_lines_def sample_sources_def print_group_def parse_hunks.simps(2) parse_update_def parse_move_def
        lit_def strip_prefix_def starts_with_def end_patch_line_def end_of_file_line_def add_change_def empty_group_def
        finished_def sample_hunks_def sample_group_def Let_def)
  then show ?thesis
    by (simp add: parse_patch_def lines strip_wrapper_print [OF proper, folded sample_patch_def])
      (simp add: patch_lines_def sample_hunks_def)
qed






section \<open>What an update does to a file\<close>

text \<open>C32: What a parsed update makes of a file is its text with, for each group in turn, consecutive lines that
  are the group's old lines up to white space at their ends replaced by its new lines: every other line
  is written back with the ending it had, in its place, and a context line keeps the ending of the
  line it stands for, also in a file of mixed endings.\<close>
theorem update_changes_only_its_lines:
  assumes "parse_patch printable patch = Inr hunks" and "UpdateFile path moveto groups \<in> set hunks"
    and "apply_groups bytes groups display = Inr contents"
  shows "\<exists>s old new. from_utf8 bytes = Some s \<and> concat (map (\<lambda>(l, e). l @ e) old) = s \<and>
     map fst old = split_lines (str_replace [13, 10] [10] s) \<and> map snd old = map line_ending_of (split_inclusive 10 s) \<and>
     patched groups old new \<and>
     contents = utf8 (joined_lines (ends_with [10] s) (if detect_crlf s then [13, 10] else [10]) new)"
  by (rule update_patches_lines [OF assms])

lemma update_changes_only_its_lines_witness:
  "\<exists>s old new. from_utf8 [97, 13, 10, 98, 13, 10, 98] = Some s \<and> concat (map (\<lambda>(l, e). l @ e) old) = s \<and>
     map fst old = split_lines (str_replace [13, 10] [10] s) \<and> map snd old = map line_ending_of (split_inclusive 10 s) \<and>
     patched [sample_group] old new \<and>
     [97, 13, 10, 99, 13, 10, 98] =
       utf8 (joined_lines (ends_with [10] s) (if detect_crlf s then [13, 10] else [10]) new)"
proof (rule update_changes_only_its_lines [OF sample_patch_parses, of "[102]" None])
  show "UpdateFile [102] None [sample_group] \<in> set sample_hunks" by (simp add: sample_hunks_def)
  show "apply_groups [97, 13, 10, 98, 13, 10, 98] [sample_group] [102] = Inr [97, 13, 10, 99, 13, 10, 98]" by code_simp
qed

end
