(* ===== verification/SessionJournal.thy ===== *)
theory SessionJournal
  imports Contracts Attachment
begin

text \<open>
  The session journal of \<open>crates/p1-journal/src/lib.rs\<close>: the JSONL file a session's records are
  appended to, how it is read back, repaired and taken over, and the store in memory. The file
  system is the state \<open>disk\<close>: the bytes of the one session file, whether a writer holds its lock,
  and what the operating system will answer. A failing write leaves any prefix of its bytes behind,
  which is also what a crash leaves. How serde prints and parses is the parameter \<open>session_codec\<close>.
\<close>

section \<open>Identities\<close>

record host_identity =
  hi_version :: ustring
  hi_commit :: ustring

datatype module_kind = ToolModule | ProviderModule | ContextPolicyModule | AuthorizationPolicyModule

record module_identity =
  mi_name :: ustring
  mi_kind :: module_kind
  mi_package :: ustring
  mi_version :: ustring
  mi_digest :: "ustring option"
  mi_abi :: "ustring option"

record instruction_identity =
  ii_path :: ustring
  ii_sha256 :: ustring
  ii_bytes :: nat
  ii_loaded_bytes :: nat

record skill_identity =
  si_name :: ustring
  si_path :: ustring

record skipped_mcp_server =
  sm_name :: ustring
  sm_reason :: ustring

record assembly_identity =
  ay_environment :: ustring
  ay_host :: host_identity
  ay_modules :: "module_identity list"
  ay_instructions :: "instruction_identity list"
  ay_skills :: "skill_identity list"
  ay_mcp_skipped :: "skipped_mcp_server list"

record assembly_entry =
  ae_from_seq :: nat
  ae_identity :: assembly_identity

section \<open>Errors, tails and what was loaded\<close>

datatype sync_policy = EveryRecord | OsBuffered

datatype journal_error =
    OutOfOrder nat nat
  | Corrupt nat
  | UnknownVersion
  | AssemblyInVersion1 nat
  | AssemblyNeedsVersion2
  | JournalExists
  | JournalLocked
  | StaleTail
  | JournalIo ustring

record truncated_tail =
  tt_byte_offset :: nat
  tt_bytes :: nat
  tt_fingerprint :: "64 word"

record loaded =
  ld_records :: "journal_record list"
  ld_truncated_tail :: "truncated_tail option"
  ld_version :: nat
  ld_assemblies :: "assembly_entry list"
  ld_at_ms :: "nat option list"
  ld_masked :: "nat list"

record resumed =
  rs_records :: "journal_record list"
  rs_repaired_tail :: "truncated_tail option"
  rs_version :: nat
  rs_assemblies :: "assembly_entry list"
  rs_at_ms :: "nat option list"

definition journal_version :: nat where "journal_version = 3"

definition journal_version_2 :: nat where "journal_version_2 = 2"

definition journal_version_1 :: nat where "journal_version_1 = 1"

definition header_line :: "byte list" where
  "header_line = utf8 ([123, 34] @ lit ''p1_journal'' @ [34, 58, 51, 125, 10])"

definition max_journal_bytes :: nat where "max_journal_bytes = 256 * 1024 * 1024"

section \<open>Reading bytes\<close>

record session_codec =
  sc_timed :: "journal_record \<Rightarrow> nat \<Rightarrow> nat option \<Rightarrow> ustring + byte list"
  sc_plain :: "journal_record \<Rightarrow> ustring + byte list"
  sc_assembly :: "assembly_identity \<Rightarrow> ustring + byte list"
  sc_value :: "byte list \<Rightarrow> json option"
  sc_read_record :: "json \<Rightarrow> journal_record option"
  sc_read_assembly :: "json \<Rightarrow> assembly_identity option"

text \<open>\<open>Value::get\<close> with a key, and \<open>Value::as_u64\<close>.\<close>

definition json_get :: "ustring \<Rightarrow> json \<Rightarrow> json option" where
  "json_get key v = (case v of JObject entries \<Rightarrow> map_of entries key | _ \<Rightarrow> None)"

definition json_u64 :: "json \<Rightarrow> nat option" where
  "json_u64 v =
     (case v of
        JNumber digits \<Rightarrow>
          (let n = foldl (\<lambda>n d. n * 10 + (d - 48)) 0 digits in
           if digits \<noteq> [] \<and> list_all (\<lambda>d. 48 \<le> d \<and> d \<le> 57) digits \<and> n \<le> u64_max then Some n else None)
      | _ \<Rightarrow> None)"

datatype byte_line = CompleteLine nat nat | PartialLine nat | NoLine

definition next_line :: "byte list \<Rightarrow> nat \<Rightarrow> byte_line" where
  "next_line bytes pos =
     (if pos \<ge> length bytes then NoLine
      else case position (\<lambda>b. b = 10) (drop pos bytes) of
             Some rel \<Rightarrow> CompleteLine pos (pos + rel)
           | None \<Rightarrow> PartialLine pos)"

definition fingerprint_of :: "byte list \<Rightarrow> 64 word" where
  "fingerprint_of bytes = foldl (\<lambda>hash b. xor hash (ucast b) * 0x100000001b3) 0xcbf29ce484222325 bytes"

definition tail_from :: "byte list \<Rightarrow> nat \<Rightarrow> truncated_tail" where
  "tail_from bytes start =
     \<lparr>tt_byte_offset = start, tt_bytes = length bytes - start, tt_fingerprint = fingerprint_of (drop start bytes)\<rparr>"

definition complete_lines_before :: "byte list \<Rightarrow> nat \<Rightarrow> nat" where
  "complete_lines_before bytes offset = length (filter (\<lambda>b. b = 10) (take offset bytes))"

datatype parsed_line = ParsedRecord journal_record "nat option" nat | ParsedAssembly assembly_identity

definition parse_record_line :: "session_codec \<Rightarrow> byte list \<Rightarrow> parsed_line option" where
  "parse_record_line cd line =
     (case sc_value cd line of
        None \<Rightarrow> None
      | Some v \<Rightarrow>
          (case sc_read_record cd v of
             Some record \<Rightarrow>
               Some (ParsedRecord record (Option.bind (json_get (lit ''at_ms'') v) json_u64)
                 (case Option.bind (json_get (lit ''masked'') v) json_u64 of None \<Rightarrow> 0 | Some n \<Rightarrow> n))
           | None \<Rightarrow> map_option ParsedAssembly (sc_read_assembly cd v)))"

definition parse_header :: "session_codec \<Rightarrow> byte list \<Rightarrow> journal_error + nat" where
  "parse_header cd line =
     (case sc_value cd line of
        None \<Rightarrow> Inl (Corrupt 1)
      | Some v \<Rightarrow>
          (case map_option json_u64 (json_get (lit ''p1_journal'') v) of
             None \<Rightarrow> Inl (Corrupt 1)
           | Some (Some version) \<Rightarrow>
               if version = journal_version_1 \<or> version = journal_version_2 \<or> version = journal_version
               then Inr version else Inl UnknownVersion
           | Some None \<Rightarrow> Inl UnknownVersion))"

text \<open>The loop over the lines after the header; \<open>line\<close> is the number of the last line read.\<close>

function parse_lines :: "session_codec \<Rightarrow> byte list \<Rightarrow> nat \<Rightarrow> nat \<Rightarrow> loaded \<Rightarrow> journal_error + loaded" where
  "parse_lines cd bytes pos line ld =
     (case next_line bytes pos of
        NoLine \<Rightarrow> Inr ld
      | PartialLine start \<Rightarrow> Inr (ld\<lparr>ld_truncated_tail := Some (tail_from bytes start)\<rparr>)
      | CompleteLine start stop \<Rightarrow>
          (case parse_record_line cd (take (stop - start) (drop start bytes)) of
             Some (ParsedRecord record at_ms masked) \<Rightarrow>
               if jr_seq record \<noteq> length (ld_records ld) then Inl (Corrupt (line + 1))
               else parse_lines cd bytes (stop + 1) (line + 1)
                 (ld\<lparr>ld_records := ld_records ld @ [record], ld_at_ms := ld_at_ms ld @ [at_ms],
                    ld_masked := ld_masked ld @ [masked]\<rparr>)
           | Some (ParsedAssembly identity) \<Rightarrow>
               if ld_version ld = journal_version_1 then Inl (AssemblyInVersion1 (line + 1))
               else parse_lines cd bytes (stop + 1) (line + 1)
                 (ld\<lparr>ld_assemblies := ld_assemblies ld @
                    [\<lparr>ae_from_seq = length (ld_records ld), ae_identity = identity\<rparr>]\<rparr>)
           | None \<Rightarrow>
               if stop + 1 = length bytes
               then Inr (ld\<lparr>ld_truncated_tail := Some (tail_from bytes start)\<rparr>)
               else Inl (Corrupt (line + 1))))"
  by pat_completeness auto
termination
  by (relation "measure (\<lambda>(cd, bytes, pos, line, ld). length bytes - pos)")
    (auto simp: next_line_def split: if_splits option.splits)

declare parse_lines.simps [simp del]

definition parse_records :: "session_codec \<Rightarrow> byte list \<Rightarrow> journal_error + loaded" where
  "parse_records cd bytes =
     (let ld = \<lparr>ld_records = [], ld_truncated_tail = None, ld_version = journal_version,
                ld_assemblies = [], ld_at_ms = [], ld_masked = []\<rparr> in
      case next_line bytes 0 of
        NoLine \<Rightarrow> Inl (Corrupt 1)
      | PartialLine start \<Rightarrow> Inr (ld\<lparr>ld_truncated_tail := Some (tail_from bytes start)\<rparr>)
      | CompleteLine start stop \<Rightarrow>
          (case parse_header cd (take (stop - start) (drop start bytes)) of
             Inl e \<Rightarrow> Inl e
           | Inr version \<Rightarrow> parse_lines cd bytes (stop + 1) 1 (ld\<lparr>ld_version := version\<rparr>)))"

section \<open>The file\<close>

record disk =
  dk_file :: "byte list option"
  dk_locked :: bool
  dk_answers :: "(nat \<times> ustring) option list"

text \<open>The next answer of the operating system: \<open>None\<close> is success, and a failure of a write comes after
  some of its bytes. When nothing more is foreseen, calls succeed.\<close>

definition next_answer :: "(disk, (nat \<times> ustring) option) state" where
  "next_answer =
     State (\<lambda>d. case dk_answers d of
       [] \<Rightarrow> (None, d)
     | a # rest \<Rightarrow> (a, d\<lparr>dk_answers := rest\<rparr>))"

definition system_call :: "(disk, journal_error + unit) state" where
  "system_call =
     do {
       a \<leftarrow> next_answer;
       ret (case a of None \<Rightarrow> Inr () | Some (_, message) \<Rightarrow> Inl (JournalIo message))
     }"

definition add_bytes :: "byte list \<Rightarrow> disk \<Rightarrow> disk" where
  "add_bytes bytes d = d\<lparr>dk_file := map_option (\<lambda>old. old @ bytes) (dk_file d)\<rparr>"

definition write_all :: "byte list \<Rightarrow> (disk, journal_error + unit) state" where
  "write_all bytes =
     do {
       a \<leftarrow> next_answer;
       case a of
         None \<Rightarrow> do { modify (add_bytes bytes); ret (Inr ()) }
       | Some (n, message) \<Rightarrow> do { modify (add_bytes (take n bytes)); ret (Inl (JournalIo message)) }
     }"

definition cut_file :: "nat \<Rightarrow> (disk, journal_error + unit) state" where
  "cut_file len =
     do {
       r \<leftarrow> system_call;
       case r of
         Inl e \<Rightarrow> ret (Inl e)
       | Inr _ \<Rightarrow> do { modify (\<lambda>d. d\<lparr>dk_file := map_option (take len) (dk_file d)\<rparr>); ret (Inr ()) }
     }"

definition open_existing :: "(disk, journal_error + unit) state" where
  "open_existing =
     do {
       r \<leftarrow> system_call;
       file \<leftarrow> gets dk_file;
       ret (if r \<noteq> Inr () then r
            else if file = None then Inl (JournalIo (lit ''No such file or directory (os error 2)''))
            else Inr ())
     }"

definition lock_or_err :: "(disk, journal_error + unit) state" where
  "lock_or_err =
     do {
       locked \<leftarrow> gets dk_locked;
       if locked then ret (Inl JournalLocked)
       else do {
         r \<leftarrow> system_call;
         case r of
           Inl e \<Rightarrow> ret (Inl e)
         | Inr _ \<Rightarrow> do { modify (\<lambda>d. d\<lparr>dk_locked := True\<rparr>); ret (Inr ()) }
       }
     }"

text \<open>The open handle is the lock: an early return drops it.\<close>

definition dropped_on_error :: "(disk, journal_error + 'a) state \<Rightarrow> (disk, journal_error + 'a) state" where
  "dropped_on_error m =
     do {
       r \<leftarrow> m;
       case r of
         Inl e \<Rightarrow> do { modify (\<lambda>d. d\<lparr>dk_locked := False\<rparr>); ret (Inl e) }
       | Inr x \<Rightarrow> ret (Inr x)
     }"

definition and_then ::
  "(disk, journal_error + 'a) state \<Rightarrow> ('a \<Rightarrow> (disk, journal_error + 'b) state) \<Rightarrow> (disk, journal_error + 'b) state"
where
  "and_then m f = do { r \<leftarrow> m; case r of Inl e \<Rightarrow> ret (Inl e) | Inr x \<Rightarrow> f x }"

definition too_large :: journal_error where
  "too_large = JournalIo (lit ''session journal exceeds size limit'')"

definition read_bounded :: "(disk, journal_error + byte list) state" where
  "read_bounded =
     and_then system_call (\<lambda>_. do {
       file \<leftarrow> gets dk_file;
       let bytes = (case file of None \<Rightarrow> [] | Some b \<Rightarrow> b);
       if length bytes > max_journal_bytes then ret (Inl too_large)
       else and_then system_call (\<lambda>_.
         let contents = take (max_journal_bytes + 1) bytes in
         ret (if length contents > max_journal_bytes then Inl too_large else Inr contents))
     })"

definition load :: "session_codec \<Rightarrow> (disk, journal_error + loaded) state" where
  "load cd = and_then open_existing (\<lambda>_. and_then read_bounded (\<lambda>bytes. ret (parse_records cd bytes)))"

section \<open>The writer\<close>

record journal_writer =
  jw_sync :: sync_policy
  jw_next_seq :: nat
  jw_version :: nat
  jw_poisoned :: bool

definition write_header :: "sync_policy \<Rightarrow> (disk, journal_error + unit) state" where
  "write_header sync =
     and_then (write_all header_line) (\<lambda>_.
       if sync = EveryRecord
       then and_then system_call (\<lambda>_. and_then system_call (\<lambda>_. system_call))
       else ret (Inr ()))"

definition create_journal :: "sync_policy \<Rightarrow> (disk, journal_error + journal_writer) state" where
  "create_journal sync =
     do {
       file \<leftarrow> gets dk_file;
       if file \<noteq> None then ret (Inl JournalExists)
       else and_then system_call (\<lambda>_. do {
         modify (\<lambda>d. d\<lparr>dk_file := Some []\<rparr>);
         and_then lock_or_err (\<lambda>_. dropped_on_error (
           and_then (write_header sync) (\<lambda>_.
             ret (Inr \<lparr>jw_sync = sync, jw_next_seq = 0, jw_version = journal_version, jw_poisoned = False\<rparr>))))
       })
     }"

definition resume_journal ::
  "session_codec \<Rightarrow> sync_policy \<Rightarrow> (disk, journal_error + journal_writer \<times> resumed) state"
where
  "resume_journal cd sync =
     and_then open_existing (\<lambda>_. and_then lock_or_err (\<lambda>_. dropped_on_error (
       and_then read_bounded (\<lambda>bytes.
         case parse_records cd bytes of
           Inl e \<Rightarrow> ret (Inl e)
         | Inr ld \<Rightarrow>
             and_then
               (case ld_truncated_tail ld of
                  None \<Rightarrow> ret (Inr ())
                | Some tail \<Rightarrow> and_then (cut_file (tt_byte_offset tail)) (\<lambda>_. system_call))
               (\<lambda>_.
             and_then
               (case ld_truncated_tail ld of
                  None \<Rightarrow> ret (Inr ())
                | Some tail \<Rightarrow> if tt_byte_offset tail = 0 then write_header sync else ret (Inr ()))
               (\<lambda>_.
             ret (Inr (\<lparr>jw_sync = sync, jw_next_seq = length (ld_records ld), jw_version = ld_version ld,
                        jw_poisoned = False\<rparr>,
                       \<lparr>rs_records = ld_records ld, rs_repaired_tail = ld_truncated_tail ld,
                        rs_version = ld_version ld, rs_assemblies = ld_assemblies ld,
                        rs_at_ms = ld_at_ms ld\<rparr>))))))))"

definition open_for_append ::
  "session_codec \<Rightarrow> sync_policy \<Rightarrow> nat \<Rightarrow> (disk, journal_error + journal_writer) state"
where
  "open_for_append cd sync next_seq =
     and_then open_existing (\<lambda>_. and_then lock_or_err (\<lambda>_. dropped_on_error (
       and_then read_bounded (\<lambda>bytes.
         let writer = (\<lambda>version. \<lparr>jw_sync = sync, jw_next_seq = next_seq, jw_version = version,
               jw_poisoned = False\<rparr>) in
         if bytes = [] then
           (if next_seq \<noteq> 0 then ret (Inl (Corrupt 1))
            else and_then (write_header sync) (\<lambda>_. ret (Inr (writer journal_version))))
         else
           (case parse_records cd bytes of
              Inl e \<Rightarrow> ret (Inl e)
            | Inr ld \<Rightarrow>
                (case ld_truncated_tail ld of
                   Some tail \<Rightarrow> ret (Inl (Corrupt (complete_lines_before bytes (tt_byte_offset tail) + 1)))
                 | None \<Rightarrow>
                     if next_seq \<noteq> length (ld_records ld)
                     then ret (Inl (OutOfOrder (length (ld_records ld)) next_seq))
                     else ret (Inr (writer (ld_version ld)))))))))"

text \<open>One \<open>write_all\<close> of the complete line; a failure poisons the writer.\<close>

definition write_journal_line ::
  "journal_writer \<Rightarrow> byte list \<Rightarrow> (disk, journal_writer \<times> (journal_error + unit)) state"
where
  "write_journal_line w line =
     (if jw_poisoned w
      then ret (w, Inl (JournalIo (lit ''journal writer needs recovery after failed write'')))
      else do {
        r \<leftarrow> and_then (write_all (line @ [10])) (\<lambda>_.
          if jw_sync w = EveryRecord then system_call else ret (Inr ()));
        ret (case r of Inl e \<Rightarrow> (w\<lparr>jw_poisoned := True\<rparr>, Inl e) | Inr _ \<Rightarrow> (w, Inr ()))
      })"

text \<open>\<open>commit_masked\<close>; \<open>now\<close> is what the clock says.\<close>

definition append_record ::
  "session_codec \<Rightarrow> journal_writer \<Rightarrow> journal_record \<Rightarrow> nat \<Rightarrow> nat \<Rightarrow>
   (disk, journal_writer \<times> (journal_error + unit)) state"
where
  "append_record cd w record masked now =
     (if jr_seq record \<noteq> jw_next_seq w then ret (w, Inl (OutOfOrder (jw_next_seq w) (jr_seq record)))
      else case (if jw_version w = journal_version
                 then sc_timed cd record now (if masked > 0 then Some masked else None)
                 else sc_plain cd record) of
             Inl message \<Rightarrow> ret (w, Inl (JournalIo message))
           | Inr line \<Rightarrow> do {
               (w', r) \<leftarrow> write_journal_line w line;
               ret (case r of Inl e \<Rightarrow> (w', Inl e) | Inr _ \<Rightarrow> (w'\<lparr>jw_next_seq := jw_next_seq w' + 1\<rparr>, Inr ()))
             })"

definition record_assembly ::
  "session_codec \<Rightarrow> journal_writer \<Rightarrow> assembly_identity \<Rightarrow> (disk, journal_writer \<times> (journal_error + unit)) state"
where
  "record_assembly cd w identity =
     (if jw_version w = journal_version_1 then ret (w, Inl AssemblyNeedsVersion2)
      else case sc_assembly cd identity of
             Inl message \<Rightarrow> ret (w, Inl (JournalIo message))
           | Inr line \<Rightarrow> write_journal_line w line)"

definition accepts_request_timing :: "journal_writer \<Rightarrow> bool" where
  "accepts_request_timing w \<longleftrightarrow> jw_version w = journal_version"

text \<open>The caller's repair of a tail it observed earlier.\<close>

definition repair_truncated_tail :: "session_codec \<Rightarrow> truncated_tail \<Rightarrow> (disk, journal_error + unit) state" where
  "repair_truncated_tail cd tail =
     and_then open_existing (\<lambda>_. and_then lock_or_err (\<lambda>_. do {
       r \<leftarrow> and_then read_bounded (\<lambda>bytes.
         case parse_records cd bytes of
           Inl e \<Rightarrow> ret (Inl e)
         | Inr ld \<Rightarrow>
             if ld_truncated_tail ld \<noteq> Some tail then ret (Inl StaleTail)
             else and_then (cut_file (tt_byte_offset tail)) (\<lambda>_. system_call));
       modify (\<lambda>d. d\<lparr>dk_locked := False\<rparr>);
       ret r
     }))"

section \<open>The store in memory\<close>

record memory_journal =
  mj_records :: "journal_record list"
  mj_assemblies :: "assembly_entry list"
  mj_next_seq :: nat

definition memory_new :: memory_journal where
  "memory_new = \<lparr>mj_records = [], mj_assemblies = [], mj_next_seq = 0\<rparr>"

fun first_out_of_order :: "nat \<Rightarrow> journal_record list \<Rightarrow> (nat \<times> nat) option" where
  "first_out_of_order index [] = None"
| "first_out_of_order index (record # records) =
     (if jr_seq record \<noteq> index then Some (index, jr_seq record) else first_out_of_order (index + 1) records)"

definition memory_from_records :: "journal_record list \<Rightarrow> journal_error + memory_journal" where
  "memory_from_records records =
     (case first_out_of_order 0 records of
        Some (expected, got) \<Rightarrow> Inl (OutOfOrder expected got)
      | None \<Rightarrow> Inr \<lparr>mj_records = records, mj_assemblies = [], mj_next_seq = length records\<rparr>)"

definition memory_append :: "memory_journal \<Rightarrow> journal_record \<Rightarrow> memory_journal \<times> (journal_error + unit)" where
  "memory_append m record =
     (if jr_seq record \<noteq> mj_next_seq m then (m, Inl (OutOfOrder (mj_next_seq m) (jr_seq record)))
      else (m\<lparr>mj_records := mj_records m @ [record], mj_next_seq := mj_next_seq m + 1\<rparr>, Inr ()))"

definition memory_record_assembly :: "memory_journal \<Rightarrow> assembly_identity \<Rightarrow> memory_journal" where
  "memory_record_assembly m identity =
     m\<lparr>mj_assemblies := mj_assemblies m @ [\<lparr>ae_from_seq = mj_next_seq m, ae_identity = identity\<rparr>]\<rparr>"

end
