(* ===== verification/SessionJournalLaws.thy ===== *)
theory SessionJournalLaws
  imports SessionJournal
begin

text \<open>What the reader of a session journal makes of any bytes.\<close>

section \<open>Lines\<close>

definition terminated :: "byte list list \<Rightarrow> byte list" where
  "terminated lines = concat (map (\<lambda>l. l @ [10]) lines)"

lemma terminated_simps [simp]:
  "terminated [] = []" "terminated (l # lines) = l @ 10 # terminated lines"
  "terminated (xs @ ys) = terminated xs @ terminated ys"
  by (simp_all add: terminated_def)

lemma position_first: "P y \<Longrightarrow> list_all (\<lambda>x. \<not> P x) xs \<Longrightarrow> position P (xs @ y # ys) = Some (length xs)"
  by (induction xs) auto

lemma next_line_complete:
  "10 \<notin> set l \<Longrightarrow> next_line (pre @ l @ 10 # post) (length pre) = CompleteLine (length pre) (length pre + length l)"
proof -
  assume "10 \<notin> set l"
  then have "list_all (\<lambda>x. x \<noteq> 10) l" by (auto simp: list_all_iff)
  from position_first [of "\<lambda>b. b = 10", OF refl this] show ?thesis by (simp add: next_line_def)
qed

lemma next_line_partial:
  "10 \<notin> set l \<Longrightarrow> l \<noteq> [] \<Longrightarrow> next_line (pre @ l) (length pre) = PartialLine (length pre)"
  using position_None [of "\<lambda>b. b = 10" l] by (auto simp: next_line_def split: option.splits)

lemma next_line_end: "next_line pre (length pre) = NoLine"
  by (simp add: next_line_def)

text \<open>Where a line starts, the bytes divide.\<close>

lemma next_line_cases:
  assumes "pos \<le> length bytes"
  obtains (stop) "next_line bytes pos = NoLine" "drop pos bytes = []"
  | (partial) tail where "next_line bytes pos = PartialLine pos" "drop pos bytes = tail" "tail \<noteq> []" "10 \<notin> set tail"
  | (complete) l post where "next_line bytes pos = CompleteLine pos (pos + length l)"
      "drop pos bytes = l @ 10 # post" "10 \<notin> set l"
proof (cases "pos \<ge> length bytes")
  case True
  then show thesis using stop by (simp add: next_line_def)
next
  case False
  show thesis
  proof (cases "10 \<in> set (drop pos bytes)")
    case True
    then obtain l post where split: "drop pos bytes = l @ 10 # post" "10 \<notin> set l"
      by (metis split_list_first)
    have bytes: "bytes = take pos bytes @ l @ 10 # post" by (metis append_take_drop_id split(1))
    have "next_line (take pos bytes @ l @ 10 # post) (length (take pos bytes)) =
        CompleteLine (length (take pos bytes)) (length (take pos bytes) + length l)"
      by (rule next_line_complete [OF split(2)])
    with bytes assms complete split show thesis by simp
  next
    case no: False
    have "next_line (take pos bytes @ drop pos bytes) (length (take pos bytes)) = PartialLine (length (take pos bytes))"
      by (rule next_line_partial [OF no]) (use False in simp)
    with assms partial no False show thesis by simp
  qed
qed

section \<open>What a line adds\<close>

fun take_in :: "parsed_line \<Rightarrow> loaded \<Rightarrow> loaded" where
  "take_in (ParsedRecord record at_ms masked) ld =
     ld\<lparr>ld_records := ld_records ld @ [record], ld_at_ms := ld_at_ms ld @ [at_ms],
        ld_masked := ld_masked ld @ [masked]\<rparr>"
| "take_in (ParsedAssembly identity) ld =
     ld\<lparr>ld_assemblies := ld_assemblies ld @ [\<lparr>ae_from_seq = length (ld_records ld), ae_identity = identity\<rparr>]\<rparr>"

fun fits :: "nat \<Rightarrow> nat \<Rightarrow> parsed_line \<Rightarrow> bool" where
  "fits version n (ParsedRecord record at_ms masked) \<longleftrightarrow> jr_seq record = n"
| "fits version n (ParsedAssembly identity) \<longleftrightarrow> version \<noteq> journal_version_1"

fun record_of :: "parsed_line \<Rightarrow> journal_record list" where
  "record_of (ParsedRecord record at_ms masked) = [record]"
| "record_of (ParsedAssembly identity) = []"

definition records_of :: "parsed_line list \<Rightarrow> journal_record list" where
  "records_of ps = concat (map record_of ps)"

lemma records_of_simps [simp]:
  "records_of [] = []" "records_of (p # ps) = record_of p @ records_of ps"
  "records_of (ps @ qs) = records_of ps @ records_of qs"
  by (simp_all add: records_of_def)

fun fit_all :: "nat \<Rightarrow> nat \<Rightarrow> parsed_line list \<Rightarrow> bool" where
  "fit_all version n [] \<longleftrightarrow> True"
| "fit_all version n (p # ps) \<longleftrightarrow> fits version n p \<and> fit_all version (n + length (record_of p)) ps"

lemma fit_all_append:
  "fit_all version n (ps @ qs) \<longleftrightarrow> fit_all version n ps \<and> fit_all version (n + length (records_of ps)) qs"
  by (induction ps arbitrary: n) (auto simp: add.assoc)

lemma take_in_simps [simp]:
  "ld_version (take_in p ld) = ld_version ld" "ld_truncated_tail (take_in p ld) = ld_truncated_tail ld"
  "ld_records (take_in p ld) = ld_records ld @ record_of p"
  by (cases p; simp)+

lemma fold_take_in [simp]:
  "ld_version (fold take_in ps ld) = ld_version ld" "ld_truncated_tail (fold take_in ps ld) = ld_truncated_tail ld"
  "ld_records (fold take_in ps ld) = ld_records ld @ records_of ps"
  by (induction ps arbitrary: ld) auto

definition reads_as :: "session_codec \<Rightarrow> byte list \<Rightarrow> parsed_line \<Rightarrow> bool" where
  "reads_as cd l p \<longleftrightarrow> 10 \<notin> set l \<and> parse_record_line cd l = Some p"

lemma parse_lines_line:
  assumes "reads_as cd l p" "fits (ld_version ld) (length (ld_records ld)) p" "drop pos bytes = l @ 10 # post"
    "pos \<le> length bytes"
  shows "parse_lines cd bytes pos n ld = parse_lines cd bytes (pos + length l + 1) (n + 1) (take_in p ld)"
proof -
  have bytes: "bytes = take pos bytes @ l @ 10 # post" by (metis append_take_drop_id assms(3))
  have "next_line (take pos bytes @ l @ 10 # post) (length (take pos bytes)) =
        CompleteLine (length (take pos bytes)) (length (take pos bytes) + length l)"
    by (rule next_line_complete) (use assms(1) in \<open>simp add: reads_as_def\<close>)
  with bytes assms(4) have "next_line bytes pos = CompleteLine pos (pos + length l)" by simp
  moreover have "take (pos + length l - pos) (drop pos bytes) = l" by (simp add: assms(3))
  ultimately show ?thesis
    using assms(1,2) by (subst parse_lines.simps, cases p) (simp_all add: reads_as_def)
qed

lemma parse_lines_all:
  assumes "list_all2 (reads_as cd) lines ps" "fit_all (ld_version ld) (length (ld_records ld)) ps"
    "drop pos bytes = terminated lines @ rest" "pos \<le> length bytes"
  shows "parse_lines cd bytes pos n ld =
    parse_lines cd bytes (pos + length (terminated lines)) (n + length lines) (fold take_in ps ld)"
  using assms
proof (induction lines ps arbitrary: pos n ld rule: list_all2_induct)
  case (Cons l lines p ps)
  have d: "drop pos bytes = l @ 10 # terminated lines @ rest" using Cons.prems by simp
  have "length (drop pos bytes) \<ge> length l + 1" by (simp add: d)
  then have pos: "pos + length l + 1 \<le> length bytes" using Cons.prems(3) by simp
  have "drop (length l + 1) (drop pos bytes) = terminated lines @ rest" by (simp add: d)
  then have "drop (pos + length l + 1) bytes = terminated lines @ rest" by (simp add: add.commute add.left_commute)
  from Cons.IH [OF _ this pos, of "take_in p ld" "n + 1"] Cons.prems
  show ?case by (simp add: parse_lines_line [OF Cons.hyps(1) _ d] add.assoc)
qed simp

text \<open>What is left after the lines read.\<close>

definition is_tail :: "session_codec \<Rightarrow> byte list \<Rightarrow> bool" where
  "is_tail cd tail \<longleftrightarrow> tail \<noteq> [] \<and>
     (10 \<notin> set tail \<or> (\<exists>t. tail = t @ [10] \<and> 10 \<notin> set t \<and> parse_record_line cd t = None))"

definition with_tail :: "byte list \<Rightarrow> byte list \<Rightarrow> loaded \<Rightarrow> loaded" where
  "with_tail bytes tail ld =
     (if tail = [] then ld else ld\<lparr>ld_truncated_tail := Some (tail_from bytes (length bytes - length tail))\<rparr>)"

lemma parse_lines_tail:
  assumes "drop pos bytes = tail" "pos \<le> length bytes" "tail = [] \<or> is_tail cd tail"
  shows "parse_lines cd bytes pos n ld =
    Inr (with_tail bytes tail ld)"
proof -
  have "length bytes - length tail = pos" using assms(1,2) by auto
  then have tail: "with_tail bytes tail ld = (if tail = [] then ld else ld\<lparr>ld_truncated_tail := Some (tail_from bytes pos)\<rparr>)"
    by (simp add: with_tail_def)
  from assms(2) show ?thesis
proof (cases rule: next_line_cases)
  case stop
  then show ?thesis using assms by (subst parse_lines.simps) (simp add: with_tail_def)
next
  case (partial t)
  then show ?thesis using assms tail by (subst parse_lines.simps) simp
next
  case (complete l post)
  with assms obtain t where t: "tail = t @ [10]" "10 \<notin> set t" "parse_record_line cd t = None"
    by (auto simp: is_tail_def)
  have "t = l \<and> post = []"
  proof (cases post rule: rev_cases)
    case Nil
    then show ?thesis using t(1) complete(2) assms(1) by simp
  next
    case (snoc q b)
    then have "t @ [10] = (l @ 10 # q) @ [b]" using t(1) complete(2) assms(1) by simp
    then have "10 \<in> set t" by (simp only: append1_eq_conv) simp
    then show ?thesis using t(2) by simp
  qed
  moreover have "length (drop pos bytes) = length l + 1 + length post" by (simp add: complete(2))
  ultimately have tl: "t = l" "Suc (pos + length l) = length bytes" using assms(2) by auto
  then show ?thesis unfolding tail using complete(1,2) t assms(1)
    by (subst parse_lines.simps) simp
qed
qed

lemma parse_lines_sound:
  "parse_lines cd bytes pos n ld = Inr ld' \<Longrightarrow> pos \<le> length bytes \<Longrightarrow>
   \<exists>lines ps tail. drop pos bytes = terminated lines @ tail \<and> list_all2 (reads_as cd) lines ps \<and>
     fit_all (ld_version ld) (length (ld_records ld)) ps \<and> (tail = [] \<or> is_tail cd tail) \<and>
     ld' = with_tail bytes tail (fold take_in ps ld)"
proof (induction cd bytes pos n ld rule: parse_lines.induct)
  case (1 cd bytes pos n ld)
  from "1.prems"(2) show ?case
  proof (cases rule: next_line_cases)
    case stop
    then show ?thesis using "1.prems"(1)
      by (intro exI [of _ "[]"]) (simp add: parse_lines.simps [of cd bytes pos] with_tail_def)
  next
    case (partial t)
    then show ?thesis using "1.prems"
      by (intro exI [of _ "[]"] exI [of _ t]) (auto simp: parse_lines.simps [of cd bytes pos] is_tail_def with_tail_def)
  next
    case (complete l post)
    have line: "take (pos + length l - pos) (drop pos bytes) = l" by (simp add: complete(2))
    have "length (drop pos bytes) = length l + 1 + length post" by (simp add: complete(2))
    then have pos: "pos + length l + 1 \<le> length bytes" "length bytes = pos + length l + 1 + length post"
      using "1.prems"(2) by simp_all
    have "drop (length l + 1) (drop pos bytes) = post" by (simp add: complete(2))
    then have post: "drop (pos + length l + 1) bytes = post" by (simp add: add.commute add.left_commute)
    show ?thesis
    proof (cases "parse_record_line cd l")
      case None
      with "1.prems" complete line pos have "post = []" "ld' = ld\<lparr>ld_truncated_tail := Some (tail_from bytes pos)\<rparr>"
        by (auto simp: parse_lines.simps [of cd bytes pos] split: if_splits)
      then show ?thesis using None complete pos
        by (intro exI [of _ "[]"] exI [of _ "l @ [10]"]) (auto simp: is_tail_def with_tail_def)
    next
      case (Some p)
      then have reads: "reads_as cd l p" using complete(3) by (simp add: reads_as_def)
      have fit: "fits (ld_version ld) (length (ld_records ld)) p"
        using "1.prems"(1) complete(1) line Some
        by (cases p) (auto simp: parse_lines.simps [of cd bytes pos] split: if_splits)
      have more: "parse_lines cd bytes (pos + length l + 1) (n + 1) (take_in p ld) = Inr ld'"
        using parse_lines_line [OF reads fit complete(2) "1.prems"(2), of n] "1.prems"(1) by simp
      have "\<exists>lines ps tail. drop (pos + length l + 1) bytes = terminated lines @ tail \<and> list_all2 (reads_as cd) lines ps \<and>
         fit_all (ld_version (take_in p ld)) (length (ld_records (take_in p ld))) ps \<and> (tail = [] \<or> is_tail cd tail) \<and>
         ld' = with_tail bytes tail (fold take_in ps (take_in p ld))"
      proof (cases p)
        case (ParsedRecord r t m)
        from "1.IH"(1) [OF complete(1)] more fit pos(1) show ?thesis
          unfolding line using Some ParsedRecord by simp
      next
        case (ParsedAssembly i)
        from "1.IH"(2) [OF complete(1)] more fit pos(1) show ?thesis
          unfolding line using Some ParsedAssembly by simp
      qed
      then obtain lines ps tail where *: "post = terminated lines @ tail" "list_all2 (reads_as cd) lines ps"
         "fit_all (ld_version ld) (length (ld_records ld) + length (record_of p)) ps" "tail = [] \<or> is_tail cd tail"
         "ld' = with_tail bytes tail (fold take_in ps (take_in p ld))"
        unfolding post by auto
      then show ?thesis using reads fit complete(2)
        by (intro exI [of _ "l # lines"] exI [of _ "p # ps"] exI [of _ tail]) simp
    qed
  qed
qed

section \<open>The reader, exactly\<close>

definition loaded_start :: "nat \<Rightarrow> loaded" where
  "loaded_start version =
     \<lparr>ld_records = [], ld_truncated_tail = None, ld_version = version,
      ld_assemblies = [], ld_at_ms = [], ld_masked = []\<rparr>"

text \<open>A journal with a header: its lines, what they read as, and what follows them.\<close>

definition laid_out :: "session_codec \<Rightarrow> byte list \<Rightarrow> nat \<Rightarrow> parsed_line list \<Rightarrow> byte list \<Rightarrow> bool" where
  "laid_out cd bytes version ps tail \<longleftrightarrow>
     (\<exists>h lines. bytes = h @ 10 # terminated lines @ tail \<and> 10 \<notin> set h \<and> parse_header cd h = Inr version \<and>
        list_all2 (reads_as cd) lines ps \<and> fit_all version 0 ps)"

lemma loaded_start_simps [simp]:
  "ld_records (loaded_start v) = []" "ld_version (loaded_start v) = v" "ld_truncated_tail (loaded_start v) = None"
  by (simp_all add: loaded_start_def)

lemma parse_records_laid_out:
  assumes "laid_out cd bytes v ps tail" "tail = [] \<or> is_tail cd tail"
  shows "parse_records cd bytes = Inr (with_tail bytes tail (fold take_in ps (loaded_start v)))"
proof -
  from assms(1) obtain h lines where b: "bytes = h @ 10 # terminated lines @ tail" and h: "10 \<notin> set h"
    "parse_header cd h = Inr v" and lines: "list_all2 (reads_as cd) lines ps" "fit_all v 0 ps"
    by (auto simp: laid_out_def)
  have start: "next_line bytes 0 = CompleteLine 0 (length h)"
    using next_line_complete [OF h(1), of "[]" "terminated lines @ tail"] by (simp add: b)
  have "parse_lines cd bytes (length h + 1) 1 (loaded_start v) =
      parse_lines cd bytes (length h + 1 + length (terminated lines)) (1 + length lines) (fold take_in ps (loaded_start v))"
    by (rule parse_lines_all [OF lines(1), where rest = tail]) (simp_all add: lines(2) b)
  also have "\<dots> = Inr (with_tail bytes tail (fold take_in ps (loaded_start v)))"
    by (rule parse_lines_tail) (simp_all add: b assms(2))
  finally show ?thesis
    using start h(2) b by (simp add: parse_records_def loaded_start_def Let_def)
qed

lemma parse_records_no_header:
  "bytes \<noteq> [] \<Longrightarrow> 10 \<notin> set bytes \<Longrightarrow>
   parse_records cd bytes = Inr (with_tail bytes bytes (loaded_start journal_version))"
  using next_line_partial [of bytes "[]"] by (simp add: parse_records_def with_tail_def loaded_start_def)

lemma parse_records_sound:
  assumes "parse_records cd bytes = Inr ld"
  shows "bytes \<noteq> [] \<and> 10 \<notin> set bytes \<and> ld = with_tail bytes bytes (loaded_start journal_version) \<or>
    (\<exists>v ps tail. laid_out cd bytes v ps tail \<and> (tail = [] \<or> is_tail cd tail) \<and>
       ld = with_tail bytes tail (fold take_in ps (loaded_start v)))"
proof -
  from le0 [of "length bytes"] show ?thesis
proof (cases rule: next_line_cases)
  case stop
  then show ?thesis using assms by (simp add: parse_records_def)
next
  case (partial t)
  then have "bytes \<noteq> []" "10 \<notin> set bytes" by auto
  then show ?thesis using assms parse_records_no_header [of bytes cd] by simp
next
  case (complete l post)
  from complete(2) have b: "bytes = l @ 10 # post" by simp
  from assms complete(1) b obtain v where v: "parse_header cd l = Inr v"
    "parse_lines cd bytes (length l + 1) 1 (loaded_start v) = Inr ld"
    by (auto simp: parse_records_def loaded_start_def Let_def split: sum.splits)
  have "length l + 1 \<le> length bytes" by (simp add: b)
  from parse_lines_sound [OF v(2) this] obtain lines ps tail where
    "post = terminated lines @ tail" "list_all2 (reads_as cd) lines ps" "fit_all v 0 ps" "tail = [] \<or> is_tail cd tail"
    "ld = with_tail bytes tail (fold take_in ps (loaded_start v))"
    by (auto simp: b)
  then have "laid_out cd bytes v ps tail" unfolding laid_out_def using b complete(3) v(1) by blast
  then show ?thesis using \<open>tail = [] \<or> is_tail cd tail\<close> \<open>ld = _\<close> by blast
qed
qed

end
