(* ===== verification/SessionJournalLife.thy ===== *)
theory SessionJournalLife
  imports SessionJournalLaws
begin

text \<open>
  The life of a session file: writers that append to it, fail, crash at any byte of a write, and
  take it over again. What was acknowledged is what is read, with at most the line in flight.
\<close>

section \<open>A codec that reads back what it prints\<close>

definition faithful_codec :: "session_codec \<Rightarrow> bool" where
  "faithful_codec cd \<longleftrightarrow>
     (\<forall>r now masked line. sc_timed cd r now masked = Inr line \<longrightarrow> 10 \<notin> set line \<and>
        (\<exists>entries. sc_value cd line = Some (JObject entries) \<and> sc_read_record cd (JObject entries) = Some r \<and>
           map_of entries (lit ''at_ms'') = Some (JNumber (dec now)) \<and>
           map_of entries (lit ''masked'') = map_option (\<lambda>n. JNumber (dec n)) masked)) \<and>
     (\<forall>r line. sc_plain cd r = Inr line \<longrightarrow> 10 \<notin> set line \<and>
        (\<exists>entries. sc_value cd line = Some (JObject entries) \<and> sc_read_record cd (JObject entries) = Some r \<and>
           map_of entries (lit ''at_ms'') = None \<and> map_of entries (lit ''masked'') = None)) \<and>
     (\<forall>i line. sc_assembly cd i = Inr line \<longrightarrow> 10 \<notin> set line \<and>
        (\<exists>v. sc_value cd line = Some v \<and> sc_read_record cd v = None \<and> sc_read_assembly cd v = Some i)) \<and>
     sc_value cd (butlast header_line) = Some (JObject [(lit ''p1_journal'', JNumber (lit ''3''))])"

lemma foldl_dec: "foldl (\<lambda>n d. n * 10 + (d - 48)) 0 (dec n) = n"
proof (induction n rule: dec.induct)
  case (1 n)
  then show ?case by (subst dec.simps) simp
qed

lemma json_u64_dec: "n \<le> u64_max \<Longrightarrow> json_u64 (JNumber (dec n)) = Some n"
  using dec_nonempty [of n] dec_digits [of _ n] by (auto simp: json_u64_def foldl_dec list_all_iff Let_def)

definition written_as :: "journal_writer \<Rightarrow> journal_record \<Rightarrow> nat \<Rightarrow> nat \<Rightarrow> parsed_line" where
  "written_as w r masked now =
     (if jw_version w = journal_version then ParsedRecord r (Some now) masked else ParsedRecord r None 0)"

lemma timed_reads:
  assumes "faithful_codec cd" "sc_timed cd r now (if masked > 0 then Some masked else None) = Inr line"
    "now \<le> u64_max" "masked \<le> u64_max"
  shows "reads_as cd line (ParsedRecord r (Some now) masked)"
proof -
  from assms(1,2) obtain entries where e: "10 \<notin> set line" "sc_value cd line = Some (JObject entries)"
    "sc_read_record cd (JObject entries) = Some r" "map_of entries (lit ''at_ms'') = Some (JNumber (dec now))"
    "map_of entries (lit ''masked'') = map_option (\<lambda>n. JNumber (dec n)) (if masked > 0 then Some masked else None)"
    unfolding faithful_codec_def by blast
  then show ?thesis
    using json_u64_dec [OF assms(3)] json_u64_dec [OF assms(4)]
    by (auto simp: reads_as_def parse_record_line_def json_get_def)
qed

lemma plain_reads:
  assumes "faithful_codec cd" "sc_plain cd r = Inr line"
  shows "reads_as cd line (ParsedRecord r None 0)"
proof -
  from assms obtain entries where e: "10 \<notin> set line" "sc_value cd line = Some (JObject entries)"
    "sc_read_record cd (JObject entries) = Some r" "map_of entries (lit ''at_ms'') = None"
    "map_of entries (lit ''masked'') = None"
    unfolding faithful_codec_def by blast
  then show ?thesis by (simp add: reads_as_def parse_record_line_def json_get_def)
qed

lemma assembly_reads: "faithful_codec cd \<Longrightarrow> sc_assembly cd i = Inr line \<Longrightarrow> reads_as cd line (ParsedAssembly i)"
  unfolding faithful_codec_def reads_as_def parse_record_line_def by fastforce

lemma header_split: "header_line = butlast header_line @ [10]" "10 \<notin> set (butlast header_line)"
  by code_simp+

lemma header_reads:
  assumes "faithful_codec cd"
  shows "parse_header cd (butlast header_line) = Inr journal_version"
proof -
  have "json_u64 (JNumber (lit ''3'')) = Some 3"
    by (simp add: json_u64_def lit_def u64_max_def)
  then show ?thesis
    using assms by (simp add: faithful_codec_def parse_header_def json_get_def journal_version_def)
qed

section \<open>The system's answers\<close>

lemma wp_and_then [simp]:
  "wp (and_then m f) Q d \<longleftrightarrow> wp m (\<lambda>r. case r of Inl e \<Rightarrow> Q (Inl e) | Inr x \<Rightarrow> wp (f x) Q) d"
proof -
  have "(\<lambda>r. wp (case r of Inl e \<Rightarrow> State_Monad.return (Inl e) | Inr x \<Rightarrow> f x) Q) =
      (\<lambda>r. case r of Inl e \<Rightarrow> Q (Inl e) | Inr x \<Rightarrow> wp (f x) Q)"
    by (auto split: sum.splits)
  then show ?thesis by (simp add: and_then_def)
qed

definition same_file :: "disk \<Rightarrow> disk \<Rightarrow> bool" where
  "same_file d d' \<longleftrightarrow> dk_file d' = dk_file d \<and> dk_locked d' = dk_locked d"

lemma same_file_refl [simp]: "same_file d d"
  by (simp add: same_file_def)

lemma wp_next_answer: "(\<And>a d'. same_file d d' \<Longrightarrow> Q a d') \<Longrightarrow> wp next_answer Q d"
  by (auto simp: wp_def next_answer_def same_file_def split: list.splits)

lemma wp_system_call: "(\<And>r d'. same_file d d' \<Longrightarrow> Q r d') \<Longrightarrow> wp system_call Q d"
  unfolding system_call_def by (auto intro: wp_next_answer)

lemma wp_write_all:
  assumes "dk_file d = Some old"
    and "\<And>r d' k. dk_file d' = Some (old @ take k bytes) \<Longrightarrow> dk_locked d' = dk_locked d \<Longrightarrow>
      (r = Inr () \<longrightarrow> k = length bytes) \<Longrightarrow> Q r d'"
  shows "wp (write_all bytes) Q d"
  unfolding write_all_def wp_bind
proof (rule wp_next_answer)
  fix a d' assume same: "same_file d d'"
  show "wp (case a of
         None \<Rightarrow> do { modify (add_bytes bytes); ret (Inr ()) }
       | Some (n, message) \<Rightarrow> do { modify (add_bytes (take n bytes)); ret (Inl (JournalIo message)) }) Q d'"
    using same assms(1) assms(2) [of "add_bytes bytes d'" "length bytes" "Inr ()"]
      assms(2) [of "add_bytes (take (fst (the a)) bytes) d'" "fst (the a)" "Inl (JournalIo (snd (the a)))"]
    by (auto simp: same_file_def add_bytes_def split: option.splits)
qed

lemma wp_lock_or_err:
  "(\<And>r d'. dk_file d' = dk_file d \<Longrightarrow> Q r d') \<Longrightarrow> wp lock_or_err Q d"
  unfolding lock_or_err_def by (auto simp: same_file_def intro!: wp_system_call split: sum.splits)

lemma wp_dropped_on_error:
  "wp m (\<lambda>r d'. case r of Inl e \<Rightarrow> Q (Inl e) (d'\<lparr>dk_locked := False\<rparr>) | Inr x \<Rightarrow> Q (Inr x) d') d \<Longrightarrow>
   wp (dropped_on_error m) Q d"
  unfolding dropped_on_error_def by (auto elim!: wp_mono split: sum.splits)

section \<open>Writing a line\<close>

lemma write_journal_line_cases:
  assumes "run_state (write_journal_line w line) d = ((w', r), d')"
  obtains (poisoned) "jw_poisoned w" "w' = w" "d' = d" "r \<noteq> Inr ()"
  | (written) "\<not> jw_poisoned w" "w' = w" "r = Inr ()"
      "\<And>old. dk_file d = Some old \<Longrightarrow> dk_file d' = Some (old @ line @ [10])"
  | (failed) "\<not> jw_poisoned w" "w' = w\<lparr>jw_poisoned := True\<rparr>" "r \<noteq> Inr ()"
      "\<And>old. dk_file d = Some old \<Longrightarrow> \<exists>k. dk_file d' = Some (old @ take k (line @ [10]))"
proof (cases "jw_poisoned w")
  case True
  with assms have "w' = w" "d' = d" "r \<noteq> Inr ()" by (auto simp: write_journal_line_def)
  with True show thesis by (rule poisoned)
next
  case False
  define post where "post = (\<lambda>(w'' :: journal_writer, r'' :: journal_error + unit) (d'' :: disk).
    (r'' = Inr () \<and> w'' = w \<and> (\<forall>old. dk_file d = Some old \<longrightarrow> dk_file d'' = Some (old @ line @ [10]))) \<or>
    (r'' \<noteq> Inr () \<and> w'' = w\<lparr>jw_poisoned := True\<rparr> \<and>
       (\<forall>old. dk_file d = Some old \<longrightarrow> (\<exists>k. dk_file d'' = Some (old @ take k (line @ [10]))))))"
  have "wp (write_journal_line w line) post d"
  proof (cases "dk_file d")
    case None
    show ?thesis using False None
      by (auto simp: write_journal_line_def wp_def post_def split: sum.splits)
  next
    case (Some old)
    have fail: "post (w\<lparr>jw_poisoned := True\<rparr>, Inl e) d''" if "dk_file d'' = Some (old @ take k (line @ [10]))" for e k d''
      using that Some by (auto simp: post_def)
    have ok: "post (w, Inr ()) d''" if "dk_file d'' = Some (old @ line @ [10])" for d''
      using that Some by (auto simp: post_def)
    have fin: "wp (ret (case r of Inl e \<Rightarrow> (w\<lparr>jw_poisoned := True\<rparr>, Inl e) | Inr u \<Rightarrow> (w, Inr ()))) post d''"
      if "dk_file d'' = Some (old @ take k (line @ [10]))" "r = Inr () \<longrightarrow> k = length (line @ [10])" for r :: "journal_error + unit" and k d''
      using that fail [of d'' k] ok [of d''] by (cases r) auto
    show ?thesis
      unfolding write_journal_line_def if_not_P [OF False] wp_bind wp_and_then
    proof (rule wp_write_all [OF Some])
      fix r :: "journal_error + unit" and d'' :: disk and k
      assume d'': "dk_file d'' = Some (old @ take k (line @ [10]))" "r = Inr () \<longrightarrow> k = length (line @ [10])"
      let ?fin = "\<lambda>r. wp (ret (case r of Inl e \<Rightarrow> (w\<lparr>jw_poisoned := True\<rparr>, Inl e) | Inr u \<Rightarrow> (w, Inr ()))) post"
      show "(case r of Inl e \<Rightarrow> ?fin (Inl e)
          | Inr x \<Rightarrow> wp (if jw_sync w = EveryRecord then system_call else ret (Inr ())) ?fin) d''"
      proof (cases r)
        case (Inl e)
        then show ?thesis using fin [OF d''(1), of r] by simp
      next
        case (Inr u)
        then have k: "k = length (line @ [10])" using d''(2) by simp
        have "?fin r' d3" if "same_file d'' d3" for r' :: "journal_error + unit" and d3
          using fin [of d3 k r'] that d''(1) k by (simp add: same_file_def)
        then show ?thesis using Inr fin [OF d''(1), of "Inr ()"] k
          by (auto intro!: wp_system_call)
      qed
    qed
  qed
  from wp_run [OF this assms] have "r = Inr () \<and> w' = w \<and> (\<forall>old. dk_file d = Some old \<longrightarrow> dk_file d' = Some (old @ line @ [10])) \<or>
    r \<noteq> Inr () \<and> w' = w\<lparr>jw_poisoned := True\<rparr> \<and>
       (\<forall>old. dk_file d = Some old \<longrightarrow> (\<exists>k. dk_file d' = Some (old @ take k (line @ [10]))))"
    by (simp add: post_def)
  then show thesis
  proof (elim disjE conjE)
    assume "r = Inr ()" "w' = w" "\<forall>old. dk_file d = Some old \<longrightarrow> dk_file d' = Some (old @ line @ [10])"
    then show thesis using written [OF False] by blast
  next
    assume "r \<noteq> Inr ()" "w' = w\<lparr>jw_poisoned := True\<rparr>"
      "\<forall>old. dk_file d = Some old \<longrightarrow> (\<exists>k. dk_file d' = Some (old @ take k (line @ [10])))"
    then show thesis using failed [OF False] by blast
  qed
qed

section \<open>The life of a file\<close>

text \<open>\<open>acked\<close> is what was acknowledged, as a reader would return it: every line whose append returned
  \<open>Ok\<close>, and after a takeover what the takeover read. A writer ends with a crash at any point; the
  answers of the system are never foreseen. A life starts when the file is created, or when a takeover
  succeeds on the header, or the part of it, that a creation or takeover left which did not get further
  (\<open>create_journal_torn\<close>, \<open>resume_torn\<close>).\<close>

inductive journal_life :: "session_codec \<Rightarrow> loaded \<Rightarrow> journal_writer option \<Rightarrow> disk \<Rightarrow> bool" for cd where
  created: "dk_file d = None \<Longrightarrow> run_state (create_journal sync) d = (Inr w, d') \<Longrightarrow>
    journal_life cd (loaded_start journal_version) (Some w) d'"
| restarted: "dk_file d = Some (take k header_line) \<Longrightarrow>
    run_state (resume_journal cd sync) d = (Inr (w, rs), d') \<Longrightarrow>
    journal_life cd (loaded_start journal_version) (Some w) d'"
| committed: "journal_life cd acked (Some w) d \<Longrightarrow> now \<le> u64_max \<Longrightarrow> masked \<le> u64_max \<Longrightarrow>
    run_state (append_record cd w r masked now) d = ((w', Inr ()), d') \<Longrightarrow>
    journal_life cd (take_in (written_as w r masked now) acked) (Some w') d'"
| refused: "journal_life cd acked (Some w) d \<Longrightarrow> now \<le> u64_max \<Longrightarrow> masked \<le> u64_max \<Longrightarrow>
    run_state (append_record cd w r masked now) d = ((w', Inl e), d') \<Longrightarrow>
    journal_life cd acked (Some w') d'"
| identified: "journal_life cd acked (Some w) d \<Longrightarrow>
    run_state (record_assembly cd w i) d = ((w', Inr ()), d') \<Longrightarrow>
    journal_life cd (take_in (ParsedAssembly i) acked) (Some w') d'"
| unidentified: "journal_life cd acked (Some w) d \<Longrightarrow>
    run_state (record_assembly cd w i) d = ((w', Inl e), d') \<Longrightarrow>
    journal_life cd acked (Some w') d'"
| crashed: "journal_life cd acked w d \<Longrightarrow> journal_life cd acked None (d\<lparr>dk_locked := False\<rparr>)"
| foreseen: "journal_life cd acked w d \<Longrightarrow> journal_life cd acked w (d\<lparr>dk_answers := answers\<rparr>)"
| resumed: "journal_life cd acked None d \<Longrightarrow> dk_file d = Some bytes \<Longrightarrow> parse_records cd bytes = Inr ld \<Longrightarrow>
    run_state (resume_journal cd sync) d = (Inr (w, rs), d') \<Longrightarrow>
    journal_life cd (ld\<lparr>ld_truncated_tail := None\<rparr>) (Some w) d'"
| not_resumed: "journal_life cd acked None d \<Longrightarrow> run_state (resume_journal cd sync) d = (Inl e, d') \<Longrightarrow>
    journal_life cd acked None d'"
| repaired: "journal_life cd acked None d \<Longrightarrow> run_state (repair_truncated_tail cd tail) d = (res, d') \<Longrightarrow>
    journal_life cd acked None d'"

definition partial_of :: "session_codec \<Rightarrow> nat \<Rightarrow> parsed_line list \<Rightarrow> byte list \<Rightarrow> bool" where
  "partial_of cd v ps rest \<longleftrightarrow> rest = [] \<or>
     (\<exists>l p k. reads_as cd l p \<and> fits v (length (records_of ps)) p \<and> rest = take k (l @ [10]))"

definition holds ::
  "session_codec \<Rightarrow> loaded \<Rightarrow> journal_writer option \<Rightarrow> disk \<Rightarrow> nat \<Rightarrow> parsed_line list \<Rightarrow> byte list \<Rightarrow> byte list \<Rightarrow> bool"
where
  "holds cd acked w d v ps rest bytes \<longleftrightarrow>
     dk_file d = Some bytes \<and> laid_out cd bytes v ps rest \<and> partial_of cd v ps rest \<and>
     acked = fold take_in ps (loaded_start v) \<and>
     (\<forall>w'. w = Some w' \<longrightarrow> jw_version w' = v \<and> jw_next_seq w' = length (records_of ps) \<and>
        (\<not> jw_poisoned w' \<longrightarrow> rest = []))"

lemma laid_out_extend:
  assumes "laid_out cd bytes v ps []" "reads_as cd l p" "fits v (length (records_of ps)) p"
  shows "laid_out cd (bytes @ l @ [10]) v (ps @ [p]) []"
proof -
  from assms(1) obtain h lines where "bytes = h @ 10 # terminated lines" "10 \<notin> set h" "parse_header cd h = Inr v"
    "list_all2 (reads_as cd) lines ps" "fit_all v 0 ps"
    by (auto simp: laid_out_def)
  then show ?thesis
    unfolding laid_out_def using assms(2,3)
    by (intro exI [of _ h] exI [of _ "lines @ [l]"]) (auto simp: fit_all_append intro: list_all2_appendI)
qed

lemma laid_out_rest: "laid_out cd bytes v ps [] \<Longrightarrow> laid_out cd (bytes @ rest) v ps rest"
  by (auto simp: laid_out_def)

lemma laid_out_cut:
  assumes "laid_out cd bytes v ps rest"
  shows "length rest < length bytes" "laid_out cd (take (length bytes - length rest) bytes) v ps []"
    "bytes = take (length bytes - length rest) bytes @ rest"
proof -
  from assms obtain h lines where "bytes = h @ 10 # terminated lines @ rest" "10 \<notin> set h" "parse_header cd h = Inr v"
    "list_all2 (reads_as cd) lines ps" "fit_all v 0 ps"
    by (auto simp: laid_out_def)
  moreover from this have "take (length bytes - length rest) bytes = h @ 10 # terminated lines" by simp
  ultimately show "length rest < length bytes" "laid_out cd (take (length bytes - length rest) bytes) v ps []"
    "bytes = take (length bytes - length rest) bytes @ rest"
    unfolding laid_out_def by auto
qed

text \<open>What is read of a file in the middle of its life: the line in flight counts only when it is whole.\<close>

lemma holds_reads:
  assumes "holds cd acked w d v ps rest bytes"
  obtains extra tail where "laid_out cd bytes v (ps @ extra) tail" "length extra \<le> 1" "10 \<notin> set tail"
    "parse_records cd bytes = Inr (with_tail bytes tail (fold take_in (ps @ extra) (loaded_start v)))"
    "rest = [] \<Longrightarrow> extra = [] \<and> tail = []" "partial_of cd v (ps @ extra) tail"
    "extra = [] \<Longrightarrow> tail = rest" "extra \<noteq> [] \<Longrightarrow> tail = []"
proof -
  from assms have lay: "laid_out cd bytes v ps rest" and part: "partial_of cd v ps rest"
    by (auto simp: holds_def)
  show thesis
  proof (cases "10 \<in> set rest")
    case False
    then have "rest = [] \<or> is_tail cd rest" by (auto simp: is_tail_def)
    from parse_records_laid_out [OF lay this] lay part False show thesis
      by (intro that [of "[]" rest]) auto
  next
    case True
    then obtain l p k where p: "reads_as cd l p" "fits v (length (records_of ps)) p" "rest = take k (l @ [10])"
      using part by (auto simp: partial_of_def)
    with True have rest: "rest = l @ [10]"
      by (cases "k \<le> length l") (auto simp: reads_as_def dest: in_set_takeD)
    have "laid_out cd (take (length bytes - length rest) bytes @ l @ [10]) v (ps @ [p]) []"
      by (rule laid_out_extend [OF laid_out_cut(2) [OF lay] p(1,2)])
    then have lay': "laid_out cd bytes v (ps @ [p]) []"
      using laid_out_cut(3) [OF lay] rest by simp
    from parse_records_laid_out [OF lay'] lay' show thesis
      by (intro that [of "[p]" "[]"]) (auto simp: rest partial_of_def)
  qed
qed

lemma holds_appended:
  assumes "holds cd acked (Some w) d v ps rest bytes" "reads_as cd line p" "fits v (length (records_of ps)) p"
    and run: "run_state (write_journal_line w line) d = ((w', r), d')"
  shows "r = Inr () \<Longrightarrow> holds cd (take_in p acked) (Some (w'\<lparr>jw_next_seq := jw_next_seq w + length (record_of p)\<rparr>)) d'
      v (ps @ [p]) [] (bytes @ line @ [10])"
    and "r \<noteq> Inr () \<Longrightarrow> \<exists>rest' bytes'. holds cd acked (Some w') d' v ps rest' bytes'"
proof -
  from assms(1) have bytes: "dk_file d = Some bytes" by (simp add: holds_def)
  from run show "r = Inr () \<Longrightarrow> holds cd (take_in p acked) (Some (w'\<lparr>jw_next_seq := jw_next_seq w + length (record_of p)\<rparr>)) d'
      v (ps @ [p]) [] (bytes @ line @ [10])"
  proof (cases rule: write_journal_line_cases)
    case written
    with assms(1) laid_out_extend [OF _ assms(2,3)] bytes show ?thesis
      by (auto simp: holds_def partial_of_def)
  qed simp_all
  from run show "r \<noteq> Inr () \<Longrightarrow> \<exists>rest' bytes'. holds cd acked (Some w') d' v ps rest' bytes'"
  proof (cases rule: write_journal_line_cases)
    case failed
    from failed(4) [OF bytes] obtain k where k: "dk_file d' = Some (bytes @ take k (line @ [10]))" by blast
    from failed(1) assms(1) have lay: "laid_out cd bytes v ps []" by (auto simp: holds_def)
    have "partial_of cd v ps (take k (line @ [10]))" unfolding partial_of_def using assms(2,3) by blast
    with k assms(1) laid_out_rest [OF lay] failed(2) have
      "holds cd acked (Some w') d' v ps (take k (line @ [10])) (bytes @ take k (line @ [10]))"
      by (simp add: holds_def)
    then show ?thesis by blast
  next
    case poisoned
    then show ?thesis using assms(1) by blast
  qed simp_all
qed

lemma append_record_cases:
  assumes "run_state (append_record cd w r masked now) d = ((w', res), d')"
    "faithful_codec cd" "now \<le> u64_max" "masked \<le> u64_max"
  obtains "w' = w" "d' = d" "res \<noteq> Inr ()"
  | line w1 r1 where "jr_seq r = jw_next_seq w" "reads_as cd line (written_as w r masked now)"
      "run_state (write_journal_line w line) d = ((w1, r1), d')" "r1 = res"
      "w' = (if r1 = Inr () then w1\<lparr>jw_next_seq := jw_next_seq w1 + 1\<rparr> else w1)"
proof (cases "jr_seq r = jw_next_seq w")
  case False
  show thesis by (rule that(1)) (use assms(1) False in \<open>auto simp: append_record_def\<close>)
next
  case True
  define printed where "printed = (if jw_version w = journal_version
                 then sc_timed cd r now (if masked > 0 then Some masked else None)
                 else sc_plain cd r)"
  show thesis
  proof (cases printed)
    case (Inl e)
    show thesis by (rule that(1)) (use assms(1) True Inl in \<open>auto simp: append_record_def printed_def\<close>)
  next
    case (Inr line)
    have reads: "reads_as cd line (written_as w r masked now)"
      using Inr timed_reads [OF assms(2) _ assms(3,4)] plain_reads [OF assms(2)]
      by (auto simp: printed_def written_as_def split: if_splits)
    obtain w1 r1 d1 where run: "run_state (write_journal_line w line) d = ((w1, r1), d1)"
      by (cases "run_state (write_journal_line w line) d") auto
    have "((w', res), d') = ((if r1 = Inr () then w1\<lparr>jw_next_seq := jw_next_seq w1 + 1\<rparr> else w1, r1), d1)"
      using assms(1) True Inr run unfolding append_record_def printed_def [symmetric]
      by (auto split: sum.splits)
    then show thesis using that(2) [OF True reads] run by auto
  qed
qed

lemma record_assembly_cases:
  assumes "run_state (record_assembly cd w i) d = ((w', res), d')" "faithful_codec cd"
  obtains "w' = w" "d' = d" "res \<noteq> Inr ()"
  | line where "jw_version w \<noteq> journal_version_1" "reads_as cd line (ParsedAssembly i)"
      "run_state (write_journal_line w line) d = ((w', res), d')"
proof (cases "jw_version w = journal_version_1")
  case True
  show thesis by (rule that(1)) (use assms(1) True in \<open>auto simp: record_assembly_def\<close>)
next
  case False
  show thesis
  proof (cases "sc_assembly cd i")
    case (Inl e)
    show thesis by (rule that(1)) (use assms(1) False Inl in \<open>auto simp: record_assembly_def\<close>)
  next
    case (Inr line)
    show thesis
      by (rule that(2) [OF False assembly_reads [OF assms(2) Inr]]) (use assms(1) False Inr in \<open>simp add: record_assembly_def\<close>)
  qed
qed

lemma write_journal_line_next_seq:
  "run_state (write_journal_line w line) d = ((w', r), d') \<Longrightarrow> jw_next_seq w' = jw_next_seq w \<and> jw_version w' = jw_version w"
  by (erule write_journal_line_cases) auto

section \<open>Creating, taking over, repairing\<close>

lemma wp_write_header:
  assumes "dk_file d = Some old"
    and "\<And>r d' k. dk_file d' = Some (old @ take k header_line) \<Longrightarrow> (r = Inr () \<longrightarrow> k = length header_line) \<Longrightarrow> Q r d'"
  shows "wp (write_header sync) Q d"
  unfolding write_header_def wp_and_then
proof (rule wp_write_all [OF assms(1)])
  fix r :: "journal_error + unit" and d' :: disk and k
  assume d': "dk_file d' = Some (old @ take k header_line)" "r = Inr () \<longrightarrow> k = length header_line"
  have done1: "Q r d''" if "dk_file d'' = Some (old @ header_line)" for r d''
    using assms(2) [of d'' "length header_line" r] that by simp
  show "(case r of Inl e \<Rightarrow> Q (Inl e)
     | Inr x \<Rightarrow> wp (if sync = EveryRecord
       then and_then system_call (\<lambda>_. and_then system_call (\<lambda>_. system_call))
       else ret (Inr ())) Q) d'"
    using d' assms(2) [OF d'(1), of r]
    by (auto simp: same_file_def split: sum.splits intro!: wp_system_call done1)
qed

lemma create_journal_writes:
  assumes "dk_file d = None" "run_state (create_journal sync) d = (Inr w, d')"
  shows "dk_file d' = Some header_line \<and>
    w = \<lparr>jw_sync = sync, jw_next_seq = 0, jw_version = journal_version, jw_poisoned = False\<rparr>"
proof -
  let ?post = "\<lambda>r (d' :: disk). \<forall>w. r = Inr w \<longrightarrow> dk_file d' = Some header_line \<and>
    w = \<lparr>jw_sync = sync, jw_next_seq = 0, jw_version = journal_version, jw_poisoned = False\<rparr>"
  have head: "wp (write_header sync) (\<lambda>r. case r of Inl e \<Rightarrow> (\<lambda>d'. True)
      | Inr x \<Rightarrow> (\<lambda>d'. dk_file d' = Some header_line)) d1" if "dk_file d1 = Some []" for d1
    by (rule wp_write_header [OF that]) (auto split: sum.splits)
  have locked: "wp (dropped_on_error (and_then (write_header sync) (\<lambda>_.
             ret (Inr \<lparr>jw_sync = sync, jw_next_seq = 0, jw_version = journal_version, jw_poisoned = False\<rparr>)))) ?post d1"
    if "dk_file d1 = Some []" for d1
    by (rule wp_dropped_on_error, unfold wp_and_then, rule wp_mono [OF head [OF that]]) (auto split: sum.splits)
  have "wp (create_journal sync) ?post d"
    unfolding create_journal_def
    by (auto simp: assms(1) intro!: wp_system_call wp_lock_or_err locked split: sum.splits)
  from wp_run [OF this assms(2)] show ?thesis by simp
qed

lemma wp_read_bounded:
  assumes "\<And>r d'. dk_file d' = dk_file d \<Longrightarrow> (\<forall>bytes. r = Inr bytes \<longrightarrow> bytes = (case dk_file d of None \<Rightarrow> [] | Some b \<Rightarrow> b)) \<Longrightarrow> Q r d'"
  shows "wp read_bounded Q d"
  unfolding read_bounded_def Let_def
  by (auto simp: same_file_def intro!: wp_system_call assms split: sum.splits)

lemma wp_cut_file:
  assumes "\<And>r d'. dk_file d' = map_option (take n) (dk_file d) \<or> (r \<noteq> Inr () \<and> dk_file d' = dk_file d) \<Longrightarrow> Q r d'"
  shows "wp (cut_file n) Q d"
  unfolding cut_file_def
  by (auto simp: same_file_def intro!: wp_system_call assms split: sum.splits)

lemma wp_open_existing:
  assumes "\<And>r d'. dk_file d' = dk_file d \<Longrightarrow> Q r d'"
  shows "wp open_existing Q d"
  unfolding open_existing_def
  by (auto simp: same_file_def intro!: wp_system_call assms)

text \<open>The part of a takeover after the file was read.\<close>

definition resume_read ::
  "session_codec \<Rightarrow> sync_policy \<Rightarrow> byte list \<Rightarrow> (disk, journal_error + journal_writer \<times> resumed) state"
where
  "resume_read cd sync bytes =
     (case parse_records cd bytes of
        Inl e \<Rightarrow> ret (Inl e)
      | Inr ld \<Rightarrow>
          and_then
            (case ld_truncated_tail ld of
               None \<Rightarrow> ret (Inr ())
             | Some tail \<Rightarrow> and_then (cut_file (tt_byte_offset tail)) (\<lambda>_. system_call))
            (\<lambda>_.
          and_then
            (case ld_truncated_tail ld of
               None \<Rightarrow> ret (Inr ())
             | Some tail \<Rightarrow> if tt_byte_offset tail = 0 then write_header sync else ret (Inr ()))
            (\<lambda>_.
          ret (Inr (\<lparr>jw_sync = sync, jw_next_seq = length (ld_records ld), jw_version = ld_version ld,
                     jw_poisoned = False\<rparr>,
                    \<lparr>rs_records = ld_records ld, rs_repaired_tail = ld_truncated_tail ld,
                     rs_version = ld_version ld, rs_assemblies = ld_assemblies ld,
                     rs_at_ms = ld_at_ms ld\<rparr>)))))"

lemma resume_journal_read: "resume_journal cd sync =
    and_then open_existing (\<lambda>_. and_then lock_or_err (\<lambda>_. dropped_on_error (
      and_then read_bounded (resume_read cd sync))))"
  by (simp add: resume_journal_def resume_read_def [abs_def])

lemma wp_resume_journal:
  assumes "dk_file d = Some bytes"
    and stop: "\<And>e d1. dk_file d1 = Some bytes \<Longrightarrow> post (Inl e) d1"
    and body: "\<And>d1. dk_file d1 = Some bytes \<Longrightarrow> wp (resume_read cd sync bytes)
      (\<lambda>r d'. case r of Inl e \<Rightarrow> post (Inl e) (d'\<lparr>dk_locked := False\<rparr>) | Inr x \<Rightarrow> post (Inr x) d') d1"
  shows "wp (resume_journal cd sync) post d"
proof -
  have dropped: "wp (dropped_on_error (and_then read_bounded (resume_read cd sync))) post d1"
    if d1: "dk_file d1 = Some bytes" for d1
  proof (rule wp_dropped_on_error, unfold wp_and_then, rule wp_read_bounded)
    fix r :: "journal_error + byte list" and d2 :: disk
    assume d2: "dk_file d2 = dk_file d1"
      and r: "\<forall>b. r = Inr b \<longrightarrow> b = (case dk_file d1 of None \<Rightarrow> [] | Some b \<Rightarrow> b)"
    let ?Q = "\<lambda>r d'. case r of Inl e \<Rightarrow> post (Inl e) (d'\<lparr>dk_locked := False\<rparr>) | Inr x \<Rightarrow> post (Inr x) d'"
    show "(case r of Inl e \<Rightarrow> ?Q (Inl e) | Inr x \<Rightarrow> wp (resume_read cd sync x) ?Q) d2"
      using stop body r d1 d2 by (cases r) auto
  qed
  have locked: "wp (and_then lock_or_err (\<lambda>_. dropped_on_error (and_then read_bounded (resume_read cd sync)))) post d1"
    if d1: "dk_file d1 = Some bytes" for d1
    unfolding wp_and_then
  proof (rule wp_lock_or_err)
    fix r :: "journal_error + unit" and d2 :: disk assume d2: "dk_file d2 = dk_file d1"
    show "(case r of Inl e \<Rightarrow> post (Inl e) | Inr x \<Rightarrow>
        wp (dropped_on_error (and_then read_bounded (resume_read cd sync))) post) d2"
      using stop dropped d1 d2 by (cases r) auto
  qed
  show ?thesis
    unfolding resume_journal_read
  proof (subst wp_and_then, rule wp_open_existing)
    fix r :: "journal_error + unit" and d2 :: disk assume d2: "dk_file d2 = dk_file d"
    show "(case r of Inl e \<Rightarrow> post (Inl e) | Inr x \<Rightarrow>
        wp (and_then lock_or_err (\<lambda>_. dropped_on_error (and_then read_bounded (resume_read cd sync)))) post) d2"
      using stop locked assms(1) d2 by (cases r) (auto simp del: wp_and_then)
  qed
qed

text \<open>A takeover reads the file and cuts what is no line.\<close>

definition cut_tail :: "byte list \<Rightarrow> loaded \<Rightarrow> byte list" where
  "cut_tail bytes ld = (case ld_truncated_tail ld of None \<Rightarrow> bytes | Some tail \<Rightarrow> take (tt_byte_offset tail) bytes)"

lemma resume_journal_post:
  assumes "dk_file d = Some bytes" "parse_records cd bytes = Inr ld"
    and tail: "\<And>t. ld_truncated_tail ld = Some t \<Longrightarrow> tt_byte_offset t \<noteq> 0"
    and run: "run_state (resume_journal cd sync) d = (r, d')"
  shows "case r of
      Inl e \<Rightarrow> dk_file d' = Some bytes \<or> dk_file d' = Some (cut_tail bytes ld)
    | Inr (w, rs) \<Rightarrow> dk_file d' = Some (cut_tail bytes ld) \<and>
        w = \<lparr>jw_sync = sync, jw_next_seq = length (ld_records ld), jw_version = ld_version ld, jw_poisoned = False\<rparr> \<and>
        rs = \<lparr>rs_records = ld_records ld, rs_repaired_tail = ld_truncated_tail ld, rs_version = ld_version ld,
              rs_assemblies = ld_assemblies ld, rs_at_ms = ld_at_ms ld\<rparr>"
proof -
  let ?post = "\<lambda>(r :: journal_error + journal_writer \<times> resumed) (d' :: disk). case r of
      Inl e \<Rightarrow> dk_file d' = Some bytes \<or> dk_file d' = Some (cut_tail bytes ld)
    | Inr (w, rs) \<Rightarrow> dk_file d' = Some (cut_tail bytes ld) \<and>
        w = \<lparr>jw_sync = sync, jw_next_seq = length (ld_records ld), jw_version = ld_version ld, jw_poisoned = False\<rparr> \<and>
        rs = \<lparr>rs_records = ld_records ld, rs_repaired_tail = ld_truncated_tail ld, rs_version = ld_version ld,
              rs_assemblies = ld_assemblies ld, rs_at_ms = ld_at_ms ld\<rparr>"
  define post where "post = ?post"
  have body: "wp (resume_read cd sync bytes)
      (\<lambda>r d'. case r of Inl e \<Rightarrow> post (Inl e) (d'\<lparr>dk_locked := False\<rparr>) | Inr x \<Rightarrow> post (Inr x) d') d1"
    if "dk_file d1 = Some bytes" for d1
  proof (cases "ld_truncated_tail ld")
    case None
    then show ?thesis using that by (simp add: resume_read_def assms(2) cut_tail_def post_def)
  next
    case (Some t)
    have cut: "dk_file d2 = Some (cut_tail bytes ld)" if "dk_file d2 = map_option (take (tt_byte_offset t)) (dk_file d1)" for d2 :: disk
      using that \<open>dk_file d1 = Some bytes\<close> Some by (simp add: cut_tail_def)
    show ?thesis
      using that Some tail [OF Some] cut
      by (auto simp: resume_read_def assms(2) same_file_def post_def split: sum.splits
          intro!: wp_cut_file wp_system_call)
  qed
  have "wp (resume_journal cd sync) post d"
    by (rule wp_resume_journal [OF assms(1) _ body]) (simp_all add: post_def)
  from wp_run [OF this run] show ?thesis by (simp add: post_def)
qed

text \<open>
  What a creation leaves that failed or crashed is a part of the header. A takeover cuts a torn header and
  writes it anew; when that fails too, again a part of the header is left. Of the empty file nothing can
  be taken over: \<open>resume\<close> refuses it as corrupt (\<open>empty_file_is_refused\<close>).
\<close>

lemma create_journal_torn:
  assumes "dk_file d = None" "run_state (create_journal sync) d = (Inl e, d')"
  shows "dk_file d' = None \<or> (\<exists>k. dk_file d' = Some (take k header_line))"
proof -
  let ?post = "\<lambda>(r :: journal_error + journal_writer) (d' :: disk).
    dk_file d' = None \<or> (\<exists>k. dk_file d' = Some (take k header_line))"
  have empty: "\<exists>k. [] = take k header_line" by (rule exI [of _ 0]) simp
  have head: "wp (write_header sync) (\<lambda>r d'. \<exists>k. dk_file d' = Some (take k header_line)) d1" if "dk_file d1 = Some []" for d1
    by (rule wp_write_header [OF that]) auto
  have locked: "wp (dropped_on_error (and_then (write_header sync) (\<lambda>_.
             ret (Inr \<lparr>jw_sync = sync, jw_next_seq = 0, jw_version = journal_version, jw_poisoned = False\<rparr>)))) ?post d1"
    if "dk_file d1 = Some []" for d1
    by (rule wp_dropped_on_error, unfold wp_and_then, rule wp_mono [OF head [OF that]]) (auto split: sum.splits)
  have "wp (create_journal sync) ?post d"
    unfolding create_journal_def
    by (auto simp: assms(1) same_file_def empty intro!: wp_system_call wp_lock_or_err locked split: sum.splits)
  from wp_run [OF this assms(2)] show ?thesis by simp
qed

lemma header_prefix_line: "k < length header_line \<Longrightarrow> 10 \<notin> set (take k header_line)"
  by (subst header_split(1), subst (asm) header_split(1)) (use header_split(2) in \<open>auto dest: in_set_takeD\<close>)

lemma parse_torn_header:
  assumes "0 < k" "k < length header_line"
  shows "parse_records cd (take k header_line) =
    Inr ((loaded_start journal_version)\<lparr>ld_truncated_tail := Some (tail_from (take k header_line) 0)\<rparr>)"
proof -
  have "take k header_line \<noteq> []" using assms by auto
  from next_line_partial [OF header_prefix_line [OF assms(2)] this, of "[]"]
  show ?thesis by (simp add: parse_records_def loaded_start_def)
qed

lemma empty_file_is_refused:
  assumes "dk_file d = Some []" "run_state (resume_journal cd sync) d = (r, d')"
  shows "\<exists>e. r = Inl e" and "dk_file d' = Some []"
proof -
  have parse: "parse_records cd [] = Inl (Corrupt 1)" by (simp add: parse_records_def next_line_def)
  have "wp (resume_journal cd sync) (\<lambda>r d'. (\<exists>e. r = Inl e) \<and> dk_file d' = Some []) d"
    by (rule wp_resume_journal [OF assms(1)]) (simp_all add: resume_read_def parse)
  from wp_run [OF this assms(2)] show "\<exists>e. r = Inl e" "dk_file d' = Some []" by auto
qed

lemma resume_torn:
  assumes "dk_file d = Some (take k header_line)" "0 < k" "k < length header_line"
    and "run_state (resume_journal cd sync) d = (r, d')"
  shows "case r of
      Inl e \<Rightarrow> \<exists>k. dk_file d' = Some (take k header_line)
    | Inr (w, rs) \<Rightarrow> dk_file d' = Some header_line \<and>
        w = \<lparr>jw_sync = sync, jw_next_seq = 0, jw_version = journal_version, jw_poisoned = False\<rparr>"
proof -
  define post where "post = (\<lambda>(r :: journal_error + journal_writer \<times> resumed) (d' :: disk). case r of
      Inl e \<Rightarrow> \<exists>k. dk_file d' = Some (take k header_line)
    | Inr (w, rs) \<Rightarrow> dk_file d' = Some header_line \<and>
        w = \<lparr>jw_sync = sync, jw_next_seq = 0, jw_version = journal_version, jw_poisoned = False\<rparr>)"
  have stop: "post (Inl e) d1" if "dk_file d1 = Some (take j header_line)" for e d1 j
    using that by (auto simp: post_def)
  have unlock: "post r (d1\<lparr>dk_locked := False\<rparr>) = post r d1" for r d1
    by (simp add: post_def split: sum.splits)
  have empty: "\<exists>k. [] = take k header_line" by (rule exI [of _ 0]) simp
  have head: "wp (write_header sync) (\<lambda>r. case r of Inl e \<Rightarrow> post (Inl e) | Inr x \<Rightarrow>
      (\<lambda>d'. dk_file d' = Some header_line)) d1" if "dk_file d1 = Some []" for d1
    by (rule wp_write_header [OF that]) (auto simp: stop split: sum.splits)
  have body: "wp (resume_read cd sync (take k header_line))
      (\<lambda>r d'. case r of Inl e \<Rightarrow> post (Inl e) (d'\<lparr>dk_locked := False\<rparr>) | Inr x \<Rightarrow> post (Inr x) d') d1"
    if d1: "dk_file d1 = Some (take k header_line)" for d1
  proof -
    have headed: "wp (write_header sync) (\<lambda>r. case r of
          Inl e \<Rightarrow> (\<lambda>d'. post (Inl e) (d'\<lparr>dk_locked := False\<rparr>))
        | Inr x \<Rightarrow> (\<lambda>d'. post (Inr (\<lparr>jw_sync = sync, jw_next_seq = 0, jw_version = journal_version,
            jw_poisoned = False\<rparr>, rs)) d')) d2" if "dk_file d2 = Some []" for d2 rs
      by (rule wp_mono [OF head [OF that]]) (auto simp: post_def split: sum.splits)
    have left: "post (Inl e) d2" if "dk_file d2 = Some []" for e d2
      using stop [of d2 0] that by simp
    show ?thesis
      using d1 headed left stop [of _ k]
      by (auto simp: resume_read_def parse_torn_header [OF assms(2,3)] tail_from_def same_file_def unlock
          split: sum.splits intro!: wp_cut_file wp_system_call)
  qed
  have "wp (resume_journal cd sync) post d"
    by (rule wp_resume_journal [OF assms(1) stop body])
  from wp_run [OF this assms(4)] show ?thesis by (simp add: post_def)
qed

text \<open>A repair leaves the file as it was, or cuts exactly the tail the caller observed.\<close>

lemma repair_post:
  assumes "dk_file d = Some bytes" and run: "run_state (repair_truncated_tail cd tail) d = (r, d')"
  shows "dk_file d' = Some bytes \<and> r \<noteq> Inr () \<or>
    (\<exists>ld. parse_records cd bytes = Inr ld \<and> ld_truncated_tail ld = Some tail \<and>
       dk_file d' = Some (take (tt_byte_offset tail) bytes))"
proof -
  define post where "post = (\<lambda>(r :: journal_error + unit) (d' :: disk).
    (dk_file d' = Some bytes \<and> r \<noteq> Inr ()) \<or>
    (\<exists>ld. parse_records cd bytes = Inr ld \<and> ld_truncated_tail ld = Some tail \<and>
       dk_file d' = Some (take (tt_byte_offset tail) bytes)))"
  have stop: "post (Inl e) d1" if "dk_file d1 = Some bytes" for e d1
    using that by (simp add: post_def)
  have unlock: "post r (d1\<lparr>dk_locked := False\<rparr>) = post r d1" for r d1
    by (simp add: post_def)
  let ?body = "\<lambda>bytes. case parse_records cd bytes of
           Inl e \<Rightarrow> ret (Inl e)
         | Inr ld \<Rightarrow>
             if ld_truncated_tail ld \<noteq> Some tail then ret (Inl StaleTail)
             else and_then (cut_file (tt_byte_offset tail)) (\<lambda>_. system_call)"
  have body: "wp (?body bytes) post d1" if d1: "dk_file d1 = Some bytes" for d1
  proof (cases "\<exists>ld. parse_records cd bytes = Inr ld \<and> ld_truncated_tail ld = Some tail")
    case False
    then show ?thesis using stop [OF d1] by (auto split: sum.splits)
  next
    case True
    then obtain ld where ld: "parse_records cd bytes = Inr ld" "ld_truncated_tail ld = Some tail" by blast
    have cut: "post r d2" if "dk_file d2 = Some (take (tt_byte_offset tail) bytes)" for r d2
      using that ld unfolding post_def by blast
    show ?thesis
      using ld d1 cut stop
      by (auto simp: same_file_def split: sum.splits intro!: wp_cut_file wp_system_call)
  qed
  have locked: "wp (and_then lock_or_err (\<lambda>_. do {
       r \<leftarrow> and_then read_bounded ?body;
       modify (\<lambda>d. d\<lparr>dk_locked := False\<rparr>);
       ret r
     })) post d1" if d1: "dk_file d1 = Some bytes" for d1
  proof (subst wp_and_then, rule wp_lock_or_err)
    fix r :: "journal_error + unit" and d2 :: disk assume d2: "dk_file d2 = dk_file d1"
    have "wp (and_then read_bounded ?body) post d2"
    proof (subst wp_and_then, rule wp_read_bounded)
      fix r :: "journal_error + byte list" and d3 :: disk
      assume d3: "dk_file d3 = dk_file d2"
        and r: "\<forall>b. r = Inr b \<longrightarrow> b = (case dk_file d2 of None \<Rightarrow> [] | Some b \<Rightarrow> b)"
      show "(case r of Inl e \<Rightarrow> post (Inl e) | Inr x \<Rightarrow> wp (?body x) post) d3"
        using r stop body d1 d2 d3 by (cases r) auto
    qed
    then have "wp (and_then read_bounded ?body) (\<lambda>r. wp (do { modify (\<lambda>d. d\<lparr>dk_locked := False\<rparr>); ret r }) post) d2"
      by (rule wp_mono) (simp add: unlock)
    then show "(case r of Inl e \<Rightarrow> post (Inl e) | Inr x \<Rightarrow> wp (do {
       r \<leftarrow> and_then read_bounded ?body;
       modify (\<lambda>d. d\<lparr>dk_locked := False\<rparr>);
       ret r
     }) post) d2"
      using stop d1 d2 by (cases r) (auto simp del: wp_and_then)
  qed
  have "wp (repair_truncated_tail cd tail) post d"
    unfolding repair_truncated_tail_def
  proof (subst wp_and_then, rule wp_open_existing)
    fix r :: "journal_error + unit" and d2 :: disk assume "dk_file d2 = dk_file d"
    then show "(case r of Inl e \<Rightarrow> post (Inl e) | Inr x \<Rightarrow> wp (and_then lock_or_err (\<lambda>_. do {
       r \<leftarrow> and_then read_bounded ?body;
       modify (\<lambda>d. d\<lparr>dk_locked := False\<rparr>);
       ret r
     })) post) d2"
      using stop locked assms(1) by (cases r) (auto simp del: wp_and_then)
  qed
  from wp_run [OF this run] show ?thesis by (auto simp: post_def)
qed

lemma cut_tail_laid_out:
  assumes "laid_out cd bytes v qs tail" "ld = with_tail bytes tail (fold take_in qs (loaded_start v))"
  shows "cut_tail bytes ld = take (length bytes - length tail) bytes"
    "laid_out cd (cut_tail bytes ld) v qs []"
    "ld_truncated_tail ld = Some t \<Longrightarrow> tt_byte_offset t \<noteq> 0"
    "ld\<lparr>ld_truncated_tail := None\<rparr> = fold take_in qs (loaded_start v)"
    "ld_records ld = records_of qs" "ld_version ld = v"
    "ld_truncated_tail ld = Some t \<Longrightarrow> take (tt_byte_offset t) bytes = cut_tail bytes ld"
proof -
  have none: "(fold take_in qs (loaded_start v))\<lparr>ld_truncated_tail := None\<rparr> = fold take_in qs (loaded_start v)"
    using fold_take_in(2) [of qs "loaded_start v"] by (cases "fold take_in qs (loaded_start v)") simp
  show cut: "cut_tail bytes ld = take (length bytes - length tail) bytes"
    by (simp add: cut_tail_def assms(2) with_tail_def tail_from_def)
  show "laid_out cd (cut_tail bytes ld) v qs []"
    unfolding cut by (rule laid_out_cut(2) [OF assms(1)])
  show "ld_truncated_tail ld = Some t \<Longrightarrow> tt_byte_offset t \<noteq> 0"
    using laid_out_cut(1) [OF assms(1)] by (auto simp: assms(2) with_tail_def tail_from_def split: if_splits)
  show "ld\<lparr>ld_truncated_tail := None\<rparr> = fold take_in qs (loaded_start v)"
    by (simp add: assms(2) with_tail_def none)
  show "ld_records ld = records_of qs" "ld_version ld = v" by (simp_all add: assms(2) with_tail_def)
  show "ld_truncated_tail ld = Some t \<Longrightarrow> take (tt_byte_offset t) bytes = cut_tail bytes ld"
    by (simp add: cut_tail_def)
qed

text \<open>A file whose tail was cut, or not, still holds what was acknowledged.\<close>

lemma holds_cut:
  assumes h: "holds cd acked w d v ps rest bytes" and ld: "parse_records cd bytes = Inr ld"
    and d': "dk_file d' = Some bytes \<or> dk_file d' = Some (cut_tail bytes ld)"
  shows "\<exists>rest' bytes'. holds cd acked None d' v ps rest' bytes'"
proof (rule holds_reads [OF h])
  fix extra tail
  assume lay: "laid_out cd bytes v (ps @ extra) tail"
    and parsed: "parse_records cd bytes = Inr (with_tail bytes tail (fold take_in (ps @ extra) (loaded_start v)))"
    and tails: "extra = [] \<Longrightarrow> tail = rest" "extra \<noteq> [] \<Longrightarrow> tail = []"
  have ld_eq: "ld = with_tail bytes tail (fold take_in (ps @ extra) (loaded_start v))" using ld parsed by simp
  note cut = cut_tail_laid_out [OF lay ld_eq]
  show ?thesis
  proof (cases "dk_file d' = Some bytes")
    case True
    then have "holds cd acked None d' v ps rest bytes" using h by (simp add: holds_def)
    then show ?thesis by blast
  next
    case False
    with d' have d': "dk_file d' = Some (cut_tail bytes ld)" by blast
    with False tails cut(1) have "extra = []" by (cases "extra = []") auto
    then have "holds cd acked None d' v ps [] (cut_tail bytes ld)"
      using h d' cut(2) by (simp add: holds_def partial_of_def)
    then show ?thesis by blast
  qed
qed

lemma holds_resumed:
  assumes h: "holds cd acked None d v ps rest bytes" and ld: "parse_records cd bytes = Inr ld"
    and run: "run_state (resume_journal cd sync) d = (r, d')"
  shows "case r of
      Inl e \<Rightarrow> \<exists>rest' bytes'. holds cd acked None d' v ps rest' bytes'
    | Inr (w, rs) \<Rightarrow> \<exists>extra. length extra \<le> 1 \<and>
        holds cd (ld\<lparr>ld_truncated_tail := None\<rparr>) (Some w) d' v (ps @ extra) [] (cut_tail bytes ld) \<and>
        w = \<lparr>jw_sync = sync, jw_next_seq = length (ld_records ld), jw_version = ld_version ld, jw_poisoned = False\<rparr> \<and>
        rs = \<lparr>rs_records = ld_records ld, rs_repaired_tail = ld_truncated_tail ld, rs_version = ld_version ld,
              rs_assemblies = ld_assemblies ld, rs_at_ms = ld_at_ms ld\<rparr>"
proof (rule holds_reads [OF h])
  fix extra tail
  assume lay: "laid_out cd bytes v (ps @ extra) tail" and extra: "length extra \<le> 1"
    and parsed: "parse_records cd bytes = Inr (with_tail bytes tail (fold take_in (ps @ extra) (loaded_start v)))"
  have ld_eq: "ld = with_tail bytes tail (fold take_in (ps @ extra) (loaded_start v))" using ld parsed by simp
  note cut = cut_tail_laid_out [OF lay ld_eq]
  have at: "dk_file d = Some bytes" using h by (simp add: holds_def)
  note post = resume_journal_post [OF at ld cut(3) run]
  show ?thesis
  proof (cases r)
    case (Inl e)
    then have "dk_file d' = Some bytes \<or> dk_file d' = Some (cut_tail bytes ld)" using post by simp
    from holds_cut [OF h ld this] show ?thesis using Inl by simp
  next
    case (Inr x)
    obtain w rs where x: "x = (w, rs)" by (cases x)
    from post have d': "dk_file d' = Some (cut_tail bytes ld)"
      and w: "w = \<lparr>jw_sync = sync, jw_next_seq = length (ld_records ld), jw_version = ld_version ld, jw_poisoned = False\<rparr>"
      and rs: "rs = \<lparr>rs_records = ld_records ld, rs_repaired_tail = ld_truncated_tail ld, rs_version = ld_version ld,
              rs_assemblies = ld_assemblies ld, rs_at_ms = ld_at_ms ld\<rparr>"
      unfolding Inr x by simp_all
    have "holds cd (ld\<lparr>ld_truncated_tail := None\<rparr>) (Some w) d' v (ps @ extra) [] (cut_tail bytes ld)"
      unfolding holds_def using d' cut(2,4,5,6) w by (simp add: partial_of_def)
    with extra w rs show ?thesis unfolding Inr x by auto
  qed
qed

section \<open>Every life keeps what it acknowledged\<close>

lemma header_laid_out: "faithful_codec cd \<Longrightarrow> laid_out cd header_line journal_version [] []"
  unfolding laid_out_def using header_split header_reads
  by (intro exI [of _ "butlast header_line"] exI [of _ "[]"]) auto

lemma holds_fresh:
  assumes "faithful_codec cd" "dk_file d = Some header_line" "jw_next_seq w = 0" "jw_version w = journal_version"
  shows "holds cd (loaded_start journal_version) (Some w) d journal_version [] [] header_line"
  using header_laid_out [OF assms(1)] assms(2-) by (simp add: holds_def partial_of_def)

lemma restarted_writer:
  assumes "faithful_codec cd" "dk_file d = Some (take k header_line)"
    and run: "run_state (resume_journal cd sync) d = (Inr (w, rs), d')"
  shows "dk_file d' = Some header_line \<and> jw_next_seq w = 0 \<and> jw_version w = journal_version"
proof -
  consider "k = 0" | "0 < k" "k < length header_line" | "length header_line \<le> k" by linarith
  then show ?thesis
  proof cases
    case 1
    then have "dk_file d = Some []" using assms(2) by simp
    from empty_file_is_refused(1) [OF this run] show ?thesis by simp
  next
    case 2
    from resume_torn [OF assms(2) this run] show ?thesis by simp
  next
    case 3
    then have whole: "dk_file d = Some header_line" using assms(2) by simp
    have parse: "parse_records cd header_line = Inr (loaded_start journal_version)"
      using parse_records_laid_out [OF header_laid_out [OF assms(1)]] by (simp add: with_tail_def)
    from resume_journal_post [OF whole parse _ run] show ?thesis by (simp add: cut_tail_def)
  qed
qed

lemma life_holds:
  assumes "faithful_codec cd" "journal_life cd acked w d"
  shows "\<exists>v ps rest bytes. holds cd acked w d v ps rest bytes"
  using assms(2)
proof (induction rule: journal_life.induct)
  case (created d sync w d')
  from create_journal_writes [OF created] have d': "dk_file d' = Some header_line"
    "w = \<lparr>jw_sync = sync, jw_next_seq = 0, jw_version = journal_version, jw_poisoned = False\<rparr>" by simp_all
  from holds_fresh [OF assms(1) d'(1), of w] d'(2) show ?case by auto
next
  case (restarted d k sync w rs d')
  with holds_fresh [OF assms(1)] restarted_writer [OF assms(1) restarted] show ?case by blast
next
  case (committed acked w d now masked r w' d')
  then obtain v ps rest bytes where h: "holds cd acked (Some w) d v ps rest bytes" by blast
  from committed.hyps(4) assms(1) committed.hyps(2,3) show ?case
  proof (cases rule: append_record_cases)
    case (2 line w1 r1)
    have "fits v (length (records_of ps)) (written_as w r masked now)" "length (record_of (written_as w r masked now)) = 1"
      using h 2(1) by (auto simp: holds_def written_as_def)
    with holds_appended(1) [OF h 2(2) _ 2(3)] 2(4,5) write_journal_line_next_seq [OF 2(3)] show ?thesis by auto
  qed simp
next
  case (refused acked w d now masked r w' e d')
  then obtain v ps rest bytes where h: "holds cd acked (Some w) d v ps rest bytes" by blast
  from refused.hyps(4) assms(1) refused.hyps(2,3) show ?case
  proof (cases rule: append_record_cases)
    case 1
    then show ?thesis using h by blast
  next
    case (2 line w1 r1)
    have "fits v (length (records_of ps)) (written_as w r masked now)"
      using h 2(1) by (auto simp: holds_def written_as_def)
    with holds_appended(2) [OF h 2(2) _ 2(3)] 2(4,5) show ?thesis by auto
  qed
next
  case (identified acked w d i w' d')
  then obtain v ps rest bytes where h: "holds cd acked (Some w) d v ps rest bytes" by blast
  from identified.hyps(2) assms(1) show ?case
  proof (cases rule: record_assembly_cases)
    case (2 line)
    have "fits v (length (records_of ps)) (ParsedAssembly i)" using h 2(1) by (auto simp: holds_def)
    from holds_appended(1) [OF h 2(2) this 2(3)] write_journal_line_next_seq [OF 2(3)]
    have "holds cd (take_in (ParsedAssembly i) acked) (Some (w'\<lparr>jw_next_seq := jw_next_seq w'\<rparr>)) d'
      v (ps @ [ParsedAssembly i]) [] (bytes @ line @ [10])" by simp
    then show ?thesis by auto
  qed simp
next
  case (unidentified acked w d i w' e d')
  then obtain v ps rest bytes where h: "holds cd acked (Some w) d v ps rest bytes" by blast
  from unidentified.hyps(2) assms(1) show ?case
  proof (cases rule: record_assembly_cases)
    case 1
    then show ?thesis using h by blast
  next
    case (2 line)
    have "fits v (length (records_of ps)) (ParsedAssembly i)" using h 2(1) by (auto simp: holds_def)
    with holds_appended(2) [OF h 2(2) _ 2(3)] show ?thesis by auto
  qed
next
  case (crashed acked w d)
  then show ?case by (auto simp: holds_def)
next
  case (foreseen acked w d answers)
  then show ?case by (auto simp: holds_def)
next
  case (resumed acked d bytes ld sync w rs d')
  then obtain v ps rest bytes' where "holds cd acked None d v ps rest bytes'" by blast
  with resumed.hyps(2) have h: "holds cd acked None d v ps rest bytes" by (simp add: holds_def)
  from holds_resumed [OF h resumed.hyps(3,4)] show ?case by auto
next
  case (not_resumed acked d sync e d')
  then obtain v ps rest bytes where h: "holds cd acked None d v ps rest bytes" by blast
  obtain ld where ld: "parse_records cd bytes = Inr ld" by (rule holds_reads [OF h]) blast
  from holds_resumed [OF h ld not_resumed.hyps(2)] show ?case by auto
next
  case (repaired acked d tail res d')
  then obtain v ps rest bytes where h: "holds cd acked None d v ps rest bytes" by blast
  obtain ld where ld: "parse_records cd bytes = Inr ld" by (rule holds_reads [OF h]) blast
  have "dk_file d = Some bytes" using h by (simp add: holds_def)
  from repair_post [OF this repaired.hyps(2)] ld
  have "dk_file d' = Some bytes \<or> dk_file d' = Some (cut_tail bytes ld)"
    by (auto simp: cut_tail_def)
  from holds_cut [OF h ld this] show ?case by blast
qed

end
