(* ===== verification/SessionJournalClaims.thy ===== *)
theory SessionJournalClaims
  imports SessionJournalLife
begin

text \<open>The properties of the session journal.\<close>

section \<open>What a reader returns\<close>

text \<open>C12: The reader never drops a complete valid line and never repairs: what it returns is exactly a
  header, the lines after it in order, each of them read, and a tail that is no line, reported with its
  place; or a header torn by a crash.\<close>
theorem reader_returns_every_line:
  "parse_records cd bytes = Inr ld \<longleftrightarrow>
     bytes \<noteq> [] \<and> 10 \<notin> set bytes \<and> ld = with_tail bytes bytes (loaded_start journal_version) \<or>
     (\<exists>v ps tail. laid_out cd bytes v ps tail \<and> tail \<in> {[]} \<union> Collect (is_tail cd) \<and>
        ld = with_tail bytes tail (fold take_in ps (loaded_start v)))"
  using parse_records_sound [of cd bytes ld] parse_records_laid_out [of cd bytes] parse_records_no_header [of bytes cd]
  by auto

section \<open>What a crash can take\<close>

text \<open>C9: From the first writer on (of a created file, or of one whose creation stopped within the header
  and was taken over), whatever fails and wherever writers crash, the file reads as everything that was acknowledged,
  in order, with at most the one line in flight after it; a writer that never failed has nothing in
  flight, and every writer goes on at the sequence number after the acknowledged records.\<close>
theorem journal_keeps_what_it_acknowledged:
  assumes "faithful_codec cd" "journal_life cd acked w d"
  shows "\<exists>bytes ld extra. dk_file d = Some bytes \<and> parse_records cd bytes = Inr ld \<and>
    length extra \<le> 1 \<and> ld\<lparr>ld_truncated_tail := None\<rparr> = fold take_in extra acked \<and>
    (\<forall>w'. w = Some w' \<longrightarrow> jw_next_seq w' = length (ld_records acked) \<and>
       (\<not> jw_poisoned w' \<longrightarrow> ld = acked))"
proof -
  from life_holds [OF assms] obtain v ps rest bytes where h: "holds cd acked w d v ps rest bytes" by blast
  show ?thesis
  proof (rule holds_reads [OF h])
    fix extra tail
    assume lay: "laid_out cd bytes v (ps @ extra) tail" and extra: "length extra \<le> 1"
      and parsed: "parse_records cd bytes = Inr (with_tail bytes tail (fold take_in (ps @ extra) (loaded_start v)))"
      and clean: "rest = [] \<Longrightarrow> extra = [] \<and> tail = []"
    have "(with_tail bytes tail (fold take_in (ps @ extra) (loaded_start v)))\<lparr>ld_truncated_tail := None\<rparr> = fold take_in extra acked"
      using cut_tail_laid_out(4) [OF lay refl] h by (simp add: holds_def)
    moreover have "\<forall>w'. w = Some w' \<longrightarrow> jw_next_seq w' = length (ld_records acked) \<and>
       (\<not> jw_poisoned w' \<longrightarrow> with_tail bytes tail (fold take_in (ps @ extra) (loaded_start v)) = acked)"
      using h clean by (auto simp: holds_def with_tail_def)
    moreover have "dk_file d = Some bytes" using h by (simp add: holds_def)
    ultimately show ?thesis using parsed extra by blast
  qed
qed

section \<open>Taking over\<close>

lemma run_calls [simp]:
  assumes "dk_answers d = []"
  shows "run_state next_answer d = (None, d)" "run_state system_call d = (Inr (), d)"
    "run_state (write_all b) d = (Inr (), add_bytes b d)"
    "run_state (cut_file n) d = (Inr (), d\<lparr>dk_file := map_option (take n) (dk_file d)\<rparr>)"
proof -
  show a: "run_state next_answer d = (None, d)" by (simp add: next_answer_def assms)
  show s: "run_state system_call d = (Inr (), d)" by (simp add: system_call_def a)
  show "run_state (write_all b) d = (Inr (), add_bytes b d)" by (simp add: write_all_def a)
  show "run_state (cut_file n) d = (Inr (), d\<lparr>dk_file := map_option (take n) (dk_file d)\<rparr>)"
    by (simp add: cut_file_def s)
qed

lemma run_and_then:
  "run_state (and_then m f) d = (case run_state m d of (Inl e, d') \<Rightarrow> (Inl e, d') | (Inr x, d') \<Rightarrow> run_state (f x) d')"
  by (auto simp: and_then_def split: prod.splits sum.splits)

lemma resume_returns:
  assumes "dk_answers d = []" "\<not> dk_locked d" "dk_file d = Some bytes" "parse_records cd bytes = Inr ld"
    "length bytes \<le> max_journal_bytes"
  shows "\<exists>x d'. run_state (resume_journal cd sync) d = (Inr x, d')"
  using assms
  by (cases "ld_truncated_tail ld")
    (simp_all add: resume_journal_def run_and_then open_existing_def lock_or_err_def dropped_on_error_def
      read_bounded_def write_header_def add_bytes_def Let_def not_less)

text \<open>A file whose creation stopped within the header is taken over and starts a life.\<close>

lemma torn_header_is_taken_over:
  assumes "dk_answers d = []" "\<not> dk_locked d" "dk_file d = Some (take k header_line)" "0 < k" "k < length header_line"
  shows "\<exists>w rs d'. run_state (resume_journal cd sync) d = (Inr (w, rs), d') \<and> dk_file d' = Some header_line \<and>
    jw_next_seq w = 0 \<and> journal_life cd (loaded_start journal_version) (Some w) d'"
proof -
  have "length header_line = 17" by code_simp
  then have "length header_line \<le> max_journal_bytes" by (simp add: max_journal_bytes_def)
  then have "length (take k header_line) \<le> max_journal_bytes" by simp
  from resume_returns [OF assms(1-3) parse_torn_header [OF assms(4,5)] this]
  obtain w rs d' where run: "run_state (resume_journal cd sync) d = (Inr (w, rs), d')" by (metis surj_pair)
  from resume_torn [OF assms(3-5) run] journal_life.restarted [OF assms(3) run] run show ?thesis by auto
qed

text \<open>C10: After a crash a takeover recovers: with the lock free and no failure of the system, it returns
  a writer, the acknowledged records with at most the one in flight, and a file that reads as exactly
  what it returned, with no tail; the writer goes on at the number after the last record.\<close>
theorem takeover_recovers_after_a_crash:
  assumes "faithful_codec cd" "journal_life cd acked None d" "dk_answers d = []" "\<not> dk_locked d"
    "length (the (dk_file d)) \<le> max_journal_bytes"
  shows "\<exists>w rs d' bytes ld extra. run_state (resume_journal cd sync) d = (Inr (w, rs), d') \<and>
    length extra \<le> 1 \<and> rs_records rs = ld_records acked @ extra \<and> jw_next_seq w = length (rs_records rs) \<and>
    \<not> jw_poisoned w \<and> dk_file d' = Some bytes \<and> parse_records cd bytes = Inr ld \<and>
    ld_records ld = rs_records rs \<and> ld_truncated_tail ld = None \<and> journal_life cd ld (Some w) d'"
proof -
  from life_holds [OF assms(1,2)] obtain v ps rest bytes where h: "holds cd acked None d v ps rest bytes" by blast
  then have at: "dk_file d = Some bytes" by (simp add: holds_def)
  show ?thesis
  proof (rule holds_reads [OF h])
    fix extra tail
    assume lay: "laid_out cd bytes v (ps @ extra) tail" and extra: "length extra \<le> 1"
      and parsed: "parse_records cd bytes = Inr (with_tail bytes tail (fold take_in (ps @ extra) (loaded_start v)))"
    let ?ld = "with_tail bytes tail (fold take_in (ps @ extra) (loaded_start v))"
    note cut = cut_tail_laid_out [OF lay refl]
    from assms(5) at have "length bytes \<le> max_journal_bytes" by simp
    from resume_returns [OF assms(3,4) at parsed this] obtain w rs d' where
      run: "run_state (resume_journal cd sync) d = (Inr (w, rs), d')" by (metis surj_pair)
    from holds_resumed [OF h parsed run] have d': "dk_file d' = Some (cut_tail bytes ?ld)"
      and w: "w = \<lparr>jw_sync = sync, jw_next_seq = length (ld_records ?ld), jw_version = ld_version ?ld, jw_poisoned = False\<rparr>"
      and rs: "rs_records rs = ld_records ?ld"
      by (auto simp: holds_def)
    have life: "journal_life cd (?ld\<lparr>ld_truncated_tail := None\<rparr>) (Some w) d'"
      by (rule journal_life.resumed [OF assms(2) at parsed run])
    have again: "parse_records cd (cut_tail bytes ?ld) = Inr (?ld\<lparr>ld_truncated_tail := None\<rparr>)"
      using parse_records_laid_out [OF cut(2)] cut(4) by (simp add: with_tail_def)
    have "length (records_of extra) \<le> 1"
    proof (cases extra)
      case (Cons p more)
      with extra show ?thesis by (cases p) auto
    qed simp
    moreover have "rs_records rs = ld_records acked @ records_of extra"
      unfolding rs cut(5) using h by (simp add: holds_def)
    ultimately show ?thesis
      using run w rs d' again life
      by (intro exI [of _ w] exI [of _ rs] exI [of _ d'] exI [of _ "cut_tail bytes ?ld"]
          exI [of _ "?ld\<lparr>ld_truncated_tail := None\<rparr>"] exI [of _ "records_of extra"]) simp
  qed
qed

section \<open>The store in memory is the specification of the file\<close>

datatype journal_request = RequestCommit journal_record nat nat | RequestIdentity assembly_identity

fun file_run :: "session_codec \<Rightarrow> journal_writer \<Rightarrow> journal_request list \<Rightarrow> (disk, journal_writer \<times> (journal_error + unit) list) state" where
  "file_run cd w [] = ret (w, [])"
| "file_run cd w (RequestCommit r masked now # requests) =
     do {
       (w', a) \<leftarrow> append_record cd w r masked now;
       (w'', answers) \<leftarrow> file_run cd w' requests;
       ret (w'', a # answers)
     }"
| "file_run cd w (RequestIdentity i # requests) =
     do {
       (w', a) \<leftarrow> record_assembly cd w i;
       (w'', answers) \<leftarrow> file_run cd w' requests;
       ret (w'', a # answers)
     }"

fun memory_run :: "memory_journal \<Rightarrow> journal_request list \<Rightarrow> memory_journal \<times> (journal_error + unit) list" where
  "memory_run m [] = (m, [])"
| "memory_run m (RequestCommit r masked now # requests) =
     (let (m', a) = memory_append m r; (m'', answers) = memory_run m' requests in (m'', a # answers))"
| "memory_run m (RequestIdentity i # requests) =
     (let (m'', answers) = memory_run (memory_record_assembly m i) requests in (m'', Inr () # answers))"

fun printable :: "session_codec \<Rightarrow> journal_request \<Rightarrow> bool" where
  "printable cd (RequestCommit r masked now) \<longleftrightarrow> now \<le> u64_max \<and> masked \<le> u64_max \<and>
     \<not> isl (sc_timed cd r now (if masked > 0 then Some masked else None))"
| "printable cd (RequestIdentity i) \<longleftrightarrow> \<not> isl (sc_assembly cd i)"

definition agrees :: "session_codec \<Rightarrow> journal_writer \<Rightarrow> disk \<Rightarrow> memory_journal \<Rightarrow> bool" where
  "agrees cd w d m \<longleftrightarrow>
     (\<exists>acked ps bytes. holds cd acked (Some w) d journal_version ps [] bytes \<and> \<not> jw_poisoned w \<and> dk_answers d = [] \<and>
        mj_records m = ld_records acked \<and> mj_assemblies m = ld_assemblies acked \<and> mj_next_seq m = jw_next_seq w)"

lemma write_journal_line_succeeds:
  "dk_answers d = [] \<Longrightarrow> \<not> jw_poisoned w \<Longrightarrow>
   run_state (write_journal_line w line) d = ((w, Inr ()), add_bytes (line @ [10]) d)"
  by (simp add: write_journal_line_def run_and_then add_bytes_def)

lemma agrees_line:
  assumes h: "holds cd acked (Some w) d journal_version ps [] bytes" and ok: "\<not> jw_poisoned w" "dk_answers d = []"
    and "reads_as cd line p" "fits journal_version (length (records_of ps)) p"
    and m: "mj_records m = ld_records (take_in p acked)" "mj_assemblies m = ld_assemblies (take_in p acked)"
      "mj_next_seq m = jw_next_seq w + length (record_of p)"
  shows "agrees cd (w\<lparr>jw_next_seq := jw_next_seq w + length (record_of p)\<rparr>) (add_bytes (line @ [10]) d) m"
proof -
  from holds_appended(1) [OF h assms(4,5) write_journal_line_succeeds [OF ok(2,1)] refl]
  show ?thesis unfolding agrees_def
    using ok m by (intro exI [of _ "take_in p acked"] exI [of _ "ps @ [p]"] exI [of _ "bytes @ line @ [10]"])
      (simp add: add_bytes_def)
qed

lemma agrees_commit:
  assumes "faithful_codec cd" "agrees cd w d m" "printable cd (RequestCommit r masked now)"
  shows "\<exists>w' d' m' a. run_state (append_record cd w r masked now) d = ((w', a), d') \<and>
    memory_append m r = (m', a) \<and> agrees cd w' d' m'"
proof -
  from assms(2) obtain acked ps bytes where h: "holds cd acked (Some w) d journal_version ps [] bytes"
    and ok: "\<not> jw_poisoned w" "dk_answers d = []"
    and m: "mj_records m = ld_records acked" "mj_assemblies m = ld_assemblies acked" "mj_next_seq m = jw_next_seq w"
    by (auto simp: agrees_def)
  have v: "jw_version w = journal_version" "jw_next_seq w = length (records_of ps)" using h by (auto simp: holds_def)
  show ?thesis
  proof (cases "jr_seq r = jw_next_seq w")
    case False
    then show ?thesis using assms(2) m by (simp add: append_record_def memory_append_def)
  next
    case True
    from assms(3) obtain line where line: "sc_timed cd r now (if masked > 0 then Some masked else None) = Inr line"
      "now \<le> u64_max" "masked \<le> u64_max"
      by (cases "sc_timed cd r now (if masked > 0 then Some masked else None)") auto
    have "agrees cd (w\<lparr>jw_next_seq := jw_next_seq w + length (record_of (ParsedRecord r (Some now) masked))\<rparr>)
        (add_bytes (line @ [10]) d) (m\<lparr>mj_records := mj_records m @ [r], mj_next_seq := mj_next_seq m + 1\<rparr>)"
      by (rule agrees_line [OF h ok timed_reads [OF assms(1) line]]) (use True v m in simp_all)
    then show ?thesis
      using True v(1) m(3) write_journal_line_succeeds [OF ok(2,1)] line(1)
      by (simp add: append_record_def memory_append_def)
  qed
qed

lemma agrees_identity:
  assumes "faithful_codec cd" "agrees cd w d m" "printable cd (RequestIdentity i)"
  shows "\<exists>w' d'. run_state (record_assembly cd w i) d = ((w', Inr ()), d') \<and> agrees cd w' d' (memory_record_assembly m i)"
proof -
  from assms(2) obtain acked ps bytes where h: "holds cd acked (Some w) d journal_version ps [] bytes"
    and ok: "\<not> jw_poisoned w" "dk_answers d = []"
    and m: "mj_records m = ld_records acked" "mj_assemblies m = ld_assemblies acked" "mj_next_seq m = jw_next_seq w"
    by (auto simp: agrees_def)
  have v: "jw_version w = journal_version" "jw_next_seq w = length (ld_records acked)" using h by (auto simp: holds_def)
  from assms(3) obtain line where line: "sc_assembly cd i = Inr line" by (cases "sc_assembly cd i") auto
  have "agrees cd (w\<lparr>jw_next_seq := jw_next_seq w + length (record_of (ParsedAssembly i))\<rparr>)
      (add_bytes (line @ [10]) d) (memory_record_assembly m i)"
    by (rule agrees_line [OF h ok assembly_reads [OF assms(1) line]])
      (simp_all add: memory_record_assembly_def m v journal_version_def journal_version_1_def)
  then show ?thesis
    using v(1) write_journal_line_succeeds [OF ok(2,1)] line
    by (simp add: record_assembly_def journal_version_def journal_version_1_def)
qed

lemma agrees_run:
  assumes "faithful_codec cd"
  shows "agrees cd w d m \<Longrightarrow> list_all (printable cd) requests \<Longrightarrow>
    \<exists>w' d' m' answers. run_state (file_run cd w requests) d = ((w', answers), d') \<and>
      memory_run m requests = (m', answers) \<and> agrees cd w' d' m'"
proof (induction requests arbitrary: w d m)
  case (Cons request requests)
  show ?case
  proof (cases request)
    case (RequestCommit r masked now)
    with Cons.prems have "printable cd (RequestCommit r masked now)" by simp
    from agrees_commit [OF assms Cons.prems(1) this] obtain w1 d1 m1 a where
      1: "run_state (append_record cd w r masked now) d = ((w1, a), d1)" "memory_append m r = (m1, a)" "agrees cd w1 d1 m1"
      by blast
    from Cons.IH [OF 1(3)] Cons.prems(2) obtain w' d' m' answers where
      "run_state (file_run cd w1 requests) d1 = ((w', answers), d')" "memory_run m1 requests = (m', answers)" "agrees cd w' d' m'"
      by auto
    with 1 show ?thesis by (simp add: RequestCommit)
  next
    case (RequestIdentity i)
    with Cons.prems have "printable cd (RequestIdentity i)" by simp
    from agrees_identity [OF assms Cons.prems(1) this] obtain w1 d1 where
      1: "run_state (record_assembly cd w i) d = ((w1, Inr ()), d1)" "agrees cd w1 d1 (memory_record_assembly m i)"
      by blast
    from Cons.IH [OF 1(2)] Cons.prems(2) obtain w' d' m' answers where
      "run_state (file_run cd w1 requests) d1 = ((w', answers), d')"
      "memory_run (memory_record_assembly m i) requests = (m', answers)" "agrees cd w' d' m'"
      by auto
    with 1 show ?thesis by (simp add: RequestIdentity)
  qed
qed simp

lemma create_agrees:
  assumes "faithful_codec cd" "dk_file d = None" "dk_answers d = []" "\<not> dk_locked d"
  shows "\<exists>w d'. run_state (create_journal sync) d = (Inr w, d') \<and> agrees cd w d' memory_new"
proof -
  have "\<exists>w d'. run_state (create_journal sync) d = (Inr w, d') \<and> dk_answers d' = []"
    using assms(2-4)
    by (simp add: create_journal_def run_and_then lock_or_err_def dropped_on_error_def write_header_def add_bytes_def)
  then obtain w d' where run: "run_state (create_journal sync) d = (Inr w, d')" "dk_answers d' = []" by blast
  from create_journal_writes [OF assms(2) run(1)] have d': "dk_file d' = Some header_line"
    "w = \<lparr>jw_sync = sync, jw_next_seq = 0, jw_version = journal_version, jw_poisoned = False\<rparr>" by simp_all
  have "laid_out cd header_line journal_version [] []"
    unfolding laid_out_def using header_split header_reads [OF assms(1)]
    by (intro exI [of _ "butlast header_line"] exI [of _ "[]"]) auto
  then have "holds cd (loaded_start journal_version) (Some w) d' journal_version [] [] header_line"
    using d' by (simp add: holds_def partial_of_def)
  then have "agrees cd w d' memory_new"
    unfolding agrees_def using d'(2) run(2)
    by (intro exI [of _ "loaded_start journal_version"] exI [of _ "[]"] exI [of _ header_line])
      (simp add: memory_new_def loaded_start_def)
  with run(1) show ?thesis by blast
qed

text \<open>C11: The store in memory is the specification of the file: on a system that does not fail, both give
  the same answer to every request of a session, records out of order included, and the file reads as
  the records and identities the memory holds.\<close>
theorem file_implements_the_store_in_memory:
  assumes "faithful_codec cd" "dk_file d = None" "dk_answers d = []" "\<not> dk_locked d"
    "list_all (printable cd) requests"
  shows "\<exists>w d1 w' d2 m answers bytes ld.
    run_state (create_journal sync) d = (Inr w, d1) \<and> run_state (file_run cd w requests) d1 = ((w', answers), d2) \<and>
    memory_run memory_new requests = (m, answers) \<and> dk_file d2 = Some bytes \<and> parse_records cd bytes = Inr ld \<and>
    ld_records ld = mj_records m \<and> ld_assemblies ld = mj_assemblies m \<and> jw_next_seq w' = mj_next_seq m"
proof -
  from create_agrees [OF assms(1-4)] obtain w d1 where c: "run_state (create_journal sync) d = (Inr w, d1)"
    "agrees cd w d1 memory_new" by blast
  from agrees_run [OF assms(1) c(2) assms(5)] obtain w' d2 m answers where
    r: "run_state (file_run cd w requests) d1 = ((w', answers), d2)" "memory_run memory_new requests = (m, answers)"
      "agrees cd w' d2 m" by blast
  from r(3) obtain acked ps bytes where h: "holds cd acked (Some w') d2 journal_version ps [] bytes"
    and m: "mj_records m = ld_records acked" "mj_assemblies m = ld_assemblies acked" "mj_next_seq m = jw_next_seq w'"
    by (auto simp: agrees_def)
  from h parse_records_laid_out [of cd bytes journal_version ps "[]"]
  have "dk_file d2 = Some bytes" "parse_records cd bytes = Inr acked" by (auto simp: holds_def with_tail_def)
  with c(1) r(1,2) m show ?thesis by auto
qed

section \<open>An example\<close>

definition first_record :: journal_record where "first_record = \<lparr>jr_seq = 0, jr_body = RbUserInput [97]\<rparr>"

definition second_record :: journal_record where "second_record = \<lparr>jr_seq = 1, jr_body = RbUserInput [98]\<rparr>"

definition demo_value :: "nat \<Rightarrow> json" where
  "demo_value n = JObject [([110], JNumber [48 + n]), (lit ''at_ms'', JNumber (dec 5))]"

definition demo_codec :: session_codec where
  "demo_codec =
     \<lparr>sc_timed = (\<lambda>r now masked. if now = 5 \<and> masked = None \<and> r = first_record then Inr [48]
        else if now = 5 \<and> masked = None \<and> r = second_record then Inr [49] else Inl []),
      sc_plain = (\<lambda>r. Inl []), sc_assembly = (\<lambda>i. Inl []),
      sc_value = (\<lambda>b. if b = [48] then Some (demo_value 0) else if b = [49] then Some (demo_value 1)
        else if b = butlast header_line then Some (JObject [(lit ''p1_journal'', JNumber (lit ''3''))]) else None),
      sc_read_record = (\<lambda>v. if v = demo_value 0 then Some first_record
        else if v = demo_value 1 then Some second_record else None),
      sc_read_assembly = (\<lambda>v. None)\<rparr>"

lemma demo_faithful: "faithful_codec demo_codec"
proof -
  have header: "butlast header_line = [123, 34, 112, 49, 95, 106, 111, 117, 114, 110, 97, 108, 34, 58, 51, 125]"
    by code_simp
  have "lit ''at_ms'' \<noteq> [110]" "lit ''masked'' \<noteq> [110]" "lit ''masked'' \<noteq> lit ''at_ms''" by code_simp+
  moreover have "first_record \<noteq> second_record" "demo_value 0 \<noteq> demo_value 1"
    by (simp_all add: first_record_def second_record_def demo_value_def)
  moreover have "map_of [([110], x), (lit ''at_ms'', JNumber (dec 5))] (lit ''at_ms'') = Some (JNumber (dec 5))"
    "map_of [([110], x), (lit ''at_ms'', JNumber (dec 5))] (lit ''masked'') = None" for x
    using calculation(1-3) by simp_all
  ultimately show ?thesis
    unfolding faithful_codec_def
    by (simp add: demo_codec_def header demo_value_def del: map_of.simps split: if_splits)
qed

definition empty_disk :: disk where "empty_disk = \<lparr>dk_file = None, dk_locked = False, dk_answers = []\<rparr>"

definition demo_acked :: loaded where
  "demo_acked = take_in (ParsedRecord first_record (Some 5) 0) (loaded_start journal_version)"

definition torn_disk :: disk where
  "torn_disk = \<lparr>dk_file = Some (header_line @ [48, 10, 49]), dk_locked = False, dk_answers = []\<rparr>"

text \<open>One record was acknowledged, the write of a second failed after one byte, and the writer crashed.\<close>

lemma demo_life: "journal_life demo_codec demo_acked None torn_disk"
proof -
  let ?w = "\<lparr>jw_sync = OsBuffered, jw_next_seq = 0, jw_version = journal_version, jw_poisoned = False\<rparr>"
  have differ: "first_record \<noteq> second_record" by (simp add: first_record_def second_record_def)
  have create: "run_state (create_journal OsBuffered) empty_disk =
      (Inr ?w, \<lparr>dk_file = Some header_line, dk_locked = True, dk_answers = []\<rparr>)"
    by (simp add: create_journal_def run_and_then lock_or_err_def dropped_on_error_def write_header_def add_bytes_def
        empty_disk_def)
  have 1: "journal_life demo_codec (loaded_start journal_version) (Some ?w)
      \<lparr>dk_file = Some header_line, dk_locked = True, dk_answers = []\<rparr>"
    by (rule journal_life.created [OF _ create]) (simp add: empty_disk_def)
  have first: "run_state (append_record demo_codec ?w first_record 0 5)
      \<lparr>dk_file = Some header_line, dk_locked = True, dk_answers = []\<rparr> =
      ((?w\<lparr>jw_next_seq := 1\<rparr>, Inr ()), \<lparr>dk_file = Some (header_line @ [48, 10]), dk_locked = True, dk_answers = []\<rparr>)"
    by (simp add: append_record_def write_journal_line_def run_and_then add_bytes_def demo_codec_def first_record_def)
  have "journal_life demo_codec (take_in (written_as ?w first_record 0 5) (loaded_start journal_version))
      (Some (?w\<lparr>jw_next_seq := 1\<rparr>)) \<lparr>dk_file = Some (header_line @ [48, 10]), dk_locked = True, dk_answers = []\<rparr>"
    by (rule journal_life.committed [OF 1 _ _ first]) (simp_all add: u64_max_def)
  then have "journal_life demo_codec demo_acked (Some (?w\<lparr>jw_next_seq := 1\<rparr>))
      \<lparr>dk_file = Some (header_line @ [48, 10]), dk_locked = True, dk_answers = []\<rparr>"
    by (simp add: written_as_def demo_acked_def)
  from journal_life.foreseen [OF this, of "[Some (1, [])]"]
  have 2: "journal_life demo_codec demo_acked (Some (?w\<lparr>jw_next_seq := 1\<rparr>))
      \<lparr>dk_file = Some (header_line @ [48, 10]), dk_locked = True, dk_answers = [Some (1, [])]\<rparr>" by simp
  have second: "run_state (append_record demo_codec (?w\<lparr>jw_next_seq := 1\<rparr>) second_record 0 5)
      \<lparr>dk_file = Some (header_line @ [48, 10]), dk_locked = True, dk_answers = [Some (1, [])]\<rparr> =
      ((?w\<lparr>jw_next_seq := 1, jw_poisoned := True\<rparr>, Inl (JournalIo [])),
       \<lparr>dk_file = Some (header_line @ [48, 10, 49]), dk_locked = True, dk_answers = []\<rparr>)"
    using differ
    by (simp add: append_record_def write_journal_line_def run_and_then write_all_def next_answer_def add_bytes_def
        demo_codec_def first_record_def second_record_def)
  have "journal_life demo_codec demo_acked (Some (?w\<lparr>jw_next_seq := 1, jw_poisoned := True\<rparr>))
       \<lparr>dk_file = Some (header_line @ [48, 10, 49]), dk_locked = True, dk_answers = []\<rparr>"
    by (rule journal_life.refused [OF 2 _ _ second]) (simp_all add: u64_max_def)
  from journal_life.crashed [OF this] show ?thesis by (simp add: torn_disk_def)
qed

lemma journal_keeps_what_it_acknowledged_witness:
  "\<exists>ld extra. parse_records demo_codec (header_line @ [48, 10, 49]) = Inr ld \<and>
    length extra \<le> 1 \<and> ld\<lparr>ld_truncated_tail := None\<rparr> = fold take_in extra demo_acked"
  using journal_keeps_what_it_acknowledged [OF demo_faithful demo_life] by (auto simp: torn_disk_def)

lemma takeover_recovers_after_a_crash_witness:
  "\<exists>w rs d' bytes ld extra. run_state (resume_journal demo_codec EveryRecord) torn_disk = (Inr (w, rs), d') \<and>
    length extra \<le> 1 \<and> rs_records rs = ld_records demo_acked @ extra \<and> jw_next_seq w = length (rs_records rs) \<and>
    \<not> jw_poisoned w \<and> dk_file d' = Some bytes \<and> parse_records demo_codec bytes = Inr ld \<and>
    ld_records ld = rs_records rs \<and> ld_truncated_tail ld = None \<and> journal_life demo_codec ld (Some w) d'"
proof (rule takeover_recovers_after_a_crash [OF demo_faithful demo_life])
  have "length header_line = 17" by code_simp
  then show "length (the (dk_file torn_disk)) \<le> max_journal_bytes"
    by (simp add: torn_disk_def max_journal_bytes_def)
qed (simp_all add: torn_disk_def)

lemma file_implements_the_store_in_memory_witness:
  "\<exists>w d1 w' d2 m answers bytes ld.
    run_state (create_journal EveryRecord) empty_disk = (Inr w, d1) \<and>
    run_state (file_run demo_codec w [RequestCommit second_record 0 5, RequestCommit first_record 0 5]) d1 = ((w', answers), d2) \<and>
    memory_run memory_new [RequestCommit second_record 0 5, RequestCommit first_record 0 5] = (m, answers) \<and>
    dk_file d2 = Some bytes \<and> parse_records demo_codec bytes = Inr ld \<and>
    ld_records ld = mj_records m \<and> ld_assemblies ld = mj_assemblies m \<and> jw_next_seq w' = mj_next_seq m"
  by (rule file_implements_the_store_in_memory [OF demo_faithful])
    (simp_all add: empty_disk_def demo_codec_def u64_max_def)

end
