(* ===== verification/Spec2Isabelle.thy ===== *)
theory Spec2Isabelle
  imports CoreSafety CoreSession ContextPolicy WorkflowClaims EditClaims PatchClaims SessionJournalClaims
begin

text \<open>
  A model of the core of Phaseone (\<open>p1\<close>), a coding-agent harness in Rust, with the theorems that make
  it correct. All paths below are under \<open>src/\<close>.

  \<^bold>\<open>The program.\<close> An agent (\<open>crates/p1-core\<close>) repeats one loop: it sends its history to a model
  provider, consumes the stream of the response, commits the response to a journal, asks a policy
  about each tool call, runs the permitted ones, commits their results, and goes on until the model
  calls no tool. Everything it talks to is a port of \<open>crates/p1-contracts\<close>: the provider, the tools,
  the authorization policy, the context policy, the commit sink, the observer of events. Before each request the
  context policy (\<open>crates/p1-context\<close>) may replace the history by a summary and a verbatim tail. The
  commit sink is a session file (\<open>crates/p1-journal\<close>), from which an agent is resumed after a crash by
  projecting the records (\<open>crates/p1-core/src/resume.rs\<close>). A workflow (\<open>crates/p1-workflow\<close>) is a script
  that runs many agents as steps, under caps per model, with a journal of its own from which a later
  run replays the results it already paid for. The tools are components that see the workspace only
  through the capabilities they import; modelled are \<open>edit\<close> (\<open>crates/p1-tool-edit/logic\<close>) and
  \<open>apply_patch\<close> (\<open>crates/p1-tool-patch/logic\<close>).

  \<^bold>\<open>The theories, in the order of the code.\<close>

  \<^item> \<open>Prelude\<close>: saturating and wrapping arithmetic, strings as lists of scalar values, JSON values, the state
    monad of the asynchronous code with its rule collection \<open>wp_intros\<close>.
  \<^item> \<open>Contracts\<close>, \<open>Attachment\<close>: the data of \<open>p1-contracts\<close> (history items, requests, stream events, records,
    policies) and the operations of \<open>attachment.rs\<close>: content addresses, placeholder texts, base64.
  \<^item> \<open>CoreState\<close> (the record of an agent and its primitive actions: commit, emit, ask the world),
    \<open>CorePairing\<close> (\<open>validate_replacement\<close>, what a complete transcript is), \<open>CoreInbox\<close> (the inbox and its
    deliveries, as an inductive step relation), \<open>CoreTools\<close> (admission, grouping, concurrent execution, recording of the
    calls of a response), \<open>CoreTurn\<close> and \<open>CoreLoop\<close> (construction, requests, the stream, overflow
    recovery, compaction, reconciliation, the entry points of a turn): \<open>crates/p1-core/src/lib.rs\<close>, one
    definition per function. \<open>Resume\<close> is \<open>resume.rs\<close>.
  \<^item> \<open>CoreGroups\<close>, \<open>CoreTrace\<close>, \<open>CoreHistory\<close>: what the grouping and the join do; the discipline of
    the trace (\<open>needs\<close>: what must have happened before each observable action); the link between the
    journal and the live state. \<open>CoreSafety\<close> states it of a turn, \<open>CoreSession\<close> of any sequence of turns,
    resumes, reconfigurations and compactions. \<open>CoreExample\<close> is the small agent of the witnesses.
  \<^item> \<open>ContextPlan\<close> (\<open>lib.rs\<close>, \<open>estimate.rs\<close>, \<open>plan.rs\<close>), \<open>ContextRender\<close> (\<open>render.rs\<close>), \<open>ContextEngine\<close>
    (\<open>engine.rs\<close>, a state machine that asks and is answered), \<open>ContextPolicy\<close> (\<open>summary.rs\<close>, \<open>native.rs\<close>, and
    the interpretation of the core's contracts \<open>transcript_policy\<close> and \<open>compaction_policy\<close> on the policy).
  \<^item> \<open>JsonOrder\<close> (\<open>crates/p1-json-order\<close>), \<open>WorkflowApi\<close> (\<open>api.rs\<close>, \<open>api/values.rs\<close>,
    \<open>decision/contract.rs\<close>), \<open>WorkflowDecision\<close> (\<open>decision/mod.rs\<close>), \<open>WorkflowCheck\<close> (\<open>check.rs\<close>),
    \<open>WorkflowJournal\<close> and \<open>WorkflowReader\<close> (\<open>journal.rs\<close>), \<open>WorkflowRedact\<close> (\<open>redact.rs\<close>), \<open>WorkflowEngine\<close>,
    \<open>WorkflowAgent\<close>, \<open>WorkflowEnd\<close> (\<open>engine.rs\<close>, \<open>caps.rs\<close>). A thread of a run is a program of atomic
    actions on the shared state, the critical sections of the source's mutexes; \<open>WorkflowRun\<close> interleaves any
    number of them. \<open>WorkflowLogic\<close> is a rely-guarantee calculus for such programs, \<open>WorkflowGuarantee\<close>,
    \<open>WorkflowStep\<close>, \<open>WorkflowLoop\<close> and \<open>WorkflowSafety\<close> the proofs in it, \<open>WorkflowPlay\<close> the schedules
    of the witnesses, \<open>WorkflowClaims\<close> the properties. \<open>decision_contract\<close> is the interface between the
    substrate and the decisions, interpreted on the native ones.
  \<^item> \<open>Utf8\<close>, \<open>TextOps\<close>: the operations of Rust's \<open>str\<close> the tools are written with. \<open>EditText\<close>
    (\<open>logic/src/lib.rs\<close>), \<open>EditDiff\<close> (\<open>stale.rs\<close>), \<open>EditCall\<close> (\<open>exec.rs\<close>): the \<open>edit\<close> tool. \<open>EditMatch\<close>,
    \<open>EditLaws\<close>, \<open>EditDiffLaws\<close>, \<open>EditStale\<close>, \<open>EditCallLaws\<close> hold its lemmas, \<open>EditClaims\<close> its properties.
  \<^item> \<open>PatchText\<close> and \<open>PatchPlan\<close> (\<open>patch.rs\<close>), \<open>PatchCall\<close> (\<open>execute.rs\<close>, \<open>lib.rs\<close>): the \<open>apply_patch\<close>
    tool. \<open>PatchApply\<close>: what an update does to the lines of a file. \<open>PatchGrammar\<close>: the parser reads back what the
    advertised grammar prints. \<open>PatchPlanLaws\<close>: planning and coalescing against a patch applied hunk by hunk to a map of
    files. \<open>PatchCallLaws\<close>: what a call asks of any host, planning only reading (the locale \<open>reading_view\<close>) and the
    coalesced changes under the gate. \<open>PatchWorkspace\<close>: a whole call on a quiet host. \<open>PatchClaims\<close>: its properties.
  \<^item> \<open>SessionJournal\<close> (\<open>crates/p1-journal/src/lib.rs\<close>) over a disk whose calls fail;
    \<open>SessionJournalLaws\<close> (the reader on any bytes), \<open>SessionJournalLife\<close> (writers, crashes and takeovers as a step
    relation), \<open>SessionJournalClaims\<close>.

  \<^bold>\<open>What the properties show.\<close> Of the core: nothing runs without assembly, permission and a committed
  record; events follow their records; a refused commit stops the turn; a turn is bracketed; the journal projects
  to the live agent in every state of a session; every request is a complete transcript. A session assumes of
  its context policy that it keeps complete transcripts complete (\<open>pairs_policy\<close>) and, only where it compacts
  while calls are open (\<open>--resume --compact\<close> after a crash), that it opens no other call
  (\<open>keeps_open_calls\<close>): a policy that did would leave a call whose result no projection accepts. The
  summarizing policy is proved to have both. Of the context policy:
  its plan tiles the history and keeps calls with their results, its tail and its transcript are optimal, it ends,
  what it prepares the core accepts, a compaction is the summary, kept user messages and a whole-unit tail cut
  only as far as needed, and it fails softly. Of workflows: the order of a step's events, caps, replay, counts,
  cancellation, the last line of the journal, the contract of the decisions, that a call returns under any
  interference, and that a journal reads back, with the one case in which it does not. Of \<open>edit\<close>: what is
  replaced and what is kept, that only the checked edit is written, that the diff is shortest and a whole refusal
  determines the text. Of \<open>apply_patch\<close>: a call leaves the files the hunks give one after the other, or
  changes nothing, and an update touches only the lines its groups match. Of the session file: whatever fails, what was acknowledged is read, a takeover
  recovers, and without failures the file is the store in memory.

  \<^bold>\<open>Parameters.\<close> What is not under \<open>src/\<close>, or is on the far side of a port, is an argument: the provider,
  tools and policies of an agent (functions on a world state), how serde prints and parses (\<open>edit_codec\<close>,
  \<open>session_codec\<close>, the codec of workflow journals, the printers of scalars), SHA-256, the redaction of \<open>p1-redact\<close>
  in summaries, the host of a tool (\<open>capabilities\<close>, \<open>patch_host\<close>), the characters a debug format prints, the runner and the observer of a workflow. A theorem that needs
  something of them says so in a hypothesis (a codec reads back what it prints and prints no line break) and has a
  witness with a concrete instance.

  \<^bold>\<open>Bounds and fuel.\<close> The loop of a turn and the consumption of a stream end only when the provider
  ends, so they take fuel; a property of a turn holds for every fuel, and running out is a value of its own. The
  driver of the context policy and the loop of a workflow step are proved to end: \<open>step_fuel\<close> is three times the chain, plus the
  replay entries, plus three, and \<open>agent_call_returns\<close> shows it is enough. The read of a file by \<open>edit\<close>
  needs one more round than the file has windows (\<open>edit_call_ends\<close>), and so does that by \<open>apply_patch\<close>
  (\<open>readable\<close>). Machine integers that can wrap or saturate are
  \<open>nat\<close> with the operation written out; positions of strings are counted in characters where the source counts
  bytes of UTF-8 at character boundaries, lengths in bytes where they are compared with a byte bound.

  \<^bold>\<open>Concurrency and the disk.\<close> The concurrent calls of a response complete in an order an oracle chooses;
  the threads of a workflow interleave action by action. A failing write of the session file leaves any prefix
  of its bytes, which also stands for a crash of the process; loss of acknowledged pages by the
  machine (power loss with a lying disk) is not modelled. A life of the file (\<open>journal_life\<close>) starts with its
  first writer: a creation that succeeded, or a takeover of the torn header a failed one left
  (\<open>torn_header_is_taken_over\<close>); the empty file that a crash before the first byte leaves is refused by every
  takeover (\<open>empty_file_is_refused\<close>). A failed append of a workflow journal may leave a part of its line, which the
  reader skips (\<open>journal_reads_back\<close>); a whole line whose sync failed, which the run does not count as
  written, is not modelled.

  \<^bold>\<open>Not modelled.\<close> Wiring, terminal, network and process code has little to prove without the systems
  it talks to: \<open>p1-host\<close>, \<open>p1-tui\<close>, \<open>p1-acp\<close>, \<open>p1-auth\<close>, the provider crates, \<open>p1-mcp-client\<close>, \<open>p1-module-runtime\<close>
  (wasmtime), \<open>p1-usage\<close>, the test crates and the WebAssembly adapters under \<open>modules/\<close> and \<open>connectors/\<close>. Of the modelled crates: the
  rhai sandbox and the thread pool of \<open>p1-workflow\<close>, its service and its report texts, the derived serde
  code of \<open>p1-contracts\<close>, the native fronts of the two tools. Not reached, though they carry logic: the other tools,
  \<open>p1-workspace\<close>, \<open>p1-workers\<close>, \<open>p1-redact\<close>, \<open>p1-assembly\<close>, \<open>p1-hooks\<close>.
\<close>

end
